(* ===== verification/Prelude.thy ===== *)
theory Prelude
  imports Main "HOL-Library.Word" "HOL-Library.AList"
begin

text \<open>
  The shared vocabulary of the development: Go's fixed-width integers as words, the result type
  of a fallible Go function (\<^typ>\<open>'e + 'a\<close>, an error or panic on the left), Go strings as
  \<^typ>\<open>string\<close> and byte slices as \<^typ>\<open>8 word list\<close> with the conversions between them,
  the big-endian integer layouts of the standard package \<open>encoding/binary\<close>, and the generic
  lemmas that the components share.
\<close>

unbundle bit_operations_syntax

named_theorems res_elims \<open>inversion of successful results\<close>
named_theorems wire_simps \<open>evaluation of the wire-format readers on known input\<close>

type_synonym u8 = "8 word"
type_synonym u16 = "16 word"
type_synonym u32 = "32 word"
type_synonym u64 = "64 word"
type_synonym bytes = "8 word list"

section \<open>Results of fallible functions\<close>

definition bind_res :: "'e + 'a \<Rightarrow> ('a \<Rightarrow> 'e + 'b) \<Rightarrow> 'e + 'b" where
  "bind_res r f = (case r of Inl e \<Rightarrow> Inl e | Inr x \<Rightarrow> f x)"

lemma bind_res_simps [simp]:
  "bind_res (Inl e) f = Inl e"
  "bind_res (Inr x) f = f x"
  by (simp_all add: bind_res_def)

lemma bind_res_Inr_iff [res_elims]:
  "bind_res r f = Inr y \<longleftrightarrow> (\<exists>x. r = Inr x \<and> f x = Inr y)"
  by (cases r) simp_all

lemma bind_res_Inl_iff:
  "bind_res r f = Inl e \<longleftrightarrow> r = Inl e \<or> (\<exists>x. r = Inr x \<and> f x = Inl e)"
  by (cases r) simp_all

lemma bind_res_cong [fundef_cong]:
  "r = r' \<Longrightarrow> (\<And>x. r' = Inr x \<Longrightarrow> f x = g x) \<Longrightarrow> bind_res r f = bind_res r' g"
  by (cases r') simp_all

lemma bind_res_assoc: "bind_res (bind_res r f) g = bind_res r (\<lambda>x. bind_res (f x) g)"
  by (cases r) simp_all

definition is_ok :: "'e + 'a \<Rightarrow> bool" where
  "is_ok r \<longleftrightarrow> (case r of Inl _ \<Rightarrow> False | Inr _ \<Rightarrow> True)"

lemma is_ok_simps [simp]: "is_ok (Inr x)" "\<not> is_ok (Inl e)"
  by (simp_all add: is_ok_def)

section \<open>Strings and bytes\<close>

text \<open>A Go string is a sequence of bytes; \<^typ>\<open>char\<close> is Isabelle's type of bytes.\<close>

definition byte_of_char :: "char \<Rightarrow> u8" where
  "byte_of_char c = of_nat (of_char c)"

definition char_of_byte :: "u8 \<Rightarrow> char" where
  "char_of_byte b = char_of (unat b)"

definition str_bytes :: "string \<Rightarrow> bytes" where
  "str_bytes s = map byte_of_char s"

definition bytes_str :: "bytes \<Rightarrow> string" where
  "bytes_str bs = map char_of_byte bs"

lemma unat_byte_of_char: "unat (byte_of_char c) = of_char c"
  by (simp add: byte_of_char_def unat_of_nat take_bit_nat_eq_self)

lemma char_of_byte_of_char [simp]: "char_of_byte (byte_of_char c) = c"
  by (simp add: char_of_byte_def unat_byte_of_char)

lemma byte_of_char_of_byte [simp]: "byte_of_char (char_of_byte b) = b"
proof -
  have "unat b < 256"
    using unsigned_less [of b, where ?'a = nat] by simp
  then have "unat (byte_of_char (char_of_byte b)) = unat b"
    by (simp add: unat_byte_of_char) (simp add: char_of_byte_def)
  then show ?thesis
    by (rule unsigned_word_eqI)
qed

lemma byte_of_char_inject [simp]: "byte_of_char c = byte_of_char d \<longleftrightarrow> c = d"
  by (metis char_of_byte_of_char)

lemma str_bytes_simps [simp]:
  "str_bytes [] = []"
  "str_bytes (c # s) = byte_of_char c # str_bytes s"
  "str_bytes (s @ t) = str_bytes s @ str_bytes t"
  "length (str_bytes s) = length s"
  by (simp_all add: str_bytes_def)

lemma bytes_str_simps [simp]:
  "bytes_str [] = []"
  "bytes_str (b # bs) = char_of_byte b # bytes_str bs"
  "bytes_str (bs @ cs) = bytes_str bs @ bytes_str cs"
  "length (bytes_str bs) = length bs"
  by (simp_all add: bytes_str_def)

lemma bytes_str_bytes [simp]: "bytes_str (str_bytes s) = s"
  by (induction s) simp_all

lemma str_bytes_str [simp]: "str_bytes (bytes_str bs) = bs"
  by (induction bs) simp_all

section \<open>Loops over an index range\<close>

lemma foldl_append_map: "foldl (\<lambda>w i. w @ [f i]) w is = w @ map f is"
  by (induction "is" arbitrary: w) simp_all

section \<open>Big-endian integers (encoding/binary)\<close>

lemma radix3: "(v :: nat) div 65536 * 65536 + v div 256 mod 256 * 256 + v mod 256 = v"
proof -
  have "v div 65536 = v div 256 div 256"
    by (simp add: div_mult2_eq [symmetric])
  then show ?thesis
    using div_mult_mod_eq [of "v div 256" 256] div_mult_mod_eq [of v 256] by linarith
qed

lemma radix4:
  "16777216 * ((v :: nat) div 16777216) + 65536 * (v div 65536 mod 256) + v div 256 mod 256 * 256
    + v mod 256 = v"
proof -
  have "v div 16777216 = v div 65536 div 256"
    by (simp add: div_mult2_eq [symmetric])
  then show ?thesis
    using div_mult_mod_eq [of "v div 65536" 256] radix3 [of v] by linarith
qed

lemma unat_u8_less [simp]: "unat (x :: u8) < 256"
  using unsigned_less [of x, where ?'a = nat] by simp

lemma unat_u16_less [simp]: "unat (x :: u16) < 65536"
  using unsigned_less [of x, where ?'a = nat] by simp

lemma unat_of_nat_less8: "n < 256 \<Longrightarrow> unat (of_nat n :: u8) = n"
  by (simp add: unat_of_nat take_bit_nat_eq_self)

lemma unat_of_nat_u16: "unat (of_nat n :: u16) = n mod 65536"
  by (simp add: unat_of_nat take_bit_eq_mod)

definition put_be16 :: "u16 \<Rightarrow> bytes" where
  "put_be16 x = [ucast (drop_bit 8 x), ucast x]"

definition be16 :: "u8 \<Rightarrow> u8 \<Rightarrow> u16" where
  "be16 a b = push_bit 8 (ucast a) OR ucast b"

definition put_be32 :: "u32 \<Rightarrow> bytes" where
  "put_be32 x = [ucast (drop_bit 24 x), ucast (drop_bit 16 x), ucast (drop_bit 8 x), ucast x]"

definition be32 :: "u8 \<Rightarrow> u8 \<Rightarrow> u8 \<Rightarrow> u8 \<Rightarrow> u32" where
  "be32 a b c d =
     push_bit 24 (ucast a) OR push_bit 16 (ucast b) OR push_bit 8 (ucast c) OR ucast d"

lemma bit_u8_ge [simp]: "8 \<le> n \<Longrightarrow> \<not> bit (b :: u8) n"
  using bit_imp_le_length [of b n] by auto

lemma be16_put [simp]:
  fixes x :: u16
  shows "be16 (ucast (drop_bit 8 x)) (ucast x) = x"
  unfolding be16_def
  by (rule bit_word_eqI) (auto simp add: bit_simps)

lemma be32_put [simp]:
  fixes x :: u32
  shows "be32 (ucast (drop_bit 24 x)) (ucast (drop_bit 16 x)) (ucast (drop_bit 8 x)) (ucast x) = x"
  unfolding be32_def
proof (rule bit_word_eqI)
  fix n
  assume "n < LENGTH(32)"
  then consider "n < 8" | "8 \<le> n" "n < 16" | "16 \<le> n" "n < 24" | "24 \<le> n" "n < 32"
    by fastforce
  then show "bit (push_bit 24 (ucast (ucast (drop_bit 24 x) :: u8) :: u32) OR
      push_bit 16 (ucast (ucast (drop_bit 16 x) :: u8)) OR
      push_bit 8 (ucast (ucast (drop_bit 8 x) :: u8)) OR ucast (ucast x :: u8)) n = bit x n"
    by cases (auto simp add: bit_simps)
qed

lemma bit_128: "bit (128 :: u8) n \<longleftrightarrow> n = 7"
  using bit_exp_iff [of 7 n, where ?'a = u8] by auto

lemma word_take_bit: "unat (p :: 'a::len word) < 2 ^ k \<Longrightarrow> take_bit k p = p"
proof -
  assume "unat p < 2 ^ k"
  then have "unat (take_bit k p) = unat p"
    by (simp add: unsigned_take_bit_eq take_bit_nat_eq_self)
  then show ?thesis by (rule unsigned_word_eqI)
qed

lemma bit_128_int: "bit (128 :: int) n \<longleftrightarrow> n = 7"
  using bit_exp_iff [of 7 n, where ?'a = int] by simp

lemma bit_nat_less: "(b :: nat) < 2 ^ k \<Longrightarrow> bit b n \<Longrightarrow> n < k"
  by (metis bit_take_bit_iff take_bit_nat_eq_self)

lemma or_push_bit_add:
  assumes "b < 2 ^ k"
  shows "push_bit k (a :: nat) OR b = a * 2 ^ k + b"
proof -
  have "push_bit k a AND b = 0"
    using bit_nat_less [OF assms]
    by (intro bit_eqI) (fastforce simp: bit_and_iff bit_push_bit_iff)
  then have "push_bit k a + b = push_bit k a OR b"
    by (rule disjunctive_add_eq_or)
  then show ?thesis by (simp add: push_bit_eq_mult)
qed

lemma be16_nat: "push_bit 8 (unat (a :: u8)) OR unat b = unat (be16 a b)"
proof -
  have "unat a < 2 ^ 16" "push_bit 8 (unat a) < 2 ^ 16" "unat b < 2 ^ 16"
    using less_trans [OF unat_u8_less [of a], of "2 ^ 16"] less_trans [OF unat_u8_less [of b], of "2 ^ 16"]
    by (simp_all add: push_bit_eq_mult)
  then show ?thesis
    by (simp add: be16_def unsigned_or_eq unsigned_push_bit_eq unsigned_ucast_eq
        take_bit_nat_eq_self del: unat_u8_less)
qed

lemma be32_nth: "be32 (put_be32 x ! 0) (put_be32 x ! 1) (put_be32 x ! 2) (put_be32 x ! 3) = x"
  by (simp add: put_be32_def)

lemma put_be32_inject: "put_be32 x = put_be32 y \<longleftrightarrow> x = y"
  by (metis be32_nth)

lemma put_be16_inject: "put_be16 x = put_be16 y \<longleftrightarrow> x = y"
  by (metis be16_put list.inject put_be16_def)

lemma put_be16_be16 [simp]: "put_be16 (be16 a b) = [a, b]"
  unfolding be16_def put_be16_def
  by (auto intro!: bit_word_eqI simp add: bit_simps)

lemma length_put_be [simp]: "length (put_be16 x) = 2" "length (put_be32 y) = 4"
  by (simp_all add: put_be16_def put_be32_def)

section \<open>Association lists as Go maps\<close>

text \<open>
  A Go map is a finite map whose iteration order is unspecified. Where the code iterates over
  one, it is modelled by an association list with distinct keys, in some order: a statement
  about every such list covers every order of iteration.
\<close>

lemma AList_update_new:
  "k \<notin> fst ` set al \<Longrightarrow> AList.update k v al = al @ [(k, v)]"
  by (induction al) auto

end
