(* ===== verification/Strconv.thy ===== *)
theory Strconv
  imports Prelude
begin

text \<open>
  The parts of Go's standard packages \<open>strconv\<close> and \<open>strings\<close> that the modelled code calls:
  decimal formatting and parsing with a bit size, \<open>ParseBool\<close>, \<open>strings.Split\<close> and \<open>Cut\<close> with a
  one-byte separator, \<open>LastIndexByte\<close> and \<open>TrimSpace\<close>. The central facts are that parsing inverts formatting and that splitting
  inverts joining.
\<close>

section \<open>Decimal formatting\<close>

definition digit_char :: "nat \<Rightarrow> char" where
  "digit_char d = char_of (48 + d)"

definition is_digit :: "char \<Rightarrow> bool" where
  "is_digit c \<longleftrightarrow> 48 \<le> (of_char c :: nat) \<and> (of_char c :: nat) \<le> 57"

fun FormatNat :: "nat \<Rightarrow> string" where
  "FormatNat n = (if n < 10 then [digit_char n] else FormatNat (n div 10) @ [digit_char (n mod 10)])"

declare FormatNat.simps [simp del]

definition FormatInt :: "int \<Rightarrow> string" where
  "FormatInt i = (if i < 0 then ''-'' @ FormatNat (nat (- i)) else FormatNat (nat i))"

lemma of_char_digit [simp]: "d < 10 \<Longrightarrow> (of_char (digit_char d) :: nat) = 48 + d"
  by (simp add: digit_char_def)

lemma is_digit_digit_char [simp]: "d < 10 \<Longrightarrow> is_digit (digit_char d)"
  by (simp add: is_digit_def)

lemma FormatNat_digits: "c \<in> set (FormatNat n) \<Longrightarrow> is_digit c"
proof (induction n rule: FormatNat.induct)
  case (1 n)
  then show ?case
    by (cases "n < 10") (auto simp: FormatNat.simps [of n])
qed

lemma FormatNat_nonempty [simp]: "FormatNat n \<noteq> []"
  by (subst FormatNat.simps) simp

lemma length_FormatNat: "n < 10 ^ Suc k \<Longrightarrow> length (FormatNat n) \<le> Suc k"
proof (induction k arbitrary: n)
  case 0
  then show ?case by (simp add: FormatNat.simps [of n])
next
  case (Suc k)
  have "n div 10 < 10 ^ Suc k"
    using Suc.prems by (simp add: less_mult_imp_div_less mult.commute)
  then have "length (FormatNat (n div 10)) \<le> Suc k"
    by (rule Suc.IH)
  then show ?case by (simp add: FormatNat.simps [of n])
qed

section \<open>Parsing\<close>

datatype num_error = ErrSyntax | ErrRange

text \<open>
  The loop of \<open>strconv.ParseUint\<close> in base 10: a non-digit gives \<open>ErrSyntax\<close> and the value 0, a
  value above the maximum of the bit size gives \<open>ErrRange\<close> and that maximum.
\<close>

fun parse_digits :: "nat \<Rightarrow> nat \<Rightarrow> string \<Rightarrow> nat \<times> num_error option" where
  "parse_digits maxVal n [] = (n, None)"
| "parse_digits maxVal n (c # cs) =
     (if \<not> is_digit c then (0, Some ErrSyntax)
      else let n1 = n * 10 + (of_char c - 48)
           in if n1 > maxVal then (maxVal, Some ErrRange) else parse_digits maxVal n1 cs)"

definition ParseUint :: "string \<Rightarrow> nat \<Rightarrow> nat \<times> num_error option" where
  "ParseUint s bitSize = (if s = [] then (0, Some ErrSyntax) else parse_digits (2 ^ bitSize - 1) 0 s)"

definition ParseInt :: "string \<Rightarrow> nat \<Rightarrow> int \<times> num_error option" where
  "ParseInt s bitSize =
     (if s = [] then (0, Some ErrSyntax)
      else let neg = (hd s = CHR ''-'');
               body = (if hd s = CHR ''+'' \<or> hd s = CHR ''-'' then tl s else s);
               cutoff = 2 ^ (bitSize - 1)
           in case ParseUint body bitSize of
                (_, Some ErrSyntax) \<Rightarrow> (0, Some ErrSyntax)
              | (un, _) \<Rightarrow>
                  if \<not> neg \<and> un \<ge> cutoff then (int cutoff - 1, Some ErrRange)
                  else if neg \<and> un > cutoff then (- int cutoff, Some ErrRange)
                  else (if neg then - int un else int un, None))"

definition ParseBool :: "string \<Rightarrow> bool option" where
  "ParseBool s =
     (if s \<in> {''1'', ''t'', ''T'', ''true'', ''TRUE'', ''True''} then Some True
      else if s \<in> {''0'', ''f'', ''F'', ''false'', ''FALSE'', ''False''} then Some False
      else None)"

lemma parse_digits_append:
  "parse_digits m n (s @ t) =
     (case parse_digits m n s of (v, None) \<Rightarrow> parse_digits m v t | r \<Rightarrow> r)"
  by (induction s arbitrary: n) (auto simp: Let_def split: option.splits)

lemma parse_digits_FormatNat:
  "n \<le> m \<Longrightarrow> parse_digits m 0 (FormatNat n) = (n, None)"
proof (induction n rule: FormatNat.induct)
  case (1 n)
  then show ?case
    by (cases "n < 10") (auto simp: FormatNat.simps [of n] parse_digits_append)
qed

lemma ParseUint_FormatNat [simp]: "n < 2 ^ k \<Longrightarrow> ParseUint (FormatNat n) k = (n, None)"
  by (simp add: ParseUint_def parse_digits_FormatNat)

lemma parse_digits_le: "n \<le> m \<Longrightarrow> fst (parse_digits m n s) \<le> m"
  by (induction s arbitrary: n) (auto simp: Let_def)

lemma ParseUint_bound: "fst (ParseUint s k) < 2 ^ k"
proof -
  have "fst (parse_digits (2 ^ k - 1) 0 s) \<le> 2 ^ k - 1"
    by (rule parse_digits_le) simp
  moreover have "(2::nat) ^ k - 1 < 2 ^ k"
    by simp
  ultimately have "fst (parse_digits (2 ^ k - 1) 0 s) < 2 ^ k"
    by (rule le_less_trans)
  then show ?thesis
    by (simp add: ParseUint_def)
qed

lemma hd_FormatNat_digit: "is_digit (hd (FormatNat n))"
  by (rule FormatNat_digits [of _ n]) simp

lemma ParseInt_FormatInt:
  assumes "0 < k" and "- (2 ^ (k - 1)) \<le> i" and "i < 2 ^ (k - 1)"
  shows "ParseInt (FormatInt i) k = (i, None)"
proof -
  have kk: "(2::int) ^ k = 2 * 2 ^ (k - 1)"
    using assms(1) by (cases k) simp_all
  have sign: "hd (FormatNat n) \<noteq> CHR ''-''" "hd (FormatNat n) \<noteq> CHR ''+''" for n
    using hd_FormatNat_digit [of n] by (auto simp: is_digit_def)
  show ?thesis
  proof (cases "i < 0")
    case True
    have lt: "nat (- i) < 2 ^ k"
      using assms kk True by (simp add: nat_less_iff)
    have "\<not> nat (- i) > 2 ^ (k - 1)"
      using assms True by (simp add: not_less nat_le_iff)
    with True lt show ?thesis
      by (simp add: FormatInt_def ParseInt_def Let_def)
  next
    case False
    have lt: "nat i < 2 ^ k"
      using assms kk False by (simp add: nat_less_iff)
    have "\<not> nat i \<ge> 2 ^ (k - 1)"
      using assms False by (simp add: not_le nat_less_iff)
    with False lt sign [of "nat i"] show ?thesis
      by (simp add: FormatInt_def ParseInt_def Let_def)
  qed
qed

section \<open>strings.Split on a one-byte separator\<close>

fun split_on :: "char \<Rightarrow> string \<Rightarrow> string list" where
  "split_on sep [] = [[]]"
| "split_on sep (c # cs) =
     (if c = sep then [] # split_on sep cs
      else case split_on sep cs of [] \<Rightarrow> [[c]] | p # ps \<Rightarrow> (c # p) # ps)"

lemma split_on_nonempty [simp]: "split_on sep s \<noteq> []"
  by (induction s) (auto split: list.splits)

lemma split_on_none: "sep \<notin> set s \<Longrightarrow> split_on sep s = [s]"
  by (induction s) auto

lemma split_on_append:
  "sep \<notin> set s \<Longrightarrow> split_on sep (s @ sep # t) = s # split_on sep t"
  by (induction s) auto

lemma length_split_on: "length (split_on sep s) = Suc (count_list s sep)"
  by (induction s) (auto split: list.splits)

section \<open>Cutting and trimming\<close>

text \<open>The part before the first separator, and the part after it if there is one.\<close>

definition cut_before :: "char \<Rightarrow> string \<Rightarrow> string" where
  "cut_before sep s = takeWhile (\<lambda>c. c \<noteq> sep) s"

text \<open>\<open>LastIndexByte\<close>: the user and domain around the last separator.\<close>

definition last_index :: "char \<Rightarrow> string \<Rightarrow> nat option" where
  "last_index sep s =
     (if sep \<in> set s then Some (length s - 1 - length (takeWhile (\<lambda>c. c \<noteq> sep) (rev s))) else None)"

text \<open>The UTF-8 forms of the characters that \<open>unicode.IsSpace\<close> accepts.\<close>

definition space_forms :: "string list" where
  "space_forms = map bytes_str ([[9], [10], [11], [12], [13], [32], [0xC2, 0x85], [0xC2, 0xA0],
     [0xE1, 0x9A, 0x80], [0xE2, 0x80, 0xA8], [0xE2, 0x80, 0xA9], [0xE2, 0x80, 0xAF], [0xE2, 0x81, 0x9F],
     [0xE3, 0x80, 0x80]] @ map (\<lambda>i. [0xE2, 0x80, 0x80 + of_nat i]) [0..<11])"

fun strip_prefixes :: "nat \<Rightarrow> string list \<Rightarrow> string \<Rightarrow> string" where
  "strip_prefixes 0 forms s = s"
| "strip_prefixes (Suc n) forms s =
     (case List.find (\<lambda>f. take (length f) s = f) forms of
        None \<Rightarrow> s
      | Some f \<Rightarrow> strip_prefixes n forms (drop (length f) s))"

definition TrimSpace :: "string \<Rightarrow> string" where
  "TrimSpace s =
     (let s = strip_prefixes (length s) space_forms s
      in rev (strip_prefixes (length s) (map rev space_forms) (rev s)))"

lemma strip_prefixes_none:
  assumes "\<forall>f \<in> set forms. f \<noteq> [] \<and> hd f \<noteq> hd s" and "s \<noteq> []"
  shows "strip_prefixes n forms s = s"
proof -
  have "take (length f) s \<noteq> f" if "f \<in> set forms" for f
  proof
    assume t: "take (length f) s = f"
    have "f \<noteq> []" "hd f \<noteq> hd s" using that assms(1) by auto
    moreover have "hd (take (length f) s) = hd s" using \<open>f \<noteq> []\<close> by (intro hd_take) simp
    ultimately show False using t by simp
  qed
  then have "List.find (\<lambda>f. take (length f) s = f) forms = None"
    by (auto simp: find_None_iff)
  then show ?thesis by (cases n) simp_all
qed

text \<open>Strings that begin and end with a printable ASCII character are not trimmed.\<close>

definition is_graph :: "char \<Rightarrow> bool" where
  "is_graph c \<longleftrightarrow> 33 \<le> (of_char c :: nat) \<and> (of_char c :: nat) \<le> 126"

lemma space_forms_ends:
  "\<forall>f \<in> set space_forms. f \<noteq> [] \<and> \<not> is_graph (hd f) \<and> \<not> is_graph (last f)"
  by code_simp

lemma TrimSpace_graph:
  assumes "s \<noteq> []" and "is_graph (hd s)" and "is_graph (last s)"
  shows "TrimSpace s = s"
proof -
  have "strip_prefixes (length s) space_forms s = s"
    using assms space_forms_ends by (intro strip_prefixes_none) auto
  moreover have "strip_prefixes (length s) (map rev space_forms) (rev s) = rev s"
    using assms space_forms_ends by (intro strip_prefixes_none) (auto simp: hd_rev)
  ultimately show ?thesis by (simp add: TrimSpace_def)
qed

lemma cut_before_none: "sep \<notin> set s \<Longrightarrow> cut_before sep s = s"
  by (auto simp: cut_before_def takeWhile_eq_all_conv)

lemma cut_before_append: "sep \<notin> set s \<Longrightarrow> cut_before sep (s @ sep # t) = s"
  by (simp add: cut_before_def takeWhile_append)

lemma last_index_append:
  assumes "sep \<notin> set t"
  shows "last_index sep (s @ sep # t) = Some (length s)"
proof -
  have "takeWhile (\<lambda>c. c \<noteq> sep) (rev t @ sep # rev s) = rev t"
    using assms by (simp add: takeWhile_append)
  then show ?thesis by (simp add: last_index_def)
qed

end
