(* ===== verification/JIDs.thy ===== *)
theory JIDs
  imports Strconv
begin

text \<open>
  WhatsApp user identifiers: \<open>lib/types/jid.go\<close>. The struct \<open>JID\<close> is a record with the same
  fields, \<open>ParseJID\<close> returns the partially filled JID together with its error as the code does,
  and \<open>fmt.Sprintf\<close> with \<open>%d\<close> is decimal formatting of the unsigned value.
\<close>

section \<open>The JID struct and the known servers\<close>

record JID =
  User :: string
  RawAgent :: u8
  Device :: u16
  Integrator :: u16
  Server :: string

definition DefaultUserServer :: string where "DefaultUserServer = ''s.whatsapp.net''"
definition GroupServer :: string where "GroupServer = ''g.us''"
definition LegacyUserServer :: string where "LegacyUserServer = ''c.us''"
definition BroadcastServer :: string where "BroadcastServer = ''broadcast''"
definition HiddenUserServer :: string where "HiddenUserServer = ''lid''"
definition MessengerServer :: string where "MessengerServer = ''msgr''"
definition InteropServer :: string where "InteropServer = ''interop''"
definition NewsletterServer :: string where "NewsletterServer = ''newsletter''"
definition HostedServer :: string where "HostedServer = ''hosted''"
definition HostedLIDServer :: string where "HostedLIDServer = ''hosted.lid''"
definition BotServer :: string where "BotServer = ''bot''"

lemmas server_defs = DefaultUserServer_def GroupServer_def LegacyUserServer_def
  BroadcastServer_def HiddenUserServer_def MessengerServer_def InteropServer_def
  NewsletterServer_def HostedServer_def HostedLIDServer_def BotServer_def

definition WhatsAppDomain :: u8 where "WhatsAppDomain = 0"
definition LIDDomain :: u8 where "LIDDomain = 1"
definition HostedDomain :: u8 where "HostedDomain = 128"
definition HostedLIDDomain :: u8 where "HostedLIDDomain = 129"

lemmas domain_defs = WhatsAppDomain_def LIDDomain_def HostedDomain_def HostedLIDDomain_def

definition EmptyJID :: JID where
  "EmptyJID = \<lparr>User = [], RawAgent = 0, Device = 0, Integrator = 0, Server = []\<rparr>"

definition NewJID :: "string \<Rightarrow> string \<Rightarrow> JID" where
  "NewJID user server = EmptyJID\<lparr>User := user, Server := server\<rparr>"

definition StatusBroadcastJID :: JID where
  "StatusBroadcastJID = NewJID ''status'' BroadcastServer"

definition ActualAgent :: "JID \<Rightarrow> u8" where
  "ActualAgent jid =
     (if Server jid = DefaultUserServer then WhatsAppDomain
      else if Server jid = HiddenUserServer then LIDDomain
      else if Server jid = HostedServer then HostedDomain
      else if Server jid = HostedLIDServer then HostedLIDDomain
      else RawAgent jid)"

definition UserInt :: "JID \<Rightarrow> u64" where
  "UserInt jid = of_nat (fst (ParseUint (User jid) 64))"

definition ToNonAD :: "JID \<Rightarrow> JID" where
  "ToNonAD jid = EmptyJID\<lparr>User := User jid, Server := Server jid, Integrator := Integrator jid\<rparr>"

definition SignalAddressUser :: "JID \<Rightarrow> string" where
  "SignalAddressUser jid =
     (let agent = ActualAgent jid
      in if agent \<noteq> 0 then User jid @ ''_'' @ FormatNat (unat agent) else User jid)"

text \<open>The pair of name and device id that the constructor of a Signal address receives.\<close>

definition SignalAddress :: "JID \<Rightarrow> string \<times> u32" where
  "SignalAddress jid = (SignalAddressUser jid, ucast (Device jid))"

definition IsBroadcastList :: "JID \<Rightarrow> bool" where
  "IsBroadcastList jid \<longleftrightarrow>
     Server jid = BroadcastServer \<and> User jid \<noteq> User StatusBroadcastJID"

text \<open>The regular expression \<open>^1313555\d{4}$|^131655500\d{2}$\<close> on the whole string.\<close>

definition botUserRegex :: "string \<Rightarrow> bool" where
  "botUserRegex s \<longleftrightarrow>
     (length s = 11 \<and> take 7 s = ''1313555'' \<and> list_all is_digit (drop 7 s)) \<or>
     (length s = 11 \<and> take 9 s = ''131655500'' \<and> list_all is_digit (drop 9 s))"

definition IsBot :: "JID \<Rightarrow> bool" where
  "IsBot jid \<longleftrightarrow>
     (Server jid = DefaultUserServer \<and> botUserRegex (User jid) \<and> Device jid = 0) \<or>
     Server jid = BotServer"

definition NewADJID :: "string \<Rightarrow> u8 \<Rightarrow> u8 \<Rightarrow> JID" where
  "NewADJID user agent device =
     (let (server, agent') =
        (if agent = LIDDomain then (HiddenUserServer, 0)
         else if agent = HostedDomain then (HostedServer, 0)
         else if agent = HostedLIDDomain then (HostedLIDServer, 0)
         else if agent = WhatsAppDomain then (DefaultUserServer, agent)
         else ([], agent))
      in EmptyJID\<lparr>User := user, RawAgent := agent', Device := ucast device, Server := server\<rparr>)"

section \<open>Text form\<close>

datatype jid_error = UnexpectedDots | UnexpectedColons | DeviceParse num_error

definition ParseJID :: "string \<Rightarrow> JID \<times> jid_error option" where
  "ParseJID jid =
     (let parts = split_on CHR ''@'' jid
      in if length parts = 1 then (NewJID [] (parts ! 0), None)
      else let parsed = EmptyJID\<lparr>User := parts ! 0, Server := parts ! 1\<rparr>
      in if CHR ''.'' \<in> set (User parsed) then
        (let parts = split_on CHR ''.'' (User parsed)
         in if length parts \<noteq> 2 then (parsed, Some UnexpectedDots)
         else let parsed = parsed\<lparr>User := parts ! 0\<rparr>;
                  parts = split_on CHR '':'' (parts ! 1)
         in if length parts > 2 then (parsed, Some UnexpectedColons)
         else case ParseUint (parts ! 0) 8 of
             (_, Some e) \<Rightarrow> (parsed, Some (DeviceParse e))
           | (agent, None) \<Rightarrow>
               (let parsed = parsed\<lparr>RawAgent := of_nat agent\<rparr>
                in if length parts = 2 then
                     (case ParseUint (parts ! 1) 16 of
                        (_, Some e) \<Rightarrow> (parsed, Some (DeviceParse e))
                      | (device, None) \<Rightarrow> (parsed\<lparr>Device := of_nat device\<rparr>, None))
                   else (parsed, None)))
      else if CHR '':'' \<in> set (User parsed) then
        (let parts = split_on CHR '':'' (User parsed)
         in if length parts \<noteq> 2 then (parsed, Some UnexpectedColons)
         else let parsed = parsed\<lparr>User := parts ! 0\<rparr>
         in case ParseUint (parts ! 1) 16 of
              (_, Some e) \<Rightarrow> (parsed, Some (DeviceParse e))
            | (device, None) \<Rightarrow> (parsed\<lparr>Device := of_nat device\<rparr>, None))
      else (parsed, None))"

definition ADString :: "JID \<Rightarrow> string" where
  "ADString jid =
     User jid @ ''.'' @ FormatNat (unat (RawAgent jid)) @ '':'' @ FormatNat (unat (Device jid))
       @ ''@'' @ Server jid"

definition JID_String :: "JID \<Rightarrow> string" where
  "JID_String jid =
     (if Server jid = [] then []
      else if RawAgent jid > 0 then
        User jid @ ''.'' @ FormatNat (unat (RawAgent jid)) @ '':'' @ FormatNat (unat (Device jid))
          @ ''@'' @ Server jid
      else if Device jid > 0 then
        User jid @ '':'' @ FormatNat (unat (Device jid)) @ ''@'' @ Server jid
      else if length (User jid) > 0 then User jid @ ''@'' @ Server jid
      else Server jid)"

definition MarshalText :: "JID \<Rightarrow> bytes" where
  "MarshalText jid = str_bytes (JID_String jid)"

text \<open>The receiver is overwritten only when parsing succeeds.\<close>

definition UnmarshalText :: "JID \<Rightarrow> bytes \<Rightarrow> JID \<times> jid_error option" where
  "UnmarshalText jid val =
     (case ParseJID (bytes_str val) of
        (_, Some e) \<Rightarrow> (jid, Some e)
      | (out, None) \<Rightarrow> (out, None))"

definition IsEmpty :: "JID \<Rightarrow> bool" where
  "IsEmpty jid \<longleftrightarrow> length (Server jid) = 0"

definition IsZero :: "JID \<Rightarrow> bool" where
  "IsZero jid \<longleftrightarrow> IsEmpty jid"

text \<open>The values a SQL driver hands to \<open>Scan\<close>, by dynamic type.\<close>

datatype sql_value = SqlNil | SqlString string | SqlBytes bytes | SqlOther

datatype scan_error = ScanParse jid_error | UnsupportedScanType

definition Scan :: "JID \<Rightarrow> sql_value \<Rightarrow> JID \<times> scan_error option" where
  "Scan jid src =
     (case src of
        SqlNil \<Rightarrow> (jid, None)
      | SqlString val \<Rightarrow>
          (case ParseJID val of (_, Some e) \<Rightarrow> (jid, Some (ScanParse e)) | (out, None) \<Rightarrow> (out, None))
      | SqlBytes val \<Rightarrow>
          (case ParseJID (bytes_str val) of
             (_, Some e) \<Rightarrow> (jid, Some (ScanParse e)) | (out, None) \<Rightarrow> (out, None))
      | SqlOther \<Rightarrow> (jid, Some UnsupportedScanType))"

definition JID_Value :: "JID \<Rightarrow> sql_value" where
  "JID_Value jid = (if length (Server jid) = 0 then SqlNil else SqlString (JID_String jid))"

section \<open>Agents and domains\<close>

lemma servers_distinct [simp]:
  "DefaultUserServer \<noteq> HiddenUserServer" "DefaultUserServer \<noteq> HostedServer"
  "DefaultUserServer \<noteq> HostedLIDServer" "HiddenUserServer \<noteq> HostedServer"
  "HiddenUserServer \<noteq> HostedLIDServer" "HostedServer \<noteq> HostedLIDServer"
  "MessengerServer \<noteq> DefaultUserServer" "MessengerServer \<noteq> HiddenUserServer"
  "MessengerServer \<noteq> HostedServer" "MessengerServer \<noteq> HostedLIDServer"
  "InteropServer \<noteq> DefaultUserServer" "InteropServer \<noteq> HiddenUserServer"
  "InteropServer \<noteq> HostedServer" "InteropServer \<noteq> HostedLIDServer"
  "InteropServer \<noteq> MessengerServer"
  by (simp_all add: server_defs)

lemmas servers_distinct_sym [simp] = servers_distinct [symmetric]

lemma servers_nonempty [simp]:
  "DefaultUserServer \<noteq> []" "HiddenUserServer \<noteq> []" "HostedServer \<noteq> []" "HostedLIDServer \<noteq> []"
  "MessengerServer \<noteq> []" "InteropServer \<noteq> []"
  by (simp_all add: server_defs)

lemma NewADJID_sel [simp]:
  "User (NewADJID u a d) = u"
  "Device (NewADJID u a d) = ucast d"
  "Integrator (NewADJID u a d) = 0"
  by (auto simp: NewADJID_def EmptyJID_def Let_def)

lemma NewJID_sel [simp]:
  "User (NewJID u s) = u" "Server (NewJID u s) = s" "RawAgent (NewJID u s) = 0"
  "Device (NewJID u s) = 0" "Integrator (NewJID u s) = 0"
  by (simp_all add: NewJID_def EmptyJID_def)

lemma ActualAgent_cases:
  "Server j = DefaultUserServer \<Longrightarrow> ActualAgent j = WhatsAppDomain"
  "Server j = HiddenUserServer \<Longrightarrow> ActualAgent j = LIDDomain"
  "Server j = HostedServer \<Longrightarrow> ActualAgent j = HostedDomain"
  "Server j = HostedLIDServer \<Longrightarrow> ActualAgent j = HostedLIDDomain"
  by (simp_all add: ActualAgent_def)

lemma ActualAgent_NewADJID_aux: "ActualAgent (NewADJID u a d) = a"
  by (auto simp: ActualAgent_def NewADJID_def EmptyJID_def domain_defs Let_def
      DefaultUserServer_def HiddenUserServer_def HostedServer_def HostedLIDServer_def)

section \<open>The Signal address separates namespaces\<close>

lemma append_sep_inject:
  assumes "c \<notin> set u" and "c \<notin> set u'" and "u @ c # s = u' @ c # s'"
  shows "u = u' \<and> s = s'"
proof -
  have "takeWhile (\<lambda>x. x \<noteq> c) (u @ c # s) = u" and "takeWhile (\<lambda>x. x \<noteq> c) (u' @ c # s') = u'"
    using assms(1,2) by (auto intro: takeWhile_eq_all_conv [THEN iffD2] simp: takeWhile_append)
  with assms(3) have "u = u'" by metis
  with assms(3) show ?thesis by simp
qed

lemma FormatNat_inject: "FormatNat m = FormatNat n \<longleftrightarrow> m = n"
proof
  assume "FormatNat m = FormatNat n"
  moreover have "fst (parse_digits (m + n) 0 (FormatNat m)) = m"
    and "fst (parse_digits (m + n) 0 (FormatNat n)) = n"
    by (simp_all add: parse_digits_FormatNat)
  ultimately show "m = n" by metis
qed simp

lemma ucast_u16_u32_inject: "(ucast (x :: u16) :: u32) = ucast y \<longleftrightarrow> x = y"
proof
  assume eq: "(ucast x :: u32) = ucast y"
  show "x = y"
  proof (rule bit_word_eqI)
    fix n
    assume "n < LENGTH(16)"
    with eq show "bit x n = bit y n"
      by (auto simp: bit_eq_iff [of "ucast x :: u32"] bit_simps dest: spec [of _ n])
  qed
qed simp

lemma SignalAddressUser_inject:
  assumes "CHR ''_'' \<notin> set (User j)" and "CHR ''_'' \<notin> set (User k)"
    and "SignalAddressUser j = SignalAddressUser k"
  shows "User j = User k \<and> ActualAgent j = ActualAgent k"
proof (cases "ActualAgent j = 0"; cases "ActualAgent k = 0")
  assume "ActualAgent j \<noteq> 0" and "ActualAgent k \<noteq> 0"
  with assms(3) have "User j @ CHR ''_'' # FormatNat (unat (ActualAgent j)) =
      User k @ CHR ''_'' # FormatNat (unat (ActualAgent k))"
    by (simp add: SignalAddressUser_def Let_def)
  from append_sep_inject [OF assms(1,2) this] show ?thesis
    by (auto simp: FormatNat_inject intro: unsigned_word_eqI)
next
  assume "ActualAgent j \<noteq> 0" and "ActualAgent k = 0"
  with assms(3) have "set (User k) = set (User j @ ''_'' @ FormatNat (unat (ActualAgent j)))"
    by (simp add: SignalAddressUser_def Let_def)
  with assms(2) show ?thesis by simp
next
  assume "ActualAgent j = 0" and "ActualAgent k \<noteq> 0"
  with assms(3) have "set (User j) = set (User k @ ''_'' @ FormatNat (unat (ActualAgent k)))"
    by (simp add: SignalAddressUser_def Let_def)
  with assms(1) show ?thesis by simp
qed (use assms in \<open>simp add: SignalAddressUser_def Let_def\<close>)

section \<open>Parsing inverts printing\<close>

text \<open>
  The JIDs whose text form is unambiguous: no separator of the grammar in the user, no second
  @-sign in the server, and no integrator (which the text form does not carry).
\<close>

definition printable_JID :: "JID \<Rightarrow> bool" where
  "printable_JID j \<longleftrightarrow>
     Server j \<noteq> [] \<and> CHR ''@'' \<notin> set (Server j) \<and> Integrator j = 0 \<and>
     CHR ''@'' \<notin> set (User j) \<and> CHR ''.'' \<notin> set (User j) \<and> CHR '':'' \<notin> set (User j)"

lemma FormatNat_no_sep [simp]:
  "CHR ''@'' \<notin> set (FormatNat n)" "CHR ''.'' \<notin> set (FormatNat n)" "CHR '':'' \<notin> set (FormatNat n)"
  using FormatNat_digits by (force simp: is_digit_def)+

lemma ParseUint_unat [simp]:
  "ParseUint (FormatNat (unat (x :: u8))) 8 = (unat x, None)"
  "ParseUint (FormatNat (unat (y :: u16))) 16 = (unat y, None)"
  by simp_all

lemma split_user_server:
  "CHR ''@'' \<notin> set u \<Longrightarrow> CHR ''@'' \<notin> set s \<Longrightarrow> split_on CHR ''@'' (u @ CHR ''@'' # s) = [u, s]"
  by (simp add: split_on_append split_on_none)

lemma ParseJID_plain:
  assumes "CHR ''@'' \<notin> set u" "CHR ''.'' \<notin> set u" "CHR '':'' \<notin> set u" "CHR ''@'' \<notin> set s"
  shows "ParseJID (u @ CHR ''@'' # s) = (NewJID u s, None)"
  using assms by (simp add: ParseJID_def split_user_server NewJID_def EmptyJID_def)

lemma ParseJID_device:
  assumes "CHR ''@'' \<notin> set u" "CHR ''.'' \<notin> set u" "CHR '':'' \<notin> set u" "CHR ''@'' \<notin> set s"
  shows "ParseJID (u @ CHR '':'' # FormatNat (unat (d :: u16)) @ CHR ''@'' # s) =
    ((NewJID u s)\<lparr>Device := d\<rparr>, None)"
proof -
  have "split_on CHR ''@'' ((u @ CHR '':'' # FormatNat (unat d)) @ CHR ''@'' # s) =
      [u @ CHR '':'' # FormatNat (unat d), s]"
    using assms by (intro split_user_server) auto
  with assms show ?thesis
    by (simp add: ParseJID_def split_on_append split_on_none NewJID_def EmptyJID_def Let_def)
qed

lemma ParseJID_agent:
  assumes "CHR ''@'' \<notin> set u" "CHR ''.'' \<notin> set u" "CHR '':'' \<notin> set u" "CHR ''@'' \<notin> set s"
  shows "ParseJID (u @ CHR ''.'' # FormatNat (unat (a :: u8)) @ CHR '':'' #
      FormatNat (unat (d :: u16)) @ CHR ''@'' # s) =
    ((NewJID u s)\<lparr>RawAgent := a, Device := d\<rparr>, None)"
proof -
  have "split_on CHR ''@'' ((u @ CHR ''.'' # FormatNat (unat a) @ CHR '':'' # FormatNat (unat d))
      @ CHR ''@'' # s) = [u @ CHR ''.'' # FormatNat (unat a) @ CHR '':'' # FormatNat (unat d), s]"
    using assms by (intro split_user_server) auto
  with assms show ?thesis
    by (simp add: ParseJID_def split_on_append split_on_none NewJID_def EmptyJID_def Let_def)
qed

lemma ParseJID_String_aux:
  assumes "printable_JID j"
  shows "ParseJID (JID_String j) = (j, None)"
proof -
  have sep: "CHR ''@'' \<notin> set (User j)" "CHR ''.'' \<notin> set (User j)" "CHR '':'' \<notin> set (User j)"
    "CHR ''@'' \<notin> set (Server j)"
    and ne: "Server j \<noteq> []" and int: "Integrator j = 0"
    using assms by (auto simp: printable_JID_def)
  consider "RawAgent j > 0" | "RawAgent j = 0" "Device j > 0"
    | "RawAgent j = 0" "Device j = 0" "User j \<noteq> []" | "RawAgent j = 0" "Device j = 0" "User j = []"
    by (metis word_gt_0)
  then show ?thesis
  proof cases
    case 1
    then show ?thesis
      using ParseJID_agent [OF sep, of "RawAgent j" "Device j"] ne int
      by (simp add: JID_String_def NewJID_def EmptyJID_def)
  next
    case 2
    then show ?thesis
      using ParseJID_device [OF sep, of "Device j"] ne int
      by (simp add: JID_String_def NewJID_def EmptyJID_def)
  next
    case 3
    then show ?thesis
      using ParseJID_plain [OF sep] ne int
      by (simp add: JID_String_def NewJID_def EmptyJID_def)
  next
    case 4
    then show ?thesis
      using sep(4) ne int
      by (simp add: JID_String_def ParseJID_def split_on_none NewJID_def EmptyJID_def)
  qed
qed

section \<open>Properties\<close>

text \<open>
  C19: The text form of a JID is lossless: for every JID whose user and server contain no separator
  of the grammar and which has no integrator, parsing what \<open>String\<close> printed gives the JID back,
  with its agent and device, and no error. The two storage forms built on it, the text marshaller
  and the SQL value, are lossless as well, whatever the receiver held before.
\<close>

theorem JID_text_roundtrip:
  assumes "printable_JID j"
  shows "ParseJID (JID_String j) = (j, None) \<and> UnmarshalText k (MarshalText j) = (j, None) \<and>
    Scan k (JID_Value j) = (j, None)"
  using ParseJID_String_aux [OF assms] assms
  by (simp add: UnmarshalText_def MarshalText_def Scan_def JID_Value_def printable_JID_def)

theorem JID_text_roundtrip_witness:
  "ParseJID (JID_String (NewADJID ''1234'' 1 7)) = (NewADJID ''1234'' 1 7, None)"
proof -
  have "printable_JID (NewADJID ''1234'' 1 7)"
    by (simp add: printable_JID_def NewADJID_def domain_defs server_defs EmptyJID_def)
  from JID_text_roundtrip [OF this] show ?thesis by simp
qed

text \<open>
  Signal sessions of different accounts never share an address: for users without an
  underscore, equal Signal addresses come from the same user, the same domain (WhatsApp, LID,
  hosted) and the same device.
\<close>

theorem SignalAddress_injective:
  assumes "CHR ''_'' \<notin> set (User j)" and "CHR ''_'' \<notin> set (User k)"
    and "SignalAddress j = SignalAddress k"
  shows "User j = User k \<and> ActualAgent j = ActualAgent k \<and> Device j = Device k"
  using SignalAddressUser_inject [OF assms(1,2)] assms(3)
  by (simp add: SignalAddress_def ucast_u16_u32_inject)

theorem SignalAddress_injective_witness:
  "SignalAddress (NewJID ''12'' HiddenUserServer) \<noteq> SignalAddress (NewJID ''12'' DefaultUserServer)"
  using SignalAddress_injective [of "NewJID ''12'' HiddenUserServer" "NewJID ''12'' DefaultUserServer"]
  by (auto simp: ActualAgent_def domain_defs)

text \<open>
  \<open>NewADJID\<close> is inverted by the accessors: the agent byte of the wire format, the device and
  the user can be read back from the JID it builds, for every agent byte; and the four known
  domains are exactly the agents that get a server.
\<close>

theorem NewADJID_inverse:
  "ActualAgent (NewADJID u a d) = a \<and> User (NewADJID u a d) = u \<and> Device (NewADJID u a d) = ucast d \<and>
   (Server (NewADJID u a d) \<noteq> [] \<longleftrightarrow>
     a \<in> {WhatsAppDomain, LIDDomain, HostedDomain, HostedLIDDomain})"
  using ActualAgent_NewADJID_aux [of u a d]
  by (auto simp: NewADJID_def EmptyJID_def domain_defs Let_def)

end
