(* ===== verification/Encoder.thy ===== *)
theory Encoder
  imports JIDs Tokens
begin

text \<open>
  The XML element type \<open>Node\<close> (\<open>lib/binary/node.go\<close>) and the binary XML encoder
  (\<open>lib/binary/encoder.go\<close>). The encoder struct has one field, the output buffer, so its state
  is the byte list written so far; every operation returns the extended buffer, or the panic the
  code raises. \<open>Attrs\<close> is a Go map whose iteration order is unspecified: it is an association
  list in the order of iteration.
\<close>

section \<open>Nodes\<close>

text \<open>
  The dynamic types that \<open>write\<close> distinguishes in a value of type \<open>any\<close>; \<open>OtherV\<close> stands for any
  other type (with its name), on which the encoder panics. Go's \<open>int\<close> and \<open>uint\<close> have 64 bits.
\<close>

datatype node = Node (Tag: string) (Attrs: "(string \<times> any) list") (Content: any)
  and any =
    NilV
  | JIDV JID
  | StrV string
  | IntV "64 word"
  | Int32V "32 word"
  | UintV "64 word"
  | Uint32V "32 word"
  | Int64V "64 word"
  | Uint64V "64 word"
  | BoolV bool
  | BytesV bytes
  | NodesV "node list"
  | OtherV string

section \<open>Output buffer\<close>

type_synonym binaryEncoder = bytes

datatype enc_panic =
    LengthTooLarge nat
  | InvalidType string
  | TooManyBytesToPack nat
  | InvalidPackedType nat
  | InvalidNibble u8
  | InvalidHex u8

definition newEncoder :: binaryEncoder where
  "newEncoder = [0]"

definition getData :: "binaryEncoder \<Rightarrow> bytes" where
  "getData w = w"

definition pushByte :: "binaryEncoder \<Rightarrow> u8 \<Rightarrow> binaryEncoder" where
  "pushByte w b = w @ [b]"

definition pushBytes :: "binaryEncoder \<Rightarrow> bytes \<Rightarrow> binaryEncoder" where
  "pushBytes w bs = w @ bs"

definition pushIntN :: "binaryEncoder \<Rightarrow> nat \<Rightarrow> nat \<Rightarrow> bool \<Rightarrow> binaryEncoder" where
  "pushIntN w value n littleEndian =
     foldl (\<lambda>w i.
       let curShift = (if littleEndian then i else n - i - 1)
       in pushByte w (of_nat (drop_bit (curShift * 8) value AND 0xFF))) w [0..<n]"

definition pushInt20 :: "binaryEncoder \<Rightarrow> nat \<Rightarrow> binaryEncoder" where
  "pushInt20 w value =
     pushBytes w [of_nat (drop_bit 16 value AND 0x0F), of_nat (drop_bit 8 value AND 0xFF),
       of_nat (value AND 0xFF)]"

definition pushInt8 :: "binaryEncoder \<Rightarrow> nat \<Rightarrow> binaryEncoder" where
  "pushInt8 w value = pushIntN w value 1 False"

definition pushInt16 :: "binaryEncoder \<Rightarrow> nat \<Rightarrow> binaryEncoder" where
  "pushInt16 w value = pushIntN w value 2 False"

definition pushInt32 :: "binaryEncoder \<Rightarrow> nat \<Rightarrow> binaryEncoder" where
  "pushInt32 w value = pushIntN w value 4 False"

definition pushString :: "binaryEncoder \<Rightarrow> string \<Rightarrow> binaryEncoder" where
  "pushString w value = pushBytes w (str_bytes value)"

definition writeByteLength :: "binaryEncoder \<Rightarrow> nat \<Rightarrow> enc_panic + binaryEncoder" where
  "writeByteLength w len =
     (if len < 256 then Inr (pushInt8 (pushByte w (of_nat Binary8)) len)
      else if len < 2 ^ 20 then Inr (pushInt20 (pushByte w (of_nat Binary20)) len)
      else if len < 2 ^ 31 - 1 then Inr (pushInt32 (pushByte w (of_nat Binary32)) len)
      else Inl (LengthTooLarge len))"

definition writeBytes :: "binaryEncoder \<Rightarrow> bytes \<Rightarrow> enc_panic + binaryEncoder" where
  "writeBytes w value =
     bind_res (writeByteLength w (length value)) (\<lambda>w. Inr (pushBytes w value))"

definition writeStringRaw :: "binaryEncoder \<Rightarrow> string \<Rightarrow> enc_panic + binaryEncoder" where
  "writeStringRaw w value =
     bind_res (writeByteLength w (length value)) (\<lambda>w. Inr (pushString w value))"

definition writeListStart :: "binaryEncoder \<Rightarrow> nat \<Rightarrow> binaryEncoder" where
  "writeListStart w listSize =
     (if listSize = 0 then pushByte w (of_nat ListEmpty)
      else if listSize < 256 then pushInt8 (pushByte w (of_nat List8)) listSize
      else pushInt16 (pushByte w (of_nat List16)) listSize)"

section \<open>Packed strings\<close>

text \<open>
  The validators range over the runes of the string. Every byte of a non-ASCII string decodes to
  a rune of at least 128, which both reject, so testing the bytes gives the same answer.
\<close>

definition validateNibble :: "string \<Rightarrow> bool" where
  "validateNibble value \<longleftrightarrow> length value \<le> PackedMax \<and>
     list_all (\<lambda>c. is_digit c \<or> c = CHR ''-'' \<or> c = CHR ''.'') value"

definition packNibble :: "u8 \<Rightarrow> enc_panic + u8" where
  "packNibble value =
     (if value = 45 then Inr 10
      else if value = 46 then Inr 11
      else if value = 0 then Inr 15
      else if value \<ge> 48 \<and> value \<le> 57 then Inr (value - 48)
      else Inl (InvalidNibble value))"

definition validateHex :: "string \<Rightarrow> bool" where
  "validateHex value \<longleftrightarrow> length value \<le> PackedMax \<and>
     list_all (\<lambda>c. is_digit c \<or> (65 \<le> (of_char c :: nat) \<and> (of_char c :: nat) \<le> 70)) value"

definition packHex :: "u8 \<Rightarrow> enc_panic + u8" where
  "packHex value =
     (if value \<ge> 48 \<and> value \<le> 57 then Inr (value - 48)
      else if value \<ge> 65 \<and> value \<le> 70 then Inr (10 + value - 65)
      else if value = 0 then Inr 15
      else Inl (InvalidHex value))"

definition packBytePair :: "(u8 \<Rightarrow> enc_panic + u8) \<Rightarrow> u8 \<Rightarrow> u8 \<Rightarrow> enc_panic + u8" where
  "packBytePair packer part1 part2 =
     bind_res (packer part1) (\<lambda>a. bind_res (packer part2) (\<lambda>b. Inr (push_bit 4 a OR b)))"

text \<open>
  The loop over the pairs of bytes of the string, then the last byte of a string of odd length
  paired with a zero byte.
\<close>

fun packPairs ::
  "(u8 \<Rightarrow> enc_panic + u8) \<Rightarrow> binaryEncoder \<Rightarrow> bytes \<Rightarrow> enc_panic + binaryEncoder" where
  "packPairs packer w (a # b # rest) =
     bind_res (packBytePair packer a b) (\<lambda>p. packPairs packer (pushByte w p) rest)"
| "packPairs packer w [a] = bind_res (packBytePair packer a 0) (\<lambda>p. Inr (pushByte w p))"
| "packPairs packer w [] = Inr w"

text \<open>
  The length is at most 127, where \<open>math.Ceil(float64(n) / 2.0)\<close> is exactly \<open>(n + 1) div 2\<close>.
\<close>

definition writePackedBytes :: "binaryEncoder \<Rightarrow> string \<Rightarrow> nat \<Rightarrow> enc_panic + binaryEncoder" where
  "writePackedBytes w value dataType =
     (if length value > PackedMax then Inl (TooManyBytesToPack (length value))
      else let w = pushByte w (of_nat dataType);
               roundedLength = (of_nat ((length value + 1) div 2) :: u8);
               roundedLength = (if length value mod 2 \<noteq> 0 then roundedLength OR 128 else roundedLength);
               w = pushByte w roundedLength
           in if dataType = Nibble8 then packPairs packNibble w (str_bytes value)
              else if dataType = Hex8 then packPairs packHex w (str_bytes value)
              else Inl (InvalidPackedType dataType))"

definition writeString :: "binaryEncoder \<Rightarrow> string \<Rightarrow> enc_panic + binaryEncoder" where
  "writeString w data =
     (case IndexOfSingleToken data of
        Some tokenIndex \<Rightarrow> Inr (pushByte w tokenIndex)
      | None \<Rightarrow>
        (case IndexOfDoubleByteToken data of
           Some (dictIndex, tokenIndex) \<Rightarrow>
             Inr (pushByte (pushByte w (of_nat Dictionary0 + dictIndex)) tokenIndex)
         | None \<Rightarrow>
             if validateNibble data then writePackedBytes w data Nibble8
             else if validateHex data then writePackedBytes w data Hex8
             else writeStringRaw w data))"

section \<open>JIDs, attributes and nodes\<close>

text \<open>On a string, \<open>write\<close> (below: \<open>writeAny\<close>) is \<open>writeString\<close>; that is how it is called here.\<close>

definition writeJID :: "binaryEncoder \<Rightarrow> JID \<Rightarrow> enc_panic + binaryEncoder" where
  "writeJID w jid =
     (if ((Server jid = DefaultUserServer \<or> Server jid = HiddenUserServer) \<and> Device jid > 0) \<or>
         Server jid = HostedServer \<or> Server jid = HostedLIDServer then
        writeString
          (pushByte (pushByte (pushByte w (of_nat ADJID)) (ActualAgent jid))
            (ucast (Device jid AND 0xFF))) (User jid)
      else if Server jid = MessengerServer then
        bind_res (writeString (pushByte w (of_nat FBJID)) (User jid)) (\<lambda>w.
          writeString (pushInt16 w (unat (Device jid))) (Server jid))
      else if Server jid = InteropServer then
        bind_res (writeString (pushByte w (of_nat InteropJID)) (User jid)) (\<lambda>w.
          writeString (pushInt16 (pushInt16 w (unat (Device jid))) (unat (Integrator jid)))
            (Server jid))
      else
        bind_res
          (if length (User jid) = 0
           then Inr (pushByte (pushByte w (of_nat JIDPair)) (of_nat ListEmpty))
           else writeString (pushByte w (of_nat JIDPair)) (User jid))
          (\<lambda>w. writeString w (Server jid)))"

text \<open>The attributes that \<open>countAttributes\<close> and \<open>writeAttributes\<close> skip: \<open>val == "" || val == nil\<close>.\<close>

definition skipped :: "any \<Rightarrow> bool" where
  "skipped val \<longleftrightarrow> val = StrV [] \<or> val = NilV"

definition countAttributes :: "(string \<times> any) list \<Rightarrow> nat" where
  "countAttributes attributes =
     foldl (\<lambda>count (key, val). if skipped val then count else count + 1) 0 attributes"

definition tagSize :: nat where "tagSize = 1"

fun writeNode :: "binaryEncoder \<Rightarrow> node \<Rightarrow> enc_panic + binaryEncoder"
  and writeAny :: "binaryEncoder \<Rightarrow> any \<Rightarrow> enc_panic + binaryEncoder"
  and writeNodes :: "binaryEncoder \<Rightarrow> node list \<Rightarrow> enc_panic + binaryEncoder"
  and writeAttributes :: "binaryEncoder \<Rightarrow> (string \<times> any) list \<Rightarrow> enc_panic + binaryEncoder"
where
  "writeNode w (Node tag attrs content) =
     (if tag = ''0'' then Inr (pushByte (pushByte w (of_nat List8)) (of_nat ListEmpty))
      else
        let hasContent = (if content \<noteq> NilV then 1 else 0)
        in bind_res
          (writeString (writeListStart w (2 * countAttributes attrs + tagSize + hasContent)) tag)
          (\<lambda>w. bind_res (writeAttributes w attrs)
          (\<lambda>w. if content \<noteq> NilV then writeAny w content else Inr w)))"
| "writeAny w data =
     (case data of
        NilV \<Rightarrow> Inr (pushByte w (of_nat ListEmpty))
      | JIDV jid \<Rightarrow> writeJID w jid
      | StrV s \<Rightarrow> writeString w s
      | IntV x \<Rightarrow> writeString w (FormatInt (sint x))
      | Int32V x \<Rightarrow> writeString w (FormatInt (sint x))
      | UintV x \<Rightarrow> writeString w (FormatNat (unat x))
      | Uint32V x \<Rightarrow> writeString w (FormatNat (unat x))
      | Int64V x \<Rightarrow> writeString w (FormatInt (sint x))
      | Uint64V x \<Rightarrow> writeString w (FormatNat (unat x))
      | BoolV b \<Rightarrow> writeString w (if b then ''true'' else ''false'')
      | BytesV bs \<Rightarrow> writeBytes w bs
      | NodesV ns \<Rightarrow> writeNodes (writeListStart w (length ns)) ns
      | OtherV ty \<Rightarrow> Inl (InvalidType ty))"
| "writeNodes w [] = Inr w"
| "writeNodes w (n # ns) = bind_res (writeNode w n) (\<lambda>w. writeNodes w ns)"
| "writeAttributes w [] = Inr w"
| "writeAttributes w ((key, val) # attributes) =
     (if skipped val then writeAttributes w attributes
      else bind_res (writeString w key) (\<lambda>w.
           bind_res (writeAny w val) (\<lambda>w. writeAttributes w attributes)))"

declare writeAny.simps [simp del]

definition Marshal :: "node \<Rightarrow> enc_panic + bytes" where
  "Marshal n = bind_res (writeNode newEncoder n) (\<lambda>w. Inr (getData w))"

end
