(* ===== verification/Decoder.thy ===== *)
theory Decoder
  imports Encoder
begin

text \<open>
  The binary XML decoder: \<open>lib/binary/decoder.go\<close>, \<open>Unmarshal\<close> of \<open>node.go\<close> and \<open>Unpack\<close> of
  \<open>unpack.go\<close>. The decoder state is the record of the input and the read position; every
  operation returns its value with the advanced state, or the error it reports. Go's \<open>int\<close> has 64
  bits, so that the lengths read here (at most 32 bits) neither overflow nor go negative.

  \<open>read\<close> and \<open>readNode\<close> call each other as deep as the input nests. The model counts that depth
  with a fuel argument; \<open>Unmarshal\<close> supplies one more than the number of input bytes, which is
  enough on every input because each call consumes a byte before it recurses
  (\<open>readNode_enough_fuel\<close> below).
\<close>

section \<open>State and errors\<close>

record binaryDecoder =
  data :: bytes
  index :: nat

datatype dec_error =
    EOF
  | PackedOddWithoutData
  | UnpackUnknownTag nat
  | UnpackNibbleValue u8
  | UnpackHexValue u8
  | UnknownListTag nat nat
  | ErrInvalidToken nat nat
  | ErrToken token_error
  | ErrInvalidJIDType
  | ErrInvalidNode
  | ErrNonStringKey nat
  | LeftoverBytes nat
  | OutOfFuel

type_synonym 'a reader = "binaryDecoder \<Rightarrow> dec_error + ('a \<times> binaryDecoder)"

definition newDecoder :: "bytes \<Rightarrow> binaryDecoder" where
  "newDecoder d = \<lparr>data = d, index = 0\<rparr>"

definition checkEOS :: "binaryDecoder \<Rightarrow> nat \<Rightarrow> bool" where
  "checkEOS r len \<longleftrightarrow> index r + len > length (data r)"

section \<open>Bytes and integers\<close>

definition readByte :: "u8 reader" where
  "readByte r =
     (if checkEOS r 1 then Inl EOF
      else Inr (data r ! index r, r\<lparr>index := index r + 1\<rparr>))"

definition readIntN :: "nat \<Rightarrow> bool \<Rightarrow> nat reader" where
  "readIntN n littleEndian r =
     (if checkEOS r n then Inl EOF
      else Inr (foldl (\<lambda>ret i.
          let curShift = (if littleEndian then i else n - i - 1)
          in ret OR push_bit (curShift * 8) (unat (data r ! (index r + i)))) 0 [0..<n],
        r\<lparr>index := index r + n\<rparr>))"

definition readInt8 :: "bool \<Rightarrow> nat reader" where
  "readInt8 littleEndian = readIntN 1 littleEndian"

definition readInt16 :: "bool \<Rightarrow> nat reader" where
  "readInt16 littleEndian = readIntN 2 littleEndian"

definition readInt20 :: "nat reader" where
  "readInt20 r =
     (if checkEOS r 3 then Inl EOF
      else Inr (push_bit 16 (unat (data r ! index r) AND 15) + push_bit 8 (unat (data r ! (index r + 1)))
          + unat (data r ! (index r + 2)),
        r\<lparr>index := index r + 3\<rparr>))"

definition readInt32 :: "bool \<Rightarrow> nat reader" where
  "readInt32 littleEndian = readIntN 4 littleEndian"

definition readRaw :: "nat \<Rightarrow> bytes reader" where
  "readRaw len r =
     (if checkEOS r len then Inl EOF
      else Inr (take len (drop (index r) (data r)), r\<lparr>index := index r + len\<rparr>))"

definition readBytesOrString :: "nat \<Rightarrow> bool \<Rightarrow> any reader" where
  "readBytesOrString len asString r =
     bind_res (readRaw len r) (\<lambda>(d, r).
       Inr (if asString then StrV (bytes_str d) else BytesV d, r))"

section \<open>Packed strings\<close>

definition unpackNibble :: "u8 \<Rightarrow> dec_error + u8" where
  "unpackNibble value =
     (if value < 10 then Inr (48 + value)
      else if value = 10 then Inr 45
      else if value = 11 then Inr 46
      else if value = 15 then Inr 0
      else Inl (UnpackNibbleValue value))"

definition unpackHex :: "u8 \<Rightarrow> dec_error + u8" where
  "unpackHex value =
     (if value < 10 then Inr (48 + value)
      else if value < 16 then Inr (65 + value - 10)
      else Inl (UnpackHexValue value))"

definition unpackByte :: "nat \<Rightarrow> u8 \<Rightarrow> dec_error + u8" where
  "unpackByte tag value =
     (if tag = Nibble8 then unpackNibble value
      else if tag = Hex8 then unpackHex value
      else Inl (UnpackUnknownTag tag))"

fun readPackedLoop :: "nat \<Rightarrow> nat \<Rightarrow> bytes \<Rightarrow> bytes reader" where
  "readPackedLoop tag 0 build r = Inr (build, r)"
| "readPackedLoop tag (Suc n) build r =
     bind_res (readByte r) (\<lambda>(currByte, r).
     bind_res (unpackByte tag (drop_bit 4 (currByte AND 0xF0))) (\<lambda>lower.
     bind_res (unpackByte tag (currByte AND 0x0F)) (\<lambda>upper.
     readPackedLoop tag n (build @ [lower, upper]) r)))"

definition readPacked8 :: "nat \<Rightarrow> string reader" where
  "readPacked8 tag r =
     bind_res (readByte r) (\<lambda>(startByte, r).
     bind_res (readPackedLoop tag (unat (startByte AND 127)) [] r) (\<lambda>(ret, r).
     if drop_bit 7 startByte \<noteq> 0 then
       (if length ret = 0 then Inl PackedOddWithoutData else Inr (bytes_str (butlast ret), r))
     else Inr (bytes_str ret, r)))"

definition readListSize :: "nat \<Rightarrow> nat reader" where
  "readListSize tag r =
     (if tag = ListEmpty then Inr (0, r)
      else if tag = List8 then readInt8 False r
      else if tag = List16 then readInt16 False r
      else Inl (UnknownListTag tag (index r)))"

section \<open>JIDs, attributes, lists\<close>

text \<open>
  The parts of the mutual recursion take the reader of values (\<open>read\<close>) or of nodes
  (\<open>readNode\<close>) that they call as an argument.
\<close>

definition readJIDPair :: "(bool \<Rightarrow> any reader) \<Rightarrow> any reader" where
  "readJIDPair rd r =
     bind_res (rd True r) (\<lambda>(user, r).
     bind_res (rd True r) (\<lambda>(server, r).
     case server of
       StrV serverStr \<Rightarrow>
         (case user of
            NilV \<Rightarrow> Inr (JIDV (NewJID [] serverStr), r)
          | StrV userStr \<Rightarrow> Inr (JIDV (NewJID userStr serverStr), r)
          | _ \<Rightarrow> Inl ErrInvalidJIDType)
     | _ \<Rightarrow> Inl ErrInvalidJIDType))"

definition readInteropJID :: "(bool \<Rightarrow> any reader) \<Rightarrow> any reader" where
  "readInteropJID rd r =
     bind_res (rd True r) (\<lambda>(user, r).
     bind_res (readInt16 False r) (\<lambda>(device, r).
     bind_res (readInt16 False r) (\<lambda>(integrator, r).
     bind_res (rd True r) (\<lambda>(server, r).
     if server \<noteq> StrV InteropServer then Inl ErrInvalidJIDType
     else case user of
         StrV userStr \<Rightarrow>
           Inr (JIDV (EmptyJID\<lparr>User := userStr, Device := of_nat device,
             Integrator := of_nat integrator, Server := InteropServer\<rparr>), r)
       | _ \<Rightarrow> Inl ErrInvalidJIDType))))"

definition readFBJID :: "(bool \<Rightarrow> any reader) \<Rightarrow> any reader" where
  "readFBJID rd r =
     bind_res (rd True r) (\<lambda>(user, r).
     bind_res (readInt16 False r) (\<lambda>(device, r).
     bind_res (rd True r) (\<lambda>(server, r).
     if server \<noteq> StrV MessengerServer then Inl ErrInvalidJIDType
     else case user of
         StrV userStr \<Rightarrow>
           Inr (JIDV (EmptyJID\<lparr>User := userStr, Device := of_nat device,
             Server := MessengerServer\<rparr>), r)
       | _ \<Rightarrow> Inl ErrInvalidJIDType)))"

definition readADJID :: "(bool \<Rightarrow> any reader) \<Rightarrow> any reader" where
  "readADJID rd r =
     bind_res (readByte r) (\<lambda>(agent, r).
     bind_res (readByte r) (\<lambda>(device, r).
     bind_res (rd True r) (\<lambda>(user, r).
     case user of
         StrV userStr \<Rightarrow> Inr (JIDV (NewADJID userStr agent device), r)
       | _ \<Rightarrow> Inl ErrInvalidJIDType)))"

fun readAttributesLoop ::
  "(bool \<Rightarrow> any reader) \<Rightarrow> nat \<Rightarrow> (string \<times> any) list \<Rightarrow> (string \<times> any) list reader" where
  "readAttributesLoop rd 0 ret r = Inr (ret, r)"
| "readAttributesLoop rd (Suc n) ret r =
     bind_res (rd True r) (\<lambda>(keyIfc, r).
     case keyIfc of
       StrV key \<Rightarrow>
         bind_res (rd True r) (\<lambda>(val, r). readAttributesLoop rd n (AList.update key val ret) r)
     | _ \<Rightarrow> Inl (ErrNonStringKey (index r)))"

text \<open>For \<open>n = 0\<close> the code returns a nil map, which reads like the empty map of the loop.\<close>

definition readAttributes :: "(bool \<Rightarrow> any reader) \<Rightarrow> nat \<Rightarrow> (string \<times> any) list reader" where
  "readAttributes rd n r = readAttributesLoop rd n [] r"

fun readListLoop :: "node reader \<Rightarrow> nat \<Rightarrow> node list \<Rightarrow> node list reader" where
  "readListLoop rn 0 ret r = Inr (ret, r)"
| "readListLoop rn (Suc n) ret r =
     bind_res (rn r) (\<lambda>(nd, r). readListLoop rn n (ret @ [nd]) r)"

definition readList :: "node reader \<Rightarrow> nat \<Rightarrow> any reader" where
  "readList rn tag r =
     bind_res (readListSize tag r) (\<lambda>(size, r).
     bind_res (readListLoop rn size [] r) (\<lambda>(ns, r). Inr (NodesV ns, r)))"

section \<open>Values and nodes\<close>

definition as_str :: "dec_error + (string \<times> binaryDecoder) \<Rightarrow> dec_error + (any \<times> binaryDecoder)" where
  "as_str res = bind_res res (\<lambda>(s, r). Inr (StrV s, r))"

fun read :: "nat \<Rightarrow> bool \<Rightarrow> any reader"
  and readNode :: "nat \<Rightarrow> node reader"
where
  "read 0 str r = Inl OutOfFuel"
| "read (Suc fuel) str r =
     bind_res (readByte r) (\<lambda>(tagByte, r).
     let tag = unat tagByte in
     if tag = ListEmpty then Inr (NilV, r)
     else if tag = List8 \<or> tag = List16 then readList (readNode fuel) tag r
     else if tag = Binary8 then
       bind_res (readInt8 False r) (\<lambda>(size, r). readBytesOrString size str r)
     else if tag = Binary20 then
       bind_res (readInt20 r) (\<lambda>(size, r). readBytesOrString size str r)
     else if tag = Binary32 then
       bind_res (readInt32 False r) (\<lambda>(size, r). readBytesOrString size str r)
     else if tag = Dictionary0 \<or> tag = Dictionary1 \<or> tag = Dictionary2 \<or> tag = Dictionary3 then
       bind_res (readInt8 False r) (\<lambda>(i, r).
         case GetDoubleToken (tag - Dictionary0) i of
           Inl e \<Rightarrow> Inl (ErrToken e) | Inr s \<Rightarrow> Inr (StrV s, r))
     else if tag = FBJID then readFBJID (read fuel) r
     else if tag = InteropJID then readInteropJID (read fuel) r
     else if tag = JIDPair then readJIDPair (read fuel) r
     else if tag = ADJID then readADJID (read fuel) r
     else if tag = Nibble8 \<or> tag = Hex8 then as_str (readPacked8 tag r)
     else if tag \<ge> 1 \<and> tag < length SingleByteTokens then Inr (StrV (SingleByteTokens ! tag), r)
     else Inl (ErrInvalidToken tag (index r)))"
| "readNode 0 r = Inl OutOfFuel"
| "readNode (Suc fuel) r =
     bind_res (readInt8 False r) (\<lambda>(size, r).
     bind_res (readListSize size r) (\<lambda>(listSize, r).
     bind_res (read fuel True r) (\<lambda>(rawDesc, r).
     case rawDesc of
       StrV tag \<Rightarrow>
         if listSize = 0 \<or> tag = [] then Inl ErrInvalidNode
         else
           bind_res (readAttributes (read fuel) (drop_bit 1 (listSize - 1)) r) (\<lambda>(attrs, r).
           if listSize mod 2 = 1 then Inr (Node tag attrs NilV, r)
           else bind_res (read fuel False r) (\<lambda>(content, r). Inr (Node tag attrs content, r)))
     | _ \<Rightarrow> Inl ErrInvalidNode)))"

text \<open>
  The result pair of \<open>Unmarshal\<close>: the node pointer (\<open>None\<close> for nil) and the error. A node followed
  by further bytes is returned together with the error that reports them.
\<close>

definition Unmarshal :: "bytes \<Rightarrow> node option \<times> dec_error option" where
  "Unmarshal d =
     (case readNode (length d + 1) (newDecoder d) of
        Inl err \<Rightarrow> (None, Some err)
      | Inr (n, r) \<Rightarrow>
          if index r \<noteq> length (data r) then (Some n, Some (LeftoverBytes (length (data r) - index r)))
          else (Some n, None))"

section \<open>Unpacking a received frame\<close>

text \<open>
  \<open>inflate\<close> stands for \<open>zlib.NewReader\<close> followed by \<open>io.ReadAll\<close> from the standard library.
\<close>

datatype 'z unpack_error = ErrUnexpectedEOF | ErrZlib 'z

definition Unpack :: "(bytes \<Rightarrow> 'z + bytes) \<Rightarrow> bytes \<Rightarrow> 'z unpack_error + bytes" where
  "Unpack inflate d =
     (case d of
        [] \<Rightarrow> Inl ErrUnexpectedEOF
      | dataType # d' \<Rightarrow>
          if 2 AND dataType > 0 then
            (case inflate d' of Inl e \<Rightarrow> Inl (ErrZlib e) | Inr out \<Rightarrow> Inr out)
          else Inr d')"

end
