(* ===== verification/Decoder_Safety.thy ===== *)
theory Decoder_Safety
  imports Decoder
begin

text \<open>
  What every reader of the decoder promises on arbitrary, possibly malformed input: it leaves the
  input alone, moves forward only, and never moves past the end. The promise is the locale
  \<open>byte_reader\<close>; the combinators the decoder is built from preserve it, and it is interpreted
  for the decoder's own \<open>read\<close> and \<open>readNode\<close>. From it follows that the recursion depth is
  bounded by the input, so the fuel that \<open>Unmarshal\<close> supplies is enough.
\<close>

section \<open>The reader contract\<close>

locale byte_reader =
  fixes rd :: "'a reader"
  assumes frame: "rd r = Inr (x, r') \<Longrightarrow> data r' = data r"
    and forward: "rd r = Inr (x, r') \<Longrightarrow> index r \<le> index r'"
    and within: "rd r = Inr (x, r') \<Longrightarrow> index r \<le> length (data r) \<Longrightarrow> index r' \<le> length (data r')"
begin

lemma remaining_le:
  "rd r = Inr (x, r') \<Longrightarrow> length (data r') - index r' \<le> length (data r) - index r"
  using frame [of r x r'] forward [of r x r'] by simp

end

locale consuming_reader = byte_reader +
  assumes consumes: "rd r = Inr (x, r') \<Longrightarrow> index r < index r'"
begin

lemma remaining_less:
  "rd r = Inr (x, r') \<Longrightarrow> index r \<le> length (data r) \<Longrightarrow>
    length (data r') - index r' < length (data r) - index r"
  using frame [of r x r'] consumes [of r x r'] within [of r x r'] by simp

end

named_theorems reader_intros \<open>the combinators preserve the reader contract\<close>

lemma byte_readerI [intro?]:
  assumes "\<And>r x r'. rd r = Inr (x, r') \<Longrightarrow> data r' = data r \<and> index r \<le> index r' \<and>
    (index r \<le> length (data r) \<longrightarrow> index r' \<le> length (data r'))"
  shows "byte_reader rd"
  using assms by unfold_locales blast+

lemma byte_reader_return [reader_intros]: "byte_reader (\<lambda>r. Inr (x, r))"
  by (rule byte_readerI) auto

lemma byte_reader_return_pair [reader_intros]: "byte_reader (\<lambda>r. Inr (f r, r))"
  by (rule byte_readerI) auto

lemma byte_reader_fail [reader_intros]: "byte_reader (\<lambda>r. Inl (e r))"
  by (rule byte_readerI) auto

lemma byte_reader_bind [reader_intros]:
  assumes "byte_reader f" and "\<And>x. byte_reader (g x)"
  shows "byte_reader (\<lambda>r. bind_res (f r) (\<lambda>(x, r). g x r))"
proof (rule byte_readerI)
  fix r y r''
  assume "bind_res (f r) (\<lambda>(x, r). g x r) = Inr (y, r'')"
  then obtain x r' where f: "f r = Inr (x, r')" and g: "g x r' = Inr (y, r'')"
    by (auto simp: res_elims)
  show "data r'' = data r \<and> index r \<le> index r'' \<and>
      (index r \<le> length (data r) \<longrightarrow> index r'' \<le> length (data r''))"
    using byte_reader.frame [OF assms(1) f] byte_reader.forward [OF assms(1) f]
      byte_reader.within [OF assms(1) f] byte_reader.frame [OF assms(2) g]
      byte_reader.forward [OF assms(2) g] byte_reader.within [OF assms(2) g]
    by auto
qed

lemma byte_reader_lift [reader_intros]:
  assumes "\<And>x. byte_reader (g x)"
  shows "byte_reader (\<lambda>r. bind_res c (\<lambda>x. g x r))"
  using assms by (cases c) (auto intro: byte_reader_fail)

lemma byte_reader_if [reader_intros]:
  "byte_reader f \<Longrightarrow> byte_reader g \<Longrightarrow> byte_reader (\<lambda>r. if c then f r else g r)"
  by (cases c) simp_all

lemma byte_reader_case [reader_intros]:
  assumes "byte_reader h" and "\<And>s. byte_reader (f s)" and "byte_reader g"
  shows "byte_reader (\<lambda>r. case v of NilV \<Rightarrow> h r | StrV s \<Rightarrow> f s r | _ \<Rightarrow> g r)"
  using assms by (cases v) simp_all

section \<open>The readers of the decoder\<close>

lemma readByte_consumes: "consuming_reader readByte"
  by unfold_locales (auto simp: readByte_def checkEOS_def split: if_splits)

lemma readIntN_reader [reader_intros]: "byte_reader (readIntN n le)"
  by (rule byte_readerI) (auto simp: readIntN_def checkEOS_def split: if_splits)

lemma readInt8_consumes: "consuming_reader (readInt8 le)"
  by unfold_locales (auto simp: readInt8_def readIntN_def checkEOS_def split: if_splits)

interpretation readByte: consuming_reader readByte
  by (rule readByte_consumes)

interpretation readInt8: consuming_reader "readInt8 le" for le
  by (rule readInt8_consumes)

lemmas [reader_intros] = readByte.byte_reader_axioms readInt8.byte_reader_axioms

lemma readInt_readers [reader_intros]:
  "byte_reader (readInt16 le)" "byte_reader readInt20" "byte_reader (readInt32 le)"
  "byte_reader (readRaw n)"
  by (auto simp: readInt16_def readInt20_def readInt32_def readIntN_def readRaw_def checkEOS_def
      intro!: byte_readerI split: if_splits)

lemma readBytesOrString_reader [reader_intros]: "byte_reader (readBytesOrString n b)"
  unfolding readBytesOrString_def by (intro reader_intros)

lemma readPackedLoop_reader [reader_intros]: "byte_reader (readPackedLoop tag n build)"
proof (induction n arbitrary: build)
  case 0
  then show ?case by (simp add: byte_reader_return)
next
  case (Suc n)
  then show ?case by (simp) (intro reader_intros)
qed

lemma readPacked8_reader [reader_intros]: "byte_reader (readPacked8 tag)"
  unfolding readPacked8_def by (intro reader_intros)

lemma readListSize_reader [reader_intros]: "byte_reader (readListSize tag)"
  unfolding readListSize_def by (intro reader_intros)

lemma readJID_readers [reader_intros]:
  assumes "\<And>b. byte_reader (rd b)"
  shows "byte_reader (readJIDPair rd)" "byte_reader (readInteropJID rd)"
    "byte_reader (readFBJID rd)" "byte_reader (readADJID rd)"
  unfolding readJIDPair_def readInteropJID_def readFBJID_def readADJID_def
  by (intro reader_intros assms)+

lemma readAttributesLoop_reader:
  assumes "\<And>b. byte_reader (rd b)"
  shows "byte_reader (readAttributesLoop rd n ret)"
proof (induction n arbitrary: ret)
  case 0
  then show ?case by (simp add: byte_reader_return)
next
  case (Suc n)
  then show ?case
    by simp (intro reader_intros assms)
qed

lemma readListLoop_reader:
  assumes "byte_reader rn"
  shows "byte_reader (readListLoop rn n ret)"
proof (induction n arbitrary: ret)
  case 0
  then show ?case by (simp add: byte_reader_return)
next
  case (Suc n)
  then show ?case by simp (intro reader_intros assms)
qed

lemma readList_reader [reader_intros]: "byte_reader rn \<Longrightarrow> byte_reader (readList rn tag)"
  unfolding readList_def by (intro reader_intros readListLoop_reader)

lemma as_str_reader [reader_intros]: "byte_reader f \<Longrightarrow> byte_reader (\<lambda>r. as_str (f r))"
  unfolding as_str_def by (intro reader_intros)

lemma readAttributes_reader [reader_intros]:
  "(\<And>b. byte_reader (rd b)) \<Longrightarrow> byte_reader (readAttributes rd n)"
  unfolding readAttributes_def by (rule readAttributesLoop_reader)

lemma get_token_reader [reader_intros]:
  "byte_reader (\<lambda>r. case GetDoubleToken d i of Inl e \<Rightarrow> Inl (ErrToken e) | Inr s \<Rightarrow> Inr (StrV s, r))"
  by (cases "GetDoubleToken d i") (simp_all add: reader_intros)

lemma consuming_bind:
  assumes "consuming_reader f" and "\<And>x. byte_reader (g x)"
  shows "consuming_reader (\<lambda>r. bind_res (f r) (\<lambda>(x, r). g x r))"
proof (intro consuming_reader.intro consuming_reader_axioms.intro)
  show "byte_reader (\<lambda>r. bind_res (f r) (\<lambda>(x, r). g x r))"
    using assms by (intro byte_reader_bind) (auto intro: consuming_reader.axioms)
  fix r y r''
  assume "bind_res (f r) (\<lambda>(x, r). g x r) = Inr (y, r'')"
  then obtain x r' where f: "f r = Inr (x, r')" and g: "g x r' = Inr (y, r'')"
    by (auto simp: res_elims)
  show "index r < index r''"
    using consuming_reader.consumes [OF assms(1) f] byte_reader.forward [OF assms(2) g] by simp
qed

lemma read_readNode_reader: "consuming_reader (read fuel str) \<and> consuming_reader (readNode fuel)"
proof (induction fuel arbitrary: str)
  case 0
  then show ?case
    by (simp add: consuming_reader_def consuming_reader_axioms_def byte_reader_fail)
next
  case (Suc fuel)
  then have IH: "byte_reader (read fuel b)" "byte_reader (readNode fuel)" for b
    by (auto intro: consuming_reader.axioms)
  have "consuming_reader (read (Suc fuel) str)"
    unfolding read.simps Let_def
    by (rule consuming_bind [OF readByte_consumes]) (intro reader_intros IH)
  moreover have "consuming_reader (readNode (Suc fuel))"
    unfolding readNode.simps
    by (rule consuming_bind [OF readInt8_consumes]) (intro reader_intros IH)
  ultimately show ?case ..
qed

interpretation read_safe: consuming_reader "read fuel str" for fuel str
  using read_readNode_reader by blast

interpretation readNode_safe: consuming_reader "readNode fuel" for fuel
  using read_readNode_reader by blast

section \<open>The fuel is enough\<close>

text \<open>
  A reader is \<open>fuelled\<close> from position \<open>i\<close> on when it never runs out of fuel there. After a read
  that consumes input, the rest only has to be fuelled from the next position on.
\<close>

definition fuelled :: "nat \<Rightarrow> bytes \<Rightarrow> 'a reader \<Rightarrow> bool" where
  "fuelled i d f \<longleftrightarrow>
     (\<forall>r. data r = d \<longrightarrow> i \<le> index r \<longrightarrow> index r \<le> length d \<longrightarrow> f r \<noteq> Inl OutOfFuel)"

named_theorems fuel_intros \<open>the combinators preserve having enough fuel\<close>

lemma fuelledI: "(\<And>r. f r \<noteq> Inl OutOfFuel) \<Longrightarrow> fuelled i d f"
  by (simp add: fuelled_def)

lemma fuelled_past_end: "length d < i \<Longrightarrow> fuelled i d f"
  by (simp add: fuelled_def)

lemma fuelled_bind [fuel_intros]:
  assumes "byte_reader f" and "fuelled i d f" and "\<And>x. fuelled i d (g x)"
  shows "fuelled i d (\<lambda>r. bind_res (f r) (\<lambda>(x, r). g x r))"
  unfolding fuelled_def
proof (intro allI impI)
  fix r :: binaryDecoder assume r: "data r = d" "i \<le> index r" "index r \<le> length d"
  show "bind_res (f r) (\<lambda>(x, r). g x r) \<noteq> Inl OutOfFuel"
  proof (cases "f r")
    case (Inl e)
    with assms(2) r show ?thesis by (auto simp: fuelled_def)
  next
    case (Inr p)
    obtain x r' where p: "p = (x, r')" by (cases p)
    have "data r' = d" "i \<le> index r'" "index r' \<le> length d"
      using byte_reader.frame [OF assms(1) Inr [unfolded p]]
        byte_reader.forward [OF assms(1) Inr [unfolded p]]
        byte_reader.within [OF assms(1) Inr [unfolded p]] r by auto
    with assms(3) [of x] Inr p show ?thesis by (simp add: fuelled_def)
  qed
qed

lemma fuelled_bind_consume:
  assumes "consuming_reader f" and "fuelled i d f" and "\<And>x. fuelled (Suc i) d (g x)"
  shows "fuelled i d (\<lambda>r. bind_res (f r) (\<lambda>(x, r). g x r))"
  unfolding fuelled_def
proof (intro allI impI)
  fix r :: binaryDecoder assume r: "data r = d" "i \<le> index r" "index r \<le> length d"
  show "bind_res (f r) (\<lambda>(x, r). g x r) \<noteq> Inl OutOfFuel"
  proof (cases "f r")
    case (Inl e)
    with assms(2) r show ?thesis by (auto simp: fuelled_def)
  next
    case (Inr p)
    obtain x r' where p: "p = (x, r')" by (cases p)
    have br: "byte_reader f"
      using assms(1) by (simp add: consuming_reader_def)
    have "data r' = d" "Suc i \<le> index r'" "index r' \<le> length d"
      using byte_reader.frame [OF br Inr [unfolded p]]
        consuming_reader.consumes [OF assms(1) Inr [unfolded p]]
        byte_reader.within [OF br Inr [unfolded p]] r by auto
    with assms(3) [of x] Inr p show ?thesis by (simp add: fuelled_def)
  qed
qed

lemma fuelled_return [fuel_intros]: "fuelled i d (\<lambda>r. Inr (g r))"
  by (rule fuelledI) simp

lemma fuelled_lift [fuel_intros]:
  "c \<noteq> Inl OutOfFuel \<Longrightarrow> (\<And>x. fuelled i d (g x)) \<Longrightarrow> fuelled i d (\<lambda>r. bind_res c (\<lambda>x. g x r))"
  by (cases c) (auto simp: fuelled_def)

lemma fuelled_if [fuel_intros]:
  "fuelled i d f \<Longrightarrow> fuelled i d g \<Longrightarrow> fuelled i d (\<lambda>r. if c then f r else g r)"
  by (cases c) simp_all

lemma fuelled_case [fuel_intros]:
  assumes "fuelled i d h" and "\<And>s. fuelled i d (f s)" and "fuelled i d g"
  shows "fuelled i d (\<lambda>r. case v of NilV \<Rightarrow> h r | StrV s \<Rightarrow> f s r | _ \<Rightarrow> g r)"
  using assms by (cases v) simp_all

lemma fuelled_errors [fuel_intros]:
  "fuelled i d (\<lambda>r. Inl EOF)" "fuelled i d (\<lambda>r. Inl PackedOddWithoutData)"
  "fuelled i d (\<lambda>r. Inl (UnknownListTag t (index r)))"
  "fuelled i d (\<lambda>r. Inl (ErrInvalidToken t (index r)))" "fuelled i d (\<lambda>r. Inl ErrInvalidJIDType)"
  "fuelled i d (\<lambda>r. Inl ErrInvalidNode)" "fuelled i d (\<lambda>r. Inl (ErrNonStringKey (index r)))"
  by (simp_all add: fuelled_def)

lemma fuelled_prims [fuel_intros]:
  "fuelled i d readByte" "fuelled i d (readIntN n le)" "fuelled i d (readInt8 le)"
  "fuelled i d (readInt16 le)" "fuelled i d readInt20" "fuelled i d (readInt32 le)"
  "fuelled i d (readRaw n)"
  by (simp_all add: fuelled_def readByte_def readInt8_def readInt16_def readInt20_def
      readInt32_def readIntN_def readRaw_def)

lemma unpackByte_no_fuel [fuel_intros]: "unpackByte tag v \<noteq> Inl OutOfFuel"
  by (simp add: unpackByte_def unpackNibble_def unpackHex_def)

lemma readBytesOrString_fuelled [fuel_intros]: "fuelled i d (readBytesOrString n b)"
  unfolding readBytesOrString_def by (intro fuel_intros reader_intros)

lemma readPackedLoop_fuelled [fuel_intros]: "fuelled i d (readPackedLoop tag n build)"
proof (induction n arbitrary: build)
  case 0
  then show ?case by (simp add: fuelled_return)
next
  case (Suc n)
  then show ?case by (simp only: readPackedLoop.simps) (intro fuel_intros reader_intros)
qed

lemma readPacked8_fuelled [fuel_intros]: "fuelled i d (\<lambda>r. as_str (readPacked8 tag r))"
  unfolding readPacked8_def as_str_def by (intro fuel_intros reader_intros)

lemma readListSize_fuelled [fuel_intros]: "fuelled i d (readListSize tag)"
  unfolding readListSize_def by (intro fuel_intros)

lemma readJID_fuelled [fuel_intros]:
  assumes "\<And>b. byte_reader (rd b)" and "\<And>b. fuelled i d (rd b)"
  shows "fuelled i d (readJIDPair rd)" "fuelled i d (readInteropJID rd)"
    "fuelled i d (readFBJID rd)" "fuelled i d (readADJID rd)"
  unfolding readJIDPair_def readInteropJID_def readFBJID_def readADJID_def
  by (intro fuel_intros reader_intros assms)+

lemma readAttributes_fuelled [fuel_intros]:
  assumes "\<And>b. byte_reader (rd b)" and "\<And>b. fuelled i d (rd b)"
  shows "fuelled i d (readAttributes rd n)"
proof -
  have "fuelled i d (readAttributesLoop rd n ret)" for ret
  proof (induction n arbitrary: ret)
    case 0
    then show ?case by (simp add: fuelled_return)
  next
    case (Suc n)
    then show ?case
      by (simp only: readAttributesLoop.simps) (intro fuel_intros reader_intros assms)
  qed
  then show ?thesis by (simp add: readAttributes_def [abs_def])
qed

lemma readList_fuelled [fuel_intros]:
  assumes "byte_reader rn" and "fuelled i d rn"
  shows "fuelled i d (readList rn tag)"
proof -
  have "fuelled i d (readListLoop rn n ret)" for n ret
  proof (induction n arbitrary: ret)
    case 0
    then show ?case by (simp add: fuelled_return)
  next
    case (Suc n)
    then show ?case
      by (simp only: readListLoop.simps) (intro fuel_intros reader_intros assms)
  qed
  then show ?thesis
    unfolding readList_def by (intro fuel_intros reader_intros readListLoop_reader assms)
qed

lemma get_token_fuelled [fuel_intros]:
  "fuelled i d (\<lambda>r. case GetDoubleToken k j of Inl e \<Rightarrow> Inl (ErrToken e) | Inr s \<Rightarrow> Inr (StrV s, r))"
  by (rule fuelledI) (simp split: sum.split)

lemma read_readNode_fuelled:
  "length d < i + fuel \<Longrightarrow> fuelled i d (read fuel str) \<and> fuelled i d (readNode fuel)"
proof (induction fuel arbitrary: i str)
  case 0
  then show ?case by (simp add: fuelled_past_end)
next
  case (Suc fuel)
  then have IH: "fuelled (Suc i) d (read fuel b)" "fuelled (Suc i) d (readNode fuel)" for b
    by auto
  note readers = read_safe.byte_reader_axioms readNode_safe.byte_reader_axioms
  have "fuelled i d (read (Suc fuel) str)"
    unfolding read.simps Let_def
    by (rule fuelled_bind_consume [OF readByte_consumes]) (intro fuel_intros reader_intros readers IH)+
  moreover have "fuelled i d (readNode (Suc fuel))"
    unfolding readNode.simps
    by (rule fuelled_bind_consume [OF readInt8_consumes]) (intro fuel_intros reader_intros readers IH)+
  ultimately show ?case ..
qed

lemma readNode_enough_fuel:
  assumes "length d < fuel"
  shows "readNode fuel (newDecoder d) \<noteq> Inl OutOfFuel"
  using read_readNode_fuelled [of d 0 fuel] assms by (simp add: fuelled_def newDecoder_def)

section \<open>Properties\<close>

text \<open>
  C17: The decoder is total. On every input, however malformed or deeply nested, \<open>Unmarshal\<close> returns a
  node or one of the code's own errors: the depth bound of the model (one more than the number of
  input bytes) is never reached, so the mutual recursion of \<open>read\<close> and \<open>readNode\<close> ends.
\<close>

theorem Unmarshal_terminates: "snd (Unmarshal d) \<noteq> Some OutOfFuel"
  using readNode_enough_fuel [of d "length d + 1"]
  by (auto simp: Unmarshal_def simp del: readNode.simps split: sum.split)

text \<open>
  C18: Memory safety of the decoder. Starting inside the input, a successful \<open>readNode\<close> leaves the
  input unchanged and its position strictly advanced and still inside the input.
\<close>

theorem readNode_stays_inside:
  assumes "index r \<le> length (data r)" and "readNode fuel r = Inr (n, r')"
  shows "data r' = data r \<and> index r < index r' \<and> index r' \<le> length (data r')"
  using readNode_safe.frame [OF assms(2)] readNode_safe.consumes [OF assms(2)]
    readNode_safe.within [OF assms(2,1)] by simp

theorem readNode_stays_inside_witness:
  "\<exists>r'. readNode 3 (newDecoder [248, 1, 4, 9]) = Inr (Node ''type'' [] NilV, r') \<and>
    data r' = [248, 1, 4, 9] \<and> 0 < index r' \<and> index r' \<le> length (data r')"
proof -
  let ?r' = "\<lparr>data = [248, 1, 4, 9], index = 3\<rparr> :: binaryDecoder"
  have run: "readNode 3 (newDecoder [248, 1, 4, 9]) = Inr (Node ''type'' [] NilV, ?r')"
    by code_simp
  have "index (newDecoder [248, 1, 4, 9]) \<le> length (data (newDecoder [248, 1, 4, 9]))"
    by (simp add: newDecoder_def)
  from readNode_stays_inside [OF this run] run show ?thesis
    by (intro exI [of _ ?r']) (simp add: newDecoder_def)
qed

end
