(* ===== verification/Codec.thy ===== *)
theory Codec
  imports Decoder_Safety
begin

text \<open>
  The encoder and the decoder fit together: what \<open>writeNode\<close> emits, \<open>readNode\<close> reads back. The
  locale \<open>wire_codec\<close> is the contract between the two sides for one kind of value; it is
  interpreted for the integer layouts and for strings. The induction over nodes shows the same
  for whole elements, up to the normal form in which the decoder presents values.
\<close>

section \<open>Reading at a known position\<close>

definition dec_at :: "bytes \<Rightarrow> bytes \<Rightarrow> binaryDecoder" where
  "dec_at pre rest = \<lparr>data = pre @ rest, index = length pre\<rparr>"

lemma dec_at_sel [simp]:
  "data (dec_at pre rest) = pre @ rest" "index (dec_at pre rest) = length pre"
  by (simp_all add: dec_at_def)

lemma newDecoder_dec_at: "newDecoder d = dec_at [] d"
  by (simp add: newDecoder_def dec_at_def)

lemma dec_at_advance:
  "(dec_at pre (e @ rest))\<lparr>index := length pre + length e\<rparr> = dec_at (pre @ e) rest"
  by (simp add: dec_at_def)

lemma readByte_at [wire_simps]: "readByte (dec_at pre (b # rest)) = Inr (b, dec_at (pre @ [b]) rest)"
  by (simp add: readByte_def checkEOS_def dec_at_def)

lemma readRaw_at [wire_simps]:
  "readRaw (length e) (dec_at pre (e @ rest)) = Inr (e, dec_at (pre @ e) rest)"
  by (simp add: readRaw_def checkEOS_def dec_at_def)

lemma readBytesOrString_at [wire_simps]:
  "readBytesOrString (length e) b (dec_at pre (e @ rest)) =
    Inr (if b then StrV (bytes_str e) else BytesV e, dec_at (pre @ e) rest)"
  by (simp add: readBytesOrString_def wire_simps)

section \<open>The contract between writer and reader\<close>

locale wire_codec =
  fixes enc :: "'a \<Rightarrow> bytes" and rd :: "'a reader" and ok :: "'a \<Rightarrow> bool"
  assumes reads_back: "ok x \<Longrightarrow> rd (dec_at pre (enc x @ rest)) = Inr (x, dec_at (pre @ enc x) rest)"
begin

lemma decode_encode: "ok x \<Longrightarrow> rd (newDecoder (enc x)) = Inr (x, dec_at (enc x) [])"
  using reads_back [of x "[]" "[]"] by (simp add: newDecoder_dec_at)

lemma prefix_free:
  assumes "ok x" and "ok y" and "enc x @ s = enc y @ t"
  shows "x = y \<and> s = t"
proof -
  have "Inr (x, dec_at (enc x) s) = (Inr (y, dec_at (enc y) t) :: dec_error + _)"
    using reads_back [OF assms(1), of "[]" s] reads_back [OF assms(2), of "[]" t] assms(3) by simp
  then have "x = y" by simp
  with assms(3) show ?thesis by simp
qed

end

section \<open>Integers\<close>

lemma pushInt8_eq: "pushInt8 w v = w @ [of_nat (v AND 0xFF)]"
  by (simp add: pushInt8_def pushIntN_def pushByte_def)

lemma pushInt16_eq: "pushInt16 w v = w @ [of_nat (drop_bit 8 v AND 0xFF), of_nat (v AND 0xFF)]"
  by (simp add: pushInt16_def pushIntN_def pushByte_def upt_rec)

lemma pushInt20_eq:
  "pushInt20 w v = w @ [of_nat (drop_bit 16 v AND 0x0F), of_nat (drop_bit 8 v AND 0xFF),
    of_nat (v AND 0xFF)]"
  by (simp add: pushInt20_def pushBytes_def)

lemma pushInt32_eq:
  "pushInt32 w v = w @ [of_nat (drop_bit 24 v AND 0xFF), of_nat (drop_bit 16 v AND 0xFF),
    of_nat (drop_bit 8 v AND 0xFF), of_nat (v AND 0xFF)]"
  by (simp add: pushInt32_def pushIntN_def pushByte_def upt_rec)

lemma and_255_mod: "(v :: nat) AND 0xFF = v mod 256"
proof -
  have "v AND mask 8 = take_bit 8 v"
    by (simp add: take_bit_eq_mask)
  then show ?thesis by (simp add: mask_eq_exp_minus_1 take_bit_eq_mod)
qed

lemma and_15_mod: "(v :: nat) AND 0x0F = v mod 16"
proof -
  have "v AND mask 4 = take_bit 4 v"
    by (simp add: take_bit_eq_mask)
  then show ?thesis by (simp add: mask_eq_exp_minus_1 take_bit_eq_mod)
qed

lemma unat_of_nat_mod [simp]:
  "unat (of_nat (v mod 256) :: u8) = v mod 256" "unat (of_nat (v mod 16) :: u8) = v mod 16"
  by simp_all

lemmas byte_arith = and_255_mod and_15_mod drop_bit_eq_div push_bit_eq_mult

lemma readInt8_at [wire_simps]:
  "v < 256 \<Longrightarrow> readInt8 False (dec_at pre (of_nat v # rest)) = Inr (v, dec_at (pre @ [of_nat v]) rest)"
  by (simp add: readInt8_def readIntN_def checkEOS_def dec_at_def)

lemma readInt8_byte_at [wire_simps]:
  "readInt8 False (dec_at pre (b # rest)) = Inr (unat b, dec_at (pre @ [b]) rest)"
  by (simp add: readInt8_def readIntN_def checkEOS_def dec_at_def)

lemma readInt16_at [wire_simps]:
  "readInt16 False (dec_at pre (a # b # rest)) =
    Inr (unat a * 256 + unat b, dec_at (pre @ [a, b]) rest)"
  using or_push_bit_add [of "unat b" 8 "unat a"] unat_u8_less [of b]
  by (simp add: readInt16_def readIntN_def checkEOS_def dec_at_def upt_rec nth_append)

lemma readInt20_at [wire_simps]:
  "readInt20 (dec_at pre (a # b # c # rest)) =
    Inr (unat a mod 16 * 65536 + unat b * 256 + unat c, dec_at (pre @ [a, b, c]) rest)"
  by (simp add: readInt20_def checkEOS_def dec_at_def byte_arith nth_append)

lemma readInt32_at [wire_simps]:
  "readInt32 False (dec_at pre (a # b # c # d # rest)) =
    Inr (((unat a * 256 + unat b) * 256 + unat c) * 256 + unat d, dec_at (pre @ [a, b, c, d]) rest)"
proof -
  have "push_bit 8 (unat c) OR unat d = unat c * 256 + unat d"
    using or_push_bit_add [of "unat d" 8 "unat c"] unat_u8_less [of d] by simp
  moreover have "push_bit 16 (unat b) OR (unat c * 256 + unat d) =
      unat b * 65536 + (unat c * 256 + unat d)"
    using or_push_bit_add [of "unat c * 256 + unat d" 16 "unat b"] unat_u8_less [of c]
      unat_u8_less [of d] by simp
  moreover have "push_bit 24 (unat a) OR (unat b * 65536 + (unat c * 256 + unat d)) =
      unat a * 16777216 + (unat b * 65536 + (unat c * 256 + unat d))"
    using or_push_bit_add [of "unat b * 65536 + (unat c * 256 + unat d)" 24 "unat a"]
      unat_u8_less [of b] unat_u8_less [of c] unat_u8_less [of d] by simp
  ultimately show ?thesis
    by (simp add: readInt32_def readIntN_def checkEOS_def dec_at_def upt_rec nth_append or.assoc)
qed

definition enc16 :: "nat \<Rightarrow> bytes" where "enc16 v = pushInt16 [] v"
definition enc20 :: "nat \<Rightarrow> bytes" where "enc20 v = pushInt20 [] v"
definition enc32 :: "nat \<Rightarrow> bytes" where "enc32 v = pushInt32 [] v"

lemma push_enc:
  "pushInt16 w v = w @ enc16 v" "pushInt20 w v = w @ enc20 v" "pushInt32 w v = w @ enc32 v"
  by (simp_all add: enc16_def enc20_def enc32_def pushInt16_eq pushInt20_eq pushInt32_eq)

interpretation int16: wire_codec enc16 "readInt16 False" "\<lambda>v. v < 2 ^ 16"
proof
  fix v pre rest assume "v < (2::nat) ^ 16"
  then show "readInt16 False (dec_at pre (enc16 v @ rest)) = Inr (v, dec_at (pre @ enc16 v) rest)"
    by (simp add: enc16_def pushInt16_eq wire_simps byte_arith)
qed

interpretation int20: wire_codec enc20 readInt20 "\<lambda>v. v < 2 ^ 20"
proof
  fix v pre rest assume "v < (2::nat) ^ 20"
  then show "readInt20 (dec_at pre (enc20 v @ rest)) = Inr (v, dec_at (pre @ enc20 v) rest)"
    by (simp add: enc20_def pushInt20_eq wire_simps byte_arith radix3)
qed

interpretation int32: wire_codec enc32 "readInt32 False" "\<lambda>v. v < 2 ^ 32"
proof
  fix v pre rest assume "v < (2::nat) ^ 32"
  then show "readInt32 False (dec_at pre (enc32 v @ rest)) = Inr (v, dec_at (pre @ enc32 v) rest)"
    by (simp add: enc32_def pushInt32_eq wire_simps byte_arith radix4)
qed

section \<open>Packed strings\<close>

lemma u8_nibble: "(p :: u8) < 16 \<Longrightarrow> take_bit 4 p = p"
  by (rule word_take_bit) (simp add: word_less_nat_alt)

lemma nibble_masks: "(0xF0 :: u8) = push_bit 4 (mask 4)" "(0x0F :: u8) = mask 4"
  by (simp_all add: mask_eq_exp_minus_1 push_bit_eq_mult)

lemma nibble_pair:
  assumes "(p :: u8) < 16" and "q < 16"
  shows "drop_bit 4 ((push_bit 4 p OR q) AND 0xF0) = p" and "(push_bit 4 p OR q) AND 0x0F = q"
proof -
  have "drop_bit 4 ((push_bit 4 (take_bit 4 p) OR take_bit 4 q) AND 0xF0) = take_bit 4 p"
    unfolding nibble_masks by (rule bit_word_eqI) (auto simp: bit_simps)
  then show "drop_bit 4 ((push_bit 4 p OR q) AND 0xF0) = p"
    using assms by (simp only: u8_nibble)
  have "(push_bit 4 (take_bit 4 p) OR take_bit 4 q) AND 0x0F = take_bit 4 q"
    unfolding nibble_masks by (rule bit_word_eqI) (auto simp: bit_simps)
  then show "(push_bit 4 p OR q) AND 0x0F = q"
    using assms by (simp only: u8_nibble)
qed

text \<open>A character set that a packer maps to nibbles and the decoder's unpacker maps back.\<close>

definition packs :: "(u8 \<Rightarrow> enc_panic + u8) \<Rightarrow> nat \<Rightarrow> u8 \<Rightarrow> bool" where
  "packs packer tag b \<longleftrightarrow> (\<exists>p. packer b = Inr p \<and> p < 16 \<and> unpackByte tag p = Inr b)"

lemma readPackedLoop_pair:
  assumes "p < 16" "q < 16" "unpackByte tag p = Inr a" "unpackByte tag q = Inr b"
  shows "readPackedLoop tag (Suc n) acc (dec_at pre ((push_bit 4 p OR q) # rest)) =
    readPackedLoop tag n (acc @ [a, b]) (dec_at (pre @ [push_bit 4 p OR q]) rest)"
  by (simp only: readPackedLoop.simps readByte_at bind_res_simps prod.case assms
      nibble_pair [OF assms(1,2)])

lemma packPairs_readback:
  assumes "list_all (packs packer tag) bs"
    and "packer 0 = Inr 15" and "unpackByte tag 15 = Inr z"
  shows "\<exists>e. (\<forall>w. packPairs packer w bs = Inr (w @ e)) \<and> length e = (length bs + 1) div 2 \<and>
    (\<forall>acc pre rest. readPackedLoop tag (length e) acc (dec_at pre (e @ rest)) =
      Inr (acc @ bs @ (if even (length bs) then [] else [z]), dec_at (pre @ e) rest))"
  using assms(1)
proof (induction bs rule: induct_list012)
  case 1
  then show ?case by (auto intro!: exI [of _ "[]"])
next
  case (2 b)
  then obtain p where p: "packer b = Inr p" "p < 16" "unpackByte tag p = Inr b"
    by (auto simp: packs_def)
  then show ?case
    using assms(2,3) readPackedLoop_pair [OF p(2) _ p(3) assms(3), of 0]
    by (intro exI [of _ "[push_bit 4 p OR 15]"])
       (simp add: packBytePair_def pushByte_def del: readPackedLoop.simps(2))
next
  case (3 a b bs)
  then obtain p q where p: "packer a = Inr p" "p < 16" "unpackByte tag p = Inr a"
    and q: "packer b = Inr q" "q < 16" "unpackByte tag q = Inr b"
    by (auto simp: packs_def)
  from 3 obtain e where e: "\<forall>w. packPairs packer w bs = Inr (w @ e)"
    "length e = (length bs + 1) div 2"
    "\<forall>acc pre rest. readPackedLoop tag (length e) acc (dec_at pre (e @ rest)) =
      Inr (acc @ bs @ (if even (length bs) then [] else [z]), dec_at (pre @ e) rest)"
    by auto
  then show ?case
    using p q readPackedLoop_pair [OF p(2) q(2) p(3) q(3)]
    by (intro exI [of _ "(push_bit 4 p OR q) # e"])
       (simp add: packBytePair_def pushByte_def del: readPackedLoop.simps(2))
qed

lemma packs_digit:
  assumes "is_digit c"
  shows "packs packNibble Nibble8 (byte_of_char c)" "packs packHex Hex8 (byte_of_char c)"
proof -
  have le: "48 \<le> byte_of_char c" "byte_of_char c \<le> 57"
    using assms by (simp_all add: word_le_nat_alt unat_byte_of_char is_digit_def)
  then have ne: "byte_of_char c \<noteq> 45" "byte_of_char c \<noteq> 46" "byte_of_char c \<noteq> 0"
    by auto
  have lt: "byte_of_char c - 48 < 10" and lt16: "byte_of_char c - 48 < 16"
    using le by unat_arith+
  show "packs packNibble Nibble8 (byte_of_char c)" "packs packHex Hex8 (byte_of_char c)"
    using le ne lt lt16
    by (simp_all add: packs_def packNibble_def packHex_def unpackByte_def unpackNibble_def
        unpackHex_def Nibble8_def Hex8_def)
qed

lemma packs_other:
  "packs packNibble Nibble8 (byte_of_char CHR ''-'')"
  "packs packNibble Nibble8 (byte_of_char CHR ''.'')"
  by (simp_all add: packs_def packNibble_def unpackByte_def unpackNibble_def byte_of_char_def
      Nibble8_def)

lemma packs_hex_letter:
  assumes "65 \<le> (of_char c :: nat)" and "(of_char c :: nat) \<le> 70"
  shows "packs packHex Hex8 (byte_of_char c)"
proof -
  have le: "65 \<le> byte_of_char c" "byte_of_char c \<le> 70"
    using assms by (simp_all add: word_le_nat_alt unat_byte_of_char)
  then have n57: "\<not> byte_of_char c \<le> 57"
    by unat_arith
  have ge: "\<not> 10 + byte_of_char c - 65 < 10" and lt16: "10 + byte_of_char c - 65 < 16"
    using le by unat_arith+
  show ?thesis
    using le n57 ge lt16
    by (simp add: packs_def packHex_def unpackByte_def unpackHex_def Hex8_def Nibble8_def)
qed

lemma validateNibble_packs:
  "validateNibble s \<Longrightarrow> list_all (packs packNibble Nibble8) (str_bytes s)"
  by (auto simp: validateNibble_def list_all_iff str_bytes_def packs_digit packs_other)

lemma validateHex_packs:
  "validateHex s \<Longrightarrow> list_all (packs packHex Hex8) (str_bytes s)"
  by (auto simp: validateHex_def list_all_iff str_bytes_def packs_digit packs_hex_letter)

section \<open>Reading back what was written\<close>

text \<open>
  \<open>coded wr rd x\<close>: the writer \<open>wr\<close> appends a nonempty encoding to any buffer, and the reader
  \<open>rd\<close>, given at least as much fuel as the encoding has bytes, consumes exactly that encoding
  and returns \<open>x\<close>.
\<close>

definition coded ::
  "(binaryEncoder \<Rightarrow> enc_panic + binaryEncoder) \<Rightarrow> (nat \<Rightarrow> 'a reader) \<Rightarrow> 'a \<Rightarrow> bool" where
  "coded wr rd x \<longleftrightarrow> (\<exists>e. e \<noteq> [] \<and> (\<forall>w. wr w = Inr (w @ e)) \<and>
     (\<forall>fuel pre rest. length e \<le> fuel \<longrightarrow>
       rd fuel (dec_at pre (e @ rest)) = Inr (x, dec_at (pre @ e) rest)))"

lemma codedI:
  assumes "e \<noteq> []" and "\<And>w. wr w = Inr (w @ e)"
    and "\<And>fuel pre rest. length e \<le> Suc fuel \<Longrightarrow>
      rd (Suc fuel) (dec_at pre (e @ rest)) = Inr (x, dec_at (pre @ e) rest)"
  shows "coded wr rd x"
  unfolding coded_def
proof (intro exI [of _ e] conjI allI impI assms(1,2))
  fix fuel pre rest assume "length e \<le> fuel"
  moreover from this assms(1) obtain f where "fuel = Suc f"
    by (cases fuel) auto
  ultimately show "rd fuel (dec_at pre (e @ rest)) = Inr (x, dec_at (pre @ e) rest)"
    using assms(3) by simp
qed

lemma packed_start_byte:
  assumes "n < 128"
  shows "unat ((of_nat n OR 128 :: u8) AND 127) = n" "drop_bit 7 (of_nat n OR 128 :: u8) \<noteq> 0"
    "unat ((of_nat n :: u8) AND 127) = n" "drop_bit 7 (of_nat n :: u8) = 0"
proof -
  have n: "(take_bit 7 (of_nat n) :: u8) = of_nat n" and un: "unat (of_nat n :: u8) = n"
    using assms by (simp_all add: word_take_bit)
  have m: "(127 :: u8) = mask 7"
    by (simp add: mask_eq_exp_minus_1)
  have "(take_bit 7 x OR h) AND 127 = (take_bit 7 x :: u8)" if "\<And>n. bit h n \<longleftrightarrow> n = 7" for x h
    unfolding m by (rule bit_word_eqI) (auto simp: bit_simps that)
  from this [OF bit_128, of "of_nat n"] show "unat ((of_nat n OR 128 :: u8) AND 127) = n"
    by (simp only: n un)
  have "bit (drop_bit 7 (x OR h)) 0" if "\<And>n. bit h n \<longleftrightarrow> n = 7" for x h :: u8
    by (simp add: bit_simps that del: bit_0)
  from this [OF bit_128, of "of_nat n"] show "drop_bit 7 (of_nat n OR 128 :: u8) \<noteq> 0"
    by (metis bit_0_eq bot_apply bot_bool_def)
  have "take_bit 7 x AND 127 = (take_bit 7 x :: u8)" for x
    unfolding m by (rule bit_word_eqI) (auto simp: bit_simps)
  from this [of "of_nat n"] show "unat ((of_nat n :: u8) AND 127) = n"
    by (simp only: n un)
  have "drop_bit 7 (take_bit 7 x) = (0 :: u8)" for x
    by (rule bit_word_eqI) (auto simp: bit_simps)
  from this [of "of_nat n"] show "drop_bit 7 (of_nat n :: u8) = 0"
    by (simp only: n)
qed

lemma writePackedBytes_coded:
  assumes "length s \<le> 127" and "list_all (packs packer tag) (str_bytes s)"
    and "packer 0 = Inr 15" and "unpackByte tag 15 = Inr z"
    and "(tag = Nibble8 \<and> packer = packNibble) \<or> (tag = Hex8 \<and> packer = packHex)"
  shows "coded (\<lambda>w. writePackedBytes w s tag) (\<lambda>f. read f b) (StrV s)"
proof -
  obtain e where e: "\<And>w. packPairs packer w (str_bytes s) = Inr (w @ e)"
    "length e = (length s + 1) div 2"
    "\<And>acc pre rest. readPackedLoop tag (length e) acc (dec_at pre (e @ rest)) =
      Inr (acc @ str_bytes s @ (if even (length s) then [] else [z]), dec_at (pre @ e) rest)"
    using packPairs_readback [OF assms(2-4)] by auto
  define start where
    "start = (if even (length s) then of_nat (length e) else of_nat (length e) OR 128 :: u8)"
  have n: "length e < 128"
    using e(2) assms(1) by simp
  have wr: "writePackedBytes w s tag = Inr (w @ (of_nat tag # start # e))" for w
    using assms(1,5) e(1,2)
    by (auto simp: writePackedBytes_def PackedMax_def start_def pushByte_def Let_def
        Nibble8_def Hex8_def)
  have cnt: "unat (start AND 127) = length e" "drop_bit 7 start \<noteq> 0 \<longleftrightarrow> odd (length s)"
    using packed_start_byte [OF n] by (simp_all add: start_def)
  have rd: "readPacked8 tag (dec_at pre (start # e @ rest)) =
      Inr (s, dec_at (pre @ start # e) rest)" for pre rest
    by (auto simp: readPacked8_def readByte_at cnt e(3) butlast_append)
  show ?thesis
  proof (rule codedI [where e = "of_nat tag # start # e"])
    fix fuel pre rest
    have "unat (of_nat tag :: u8) = tag"
      using assms(5) by (auto simp: Nibble8_def Hex8_def)
    then show "read (Suc fuel) b (dec_at pre ((of_nat tag # start # e) @ rest)) =
        Inr (StrV s, dec_at (pre @ of_nat tag # start # e) rest)"
      using assms(5) rd [of "pre @ [of_nat tag]" rest]
      by (auto simp: readByte_at as_str_def tag_defs)
  qed (simp_all add: wr)
qed

section \<open>Byte slices and strings\<close>

lemma writeBytes_coded:
  assumes "length bs < 2 ^ 31 - 1"
  shows "coded (\<lambda>w. writeBytes w bs) (\<lambda>f. read f b)
    (if b then StrV (bytes_str bs) else BytesV bs)"
proof -
  let ?n = "length bs"
  let ?x = "if b then StrV (bytes_str bs) else BytesV bs"
  consider "?n < 256" | "256 \<le> ?n" "?n < 2 ^ 20" | "2 ^ 20 \<le> ?n"
    by linarith
  then show ?thesis
  proof cases
    case 1
    then show ?thesis
      by (intro codedI [where e = "of_nat Binary8 # of_nat ?n # bs"])
         (simp_all add: writeBytes_def writeByteLength_def pushByte_def pushBytes_def pushInt8_eq
           wire_simps and_255_mod tag_defs)
  next
    case 2
    have rd: "readInt20 (dec_at pre (enc20 ?n @ rest)) = Inr (?n, dec_at (pre @ enc20 ?n) rest)"
      for pre rest
      using 2 by (intro int20.reads_back)
    from 2 show ?thesis
      by (intro codedI [where e = "of_nat Binary20 # enc20 ?n @ bs"])
         (simp_all add: writeBytes_def writeByteLength_def pushByte_def pushBytes_def push_enc
           wire_simps rd tag_defs)
  next
    case 3
    have rd: "readInt32 False (dec_at pre (enc32 ?n @ rest)) = Inr (?n, dec_at (pre @ enc32 ?n) rest)"
      for pre rest
      using assms by (intro int32.reads_back) simp
    from 3 assms show ?thesis
      by (intro codedI [where e = "of_nat Binary32 # enc32 ?n @ bs"])
         (simp_all add: writeBytes_def writeByteLength_def pushByte_def pushBytes_def push_enc
           wire_simps rd tag_defs)
  qed
qed

lemma writeStringRaw_writeBytes: "writeStringRaw w s = writeBytes w (str_bytes s)"
  by (simp add: writeStringRaw_def writeBytes_def pushString_def)

text \<open>
  The strings that the encoder writes as a token or packed. They come back as strings; any other
  string comes back as a string only where the decoder asks for one (\<open>read(true)\<close>), and as bytes
  in the content of a node.
\<close>

definition short_string :: "string \<Rightarrow> bool" where
  "short_string s \<longleftrightarrow> IndexOfSingleToken s \<noteq> None \<or> IndexOfDoubleByteToken s \<noteq> None \<or>
     validateNibble s \<or> validateHex s"

definition canon_str :: "bool \<Rightarrow> string \<Rightarrow> any" where
  "canon_str b s = (if b \<or> short_string s then StrV s else BytesV (str_bytes s))"

lemma single_token_coded:
  assumes "IndexOfSingleToken s = Some i"
  shows "coded (\<lambda>w. writeString w s) (\<lambda>f. read f b) (StrV s)"
proof (rule codedI [where e = "[i]"])
  fix fuel pre rest
  have i: "0 < unat i" "unat i < 236" "SingleByteTokens ! unat i = s"
    using tokens.single_not_tag [OF assms] tokens.single_sound [OF assms] by auto
  then show "read (Suc fuel) b (dec_at pre ([i] @ rest)) = Inr (StrV s, dec_at (pre @ [i]) rest)"
    by (simp add: readByte_at tag_defs)
qed (simp_all add: writeString_def assms pushByte_def)

lemma double_token_coded:
  assumes "IndexOfSingleToken s = None" and "IndexOfDoubleByteToken s = Some (d, i)"
  shows "coded (\<lambda>w. writeString w s) (\<lambda>f. read f b) (StrV s)"
proof (rule codedI [where e = "[236 + d, i]"])
  fix fuel pre rest
  have d: "unat (236 + d) = 236 + unat d" "unat d < 4" "GetDoubleToken (unat d) (unat i) = Inr s"
    using tokens.double_tag_range [OF assms(2)] tokens.double_sound [OF assms(2)] by auto
  then have "unat d = 0 \<or> unat d = 1 \<or> unat d = 2 \<or> unat d = 3"
    by linarith
  with d show "read (Suc fuel) b (dec_at pre ([236 + d, i] @ rest)) =
      Inr (StrV s, dec_at (pre @ [236 + d, i]) rest)"
    by (auto simp: readByte_at readInt8_byte_at tag_defs)
qed (simp_all add: writeString_def assms pushByte_def Dictionary0_def)

lemma writeString_coded:
  assumes "length s < 2 ^ 31 - 1"
  shows "coded (\<lambda>w. writeString w s) (\<lambda>f. read f b) (canon_str b s)"
proof (cases "IndexOfSingleToken s")
  case (Some i)
  then show ?thesis
    using single_token_coded [OF Some] by (simp add: canon_str_def short_string_def)
next
  case None
  show ?thesis
  proof (cases "IndexOfDoubleByteToken s")
    case (Some p)
    obtain d i where "p = (d, i)" by (cases p)
    with Some show ?thesis
      using double_token_coded [OF None, of d i] by (simp add: canon_str_def short_string_def)
  next
    case none: None
    consider "validateNibble s" | "\<not> validateNibble s" "validateHex s"
      | "\<not> validateNibble s" "\<not> validateHex s" by blast
    then show ?thesis
    proof cases
      case 1
      then have "coded (\<lambda>w. writePackedBytes w s Nibble8) (\<lambda>f. read f b) (StrV s)"
        by (intro writePackedBytes_coded [of _ packNibble _ 0] validateNibble_packs)
           (simp_all add: validateNibble_def PackedMax_def packNibble_def unpackByte_def
             unpackNibble_def)
      with 1 None none show ?thesis
        by (simp add: writeString_def canon_str_def short_string_def)
    next
      case 2
      then have "coded (\<lambda>w. writePackedBytes w s Hex8) (\<lambda>f. read f b) (StrV s)"
        by (intro writePackedBytes_coded [of _ packHex _ 70] validateHex_packs)
           (simp_all add: validateHex_def PackedMax_def packHex_def unpackByte_def
             unpackHex_def tag_defs)
      with 2 None none show ?thesis
        by (simp add: writeString_def canon_str_def short_string_def)
    next
      case 3
      with None none show ?thesis
        using writeBytes_coded [of "str_bytes s" b] assms
        by (auto simp: writeString_def canon_str_def short_string_def writeStringRaw_writeBytes)
    qed
  qed
qed

end
