(* ===== verification/Node_Roundtrip.thy ===== *)
theory Node_Roundtrip
  imports Codec
begin

text \<open>
  The round trip of whole elements: for every node that the format can carry, \<open>Marshal\<close>
  succeeds, and \<open>Unpack\<close> followed by \<open>Unmarshal\<close> returns the node in the decoder's normal form.
  The normal form is written down independently of the code: numbers and booleans become their
  text, unset attributes disappear, an empty child list becomes no content, JIDs lose the
  fields that their server's layout does not carry.
\<close>

section \<open>JIDs\<close>

text \<open>The fields that survive the layout chosen by the server of the JID.\<close>

definition canon_JID :: "JID \<Rightarrow> JID" where
  "canon_JID j =
     (if ((Server j = DefaultUserServer \<or> Server j = HiddenUserServer) \<and> Device j > 0) \<or>
         Server j = HostedServer \<or> Server j = HostedLIDServer
      then EmptyJID\<lparr>User := User j, Device := Device j AND 0xFF, Server := Server j\<rparr>
      else if Server j = MessengerServer
      then EmptyJID\<lparr>User := User j, Device := Device j, Server := Server j\<rparr>
      else if Server j = InteropServer
      then EmptyJID\<lparr>User := User j, Device := Device j, Integrator := Integrator j, Server := Server j\<rparr>
      else NewJID (User j) (Server j))"

definition max_len :: nat where "max_len = 2 ^ 31 - 1"

definition wf_JID :: "JID \<Rightarrow> bool" where
  "wf_JID j \<longleftrightarrow> length (User j) < max_len \<and> length (Server j) < max_len"

lemma codedE:
  assumes "coded wr rd x"
  obtains e where "e \<noteq> []" "\<forall>w. wr w = Inr (w @ e)"
    "\<forall>fuel pre rest. length e \<le> fuel \<longrightarrow>
      rd fuel (dec_at pre (e @ rest)) = Inr (x, dec_at (pre @ e) rest)"
  using assms by (auto simp: coded_def)

lemma string_codedE:
  assumes "length s < max_len"
  obtains e where "e \<noteq> []" "\<forall>w. writeString w s = Inr (w @ e)"
    "\<forall>fuel pre rest. length e \<le> fuel \<longrightarrow>
      read fuel True (dec_at pre (e @ rest)) = Inr (StrV s, dec_at (pre @ e) rest)"
  using writeString_coded [of s True] assms by (auto simp: coded_def canon_str_def max_len_def)

lemma ucast_low_byte: "(ucast (ucast ((x :: u16) AND 0xFF) :: u8) :: u16) = x AND 0xFF"
proof -
  have m: "(0xFF :: u16) = mask 8"
    by (simp add: mask_eq_exp_minus_1)
  show ?thesis
    unfolding m by (auto intro!: bit_word_eqI simp: bit_simps)
qed

lemma NewADJID_ActualAgent:
  assumes "Server j = DefaultUserServer \<or> Server j = HiddenUserServer \<or>
    Server j = HostedServer \<or> Server j = HostedLIDServer"
  shows "NewADJID u (ActualAgent j) d = EmptyJID\<lparr>User := u, Device := ucast d, Server := Server j\<rparr>"
  using assms
  by (auto simp: NewADJID_def ActualAgent_def domain_defs EmptyJID_def Let_def)

lemma of_nat_unat_u16 [simp]: "(of_nat (unat (x :: u16)) :: u16) = x"
  by simp

lemma writeJID_ad_coded:
  assumes "((Server j = DefaultUserServer \<or> Server j = HiddenUserServer) \<and> Device j > 0) \<or>
      Server j = HostedServer \<or> Server j = HostedLIDServer"
    and "length (User j) < max_len"
  shows "coded (\<lambda>w. writeJID w j) (\<lambda>f. read f b) (JIDV (canon_JID j))"
proof -
  obtain eu where eu: "eu \<noteq> []" "\<forall>w. writeString w (User j) = Inr (w @ eu)"
    "\<forall>fuel pre rest. length eu \<le> fuel \<longrightarrow>
      read fuel True (dec_at pre (eu @ rest)) = Inr (StrV (User j), dec_at (pre @ eu) rest)"
    by (rule string_codedE [OF assms(2)])
  let ?d = "ucast (Device j AND 0xFF) :: u8"
  have "NewADJID (User j) (ActualAgent j) ?d = canon_JID j"
    using assms(1) by (subst NewADJID_ActualAgent) (auto simp: canon_JID_def ucast_low_byte)
  then show ?thesis
    using assms(1) eu
    by (intro codedI [where e = "of_nat ADJID # ActualAgent j # ?d # eu"])
       (auto simp: writeJID_def pushByte_def readByte_at readADJID_def tag_defs)
qed

lemma writeJID_other_coded:
  assumes ad: "\<not> (((Server j = DefaultUserServer \<or> Server j = HiddenUserServer) \<and> Device j > 0) \<or>
      Server j = HostedServer \<or> Server j = HostedLIDServer)"
    and wf: "wf_JID j"
  shows "coded (\<lambda>w. writeJID w j) (\<lambda>f. read f b) (JIDV (canon_JID j))"
proof -
  obtain eu where eu: "eu \<noteq> []" "\<forall>w. writeString w (User j) = Inr (w @ eu)"
    "\<forall>fuel pre rest. length eu \<le> fuel \<longrightarrow>
      read fuel True (dec_at pre (eu @ rest)) = Inr (StrV (User j), dec_at (pre @ eu) rest)"
    using string_codedE [of "User j"] wf by (auto simp: wf_JID_def)
  obtain es where es: "es \<noteq> []" "\<forall>w. writeString w (Server j) = Inr (w @ es)"
    "\<forall>fuel pre rest. length es \<le> fuel \<longrightarrow>
      read fuel True (dec_at pre (es @ rest)) = Inr (StrV (Server j), dec_at (pre @ es) rest)"
    using string_codedE [of "Server j"] wf by (auto simp: wf_JID_def)
  note int16 = int16.reads_back [of "unat x" for x :: u16, simplified]
  consider "Server j = MessengerServer" | "Server j = InteropServer"
    | "Server j \<noteq> MessengerServer" "Server j \<noteq> InteropServer" "User j = []"
    | "Server j \<noteq> MessengerServer" "Server j \<noteq> InteropServer" "User j \<noteq> []"
    by blast
  then show ?thesis
  proof cases
    case 1
    with ad eu es show ?thesis
      by (intro codedI [where e = "of_nat FBJID # eu @ enc16 (unat (Device j)) @ es"])
         (auto simp: writeJID_def pushByte_def push_enc readByte_at readFBJID_def tag_defs int16
           canon_JID_def)
  next
    case 2
    with ad eu es show ?thesis
      by (intro codedI [where e = "of_nat InteropJID # eu @ enc16 (unat (Device j)) @
            enc16 (unat (Integrator j)) @ es"])
         (auto simp: writeJID_def pushByte_def push_enc readByte_at readInteropJID_def tag_defs
           int16 canon_JID_def)
  next
    case 3
    show ?thesis
    proof (rule codedI [where e = "of_nat JIDPair # of_nat ListEmpty # es"])
      fix fuel pre rest
      assume "length ((of_nat JIDPair :: u8) # of_nat ListEmpty # es) \<le> Suc fuel"
      then obtain f where f: "fuel = Suc f" "length es \<le> fuel"
        by (cases fuel) auto
      then have "read fuel True (dec_at (pre @ [of_nat JIDPair]) (of_nat ListEmpty # es @ rest)) =
          Inr (NilV, dec_at (pre @ [of_nat JIDPair, of_nat ListEmpty]) (es @ rest))"
        by (simp add: readByte_at tag_defs)
      with 3 ad f(2) es(3) show "read (Suc fuel) b
          (dec_at pre ((of_nat JIDPair # of_nat ListEmpty # es) @ rest)) =
          Inr (JIDV (canon_JID j), dec_at (pre @ of_nat JIDPair # of_nat ListEmpty # es) rest)"
        by (auto simp: readByte_at readJIDPair_def tag_defs canon_JID_def)
    qed (use 3 ad es in \<open>auto simp: writeJID_def pushByte_def\<close>)
  next
    case 4
    with ad eu es show ?thesis
      by (intro codedI [where e = "of_nat JIDPair # eu @ es"])
         (auto simp: writeJID_def pushByte_def readByte_at readJIDPair_def tag_defs canon_JID_def)
  qed
qed

lemma writeJID_coded:
  "wf_JID j \<Longrightarrow> coded (\<lambda>w. writeJID w j) (\<lambda>f. read f b) (JIDV (canon_JID j))"
  using writeJID_ad_coded [of j b] writeJID_other_coded [of j b] by (auto simp: wf_JID_def)

section \<open>Normal forms and well-formed nodes\<close>

fun canon_node :: "node \<Rightarrow> node" and canon_any :: "bool \<Rightarrow> any \<Rightarrow> any" where
  "canon_node (Node tag attrs content) =
     Node tag
       (map (\<lambda>p. (fst p, canon_any True (snd p))) (filter (\<lambda>p. \<not> skipped (snd p)) attrs))
       (canon_any False content)"
| "canon_any b NilV = NilV"
| "canon_any b (JIDV j) = JIDV (canon_JID j)"
| "canon_any b (StrV s) = canon_str b s"
| "canon_any b (IntV x) = canon_str b (FormatInt (sint x))"
| "canon_any b (Int32V x) = canon_str b (FormatInt (sint x))"
| "canon_any b (UintV x) = canon_str b (FormatNat (unat x))"
| "canon_any b (Uint32V x) = canon_str b (FormatNat (unat x))"
| "canon_any b (Int64V x) = canon_str b (FormatInt (sint x))"
| "canon_any b (Uint64V x) = canon_str b (FormatNat (unat x))"
| "canon_any b (BoolV v) = canon_str b (if v then ''true'' else ''false'')"
| "canon_any b (BytesV bs) = (if b then StrV (bytes_str bs) else BytesV bs)"
| "canon_any b (NodesV ns) = (if ns = [] then NilV else NodesV (map canon_node ns))"
| "canon_any b (OtherV ty) = OtherV ty"

text \<open>
  The nodes the format can carry: a tag other than the empty string and \<open>"0"\<close> (which the encoder
  reserves for the end of a stream), a list size that fits 16 bits, lengths below the encoder's
  limit, and no value of an unsupported type. Attributes are a Go map, so their keys are distinct.
\<close>

fun wf_node :: "node \<Rightarrow> bool" and wf_any :: "any \<Rightarrow> bool" where
  "wf_node (Node tag attrs content) \<longleftrightarrow>
     tag \<noteq> [] \<and> tag \<noteq> ''0'' \<and> length tag < max_len \<and> distinct (map fst attrs) \<and>
     2 * countAttributes attrs + 2 < 2 ^ 16 \<and>
     list_all (\<lambda>p. length (fst p) < max_len \<and> wf_any (snd p)) attrs \<and> wf_any content"
| "wf_any (JIDV j) = wf_JID j"
| "wf_any (StrV s) = (length s < max_len)"
| "wf_any (BytesV bs) = (length bs < max_len)"
| "wf_any (NodesV ns) = (length ns < 2 ^ 16 \<and> list_all wf_node ns)"
| "wf_any (OtherV ty) = False"
| "wf_any _ = True"

lemma countAttributes_filter:
  "countAttributes attrs = length (filter (\<lambda>p. \<not> skipped (snd p)) attrs)"
proof -
  have "foldl (\<lambda>count (key, val). if skipped val then count else count + 1) n attrs =
      n + length (filter (\<lambda>p. \<not> skipped (snd p)) attrs)" for n
    by (induction attrs arbitrary: n) auto
  then show ?thesis by (simp add: countAttributes_def)
qed

section \<open>Lists and attributes\<close>

lemma writeListStart_readback:
  assumes "0 < s" and "s < 2 ^ 16"
  obtains t ls where "t = of_nat List8 \<or> t = of_nat List16"
    "\<And>w. writeListStart w s = w @ t # ls"
    "\<And>pre rest. readListSize (unat t) (dec_at pre (ls @ rest)) = Inr (s, dec_at (pre @ ls) rest)"
proof (cases "s < 256")
  case True
  show ?thesis
    by (rule that [of "of_nat List8" "[of_nat s]"])
       (use assms True in \<open>simp_all add: writeListStart_def pushByte_def pushInt8_eq and_255_mod
         readListSize_def wire_simps tag_defs\<close>)
next
  case False
  have "readInt16 False (dec_at pre (enc16 s @ rest)) = Inr (s, dec_at (pre @ enc16 s) rest)"
    for pre rest
    using assms by (intro int16.reads_back)
  then show ?thesis
    by (intro that [of "of_nat List16" "enc16 s"])
       (use assms False in \<open>simp_all add: writeListStart_def pushByte_def push_enc readListSize_def
         tag_defs\<close>)
qed

lemma writeNodes_readback:
  assumes "\<And>n. n \<in> set ns \<Longrightarrow> coded (\<lambda>w. writeNode w n) readNode (c n)"
  shows "\<exists>e. (\<forall>w. writeNodes w ns = Inr (w @ e)) \<and>
    (\<forall>fuel acc pre rest. length e \<le> fuel \<longrightarrow>
      readListLoop (readNode fuel) (length ns) acc (dec_at pre (e @ rest)) =
        Inr (acc @ map c ns, dec_at (pre @ e) rest))"
  using assms
proof (induction ns)
  case Nil
  then show ?case by (auto intro!: exI [of _ "[]"])
next
  case (Cons n ns)
  have "coded (\<lambda>w. writeNode w n) readNode (c n)"
    using Cons.prems by simp
  then obtain e1 where e1: "e1 \<noteq> []" "\<forall>w. writeNode w n = Inr (w @ e1)"
    "\<forall>fuel pre rest. length e1 \<le> fuel \<longrightarrow>
      readNode fuel (dec_at pre (e1 @ rest)) = Inr (c n, dec_at (pre @ e1) rest)"
    by (rule codedE)
  obtain e2 where e2: "\<forall>w. writeNodes w ns = Inr (w @ e2)"
    "\<forall>fuel acc pre rest. length e2 \<le> fuel \<longrightarrow>
      readListLoop (readNode fuel) (length ns) acc (dec_at pre (e2 @ rest)) =
        Inr (acc @ map c ns, dec_at (pre @ e2) rest)"
    using Cons by auto
  from e1 e2 show ?case
    by (intro exI [of _ "e1 @ e2"]) simp
qed

lemma writeAttributes_readback:
  assumes "\<And>k v. (k, v) \<in> set attrs \<Longrightarrow>
      length k < max_len \<and> coded (\<lambda>w. writeAny w v) (\<lambda>f. read f True) (c v)"
    and "distinct (map fst attrs)"
  shows "\<exists>e. (\<forall>w. writeAttributes w attrs = Inr (w @ e)) \<and>
    (\<forall>fuel acc pre rest. length e \<le> fuel \<longrightarrow> fst ` set acc \<inter> fst ` set attrs = {} \<longrightarrow>
      readAttributesLoop (read fuel) (countAttributes attrs) acc (dec_at pre (e @ rest)) =
        Inr (acc @ map (\<lambda>p. (fst p, c (snd p))) (filter (\<lambda>p. \<not> skipped (snd p)) attrs),
          dec_at (pre @ e) rest))"
  using assms
proof (induction attrs)
  case Nil
  then show ?case by (auto intro!: exI [of _ "[]"] simp: countAttributes_def)
next
  case (Cons p attrs)
  obtain k v where p: "p = (k, v)" by (cases p)
  obtain e2 where e2: "\<forall>w. writeAttributes w attrs = Inr (w @ e2)"
    "\<And>fuel acc pre rest. length e2 \<le> fuel \<Longrightarrow> fst ` set acc \<inter> fst ` set attrs = {} \<Longrightarrow>
      readAttributesLoop (read fuel) (countAttributes attrs) acc (dec_at pre (e2 @ rest)) =
        Inr (acc @ map (\<lambda>p. (fst p, c (snd p))) (filter (\<lambda>p. \<not> skipped (snd p)) attrs),
          dec_at (pre @ e2) rest)"
    using Cons.IH Cons.prems by fastforce
  show ?case
  proof (cases "skipped v")
    case True
    with e2 p show ?thesis
      by (intro exI [of _ e2]) (auto simp: countAttributes_filter)
  next
    case False
    have kv: "length k < max_len" "coded (\<lambda>w. writeAny w v) (\<lambda>f. read f True) (c v)"
      using Cons.prems(1) [of k v] p by auto
    obtain ek where ek: "ek \<noteq> []" "\<forall>w. writeString w k = Inr (w @ ek)"
      "\<forall>fuel pre rest. length ek \<le> fuel \<longrightarrow>
        read fuel True (dec_at pre (ek @ rest)) = Inr (StrV k, dec_at (pre @ ek) rest)"
      by (rule string_codedE [OF kv(1)])
    obtain ev where ev: "ev \<noteq> []" "\<forall>w. writeAny w v = Inr (w @ ev)"
      "\<forall>fuel pre rest. length ev \<le> fuel \<longrightarrow>
        read fuel True (dec_at pre (ev @ rest)) = Inr (c v, dec_at (pre @ ev) rest)"
      by (rule codedE [OF kv(2)])
    have fresh: "k \<notin> fst ` set attrs"
      using Cons.prems(2) p by (force simp: image_iff)
    have rd: "readAttributesLoop (read fuel) (countAttributes (p # attrs)) acc
        (dec_at pre ((ek @ ev @ e2) @ rest)) =
      Inr (acc @ map (\<lambda>p. (fst p, c (snd p))) (filter (\<lambda>p. \<not> skipped (snd p)) (p # attrs)),
        dec_at (pre @ ek @ ev @ e2) rest)"
      if "length (ek @ ev @ e2) \<le> fuel" "fst ` set acc \<inter> fst ` set (p # attrs) = {}"
      for fuel acc pre rest
    proof -
      have "k \<notin> fst ` set acc" and "fst ` set (acc @ [(k, c v)]) \<inter> fst ` set attrs = {}"
        using that(2) fresh p by auto
      with False that(1) show ?thesis
        using e2(2) [of fuel "acc @ [(k, c v)]"]
        by (simp add: p countAttributes_filter ek ev AList_update_new)
    qed
    with False e2(1) ek(2) ev(2) show ?thesis
      by (intro exI [of _ "ek @ ev @ e2"]) (simp add: p)
  qed
qed

section \<open>Nodes\<close>

lemma FormatInt_length: "length (FormatInt (sint (x :: 'a :: len word))) < max_len"
  if "LENGTH('a) \<le> 64"
proof -
  have "(2 :: int) ^ (LENGTH('a) - 1) \<le> 2 ^ 63"
    using that by (intro power_increasing) auto
  then have i: "- (2 ^ 63) \<le> sint x" "sint x < 2 ^ 63"
    using sint_greater_eq [of x] sint_less [of x] by simp_all
  have "length (FormatNat n) \<le> Suc 19" if "n \<le> 2 ^ 63" for n
    by (rule length_FormatNat) (use that in simp)
  from this [of "nat (sint x)"] this [of "nat (- sint x)"] i
  have "length (FormatInt (sint x)) \<le> 21"
    by (auto simp: FormatInt_def nat_le_iff)
  then show ?thesis by (simp add: max_len_def)
qed

lemma FormatNat_length: "length (FormatNat (unat (x :: 'a :: len word))) < max_len"
  if "LENGTH('a) \<le> 64"
proof -
  have "(2 :: nat) ^ LENGTH('a) \<le> 2 ^ 64"
    using that by (intro power_increasing) auto
  then have "unat x < 2 ^ 64"
    using unsigned_less [of x, where ?'a = nat] by linarith
  then have "length (FormatNat (unat x)) \<le> Suc 19"
    by (intro length_FormatNat) simp
  then show ?thesis by (simp add: max_len_def)
qed

lemma string_coded: "length s < max_len \<Longrightarrow> coded (\<lambda>w. writeString w s) (\<lambda>f. read f b) (canon_str b s)"
  by (rule writeString_coded) (simp add: max_len_def)

lemma writeAny_nodes_coded:
  assumes "\<And>n. n \<in> set ns \<Longrightarrow> coded (\<lambda>w. writeNode w n) readNode (canon_node n)"
    and "length ns < 2 ^ 16"
  shows "coded (\<lambda>w. writeAny w (NodesV ns)) (\<lambda>f. read f b) (canon_any b (NodesV ns))"
proof (cases "ns = []")
  case True
  then show ?thesis
    by (intro codedI [where e = "[of_nat ListEmpty]"])
       (simp_all add: writeAny.simps writeListStart_def pushByte_def readByte_at tag_defs)
next
  case False
  obtain t ls where t: "t = of_nat List8 \<or> t = of_nat List16"
    and wr: "\<And>w. writeListStart w (length ns) = w @ t # ls"
    and rd: "\<And>pre rest. readListSize (unat t) (dec_at pre (ls @ rest)) =
      Inr (length ns, dec_at (pre @ ls) rest)"
    using writeListStart_readback [of "length ns"] assms(2) False by auto
  obtain e where e: "\<forall>w. writeNodes w ns = Inr (w @ e)"
    "\<And>fuel acc pre rest. length e \<le> fuel \<Longrightarrow>
      readListLoop (readNode fuel) (length ns) acc (dec_at pre (e @ rest)) =
        Inr (acc @ map canon_node ns, dec_at (pre @ e) rest)"
    using writeNodes_readback [of ns canon_node] assms(1) by auto
  show ?thesis
  proof (rule codedI [where e = "t # ls @ e"])
    fix fuel pre rest
    assume "length (t # ls @ e) \<le> Suc fuel"
    then have "readList (readNode fuel) (unat t) (dec_at (pre @ [t]) (ls @ e @ rest)) =
        Inr (NodesV (map canon_node ns), dec_at (pre @ t # ls @ e) rest)"
      using e(2) [of fuel "[]"] rd by (simp add: readList_def)
    with t False show "read (Suc fuel) b (dec_at pre ((t # ls @ e) @ rest)) =
        Inr (canon_any b (NodesV ns), dec_at (pre @ t # ls @ e) rest)"
      by (auto simp: readByte_at tag_defs)
  qed (simp_all add: writeAny.simps wr e(1))
qed

lemma writeNode_coded_step:
  assumes wf: "wf_node (Node tag attrs content)"
    and attrs: "\<And>k v. (k, v) \<in> set attrs \<Longrightarrow>
      coded (\<lambda>w. writeAny w v) (\<lambda>f. read f True) (canon_any True v)"
    and content: "coded (\<lambda>w. writeAny w content) (\<lambda>f. read f False) (canon_any False content)"
  shows "coded (\<lambda>w. writeNode w (Node tag attrs content)) readNode
    (canon_node (Node tag attrs content))"
proof -
  define size where
    "size = 2 * countAttributes attrs + tagSize + (if content \<noteq> NilV then 1 else 0)"
  have size: "0 < size" "size < 2 ^ 16" "drop_bit 1 (size - 1) = countAttributes attrs"
    "size mod 2 = 1 \<longleftrightarrow> content = NilV"
    using wf by (auto simp: size_def tagSize_def drop_bit_eq_div)
  obtain t ls where t: "t = of_nat List8 \<or> t = of_nat List16"
    and wls: "\<And>w. writeListStart w size = w @ t # ls"
    and rls: "\<And>pre rest. readListSize (unat t) (dec_at pre (ls @ rest)) =
      Inr (size, dec_at (pre @ ls) rest)"
    using writeListStart_readback [OF size(1,2)] by blast
  have "length tag < max_len"
    using wf by simp
  then obtain et where et: "et \<noteq> []" "\<forall>w. writeString w tag = Inr (w @ et)"
    "\<forall>fuel pre rest. length et \<le> fuel \<longrightarrow>
      read fuel True (dec_at pre (et @ rest)) = Inr (StrV tag, dec_at (pre @ et) rest)"
    by (rule string_codedE)
  have kv: "\<And>k v. (k, v) \<in> set attrs \<Longrightarrow> length k < max_len \<and>
      coded (\<lambda>w. writeAny w v) (\<lambda>f. read f True) (canon_any True v)"
    using wf attrs by (fastforce simp: list_all_iff)
  have "distinct (map fst attrs)"
    using wf by simp
  from writeAttributes_readback [of attrs "canon_any True", OF kv this]
  obtain ea where ea: "\<forall>w. writeAttributes w attrs = Inr (w @ ea)"
    "\<forall>fuel acc pre rest. length ea \<le> fuel \<longrightarrow> fst ` set acc \<inter> fst ` set attrs = {} \<longrightarrow>
      readAttributesLoop (read fuel) (countAttributes attrs) acc (dec_at pre (ea @ rest)) =
        Inr (acc @ map (\<lambda>p. (fst p, canon_any True (snd p))) (filter (\<lambda>p. \<not> skipped (snd p)) attrs),
          dec_at (pre @ ea) rest)"
    by blast
  have ra: "length ea \<le> fuel \<Longrightarrow>
      readAttributes (read fuel) (countAttributes attrs) (dec_at pre (ea @ rest)) =
        Inr (map (\<lambda>p. (fst p, canon_any True (snd p))) (filter (\<lambda>p. \<not> skipped (snd p)) attrs),
          dec_at (pre @ ea) rest)" for fuel pre rest
    using ea(2) [rule_format, of fuel "[]"] by (simp add: readAttributes_def)
  obtain ec where ec: "ec \<noteq> []" "\<forall>w. writeAny w content = Inr (w @ ec)"
    "\<forall>fuel pre rest. length ec \<le> fuel \<longrightarrow>
      read fuel False (dec_at pre (ec @ rest)) = Inr (canon_any False content, dec_at (pre @ ec) rest)"
    by (rule codedE [OF content])
  define e where "e = t # ls @ et @ ea @ (if content = NilV then [] else ec)"
  show ?thesis
  proof (rule codedI [where e = e])
    show "e \<noteq> []" by (simp add: e_def)
    show "writeNode w (Node tag attrs content) = Inr (w @ e)" for w
      using wf ea(1) wls [of w] by (cases "content = NilV") (simp_all add: e_def et ec size_def)
    fix fuel pre rest
    assume fuel: "length e \<le> Suc fuel"
    have "tag \<noteq> []" using wf by simp
    with fuel size(1) show "readNode (Suc fuel) (dec_at pre (e @ rest)) =
        Inr (canon_node (Node tag attrs content), dec_at (pre @ e) rest)"
      by (cases "content = NilV")
         (simp_all add: e_def readInt8_byte_at rls et ra ec size(3,4) [unfolded One_nat_def])
  qed
qed

lemma node_coded:
  "wf_node n \<Longrightarrow> coded (\<lambda>w. writeNode w n) readNode (canon_node n)"
  "wf_any a \<Longrightarrow> \<forall>b. coded (\<lambda>w. writeAny w a) (\<lambda>f. read f b) (canon_any b a)"
proof (induction n and a)
  case (Node tag attrs content)
  then show ?case
    by (intro writeNode_coded_step) (fastforce simp: list_all_iff)+
next
  case (NodesV ns)
  then show ?case
    by (intro allI writeAny_nodes_coded) (auto simp: list_all_iff)
next
  case NilV
  then show ?case
    by (auto intro!: codedI [where e = "[of_nat ListEmpty]"]
        simp: writeAny.simps pushByte_def readByte_at tag_defs)
next
  case (BytesV bs)
  then show ?case
    using writeBytes_coded [of bs] by (simp add: writeAny.simps max_len_def)
next
  case (BoolV v)
  have "length (if v then ''true'' else ''false'') < max_len"
    by (simp add: max_len_def)
  from string_coded [OF this] show ?case
    by (simp add: writeAny.simps)
qed (auto simp: writeAny.simps
    intro!: writeJID_coded string_coded FormatInt_length FormatNat_length)

section \<open>Whole messages\<close>

text \<open>
  Everything below is stated over \<open>Marshal\<close>, \<open>Unpack\<close> and \<open>Unmarshal\<close>. The first byte of a
  message, zero as \<open>newEncoder\<close> writes it, tells \<open>Unpack\<close> that the rest is not compressed.
\<close>

lemma Marshal_coded:
  assumes "wf_node n"
  obtains e where "Marshal n = Inr (0 # e)" "Unmarshal e = (Some (canon_node n), None)"
proof -
  obtain e where "e \<noteq> []" and e: "\<forall>w. writeNode w n = Inr (w @ e)"
    "\<forall>fuel pre rest. length e \<le> fuel \<longrightarrow>
      readNode fuel (dec_at pre (e @ rest)) = Inr (canon_node n, dec_at (pre @ e) rest)"
    by (rule codedE [OF node_coded(1) [OF assms]])
  have "readNode (length e + 1) (dec_at [] (e @ [])) = Inr (canon_node n, dec_at ([] @ e) [])"
    by (rule e(2) [rule_format]) simp
  then have "readNode (length e + 1) (newDecoder e) = Inr (canon_node n, dec_at e [])"
    by (simp only: newDecoder_dec_at append_Nil append_Nil2)
  then have "Unmarshal e = (Some (canon_node n), None)"
    unfolding Unmarshal_def by (simp del: readNode.simps)
  with e(1) show ?thesis
    by (intro that [of e]) (simp_all add: Marshal_def newEncoder_def getData_def)
qed

text \<open>
  The nodes that are already in the decoder's normal form: attribute values are non-empty
  strings or JIDs, content is absent, raw bytes, a short string, a JID or a non-empty child list.
\<close>

definition exact_JID :: "JID \<Rightarrow> bool" where
  "exact_JID j \<longleftrightarrow> RawAgent j = 0 \<and>
     (Device j = 0 \<or> Server j = MessengerServer \<or> Server j = InteropServer \<or>
       Device j < 256 \<and> Server j \<in> {DefaultUserServer, HiddenUserServer, HostedServer, HostedLIDServer}) \<and>
     (Integrator j = 0 \<or> Server j = InteropServer)"

fun exact_attr :: "any \<Rightarrow> bool" where
  "exact_attr (StrV s) \<longleftrightarrow> s \<noteq> []"
| "exact_attr (JIDV j) \<longleftrightarrow> exact_JID j"
| "exact_attr _ \<longleftrightarrow> False"

fun exact_node :: "node \<Rightarrow> bool" and exact_content :: "any \<Rightarrow> bool" where
  "exact_node (Node tag attrs content) \<longleftrightarrow>
     list_all (\<lambda>p. exact_attr (snd p)) attrs \<and> exact_content content"
| "exact_content NilV \<longleftrightarrow> True"
| "exact_content (BytesV bs) \<longleftrightarrow> True"
| "exact_content (StrV s) \<longleftrightarrow> short_string s"
| "exact_content (JIDV j) \<longleftrightarrow> exact_JID j"
| "exact_content (NodesV ns) \<longleftrightarrow> ns \<noteq> [] \<and> list_all exact_node ns"
| "exact_content _ \<longleftrightarrow> False"

lemma and_255_u16: "(d :: u16) < 256 \<Longrightarrow> d AND 0xFF = d"
proof -
  assume "d < 256"
  then have "unat d < 2 ^ 8"
    by (simp add: word_less_nat_alt)
  then have "take_bit 8 d = d"
    by (rule word_take_bit)
  moreover have "(0xFF :: u16) = mask 8"
    by (simp add: mask_eq_exp_minus_1)
  ultimately show ?thesis
    by (simp add: take_bit_eq_mask)
qed

lemma canon_exact_JID: "exact_JID j \<Longrightarrow> canon_JID j = j"
  by (cases j)
     (auto simp: exact_JID_def canon_JID_def EmptyJID_def NewJID_def and_255_u16 word_gt_0)

lemma canon_exact_attr: "exact_attr v \<Longrightarrow> canon_any True v = v \<and> \<not> skipped v"
  by (cases v) (auto simp: canon_exact_JID canon_str_def skipped_def)

lemma canon_exact:
  "exact_node n \<Longrightarrow> canon_node n = n"
  "exact_content a \<Longrightarrow> canon_any False a = a"
proof (induction n and a)
  case (Node tag attrs content)
  then have "\<forall>p \<in> set attrs. canon_any True (snd p) = snd p \<and> \<not> skipped (snd p)"
    by (auto simp: list_all_iff canon_exact_attr)
  then have "map (\<lambda>p. (fst p, canon_any True (snd p))) (filter (\<lambda>p. \<not> skipped (snd p)) attrs) = attrs"
    by (induction attrs) auto
  with Node show ?case by simp
next
  case (NodesV ns)
  then show ?case by (auto simp: list_all_iff intro: map_idI)
qed (auto simp: canon_exact_JID canon_str_def)

text \<open>
  C1: Round trip of the wire format. Every node the format can carry is encoded without a panic;
  the receiver's \<open>Unpack\<close> strips the flag byte whatever the decompressor does, and \<open>Unmarshal\<close> of
  the rest succeeds with the node in normal form (numbers and booleans as their text, unset
  attributes dropped, JIDs reduced to the fields of their layout).
\<close>

theorem Marshal_Unmarshal_roundtrip:
  assumes "wf_node n"
  shows "\<exists>bs payload. Marshal n = Inr bs \<and> Unpack inflate bs = Inr payload \<and>
    Unmarshal payload = (Some (canon_node n), None)"
proof -
  obtain e where "Marshal n = Inr (0 # e)" "Unmarshal e = (Some (canon_node n), None)"
    using Marshal_coded [OF assms] .
  then show ?thesis
    by (intro exI [of _ "0 # e"] exI [of _ e]) (simp add: Unpack_def)
qed

text \<open>
  On nodes in the decoder's normal form the round trip is the identity: what one side
  marshals is exactly what the other side's handlers see.
\<close>

theorem Marshal_Unmarshal_exact:
  assumes "wf_node n" and "exact_node n"
  shows "\<exists>bs payload. Marshal n = Inr bs \<and> Unpack inflate bs = Inr payload \<and>
    Unmarshal payload = (Some n, None)"
proof -
  obtain e where "Marshal n = Inr (0 # e)" "Unmarshal e = (Some n, None)"
    using Marshal_coded [OF assms(1)] canon_exact(1) [OF assms(2)] by metis
  then show ?thesis
    by (intro exI [of _ "0 # e"] exI [of _ e]) (simp add: Unpack_def)
qed

text \<open>
  The encoding is injective up to normal form: two nodes with the same bytes are the same
  node to the receiver.
\<close>

theorem Marshal_injective:
  assumes "wf_node m" and "wf_node n" and "Marshal m = Marshal n"
  shows "canon_node m = canon_node n"
  by (rule Marshal_coded [OF assms(1)], rule Marshal_coded [OF assms(2)]) (use assms(3) in auto)

section \<open>Witnesses\<close>

definition sample_node :: node where
  "sample_node = Node ''iq''
     [(''to'', JIDV (NewJID [] DefaultUserServer)), (''id'', StrV ''77.1-2''), (''n'', StrV [])]
     (NodesV [Node ''ping'' [] NilV, Node ''x'' [(''y'', IntV 7)] (BytesV [1, 2, 3])])"

lemma sample_node_wf: "wf_node sample_node"
  by (simp add: sample_node_def max_len_def countAttributes_def skipped_def wf_JID_def
      DefaultUserServer_def)

theorem Marshal_Unmarshal_roundtrip_witness:
  "\<exists>bs payload. Marshal sample_node = Inr bs \<and>
    Unpack (\<lambda>_. Inl ()) bs = Inr payload \<and> Unmarshal payload = (Some (canon_node sample_node), None)"
  using Marshal_Unmarshal_roundtrip [OF sample_node_wf] .

definition exact_sample :: node where
  "exact_sample = Node ''iq''
     [(''to'', JIDV (NewJID [] DefaultUserServer)), (''id'', StrV ''77.1-2'')]
     (NodesV [Node ''ping'' [] NilV, Node ''x'' [] (BytesV [1, 2, 3])])"

lemma exact_sample_wf: "wf_node exact_sample" "exact_node exact_sample"
  by (simp_all add: exact_sample_def max_len_def countAttributes_def skipped_def wf_JID_def
      DefaultUserServer_def exact_JID_def)

theorem Marshal_Unmarshal_exact_witness:
  "\<exists>bs payload. Marshal exact_sample = Inr bs \<and>
    Unpack (\<lambda>_. Inl ()) bs = Inr payload \<and> Unmarshal payload = (Some exact_sample, None)"
  using Marshal_Unmarshal_exact [OF exact_sample_wf] .

theorem Marshal_injective_witness:
  "canon_node (Node ''a'' [] (IntV 7)) = canon_node (Node ''a'' [] (StrV ''7''))"
proof (rule Marshal_injective)
  have "FormatInt (sint (7 :: 64 word)) = ''7''"
    by code_simp
  then show "Marshal (Node ''a'' [] (IntV 7)) = Marshal (Node ''a'' [] (StrV ''7''))"
    by (simp add: Marshal_def writeAny.simps)
qed (simp_all add: max_len_def countAttributes_def)

end
