(* ===== verification/Node_Access.thy ===== *)
theory Node_Access
  imports Node_Roundtrip
begin

text \<open>
  How handlers read a received node: the child accessors of \<open>lib/binary/node.go\<close> and the
  attribute reader \<open>AttrUtility\<close> of \<open>lib/binary/attrs.go\<close>, which collects the errors of many
  attribute reads so that they can be checked once at the end. The locale \<open>attr_reader\<close> is the
  contract of one read; the chapter ends with the round trips of typed attributes through the
  wire format.
\<close>

section \<open>Children\<close>

definition GetChildren :: "node \<Rightarrow> node list" where
  "GetChildren n = (case Content n of NodesV children \<Rightarrow> children | _ \<Rightarrow> [])"

definition GetChildrenByTag :: "node \<Rightarrow> string \<Rightarrow> node list" where
  "GetChildrenByTag n tag =
     foldl (\<lambda>children node. if Tag node = tag then children @ [node] else children) [] (GetChildren n)"

fun GetOptionalChildByTag :: "node \<Rightarrow> string list \<Rightarrow> node \<times> bool" where
  "GetOptionalChildByTag val [] = (val, True)"
| "GetOptionalChildByTag val (tag # tags) =
     (case List.find (\<lambda>child. Tag child = tag) (GetChildren val) of
        Some child \<Rightarrow> GetOptionalChildByTag child tags
      | None \<Rightarrow> (val, False))"

definition GetChildByTag :: "node \<Rightarrow> string list \<Rightarrow> node" where
  "GetChildByTag n tags = fst (GetOptionalChildByTag n tags)"

text \<open>The nodes that a path of tags can reach, and the specification of the search: the
  leftmost child at every step.\<close>

inductive child_path :: "node \<Rightarrow> string list \<Rightarrow> node \<Rightarrow> bool" where
  here: "child_path n [] n"
| down: "GetChildren n = before @ c # after \<Longrightarrow> Tag c = tag \<Longrightarrow> tag \<notin> Tag ` set before \<Longrightarrow>
    child_path c tags d \<Longrightarrow> child_path n (tag # tags) d"

inductive_cases child_path_NilE: "child_path n [] d"
inductive_cases child_path_ConsE: "child_path n (tag # tags) d"

lemma find_leftmost:
  "List.find P xs = Some x \<longleftrightarrow> (\<exists>before after. xs = before @ x # after \<and> P x \<and> (\<forall>y \<in> set before. \<not> P y))"
proof (induction xs)
  case (Cons y ys)
  show ?case
  proof (cases "P y")
    case True
    then show ?thesis by (auto simp: Cons_eq_append_conv)
  next
    case False
    with Cons show ?thesis by (auto simp: Cons_eq_append_conv) (metis set_ConsD)
  qed
qed simp

lemma GetOptionalChildByTag_path:
  "GetOptionalChildByTag n tags = (d, True) \<longleftrightarrow> child_path n tags d"
proof (induction tags arbitrary: n)
  case Nil
  then show ?case by (auto intro: child_path.intros elim: child_path_NilE)
next
  case (Cons tag tags)
  show ?case
  proof
    assume "GetOptionalChildByTag n (tag # tags) = (d, True)"
    then obtain c where "List.find (\<lambda>child. Tag child = tag) (GetChildren n) = Some c"
      "GetOptionalChildByTag c tags = (d, True)"
      by (auto split: option.splits)
    with Cons show "child_path n (tag # tags) d"
      unfolding find_leftmost by (auto intro!: child_path.down)
  next
    assume "child_path n (tag # tags) d"
    then obtain before c after where c: "GetChildren n = before @ c # after" "Tag c = tag"
      "tag \<notin> Tag ` set before" "child_path c tags d"
      by (rule child_path_ConsE)
    then have "GetChildren n = before @ c # after \<and> Tag c = tag \<and> (\<forall>y \<in> set before. Tag y \<noteq> tag)"
      by (auto simp: image_iff)
    then have "List.find (\<lambda>child. Tag child = tag) (GetChildren n) = Some c"
      unfolding find_leftmost by blast
    with Cons c(4) show "GetOptionalChildByTag n (tag # tags) = (d, True)" by simp
  qed
qed

lemma GetChildrenByTag_filter:
  "GetChildrenByTag n tag = filter (\<lambda>c. Tag c = tag) (GetChildren n)"
proof -
  have "foldl (\<lambda>children node. if Tag node = tag then children @ [node] else children) acc ns =
      acc @ filter (\<lambda>c. Tag c = tag) ns" for acc ns
    by (induction ns arbitrary: acc) auto
  then show ?thesis by (simp add: GetChildrenByTag_def)
qed

section \<open>Attribute readers\<close>

datatype attr_error =
    MissingJID string
  | ExpectedJID string any
  | MissingAttr string
  | ExpectedString string any
  | BadInt string num_error
  | BadUint string num_error
  | BadBool string

record AttrUtility =
  AuAttrs :: "(string \<times> any) list"
  Errors :: "attr_error list"

type_synonym 'a attr_read = "AttrUtility \<Rightarrow> 'a \<times> AttrUtility"

definition AttrGetter :: "node \<Rightarrow> AttrUtility" where
  "AttrGetter n = \<lparr>AuAttrs = Attrs n, Errors = []\<rparr>"

definition add_error :: "attr_error \<Rightarrow> AttrUtility \<Rightarrow> AttrUtility" where
  "add_error e au = au\<lparr>Errors := Errors au @ [e]\<rparr>"

definition GetJID :: "string \<Rightarrow> bool \<Rightarrow> (JID \<times> bool) attr_read" where
  "GetJID key require au =
     (case map_of (AuAttrs au) key of
        None \<Rightarrow> ((EmptyJID, False), if require then add_error (MissingJID key) au else au)
      | Some (JIDV jidVal) \<Rightarrow> ((jidVal, True), au)
      | Some val \<Rightarrow> ((EmptyJID, False), add_error (ExpectedJID key val) au))"

definition OptionalJID :: "string \<Rightarrow> JID option attr_read" where
  "OptionalJID key au = (case GetJID key False au of ((jid, ok), au) \<Rightarrow> (if ok then Some jid else None, au))"

definition OptionalJIDOrEmpty :: "string \<Rightarrow> JID attr_read" where
  "OptionalJIDOrEmpty key au =
     (case GetJID key False au of ((jid, ok), au) \<Rightarrow> (if ok then jid else EmptyJID, au))"

definition AttrJID :: "string \<Rightarrow> JID attr_read" where
  "AttrJID key au = (case GetJID key True au of ((jid, _), au) \<Rightarrow> (jid, au))"

definition GetString :: "string \<Rightarrow> bool \<Rightarrow> (string \<times> bool) attr_read" where
  "GetString key require au =
     (case map_of (AuAttrs au) key of
        None \<Rightarrow> (([], False), if require then add_error (MissingAttr key) au else au)
      | Some (StrV strVal) \<Rightarrow> ((strVal, True), au)
      | Some val \<Rightarrow> (([], False), add_error (ExpectedString key val) au))"

text \<open>Go's \<open>int64\<close> and \<open>uint64\<close> results are the integers of \<open>strconv\<close> within their range.\<close>

definition GetInt64 :: "string \<Rightarrow> bool \<Rightarrow> (int \<times> bool) attr_read" where
  "GetInt64 key require au =
     (case GetString key require au of
        ((strVal, ok), au) \<Rightarrow>
          if \<not> ok then ((0, False), au)
          else case ParseInt strVal 64 of
              (_, Some err) \<Rightarrow> ((0, False), add_error (BadInt key err) au)
            | (intVal, None) \<Rightarrow> ((intVal, True), au))"

definition GetUint64 :: "string \<Rightarrow> bool \<Rightarrow> (nat \<times> bool) attr_read" where
  "GetUint64 key require au =
     (case GetString key require au of
        ((strVal, ok), au) \<Rightarrow>
          if \<not> ok then ((0, False), au)
          else case ParseUint strVal 64 of
              (_, Some err) \<Rightarrow> ((0, False), add_error (BadUint key err) au)
            | (intVal, None) \<Rightarrow> ((intVal, True), au))"

definition GetBool :: "string \<Rightarrow> bool \<Rightarrow> (bool \<times> bool) attr_read" where
  "GetBool key require au =
     (case GetString key require au of
        ((strVal, ok), au) \<Rightarrow>
          if \<not> ok then ((False, False), au)
          else case ParseBool strVal of
              None \<Rightarrow> ((False, False), add_error (BadBool key) au)
            | Some boolVal \<Rightarrow> ((boolVal, True), au))"

text \<open>
  \<open>time.Time{}\<close>, and the time of \<open>time.Unix(sec, nsec)\<close> with \<open>nsec\<close> in \<open>[0, 999999999]\<close>, which is
  how \<open>time.UnixMilli\<close> normalises negative milliseconds too.
\<close>

datatype go_time = ZeroTime | UnixTime (secs: int) (nsecs: int)

definition UnixMilliTime :: "int \<Rightarrow> go_time" where
  "UnixMilliTime ms = UnixTime (ms div 1000) (ms mod 1000 * 1000000)"

definition GetUnixTime :: "string \<Rightarrow> bool \<Rightarrow> (go_time \<times> bool) attr_read" where
  "GetUnixTime key require au =
     (case GetInt64 key require au of
        ((intVal, ok), au) \<Rightarrow>
          if \<not> ok then ((ZeroTime, False), au)
          else if intVal = 0 then ((ZeroTime, True), au)
          else ((UnixTime intVal 0, True), au))"

definition GetUnixMilli :: "string \<Rightarrow> bool \<Rightarrow> (go_time \<times> bool) attr_read" where
  "GetUnixMilli key require au =
     (case GetInt64 key require au of
        ((intVal, ok), au) \<Rightarrow>
          if \<not> ok then ((ZeroTime, False), au)
          else if intVal = 0 then ((ZeroTime, True), au)
          else ((UnixMilliTime intVal, True), au))"

text \<open>The one-value forms drop the second result of a getter.\<close>

definition fst_read :: "('a \<times> bool) attr_read \<Rightarrow> 'a attr_read" where
  "fst_read rd au = (case rd au of ((v, _), au) \<Rightarrow> (v, au))"

definition OptionalString :: "string \<Rightarrow> string attr_read" where
  "OptionalString key = fst_read (GetString key False)"

definition AttrString :: "string \<Rightarrow> string attr_read" where
  "AttrString key = fst_read (GetString key True)"

definition MaxInt :: int where "MaxInt = 2 ^ 63 - 1"
definition MinInt :: int where "MinInt = - (2 ^ 63)"

definition OptionalInt :: "string \<Rightarrow> int attr_read" where
  "OptionalInt key au =
     (case fst_read (GetInt64 key False) au of
        (val, au) \<Rightarrow> (if val > MaxInt \<or> val < MinInt then 0 else val, au))"

definition AttrInt :: "string \<Rightarrow> int attr_read" where
  "AttrInt key au =
     (case fst_read (GetInt64 key True) au of
        (val, au) \<Rightarrow> (if val > MaxInt \<or> val < MinInt then 0 else val, au))"

definition Int64 :: "string \<Rightarrow> int attr_read" where
  "Int64 key = fst_read (GetInt64 key True)"

definition Uint64 :: "string \<Rightarrow> nat attr_read" where
  "Uint64 key = fst_read (GetUint64 key True)"

definition OptionalBool :: "string \<Rightarrow> bool attr_read" where
  "OptionalBool key = fst_read (GetBool key False)"

definition AttrBool :: "string \<Rightarrow> bool attr_read" where
  "AttrBool key = fst_read (GetBool key True)"

definition OptionalUnixTime :: "string \<Rightarrow> go_time attr_read" where
  "OptionalUnixTime key = fst_read (GetUnixTime key False)"

definition AttrUnixTime :: "string \<Rightarrow> go_time attr_read" where
  "AttrUnixTime key = fst_read (GetUnixTime key True)"

definition OptionalUnixMilli :: "string \<Rightarrow> go_time attr_read" where
  "OptionalUnixMilli key = fst_read (GetUnixMilli key False)"

definition AttrUnixMilli :: "string \<Rightarrow> go_time attr_read" where
  "AttrUnixMilli key = fst_read (GetUnixMilli key True)"

definition OK :: "AttrUtility \<Rightarrow> bool" where
  "OK au \<longleftrightarrow> length (Errors au) = 0"

definition AuError :: "AttrUtility \<Rightarrow> attr_error list option" where
  "AuError au = (if OK au then None else Some (Errors au))"

section \<open>The contract of a read\<close>

text \<open>
  A read never changes the attributes and never removes an error. A getter (which also returns
  whether it found a valid value) records an error exactly when the attribute is present but
  invalid, or required and missing.
\<close>

locale attr_reader =
  fixes rd :: "'a attr_read"
  assumes keeps_attrs: "AuAttrs (snd (rd au)) = AuAttrs au"
    and keeps_errors: "\<exists>es. Errors (snd (rd au)) = Errors au @ es"
begin

lemma OK_before: "OK (snd (rd au)) \<Longrightarrow> OK au"
  using keeps_errors [of au] by (auto simp: OK_def)

lemma keeps_present: "map_of (AuAttrs (snd (rd au))) key = map_of (AuAttrs au) key"
  by (simp add: keeps_attrs)

end

locale attr_getter =
  fixes get :: "string \<Rightarrow> bool \<Rightarrow> ('a \<times> bool) attr_read"
    and zero :: 'a
  assumes reads: "attr_reader (get key require)"
    and found: "get key require au = ((v, True), au') \<Longrightarrow> au' = au \<and> key \<in> fst ` set (AuAttrs au)"
    and not_found: "get key require au = ((v, False), au') \<Longrightarrow>
      v = zero \<and> (OK au' \<longleftrightarrow> OK au \<and> \<not> require \<and> key \<notin> fst ` set (AuAttrs au))"
    and by_attrs: "AuAttrs au = AuAttrs au2 \<Longrightarrow> fst (get key require au) = fst (get key require au2)"
begin

lemma OK_iff:
  "OK (snd (get key require au)) \<longleftrightarrow>
     OK au \<and> (snd (fst (get key require au)) \<or> \<not> require \<and> key \<notin> fst ` set (AuAttrs au))"
proof -
  obtain v ok au' where g: "get key require au = ((v, ok), au')"
    by (metis surj_pair)
  then show ?thesis
    using found [of key require au v au'] not_found [of key require au v au'] by (cases ok) auto
qed

lemma required_ok: "OK (snd (get key True au)) \<Longrightarrow> snd (fst (get key True au))"
  by (simp add: OK_iff)

end

text \<open>The getters of the code meet the contract.\<close>

lemma add_error_sel [simp]:
  "AuAttrs (add_error e au) = AuAttrs au" "Errors (add_error e au) = Errors au @ [e]"
  "\<not> OK (add_error e au)"
  by (simp_all add: add_error_def OK_def)

lemma map_of_key: "map_of al k = None \<longleftrightarrow> k \<notin> fst ` set al" "map_of al k = Some v \<Longrightarrow> k \<in> fst ` set al"
  by (auto simp: map_of_eq_None_iff dest: map_of_SomeD intro: rev_image_eqI)

interpretation get_jid: attr_getter GetJID EmptyJID
  by unfold_locales
     (auto simp: GetJID_def map_of_key split: option.splits any.splits if_splits)

interpretation get_string: attr_getter GetString "[]"
  by unfold_locales
     (auto simp: GetString_def map_of_key split: option.splits any.splits if_splits)

text \<open>
  The other getters post-process the string: a further check may turn a found string into an
  error, and nothing else happens to the state.
\<close>

definition via_parse ::
  "(string \<Rightarrow> bool \<Rightarrow> ('a \<times> bool) attr_read) \<Rightarrow> (string \<Rightarrow> 'a \<Rightarrow> attr_error + 'b) \<Rightarrow> 'b \<Rightarrow>
    string \<Rightarrow> bool \<Rightarrow> ('b \<times> bool) attr_read" where
  "via_parse get parse z key require au =
     (case get key require au of
        ((v, ok), au) \<Rightarrow>
          if \<not> ok then ((z, False), au)
          else case parse key v of Inl e \<Rightarrow> ((z, False), add_error e au) | Inr w \<Rightarrow> ((w, True), au))"

lemma via_parse_getter:
  assumes "attr_getter get z0"
  shows "attr_getter (via_parse get parse z) z"
proof -
  note g = attr_getter.reads [OF assms] attr_getter.found [OF assms] attr_getter.not_found [OF assms]
    attr_getter.by_attrs [OF assms]
  have keeps: "AuAttrs (snd (get key require au)) = AuAttrs au"
    "\<exists>es. Errors (snd (get key require au)) = Errors au @ es" for key require au
    using attr_reader.keeps_attrs [OF g(1)] attr_reader.keeps_errors [OF g(1)] by blast+
  show ?thesis
  proof unfold_locales
    fix key require au
    obtain v ok au1 where r: "get key require au = ((v, ok), au1)" by (metis surj_pair)
    show "AuAttrs (snd (via_parse get parse z key require au)) = AuAttrs au"
      and "\<exists>es. Errors (snd (via_parse get parse z key require au)) = Errors au @ es"
      using keeps [of key require au] r by (auto simp: via_parse_def split: sum.split)
    fix w au'
    show "via_parse get parse z key require au = ((w, True), au') \<Longrightarrow>
        au' = au \<and> key \<in> fst ` set (AuAttrs au)"
      using r g(2) [of key require au v au1]
      by (cases ok) (auto simp: via_parse_def split: sum.splits)
    show "via_parse get parse z key require au = ((w, False), au') \<Longrightarrow>
        w = z \<and> (OK au' \<longleftrightarrow> OK au \<and> \<not> require \<and> key \<notin> fst ` set (AuAttrs au))"
      using r g(2) [of key require au v au1] g(3) [of key require au v au1]
      by (cases ok) (auto simp: via_parse_def split: sum.splits)
    fix au2 :: AttrUtility
    assume "AuAttrs au = AuAttrs au2"
    then show "fst (via_parse get parse z key require au) = fst (via_parse get parse z key require au2)"
      using g(4) [of au au2 key require]
      by (auto simp: via_parse_def split: prod.splits sum.splits)
  qed
qed

lemma GetInt64_via:
  "GetInt64 = via_parse GetString
     (\<lambda>key s. case ParseInt s 64 of (_, Some e) \<Rightarrow> Inl (BadInt key e) | (i, None) \<Rightarrow> Inr i) 0"
  by (intro ext) (auto simp: GetInt64_def via_parse_def split: prod.split option.split)

lemma GetUint64_via:
  "GetUint64 = via_parse GetString
     (\<lambda>key s. case ParseUint s 64 of (_, Some e) \<Rightarrow> Inl (BadUint key e) | (i, None) \<Rightarrow> Inr i) 0"
  by (intro ext) (auto simp: GetUint64_def via_parse_def split: prod.split option.split)

lemma GetBool_via:
  "GetBool = via_parse GetString
     (\<lambda>key s. case ParseBool s of None \<Rightarrow> Inl (BadBool key) | Some b \<Rightarrow> Inr b) False"
  by (intro ext) (auto simp: GetBool_def via_parse_def split: prod.split option.split)

lemma GetUnixTime_via:
  "GetUnixTime = via_parse GetInt64 (\<lambda>key i. Inr (if i = 0 then ZeroTime else UnixTime i 0)) ZeroTime"
  by (intro ext) (auto simp: GetUnixTime_def via_parse_def split: prod.split)

lemma GetUnixMilli_via:
  "GetUnixMilli = via_parse GetInt64 (\<lambda>key i. Inr (if i = 0 then ZeroTime else UnixMilliTime i)) ZeroTime"
  by (intro ext) (auto simp: GetUnixMilli_def via_parse_def split: prod.split)

interpretation get_int64: attr_getter GetInt64 0
  unfolding GetInt64_via by (rule via_parse_getter) (rule get_string.attr_getter_axioms)

interpretation get_uint64: attr_getter GetUint64 0
  unfolding GetUint64_via by (rule via_parse_getter) (rule get_string.attr_getter_axioms)

interpretation get_bool: attr_getter GetBool False
  unfolding GetBool_via by (rule via_parse_getter) (rule get_string.attr_getter_axioms)

interpretation get_unix_time: attr_getter GetUnixTime ZeroTime
  unfolding GetUnixTime_via by (rule via_parse_getter) (rule get_int64.attr_getter_axioms)

interpretation get_unix_milli: attr_getter GetUnixMilli ZeroTime
  unfolding GetUnixMilli_via by (rule via_parse_getter) (rule get_int64.attr_getter_axioms)

section \<open>Sequences of reads\<close>

text \<open>A handler reads a list of attributes and checks the collected errors once.\<close>

datatype attr_type = TJID | TString | TInt64 | TUint64 | TBool | TUnixTime | TUnixMilli

definition read_flag :: "('a \<times> bool) attr_read \<Rightarrow> bool attr_read" where
  "read_flag rd au = (case rd au of ((_, ok), au) \<Rightarrow> (ok, au))"

fun read_attr :: "attr_type \<Rightarrow> string \<Rightarrow> bool \<Rightarrow> bool attr_read" where
  "read_attr TJID key require = read_flag (GetJID key require)"
| "read_attr TString key require = read_flag (GetString key require)"
| "read_attr TInt64 key require = read_flag (GetInt64 key require)"
| "read_attr TUint64 key require = read_flag (GetUint64 key require)"
| "read_attr TBool key require = read_flag (GetBool key require)"
| "read_attr TUnixTime key require = read_flag (GetUnixTime key require)"
| "read_attr TUnixMilli key require = read_flag (GetUnixMilli key require)"

fun read_attrs :: "(attr_type \<times> string \<times> bool) list \<Rightarrow> AttrUtility \<Rightarrow> AttrUtility" where
  "read_attrs [] au = au"
| "read_attrs ((ty, key, require) # ops) au = read_attrs ops (snd (read_attr ty key require au))"

lemma read_flag_sel [simp]:
  "fst (read_flag rd au) = snd (fst (rd au))" "snd (read_flag rd au) = snd (rd au)"
  by (simp_all add: read_flag_def split: prod.split)

lemmas getters = get_jid.attr_getter_axioms get_string.attr_getter_axioms
  get_int64.attr_getter_axioms get_uint64.attr_getter_axioms get_bool.attr_getter_axioms
  get_unix_time.attr_getter_axioms get_unix_milli.attr_getter_axioms

lemma read_attr_OK_iff:
  "OK (snd (read_attr ty key require au)) \<longleftrightarrow>
     OK au \<and> (fst (read_attr ty key require au) \<or> \<not> require \<and> key \<notin> fst ` set (AuAttrs au))"
  by (cases ty) (simp_all add: getters [THEN attr_getter.OK_iff])

lemma read_attr_keeps [simp]: "AuAttrs (snd (read_attr ty key require au)) = AuAttrs au"
  by (cases ty) (simp_all add: getters [THEN attr_getter.reads, THEN attr_reader.keeps_attrs])

lemma read_attr_by_attrs:
  "AuAttrs au = AuAttrs au2 \<Longrightarrow> fst (read_attr ty key require au) = fst (read_attr ty key require au2)"
  by (cases ty) (simp_all add: getters [THEN attr_getter.by_attrs, of au au2])

text \<open>
  Checking the collected errors once at the end is the same as checking every read: after any
  sequence of reads the utility is OK exactly when it was OK before and every read, taken on its
  own, found a valid value, or was optional and its attribute is missing.
\<close>

theorem read_attrs_OK:
  "OK (read_attrs ops au) \<longleftrightarrow>
     OK au \<and> list_all (\<lambda>(ty, key, require).
       fst (read_attr ty key require au) \<or> \<not> require \<and> key \<notin> fst ` set (AuAttrs au)) ops"
proof (induction ops arbitrary: au)
  case (Cons op ops)
  obtain ty key require where op: "op = (ty, key, require)" by (metis surj_pair)
  let ?au = "snd (read_attr ty key require au)"
  have "fst (read_attr ty' key' require' ?au) = fst (read_attr ty' key' require' au)"
    for ty' key' require'
    by (rule read_attr_by_attrs) simp
  with Cons.IH [of ?au] show ?case
    by (simp add: op read_attr_OK_iff)
qed simp

section \<open>Typed attributes across the wire\<close>

lemma map_of_canon:
  assumes "distinct (map fst attrs)" and "(k, v) \<in> set attrs" and "\<not> skipped v"
  shows "map_of (Attrs (canon_node (Node tag attrs content))) k = Some (canon_any True v)"
proof -
  let ?l = "map (\<lambda>p. (fst p, canon_any True (snd p))) (filter (\<lambda>p. \<not> skipped (snd p)) attrs)"
  have "distinct (map fst ?l)"
    using assms(1) by (simp add: comp_def distinct_map_filter)
  moreover have "(k, canon_any True v) \<in> set ?l"
    using assms(2,3) by force
  ultimately show ?thesis
    by (simp add: map_of_is_SomeI)
qed

lemma sint64_bounds: "- (2 ^ 63) \<le> sint (x :: 64 word)" "sint (x :: 64 word) < 2 ^ 63"
  using sint_greater_eq [of x] sint_less [of x] by simp_all

lemma unat64_bound: "unat (x :: 64 word) < 2 ^ 64"
  using unsigned_less [of x, where ?'a = nat] by simp

lemma ParseInt_sint [simp]: "ParseInt (FormatInt (sint (x :: 64 word))) 64 = (sint x, None)"
  using sint64_bounds [of x] by (intro ParseInt_FormatInt) simp_all

lemma ParseUint_unat64 [simp]: "ParseUint (FormatNat (unat (x :: 64 word))) 64 = (unat x, None)"
  using unat64_bound [of x] by (rule ParseUint_FormatNat)

text \<open>
  Typed attributes survive the wire. The receiver of a marshalled node reads back, without
  recording an error, the integer, unsigned integer, boolean, non-empty string or JID (in normal
  form) that the sender put under a key, through the getter of that type.
\<close>

theorem attrs_roundtrip:
  assumes "wf_node (Node tag attrs content)" and "Marshal (Node tag attrs content) = Inr bs"
    and "(k, v) \<in> set attrs"
  shows "\<exists>n. Unmarshal (tl bs) = (Some n, None) \<and>
    (\<forall>x. v = Int64V x \<longrightarrow> GetInt64 k r (AttrGetter n) = ((sint x, True), AttrGetter n)) \<and>
    (\<forall>x. v = Uint64V x \<longrightarrow> GetUint64 k r (AttrGetter n) = ((unat x, True), AttrGetter n)) \<and>
    (\<forall>b. v = BoolV b \<longrightarrow> GetBool k r (AttrGetter n) = ((b, True), AttrGetter n)) \<and>
    (\<forall>s. v = StrV s \<longrightarrow> s \<noteq> [] \<longrightarrow> GetString k r (AttrGetter n) = ((s, True), AttrGetter n)) \<and>
    (\<forall>j. v = JIDV j \<longrightarrow> GetJID k r (AttrGetter n) = ((canon_JID j, True), AttrGetter n))"
proof -
  let ?n = "canon_node (Node tag attrs content)"
  have un: "Unmarshal (tl bs) = (Some ?n, None)"
    by (rule Marshal_coded [OF assms(1)]) (use assms(2) in simp)
  have look: "\<not> skipped v \<Longrightarrow> map_of (Attrs ?n) k = Some (canon_any True v)"
    using assms(1,3) by (intro map_of_canon) simp_all
  have bools: "ParseBool ''true'' = Some True" "ParseBool ''false'' = Some False"
    by (simp_all add: ParseBool_def)
  show ?thesis
    using un look
    by (intro exI [of _ ?n] conjI allI impI)
       (simp_all add: AttrGetter_def GetInt64_def GetUint64_def GetBool_def GetString_def GetJID_def
         skipped_def canon_str_def bools del: canon_node.simps)
qed

theorem attrs_roundtrip_witness:
  "\<exists>bs n. Marshal (Node ''a'' [(''t'', Int64V (- 5))] NilV) = Inr bs \<and>
    Unmarshal (tl bs) = (Some n, None) \<and>
    GetInt64 ''t'' True (AttrGetter n) = ((- 5, True), AttrGetter n)"
proof -
  let ?a = "[(''t'', Int64V (- 5))]"
  have wf: "wf_node (Node ''a'' ?a NilV)"
    by (simp add: max_len_def countAttributes_def skipped_def)
  obtain bs where bs: "Marshal (Node ''a'' ?a NilV) = Inr bs"
    using Marshal_coded [OF wf] by blast
  from attrs_roundtrip [OF wf bs, of "''t''" "Int64V (- 5)" True] bs show ?thesis
    by auto
qed

text \<open>
  A path of tags finds exactly the node that its specification describes: at every step the
  leftmost child with the next tag. When the search fails, the code still returns the last node
  it reached, and says so.
\<close>

theorem GetOptionalChildByTag_correct:
  "(GetOptionalChildByTag n tags = (d, True) \<longleftrightarrow> child_path n tags d) \<and>
   (snd (GetOptionalChildByTag n tags) \<longleftrightarrow> (\<exists>d. child_path n tags d)) \<and>
   GetChildrenByTag n tag = filter (\<lambda>c. Tag c = tag) (GetChildren n)"
proof -
  have "snd (GetOptionalChildByTag n tags) \<longleftrightarrow>
      (\<exists>d. GetOptionalChildByTag n tags = (d, True))"
    by (metis prod.collapse snd_conv)
  then show ?thesis
    by (simp add: GetOptionalChildByTag_path GetChildrenByTag_filter)
qed

end
