(* ===== verification/Frame_Socket.thy ===== *)
theory Frame_Socket
  imports Prelude
begin

text \<open>
  The framing layer of the connection: \<open>lib/socket/framesocket.go\<close>. A frame is its length in three
  bytes followed by the payload; the first message of a connection is preceded by a fixed header.
  The state record keeps the fields of \<open>FrameSocket\<close> that the code branches on, together with what
  the socket has written to the websocket, delivered on the channel \<open>Frames\<close>, and reported to
  \<open>OnDisconnect\<close>. Whether dialling and writing succeed is an argument, because the websocket
  library decides it.
\<close>

section \<open>State\<close>

definition FrameMaxSize :: nat where "FrameMaxSize = 2 ^ 24"
definition FrameLengthSize :: nat where "FrameLengthSize = 3"

definition WAConnHeader :: bytes where "WAConnHeader = [87, 65, 6, 3]"

record FrameSocket =
  conn :: bool
  Header :: "bytes option"
  Frames :: "bytes list"
  OnDisconnect :: bool
  closed :: bool
  cancelled :: bool
  incomingLength :: nat
  receivedLength :: nat
  incoming :: "bytes option"
  partialHeader :: "bytes option"
  Written :: "bytes list"
  Disconnects :: "bool list"

datatype 'w frame_error =
    ErrFrameTooLarge nat
  | ErrHeaderTooLarge nat
  | ErrSocketClosed
  | ErrSocketAlreadyOpen
  | ErrDialFailed 'w
  | ErrWrite 'w

text \<open>The slice expression of \<open>processData\<close> whose bound is negative panics.\<close>

datatype frame_panic = SliceBoundsOutOfRange

definition NewFrameSocket :: FrameSocket where
  "NewFrameSocket = \<lparr>conn = False, Header = Some WAConnHeader, Frames = [], OnDisconnect = False,
     closed = False, cancelled = False, incomingLength = 0, receivedLength = 0, incoming = None,
     partialHeader = None, Written = [], Disconnects = []\<rparr>"

section \<open>Life cycle\<close>

definition IsConnected :: "FrameSocket \<Rightarrow> bool" where
  "IsConnected fs \<longleftrightarrow> conn fs"

definition Close :: "FrameSocket \<Rightarrow> nat \<Rightarrow> FrameSocket" where
  "Close fs code =
     (if \<not> conn fs then fs
      else let fs = fs\<lparr>conn := False, closed := True, cancelled := True\<rparr>
           in if OnDisconnect fs then fs\<lparr>Disconnects := Disconnects fs @ [code = 0]\<rparr> else fs)"

definition Connect :: "'w option \<Rightarrow> FrameSocket \<Rightarrow> FrameSocket \<times> 'w frame_error option" where
  "Connect dialErr fs =
     (if conn fs then (fs, Some ErrSocketAlreadyOpen)
      else case dialErr of
          Some e \<Rightarrow> (fs\<lparr>cancelled := True\<rparr>, Some (ErrDialFailed e))
        | None \<Rightarrow> (fs\<lparr>cancelled := False, conn := True\<rparr>, None))"

section \<open>Sending\<close>

definition frame_length :: "nat \<Rightarrow> bytes" where
  "frame_length n = [of_nat (drop_bit 16 n), of_nat (drop_bit 8 n), of_nat n]"

text \<open>\<open>wr\<close> is the outcome of \<open>conn.Write\<close>: an error, or none when the message was written.\<close>

definition SendFrame ::
  "(bytes \<Rightarrow> 'w option) \<Rightarrow> FrameSocket \<Rightarrow> bytes \<Rightarrow> FrameSocket \<times> 'w frame_error option" where
  "SendFrame wr fs d =
     (if \<not> conn fs then (fs, Some ErrSocketClosed)
      else let dataLength = length d
      in if dataLength \<ge> FrameMaxSize then (fs, Some (ErrFrameTooLarge dataLength))
      else let headerLength = (case Header fs of None \<Rightarrow> 0 | Some h \<Rightarrow> length h)
      in if headerLength > 1024 then (fs, Some (ErrHeaderTooLarge headerLength))
      else let maxAllowedTotal = headerLength + FrameLengthSize + FrameMaxSize;
               totalLength = headerLength + FrameLengthSize + dataLength
      in if totalLength > maxAllowedTotal then (fs, Some (ErrFrameTooLarge totalLength))
      else let header = (case Header fs of None \<Rightarrow> [] | Some h \<Rightarrow> h);
               wholeFrame = header @ frame_length dataLength @ d;
               fs = fs\<lparr>Header := None\<rparr>
      in case wr wholeFrame of
           Some e \<Rightarrow> (fs, Some (ErrWrite e))
         | None \<Rightarrow> (fs\<lparr>Written := Written fs @ [wholeFrame]\<rparr>, None))"

section \<open>Receiving\<close>

definition frameComplete :: "FrameSocket \<Rightarrow> FrameSocket" where
  "frameComplete fs =
     (let d = (case incoming fs of None \<Rightarrow> [] | Some d \<Rightarrow> d)
      in fs\<lparr>incoming := None, partialHeader := None, incomingLength := 0, receivedLength := 0,
           Frames := Frames fs @ [d]\<rparr>)"

text \<open>\<open>copy(dst[k:], src)\<close> for \<open>k \<le> len(dst)\<close>: as many bytes as fit.\<close>

definition copy_at :: "bytes \<Rightarrow> nat \<Rightarrow> bytes \<Rightarrow> bytes" where
  "copy_at dst k src =
     take k dst @ take (length dst - k) src @ drop (k + length src) dst"

definition take_header :: "FrameSocket \<Rightarrow> bytes \<Rightarrow> FrameSocket \<times> bytes" where
  "take_header fs msg =
     (case partialHeader fs of
        None \<Rightarrow> (fs, msg)
      | Some h \<Rightarrow> (fs\<lparr>partialHeader := None\<rparr>, h @ msg))"

definition msg_length :: "bytes \<Rightarrow> nat" where
  "msg_length msg = push_bit 16 (unat (msg ! 0)) + push_bit 8 (unat (msg ! 1)) + unat (msg ! 2)"

text \<open>One iteration of the loop on a non-empty message; the result is the rest of the message.\<close>

definition processStep :: "FrameSocket \<Rightarrow> bytes \<Rightarrow> frame_panic + (FrameSocket \<times> bytes)" where
  "processStep fs0 msg0 =
     (case take_header fs0 msg0 of (fs, msg) \<Rightarrow>
      case incoming fs of
        None \<Rightarrow>
          if length msg \<ge> FrameLengthSize then
            let len = msg_length msg;
                fs = fs\<lparr>incomingLength := len, receivedLength := length msg\<rparr>;
                msg = drop FrameLengthSize msg
            in if length msg \<ge> len
               then Inr (frameComplete (fs\<lparr>incoming := Some (take len msg)\<rparr>), drop len msg)
               else Inr (fs\<lparr>incoming := Some (copy_at (replicate len 0) 0 msg)\<rparr>, [])
          else Inr (fs\<lparr>partialHeader := Some msg\<rparr>, [])
      | Some inc \<Rightarrow>
          if receivedLength fs + length msg \<ge> incomingLength fs then
            if receivedLength fs > incomingLength fs then Inl SliceBoundsOutOfRange
            else let n = incomingLength fs - receivedLength fs
                 in Inr (frameComplete (fs\<lparr>incoming := Some (copy_at inc (receivedLength fs) (take n msg))\<rparr>),
                      drop n msg)
          else Inr (fs\<lparr>incoming := Some (copy_at inc (receivedLength fs) msg),
                      receivedLength := receivedLength fs + length msg\<rparr>, []))"

text \<open>
  The loop ends because every iteration consumes a byte of the message or of the saved header,
  or, when a body turns out to be complete already, closes the body.
\<close>

definition pending :: "FrameSocket \<Rightarrow> bytes \<Rightarrow> nat" where
  "pending fs msg =
     2 * (length msg + (case partialHeader fs of None \<Rightarrow> 0 | Some h \<Rightarrow> length h)) +
       (if incoming fs = None then 0 else 1)"

lemma processStep_pending:
  "processStep fs msg = Inr (fs', msg') \<Longrightarrow> msg \<noteq> [] \<Longrightarrow> msg' \<noteq> [] \<Longrightarrow> pending fs' msg' < pending fs msg"
  by (auto simp: processStep_def take_header_def pending_def frameComplete_def FrameLengthSize_def
      Let_def simp del: drop_append take_append split: option.splits if_splits)

function processData :: "FrameSocket \<Rightarrow> bytes \<Rightarrow> frame_panic + FrameSocket" where
  "processData fs msg =
     (if msg = [] then Inr fs
      else case processStep fs msg of
          Inl p \<Rightarrow> Inl p
        | Inr (fs', msg') \<Rightarrow> if msg' = [] then Inr fs' else processData fs' msg')"
  by pat_completeness auto

termination
  by (relation "measure (\<lambda>(fs, msg). pending fs msg)") (auto dest: processStep_pending)

declare processData.simps [simp del]

text \<open>What \<open>conn.Read\<close> returns: a message of one of two kinds; then an error ends the pump.\<close>

datatype ws_message = Binary bytes | NonBinary bytes

fun readPump :: "FrameSocket \<Rightarrow> ws_message list \<Rightarrow> frame_panic + FrameSocket" where
  "readPump fs [] = Inr (Close fs 0)"
| "readPump fs (NonBinary _ # ms) = readPump fs ms"
| "readPump fs (Binary d # ms) = bind_res (processData fs d) (\<lambda>fs. readPump fs ms)"

section \<open>Streams of whole frames\<close>

text \<open>The bytes of a frame, and the state between two frames.\<close>

definition frame :: "bytes \<Rightarrow> bytes" where
  "frame d = frame_length (length d) @ d"

definition saved :: "bytes \<Rightarrow> bytes option" where
  "saved rest = (if rest = [] then None else Some rest)"

definition between :: "FrameSocket \<Rightarrow> bytes \<Rightarrow> bool" where
  "between fs rest \<longleftrightarrow> incoming fs = None \<and> partialHeader fs = saved rest \<and> length rest < 3"

lemma length_frame_length [simp]: "length (frame_length n) = 3"
  by (simp add: frame_length_def)

lemma msg_length_frame:
  assumes "n < 2 ^ 24"
  shows "msg_length (frame_length n @ d) = n"
proof -
  have "n div 65536 < 256"
    using assms by (simp add: less_mult_imp_div_less)
  moreover note radix3 [of n]
  ultimately show ?thesis
    by (simp add: msg_length_def frame_length_def push_bit_eq_mult drop_bit_eq_div unat_of_nat
        take_bit_eq_mod)
qed

lemma take_header_between:
  "between fs rest \<Longrightarrow> take_header fs msg = (fs\<lparr>partialHeader := None\<rparr>, rest @ msg)"
  by (auto simp: between_def take_header_def saved_def split: option.splits)

text \<open>An iteration in this state takes the next whole frame, or saves an incomplete length.\<close>

lemma processStep_frame:
  assumes "between fs rest" and "rest @ msg = frame d @ rem" and "length d < FrameMaxSize"
  shows "\<exists>fs'. processStep fs msg = Inr (fs', rem) \<and> between fs' [] \<and> Frames fs' = Frames fs @ [d]"
proof -
  have "msg_length (frame d @ rem) = length d"
    using assms(3) by (simp add: frame_def msg_length_frame FrameMaxSize_def)
  moreover have "drop 3 (frame d @ rem) = d @ rem" "3 \<le> length (frame d @ rem)"
    by (simp_all add: frame_def)
  ultimately show ?thesis
    using assms(1,2)
    by (auto simp: processStep_def take_header_between FrameLengthSize_def between_def Let_def
        frameComplete_def saved_def)
qed

lemma processStep_partial:
  assumes "between fs rest" and "length (rest @ msg) < 3" and "msg \<noteq> []"
  shows "\<exists>fs'. processStep fs msg = Inr (fs', []) \<and> between fs' (rest @ msg) \<and> Frames fs' = Frames fs"
proof -
  have "incoming fs = None"
    using assms(1) by (simp add: between_def)
  with assms(2,3) show ?thesis
    unfolding processStep_def take_header_between [OF assms(1)]
    by (auto simp: FrameLengthSize_def between_def saved_def)
qed

lemma processData_stream:
  assumes "between fs rest" and "rest @ msg = concat (map frame ds) @ rem" and "length rem < 3"
    and "\<forall>d \<in> set ds. length d < FrameMaxSize" and "msg \<noteq> []"
  shows "\<exists>fs'. processData fs msg = Inr fs' \<and> between fs' rem \<and> Frames fs' = Frames fs @ ds"
  using assms
proof (induction ds arbitrary: fs rest msg)
  case Nil
  then obtain fs' where "processStep fs msg = Inr (fs', [])" "between fs' rem" "Frames fs' = Frames fs"
    using processStep_partial [of fs rest msg] by auto
  with Nil.prems(5) show ?case by (simp add: processData.simps)
next
  case (Cons d ds)
  let ?rem = "concat (map frame ds) @ rem"
  obtain fs1 where fs1: "processStep fs msg = Inr (fs1, ?rem)" "between fs1 []"
      "Frames fs1 = Frames fs @ [d]"
    using processStep_frame [of fs rest msg d ?rem] Cons.prems by auto
  show ?case
  proof (cases "?rem = []")
    case True
    have "ds = []"
      using True by (cases ds) (simp_all add: frame_def frame_length_def)
    with True fs1 Cons.prems(5) show ?thesis
      by (simp add: processData.simps)
  next
    case False
    obtain fs' where "processData fs1 ?rem = Inr fs'" "between fs' rem"
        "Frames fs' = Frames fs @ d # ds"
      using fs1 Cons.prems(3,4) Cons.IH [of fs1 "[]" ?rem] False by auto
    moreover have "processData fs msg = processData fs1 ?rem"
      using fs1(1) Cons.prems(5) False by (subst processData.simps) auto
    ultimately show ?thesis by simp
  qed
qed

text \<open>
  A stream of messages is \<open>body_aligned\<close> for a list of payloads when no payload is cut: the
  messages together are the frames of the payloads, and a message ends after a whole frame or
  inside the three length bytes of the next one.
\<close>

inductive body_aligned :: "bytes \<Rightarrow> bytes list \<Rightarrow> bytes list \<Rightarrow> bool" where
  finished: "body_aligned [] [] []"
| message: "rest @ m = concat (map frame ds1) @ rest' \<Longrightarrow> length rest' < 3 \<Longrightarrow>
    body_aligned rest' ms ds2 \<Longrightarrow> body_aligned rest (m # ms) (ds1 @ ds2)"

lemma Close_Frames [simp]: "Frames (Close fs code) = Frames fs"
  by (simp add: Close_def Let_def)

lemma processData_stream_any:
  assumes "between fs rest" and "rest @ msg = concat (map frame ds) @ rem" and "length rem < 3"
    and "\<forall>d \<in> set ds. length d < FrameMaxSize"
  shows "\<exists>fs'. processData fs msg = Inr fs' \<and> between fs' rem \<and> Frames fs' = Frames fs @ ds"
proof (cases "msg = []")
  case True
  have "ds = []"
    using assms(1,2) True by (cases ds) (auto simp: between_def frame_def dest: arg_cong [of _ _ length])
  with True assms(1,2) show ?thesis by (simp add: processData.simps)
qed (use assms processData_stream in blast)

lemma readPump_aligned:
  assumes "body_aligned rest msgs ds" and "between fs rest" and "\<forall>d \<in> set ds. length d < FrameMaxSize"
  shows "\<exists>fs'. readPump fs (map Binary msgs) = Inr fs' \<and> Frames fs' = Frames fs @ ds"
  using assms
proof (induction arbitrary: fs rule: body_aligned.induct)
  case (message rest m ds1 rest' ms ds2)
  then obtain fs1 where "processData fs m = Inr fs1" "between fs1 rest'" "Frames fs1 = Frames fs @ ds1"
    using processData_stream_any [of fs rest m ds1 rest'] by auto
  then show ?case
    using message.IH [of fs1] message.prems by auto
qed simp

lemma NewFrameSocket_between [simp]: "between NewFrameSocket []" "Frames NewFrameSocket = []"
  by (simp_all add: between_def NewFrameSocket_def saved_def)

text \<open>
  C20: Framing is transparent. Whenever no payload is cut by a message boundary (boundaries after a
  frame or inside a length field are fine, several frames per message too), the read pump delivers
  on \<open>Frames\<close> exactly the payloads that were framed, in order, and nothing panics.
\<close>

theorem frames_delivered:
  assumes "body_aligned [] msgs ds" and "\<forall>d \<in> set ds. length d < FrameMaxSize"
  shows "\<exists>fs'. readPump NewFrameSocket (map Binary msgs) = Inr fs' \<and> Frames fs' = ds"
  using readPump_aligned [OF assms(1), of NewFrameSocket] assms(2) by simp

theorem frames_delivered_witness:
  "\<exists>fs'. readPump NewFrameSocket (map Binary [[0, 0, 2, 7, 8, 0], [0, 1, 9]]) = Inr fs' \<and>
    Frames fs' = [[7, 8], [9]]"
proof (rule frames_delivered)
  have frames: "frame [7, 8] = [0, 0, 2, 7, 8]" "frame [9] = [0, 0, 1, 9]"
    by (simp_all add: frame_def frame_length_def drop_bit_eq_div)
  have "body_aligned [0] [[0, 1, 9]] ([[9]] @ [])"
    by (rule body_aligned.message [of _ _ _ "[]"]) (simp_all add: frames body_aligned.finished)
  then have "body_aligned [] [[0, 0, 2, 7, 8, 0], [0, 1, 9]] ([[7, 8]] @ [[9]])"
    by (intro body_aligned.message [of _ _ _ "[0]"]) (simp_all add: frames)
  then show "body_aligned [] [[0, 0, 2, 7, 8, 0], [0, 1, 9]] [[7, 8], [9]]" by simp
qed (simp add: FrameMaxSize_def)

section \<open>A payload cut by a message boundary\<close>

text \<open>
  C23: When a payload is cut, the code miscounts: it records the message length including the three
  length bytes as received. With \<open>p\<close> payload bytes in the first message, a following message
  panics if fewer than three bytes are missing; otherwise the delivered frame has three zero
  bytes in place of data and ends three bytes early, and those three bytes are left over to be
  read as the length of the next frame.
\<close>

theorem cut_payload_misread:
  assumes "between fs []" and "length d < FrameMaxSize" and "p < length d"
  shows "\<exists>fs1. processData fs (take (3 + p) (frame d)) = Inr fs1 \<and>
    (length d < p + 3 \<longrightarrow> (\<forall>m. m \<noteq> [] \<longrightarrow> processData fs1 m = Inl SliceBoundsOutOfRange)) \<and>
    (p + 3 \<le> length d \<longrightarrow>
      (\<exists>fs2. processStep fs1 (drop p d) = Inr (fs2, drop (length d - 3) d) \<and>
        Frames fs2 = Frames fs @ [take p d @ [0, 0, 0] @ take (length d - 3 - p) (drop p d)]))"
proof -
  have fr: "take (3 + p) (frame d) = frame_length (length d) @ take p d"
    by (simp add: frame_def)
  have ml: "msg_length (frame_length (length d) @ take p d) = length d"
    using assms(2) by (simp add: msg_length_frame FrameMaxSize_def)
  let ?fs1 = "fs\<lparr>partialHeader := None, incomingLength := length d, receivedLength := 3 + p,
    incoming := Some (take p d @ replicate (length d - p) 0)\<rparr>"
  have step: "processStep fs (frame_length (length d) @ take p d) = Inr (?fs1, [])"
    unfolding processStep_def take_header_between [OF assms(1)]
    using assms by (simp add: between_def ml FrameLengthSize_def Let_def copy_at_def)
  then have run: "processData fs (take (3 + p) (frame d)) = Inr ?fs1"
    by (simp add: fr processData.simps frame_length_def)
  have panic: "length d < p + 3 \<Longrightarrow> m \<noteq> [] \<Longrightarrow> processData ?fs1 m = Inl SliceBoundsOutOfRange" for m
    by (subst processData.simps) (simp add: processStep_def take_header_def)
  have misread: "processStep ?fs1 (drop p d) = Inr (fs2, drop (length d - 3) d) \<and>
      Frames fs2 = Frames fs @ [take p d @ [0, 0, 0] @ take (length d - 3 - p) (drop p d)]"
    if "p + 3 \<le> length d" and "fs2 = frameComplete (?fs1\<lparr>incoming := Some
      (copy_at (take p d @ replicate (length d - p) 0) (3 + p) (take (length d - (3 + p)) (drop p d)))\<rparr>)"
    for fs2
    using that assms(3)
    by (simp add: processStep_def take_header_def frameComplete_def copy_at_def Let_def
        numeral_3_eq_3 diff_diff_left add.commute)
  from run panic misread show ?thesis by blast
qed

theorem cut_payload_misread_witness:
  "\<exists>fs1. processData NewFrameSocket [0, 0, 4, 1] = Inr fs1 \<and>
    (\<exists>fs2. processStep fs1 [2, 3, 4] = Inr (fs2, [2, 3, 4]) \<and> Frames fs2 = [[1, 0, 0, 0]])"
proof -
  have "frame [1, 2, 3, 4] = [0, 0, 4, 1, 2, 3, 4]"
    by (simp add: frame_def frame_length_def drop_bit_eq_div)
  then show ?thesis
    using cut_payload_misread [of NewFrameSocket "[1, 2, 3, 4]" 1] by (auto simp: FrameMaxSize_def)
qed

section \<open>The life cycle reports each connection once\<close>

datatype fs_op = OpConnect bool | OpClose nat | OpSend bytes | OpReceive bytes

text \<open>
  The operations on a socket in the order in which they take the lock; the number counts the
  successful \<open>Connect\<close> calls. A panic ends the process.
\<close>

fun fs_run :: "fs_op list \<Rightarrow> FrameSocket \<times> nat \<Rightarrow> frame_panic + FrameSocket \<times> nat" where
  "fs_run [] s = Inr s"
| "fs_run (OpConnect dialled # ops) (fs, n) =
     (case Connect (if dialled then None else Some ()) fs of
        (fs', None) \<Rightarrow> fs_run ops (fs', n + 1)
      | (fs', Some _) \<Rightarrow> fs_run ops (fs', n))"
| "fs_run (OpClose code # ops) (fs, n) = fs_run ops (Close fs code, n)"
| "fs_run (OpSend d # ops) (fs, n) = fs_run ops (fst (SendFrame (\<lambda>_. None :: unit option) fs d), n)"
| "fs_run (OpReceive d # ops) (fs, n) = bind_res (processData fs d) (\<lambda>fs'. fs_run ops (fs', n))"

definition accounted :: "FrameSocket \<times> nat \<Rightarrow> bool" where
  "accounted s \<longleftrightarrow> OnDisconnect (fst s) \<and>
     length (Disconnects (fst s)) + (if conn (fst s) then 1 else 0) = snd s"

definition lifecycle :: "FrameSocket \<Rightarrow> bool \<times> bool \<times> bool list" where
  "lifecycle fs = (OnDisconnect fs, conn fs, Disconnects fs)"

lemma processStep_lifecycle: "processStep fs msg = Inr (fs', msg') \<Longrightarrow> lifecycle fs' = lifecycle fs"
  by (auto simp: processStep_def take_header_def frameComplete_def lifecycle_def Let_def
      split: option.splits if_splits)

lemma processData_lifecycle: "processData fs msg = Inr fs' \<Longrightarrow> lifecycle fs' = lifecycle fs"
proof (induction fs msg rule: processData.induct)
  case (1 fs msg)
  show ?case
  proof (cases "msg = []")
    case True
    with 1(2) show ?thesis by (simp add: processData.simps)
  next
    case False
    with 1(2) obtain fs1 m1 where s: "processStep fs msg = Inr (fs1, m1)"
      by (auto simp: processData.simps [of fs] split: sum.splits)
    then have "lifecycle fs1 = lifecycle fs" by (rule processStep_lifecycle)
    with 1(2) 1(1) [OF False s] False s show ?thesis
      by (cases "m1 = []") (auto simp: processData.simps [of fs])
  qed
qed

lemma SendFrame_lifecycle: "lifecycle (fst (SendFrame wr fs d)) = lifecycle fs"
  by (auto simp: SendFrame_def lifecycle_def Let_def split: option.splits)

lemma accounted_lifecycle: "lifecycle fs' = lifecycle fs \<Longrightarrow> accounted (fs', n) \<longleftrightarrow> accounted (fs, n)"
  by (simp add: accounted_def lifecycle_def)

lemma fs_run_accounted: "fs_run ops s = Inr s' \<Longrightarrow> accounted s \<Longrightarrow> accounted s'"
proof (induction ops s rule: fs_run.induct)
  case (2 dialled ops fs n)
  then show ?case
    by (cases "conn fs"; cases dialled) (auto simp: Connect_def accounted_def split: if_splits)
next
  case (3 code ops fs n)
  then show ?case
    by (auto simp: Close_def accounted_def Let_def split: if_splits)
next
  case (4 d ops fs n)
  then show ?case
    using accounted_lifecycle [OF SendFrame_lifecycle] by auto
next
  case (5 d ops fs n)
  then obtain fs1 where fs1: "processData fs d = Inr fs1" "fs_run ops (fs1, n) = Inr s'"
    by (auto simp: res_elims)
  with 5 accounted_lifecycle [OF processData_lifecycle [OF fs1(1)]] show ?case by simp
qed simp

text \<open>
  Every connection is reported lost exactly once. With a disconnect handler installed, after any
  sequence of connects, closes (local or from the read pump, repeated ones too), sends and
  received messages, the number of handler calls plus one for a live connection is the number of
  successful connects.
\<close>

theorem disconnect_reported_once:
  assumes "fs_run ops (NewFrameSocket\<lparr>OnDisconnect := True\<rparr>, 0) = Inr (fs, n)"
  shows "length (Disconnects fs) + (if conn fs then 1 else 0) = n"
  using fs_run_accounted [OF assms] by (simp add: accounted_def NewFrameSocket_def)

theorem disconnect_reported_once_witness:
  "\<exists>fs. fs_run [OpConnect True, OpClose 0, OpClose 1000, OpConnect False, OpConnect True]
      (NewFrameSocket\<lparr>OnDisconnect := True\<rparr>, 0) = Inr (fs, 2) \<and>
    length (Disconnects fs) + (if conn fs then 1 else 0) = 2"
proof -
  obtain fs where run: "fs_run [OpConnect True, OpClose 0, OpClose 1000, OpConnect False, OpConnect True]
      (NewFrameSocket\<lparr>OnDisconnect := True\<rparr>, 0) = Inr (fs, 2)"
    by (simp add: Connect_def Close_def NewFrameSocket_def Let_def)
  from disconnect_reported_once [OF this] run show ?thesis by blast
qed

end
