(* ===== verification/Noise.thy ===== *)
theory Noise
  imports Frame_Socket
begin

text \<open>
  The encrypted channel on top of the frame socket: \<open>lib/socket/noisesocket.go\<close> and the handshake
  state of \<open>lib/socket/noisehandshake.go\<close>, with \<open>Prepare\<close> of \<open>lib/util/gcmutil\<close>. SHA-256, AES-GCM,
  HKDF and X25519 are a record of functions, an argument of every definition that uses them; what
  the theorems need of them (opening undoes sealing, both sides of a Diffie-Hellman exchange agree)
  is stated as a hypothesis. An AEAD value is represented by its key.
\<close>

section \<open>Cryptographic primitives\<close>

record crypto =
  sha256 :: "bytes \<Rightarrow> bytes"
  gcm_seal :: "bytes \<Rightarrow> bytes \<Rightarrow> bytes \<Rightarrow> bytes \<Rightarrow> bytes"
  gcm_open :: "bytes \<Rightarrow> bytes \<Rightarrow> bytes \<Rightarrow> bytes \<Rightarrow> bytes option"
  hkdf_reader :: "bytes \<Rightarrow> bytes \<Rightarrow> bytes"
  x25519 :: "bytes \<Rightarrow> bytes \<Rightarrow> bytes option"

definition aead_law :: "crypto \<Rightarrow> bool" where
  "aead_law cr \<longleftrightarrow> (\<forall>k iv p ad. gcm_open cr k iv (gcm_seal cr k iv p ad) ad = Some p)"

text \<open>\<open>aes.NewCipher\<close> accepts keys of 16, 24 and 32 bytes; \<open>cipher.NewGCM\<close> accepts every AES cipher.\<close>

datatype key_error = KeySizeError nat

datatype gcm_error = GcmKey key_error | GcmAuthFailed

definition Prepare :: "bytes \<Rightarrow> key_error + bytes" where
  "Prepare secretKey =
     (if length secretKey \<in> {16, 24, 32} then Inr secretKey else Inl (KeySizeError (length secretKey)))"

definition gcm_Decrypt :: "crypto \<Rightarrow> bytes \<Rightarrow> bytes \<Rightarrow> bytes \<Rightarrow> bytes \<Rightarrow> gcm_error + bytes" where
  "gcm_Decrypt cr secretKey iv ciphertext additionalData =
     (case Prepare secretKey of
        Inl e \<Rightarrow> Inl (GcmKey e)
      | Inr gcm \<Rightarrow>
          (case gcm_open cr gcm iv ciphertext additionalData of None \<Rightarrow> Inl GcmAuthFailed | Some p \<Rightarrow> Inr p))"

definition gcm_Encrypt :: "crypto \<Rightarrow> bytes \<Rightarrow> bytes \<Rightarrow> bytes \<Rightarrow> bytes \<Rightarrow> gcm_error + bytes" where
  "gcm_Encrypt cr secretKey iv plaintext additionalData =
     (case Prepare secretKey of
        Inl e \<Rightarrow> Inl (GcmKey e)
      | Inr gcm \<Rightarrow> Inr (gcm_seal cr gcm iv plaintext additionalData))"

section \<open>The noise socket\<close>

text \<open>\<open>Delivered\<close> is the list of plaintexts passed to \<open>onFrame\<close>.\<close>

record NoiseSocket =
  ns_fs :: FrameSocket
  writeKey :: bytes
  readKey :: bytes
  writeCounter :: u32
  readCounter :: u32
  destroyed :: bool
  Delivered :: "bytes list"

definition newNoiseSocket :: "FrameSocket \<Rightarrow> bytes \<Rightarrow> bytes \<Rightarrow> NoiseSocket" where
  "newNoiseSocket fs wk rk =
     \<lparr>ns_fs = fs\<lparr>OnDisconnect := True\<rparr>, writeKey = wk, readKey = rk, writeCounter = 0, readCounter = 0,
      destroyed = False, Delivered = []\<rparr>"

definition generateIV :: "u32 \<Rightarrow> bytes" where
  "generateIV count = replicate 8 0 @ put_be32 count"

definition Stop :: "NoiseSocket \<Rightarrow> bool \<Rightarrow> bool \<Rightarrow> NoiseSocket" where
  "Stop ns disconnect allowOnDisconnect =
     (if destroyed ns then ns
      else let ns = ns\<lparr>destroyed := True\<rparr>;
               fs = (if allowOnDisconnect then ns_fs ns else (ns_fs ns)\<lparr>OnDisconnect := False\<rparr>)
           in ns\<lparr>ns_fs := (if disconnect then Close fs 1000 else fs)\<rparr>)"

text \<open>
  \<open>before\<close> is \<open>ctx.Err()\<close> when the call starts. \<open>during\<close> is an error when the context ends before
  the write has returned: the frame is still written by its goroutine, only the result differs.
\<close>

datatype 'w noise_error = CtxErr | FrameErr "'w frame_error"

definition NoiseSendFrame ::
  "crypto \<Rightarrow> (bytes \<Rightarrow> 'w option) \<Rightarrow> bool \<Rightarrow> bool \<Rightarrow> NoiseSocket \<Rightarrow> bytes \<Rightarrow>
    NoiseSocket \<times> 'w noise_error option" where
  "NoiseSendFrame cr wr before during ns plaintext =
     (if before then (ns, Some CtxErr)
      else let ciphertext = gcm_seal cr (writeKey ns) (generateIV (writeCounter ns)) plaintext [];
               ns = ns\<lparr>writeCounter := writeCounter ns + 1\<rparr>;
               (fs, retErr) = SendFrame wr (ns_fs ns) ciphertext
           in (ns\<lparr>ns_fs := fs\<rparr>, if during then Some CtxErr else map_option FrameErr retErr))"

definition receiveEncryptedFrame :: "crypto \<Rightarrow> NoiseSocket \<Rightarrow> bytes \<Rightarrow> NoiseSocket" where
  "receiveEncryptedFrame cr ns ciphertext =
     (let plaintext = gcm_open cr (readKey ns) (generateIV (readCounter ns)) ciphertext [];
          ns = ns\<lparr>readCounter := readCounter ns + 1\<rparr>
      in case plaintext of None \<Rightarrow> ns | Some p \<Rightarrow> ns\<lparr>Delivered := Delivered ns @ [p]\<rparr>)"

text \<open>The loop over the frames received before the context ends or the socket is stopped.\<close>

definition consumeFrames :: "crypto \<Rightarrow> NoiseSocket \<Rightarrow> bytes list \<Rightarrow> NoiseSocket" where
  "consumeFrames cr ns frames = foldl (receiveEncryptedFrame cr) ns frames"

definition NoiseIsConnected :: "NoiseSocket option \<Rightarrow> bool" where
  "NoiseIsConnected ns \<longleftrightarrow> (case ns of None \<Rightarrow> False | Some ns \<Rightarrow> IsConnected (ns_fs ns))"

section \<open>The handshake\<close>

text \<open>\<open>hs_key\<close> is \<open>None\<close> for the nil cipher of a handshake that has not been started.\<close>

record NoiseHandshake =
  hs_hash :: bytes
  hs_salt :: bytes
  hs_key :: "bytes option"
  hs_counter :: u32

definition NewNoiseHandshake :: NoiseHandshake where
  "NewNoiseHandshake = \<lparr>hs_hash = [], hs_salt = [], hs_key = None, hs_counter = 0\<rparr>"

definition Authenticate :: "crypto \<Rightarrow> NoiseHandshake \<Rightarrow> bytes \<Rightarrow> NoiseHandshake" where
  "Authenticate cr nh d = nh\<lparr>hs_hash := sha256 cr (hs_hash nh @ d)\<rparr>"

datatype hs_panic = NilCipher | BadKey key_error

definition HandshakeStart ::
  "crypto \<Rightarrow> NoiseHandshake \<Rightarrow> string \<Rightarrow> bytes \<Rightarrow> hs_panic + NoiseHandshake" where
  "HandshakeStart cr nh pattern header =
     (let d = str_bytes pattern;
          h = (if length d = 32 then d else sha256 cr d);
          nh = nh\<lparr>hs_hash := h, hs_salt := h\<rparr>
      in case Prepare h of
           Inl e \<Rightarrow> Inl (BadKey e)
         | Inr k \<Rightarrow> Inr (Authenticate cr (nh\<lparr>hs_key := Some k\<rparr>) header))"

definition postIncrementCounter :: "NoiseHandshake \<Rightarrow> u32 \<times> NoiseHandshake" where
  "postIncrementCounter nh =
     (let count = hs_counter nh + 1 in (count - 1, nh\<lparr>hs_counter := count\<rparr>))"

definition HandshakeEncrypt ::
  "crypto \<Rightarrow> NoiseHandshake \<Rightarrow> bytes \<Rightarrow> hs_panic + bytes \<times> NoiseHandshake" where
  "HandshakeEncrypt cr nh plaintext =
     (case postIncrementCounter nh of (count, nh) \<Rightarrow>
      case hs_key nh of
        None \<Rightarrow> Inl NilCipher
      | Some k \<Rightarrow>
          let ciphertext = gcm_seal cr k (generateIV count) plaintext (hs_hash nh)
          in Inr (ciphertext, Authenticate cr nh ciphertext))"

definition HandshakeDecrypt ::
  "crypto \<Rightarrow> NoiseHandshake \<Rightarrow> bytes \<Rightarrow> hs_panic + bytes option \<times> NoiseHandshake" where
  "HandshakeDecrypt cr nh ciphertext =
     (case postIncrementCounter nh of (count, nh) \<Rightarrow>
      case hs_key nh of
        None \<Rightarrow> Inl NilCipher
      | Some k \<Rightarrow>
          (case gcm_open cr k (generateIV count) ciphertext (hs_hash nh) of
             None \<Rightarrow> Inr (None, nh)
           | Some p \<Rightarrow> Inr (Some p, Authenticate cr nh ciphertext)))"

text \<open>Two \<open>io.ReadFull\<close> calls of 32 bytes on the HKDF reader.\<close>

datatype hs_error = ExtractWriteKey | ExtractReadKey | CipherErr key_error | X25519Failed

definition extractAndExpand :: "crypto \<Rightarrow> bytes \<Rightarrow> bytes \<Rightarrow> hs_error + bytes \<times> bytes" where
  "extractAndExpand cr salt d =
     (let h = hkdf_reader cr salt d
      in if length h < 32 then Inl ExtractWriteKey
         else if length h < 64 then Inl ExtractReadKey
         else Inr (take 32 h, take 32 (drop 32 h)))"

definition MixIntoKey :: "crypto \<Rightarrow> NoiseHandshake \<Rightarrow> bytes \<Rightarrow> NoiseHandshake \<times> hs_error option" where
  "MixIntoKey cr nh d =
     (let nh = nh\<lparr>hs_counter := 0\<rparr>
      in case extractAndExpand cr (hs_salt nh) d of
           Inl e \<Rightarrow> (nh, Some e)
         | Inr (wk, rk) \<Rightarrow>
             (case Prepare rk of
                Inl e \<Rightarrow> (nh\<lparr>hs_salt := wk, hs_key := None\<rparr>, Some (CipherErr e))
              | Inr k \<Rightarrow> (nh\<lparr>hs_salt := wk, hs_key := Some k\<rparr>, None)))"

definition MixSharedSecretIntoKey ::
  "crypto \<Rightarrow> NoiseHandshake \<Rightarrow> bytes \<Rightarrow> bytes \<Rightarrow> NoiseHandshake \<times> hs_error option" where
  "MixSharedSecretIntoKey cr nh priv pub =
     (case x25519 cr priv pub of
        None \<Rightarrow> (nh, Some X25519Failed)
      | Some secret \<Rightarrow> MixIntoKey cr nh secret)"

definition Finish :: "crypto \<Rightarrow> NoiseHandshake \<Rightarrow> FrameSocket \<Rightarrow> hs_error + NoiseSocket" where
  "Finish cr nh fs =
     (case extractAndExpand cr (hs_salt nh) [] of
        Inl e \<Rightarrow> Inl e
      | Inr (wk, rk) \<Rightarrow>
          (case Prepare wk of
             Inl e \<Rightarrow> Inl (CipherErr e)
           | Inr wk \<Rightarrow>
               (case Prepare rk of
                  Inl e \<Rightarrow> Inl (CipherErr e)
                | Inr rk \<Rightarrow> Inr (newNoiseSocket fs wk rk))))"

section \<open>Nonces\<close>

lemma generateIV_inject: "generateIV x = generateIV y \<longleftrightarrow> x = y"
  by (simp add: generateIV_def put_be32_inject)

lemma length_generateIV: "length (generateIV c) = 12"
  by (simp add: generateIV_def)

lemma of_nat_u32_inj: "inj_on (\<lambda>i. (c :: u32) + of_nat i) {0..<2 ^ 32}"
proof (rule inj_onI)
  fix x y :: nat
  assume xy: "x \<in> {0..<2 ^ 32}" "y \<in> {0..<2 ^ 32}" and eq: "c + of_nat x = c + of_nat y"
  from eq have "unat (of_nat x :: u32) = unat (of_nat y :: u32)" by simp
  with xy show "x = y" by (simp add: unat_of_nat take_bit_nat_eq_self)
qed

section \<open>Sending and receiving a sequence\<close>

fun send_all :: "crypto \<Rightarrow> NoiseSocket \<Rightarrow> bytes list \<Rightarrow> NoiseSocket" where
  "send_all cr ns [] = ns"
| "send_all cr ns (p # ps) =
     send_all cr (fst (NoiseSendFrame cr (\<lambda>_. None :: unit option) False False ns p)) ps"

definition sealed :: "crypto \<Rightarrow> bytes \<Rightarrow> u32 \<Rightarrow> bytes list \<Rightarrow> bytes list" where
  "sealed cr k c ps = map (\<lambda>(i, p). gcm_seal cr k (generateIV (c + of_nat i)) p []) (enumerate 0 ps)"

lemma enumerate_Suc_map: "enumerate (Suc n) xs = map (\<lambda>(i, x). (Suc i, x)) (enumerate n xs)"
  by (induction xs arbitrary: n) simp_all

lemma sealed_simps [simp]:
  "sealed cr k c [] = []"
  "sealed cr k c (p # ps) = gcm_seal cr k (generateIV c) p [] # sealed cr k (c + 1) ps"
  by (simp_all add: sealed_def enumerate_Suc_map comp_def case_prod_beta add.assoc)

lemma SendFrame_ok:
  assumes "conn fs" and "Header fs = None" and "length d < FrameMaxSize"
  shows "SendFrame (\<lambda>_. None) fs d = (fs\<lparr>Written := Written fs @ [frame d]\<rparr>, None)"
  using assms by (cases fs) (simp add: SendFrame_def frame_def Let_def)

lemma send_all_written:
  assumes "conn (ns_fs ns)" and "Header (ns_fs ns) = None"
    and "\<forall>c \<in> set (sealed cr (writeKey ns) (writeCounter ns) ps). length c < FrameMaxSize"
  shows "Written (ns_fs (send_all cr ns ps)) =
      Written (ns_fs ns) @ map frame (sealed cr (writeKey ns) (writeCounter ns) ps) \<and>
    writeCounter (send_all cr ns ps) = writeCounter ns + of_nat (length ps)"
  using assms
  by (induction ps arbitrary: ns) (simp_all add: NoiseSendFrame_def SendFrame_ok algebra_simps)

lemma consumeFrames_sealed:
  assumes "aead_law cr"
  shows "Delivered (consumeFrames cr ns (sealed cr (readKey ns) (readCounter ns) ps)) = Delivered ns @ ps"
  using assms
proof (induction ps arbitrary: ns)
  case (Cons p ps)
  let ?ns = "ns\<lparr>readCounter := readCounter ns + 1, Delivered := Delivered ns @ [p]\<rparr>"
  have "receiveEncryptedFrame cr ns (gcm_seal cr (readKey ns) (generateIV (readCounter ns)) p []) = ?ns"
    using Cons.prems by (simp add: receiveEncryptedFrame_def aead_law_def Let_def)
  with Cons.IH [of ?ns] Cons.prems show ?case
    by (simp add: consumeFrames_def)
qed (simp add: consumeFrames_def)



text \<open>
  C21: No nonce is used twice: sending fewer than \<open>2^32\<close> messages seals them under pairwise distinct
  initialisation vectors of 12 bytes, and the frames written are exactly the sealed plaintexts.
\<close>

theorem noise_nonces_distinct:
  assumes "conn (ns_fs ns)" and "Header (ns_fs ns) = None" and "length ps \<le> 2 ^ 32"
    and "\<forall>c \<in> set (sealed cr (writeKey ns) (writeCounter ns) ps). length c < FrameMaxSize"
  shows "\<exists>ivs. length ivs = length ps \<and> distinct ivs \<and> list_all (\<lambda>iv. length iv = 12) ivs \<and>
    Written (ns_fs (send_all cr ns ps)) =
      Written (ns_fs ns) @ map2 (\<lambda>iv p. frame (gcm_seal cr (writeKey ns) iv p [])) ivs ps"
proof (intro exI conjI)
  let ?ivs = "map (\<lambda>i. generateIV (writeCounter ns + of_nat i)) [0..<length ps]"
  show "length ?ivs = length ps" by simp
  have "inj_on (\<lambda>i. generateIV (writeCounter ns + of_nat i)) {0..<length ps}"
    using of_nat_u32_inj [of "writeCounter ns"] assms(3) by (auto simp: inj_on_def generateIV_inject)
  then show "distinct ?ivs" by (simp add: distinct_map)
  show "list_all (\<lambda>iv. length iv = 12) ?ivs"
    by (simp add: list_all_iff length_generateIV)
  show "Written (ns_fs (send_all cr ns ps)) =
      Written (ns_fs ns) @ map2 (\<lambda>iv p. frame (gcm_seal cr (writeKey ns) iv p [])) ?ivs ps"
    using send_all_written [OF assms(1,2,4)]
    by (simp add: sealed_def enumerate_eq_zip zip_map1 comp_def case_prod_beta)
qed

text \<open>
  A corrupted frame costs only itself: when one of the frames in flight is replaced by bytes that
  do not authenticate, every other plaintext is still delivered, in order, because the read
  counter advances on failures as well.
\<close>

theorem corrupted_frame_lost_alone:
  assumes "aead_law cr" and "cs = sealed cr (readKey r) (readCounter r) (ps @ p # qs)"
    and "gcm_open cr (readKey r) (generateIV (readCounter r + of_nat (length ps))) bad [] = None"
  shows "Delivered (consumeFrames cr r (cs[length ps := bad])) = Delivered r @ ps @ qs"
proof -
  let ?k = "readKey r" and ?c = "readCounter r"
  have app: "sealed cr k c (xs @ ys) = sealed cr k c xs @ sealed cr k (c + of_nat (length xs)) ys"
    for k c xs ys
    by (induction xs arbitrary: c) (simp_all add: algebra_simps)
  have len: "length (sealed cr k c xs) = length xs" for k c xs
    by (simp add: sealed_def)
  have cs: "cs[length ps := bad] =
      sealed cr ?k ?c ps @ bad # sealed cr ?k (?c + of_nat (length ps) + 1) qs"
    by (simp add: assms(2) app list_update_append len)
  have state: "readKey (consumeFrames cr n xs) = readKey n \<and>
      readCounter (consumeFrames cr n xs) = readCounter n + of_nat (length xs)" for n xs
    unfolding consumeFrames_def
    by (induction xs arbitrary: n)
       (simp_all add: receiveEncryptedFrame_def Let_def algebra_simps split: option.split)
  let ?r1 = "consumeFrames cr r (sealed cr ?k ?c ps)"
  let ?r2 = "receiveEncryptedFrame cr ?r1 bad"
  have "Delivered ?r1 = Delivered r @ ps"
    by (rule consumeFrames_sealed [OF assms(1)])
  moreover have "?r2 = ?r1\<lparr>readCounter := readCounter ?r1 + 1\<rparr>"
    using assms(3) by (simp add: receiveEncryptedFrame_def state len Let_def)
  ultimately show ?thesis
    using consumeFrames_sealed [OF assms(1), of ?r2 qs]
    by (simp add: cs consumeFrames_def) (simp add: consumeFrames_def [symmetric] state len)
qed

section \<open>The two sides of a handshake stay in step\<close>

text \<open>
  The moves of a handshake between two parties: both authenticate a public value, one side sends an
  encrypted field to the other, both mix a Diffie-Hellman secret computed from opposite halves of
  two key pairs. The run collects what the receivers decrypted.
\<close>

datatype hs_move =
    MAuthenticate bytes
  | MSend bool bytes
  | MMixDH bytes bytes bytes bytes

fun hs_run ::
  "crypto \<Rightarrow> hs_move list \<Rightarrow> NoiseHandshake \<times> NoiseHandshake \<Rightarrow>
    (NoiseHandshake \<times> NoiseHandshake \<times> bytes option list) option" where
  "hs_run cr [] (a, b) = Some (a, b, [])"
| "hs_run cr (MAuthenticate d # ms) (a, b) = hs_run cr ms (Authenticate cr a d, Authenticate cr b d)"
| "hs_run cr (MSend fromA p # ms) (a, b) =
     (case HandshakeEncrypt cr (if fromA then a else b) p of
        Inl _ \<Rightarrow> None
      | Inr (c, sender) \<Rightarrow>
          (case HandshakeDecrypt cr (if fromA then b else a) c of
             Inl _ \<Rightarrow> None
           | Inr (got, receiver) \<Rightarrow>
               map_option (\<lambda>(x, y, gots). (x, y, got # gots))
                 (hs_run cr ms (if fromA then (sender, receiver) else (receiver, sender)))))"
| "hs_run cr (MMixDH privA pubA privB pubB # ms) (a, b) =
     (case (MixSharedSecretIntoKey cr a privA pubB, MixSharedSecretIntoKey cr b privB pubA) of
        ((a', None), (b', None)) \<Rightarrow> hs_run cr ms (a', b')
      | _ \<Rightarrow> None)"

fun moves_sent :: "hs_move list \<Rightarrow> bytes list" where
  "moves_sent [] = []"
| "moves_sent (MSend _ p # ms) = p # moves_sent ms"
| "moves_sent (_ # ms) = moves_sent ms"

text \<open>Diffie-Hellman: both parties compute the same secret from their key pairs.\<close>

definition dh_agrees :: "crypto \<Rightarrow> hs_move \<Rightarrow> bool" where
  "dh_agrees cr m \<longleftrightarrow> (case m of
     MMixDH privA pubA privB pubB \<Rightarrow> x25519 cr privA pubB = x25519 cr privB pubA | _ \<Rightarrow> True)"

lemma HandshakeDecrypt_Encrypt:
  assumes "aead_law cr" and "HandshakeEncrypt cr nh p = Inr (c, nh')"
  shows "HandshakeDecrypt cr nh c = Inr (Some p, nh')"
  using assms
  by (auto simp: HandshakeEncrypt_def HandshakeDecrypt_def aead_law_def Let_def
      split: option.splits prod.splits)

text \<open>
  C22: Two parties that start in the same state and exchange handshake moves end in the same state:
  the same transcript hash, salt, cipher key and counter on both sides, so that \<open>Finish\<close> derives
  matching keys; and every encrypted field was decrypted to what was sent.
\<close>

theorem handshake_in_step:
  assumes "aead_law cr" and "\<forall>m \<in> set ms. dh_agrees cr m" and "hs_run cr ms (nh, nh) = Some (a, b, gots)"
  shows "a = b \<and> gots = map Some (moves_sent ms) \<and> Finish cr a fs = Finish cr b fs"
  using assms(2,3)
proof (induction ms arbitrary: nh gots)
  case (Cons m ms)
  show ?case
  proof (cases m)
    case (MAuthenticate d)
    with Cons show ?thesis by auto
  next
    case (MMixDH privA pubA privB pubB)
    with Cons.prems(1) have "x25519 cr privA pubB = x25519 cr privB pubA"
      by (simp add: dh_agrees_def)
    then have same: "MixSharedSecretIntoKey cr nh privB pubA = MixSharedSecretIntoKey cr nh privA pubB"
      by (simp add: MixSharedSecretIntoKey_def)
    obtain nh' where "hs_run cr ms (nh', nh') = Some (a, b, gots)"
      using Cons.prems(2) by (auto simp: MMixDH same split: prod.splits option.splits)
    with Cons MMixDH show ?thesis by simp
  next
    case (MSend fromA p)
    obtain c nh' where enc: "HandshakeEncrypt cr nh p = Inr (c, nh')"
      using Cons.prems(2) by (auto simp: MSend split: sum.splits)
    from HandshakeDecrypt_Encrypt [OF assms(1) enc] enc Cons.prems(2) obtain gots' where
      "hs_run cr ms (nh', nh') = Some (a, b, gots')" "gots = Some p # gots'"
      by (auto simp: MSend split: if_splits)
    with Cons.IH [of nh' gots'] Cons.prems(1) MSend show ?thesis by simp
  qed
qed simp

section \<open>Witnesses\<close>

definition toy_crypto :: crypto where
  "toy_crypto = \<lparr>sha256 = (\<lambda>d. take 32 (d @ replicate 32 0)),
     gcm_seal = (\<lambda>k iv p ad. p @ [1]),
     gcm_open = (\<lambda>k iv c ad. if c \<noteq> [] \<and> last c = 1 then Some (butlast c) else None),
     hkdf_reader = (\<lambda>s d. replicate 64 7), x25519 = (\<lambda>a b. Some (a @ b))\<rparr>"

lemma toy_aead: "aead_law toy_crypto"
  by (simp add: aead_law_def toy_crypto_def)

definition toy_socket :: NoiseSocket where
  "toy_socket = newNoiseSocket (NewFrameSocket\<lparr>conn := True, Header := None\<rparr>) [1] [1]"

lemmas toy_defs = toy_socket_def toy_crypto_def newNoiseSocket_def NewFrameSocket_def FrameMaxSize_def


theorem noise_nonces_distinct_witness:
  "\<exists>ivs. length ivs = length [[5 :: u8], [6]] \<and> distinct ivs \<and> list_all (\<lambda>iv. length iv = 12) ivs \<and>
    Written (ns_fs (send_all toy_crypto toy_socket [[5], [6]])) = Written (ns_fs toy_socket) @
      map2 (\<lambda>iv p. frame (gcm_seal toy_crypto (writeKey toy_socket) iv p [])) ivs [[5], [6]]"
  by (rule noise_nonces_distinct) (simp_all add: toy_defs)

theorem corrupted_frame_lost_alone_witness:
  "Delivered (consumeFrames toy_crypto toy_socket ([[5, 1], [6, 1], [7, 1]][1 := [9]])) = [[5], [7]]"
proof -
  have "[[5, 1], [6, 1], [7, 1]] =
      sealed toy_crypto (readKey toy_socket) (readCounter toy_socket) ([[5]] @ [6] # [[7]])"
    by (simp add: toy_defs)
  from corrupted_frame_lost_alone [OF toy_aead this, of "[9]"] show ?thesis
    by (simp add: toy_defs)
qed

theorem handshake_in_step_witness:
  "\<exists>a b. hs_run toy_crypto [MMixDH [1] [2] [1] [2], MSend True [4], MAuthenticate [3], MSend False [8]]
      (NewNoiseHandshake, NewNoiseHandshake) = Some (a, b, [Some [4], Some [8]]) \<and> a = b"
proof -
  let ?ms = "[MMixDH [1] [2] [1] [2], MSend True [4], MAuthenticate [3], MSend False [8]]"
  have "hs_run toy_crypto ?ms (NewNoiseHandshake, NewNoiseHandshake) \<noteq> None"
    by (simp add: toy_crypto_def NewNoiseHandshake_def MixSharedSecretIntoKey_def MixIntoKey_def
        extractAndExpand_def Prepare_def HandshakeEncrypt_def HandshakeDecrypt_def
        postIncrementCounter_def Authenticate_def Let_def)
  then obtain a b gots where
    "hs_run toy_crypto ?ms (NewNoiseHandshake, NewNoiseHandshake) = Some (a, b, gots)"
    by (metis not_None_eq prod_cases3)
  with handshake_in_step [OF toy_aead _ this] show ?thesis
    by (auto simp: dh_agrees_def)
qed

end
