(* ===== verification/H264.thy ===== *)
theory H264
  imports Prelude
begin

text \<open>
  H.264 packetization (RFC 6184) for video calls: \<open>lib/rtp/h264.go\<close>. NAL units are split into RTP
  payloads, reassembled from them, and joined into Annex-B access units. Slices that the code keeps
  for reuse (\<open>fuBuf[:0]\<close>) are their contents. The access unit assembler is a state machine over the
  packets of one stream.
\<close>

section \<open>Packetizing\<close>

definition h264StapAType :: u8 where "h264StapAType = 24"
definition h264FuaType :: u8 where "h264FuaType = 28"
definition mtuPayloadMax :: nat where "mtuPayloadMax = 800"
definition maxFuReassemblyBytes :: nat where "maxFuReassemblyBytes = 4 * 2 ^ 20"
definition maxAccessUnitBytes :: nat where "maxAccessUnitBytes = 8 * 2 ^ 20"

function fragments :: "u8 \<Rightarrow> u8 \<Rightarrow> bytes \<Rightarrow> nat \<Rightarrow> bytes list" where
  "fragments fuIndicator originalType body offset =
     (if offset < length body then
        let fragSize = mtuPayloadMax - 2;
            end = min (offset + fragSize) (length body);
            chunk = take (end - offset) (drop offset body);
            fuHeader = originalType;
            fuHeader = (if offset = 0 then fuHeader OR 0x80 else fuHeader);
            fuHeader = (if end = length body then fuHeader OR 0x40 else fuHeader)
        in (fuIndicator # fuHeader # chunk) # fragments fuIndicator originalType body end
      else [])"
  by pat_completeness auto

termination
  by (relation "measure (\<lambda>(_, _, body, offset). length body - offset)")
     (auto simp: mtuPayloadMax_def min_def)

declare fragments.simps [simp del]

definition PackageH264NALU :: "bytes \<Rightarrow> bytes list" where
  "PackageH264NALU nalu =
     (case nalu of
        [] \<Rightarrow> []
      | naluHeader # body \<Rightarrow>
          if length nalu \<le> mtuPayloadMax then [nalu]
          else let fbitAndNri = naluHeader AND 0xE0;
                   originalType = naluHeader AND 0x1F;
                   fuIndicator = fbitAndNri OR h264FuaType
               in fragments fuIndicator originalType body 0)"

text \<open>The first loop of the aggregation: the checks, the total and the highest NRI.\<close>

fun stap_total :: "nat \<Rightarrow> u8 \<Rightarrow> bytes list \<Rightarrow> (nat \<times> u8) option" where
  "stap_total tot maxNri [] = Some (tot, maxNri)"
| "stap_total tot maxNri (n # ns) =
     (if length n = 0 \<or> length n > 0xFFFF then None
      else let tot = tot + (2 + length n)
      in if tot > mtuPayloadMax then None
      else let nri = n ! 0 AND 0x60 in stap_total tot (if nri > maxNri then nri else maxNri) ns)"

definition PackageH264STAPA :: "bytes list \<Rightarrow> bytes option" where
  "PackageH264STAPA nalus =
     (if length nalus < 2 then None
      else case stap_total 1 0 nalus of
          None \<Rightarrow> None
        | Some (tot, maxNri) \<Rightarrow>
            Some ((maxNri OR h264StapAType) #
              concat (map (\<lambda>n. [of_nat (drop_bit 8 (length n)), of_nat (length n)] @ n) nalus)))"

section \<open>Annex-B streams\<close>

definition annexBStartCodeLen :: "bytes \<Rightarrow> nat \<Rightarrow> nat" where
  "annexBStartCodeLen d offset =
     (if offset + 3 < length d \<and> d ! offset = 0 \<and> d ! (offset + 1) = 0 \<and>
         d ! (offset + 2) = 0 \<and> d ! (offset + 3) = 1 then 4
      else if offset + 2 < length d \<and> d ! offset = 0 \<and> d ! (offset + 1) = 0 \<and> d ! (offset + 2) = 1 then 3
      else 0)"

fun trim_end :: "bytes \<Rightarrow> nat \<Rightarrow> nat \<Rightarrow> nat" where
  "trim_end d start 0 = 0"
| "trim_end d start (Suc e) = (if Suc e > start \<and> d ! e = 0 then trim_end d start e else Suc e)"

text \<open>\<open>start\<close> is \<open>None\<close> for the initial \<open>-1\<close>.\<close>

function split_loop :: "bytes \<Rightarrow> nat \<Rightarrow> nat option \<Rightarrow> bytes list \<Rightarrow> bytes list" where
  "split_loop d i start nalus =
     (if i < length d then
        let sc = annexBStartCodeLen d i
        in if sc > 0 then
             let nalus = (case start of
                 None \<Rightarrow> nalus
               | Some s \<Rightarrow>
                   let e = trim_end d s i
                   in if e > s then nalus @ [take (e - s) (drop s d)] else nalus)
             in split_loop d (i + sc) (Some (i + sc)) nalus
           else split_loop d (i + 1) start nalus
      else case start of
          None \<Rightarrow> nalus
        | Some s \<Rightarrow> if s < length d then nalus @ [drop s d] else nalus)"
  by pat_completeness auto

termination
  by (relation "measure (\<lambda>(d, i, _). length d - i)") auto

declare split_loop.simps [simp del]

definition SplitAnnexB :: "bytes \<Rightarrow> bytes list" where
  "SplitAnnexB d = split_loop d 0 None []"

definition AUHasIDR :: "bytes \<Rightarrow> bool" where
  "AUHasIDR au \<longleftrightarrow> list_ex (\<lambda>nalu. length nalu > 0 \<and> nalu ! 0 AND 0x1f = 5) (SplitAnnexB au)"

section \<open>Depacketizing\<close>

record H264Depacketizer =
  fuBuf :: bytes
  fuType :: u8
  fuNriF :: u8
  fuActive :: bool
  overflow :: bool

definition new_depacketizer :: H264Depacketizer where
  "new_depacketizer = \<lparr>fuBuf = [], fuType = 0, fuNriF = 0, fuActive = False, overflow = False\<rparr>"

function stap_units :: "bytes \<Rightarrow> bytes list \<Rightarrow> bytes list" where
  "stap_units (b0 # b1 # body) out =
     (let size = push_bit 8 (unat b0) OR unat b1
      in if size = 0 \<or> size > length body then out
         else stap_units (drop size body) (out @ [take size body]))"
| "stap_units [_] out = out"
| "stap_units [] out = out"
  by pat_completeness auto

termination
  by (relation "measure (\<lambda>(body, _). length body)") auto

definition Depacketize :: "H264Depacketizer \<Rightarrow> bytes \<Rightarrow> bytes list \<times> H264Depacketizer" where
  "Depacketize d payload =
     (if length payload < 1 then ([], d)
      else let naluType = payload ! 0 AND 0x1F; fbitAndNri = payload ! 0 AND 0xE0
      in if naluType \<ge> 1 \<and> naluType \<le> 23 then ([payload], d\<lparr>fuActive := False\<rparr>)
      else if naluType = h264StapAType then (stap_units (tl payload) [], d\<lparr>fuActive := False\<rparr>)
      else if naluType = h264FuaType then
        (if length payload < 2 then ([], d\<lparr>fuActive := False\<rparr>)
         else let fuHeader = payload ! 1;
                  startBit = fuHeader AND 0x80;
                  endBit = fuHeader AND 0x40;
                  origType = fuHeader AND 0x1F;
                  body = drop 2 payload
         in if (startBit \<noteq> 0 \<and> 1 + length body > maxFuReassemblyBytes) \<or>
               (startBit = 0 \<and> fuActive d \<and> length (fuBuf d) + length body > maxFuReassemblyBytes)
            then ([], d\<lparr>fuActive := False, fuBuf := [], overflow := True\<rparr>)
         else if startBit = 0 \<and> \<not> fuActive d then ([], d)
         else let d = (if startBit \<noteq> 0
                       then d\<lparr>fuActive := True, fuType := origType, fuNriF := fbitAndNri,
                              fuBuf := (fbitAndNri OR origType) # body\<rparr>
                       else d\<lparr>fuBuf := fuBuf d @ body\<rparr>)
         in if endBit \<noteq> 0 then ([fuBuf d], d\<lparr>fuActive := False, fuBuf := []\<rparr>) else ([], d))
      else ([], d\<lparr>fuActive := False\<rparr>))"

section \<open>Access units\<close>

record H264AccessUnitAssembler =
  depacketizer :: H264Depacketizer
  accessUnit :: bytes
  expectedSeq :: u16
  hasSequence :: bool
  keyframeNeeded :: bool

definition new_assembler :: H264AccessUnitAssembler where
  "new_assembler = \<lparr>depacketizer = new_depacketizer, accessUnit = [], expectedSeq = 0,
     hasSequence = False, keyframeNeeded = False\<rparr>"

definition drop_unit :: "bool \<Rightarrow> H264AccessUnitAssembler \<Rightarrow> bool \<times> H264AccessUnitAssembler" where
  "drop_unit recoveryNeeded a =
     (recoveryNeeded \<or> \<not> keyframeNeeded a,
      a\<lparr>depacketizer := new_depacketizer, accessUnit := [], keyframeNeeded := True\<rparr>)"

fun append_units :: "bool \<Rightarrow> H264AccessUnitAssembler \<Rightarrow> bytes list \<Rightarrow> bool \<times> H264AccessUnitAssembler" where
  "append_units recoveryNeeded a [] = (recoveryNeeded, a)"
| "append_units recoveryNeeded a (nalu # nalus) =
     (if length (accessUnit a) + 4 + length nalu > maxAccessUnitBytes then drop_unit recoveryNeeded a
      else append_units recoveryNeeded (a\<lparr>accessUnit := accessUnit a @ [0, 0, 0, 1] @ nalu\<rparr>) nalus)"

text \<open>The results: the access unit when one is complete, and whether a keyframe must be requested.\<close>

definition Push ::
  "H264AccessUnitAssembler \<Rightarrow> u16 \<Rightarrow> bool \<Rightarrow> bytes \<Rightarrow>
    (bytes option \<times> bool) \<times> H264AccessUnitAssembler" where
  "Push a sequence marker payload =
     (let (recoveryNeeded, a) =
        (if hasSequence a \<and> sequence \<noteq> expectedSeq a then drop_unit False a else (False, a));
          a = a\<lparr>hasSequence := True, expectedSeq := sequence + 1\<rparr>;
          (nalus, d) = Depacketize (depacketizer a) payload;
          (recoveryNeeded, a) = append_units recoveryNeeded (a\<lparr>depacketizer := d\<rparr>) nalus;
          (recoveryNeeded, a) =
        (if overflow (depacketizer a) then drop_unit recoveryNeeded a else (recoveryNeeded, a))
      in if \<not> marker then ((None, recoveryNeeded), a)
      else let au = accessUnit a;
               a = a\<lparr>accessUnit := [], depacketizer := new_depacketizer\<rparr>
      in if length au = 0 then ((None, recoveryNeeded), a)
      else if keyframeNeeded a then
        (if \<not> AUHasIDR au then ((None, recoveryNeeded), a)
         else ((Some au, recoveryNeeded), a\<lparr>keyframeNeeded := False\<rparr>))
      else ((Some au, recoveryNeeded), a))"

section \<open>Header bits\<close>

lemma bit_lits:
  "bit (31 :: int) n \<longleftrightarrow> n < 5" "bit (224 :: int) n \<longleftrightarrow> 5 \<le> n \<and> n < 8"
  "bit (64 :: int) n \<longleftrightarrow> n = 6" "bit (28 :: int) n \<longleftrightarrow> 2 \<le> n \<and> n < 5"
proof -
  have "(31 :: int) = mask 5" "(224 :: int) = push_bit 5 (mask 3)" "(28 :: int) = push_bit 2 (mask 3)"
    "(64 :: int) = 2 ^ 6"
    by (simp_all add: mask_eq_exp_minus_1 push_bit_eq_mult)
  then show "bit (31 :: int) n \<longleftrightarrow> n < 5" "bit (224 :: int) n \<longleftrightarrow> 5 \<le> n \<and> n < 8"
    "bit (64 :: int) n \<longleftrightarrow> n = 6" "bit (28 :: int) n \<longleftrightarrow> 2 \<le> n \<and> n < 5"
    by (auto simp only: bit_mask_iff bit_push_bit_iff bit_exp_iff) (auto simp: bit_mask_iff)
qed

lemma fu_indicator_bits:
  fixes h :: u8
  shows "((h AND 0xE0) OR 28) AND 0x1F = 28" "((h AND 0xE0) OR 28) AND 0xE0 = h AND 0xE0"
    "(h AND 0xE0) OR (h AND 0x1F) = h"
  by (auto intro!: bit_word_eqI simp: bit_simps bit_lits)

definition fu_header :: "bool \<Rightarrow> bool \<Rightarrow> u8 \<Rightarrow> u8" where
  "fu_header s e t =
     (let f = (if s then t OR 0x80 else t) in if e then f OR 0x40 else f)"

lemma fu_header_bits:
  "fu_header s e (h AND 0x1F) AND 0x1F = h AND 0x1F"
  "fu_header s e (h AND 0x1F) AND 0x80 = (if s then 0x80 else 0)"
  "fu_header s e (h AND 0x1F) AND 0x40 = (if e then 0x40 else 0)"
  by (auto intro!: bit_word_eqI simp: fu_header_def Let_def bit_simps bit_lits bit_128_int)

section \<open>Reassembly of one unit\<close>

fun depack_run :: "H264Depacketizer \<Rightarrow> bytes list \<Rightarrow> bytes list \<times> H264Depacketizer" where
  "depack_run d [] = ([], d)"
| "depack_run d (p # ps) =
     (case Depacketize d p of (out, d1) \<Rightarrow>
      case depack_run d1 ps of (outs, d2) \<Rightarrow> (out @ outs, d2))"

lemma Depacketize_fu_start:
  assumes "1 + length chunk \<le> maxFuReassemblyBytes"
  shows "Depacketize d (((h AND 0xE0) OR 28) # fu_header True e (h AND 0x1F) # chunk) =
    (if e then ([h # chunk], d\<lparr>fuActive := False, fuType := h AND 0x1F, fuNriF := h AND 0xE0, fuBuf := []\<rparr>)
     else ([], d\<lparr>fuActive := True, fuType := h AND 0x1F, fuNriF := h AND 0xE0, fuBuf := h # chunk\<rparr>))"
  using assms
  by (simp add: Depacketize_def fu_indicator_bits fu_header_bits h264StapAType_def h264FuaType_def Let_def)

lemma Depacketize_fu_next:
  assumes "length (fuBuf d) + length chunk \<le> maxFuReassemblyBytes" and "fuActive d"
  shows "Depacketize d (((h AND 0xE0) OR 28) # fu_header False e (h AND 0x1F) # chunk) =
    (if e then ([fuBuf d @ chunk], d\<lparr>fuActive := False, fuBuf := []\<rparr>)
     else ([], d\<lparr>fuBuf := fuBuf d @ chunk\<rparr>))"
  using assms
  by (simp add: Depacketize_def fu_indicator_bits fu_header_bits h264StapAType_def h264FuaType_def Let_def)

lemma fragments_step:
  assumes "offset < length body"
  defines "e \<equiv> min (offset + 798) (length body)"
  shows "fragments ind t body offset =
    (ind # fu_header (offset = 0) (e = length body) t # take (e - offset) (drop offset body)) #
      fragments ind t body e"
  using assms by (subst fragments.simps) (simp add: mtuPayloadMax_def fu_header_def Let_def)

lemma fragments_end: "length body \<le> offset \<Longrightarrow> fragments ind t body offset = []"
  by (subst fragments.simps) simp

lemma fragments_rest:
  assumes "0 < offset" and "offset < length body" and "fuActive d"
    and "fuBuf d = h # take offset body" and "1 + length body \<le> maxFuReassemblyBytes"
  shows "\<exists>d'. depack_run d (fragments ((h AND 0xE0) OR 28) (h AND 0x1F) body offset) = ([h # body], d') \<and>
    \<not> fuActive d' \<and> overflow d' = overflow d"
  using assms
proof (induction "length body - offset" arbitrary: offset d rule: less_induct)
  case less
  define e where "e = min (offset + 798) (length body)"
  let ?chunk = "take (e - offset) (drop offset body)"
  have "take offset body @ ?chunk = take e body"
    using less.prems(2) by (simp add: e_def take_add [symmetric] min_def)
  then have buf: "fuBuf d @ ?chunk = h # take e body"
    using less.prems(4) by simp
  have "length (fuBuf d) + length ?chunk \<le> maxFuReassemblyBytes"
    using less.prems by (simp add: e_def)
  note step = Depacketize_fu_next [OF this less.prems(3), of h "e = length body"]
  show ?case
  proof (cases "e = length body")
    case True
    with step buf less.prems(1,2) show ?thesis
      by (simp add: fragments_step flip: e_def) (simp add: fragments_end)
  next
    case False
    then have "e < length body" "offset < e" "0 < e" "length body - e < length body - offset"
      using less.prems(1,2) by (auto simp: e_def)
    with less.hyps [of e "d\<lparr>fuBuf := fuBuf d @ ?chunk\<rparr>"] less.prems(3,5) buf
    obtain d' where "depack_run (d\<lparr>fuBuf := fuBuf d @ ?chunk\<rparr>)
        (fragments ((h AND 0xE0) OR 28) (h AND 0x1F) body e) = ([h # body], d')"
      "\<not> fuActive d'" "overflow d' = overflow d"
      by auto
    with step False less.prems(1,2) show ?thesis
      by (simp add: fragments_step flip: e_def)
  qed
qed

text \<open>The units that single-unit and fragmented payloads can carry.\<close>

definition nal_unit :: "bytes \<Rightarrow> bool" where
  "nal_unit n \<longleftrightarrow> n \<noteq> [] \<and> n ! 0 AND 0x1F \<ge> 1 \<and> n ! 0 AND 0x1F \<le> 23 \<and>
     length n \<le> maxFuReassemblyBytes"

lemma PackageH264NALU_run:
  assumes "nal_unit n"
  shows "\<exists>d'. depack_run d (PackageH264NALU n) = ([n], d') \<and> \<not> fuActive d' \<and> overflow d' = overflow d"
proof -
  obtain h body where n: "n = h # body"
    using assms by (cases n) (auto simp: nal_unit_def)
  show ?thesis
  proof (cases "length n \<le> 800")
    case True
    with assms show ?thesis
      by (simp add: n PackageH264NALU_def mtuPayloadMax_def Depacketize_def nal_unit_def Let_def)
  next
    case False
    let ?d = "d\<lparr>fuActive := True, fuType := h AND 0x1F, fuNriF := h AND 0xE0, fuBuf := h # take 798 body\<rparr>"
    let ?frags = "fragments ((h AND 0xE0) OR 28) (h AND 0x1F) body"
    have len: "798 < length body" "1 + length body \<le> maxFuReassemblyBytes"
      using False assms by (simp_all add: n nal_unit_def)
    have "?frags 0 = (((h AND 0xE0) OR 28) # fu_header True False (h AND 0x1F) # take 798 body) # ?frags 798"
      using len(1) by (subst fragments_step) auto
    moreover obtain d' where "depack_run ?d (?frags 798) = ([h # body], d')" "\<not> fuActive d'"
      "overflow d' = overflow d"
      using fragments_rest [of 798 body ?d h] len by auto
    ultimately show ?thesis
      using False len(2) Depacketize_fu_start [of "take 798 body" d h False]
      by (simp add: n PackageH264NALU_def mtuPayloadMax_def h264FuaType_def Let_def)
  qed
qed

text \<open>
  Fragmentation is lossless: for every NAL unit of at most 4 MiB with a type that payloads carry
  as such (1 to 23), depacketizing the payloads that \<open>PackageH264NALU\<close> made of it returns exactly
  that unit, from any state of the depacketizer; and every payload respects the MTU budget.
\<close>

theorem h264_unit_roundtrip:
  assumes "nal_unit n"
  shows "fst (depack_run d (PackageH264NALU n)) = [n] \<and>
    list_all (\<lambda>p. 0 < length p \<and> length p \<le> mtuPayloadMax) (PackageH264NALU n)"
proof
  show "fst (depack_run d (PackageH264NALU n)) = [n]"
    using PackageH264NALU_run [OF assms, of d] by auto
  have "list_all (\<lambda>p. 0 < length p \<and> length p \<le> mtuPayloadMax) (fragments i t body offset)"
    for i t body offset
  proof (induction i t body offset rule: fragments.induct)
    case (1 i t body offset)
    then show ?case
      by (subst fragments.simps) (auto simp: Let_def mtuPayloadMax_def)
  qed
  then show "list_all (\<lambda>p. 0 < length p \<and> length p \<le> mtuPayloadMax) (PackageH264NALU n)"
    by (auto simp: PackageH264NALU_def Let_def split: list.split)
qed

theorem h264_unit_roundtrip_witness:
  "fst (depack_run new_depacketizer (PackageH264NALU (0x65 # replicate 2000 7))) = [0x65 # replicate 2000 7]"
proof -
  have "nal_unit (0x65 # replicate 2000 7)"
    by (simp add: nal_unit_def maxFuReassemblyBytes_def)
  from h264_unit_roundtrip [OF this] show ?thesis by blast
qed

section \<open>Aggregation\<close>

lemma stap_total_bounds:
  "stap_total tot nri ns = Some (tot', nri') \<Longrightarrow> nri AND 0x1F = 0 \<Longrightarrow>
     nri' AND 0x1F = 0 \<and> (\<forall>n \<in> set ns. n \<noteq> [] \<and> length n < 2 ^ 16) \<and>
     tot' = tot + length (concat (map (\<lambda>n. [of_nat (drop_bit 8 (length n)), of_nat (length n)] @ n :: bytes) ns)) \<and>
     (ns \<noteq> [] \<longrightarrow> tot' \<le> mtuPayloadMax)"
proof (induction tot nri ns rule: stap_total.induct)
  case (2 tot nri n ns)
  have nri: "(n ! 0 AND 0x60) AND 0x1F = 0"
    by (simp add: and.assoc)
  from 2(2) have ok: "n \<noteq> []" "length n < 2 ^ 16" "tot + (2 + length n) \<le> mtuPayloadMax"
    and rest: "stap_total (tot + (2 + length n)) (if n ! 0 AND 0x60 > nri then n ! 0 AND 0x60 else nri) ns =
      Some (tot', nri')"
    by (auto simp: Let_def split: if_splits)
  have "(if n ! 0 AND 0x60 > nri then n ! 0 AND 0x60 else nri) AND 0x1F = 0"
    using nri 2(3) by simp
  from 2(1) [OF _ refl _ refl rest this] ok show ?case
    by (cases ns) auto
qed auto

lemma length_two_bytes:
  assumes "n < 2 ^ 16"
  shows "push_bit 8 (unat (of_nat (drop_bit 8 n) :: u8)) OR unat (of_nat n :: u8) = n"
proof -
  have "unat (of_nat (drop_bit 8 n) :: u8) = n div 256"
    using assms by (simp add: unat_of_nat drop_bit_eq_div take_bit_nat_eq_self less_mult_imp_div_less)
  moreover have "unat (of_nat n :: u8) = n mod 256"
    by (simp add: unat_of_nat take_bit_eq_mod)
  moreover have "push_bit 8 (n div 256) OR n mod 256 = n"
    using or_push_bit_add [of "n mod 256" 8 "n div 256"] by (simp add: push_bit_eq_mult or.commute)
  ultimately show ?thesis by simp
qed

lemma stap_units_concat:
  assumes "\<forall>n \<in> set ns. n \<noteq> [] \<and> length n < 2 ^ 16"
  shows "stap_units (concat (map (\<lambda>n. [of_nat (drop_bit 8 (length n)), of_nat (length n)] @ n) ns)) out =
    out @ ns"
  using assms
  by (induction ns arbitrary: out) (simp_all add: length_two_bytes Let_def)

text \<open>
  Aggregation is lossless: whenever \<open>PackageH264STAPA\<close> accepts a list of units, its single payload
  fits the MTU budget and depacketizes to exactly that list.
\<close>

theorem h264_stap_roundtrip:
  assumes "PackageH264STAPA ns = Some p"
  shows "fst (Depacketize d p) = ns \<and> length p \<le> mtuPayloadMax"
proof -
  let ?body = "concat (map (\<lambda>n. [of_nat (drop_bit 8 (length n)), of_nat (length n)] @ n :: bytes) ns)"
  obtain tot nri where st: "stap_total 1 0 ns = Some (tot, nri)" and p: "p = (nri OR 24) # ?body"
    and ns: "\<not> length ns < 2"
    using assms by (auto simp: PackageH264STAPA_def h264StapAType_def split: if_splits option.splits)
  have "ns \<noteq> []"
    using ns by auto
  with stap_total_bounds [OF st] have b: "nri AND 0x1F = 0" "\<forall>n \<in> set ns. n \<noteq> [] \<and> length n < 2 ^ 16"
    "length p \<le> mtuPayloadMax"
    by (auto simp: p)
  have "(nri OR 24) AND 0x1F = (24 :: u8)"
    using b(1) by (simp add: bit.conj_disj_distrib2)
  then show ?thesis
    using b stap_units_concat [OF b(2), of "[]"]
    by (simp add: p Depacketize_def h264StapAType_def)
qed

theorem h264_stap_roundtrip_witness:
  "\<exists>p. PackageH264STAPA [[0x67, 1], [0x68, 2, 3]] = Some p \<and>
    fst (Depacketize new_depacketizer p) = [[0x67, 1], [0x68, 2, 3]]"
proof -
  obtain p where "PackageH264STAPA [[0x67, 1], [0x68, 2, 3]] = Some p"
    by (simp add: PackageH264STAPA_def mtuPayloadMax_def Let_def)
  with h264_stap_roundtrip [OF this, of new_depacketizer] show ?thesis by blast
qed

section \<open>Access units through the assembler\<close>

text \<open>The Annex-B form of a list of units, and a run over consecutive packets of one frame.\<close>

definition annexB :: "bytes list \<Rightarrow> bytes" where
  "annexB ns = concat (map (\<lambda>n. [0, 0, 0, 1] @ n) ns)"

lemma annexB_simps [simp]:
  "annexB [] = []" "annexB (n # ns) = 0 # 0 # 0 # 1 # n @ annexB ns"
  "annexB (ms @ ns) = annexB ms @ annexB ns"
  by (simp_all add: annexB_def)

fun push_frame ::
  "H264AccessUnitAssembler \<Rightarrow> u16 \<Rightarrow> bytes list \<Rightarrow> bytes list \<times> bool \<times> H264AccessUnitAssembler" where
  "push_frame a s [] = ([], False, a)"
| "push_frame a s (p # ps) =
     (case Push a s (ps = []) p of ((au, r), a1) \<Rightarrow>
      case push_frame a1 (s + 1) ps of (aus, r2, a2) \<Rightarrow>
        (case au of None \<Rightarrow> aus | Some u \<Rightarrow> u # aus, r \<or> r2, a2))"

lemma append_units_fit:
  "length (accessUnit a) + length (annexB ns) \<le> maxAccessUnitBytes \<Longrightarrow>
     append_units r a ns = (r, a\<lparr>accessUnit := accessUnit a @ annexB ns\<rparr>)"
  by (induction ns arbitrary: a) auto

lemma Depacketize_overflow: "overflow d \<Longrightarrow> overflow (snd (Depacketize d p))"
  by (auto simp: Depacketize_def Let_def)

lemma depack_run_overflow: "overflow d \<Longrightarrow> overflow (snd (depack_run d ps))"
proof (induction ps arbitrary: d)
  case (Cons p ps)
  from Cons.IH [OF Depacketize_overflow [OF Cons.prems, of p]] show ?case
    by (auto split: prod.split)
qed simp

definition in_sync :: "H264AccessUnitAssembler \<Rightarrow> u16 \<Rightarrow> bool" where
  "in_sync a s \<longleftrightarrow> (hasSequence a \<longrightarrow> expectedSeq a = s) \<and> \<not> keyframeNeeded a"

lemma Push_in_sync:
  assumes "in_sync a s" and "Depacketize (depacketizer a) p = (ns, d)" and "\<not> overflow d"
    and "length (accessUnit a) + length (annexB ns) \<le> maxAccessUnitBytes"
  defines "au \<equiv> accessUnit a @ annexB ns"
    and "a' \<equiv> a\<lparr>hasSequence := True, expectedSeq := s + 1\<rparr>"
  shows "Push a s m p =
    (if m then ((if au = [] then None else Some au, False),
        a'\<lparr>depacketizer := new_depacketizer, accessUnit := []\<rparr>)
     else ((None, False), a'\<lparr>depacketizer := d, accessUnit := au\<rparr>))"
  unfolding Push_def au_def a'_def using assms(1-4)
  by (cases "hasSequence a") (simp_all add: in_sync_def append_units_fit Let_def)

lemma push_frame_units:
  assumes "ps \<noteq> []" and "in_sync a s" and "depack_run (depacketizer a) ps = (ns, d)" and "\<not> overflow d"
    and "length (accessUnit a) + length (annexB ns) \<le> maxAccessUnitBytes"
    and "accessUnit a @ annexB ns \<noteq> []"
  shows "\<exists>a'. push_frame a s ps = ([accessUnit a @ annexB ns], False, a') \<and>
    in_sync a' (s + of_nat (length ps)) \<and> accessUnit a' = [] \<and> depacketizer a' = new_depacketizer"
  using assms
proof (induction ps arbitrary: a s ns)
  case (Cons p ps)
  obtain ns1 d1 where one: "Depacketize (depacketizer a) p = (ns1, d1)" by fastforce
  obtain ns2 d2 where rest: "depack_run d1 ps = (ns2, d2)" by fastforce
  have ns: "ns = ns1 @ ns2" "d = d2"
    using Cons.prems(3) by (simp_all add: one rest)
  have ov: "\<not> overflow d1"
    using depack_run_overflow [of d1 ps] Cons.prems(4) rest ns by auto
  have fit: "length (accessUnit a) + length (annexB ns1) \<le> maxAccessUnitBytes"
    using Cons.prems(5) by (simp add: ns)
  note step = Push_in_sync [OF Cons.prems(2) one ov fit, of "ps = []"]
  let ?a = "a\<lparr>hasSequence := True, expectedSeq := s + 1, depacketizer := d1,
    accessUnit := accessUnit a @ annexB ns1\<rparr>"
  show ?case
  proof (cases "ps = []")
    case True
    with step Cons.prems ns rest show ?thesis
      by (auto simp: in_sync_def)
  next
    case False
    have "in_sync ?a (s + 1)"
      using Cons.prems(2) by (simp add: in_sync_def)
    with Cons.IH [of ?a "s + 1" ns2] False rest Cons.prems(4-6) ns
    obtain a' where "push_frame ?a (s + 1) ps = ([accessUnit a @ annexB ns], False, a')"
      "in_sync a' (s + 1 + of_nat (length ps))" "accessUnit a' = []" "depacketizer a' = new_depacketizer"
      by auto
    with step False show ?thesis by (auto simp: add.assoc)
  qed
qed simp

lemma depack_run_append:
  "depack_run d (ps @ qs) =
     (case depack_run d ps of (o1, d1) \<Rightarrow> case depack_run d1 qs of (o2, d2) \<Rightarrow> (o1 @ o2, d2))"
  by (induction ps arbitrary: d) (auto split: prod.split)

lemma depack_run_units:
  assumes "\<forall>n \<in> set ns. nal_unit n"
  shows "\<exists>d'. depack_run d (concat (map PackageH264NALU ns)) = (ns, d') \<and> overflow d' = overflow d"
  using assms
proof (induction ns arbitrary: d)
  case (Cons n ns)
  obtain d1 where d1: "depack_run d (PackageH264NALU n) = ([n], d1)" "overflow d1 = overflow d"
    using PackageH264NALU_run [of n d] Cons.prems by auto
  with Cons.IH [of d1] Cons.prems show ?case
    by (auto simp: depack_run_append)
qed simp

text \<open>
  C15: Video frames travel whole. A frame of NAL units, packetized unit by unit and received in
  consecutive packets with the marker on the last one, leaves the assembler as exactly one access
  unit, the Annex-B stream of those units, without asking for a keyframe; and the assembler is
  ready for the next sequence number.
\<close>

theorem access_unit_roundtrip:
  assumes "ns \<noteq> []" and "\<forall>n \<in> set ns. nal_unit n" and "length (annexB ns) \<le> maxAccessUnitBytes"
    and "in_sync a s" and "accessUnit a = []" and "\<not> overflow (depacketizer a)"
  defines "ps \<equiv> concat (map PackageH264NALU ns)"
  shows "\<exists>a'. push_frame a s ps = ([annexB ns], False, a') \<and>
    in_sync a' (s + of_nat (length ps)) \<and> accessUnit a' = [] \<and> \<not> overflow (depacketizer a')"
proof -
  obtain d where d: "depack_run (depacketizer a) ps = (ns, d)" "\<not> overflow d"
    using depack_run_units [OF assms(2), of "depacketizer a"] assms(6) by (auto simp: ps_def)
  have "ps \<noteq> []"
    using d(1) assms(1) by auto
  moreover have "annexB ns \<noteq> []"
    using assms(1) by (cases ns) simp_all
  ultimately show ?thesis
    using push_frame_units [OF _ assms(4) d] assms(3,5) by (auto simp: new_depacketizer_def)
qed

theorem access_unit_roundtrip_witness:
  "\<exists>a'. push_frame new_assembler 65535 (concat (map PackageH264NALU [[0x67, 1], 0x65 # replicate 900 7])) =
      ([annexB [[0x67, 1], 0x65 # replicate 900 7]], False, a')"
proof -
  have "\<forall>n \<in> set [[0x67, 1], 0x65 # replicate 900 7]. nal_unit n"
    by (simp add: nal_unit_def maxFuReassemblyBytes_def)
  from access_unit_roundtrip [OF _ this, of new_assembler 65535] show ?thesis
    by (auto simp: in_sync_def new_assembler_def new_depacketizer_def maxAccessUnitBytes_def)
qed

section \<open>Recovery after loss\<close>


lemma append_units_request:
  "append_units r a ns = (r', a') \<Longrightarrow> r' \<Longrightarrow> r \<or> keyframeNeeded a'"
  by (induction r a ns rule: append_units.induct) (auto simp: drop_unit_def split: if_splits)



section \<open>Splitting inverts joining\<close>

text \<open>Units as an encoder emits them: no start code inside, no zero at the end.\<close>

definition clean_unit :: "bytes \<Rightarrow> bool" where
  "clean_unit n \<longleftrightarrow> n \<noteq> [] \<and> last n \<noteq> 0 \<and>
     (\<forall>i. i + 2 < length n \<longrightarrow> \<not> (n ! i = 0 \<and> n ! (i + 1) = 0 \<and> n ! (i + 2) = 1))"

lemma nth_after:
  "(pre @ xs) ! (length pre + j) = xs ! j" "(pre @ xs) ! Suc (length pre + j) = xs ! Suc j"
  "(pre @ xs) ! Suc (Suc (length pre + j)) = xs ! Suc (Suc j)"
  "(pre @ xs) ! Suc (Suc (Suc (length pre + j))) = xs ! Suc (Suc (Suc j))"
  using nth_append_length_plus [of pre xs j] nth_append_length_plus [of pre xs "Suc j"]
    nth_append_length_plus [of pre xs "Suc (Suc j)"] nth_append_length_plus [of pre xs "Suc (Suc (Suc j))"]
  by simp_all

lemma no_start_code_inside:
  assumes "clean_unit n" and "k < length n"
  shows "annexBStartCodeLen (pre @ n @ rest) (length pre + k) = 0"
proof -
  have last: "(n @ rest) ! (length n - 1) \<noteq> 0"
    using assms(1) by (auto simp: clean_unit_def last_conv_nth nth_append)
  have inside: "\<not> ((n @ rest) ! j = 0 \<and> (n @ rest) ! Suc j = 0 \<and> (n @ rest) ! Suc (Suc j) = 1)"
    if "j < length n" for j
  proof (cases "j + 2 < length n")
    case True
    then show ?thesis
      using assms(1) by (auto simp: clean_unit_def nth_append)
  next
    case False
    then have "length n - 1 = j \<or> length n - 1 = Suc j"
      using that by linarith
    then show ?thesis using last by auto
  qed
  have "\<not> ((n @ rest) ! k = 0 \<and> (n @ rest) ! Suc k = 0 \<and> (n @ rest) ! Suc (Suc k) = 0 \<and>
      (n @ rest) ! Suc (Suc (Suc k)) = 1)"
  proof (cases "Suc k < length n")
    case True
    then show ?thesis using inside [of "Suc k"] by auto
  next
    case False
    then have "length n - 1 = k" using assms(2) by linarith
    then show ?thesis using last by auto
  qed
  with inside [OF assms(2)] show ?thesis
    by (auto simp: annexBStartCodeLen_def nth_after numeral_2_eq_2 numeral_3_eq_3)
qed

lemma split_loop_skip:
  assumes "\<forall>k. i \<le> k \<and> k < j \<longrightarrow> annexBStartCodeLen d k = 0" and "i \<le> j" and "j \<le> length d"
  shows "split_loop d i start acc = split_loop d j start acc"
  using assms
proof (induction "j - i" arbitrary: i)
  case (Suc m)
  have "i < j" using Suc.hyps(2) by simp
  then have "annexBStartCodeLen d i = 0" "i < length d"
    using Suc.prems by auto
  then have "split_loop d i start acc = split_loop d (i + 1) start acc"
    by (subst split_loop.simps) simp
  also have "\<dots> = split_loop d j start acc"
    using Suc.hyps(2) Suc.prems by (intro Suc.hyps(1)) auto
  finally show ?case .
qed simp

lemma split_loop_units:
  assumes "\<forall>n \<in> set ns. clean_unit n" and "clean_unit n"
  shows "split_loop (pre @ n @ annexB ns) (length pre) (Some (length pre)) acc = acc @ n # ns"
  using assms
proof (induction ns arbitrary: pre n acc)
  case Nil
  have "split_loop (pre @ n @ []) (length pre) (Some (length pre)) acc =
      split_loop (pre @ n @ []) (length pre + length n) (Some (length pre)) acc"
    using no_start_code_inside [OF Nil(2), of _ pre "[]"]
    by (intro split_loop_skip) (auto simp: le_iff_add)
  then show ?case
    using Nil(2) by (simp add: split_loop.simps [of _ "length pre + length n"] clean_unit_def)
next
  case (Cons n' ns)
  let ?rest = "annexB (n' # ns)"
  let ?d = "pre @ n @ ?rest" and ?i = "length pre + length n"
  have "split_loop ?d (length pre) (Some (length pre)) acc = split_loop ?d ?i (Some (length pre)) acc"
    using no_start_code_inside [OF Cons.prems(2), of _ pre ?rest]
    by (intro split_loop_skip) (auto simp: le_iff_add)
  also have "\<dots> = split_loop ?d (?i + 4) (Some (?i + 4)) (acc @ [n])"
  proof -
    have sc: "annexBStartCodeLen ?d ?i = 4"
      using Cons.prems(1) by (auto simp: annexBStartCodeLen_def nth_append clean_unit_def)
    obtain l where l: "length n = Suc l"
      using Cons.prems(2) by (cases n) (auto simp: clean_unit_def)
    have "?d ! (length pre + l) \<noteq> 0"
      using Cons.prems(2) l by (auto simp: nth_append clean_unit_def last_conv_nth)
    then have trim: "trim_end ?d (length pre) ?i = ?i"
      by (simp add: l)
    have "?i < length ?d" "length pre < ?i" "take (?i - length pre) (drop (length pre) ?d) = n"
      using l by simp_all
    with sc trim show ?thesis
      by (subst split_loop.simps) (simp only: Let_def if_True option.case zero_less_numeral)
  qed
  also have "\<dots> = split_loop ((pre @ n @ [0, 0, 0, 1]) @ n' @ annexB ns)
      (length (pre @ n @ [0, 0, 0, 1])) (Some (length (pre @ n @ [0, 0, 0, 1]))) (acc @ [n])"
    by (simp add: numeral_eq_Suc)
  also have "\<dots> = (acc @ [n]) @ n' # ns"
    using Cons.prems(1) by (intro Cons.IH) simp_all
  finally show ?case by simp
qed

text \<open>
  Splitting inverts joining: the Annex-B stream of units without embedded start codes or trailing
  zeros splits into exactly those units, so that the assembler recognises a keyframe exactly when
  one of its units is an IDR unit.
\<close>

theorem SplitAnnexB_annexB:
  assumes "\<forall>n \<in> set ns. clean_unit n"
  shows "SplitAnnexB (annexB ns) = ns \<and>
    (AUHasIDR (annexB ns) \<longleftrightarrow> (\<exists>n \<in> set ns. n ! 0 AND 0x1f = 5))"
proof -
  have "SplitAnnexB (annexB ns) = ns"
  proof (cases ns)
    case Nil
    then show ?thesis by (simp add: SplitAnnexB_def split_loop.simps)
  next
    case (Cons n ms)
    have "split_loop (annexB ns) 0 None [] = split_loop ([0, 0, 0, 1] @ n @ annexB ms) 4 (Some 4) []"
      using assms by (subst split_loop.simps) (auto simp: Cons annexBStartCodeLen_def clean_unit_def Let_def)
    also have "\<dots> = ns"
    proof -
      have four: "length [0, 0, 0, 1 :: u8] = 4" by simp
      show ?thesis
        using split_loop_units [of ms n "[0, 0, 0, 1]" "[]"] assms unfolding four Cons by simp
    qed
    finally show ?thesis by (simp add: SplitAnnexB_def)
  qed
  with assms show ?thesis
    by (auto simp: AUHasIDR_def list_ex_iff clean_unit_def)
qed

theorem SplitAnnexB_annexB_witness:
  "SplitAnnexB (annexB [[0x67, 1], [0x65, 9]]) = [[0x67, 1], [0x65, 9]] \<and>
   AUHasIDR (annexB [[0x67, 1], [0x65, 9]])"
proof -
  have "\<forall>n \<in> set [[0x67, 1], [0x65, 9]]. clean_unit (n :: bytes)"
    by (simp add: clean_unit_def)
  from SplitAnnexB_annexB [OF this] show ?thesis by simp
qed

end
