(* ===== verification/Rtp.thy ===== *)
theory Rtp
  imports Prelude
begin

text \<open>
  RTP headers and send-side sequencers: \<open>lib/rtp/rtp.go\<close>, with the WARP audio extension of
  \<open>lib/srtp/warp.go\<close>. Fixed-width fields are words, so that sequence numbers and timestamps wrap as
  they do in Go; \<open>ShortOffset\<close>, an \<open>int16\<close>, is kept as its 16 bits. A parse that fails returns
  \<open>None\<close>. Trace logging is left out.
\<close>

section \<open>Constants and payload classifiers\<close>

definition RtpPayloadTypeOpus :: u8 where "RtpPayloadTypeOpus = 120"
definition RtpPayloadTypeH264 :: u8 where "RtpPayloadTypeH264 = 97"
definition WhatsappRtpExtensionProfile :: u16 where "WhatsappRtpExtensionProfile = 0xdebe"
definition WhatsappRtpHeaderSize :: nat where "WhatsappRtpHeaderSize = 16"
definition WhatsappRtpHeaderDtxSize :: nat where "WhatsappRtpHeaderDtxSize = 20"
definition WhatsappRtpExtensionDtxWord :: u32 where "WhatsappRtpExtensionDtxWord = 0x30010000"
definition rtpVersion :: u8 where "rtpVersion = 2"
definition srtpAuthTagLen :: nat where "srtpAuthTagLen = 10"
definition srtpAuthTagLenShort :: nat where "srtpAuthTagLenShort = 4"

definition OpusPrimingFrame1 :: bytes where
  "OpusPrimingFrame1 =
     [0x12, 0x36, 0x26, 0x2b, 0x4a, 0xc8, 0x2b, 0x09, 0xc9, 0x1f, 0x34, 0xc2, 0xd6, 0x7a, 0x01, 0x73,
      0x1b, 0x2e]"

definition OpusPrimingFrame2 :: bytes where
  "OpusPrimingFrame2 = [0x90, 0xb8, 0x14, 0x14, 0xc4]"

definition IsWhatsappOpusRtpPayload :: "u8 \<Rightarrow> bool" where
  "IsWhatsappOpusRtpPayload payloadType \<longleftrightarrow> payloadType = RtpPayloadTypeOpus \<or> payloadType = 121"

definition IsOpusDtxPayload :: "bytes \<Rightarrow> bool" where
  "IsOpusDtxPayload payload \<longleftrightarrow>
     (case payload of
        [] \<Rightarrow> False
      | [b0] \<Rightarrow> b0 = 0x10 \<or> b0 = 0x88 \<or> b0 = 0x90
      | b0 # _ \<Rightarrow>
          if length payload > 15 then False
          else if b0 AND 0xf8 = 0x08 \<or> b0 = 0x0a then True
          else b0 AND 0xf0 = 0x30 \<and> length payload \<le> 6)"

definition IsOpusMlowSpeechPayload :: "bytes \<Rightarrow> bool" where
  "IsOpusMlowSpeechPayload payload \<longleftrightarrow>
     (if length payload < 18 then False
      else let b0 = payload ! 0 in b0 AND 0xf8 = 0x48 \<or> b0 AND 0xf8 = 0x50)"

definition IsOpusPrimingPayload :: "bytes \<Rightarrow> bool" where
  "IsOpusPrimingPayload payload \<longleftrightarrow> payload = OpusPrimingFrame1 \<or> payload = OpusPrimingFrame2"

definition EstimateSrtpRtpWireBytes :: "bytes \<Rightarrow> nat" where
  "EstimateSrtpRtpWireBytes opusPayload =
     (let dtx = IsOpusDtxPayload opusPayload;
          headerSize = (if dtx then WhatsappRtpHeaderDtxSize else WhatsappRtpHeaderSize);
          shortTag = ((dtx \<and> headerSize = WhatsappRtpHeaderDtxSize) \<or>
            (\<not> dtx \<and> headerSize = WhatsappRtpHeaderSize \<and>
              (IsOpusPrimingPayload opusPayload \<or> length opusPayload \<le> 18)));
          tagLen = (if shortTag then srtpAuthTagLenShort else srtpAuthTagLen)
      in headerSize + length opusPayload + tagLen)"

section \<open>Headers\<close>

record VideoRtpExtension =
  MediaFrameInfo :: u8
  FrameNumber :: "u16 option"
  InitialBandwidth :: u16
  ShortOffset :: u16
  TransportSequence :: u16

definition DisplayOrientation :: "VideoRtpExtension \<Rightarrow> nat" where
  "DisplayOrientation e = unat (MediaFrameInfo e AND 0x03)"

text \<open>The padding loop appends zeros until the length is a multiple of four.\<close>

definition pad4 :: "bytes \<Rightarrow> bytes" where
  "pad4 ext = ext @ replicate ((4 - length ext mod 4) mod 4) 0"

definition encode_ext :: "VideoRtpExtension \<Rightarrow> bytes" where
  "encode_ext e =
     (let frameInfoLength = (if FrameNumber e \<noteq> None then 3 else 1) :: nat;
          ext = [0x30 OR of_nat (frameInfoLength - 1), MediaFrameInfo e];
          ext = ext @ (case FrameNumber e of None \<Rightarrow> [] | Some n \<Rightarrow> put_be16 n);
          ext = ext @ [0x51] @ put_be16 (InitialBandwidth e);
          ext = ext @ [0x61] @ put_be16 (ShortOffset e);
          ext = ext @ [0x91] @ put_be16 (TransportSequence e)
      in pad4 ext)"

record RtpHeader =
  Marker :: bool
  PayloadType :: u8
  SequenceNumber :: u16
  Timestamp :: u32
  Ssrc :: u32
  ExtensionWord :: "u32 option"
  VideoExtension :: "VideoRtpExtension option"

definition ByteSize :: "RtpHeader \<Rightarrow> nat" where
  "ByteSize h =
     (case VideoExtension h of
        Some e \<Rightarrow> WhatsappRtpHeaderSize + length (encode_ext e)
      | None \<Rightarrow> (if ExtensionWord h \<noteq> None then WhatsappRtpHeaderDtxSize else WhatsappRtpHeaderSize))"

definition RtpHeaderByteLength :: "bytes \<Rightarrow> nat option" where
  "RtpHeaderByteLength d =
     (if length d < 12 then None
      else if drop_bit 6 (d ! 0) AND 0x03 \<noteq> rtpVersion then None
      else let cc = unat (d ! 0 AND 0x0f); headerLen = 12 + cc * 4
      in if length d < headerLen then None
      else let hasExtension = (drop_bit 4 (d ! 0) AND 1 = 1)
      in if hasExtension then
           (if length d < headerLen + 4 then None
            else let extWords = push_bit 8 (unat (d ! (headerLen + 2))) OR unat (d ! (headerLen + 3));
                     headerLen = headerLen + (4 + extWords * 4)
                 in if length d < headerLen then None else Some headerLen)
         else Some headerLen)"

definition RtpExtensionProfileAndData :: "bytes \<Rightarrow> (u16 \<times> bytes) option" where
  "RtpExtensionProfileAndData d =
     (if length d < 12 \<or> drop_bit 6 (d ! 0) AND 0x03 \<noteq> rtpVersion then None
      else let extensionOffset = 12 + unat (d ! 0 AND 0x0f) * 4
      in if length d < extensionOffset \<or> d ! 0 AND 0x10 = 0 then None
      else if length d < extensionOffset + 4 then None
      else let words = unat (be16 (d ! (extensionOffset + 2)) (d ! (extensionOffset + 3)));
               dataStart = extensionOffset + 4;
               dataEnd = dataStart + words * 4
      in if dataEnd > length d then None
         else Some (be16 (d ! extensionOffset) (d ! (extensionOffset + 1)),
                take (dataEnd - dataStart) (drop dataStart d)))"

text \<open>
  The loop over the one-byte-header extensions. The state is the extension parsed so far and the
  two flags; the argument is the rest of the extension data, from \<open>offset\<close> on.
\<close>

function parse_ext ::
  "VideoRtpExtension \<times> bool \<times> bool \<Rightarrow> bytes \<Rightarrow> (VideoRtpExtension \<times> bool \<times> bool) option" where
  "parse_ext st [] = Some st"
| "parse_ext (parsed, hasFrameInfo, hasShortOffset) (header # rest) =
     (if header = 0 then parse_ext (parsed, hasFrameInfo, hasShortOffset) rest
      else let id = drop_bit 4 header; len = unat (header AND 0x0f) + 1
      in if id = 15 \<or> len > length rest then None
      else let value = take len rest; rest = drop len rest
      in if id = 3 then
           (if len \<noteq> 1 \<and> len \<noteq> 3 then None
            else let parsed = parsed\<lparr>MediaFrameInfo := value ! 0\<rparr>;
                     parsed = (if len = 3
                       then parsed\<lparr>FrameNumber := Some (be16 (value ! 1) (value ! 2))\<rparr> else parsed)
                 in parse_ext (parsed, True, hasShortOffset) rest)
      else if id = 5 then
           (if len \<noteq> 2 then None
            else parse_ext (parsed\<lparr>InitialBandwidth := be16 (value ! 0) (value ! 1)\<rparr>,
              hasFrameInfo, hasShortOffset) rest)
      else if id = 6 then
           (if len \<noteq> 2 then None
            else parse_ext (parsed\<lparr>ShortOffset := be16 (value ! 0) (value ! 1)\<rparr>, hasFrameInfo, True) rest)
      else if id = 9 then
           (if len \<noteq> 2 then None
            else parse_ext (parsed\<lparr>TransportSequence := be16 (value ! 0) (value ! 1)\<rparr>,
              hasFrameInfo, hasShortOffset) rest)
      else parse_ext (parsed, hasFrameInfo, hasShortOffset) rest)"
  by pat_completeness auto

termination
  by (relation "measure (\<lambda>(_, ext). length ext)") auto

definition zero_ext :: VideoRtpExtension where
  "zero_ext = \<lparr>MediaFrameInfo = 0, FrameNumber = None, InitialBandwidth = 0, ShortOffset = 0,
     TransportSequence = 0\<rparr>"

definition ParseWhatsappVideoExtension :: "bytes \<Rightarrow> VideoRtpExtension option" where
  "ParseWhatsappVideoExtension d =
     (case RtpExtensionProfileAndData d of
        None \<Rightarrow> None
      | Some (profile, ext) \<Rightarrow>
          if profile \<noteq> WhatsappRtpExtensionProfile then None
          else case parse_ext (zero_ext, False, False) ext of
              None \<Rightarrow> None
            | Some (parsed, hasFrameInfo, hasShortOffset) \<Rightarrow>
                if \<not> hasFrameInfo \<or> \<not> hasShortOffset then None else Some parsed)"

definition IsRtpVersion2 :: "bytes \<Rightarrow> bool" where
  "IsRtpVersion2 d \<longleftrightarrow> length d \<ge> 12 \<and> drop_bit 6 (d ! 0) AND 0x03 = rtpVersion"

definition ParseRtpHeader :: "bytes \<Rightarrow> RtpHeader option" where
  "ParseRtpHeader d =
     (case RtpHeaderByteLength d of
        None \<Rightarrow> None
      | Some _ \<Rightarrow> Some
          \<lparr>Marker = (drop_bit 7 (d ! 1) AND 1 = 1), PayloadType = d ! 1 AND 0x7f,
           SequenceNumber = push_bit 8 (ucast (d ! 2)) OR ucast (d ! 3),
           Timestamp = be32 (d ! 4) (d ! 5) (d ! 6) (d ! 7),
           Ssrc = be32 (d ! 8) (d ! 9) (d ! 10) (d ! 11), ExtensionWord = None,
           VideoExtension = ParseWhatsappVideoExtension d\<rparr>)"

definition EncodeRtpHeader :: "RtpHeader \<Rightarrow> bytes" where
  "EncodeRtpHeader header =
     (let size = ByteSize header;
          b0 = push_bit 6 rtpVersion;
          b0 = (if size > 12 then b0 OR 0x10 else b0);
          b1 = PayloadType header AND 0x7f;
          b1 = (if Marker header then b1 OR 0x80 else b1);
          extWords = (case VideoExtension header of
              Some e \<Rightarrow> of_nat (length (encode_ext e) div 4)
            | None \<Rightarrow> if ExtensionWord header \<noteq> None then 1 else 0);
          tail = (case VideoExtension header of
              Some e \<Rightarrow> encode_ext e
            | None \<Rightarrow> (case ExtensionWord header of
                  Some w \<Rightarrow> if size \<ge> 20 then put_be32 w else []
                | None \<Rightarrow> []))
      in [b0, b1, ucast (drop_bit 8 (SequenceNumber header)), ucast (SequenceNumber header)]
         @ put_be32 (Timestamp header) @ put_be32 (Ssrc header)
         @ (if size \<ge> 16 then put_be16 WhatsappRtpExtensionProfile @ put_be16 extWords else [])
         @ tail)"

section \<open>Sequencers\<close>

record VideoRtpStream =
  v_ssrc :: u32
  v_seq :: u16
  v_timestamp :: u32
  lastSentTimestamp :: u32
  sent :: bool
  tsStride :: u32
  transportSequence :: u16
  frameNumber :: u16
  firstPacket :: bool

definition NewVideoRtpStream :: "u32 \<Rightarrow> u32 \<Rightarrow> VideoRtpStream" where
  "NewVideoRtpStream ssrc stride =
     \<lparr>v_ssrc = ssrc, v_seq = 1, v_timestamp = 0, lastSentTimestamp = 0, sent = False, tsStride = stride,
      transportSequence = 0, frameNumber = 1, firstPacket = True\<rparr>"

definition VideoRtpTimestamp :: "VideoRtpStream \<Rightarrow> u32" where
  "VideoRtpTimestamp s = (if sent s then lastSentTimestamp s else v_timestamp s)"

definition SetTimestampStride :: "VideoRtpStream \<Rightarrow> u32 \<Rightarrow> VideoRtpStream \<times> bool" where
  "SetTimestampStride s stride = (if stride = 0 then (s, False) else (s\<lparr>tsStride := stride\<rparr>, True))"

definition VideoNextPacket :: "VideoRtpStream \<Rightarrow> bool \<Rightarrow> u8 \<Rightarrow> RtpHeader \<times> VideoRtpStream" where
  "VideoNextPacket s lastInAccessUnit mediaFrameInfo =
     (let number = (if firstPacket s then Some (frameNumber s) else None);
          ext = \<lparr>MediaFrameInfo = mediaFrameInfo, FrameNumber = number, InitialBandwidth = 0,
                 ShortOffset = 0, TransportSequence = transportSequence s\<rparr>;
          header = \<lparr>Marker = lastInAccessUnit, PayloadType = RtpPayloadTypeH264,
                 SequenceNumber = v_seq s, Timestamp = v_timestamp s, Ssrc = v_ssrc s,
                 ExtensionWord = None, VideoExtension = Some ext\<rparr>;
          s = s\<lparr>lastSentTimestamp := Timestamp header, sent := True, v_seq := v_seq s + 1,
                 transportSequence := transportSequence s + 1\<rparr>;
          s = (if lastInAccessUnit
               then s\<lparr>v_timestamp := v_timestamp s + tsStride s, frameNumber := frameNumber s + 1,
                      firstPacket := True\<rparr>
               else s\<lparr>firstPacket := False\<rparr>)
      in (header, s))"

record RtpStream =
  a_ssrc :: u32
  a_seq :: u16
  a_timestamp :: u32
  samplesPerPacket :: u32
  speechStarted :: bool
  audioPacketIndex :: nat
  warpPiggyback :: bool

definition NewRtpStream :: "u32 \<Rightarrow> u32 \<Rightarrow> bool \<Rightarrow> RtpStream" where
  "NewRtpStream ssrc samples piggyback =
     \<lparr>a_ssrc = ssrc, a_seq = 1, a_timestamp = 0, samplesPerPacket = samples, speechStarted = False,
      audioPacketIndex = 0, warpPiggyback = piggyback\<rparr>"

definition WarpPiggybackStartPacket :: nat where "WarpPiggybackStartPacket = 2"

definition WarpAudioPiggybackExt :: bytes where "WarpAudioPiggybackExt = [0x30, 0x01, 0x00, 0x00]"

definition AudioPiggybackExtensionFor :: "nat \<Rightarrow> bool \<Rightarrow> nat \<Rightarrow> u32 option" where
  "AudioPiggybackExtensionFor packetIndex enabled startPacket =
     (if \<not> enabled \<or> packetIndex < startPacket then None
      else Some (be32 (WarpAudioPiggybackExt ! 0) (WarpAudioPiggybackExt ! 1)
        (WarpAudioPiggybackExt ! 2) (WarpAudioPiggybackExt ! 3)))"

definition resolveWarpExtension :: "RtpStream \<Rightarrow> bool \<Rightarrow> u32 option \<times> RtpStream" where
  "resolveWarpExtension s dtx =
     (if dtx then (Some WhatsappRtpExtensionDtxWord, s)
      else if \<not> warpPiggyback s then (None, s)
      else let idx = audioPacketIndex s
           in (AudioPiggybackExtensionFor idx True WarpPiggybackStartPacket,
               s\<lparr>audioPacketIndex := idx + 1\<rparr>))"

definition NextPacket :: "RtpStream \<Rightarrow> bytes \<Rightarrow> bool \<Rightarrow> RtpHeader \<times> RtpStream" where
  "NextPacket s payload marker =
     (let dtx = IsOpusDtxPayload payload;
          priming = IsOpusPrimingPayload payload;
          speech = (\<not> dtx \<and> \<not> priming);
          useMarker = (marker \<or> (speech \<and> \<not> speechStarted s));
          s = (if speech then s\<lparr>speechStarted := True\<rparr> else s);
          (word, s') = resolveWarpExtension s dtx;
          header = \<lparr>Marker = useMarker, PayloadType = RtpPayloadTypeOpus, SequenceNumber = a_seq s,
                 Timestamp = a_timestamp s, Ssrc = a_ssrc s, ExtensionWord = word, VideoExtension = None\<rparr>
      in (header, s'\<lparr>a_seq := a_seq s + 1, a_timestamp := a_timestamp s + samplesPerPacket s\<rparr>))"

definition NextPreSpeechPacket :: "RtpStream \<Rightarrow> RtpHeader \<times> RtpStream" where
  "NextPreSpeechPacket s =
     (let (word, s') = resolveWarpExtension s False;
          header = \<lparr>Marker = False, PayloadType = RtpPayloadTypeOpus, SequenceNumber = a_seq s,
                 Timestamp = a_timestamp s, Ssrc = a_ssrc s, ExtensionWord = word, VideoExtension = None\<rparr>
      in (header, s'\<lparr>a_seq := a_seq s + 1, a_timestamp := a_timestamp s + samplesPerPacket s\<rparr>))"

section \<open>Header layout\<close>

declare parse_ext.simps(2) [simp del]

lemma parse_ext_pad [simp]:
  "parse_ext st (replicate n 0) = Some st"
  by (cases st) (induction n, simp_all add: parse_ext.simps(2))

lemma parse_ext_zero [simp]: "parse_ext st [0] = Some st"
  using parse_ext_pad [of st 1] by simp

lemma be16_bytes [simp]: "put_be16 x ! 0 = ucast (drop_bit 8 x)" "put_be16 x ! 1 = ucast x"
  by (simp_all add: put_be16_def)

text \<open>The four extension elements that the encoder writes, parsed one by one.\<close>

lemma parse_frame_info1:
  "parse_ext (p, f, s) (0x30 # m # rest) = parse_ext (p\<lparr>MediaFrameInfo := m\<rparr>, True, s) rest"
  by (simp add: parse_ext.simps(2) drop_bit_eq_div)

lemma parse_frame_info3:
  "parse_ext (p, f, s) (0x32 # m # put_be16 n @ rest) =
     parse_ext (p\<lparr>MediaFrameInfo := m, FrameNumber := Some n\<rparr>, True, s) rest"
  by (simp add: parse_ext.simps(2) put_be16_def)

lemma parse_bandwidth:
  "parse_ext (p, f, s) (0x51 # put_be16 n @ rest) = parse_ext (p\<lparr>InitialBandwidth := n\<rparr>, f, s) rest"
  by (simp add: parse_ext.simps(2) put_be16_def)

lemma parse_short_offset:
  "parse_ext (p, f, s) (0x61 # put_be16 n @ rest) = parse_ext (p\<lparr>ShortOffset := n\<rparr>, f, True) rest"
  by (simp add: parse_ext.simps(2) put_be16_def)

lemma parse_transport_sequence:
  "parse_ext (p, f, s) (0x91 # put_be16 n @ rest) = parse_ext (p\<lparr>TransportSequence := n\<rparr>, f, s) rest"
  by (simp add: parse_ext.simps(2) put_be16_def)

lemmas parse_elements = parse_frame_info1 parse_frame_info3 parse_bandwidth parse_short_offset
  parse_transport_sequence

lemma parse_encode_ext: "parse_ext (zero_ext, False, False) (encode_ext e) = Some (e, True, True)"
  by (cases e; cases "FrameNumber e")
     (simp_all add: encode_ext_def pad4_def zero_ext_def parse_elements)

lemma length_encode_ext: "length (encode_ext e) = (case FrameNumber e of None \<Rightarrow> 12 | Some _ \<Rightarrow> 16)"
  by (simp add: encode_ext_def pad4_def split: option.split)

text \<open>A single extension word is too short to pass as video metadata.\<close>

lemma parse_ext_needs:
  "parse_ext (p, f, s) ext = Some (p', f', s') \<Longrightarrow>
     (if f' \<and> \<not> f then 2 else 0) + (if s' \<and> \<not> s then 3 else 0) \<le> length ext"
proof (induction "(p, f, s)" ext arbitrary: p f s rule: parse_ext.induct)
  case (2 p f s header rest)
  show ?case
    using 2(7) 2(1-6)
    by (simp add: parse_ext.simps(2) Let_def split: if_splits) force+
qed auto

definition rtp_packet :: "u8 \<Rightarrow> u16 \<Rightarrow> u32 \<Rightarrow> u32 \<Rightarrow> u16 \<Rightarrow> nat \<Rightarrow> bytes \<Rightarrow> bytes" where
  "rtp_packet b1 s t r profile w rest =
     [0x90, b1] @ put_be16 s @ put_be32 t @ put_be32 r @ put_be16 profile @ put_be16 (of_nat w) @ rest"

lemma rtp_packet_nth:
  "rtp_packet b1 s t r profile w rest ! 0 = 0x90"
  "rtp_packet b1 s t r profile w rest ! 1 = b1"
  "rtp_packet b1 s t r profile w rest ! 2 = ucast (drop_bit 8 s)"
  "rtp_packet b1 s t r profile w rest ! 3 = ucast s"
  "be32 (rtp_packet b1 s t r profile w rest ! 4) (rtp_packet b1 s t r profile w rest ! 5)
     (rtp_packet b1 s t r profile w rest ! 6) (rtp_packet b1 s t r profile w rest ! 7) = t"
  "be32 (rtp_packet b1 s t r profile w rest ! 8) (rtp_packet b1 s t r profile w rest ! 9)
     (rtp_packet b1 s t r profile w rest ! 10) (rtp_packet b1 s t r profile w rest ! 11) = r"
  "be16 (rtp_packet b1 s t r profile w rest ! 12) (rtp_packet b1 s t r profile w rest ! 13) = profile"
  "be16 (rtp_packet b1 s t r profile w rest ! 14) (rtp_packet b1 s t r profile w rest ! 15) = of_nat w"
  "length (rtp_packet b1 s t r profile w rest) = 16 + length rest"
  "drop 16 (rtp_packet b1 s t r profile w rest) = rest"
  by (simp_all add: rtp_packet_def put_be16_def put_be32_def)

lemma rtp_packet_length:
  assumes "w < 2 ^ 16" and "4 * w \<le> length rest"
  shows "RtpHeaderByteLength (rtp_packet b1 s t r profile w rest) = Some (16 + 4 * w)"
  using assms
  by (simp add: RtpHeaderByteLength_def rtp_packet_nth be16_nat rtpVersion_def Let_def unat_of_nat
      take_bit_nat_eq_self)

lemma rtp_packet_extension:
  assumes "w < 2 ^ 16" and "4 * w \<le> length rest"
  shows "RtpExtensionProfileAndData (rtp_packet b1 s t r profile w rest) = Some (profile, take (4 * w) rest)"
  using assms
  by (simp add: RtpExtensionProfileAndData_def rtp_packet_nth rtpVersion_def Let_def unat_of_nat
      take_bit_nat_eq_self mult.commute)

text \<open>The words and the bytes of the extension that a header carries.\<close>

definition ext_bytes :: "RtpHeader \<Rightarrow> bytes" where
  "ext_bytes h = (case VideoExtension h of
     Some e \<Rightarrow> encode_ext e | None \<Rightarrow> (case ExtensionWord h of Some w \<Rightarrow> put_be32 w | None \<Rightarrow> []))"

lemma length_ext_bytes: "length (ext_bytes h) = 4 * (length (ext_bytes h) div 4)"
  "length (ext_bytes h) \<le> 16"
  by (simp_all add: ext_bytes_def length_encode_ext split: option.split)

lemma EncodeRtpHeader_packet:
  "EncodeRtpHeader h @ rest =
     rtp_packet ((PayloadType h AND 0x7f) OR (if Marker h then 0x80 else 0)) (SequenceNumber h)
       (Timestamp h) (Ssrc h) WhatsappRtpExtensionProfile (length (ext_bytes h) div 4)
       (ext_bytes h @ rest)"
  by (simp add: EncodeRtpHeader_def rtp_packet_def ByteSize_def ext_bytes_def Let_def put_be16_def
      WhatsappRtpHeaderSize_def WhatsappRtpHeaderDtxSize_def rtpVersion_def split: option.split)

lemma ByteSize_ext: "ByteSize h = 16 + length (ext_bytes h)"
  by (simp add: ByteSize_def ext_bytes_def WhatsappRtpHeaderSize_def WhatsappRtpHeaderDtxSize_def
      split: option.split)

lemma marker_byte:
  "drop_bit 7 ((p AND 0x7f) OR (if m then 0x80 else 0) :: u8) AND 1 = 1 \<longleftrightarrow> m"
  "((p AND 0x7f) OR (if m then 0x80 else 0) :: u8) AND 0x7f = p AND 0x7f"
proof -
  have m7: "(0x7f :: u8) = mask 7" and b7: "(0x80 :: u8) = push_bit 7 1" and m1: "(1 :: u8) = mask 1"
    by (simp_all add: mask_eq_exp_minus_1 push_bit_eq_mult)
  show "((p AND 0x7f) OR (if m then 0x80 else 0) :: u8) AND 0x7f = p AND 0x7f"
    unfolding m7 by (auto intro!: bit_word_eqI simp: bit_simps bit_128_int)
  have "drop_bit 7 ((p AND mask 7) OR push_bit 7 1 :: u8) AND mask 1 = mask 1"
    "drop_bit 7 (p AND mask 7 :: u8) AND mask 1 = 0"
    by (auto intro!: bit_word_eqI simp: bit_simps)
  then show "drop_bit 7 ((p AND 0x7f) OR (if m then 0x80 else 0) :: u8) AND 1 = 1 \<longleftrightarrow> m"
    by (simp add: m7 [symmetric] b7 [symmetric] m1 [symmetric])
qed

lemma header_fields_of_packet:
  assumes "w < 2 ^ 16" and "4 * w \<le> length rest"
  shows "ParseRtpHeader (rtp_packet b1 s t r profile w rest) =
    Some \<lparr>Marker = (drop_bit 7 b1 AND 1 = 1), PayloadType = b1 AND 0x7f, SequenceNumber = s,
      Timestamp = t, Ssrc = r, ExtensionWord = None,
      VideoExtension = ParseWhatsappVideoExtension (rtp_packet b1 s t r profile w rest)\<rparr>"
  using be16_put [of s]
  by (simp add: ParseRtpHeader_def rtp_packet_length [OF assms] rtp_packet_nth
      rtp_packet_nth(2) [unfolded One_nat_def] be16_def del: be16_put)

lemma video_extension_of_packet:
  "ParseWhatsappVideoExtension
     (rtp_packet b1 s t r WhatsappRtpExtensionProfile (length (ext_bytes h) div 4) (ext_bytes h @ rest)) =
   VideoExtension h"
proof -
  let ?w = "length (ext_bytes h) div 4"
  have len: "4 * ?w = length (ext_bytes h)" and w: "?w < 2 ^ 16"
    using length_ext_bytes [of h] by simp_all
  have "RtpExtensionProfileAndData
      (rtp_packet b1 s t r WhatsappRtpExtensionProfile ?w (ext_bytes h @ rest)) =
      Some (WhatsappRtpExtensionProfile, ext_bytes h)"
    using len w by (simp add: rtp_packet_extension)
  moreover have "VideoExtension h = None \<Longrightarrow>
      (case parse_ext (zero_ext, False, False) (ext_bytes h) of
         None \<Rightarrow> None
       | Some (parsed, f, s) \<Rightarrow> if \<not> f \<or> \<not> s then None else Some parsed) = None"
  proof -
    assume "VideoExtension h = None"
    then have "length (ext_bytes h) \<le> 4"
      by (simp add: ext_bytes_def split: option.split)
    then show ?thesis
      using parse_ext_needs [of zero_ext False False "ext_bytes h"]
      by (fastforce split: option.split prod.split)
  qed
  ultimately show ?thesis
    by (cases "VideoExtension h")
       (simp_all add: ParseWhatsappVideoExtension_def ext_bytes_def parse_encode_ext)
qed

lemma header_parses:
  assumes "PayloadType h < 128"
  shows "RtpHeaderByteLength (EncodeRtpHeader h @ payload) = Some (ByteSize h) \<and>
    length (EncodeRtpHeader h) = ByteSize h \<and>
    ParseRtpHeader (EncodeRtpHeader h @ payload) = Some (h\<lparr>ExtensionWord := None\<rparr>)"
proof -
  let ?w = "length (ext_bytes h) div 4"
  have len: "4 * ?w = length (ext_bytes h)" and w: "?w < 2 ^ 16"
    using length_ext_bytes [of h] by simp_all
  then have fits: "4 * ?w \<le> length (ext_bytes h @ payload)"
    by simp
  have "unat (PayloadType h) < 2 ^ 7"
    using assms by (simp add: word_less_nat_alt)
  then have pt: "PayloadType h AND 0x7f = PayloadType h"
    using word_take_bit [of "PayloadType h" 7]
    by (simp add: take_bit_eq_mask mask_eq_exp_minus_1)
  have "length (EncodeRtpHeader h @ []) = ByteSize h"
    unfolding EncodeRtpHeader_packet by (simp add: rtp_packet_nth ByteSize_ext)
  moreover have "RtpHeaderByteLength (EncodeRtpHeader h @ payload) = Some (ByteSize h)"
    unfolding EncodeRtpHeader_packet using len w by (simp add: rtp_packet_length ByteSize_ext)
  moreover have "ParseRtpHeader (EncodeRtpHeader h @ payload) = Some (h\<lparr>ExtensionWord := None\<rparr>)"
    unfolding EncodeRtpHeader_packet header_fields_of_packet [OF w fits] video_extension_of_packet pt
      marker_byte [of "PayloadType h" "Marker h", unfolded pt] by simp
  ultimately show ?thesis by simp
qed

text \<open>
  RTP headers survive the wire. For every header with a 7-bit payload type, whatever payload
  follows, the receiver's header length is the sender's \<open>ByteSize\<close>, and parsing returns the marker,
  payload type, sequence number, timestamp, SSRC and the complete video extension; the audio
  extension word is dropped, and never mistaken for video metadata.
\<close>

theorem rtp_header_roundtrip:
  assumes "PayloadType h < 128"
  shows "RtpHeaderByteLength (EncodeRtpHeader h @ payload) = Some (ByteSize h) \<and>
    length (EncodeRtpHeader h) = ByteSize h \<and>
    ParseRtpHeader (EncodeRtpHeader h @ payload) = Some (h\<lparr>ExtensionWord := None\<rparr>)"
  using assms by (rule header_parses)

theorem rtp_header_roundtrip_witness:
  "ParseRtpHeader (EncodeRtpHeader (fst (VideoNextPacket (NewVideoRtpStream 7 3000) True 8)) @ [1, 2]) =
    Some (fst (VideoNextPacket (NewVideoRtpStream 7 3000) True 8))"
proof -
  let ?h = "fst (VideoNextPacket (NewVideoRtpStream 7 3000) True 8)"
  have "PayloadType ?h < 128" and "ExtensionWord ?h = None"
    by (simp_all add: VideoNextPacket_def RtpPayloadTypeH264_def Let_def)
  with rtp_header_roundtrip [of ?h "[1, 2]"] show ?thesis by simp
qed

section \<open>Sequencing\<close>

fun video_run :: "VideoRtpStream \<Rightarrow> (bool \<times> u8) list \<Rightarrow> RtpHeader list" where
  "video_run s [] = []"
| "video_run s ((lastInUnit, info) # ps) =
     (case VideoNextPacket s lastInUnit info of (h, s') \<Rightarrow> h # video_run s' ps)"

text \<open>The number of access units closed by the packets before position \<open>i\<close>.\<close>

definition units_before :: "(bool \<times> u8) list \<Rightarrow> nat \<Rightarrow> nat" where
  "units_before ps i = length (filter fst (take i ps))"

lemma units_before_simps [simp]:
  "units_before ps 0 = 0"
  "units_before (p # ps) (Suc i) = (if fst p then 1 else 0) + units_before ps i"
  by (simp_all add: units_before_def)

lemma video_run_length [simp]: "length (video_run s ps) = length ps"
  by (induction s ps rule: video_run.induct) (auto split: prod.split)

text \<open>
  Video packets are numbered consecutively, modulo the width of each field, and share one
  timestamp per access unit: packet \<open>i\<close> has the stream's sequence and transport numbers plus \<open>i\<close>,
  the marker exactly when it ends its access unit, the timestamp of the stream plus one stride
  per access unit closed before it, and the frame number exactly when it begins a unit.
\<close>

theorem video_packets_sequenced:
  assumes "i < length ps"
  shows "let h = video_run s ps ! i in
    SequenceNumber h = v_seq s + of_nat i \<and> Ssrc h = v_ssrc s \<and> Marker h = fst (ps ! i) \<and>
    Timestamp h = v_timestamp s + of_nat (units_before ps i) * tsStride s \<and>
    (\<exists>e. VideoExtension h = Some e \<and> TransportSequence e = transportSequence s + of_nat i \<and>
      FrameNumber e = (if (if i = 0 then firstPacket s else fst (ps ! (i - 1)))
        then Some (frameNumber s + of_nat (units_before ps i)) else None))"
  using assms
proof (induction s ps arbitrary: i rule: video_run.induct)
  case (2 s lastInUnit info ps)
  show ?case
  proof (cases i)
    case 0
    then show ?thesis by (simp add: VideoNextPacket_def Let_def)
  next
    case (Suc j)
    obtain h s' where nxt: "VideoNextPacket s lastInUnit info = (h, s')" by (cases "VideoNextPacket s lastInUnit info")
    then have s': "v_seq s' = v_seq s + 1" "v_ssrc s' = v_ssrc s" "tsStride s' = tsStride s"
      "transportSequence s' = transportSequence s + 1" "firstPacket s' = lastInUnit"
      "v_timestamp s' = (if lastInUnit then v_timestamp s + tsStride s else v_timestamp s)"
      "frameNumber s' = (if lastInUnit then frameNumber s + 1 else frameNumber s)"
      by (auto simp: VideoNextPacket_def Let_def split: if_splits)
    have run: "video_run s ((lastInUnit, info) # ps) = h # video_run s' ps"
      by (simp add: nxt)
    have "j < length ps" using 2(2) Suc by simp
    from 2(1) [OF nxt [symmetric] this] show ?thesis
      unfolding run Suc
      by (cases j; cases lastInUnit; cases "fst (ps ! (j - 1))")
         (simp_all add: s' Let_def algebra_simps)
  qed
qed simp

theorem video_packets_sequenced_witness:
  "SequenceNumber (video_run (NewVideoRtpStream 7 3000) [(False, 8), (True, 8), (True, 32)] ! 2) = 3 \<and>
   Timestamp (video_run (NewVideoRtpStream 7 3000) [(False, 8), (True, 8), (True, 32)] ! 2) = 3000"
  using video_packets_sequenced [of 2 "[(False, 8), (True, 8), (True, 32)]" "NewVideoRtpStream 7 3000"]
  by (simp add: NewVideoRtpStream_def units_before_def Let_def)

text \<open>The audio sequencer, over a list of payloads sent without a forced marker.\<close>

fun audio_run :: "RtpStream \<Rightarrow> bytes list \<Rightarrow> RtpHeader list" where
  "audio_run s [] = []"
| "audio_run s (p # ps) = (case NextPacket s p False of (h, s') \<Rightarrow> h # audio_run s' ps)"

definition speech :: "bytes \<Rightarrow> bool" where
  "speech p \<longleftrightarrow> \<not> IsOpusDtxPayload p \<and> \<not> IsOpusPrimingPayload p"

lemma resolveWarpExtension_sel [simp]:
  "a_seq (snd (resolveWarpExtension s dtx)) = a_seq s"
  "a_timestamp (snd (resolveWarpExtension s dtx)) = a_timestamp s"
  "a_ssrc (snd (resolveWarpExtension s dtx)) = a_ssrc s"
  "samplesPerPacket (snd (resolveWarpExtension s dtx)) = samplesPerPacket s"
  "speechStarted (snd (resolveWarpExtension s dtx)) = speechStarted s"
  by (simp_all add: resolveWarpExtension_def Let_def)

lemma NextPacket_header:
  "SequenceNumber (fst (NextPacket s p m)) = a_seq s"
  "Timestamp (fst (NextPacket s p m)) = a_timestamp s"
  "Marker (fst (NextPacket s p m)) \<longleftrightarrow> m \<or> speech p \<and> \<not> speechStarted s"
  "a_seq (snd (NextPacket s p m)) = a_seq s + 1"
  "a_timestamp (snd (NextPacket s p m)) = a_timestamp s + samplesPerPacket s"
  "samplesPerPacket (snd (NextPacket s p m)) = samplesPerPacket s"
  "speechStarted (snd (NextPacket s p m)) \<longleftrightarrow> speechStarted s \<or> speech p"
  by (auto simp: NextPacket_def speech_def Let_def case_prod_beta)

text \<open>
  Audio packets advance the sequence number by one and the timestamp by one packet of samples,
  comfort-noise packets included; and the marker, which tells the receiver that a talk spurt
  begins, is on exactly the first speech packet of the stream.
\<close>

theorem audio_packets_sequenced:
  assumes "i < length ps"
  shows "SequenceNumber (audio_run s ps ! i) = a_seq s + of_nat i \<and>
    Timestamp (audio_run s ps ! i) = a_timestamp s + of_nat i * samplesPerPacket s \<and>
    (Marker (audio_run s ps ! i) \<longleftrightarrow>
      \<not> speechStarted s \<and> speech (ps ! i) \<and> list_all (\<lambda>p. \<not> speech p) (take i ps))"
  using assms
proof (induction s ps arbitrary: i rule: audio_run.induct)
  case (2 s p ps)
  show ?case
  proof (cases i)
    case 0
    then show ?thesis by (auto simp: NextPacket_header case_prod_beta)
  next
    case (Suc j)
    obtain h s' where nxt: "NextPacket s p False = (h, s')" by (cases "NextPacket s p False")
    have "j < length ps" using 2(2) Suc by simp
    from 2(1) [OF nxt [symmetric] this] show ?thesis
      using NextPacket_header [of s p False] by (auto simp: nxt Suc algebra_simps)
  qed
qed simp

theorem audio_packets_sequenced_witness:
  "Marker (audio_run (NewRtpStream 7 960 True) [[0x10], [0x48, 1]] ! 1) \<and>
   Timestamp (audio_run (NewRtpStream 7 960 True) [[0x10], [0x48, 1]] ! 1) = 960"
  using audio_packets_sequenced [of 1 "[[0x10], [0x48, 1]]" "NewRtpStream 7 960 True"]
  by (simp add: NewRtpStream_def speech_def IsOpusDtxPayload_def IsOpusPrimingPayload_def
      OpusPrimingFrame1_def OpusPrimingFrame2_def)

end
