(* ===== verification/Rtcp.thy ===== *)
theory Rtcp
  imports Rtp
begin

text \<open>
  RTCP: \<open>lib/rtp/rtcp.go\<close> and \<open>lib/rtp/rtcp_reception_set.go\<close>. Reception statistics are records of
  words of the Go widths, so that sequence numbers, cycles and counters wrap as in the code; the
  parsers of compound packets walk the byte list from an offset. The mutexes serialise the
  operations, which are therefore modelled as whole steps.
\<close>

section \<open>Classification\<close>

definition RtcpPtSr :: u8 where "RtcpPtSr = 200"
definition RtcpPtSdes :: u8 where "RtcpPtSdes = 202"
definition RtcpPtPsfb :: u8 where "RtcpPtPsfb = 206"
definition RtcpPtWaCompact :: u8 where "RtcpPtWaCompact = 208"
definition RtcpPtWaCompact2 :: u8 where "RtcpPtWaCompact2 = 209"
definition RtcpHeaderLen :: nat where "RtcpHeaderLen = 8"
definition ntpUnixOffsetSecs :: u64 where "ntpUnixOffsetSecs = 2208988800"
definition WhatsappRtcpCnameLen :: nat where "WhatsappRtcpCnameLen = 18"

lemmas rtcp_consts = RtcpPtSr_def RtcpPtSdes_def RtcpPtPsfb_def RtcpPtWaCompact_def
  RtcpPtWaCompact2_def RtcpHeaderLen_def ntpUnixOffsetSecs_def WhatsappRtcpCnameLen_def

definition IsRtcpPacket :: "bytes \<Rightarrow> bool" where
  "IsRtcpPacket d \<longleftrightarrow>
     (if length d < RtcpHeaderLen then False
      else if drop_bit 6 (d ! 0) AND 0x03 \<noteq> 2 then False
      else d ! 1 \<ge> 192 \<and> d ! 1 \<le> 223)"

definition RtcpPayloadType :: "bytes \<Rightarrow> u8 option" where
  "RtcpPayloadType d = (if \<not> IsRtcpPacket d then None else Some (d ! 1))"

definition ParseRtcpSenderSsrc :: "bytes \<Rightarrow> u32 option" where
  "ParseRtcpSenderSsrc d =
     (if length d < 8 \<or> drop_bit 6 (d ! 0) AND 0x03 \<noteq> 2 then None
      else Some (be32 (d ! 4) (d ! 5) (d ! 6) (d ! 7)))"

section \<open>Reception statistics\<close>

record RtcpSenderStats =
  PacketsSent :: u32
  OctetsSent :: u32
  RtpTimestamp :: u32

text \<open>\<open>CumulativeLost\<close>, an \<open>int32\<close>, is kept as its 32 bits.\<close>

record RtcpReceptionReport =
  RR_Ssrc :: u32
  FractionLost :: u8
  CumulativeLost :: u32
  ExtendedHighestSequence :: u32
  Jitter :: u32
  LastSenderReport :: u32
  DelaySinceLastSenderReport :: u32

record RtcpReceptionStats =
  st_ssrc :: u32
  hasSsrc :: bool
  baseSequence :: u16
  maxSequence :: u16
  sequenceCycles :: u32
  received :: u32
  expectedPrior :: u32
  receivedPrior :: u32
  transit :: u32
  hasTransit :: bool
  jitterQ4 :: u64
  lastSenderReport :: u32
  lastSenderReportAtMs :: u64
  hasSenderReport :: bool

definition zero_stats :: RtcpReceptionStats where
  "zero_stats = \<lparr>st_ssrc = 0, hasSsrc = False, baseSequence = 0, maxSequence = 0, sequenceCycles = 0,
     received = 0, expectedPrior = 0, receivedPrior = 0, transit = 0, hasTransit = False, jitterQ4 = 0,
     lastSenderReport = 0, lastSenderReportAtMs = 0, hasSenderReport = False\<rparr>"

definition observe_sequence :: "RtcpReceptionStats \<Rightarrow> u32 \<Rightarrow> u16 \<Rightarrow> RtcpReceptionStats" where
  "observe_sequence s ssrc sequence =
     (if \<not> hasSsrc s \<or> st_ssrc s \<noteq> ssrc then
        s\<lparr>sequenceCycles := 0, expectedPrior := 0, receivedPrior := 0, hasTransit := False, jitterQ4 := 0,
          lastSenderReport := 0, hasSenderReport := False, st_ssrc := ssrc, hasSsrc := True,
          baseSequence := sequence, maxSequence := sequence, received := 1\<rparr>
      else
        let delta = sequence - maxSequence s;
            s = (if delta \<noteq> 0 \<and> delta < 0x8000 then
                   (let s = (if sequence < maxSequence s
                             then s\<lparr>sequenceCycles := sequenceCycles s + 65536\<rparr> else s)
                    in s\<lparr>maxSequence := sequence\<rparr>)
                 else s)
        in s\<lparr>received := received s + 1\<rparr>)"

definition observe_transit ::
  "RtcpReceptionStats \<Rightarrow> u32 \<Rightarrow> u64 \<Rightarrow> u32 \<Rightarrow> RtcpReceptionStats" where
  "observe_transit s rtpTimestamp arrivalMs clockRate =
     (let arrivalRtp = (ucast ((arrivalMs * ucast clockRate) div 1000) :: u32);
          tr = arrivalRtp - rtpTimestamp;
          s = (if hasTransit s then
                 (let delta = sint (tr - transit s);
                      distance = (of_int (if delta < 0 then - delta else delta) :: u64);
                      decay = drop_bit 4 (jitterQ4 s + 8);
                      j = jitterQ4 s + distance
                  in s\<lparr>jitterQ4 := (if j \<ge> decay then j - decay else 0)\<rparr>)
               else s)
      in s\<lparr>transit := tr, hasTransit := True\<rparr>)"

definition Observe ::
  "RtcpReceptionStats \<Rightarrow> u32 \<Rightarrow> u16 \<Rightarrow> u32 \<Rightarrow> u64 \<Rightarrow> u32 \<Rightarrow> RtcpReceptionStats" where
  "Observe s ssrc sequence rtpTimestamp arrivalMs clockRate =
     observe_transit (observe_sequence s ssrc sequence) rtpTimestamp arrivalMs clockRate"

definition ObserveSenderReport ::
  "RtcpReceptionStats \<Rightarrow> u32 \<Rightarrow> u32 \<Rightarrow> u32 \<Rightarrow> u64 \<Rightarrow> RtcpReceptionStats" where
  "ObserveSenderReport s senderSsrc ntpSeconds ntpFraction arrivalMs =
     (if \<not> hasSsrc s \<or> st_ssrc s \<noteq> senderSsrc then s
      else s\<lparr>lastSenderReport := push_bit 16 ntpSeconds OR drop_bit 16 ntpFraction,
             lastSenderReportAtMs := arrivalMs, hasSenderReport := True\<rparr>)"

text \<open>The conversions to \<open>int64\<close> make the differences below exact.\<close>

definition Report :: "RtcpReceptionStats \<Rightarrow> u64 \<Rightarrow> RtcpReceptionReport option \<times> RtcpReceptionStats" where
  "Report s nowMs =
     (if \<not> hasSsrc s then (None, s)
      else
        let expected = sequenceCycles s + ucast (maxSequence s) - ucast (baseSequence s) + 1;
            expectedInterval = expected - expectedPrior s;
            receivedInterval = received s - receivedPrior s;
            lostInterval = uint expectedInterval - uint receivedInterval;
            fractionLost = (if expectedInterval \<noteq> 0 \<and> lostInterval > 0
              then of_int (min ((lostInterval * 256) div uint expectedInterval) 255) else (0 :: u8));
            s = s\<lparr>expectedPrior := expected, receivedPrior := received s\<rparr>;
            cumulativeLost = uint expected - uint (received s);
            cumulativeLost = (if cumulativeLost < - 0x800000 then - 0x800000
              else if cumulativeLost > 0x7fffff then 0x7fffff else cumulativeLost);
            dlsr = (if hasSenderReport s then
                (let elapsed = (if nowMs < lastSenderReportAtMs s then 0
                     else nowMs - lastSenderReportAtMs s)
                 in (ucast (min (elapsed * 65536 div 1000) 0xFFFFFFFF) :: u32))
              else 0);
            jitter = min (drop_bit 4 (jitterQ4 s)) 0xFFFFFFFF
        in (Some \<lparr>RR_Ssrc = st_ssrc s, FractionLost = fractionLost, CumulativeLost = of_int cumulativeLost,
                 ExtendedHighestSequence = sequenceCycles s OR ucast (maxSequence s),
                 Jitter = ucast jitter, LastSenderReport = lastSenderReport s,
                 DelaySinceLastSenderReport = dlsr\<rparr>, s))"

section \<open>Building and parsing packets\<close>

definition BuildCompactRtcp208 :: "u32 \<Rightarrow> u32 \<Rightarrow> bytes" where
  "BuildCompactRtcp208 localSsrc remoteSsrc =
     [0x81, RtcpPtWaCompact, 0, 2] @ put_be32 localSsrc @ put_be32 remoteSsrc"

definition BuildCompactRtcp209 :: "u32 \<Rightarrow> bytes" where
  "BuildCompactRtcp209 localSsrc = [0x81, RtcpPtWaCompact2, 0, 1] @ put_be32 localSsrc"

text \<open>
  The fraction is computed in \<open>float64\<close>. For a millisecond \<open>x < 1000\<close> the result of the code is
  \<open>x * 2^32 div 1000\<close>: the rounding error of \<open>x / 1000\<close>, scaled by \<open>2^32\<close>, is below \<open>2^-20\<close>, while
  \<open>x * 2^32 / 1000\<close> is either at least \<open>1/125\<close> away from an integer or an exact multiple of \<open>2^29\<close>.
\<close>

definition ntp_seconds :: "u64 \<Rightarrow> u32" where
  "ntp_seconds nowMs = ucast (nowMs div 1000 + ntpUnixOffsetSecs)"

definition ntp_fraction :: "u64 \<Rightarrow> u32" where
  "ntp_fraction nowMs = of_nat (unat (nowMs mod 1000) * 2 ^ 32 div 1000)"

definition BuildSenderReport :: "u32 \<Rightarrow> RtcpSenderStats \<Rightarrow> u64 \<Rightarrow> bytes" where
  "BuildSenderReport localSsrc stats nowMs =
     [0x80, RtcpPtSr, 0, 6] @ put_be32 localSsrc @ put_be32 (ntp_seconds nowMs)
     @ put_be32 (ntp_fraction nowMs) @ put_be32 (RtpTimestamp stats) @ put_be32 (PacketsSent stats)
     @ put_be32 (OctetsSent stats)"

definition hexChars :: bytes where "hexChars = str_bytes ''0123456789abcdef''"

definition BuildWhatsappRtcpCname :: "bytes \<Rightarrow> bytes" where
  "BuildWhatsappRtcpCname entropy =
     (let randomHex = map (\<lambda>nibble.
            let b = entropy ! (6 + nibble div 2)
            in if nibble mod 2 = 0 then hexChars ! unat (drop_bit 4 b) else hexChars ! unat (b AND 0x0f))
          [0..<11]
      in take 5 randomHex @ str_bytes ''@pj'' @ drop 5 randomHex @ str_bytes ''.org'')"

definition BuildSourceDescription :: "u32 \<Rightarrow> bytes \<Rightarrow> bool \<Rightarrow> bytes" where
  "BuildSourceDescription localSsrc cname profileExtension =
     [0x81 OR (if profileExtension then 0x10 else 0), RtcpPtSdes] @ put_be16 7 @ put_be32 localSsrc
     @ [1, of_nat WhatsappRtcpCnameLen] @ cname @ [0, 0, 0, 0]"

definition appendReceptionReport :: "bytes \<Rightarrow> RtcpReceptionReport \<Rightarrow> bytes" where
  "appendReceptionReport out report =
     (let lost = CumulativeLost report
      in out @ put_be32 (RR_Ssrc report) @ [FractionLost report]
         @ [ucast (drop_bit 16 lost), ucast (drop_bit 8 lost), ucast lost]
         @ put_be32 (ExtendedHighestSequence report) @ put_be32 (Jitter report)
         @ put_be32 (LastSenderReport report) @ put_be32 (DelaySinceLastSenderReport report))"

definition put_length :: "bytes \<Rightarrow> bytes" where
  "put_length out = take 2 out @ put_be16 (of_nat (length out div 4 - 1)) @ drop 4 out"

definition BuildSenderReportWithSdesAndReception ::
  "u32 \<Rightarrow> RtcpSenderStats \<Rightarrow> u64 \<Rightarrow> bytes \<Rightarrow> RtcpReceptionReport option \<Rightarrow> bool \<Rightarrow> bytes" where
  "BuildSenderReportWithSdesAndReception localSsrc stats nowMs cname report profileExtension =
     (let sr = BuildSenderReport localSsrc stats nowMs;
          sr = (if profileExtension then sr[0 := sr ! 0 OR 0x10] else sr);
          sdes = BuildSourceDescription localSsrc cname profileExtension;
          out = (case report of
              None \<Rightarrow> sr
            | Some rep \<Rightarrow>
                put_length (appendReceptionReport (sr[0 := sr ! 0 OR 1]) rep @ replicate 24 0))
      in out @ sdes)"

definition BuildSenderReportWithSdes ::
  "u32 \<Rightarrow> RtcpSenderStats \<Rightarrow> u64 \<Rightarrow> bytes \<Rightarrow> bool \<Rightarrow> bytes" where
  "BuildSenderReportWithSdes localSsrc stats nowMs cname profileExtension =
     BuildSenderReportWithSdesAndReception localSsrc stats nowMs cname None profileExtension"

definition buildGroupSenderReportFromSenderSection ::
  "bytes \<Rightarrow> RtcpReceptionReport option \<Rightarrow> bytes \<Rightarrow> bytes" where
  "buildGroupSenderReportFromSenderSection sender report extension =
     (case report of
        None \<Rightarrow> sender
      | Some rep \<Rightarrow>
          put_length (appendReceptionReport (sender[0 := (sender ! 0 AND 0xe0) OR 1]) rep @ extension))"

definition BuildGroupSenderReport ::
  "u32 \<Rightarrow> RtcpSenderStats option \<Rightarrow> u64 \<Rightarrow> RtcpReceptionReport option \<Rightarrow> bytes \<Rightarrow> bytes" where
  "BuildGroupSenderReport localSSRC stats nowMs report extension =
     (let stats = (case stats of None \<Rightarrow> \<lparr>PacketsSent = 0, OctetsSent = 0, RtpTimestamp = 0\<rparr> | Some s \<Rightarrow> s)
      in buildGroupSenderReportFromSenderSection (BuildSenderReport localSSRC stats nowMs) report extension)"

definition BuildPictureLossIndication :: "u32 \<Rightarrow> u32 \<Rightarrow> bool \<Rightarrow> bytes" where
  "BuildPictureLossIndication senderSSRC mediaSSRC profileExtension =
     [0x81 OR (if profileExtension then 0x10 else 0), RtcpPtPsfb] @ put_be16 2 @ put_be32 senderSSRC
     @ put_be32 mediaSSRC"

text \<open>The argument of the loops is the rest of the compound packet, from \<open>offset\<close> on.\<close>

definition packet_len :: "bytes \<Rightarrow> nat" where
  "packet_len d = (unat (be16 (d ! 2) (d ! 3)) + 1) * 4"

function ParseSenderReportTiming :: "bytes \<Rightarrow> (u32 \<times> u32 \<times> u32) option" where
  "ParseSenderReportTiming d =
     (if d = [] then None
      else if length d < 4 then None
      else let packetLen = packet_len d
      in if packetLen < 4 \<or> packetLen > length d then None
      else let packet = take packetLen d
      in if packet ! 1 = RtcpPtSr \<and> length packet \<ge> 28 then
           Some (be32 (packet ! 4) (packet ! 5) (packet ! 6) (packet ! 7),
             be32 (packet ! 8) (packet ! 9) (packet ! 10) (packet ! 11),
             be32 (packet ! 12) (packet ! 13) (packet ! 14) (packet ! 15))
         else ParseSenderReportTiming (drop packetLen d))"
  by pat_completeness auto

termination
  by (relation "measure length") (auto simp: packet_len_def)

declare ParseSenderReportTiming.simps [simp del]

function fci_matches :: "u32 \<Rightarrow> bytes \<Rightarrow> bool" where
  "fci_matches localVideoSsrc fci =
     (if length fci \<ge> 8 then
        be32 (fci ! 0) (fci ! 1) (fci ! 2) (fci ! 3) = localVideoSsrc \<or> fci_matches localVideoSsrc (drop 8 fci)
      else False)"
  by pat_completeness auto

termination
  by (relation "measure (\<lambda>(_, fci). length fci)") auto

declare fci_matches.simps [simp del]

definition packet_requests_keyframe :: "bytes \<Rightarrow> u32 \<Rightarrow> bool" where
  "packet_requests_keyframe packet localVideoSsrc \<longleftrightarrow>
     packet ! 1 = RtcpPtPsfb \<and> length packet \<ge> 12 \<and>
     (let rawFmt = packet ! 0 AND 0x1f;
          fmt = (if rawFmt AND 0x10 \<noteq> 0 then rawFmt AND 0x0f else rawFmt);
          mediaSsrc = be32 (packet ! 8) (packet ! 9) (packet ! 10) (packet ! 11)
      in (fmt = 1 \<and> mediaSsrc = localVideoSsrc) \<or>
         (fmt = 4 \<and> (mediaSsrc = localVideoSsrc \<or> fci_matches localVideoSsrc (drop 12 packet))))"

function RtcpRequestsKeyframe :: "bytes \<Rightarrow> u32 \<Rightarrow> bool" where
  "RtcpRequestsKeyframe d localVideoSsrc =
     (if length d < 4 then False
      else if drop_bit 6 (d ! 0) AND 0x03 \<noteq> 2 then False
      else let packetLen = packet_len d
      in if packetLen < 8 \<or> packetLen > length d then False
      else if packet_requests_keyframe (take packetLen d) localVideoSsrc then True
      else RtcpRequestsKeyframe (drop packetLen d) localVideoSsrc)"
  by pat_completeness auto

termination
  by (relation "measure (\<lambda>(d, _). length d)") auto

declare RtcpRequestsKeyframe.simps [simp del]

section \<open>One state per stream\<close>

text \<open>The map from SSRCs to statistics is an association list with distinct keys.\<close>

record RtcpReceptionStatsSet =
  streams :: "(u32 \<times> RtcpReceptionStats) list"
  allowedSSRCs :: "u32 list"
  authoritative :: bool

definition new_stats_set :: RtcpReceptionStatsSet where
  "new_stats_set = \<lparr>streams = [], allowedSSRCs = [], authoritative = False\<rparr>"

definition SetObserve ::
  "RtcpReceptionStatsSet \<Rightarrow> u32 \<Rightarrow> u16 \<Rightarrow> u32 \<Rightarrow> u64 \<Rightarrow> u32 \<Rightarrow> RtcpReceptionStatsSet" where
  "SetObserve s ssrc sequence rtpTimestamp arrivalMs clockRate =
     (if authoritative s \<and> ssrc \<notin> set (allowedSSRCs s) then s
      else let stream = (case map_of (streams s) ssrc of None \<Rightarrow> zero_stats | Some st \<Rightarrow> st)
           in s\<lparr>streams := AList.update ssrc
                (Observe stream ssrc sequence rtpTimestamp arrivalMs clockRate) (streams s)\<rparr>)"

definition SetObserveSenderReport ::
  "RtcpReceptionStatsSet \<Rightarrow> u32 \<Rightarrow> u32 \<Rightarrow> u32 \<Rightarrow> u64 \<Rightarrow> RtcpReceptionStatsSet" where
  "SetObserveSenderReport s senderSSRC ntpSeconds ntpFraction arrivalMs =
     (case map_of (streams s) senderSSRC of
        None \<Rightarrow> s
      | Some stream \<Rightarrow>
          s\<lparr>streams := AList.update senderSSRC
              (ObserveSenderReport stream senderSSRC ntpSeconds ntpFraction arrivalMs) (streams s)\<rparr>)"

definition Retain :: "RtcpReceptionStatsSet \<Rightarrow> u32 list \<Rightarrow> RtcpReceptionStatsSet" where
  "Retain s ssrcs =
     s\<lparr>allowedSSRCs := ssrcs, authoritative := True,
       streams := filter (\<lambda>p. fst p \<in> set ssrcs) (streams s)\<rparr>"

text \<open>The reports in ascending SSRC order; each one updates the interval counters of its stream.\<close>

fun report_all ::
  "(u32 \<times> RtcpReceptionStats) list \<Rightarrow> u64 \<Rightarrow> u32 list \<Rightarrow>
    RtcpReceptionReport list \<times> (u32 \<times> RtcpReceptionStats) list" where
  "report_all m nowMs [] = ([], m)"
| "report_all m nowMs (ssrc # ssrcs) =
     (case map_of m ssrc of
        None \<Rightarrow> report_all m nowMs ssrcs
      | Some st \<Rightarrow>
          (case Report st nowMs of (rep, st') \<Rightarrow>
           case report_all (AList.update ssrc st' m) nowMs ssrcs of (reps, m') \<Rightarrow>
             (case rep of None \<Rightarrow> reps | Some r \<Rightarrow> r # reps, m')))"

definition Reports :: "RtcpReceptionStatsSet \<Rightarrow> u64 \<Rightarrow> RtcpReceptionReport list \<times> RtcpReceptionStatsSet" where
  "Reports s nowMs =
     (case report_all (streams s) nowMs (sort (map fst (streams s))) of
        (reps, m) \<Rightarrow> (reps, s\<lparr>streams := m\<rparr>))"

section \<open>Extended sequence numbers\<close>

text \<open>
  The specification of sequence tracking: packets carry the low 16 bits of an unbounded extended
  sequence number. After a first packet \<open>e0\<close> and highest packet \<open>e\<close> the statistics represent the
  pair, whatever the number of wrap-arounds.
\<close>

definition tracks :: "RtcpReceptionStats \<Rightarrow> u32 \<Rightarrow> nat \<Rightarrow> nat \<Rightarrow> bool" where
  "tracks s ssrc e0 e \<longleftrightarrow> hasSsrc s \<and> st_ssrc s = ssrc \<and> e0 \<le> e \<and>
     baseSequence s = of_nat e0 \<and> maxSequence s = of_nat e \<and>
     sequenceCycles s = of_nat (65536 * (e div 65536 - e0 div 65536))"

lemma observe_transit_sel [simp]:
  "hasSsrc (observe_transit s ts a c) = hasSsrc s" "st_ssrc (observe_transit s ts a c) = st_ssrc s"
  "baseSequence (observe_transit s ts a c) = baseSequence s"
  "maxSequence (observe_transit s ts a c) = maxSequence s"
  "sequenceCycles (observe_transit s ts a c) = sequenceCycles s"
  "received (observe_transit s ts a c) = received s"
  "expectedPrior (observe_transit s ts a c) = expectedPrior s"
  "receivedPrior (observe_transit s ts a c) = receivedPrior s"
  by (simp_all add: observe_transit_def Let_def)

lemma seq_less_wrap:
  assumes "d < 32768"
  shows "(of_nat (e + d) :: u16) < of_nat e \<longleftrightarrow> (e + d) div 65536 \<noteq> e div 65536"
    and "(e + d) div 65536 \<le> e div 65536 + 1"
proof -
  have "(e + d) div 65536 = e div 65536 + (e mod 65536 + d) div 65536"
    using assms div_add1_eq [of e d 65536] by simp
  moreover have "(e + d) mod 65536 = (e mod 65536 + d) mod 65536"
    by (simp add: mod_add_left_eq)
  moreover have "(e mod 65536 + d) div 65536 = (if e mod 65536 + d < 65536 then 0 else 1)"
    "(e mod 65536 + d) mod 65536 = (if e mod 65536 + d < 65536 then e mod 65536 + d
       else e mod 65536 + d - 65536)"
    using assms mod_less_divisor [of 65536 e] by (auto simp: le_div_geq le_mod_geq)
  ultimately show "(of_nat (e + d) :: u16) < of_nat e \<longleftrightarrow> (e + d) div 65536 \<noteq> e div 65536"
    and "(e + d) div 65536 \<le> e div 65536 + 1"
    using assms unfolding word_less_nat_alt unat_of_nat_u16 by (auto split: if_splits) linarith
qed

lemma Observe_first:
  assumes "\<not> hasSsrc s \<or> st_ssrc s \<noteq> ssrc"
  shows "tracks (Observe s ssrc (of_nat e) ts a c) ssrc e e \<and>
    received (Observe s ssrc (of_nat e) ts a c) = 1 \<and>
    expectedPrior (Observe s ssrc (of_nat e) ts a c) = 0 \<and>
    receivedPrior (Observe s ssrc (of_nat e) ts a c) = 0"
  using assms by (simp add: Observe_def observe_sequence_def tracks_def)

lemma Observe_known:
  "hasSsrc s \<Longrightarrow> st_ssrc s = ssrc \<Longrightarrow>
    received (Observe s ssrc q ts a c) = received s + 1 \<and>
    expectedPrior (Observe s ssrc q ts a c) = expectedPrior s \<and>
    receivedPrior (Observe s ssrc q ts a c) = receivedPrior s"
  by (simp add: Observe_def observe_sequence_def Let_def)

lemma Observe_newer:
  assumes "tracks s ssrc e0 e" and "0 < d" and "d < 32768"
  shows "tracks (Observe s ssrc (of_nat (e + d)) ts a c) ssrc e0 (e + d)"
proof -
  have delta: "(of_nat (e + d) :: u16) - of_nat e = of_nat d" by simp
  have "unat (of_nat d :: u16) = d"
    using assms(3) by (simp add: unat_of_nat_u16)
  then have up: "(of_nat d :: u16) \<noteq> 0" "(of_nat d :: u16) < 0x8000"
    using assms(2,3) by (auto simp: word_less_nat_alt)
  have cyc: "(if (of_nat (e + d) :: u16) < of_nat e
      then of_nat (65536 * (e div 65536 - e0 div 65536)) + 65536
      else of_nat (65536 * (e div 65536 - e0 div 65536)) :: u32) =
      of_nat (65536 * ((e + d) div 65536 - e0 div 65536))"
  proof -
    have "e0 div 65536 \<le> e div 65536"
      using assms(1) by (auto simp: tracks_def intro: div_le_mono)
    moreover have "(e + d) div 65536 \<noteq> e div 65536 \<Longrightarrow> (e + d) div 65536 = e div 65536 + 1"
      using seq_less_wrap(2) [OF assms(3), of e] div_le_mono [of e "e + d" 65536] by simp
    ultimately show ?thesis
      unfolding seq_less_wrap(1) [OF assms(3)]
      by (auto simp: Suc_diff_le algebra_simps)
  qed
  show ?thesis
    using assms(1) up cyc
    by (simp add: Observe_def observe_sequence_def tracks_def Let_def delta split: if_splits)
qed

lemma Observe_late:
  assumes "tracks s ssrc e0 e" and "d \<le> 32768" and "d \<le> e"
  shows "tracks (Observe s ssrc (of_nat (e - d)) ts a c) ssrc e0 e"
proof -
  have delta: "(of_nat (e - d) :: u16) - of_nat e = - of_nat d"
    using assms(3) by (simp add: of_nat_diff)
  have "\<not> (- (of_nat d :: u16) \<noteq> 0 \<and> - (of_nat d :: u16) < 0x8000)"
  proof (cases "d = 0")
    case False
    have "- (of_nat d :: u16) = of_nat (65536 - d)"
      using assms(2) by (simp add: of_nat_diff)
    with False have "unat (- (of_nat d :: u16)) = 65536 - d"
      by (simp only: unat_of_nat_u16) simp
    moreover have "\<not> 65536 - d < 32768"
      using assms(2) by linarith
    ultimately show ?thesis
      by (simp add: word_less_nat_alt)
  qed simp
  then show ?thesis
    using assms(1) by (auto simp: Observe_def observe_sequence_def tracks_def Let_def delta)
qed

text \<open>
  A stream of packets, given by their extended sequence numbers (with arbitrary timestamps and
  arrival times), that is never more than half the number space away from the highest one so far.
\<close>

type_synonym arrival = "nat \<times> u32 \<times> u64"

fun plausible :: "nat \<Rightarrow> arrival list \<Rightarrow> bool" where
  "plausible e [] \<longleftrightarrow> True"
| "plausible e ((x, _, _) # xs) \<longleftrightarrow> x < e + 32768 \<and> e \<le> x + 32768 \<and> plausible (max e x) xs"

definition highest :: "nat \<Rightarrow> arrival list \<Rightarrow> nat" where
  "highest e xs = foldl (\<lambda>m (x, _, _). max m x) e xs"

lemma highest_simps [simp]:
  "highest e [] = e" "highest e ((x, ts, a) # xs) = highest (max e x) xs"
  by (simp_all add: highest_def)

definition observe_all :: "RtcpReceptionStats \<Rightarrow> u32 \<Rightarrow> u32 \<Rightarrow> arrival list \<Rightarrow> RtcpReceptionStats" where
  "observe_all s ssrc clock xs = foldl (\<lambda>s (x, ts, a). Observe s ssrc (of_nat x) ts a clock) s xs"

lemma observe_all_simps [simp]:
  "observe_all s ssrc clock [] = s"
  "observe_all s ssrc clock ((x, ts, a) # xs) =
     observe_all (Observe s ssrc (of_nat x) ts a clock) ssrc clock xs"
  by (simp_all add: observe_all_def)

lemma highest_le: "e \<le> highest e xs"
proof (induction xs arbitrary: e)
  case (Cons p xs)
  obtain x ts a where p: "p = (x, ts, a)" by (metis surj_pair)
  show ?case
    using Cons.IH [of "max e x"] by (simp add: p)
qed simp

lemma observe_all_tracks:
  assumes "tracks s ssrc e0 e" and "plausible e xs"
  shows "tracks (observe_all s ssrc clock xs) ssrc e0 (highest e xs) \<and>
    received (observe_all s ssrc clock xs) = received s + of_nat (length xs) \<and>
    expectedPrior (observe_all s ssrc clock xs) = expectedPrior s \<and>
    receivedPrior (observe_all s ssrc clock xs) = receivedPrior s"
  using assms
proof (induction xs arbitrary: s e)
  case (Cons p xs)
  obtain x ts a where p: "p = (x, ts, a)" by (metis surj_pair)
  let ?s = "Observe s ssrc (of_nat x) ts a clock"
  have "tracks ?s ssrc e0 (max e x)"
  proof (cases "x \<le> e")
    case True
    then show ?thesis
      using Observe_late [OF Cons.prems(1), of "e - x" ts a clock] Cons.prems(2)
      by (simp add: p max_def le_diff_conv add.commute)
  next
    case False
    then show ?thesis
      using Observe_newer [OF Cons.prems(1), of "x - e" ts a clock] Cons.prems(2)
      by (simp add: p max_def less_diff_conv2 add.commute)
  qed
  with Cons.IH [of ?s "max e x"] Cons.prems Observe_known [of s ssrc "of_nat x" ts a clock]
  show ?case by (auto simp: p tracks_def)
qed simp

lemma cycles_or_max:
  "(of_nat (65536 * k) :: u32) OR ucast (of_nat e :: u16) = of_nat (65536 * k + e mod 65536)"
proof -
  have "unat (ucast (of_nat e :: u16) :: u32) = unat (of_nat (e mod 65536) :: u32)"
    by (simp add: unsigned_ucast_eq unat_of_nat take_bit_eq_mod)
  then have mx: "(ucast (of_nat e :: u16) :: u32) = of_nat (e mod 65536)"
    by (rule unsigned_word_eqI)
  have "(of_nat (65536 * k) :: u32) = push_bit 16 (of_nat k)"
    by (simp add: push_bit_eq_mult)
  moreover have "push_bit 16 (of_nat k :: u32) AND ucast (of_nat e :: u16) = 0"
    by (intro bit_word_eqI) (auto simp: bit_simps)
  ultimately have "(of_nat (65536 * k) :: u32) OR ucast (of_nat e :: u16) =
      of_nat (65536 * k) + ucast (of_nat e :: u16)"
    by (simp add: disjunctive_add_eq_or)
  then show ?thesis by (simp add: mx)
qed

lemma ucast_seq: "(ucast (of_nat e :: u16) :: u32) = of_nat (e mod 65536)"
  using cycles_or_max [of 0 e] by simp

lemma expected_count:
  assumes "tracks s ssrc e0 e"
  shows "sequenceCycles s + ucast (maxSequence s) - ucast (baseSequence s) + 1 = of_nat (e - e0 + 1)"
proof -
  have le: "e0 div 65536 \<le> e div 65536" "e0 \<le> e"
    using assms by (auto simp: tracks_def intro: div_le_mono)
  have split: "(of_nat n :: u32) = of_nat (65536 * (n div 65536)) + of_nat (n mod 65536)" for n
    by (metis mult_div_mod_eq of_nat_add)
  have "sequenceCycles s + ucast (maxSequence s) - ucast (baseSequence s) =
      of_nat (65536 * (e div 65536)) - of_nat (65536 * (e0 div 65536)) + of_nat (e mod 65536)
        - (of_nat (e0 mod 65536) :: u32)"
    using assms le(1)
    by (simp add: tracks_def ucast_seq diff_mult_distrib2 of_nat_diff)
  also have "\<dots> = of_nat e - of_nat e0"
    by (subst (2 3) split) simp
  finally show ?thesis
    using le(2) by (simp add: of_nat_diff)
qed

lemma sint_of_int_u32: "- (2 ^ 31) \<le> v \<Longrightarrow> v < 2 ^ 31 \<Longrightarrow> sint (of_int v :: u32) = v"
  by (simp add: signed_of_int signed_take_bit_int_eq_self)

lemma uint_of_nat_u32: "n < 2 ^ 32 \<Longrightarrow> uint (of_nat n :: u32) = int n"
  by (simp add: unsigned_of_nat take_bit_nat_eq_self)

definition clamp24 :: "int \<Rightarrow> int" where
  "clamp24 c = (if c < - 0x800000 then - 0x800000 else if c > 0x7fffff then 0x7fffff else c)"

lemma Report_fields:
  assumes "hasSsrc s"
    and "sequenceCycles s + ucast (maxSequence s) - ucast (baseSequence s) + 1 = E"
    and "expectedPrior s = 0" and "receivedPrior s = 0"
  shows "\<exists>r st'. Report s nowMs = (Some r, st') \<and> RR_Ssrc r = st_ssrc s \<and>
    ExtendedHighestSequence r = sequenceCycles s OR ucast (maxSequence s) \<and>
    CumulativeLost r = of_int (clamp24 (uint E - uint (received s))) \<and>
    FractionLost r = (if E \<noteq> 0 \<and> uint E - uint (received s) > 0
      then of_int (min ((uint E - uint (received s)) * 256 div uint E) 255) else 0)"
  using assms(1) unfolding Report_def assms(2,3,4) by (simp add: clamp24_def Let_def)

text \<open>
  C16: Loss reports are exact. For a new stream whose packets arrive in any order (but never half the
  number space from the highest one), across any number of 16-bit wrap-arounds, the report gives
  the highest extended sequence number relative to the start's cycle, and as lost packets the
  difference between the packets the numbers span and the packets that arrived; the fraction is
  that loss in 1/256 of the expected packets.
\<close>

theorem reception_report_exact:
  assumes "\<not> hasSsrc s" and "plausible e0 xs"
    and "st = observe_all (Observe s ssrc (of_nat e0) ts a clock) ssrc clock xs"
    and "expected = highest e0 xs - e0 + 1" and "arrived = length xs + 1"
    and "expected < 2 ^ 23" and "arrived < 2 ^ 23"
  shows "\<exists>r st'. Report st nowMs = (Some r, st') \<and> RR_Ssrc r = ssrc \<and>
    ExtendedHighestSequence r = of_nat (highest e0 xs - 65536 * (e0 div 65536)) \<and>
    sint (CumulativeLost r) = int expected - int arrived \<and>
    unat (FractionLost r) = (if expected > arrived then (expected - arrived) * 256 div expected else 0)"
proof -
  let ?e = "highest e0 xs"
  from observe_all_tracks [of "Observe s ssrc (of_nat e0) ts a clock" ssrc e0 e0 xs clock] assms(1,2)
    Observe_first [of s ssrc e0 ts a clock]
  have tr: "tracks st ssrc e0 ?e" and rc: "received st = of_nat arrived"
    and pr: "expectedPrior st = 0" "receivedPrior st = 0"
    by (auto simp: assms(3,5) add.commute)
  have ex: "sequenceCycles st + ucast (maxSequence st) - ucast (baseSequence st) + 1 = of_nat expected"
    using expected_count [OF tr] by (simp add: assms(4))
  have u: "uint (of_nat expected :: u32) = int expected" "uint (of_nat arrived :: u32) = int arrived"
    using assms(6,7) by (simp_all add: uint_of_nat_u32)
  have ext: "sequenceCycles st OR ucast (maxSequence st) = of_nat (?e - 65536 * (e0 div 65536))"
  proof -
    have "65536 * (?e div 65536 - e0 div 65536) + ?e mod 65536 = ?e - 65536 * (e0 div 65536)"
      using tr div_le_mono [of e0 ?e 65536] mult_div_mod_eq [of 65536 ?e]
      by (simp add: tracks_def diff_mult_distrib2)
    then show ?thesis
      using tr cycles_or_max [of "?e div 65536 - e0 div 65536" ?e] by (simp add: tracks_def)
  qed
  have pos: "0 < expected" by (simp add: assms(4))
  then have nz: "(of_nat expected :: u32) \<noteq> 0"
    using u(1) by auto
  have fl: "unat (of_int (min ((int expected - int arrived) * 256 div int expected) 255) :: u8) =
      (expected - arrived) * 256 div expected" if "expected > arrived"
  proof -
    have "0 < arrived" by (simp add: assms(5))
    then have "(expected - arrived) * 256 div expected < 256"
      using that by (simp add: less_mult_imp_div_less)
    moreover have "(int expected - int arrived) * 256 div int expected =
        int ((expected - arrived) * 256 div expected)"
      using that by (simp add: of_nat_diff zdiv_int)
    ultimately show ?thesis
      by (simp add: unat_of_nat take_bit_nat_eq_self)
  qed
  have lost: "sint (of_int (clamp24 (int expected - int arrived)) :: u32) = int expected - int arrived"
    using assms(6,7) by (subst sint_of_int_u32) (simp_all add: clamp24_def)
  have "hasSsrc st" "st_ssrc st = ssrc"
    using tr by (simp_all add: tracks_def)
  with Report_fields [OF _ ex pr, of nowMs] lost nz ext fl show ?thesis
    by (auto simp: rc u)
qed

theorem reception_report_exact_witness:
  "\<exists>r st'. Report (observe_all (Observe zero_stats 9 (of_nat 65534) 0 0 48000) 9 48000
      [(65535, 0, 0), (65538, 0, 0), (65537, 0, 0)]) 0 = (Some r, st') \<and>
    ExtendedHighestSequence r = 65538 \<and> sint (CumulativeLost r) = 1"
  using reception_report_exact [of zero_stats 65534 "[(65535, 0, 0), (65538, 0, 0), (65537, 0, 0)]"
      "observe_all (Observe zero_stats 9 (of_nat 65534) 0 0 48000) 9 48000
        [(65535, 0, 0), (65538, 0, 0), (65537, 0, 0)]" 9 0 0 48000 5 4 0]
  by (auto simp: zero_stats_def)

section \<open>Sender reports and feedback\<close>

lemma ParseSenderReportTiming_found:
  assumes "d ! 1 = RtcpPtSr" and "28 \<le> packet_len d" and "packet_len d \<le> length d"
  shows "ParseSenderReportTiming d = Some (be32 (d ! 4) (d ! 5) (d ! 6) (d ! 7),
    be32 (d ! 8) (d ! 9) (d ! 10) (d ! 11), be32 (d ! 12) (d ! 13) (d ! 14) (d ! 15))"
  using assms by (subst ParseSenderReportTiming.simps) (auto simp: Let_def)

lemmas report_layout = BuildSenderReport_def put_be32_def put_be16_def packet_len_def RtcpPtSr_def
  appendReceptionReport_def put_length_def Let_def

text \<open>
  Sender timing survives. Whatever reception block or description packet is attached, the
  receiver's parser finds in the periodic report, one-to-one or group form, exactly the sender's SSRC and the NTP
  timestamp that was built into it.
\<close>

theorem sender_report_timing_roundtrip:
  assumes "length cname = WhatsappRtcpCnameLen" and "length extension = 8"
  shows "ParseSenderReportTiming
      (BuildSenderReportWithSdesAndReception ssrc stats nowMs cname report ext) =
      Some (ssrc, ntp_seconds nowMs, ntp_fraction nowMs) \<and>
    ParseSenderReportTiming (BuildGroupSenderReport ssrc (Some stats) nowMs report extension) =
      Some (ssrc, ntp_seconds nowMs, ntp_fraction nowMs)"
proof
  let ?sr = "BuildSenderReportWithSdesAndReception ssrc stats nowMs cname report ext"
  have head: "?sr ! 1 = RtcpPtSr" "28 \<le> packet_len ?sr" "packet_len ?sr \<le> length ?sr"
    by (cases report; simp add: BuildSenderReportWithSdesAndReception_def report_layout be16_def)+
  show "ParseSenderReportTiming ?sr = Some (ssrc, ntp_seconds nowMs, ntp_fraction nowMs)"
    unfolding ParseSenderReportTiming_found [OF head]
    by (cases report) (simp_all add: BuildSenderReportWithSdesAndReception_def report_layout)
  let ?g = "BuildGroupSenderReport ssrc (Some stats) nowMs report extension"
  have head: "?g ! 1 = RtcpPtSr" "28 \<le> packet_len ?g" "packet_len ?g \<le> length ?g"
    using assms by (cases report; simp add: BuildGroupSenderReport_def
        buildGroupSenderReportFromSenderSection_def report_layout be16_def)+
  show "ParseSenderReportTiming ?g = Some (ssrc, ntp_seconds nowMs, ntp_fraction nowMs)"
    unfolding ParseSenderReportTiming_found [OF head]
    by (cases report) (simp_all add: BuildGroupSenderReport_def
        buildGroupSenderReportFromSenderSection_def report_layout)
qed

theorem sender_report_timing_roundtrip_witness:
  "ParseSenderReportTiming
      (BuildSenderReportWithSdesAndReception 7 \<lparr>PacketsSent = 1, OctetsSent = 2, RtpTimestamp = 3\<rparr> 1500
        (BuildWhatsappRtcpCname (replicate 12 0)) None True) = Some (7, 2208988801, 2147483648) \<and>
    length (BuildWhatsappRtcpCname (replicate 12 0)) = WhatsappRtcpCnameLen"
proof -
  have "length (BuildWhatsappRtcpCname (replicate 12 0)) = WhatsappRtcpCnameLen"
    by (simp add: BuildWhatsappRtcpCname_def WhatsappRtcpCnameLen_def Let_def)
  with sender_report_timing_roundtrip [of "BuildWhatsappRtcpCname (replicate 12 0)" "replicate 8 0" 7
      "\<lparr>PacketsSent = 1, OctetsSent = 2, RtpTimestamp = 3\<rparr>" 1500 None True]
  show ?thesis
    by (simp add: ntp_seconds_def ntp_fraction_def ntpUnixOffsetSecs_def)
qed

lemma first_byte_bits [simp]:
  "drop_bit 6 (0x81 OR 0x10 :: u8) AND 3 = 2" "drop_bit 6 (0x81 :: u8) AND 3 = 2"
  "(0x81 OR 0x10 :: u8) AND 0x1f = 0x11" "(0x11 :: u8) AND 0x10 = 0x10" "(0x11 :: u8) AND 0x0f = 1"
  "(0x81 :: u8) AND 0x1f = 1" "(1 :: u8) AND 0x10 = 0"
  by code_simp+

lemma RtcpRequestsKeyframe_short: "length d < 4 \<Longrightarrow> \<not> RtcpRequestsKeyframe d v"
  by (subst RtcpRequestsKeyframe.simps) simp

lemmas feedback_layout = BuildPictureLossIndication_def BuildSenderReport_def packet_len_def put_be16_def
  packet_requests_keyframe_def put_be32_def be16_def RtcpPtPsfb_def RtcpPtSr_def Let_def

lemma RtcpRequestsKeyframe_report:
  "RtcpRequestsKeyframe (BuildSenderReport sender stats nowMs @ d) v \<longleftrightarrow> RtcpRequestsKeyframe d v"
  by (subst RtcpRequestsKeyframe.simps) (simp add: feedback_layout)

text \<open>
  A picture loss indication asks for a keyframe of exactly the stream it names, with or
  without the profile extension bit, and also when it follows a sender report in a compound
  packet.
\<close>

theorem picture_loss_exact:
  "RtcpRequestsKeyframe (BuildPictureLossIndication sender media ext) v = (v = media) \<and>
   RtcpRequestsKeyframe (BuildSenderReport sender stats nowMs @ BuildPictureLossIndication sender media ext) v
     = (v = media)"
proof -
  have "RtcpRequestsKeyframe (BuildPictureLossIndication sender media ext) v = (v = media)"
    by (subst RtcpRequestsKeyframe.simps)
      (cases ext; auto simp: RtcpRequestsKeyframe_short feedback_layout)
  then show ?thesis
    by (simp add: RtcpRequestsKeyframe_report)
qed

section \<open>The set of streams\<close>

definition keyed :: "(u32 \<times> RtcpReceptionStats) list \<Rightarrow> bool" where
  "keyed m \<longleftrightarrow> distinct (map fst m) \<and> (\<forall>k st. map_of m k = Some st \<longrightarrow> hasSsrc st \<and> st_ssrc st = k)"

lemma Observe_key [simp]: "hasSsrc (Observe s k sq ts a c)" "st_ssrc (Observe s k sq ts a c) = k"
  by (auto simp: Observe_def observe_sequence_def Let_def)

lemma ObserveSenderReport_key [simp]:
  "hasSsrc (ObserveSenderReport s k sec frac a) = hasSsrc s" "st_ssrc (ObserveSenderReport s k sec frac a) = st_ssrc s"
  by (auto simp: ObserveSenderReport_def)

lemma Report_key: 
  assumes "Report st now = (rep, st')" shows "hasSsrc st' = hasSsrc st" "st_ssrc st' = st_ssrc st"
  "hasSsrc st \<Longrightarrow> \<exists>r. rep = Some r \<and> RR_Ssrc r = st_ssrc st"
  using assms by (auto simp: Report_def Let_def split: if_splits)

lemma keyed_update: "keyed m \<Longrightarrow> hasSsrc st \<Longrightarrow> st_ssrc st = k \<Longrightarrow> keyed (AList.update k st m)"
  by (auto simp: keyed_def distinct_update update_conv)

lemma report_all_keyed:
  assumes "keyed m" "set ks \<subseteq> fst ` set m" "report_all m now ks = (reps, m')"
  shows "keyed m' \<and> fst ` set m' = fst ` set m \<and> map RR_Ssrc reps = ks"
  using assms
proof (induction ks arbitrary: m reps)
  case Nil
  then show ?case by simp
next
  case (Cons k ks)
  then obtain st where st: "map_of m k = Some st" 
    by (metis list.set_intros(1) map_of_eq_None_iff not_None_eq subsetD)
  obtain rep st' where r: "Report st now = (rep, st')" by fastforce
  obtain reps' where ra: "report_all (AList.update k st' m) now ks = (reps', m')"
    using Cons.prems(3) by (auto simp: st r split: prod.splits)
  have k: "hasSsrc st" "st_ssrc st = k" using Cons.prems(1) st by (auto simp: keyed_def)
  then have "keyed (AList.update k st' m)" "fst ` set (AList.update k st' m) = fst ` set m"
    using Report_key [OF r] Cons.prems(1,2) by (auto simp: keyed_update dom_update)
  with Cons.IH [OF _ _ ra] Cons.prems(2,3) Report_key(3) [OF r k(1)] k show ?case
    by (auto simp: st r ra)
qed

definition set_inv :: "RtcpReceptionStatsSet \<Rightarrow> bool" where
  "set_inv s \<longleftrightarrow> keyed (streams s) \<and>
     (authoritative s \<longrightarrow> fst ` set (streams s) \<subseteq> set (allowedSSRCs s))"

inductive stats_set_reachable :: "RtcpReceptionStatsSet \<Rightarrow> bool" where
  "stats_set_reachable new_stats_set"
| "stats_set_reachable s \<Longrightarrow> stats_set_reachable (SetObserve s ssrc sq ts a c)"
| "stats_set_reachable s \<Longrightarrow> stats_set_reachable (SetObserveSenderReport s ssrc sec frac a)"
| "stats_set_reachable s \<Longrightarrow> stats_set_reachable (Retain s ssrcs)"
| "stats_set_reachable s \<Longrightarrow> stats_set_reachable (snd (Reports s now))"

lemma map_of_filter_keys: "map_of (filter (\<lambda>p. fst p \<in> S) m) k = (if k \<in> S then map_of m k else None)"
  by (induction m) auto

lemma Reports_keyed:
  assumes "keyed (streams s)"
  shows "keyed (streams (snd (Reports s now)))"
    and "fst ` set (streams (snd (Reports s now))) = fst ` set (streams s)"
    and "map RR_Ssrc (fst (Reports s now)) = sort (map fst (streams s))"
proof -
  obtain reps m where r: "report_all (streams s) now (sort (map fst (streams s))) = (reps, m)"
    by fastforce
  from report_all_keyed [OF assms _ r]
  show "keyed (streams (snd (Reports s now)))"
    and "fst ` set (streams (snd (Reports s now))) = fst ` set (streams s)"
    and "map RR_Ssrc (fst (Reports s now)) = sort (map fst (streams s))"
    by (simp_all add: Reports_def r)
qed

lemma set_inv_reachable: "stats_set_reachable s \<Longrightarrow> set_inv s"
proof (induction rule: stats_set_reachable.induct)
  case 1
  then show ?case by (simp add: set_inv_def new_stats_set_def keyed_def)
next
  case (2 s ssrc sq ts a c)
  then show ?case
    by (auto simp: set_inv_def SetObserve_def Let_def keyed_update dom_update)
next
  case (3 s ssrc sec frac a)
  show ?case
  proof (cases "map_of (streams s) ssrc")
    case None
    then show ?thesis using 3 by (simp add: SetObserveSenderReport_def)
  next
    case (Some st)
    then have "hasSsrc st" "st_ssrc st = ssrc" "ssrc \<in> fst ` set (streams s)"
      using 3 by (auto simp: set_inv_def keyed_def dest: map_of_SomeD intro!: image_eqI)
    then show ?thesis
      using 3 Some by (auto simp: set_inv_def SetObserveSenderReport_def keyed_update dom_update)
  qed
next
  case (4 s ssrcs)
  then show ?case
    by (auto simp: set_inv_def Retain_def keyed_def map_of_filter_keys distinct_map_filter)
next
  case (5 s now)
  then show ?case
    using Reports_keyed [of s now] by (auto simp: set_inv_def Reports_def split: prod.splits)
qed

text \<open>
  The set reports every tracked stream once. After any sequence of packets, sender reports,
  roster changes and earlier reports, a report round lists exactly the tracked streams, each once,
  in strictly ascending SSRC order, and once a roster has been set no stream outside it is tracked
  or reported.
\<close>

theorem reports_cover_roster:
  assumes "stats_set_reachable s"
  shows "set (map RR_Ssrc (fst (Reports s now))) = fst ` set (streams s) \<and>
    sorted_wrt (<) (map RR_Ssrc (fst (Reports s now))) \<and>
    (authoritative s \<longrightarrow> set (map RR_Ssrc (fst (Reports s now))) \<subseteq> set (allowedSSRCs s))"
proof -
  have k: "keyed (streams s)"
    and a: "authoritative s \<longrightarrow> fst ` set (streams s) \<subseteq> set (allowedSSRCs s)"
    using set_inv_reachable [OF assms] by (auto simp: set_inv_def)
  then have "distinct (sort (map fst (streams s)))"
    by (simp add: keyed_def)
  then have "sorted_wrt (<) (sort (map fst (streams s)))"
    by (simp add: strict_sorted_iff)
  with a show ?thesis
    unfolding Reports_keyed(3) [OF k] by simp
qed

theorem reports_cover_roster_witness:
  "map RR_Ssrc (fst (Reports (SetObserve (SetObserve (Retain new_stats_set [5, 3]) 5 1 0 0 8) 9 1 0 0 8) 0))
     = [5] \<and> sorted_wrt (<) (map RR_Ssrc (fst (Reports
       (SetObserve (SetObserve (Retain new_stats_set [5, 3]) 5 1 0 0 8) 9 1 0 0 8) 0)))"
  using reports_cover_roster [of "SetObserve (SetObserve (Retain new_stats_set [5, 3]) 5 1 0 0 8) 9 1 0 0 8" 0]
    stats_set_reachable.intros
  by (simp add: SetObserve_def Retain_def new_stats_set_def Reports_def Report_def Let_def)

end
