(* ===== verification/Varint.thy ===== *)
theory Varint
  imports Prelude
begin

text \<open>
  The varint encoding of the standard package \<open>encoding/binary\<close> (\<open>AppendUvarint\<close>, \<open>Uvarint\<close>), and an
  independent reader of the format, little-endian in base 128 with continuation bits, for the
  specifications.
\<close>

section \<open>Encoding\<close>

lemma unat_drop_bit_less: "\<not> (x :: u64) < 0x80 \<Longrightarrow> unat (drop_bit 7 x) < unat x"
  by (subst unat_drop_bit_eq) (simp add: drop_bit_eq_div word_less_nat_alt)

text \<open>\<open>binary.AppendUvarint\<close>\<close>

function uvarint :: "u64 \<Rightarrow> bytes" where
  "uvarint x = (if x < 0x80 then [ucast x] else (ucast x OR 0x80) # uvarint (drop_bit 7 x))"
  by pat_completeness auto

termination
  by (relation "measure unat") (auto intro: unat_drop_bit_less)

declare uvarint.simps [simp del]

section \<open>Reading the format\<close>

fun uvarint_read :: "bytes \<Rightarrow> (nat \<times> bytes) option" where
  "uvarint_read [] = None"
| "uvarint_read (b # bs) =
     (if b < 0x80 then Some (unat b, bs)
      else case uvarint_read bs of
        None \<Rightarrow> None
      | Some (v, rest) \<Rightarrow> Some (unat b - 128 + 128 * v, rest))"

lemma uvarint_read_length: "uvarint_read bs = Some (v, rest) \<Longrightarrow> length rest < length bs"
  by (induction bs arbitrary: v rest) (auto split: if_splits option.splits prod.splits)

lemma bit_128_nat: "bit (128 :: nat) n \<longleftrightarrow> n = 7"
  using bit_exp_iff [of 7 n, where ?'a = nat] by simp

lemma unat_or_80: "unat (ucast (x :: u64) OR 0x80 :: u8) = 128 + unat x mod 128"
proof -
  have "128 + unat x mod 128 = push_bit 7 1 OR take_bit 7 (unat x)"
    using or_push_bit_add [of "take_bit 7 (unat x)" 7 1] by (simp add: take_bit_eq_mod)
  moreover have "unat (ucast x OR 0x80 :: u8) = 0x80 OR take_bit 7 (unat x)"
    by (intro bit_eqI)
      (auto simp: bit_simps bit_128_int bit_128_nat bit_unsigned_iff)
  ultimately show ?thesis by simp
qed

lemma uvarint_read_uvarint [simp]: "uvarint_read (uvarint x @ rest) = Some (unat x, rest)"
proof (induction x rule: uvarint.induct)
  case (1 x)
  show ?case
  proof (cases "x < 0x80")
    case True
    then have "unat (ucast x :: u8) = unat x"
      by (simp add: unsigned_ucast_eq take_bit_nat_eq_self word_less_nat_alt)
    with True show ?thesis
      by (subst uvarint.simps) (simp add: word_less_nat_alt)
  next
    case False
    have "unat (drop_bit 7 x) = unat x div 128"
      by (subst unat_drop_bit_eq) (simp add: drop_bit_eq_div)
    then show ?thesis
      using False 1 [OF False]
      by (subst uvarint.simps) (simp add: unat_or_80 word_less_nat_alt)
  qed
qed

lemma uvarint_nonempty [simp]: "uvarint x \<noteq> []"
  by (subst uvarint.simps) simp

lemma uvarint_read_alone [simp]: "uvarint_read (uvarint x) = Some (unat x, [])"
  using uvarint_read_uvarint [of x "[]"] by simp

lemma length_uvarint: "length (uvarint x) \<le> 10"
proof -
  have "unat x < 2 ^ (7 * k) \<Longrightarrow> length (uvarint x) \<le> k" if "0 < k" for k x
    using that
  proof (induction k arbitrary: x rule: nat_induct_non_zero)
    case 1
    then show ?case by (subst uvarint.simps) (simp add: word_less_nat_alt)
  next
    case (Suc k)
    have "unat (drop_bit 7 x) < 2 ^ (7 * k)"
      using Suc.prems by (subst unat_drop_bit_eq)
        (simp add: drop_bit_eq_div less_mult_imp_div_less power_add mult.commute)
    then have "length (uvarint (drop_bit 7 x)) \<le> k" by (rule Suc.IH)
    then show ?case by (subst uvarint.simps) simp
  qed
  from this [of 10 x] show ?thesis
    using unsigned_less [of x, where ?'a = nat] by simp
qed

section \<open>binary.Uvarint\<close>

text \<open>The value and the number of bytes; no value for a buffer that is too short or overflows.\<close>

fun uvarint_loop :: "u64 \<Rightarrow> nat \<Rightarrow> bytes \<Rightarrow> (u64 \<times> nat) option" where
  "uvarint_loop x i [] = None"
| "uvarint_loop x i (b # bs) =
     (if i = 10 then None
      else if b < 0x80 then
        (if i = 9 \<and> b > 1 then None else Some (x OR push_bit (7 * i) (ucast b), i + 1))
      else uvarint_loop (x OR push_bit (7 * i) (ucast (b AND 0x7f))) (i + 1) bs)"

definition Uvarint :: "bytes \<Rightarrow> (u64 \<times> nat) option" where
  "Uvarint bs = uvarint_loop 0 0 bs"

lemma ucast_u8_u64: "(ucast (ucast (y :: u64) :: u8) :: u64) = take_bit 8 y"
  by (intro bit_word_eqI) (auto simp: bit_simps)

lemma low_seven: "ucast ((ucast (y :: u64) OR 0x80 :: u8) AND 0x7f) = take_bit 7 y"
proof -
  have "x AND 0x7f = take_bit 7 x" for x :: u8
    by (simp add: take_bit_eq_mask mask_eq_exp_minus_1)
  moreover have "take_bit 7 (0x80 :: u8) = 0" by simp
  ultimately have "(ucast y OR 0x80 :: u8) AND 0x7f = take_bit 7 (ucast y)"
    by (simp only: take_bit_or or.right_neutral)
  moreover have "(ucast (take_bit 7 (ucast y :: u8)) :: u64) = take_bit 7 y"
    by (intro bit_word_eqI) (auto simp: bit_simps)
  ultimately show ?thesis by simp
qed

lemma join_seven: "push_bit s (take_bit 7 y) OR push_bit (s + 7) (drop_bit 7 y) = push_bit s (y :: u64)"
proof (rule bit_word_eqI)
  fix n
  show "bit (push_bit s (take_bit 7 y) OR push_bit (s + 7) (drop_bit 7 y)) n = bit (push_bit s y) n"
    by (cases "s + 7 \<le> n") (auto simp: bit_simps)
qed

lemma uvarint_loop_uvarint:
  assumes "unat y < 2 ^ (64 - 7 * i)" and "i \<le> 9"
  shows "uvarint_loop x i (uvarint y @ rest) = Some (x OR push_bit (7 * i) y, i + length (uvarint y))"
  using assms
proof (induction y arbitrary: x i rule: uvarint.induct)
  case (1 y)
  show ?case
  proof (cases "y < 0x80")
    case True
    then have u: "unat y < 2 ^ 7" by (simp add: word_less_nat_alt)
    then have uy: "unat (ucast y :: u8) = unat y"
      by (simp add: unsigned_ucast_eq take_bit_nat_eq_self)
    have "take_bit 8 y = y" using u by (intro word_take_bit) simp
    moreover have "\<not> (i = 9 \<and> (ucast y :: u8) > 1)"
      using 1(2) uy by (auto simp: word_less_nat_alt)
    ultimately show ?thesis
      using True u uy 1(3) by (auto simp: uvarint.simps [of y] ucast_u8_u64 word_less_nat_alt)
  next
    case False
    have i: "i < 9" using 1(2,3) False by (cases "i = 9") (auto simp: word_less_nat_alt)
    have ge: "\<not> (ucast y OR 0x80 :: u8) < 0x80"
      using unat_or_80 [of y] by (simp add: word_less_nat_alt)
    have "64 - 7 * i = (64 - 7 * (i + 1)) + 7" using i by simp
    then have "(2 :: nat) ^ (64 - 7 * i) = 2 ^ (64 - 7 * (i + 1)) * 128"
      by (simp only: power_add) simp
    then have "unat y div 128 < 2 ^ (64 - 7 * (i + 1))"
      using 1(2) by (intro less_mult_imp_div_less) (simp only:)
    then have "unat (drop_bit 7 y) < 2 ^ (64 - 7 * (i + 1))"
      by (subst unat_drop_bit_eq) (simp add: drop_bit_eq_div)
    then have "uvarint_loop x' (i + 1) (uvarint (drop_bit 7 y) @ rest) =
        Some (x' OR push_bit (7 * (i + 1)) (drop_bit 7 y), i + 1 + length (uvarint (drop_bit 7 y)))" for x'
      using 1(1) [OF False] i by simp
    then show ?thesis
      using False i ge join_seven [of "7 * i" y]
      by (simp add: uvarint.simps [of y] low_seven or.assoc add.commute)
  qed
qed

lemma Uvarint_uvarint [simp]: "Uvarint (uvarint x @ rest) = Some (x, length (uvarint x))"
  using uvarint_loop_uvarint [of x 0 0 rest] unsigned_less [of x, where ?'a = nat]
  by (simp add: Uvarint_def)

end
