(* ===== verification/Stun.thy ===== *)
theory Stun
  imports Strconv Varint
begin

text \<open>
  The STUN and WARP relay framing of \<open>lib/stun/stun.go\<close>: attribute encoding with message
  integrity and fingerprint, the allocate requests with their protobuf payloads, the consent ping,
  the classifiers and the parsers. HMAC-SHA1 is the parameter \<open>hmac\<close>; CRC-32 and the varint
  encoding are the ones of the standard library. Fixed-size arrays are byte lists of that length.
\<close>

section \<open>Constants\<close>

definition stunMagic :: u32 where "stunMagic = 0x2112a442"
definition stunFingerprintXor :: u32 where "stunFingerprintXor = 0x5354554e"
definition stunXorPort :: u16 where "stunXorPort = 0x2112"
definition attrMessageIntegrity :: u16 where "attrMessageIntegrity = 0x0008"
definition attrFingerprint :: u16 where "attrFingerprint = 0x8028"
definition attrErrorCode :: u16 where "attrErrorCode = 0x0009"
definition attrRelayToken :: u16 where "attrRelayToken = 0x4000"
definition attrReceiverSubscriptions :: u16 where "attrReceiverSubscriptions = 0x4021"
definition attrStreamDescriptors :: u16 where "attrStreamDescriptors = 0x4024"
definition attrWasmRelayEndpoint :: u16 where "attrWasmRelayEndpoint = 0x0016"
definition attrSenderSubscriptionsV2 :: u16 where "attrSenderSubscriptionsV2 = 0x4025"
definition attrParticipantCount :: u16 where "attrParticipantCount = 0x805a"
definition MsgBindingSuccess :: u16 where "MsgBindingSuccess = 0x0101"
definition MsgAllocateRequest :: u16 where "MsgAllocateRequest = 0x0003"
definition MsgAllocateSuccess :: u16 where "MsgAllocateSuccess = 0x0103"
definition MsgAllocateError :: u16 where "MsgAllocateError = 0x0113"
definition MsgWhatsappPing :: u16 where "MsgWhatsappPing = 0x0801"
definition MsgWhatsappPong :: u16 where "MsgWhatsappPong = 0x0802"

definition stunXorAddr :: bytes where "stunXorAddr = [0x21, 0x12, 0xa4, 0x42]"

definition wasmStreamDescriptorsTemplate :: bytes where
  "wasmStreamDescriptorsTemplate = [
     0x0a, 0x06, 0x18, 0xca, 0xbc, 0x85, 0xae, 0x04, 0x0a, 0x08, 0x10, 0x01, 0x18, 0xa5, 0xac, 0xaf,
     0xae, 0x0a, 0x0a, 0x08, 0x10, 0x02, 0x18, 0xd6, 0xa4, 0xe6, 0xf9, 0x0f, 0x0a, 0x08, 0x08, 0x01,
     0x18, 0xf7, 0xdd, 0x9e, 0xb6, 0x0a, 0x0a, 0x0a, 0x08, 0x01, 0x10, 0x01, 0x18, 0xab, 0xcc, 0xb1,
     0xf3, 0x0d, 0x0a, 0x0a, 0x08, 0x01, 0x10, 0x02, 0x18, 0xda, 0xda, 0xef, 0x8a, 0x05, 0x0a, 0x08,
     0x08, 0x02, 0x18, 0xc5, 0xe9, 0xec, 0x8e, 0x0b, 0x0a, 0x0a, 0x08, 0x02, 0x10, 0x01, 0x18, 0xfd,
     0xc2, 0xb1, 0xb6, 0x0f, 0x0a, 0x0a, 0x08, 0x02, 0x10, 0x02, 0x18, 0xb0, 0x97, 0xf7, 0xb2, 0x09]"

section \<open>Attributes and messages\<close>

definition stun_pad4 :: "nat \<Rightarrow> nat" where
  "stun_pad4 n = (4 - n mod 4) mod 4"

definition stunAttr :: "u16 \<Rightarrow> bytes \<Rightarrow> bytes" where
  "stunAttr attrType value =
     put_be16 attrType @ put_be16 (of_nat (length value)) @ value @ replicate (stun_pad4 (length value)) 0"

text \<open>\<open>crc32.ChecksumIEEE\<close>: the reflected polynomial, bit by bit.\<close>

definition crc_bit :: "u32 \<Rightarrow> u32" where
  "crc_bit c = (if odd c then drop_bit 1 c XOR 0xedb88320 else drop_bit 1 c)"

definition stunFingerprint :: "bytes \<Rightarrow> u32" where
  "stunFingerprint buf = NOT (foldl (\<lambda>c b. (crc_bit ^^ 8) (c XOR ucast b)) 0xffffffff buf)"

definition stunPseudoHeader :: "u16 \<Rightarrow> u16 \<Rightarrow> bytes \<Rightarrow> bytes" where
  "stunPseudoHeader msgType msgLen transactionID =
     put_be16 msgType @ put_be16 msgLen @ put_be32 stunMagic @ transactionID"

text \<open>The integrity key is \<open>None\<close> for a nil slice.\<close>

definition EncodeStunRequest ::
  "(bytes \<Rightarrow> bytes \<Rightarrow> bytes) \<Rightarrow> u16 \<Rightarrow> bytes \<Rightarrow> bytes \<Rightarrow> bytes option \<Rightarrow> bool \<Rightarrow> bytes" where
  "EncodeStunRequest hmac msgType transactionID attrs integrityKey includeFingerprint =
     (let body = attrs;
          body = (case integrityKey of
              None \<Rightarrow> body
            | Some key \<Rightarrow>
                (let header = stunPseudoHeader msgType (of_nat (length body + 24)) transactionID
                 in body @ stunAttr attrMessageIntegrity (hmac key (header @ body))));
          body = (if includeFingerprint then
                (let header = stunPseudoHeader msgType (of_nat (length body + 8)) transactionID;
                     fp = stunFingerprint (header @ body) XOR stunFingerprintXor
                 in body @ stunAttr attrFingerprint (put_be32 fp))
              else body)
      in put_be16 msgType @ put_be16 (of_nat (length body)) @ put_be32 stunMagic @ transactionID @ body)"

definition CreateNativeSenderSubscription :: "u32 \<Rightarrow> bytes" where
  "CreateNativeSenderSubscription ssrc = 1 # put_be32 ssrc"

section \<open>The relay endpoint\<close>

definition endpoint_octets :: "string \<Rightarrow> bytes" where
  "endpoint_octets ipv4 =
     concat (map (\<lambda>part. case ParseUint part 8 of (n, None) \<Rightarrow> [of_nat n] | (_, Some _) \<Rightarrow> [])
       (split_on CHR ''.'' ipv4))"

definition EncodeXorRelayEndpoint :: "string \<Rightarrow> u16 \<Rightarrow> bytes option" where
  "EncodeXorRelayEndpoint ipv4 port =
     (let octets = endpoint_octets ipv4
      in if length octets \<noteq> 4 then None
         else Some (put_be16 (port XOR stunXorPort) @
                map (\<lambda>i. octets ! i XOR stunXorAddr ! i) [0..<4]))"

definition createWasmRelayEndpointAttr :: "bytes \<Rightarrow> bytes" where
  "createWasmRelayEndpointAttr endpointXor = put_be16 1 @ endpointXor"

section \<open>Protobuf payloads\<close>

definition pbTag :: "bytes \<Rightarrow> u32 \<Rightarrow> u32 \<Rightarrow> bytes" where
  "pbTag out field wire = out @ uvarint (ucast (push_bit 3 field OR wire))"

definition pbZigzag :: "u64 \<Rightarrow> u64" where
  "pbZigzag n = push_bit 1 n XOR signed_drop_bit 63 n"

definition pbLenDelim :: "bytes \<Rightarrow> u32 \<Rightarrow> bytes \<Rightarrow> bytes" where
  "pbLenDelim out field b = pbTag out field 2 @ uvarint (of_nat (length b)) @ b"

definition CreateVoipSenderSubscriptions :: "u32 \<Rightarrow> bytes" where
  "CreateVoipSenderSubscriptions ssrc =
     (let sender = pbTag [] 3 0 @ uvarint (ucast ssrc);
          sender = pbTag sender 5 0 @ uvarint 0;
          sender = pbTag sender 6 0 @ uvarint 0
      in pbLenDelim [] 1 sender)"

definition CreateApkSenderSubscriptions :: "u32 \<Rightarrow> u32 option \<Rightarrow> bytes" where
  "CreateApkSenderSubscriptions ssrc pid =
     (let ssrcLayers = pbTag [] 1 0 @ uvarint (pbZigzag (ucast ssrc));
          ssrcLayers = (case pid of
              None \<Rightarrow> ssrcLayers
            | Some i \<Rightarrow>
                (let p = pbTag [] 1 0 @ uvarint (pbZigzag (ucast i));
                     p = pbLenDelim p 2 (str_bytes ''audio'')
                 in pbLenDelim ssrcLayers 2 p));
          ext = pbLenDelim [] 1 ssrcLayers
      in pbLenDelim [] 1 ext)"

definition CreateApkStreamDescriptors :: "u32 \<Rightarrow> bytes" where
  "CreateApkStreamDescriptors ssrc =
     (let sd = pbLenDelim [] 1 (str_bytes ''audio'');
          sd = pbLenDelim sd 2 (str_bytes ''OPUS'');
          sd = pbTag sd 3 0 @ uvarint (pbZigzag (ucast ssrc));
          sd = pbTag sd 4 0 @ uvarint 0
      in pbLenDelim [] 1 sd)"

definition normalizedParticipantPIDs :: "u32 list \<Rightarrow> u32 list" where
  "normalizedParticipantPIDs participantPIDs = remdups_adj (sort participantPIDs)"

definition participant_entry :: "bool \<Rightarrow> u32 \<Rightarrow> bytes" where
  "participant_entry video pid =
     (let participant = pbTag [] 1 0 @ uvarint (ucast pid)
      in if video then pbTag participant 2 0 @ uvarint 1 else participant)"

definition createWasmSenderSubscription :: "u32 list \<Rightarrow> u32 list \<Rightarrow> bool \<Rightarrow> bytes" where
  "createWasmSenderSubscription ssrcs participantPIDs video =
     (let packedSSRCs = foldl (\<lambda>out ssrc. if ssrc \<noteq> 0 then out @ uvarint (ucast ssrc) else out) [] ssrcs;
          subscription = pbLenDelim [] 1 packedSSRCs;
          subscription = foldl (\<lambda>out pid. pbLenDelim out 2 (participant_entry video pid))
            subscription participantPIDs;
          wrapper = pbLenDelim [] 1 subscription
      in pbLenDelim [] 1 wrapper)"

definition createWasmGroupSenderSubscriptions :: "u32 list \<Rightarrow> u32 \<Rightarrow> u32 list \<Rightarrow> bytes" where
  "createWasmGroupSenderSubscriptions streamSsrcs appDataSSRC participantPIDs =
     createWasmSenderSubscription (take 3 (drop 3 streamSsrcs)) participantPIDs True
     @ createWasmSenderSubscription (take 3 (drop 6 streamSsrcs)) [] False
     @ createWasmSenderSubscription (take 3 streamSsrcs) participantPIDs False
     @ createWasmSenderSubscription [appDataSSRC] participantPIDs False"

definition createWasmGroupReceiverSubscriptions :: "u32 list \<Rightarrow> bytes" where
  "createWasmGroupReceiverSubscriptions participantPIDs =
     foldl (\<lambda>out pid. pbLenDelim out 2 (participant_entry False pid)) [] participantPIDs"

definition wasmStreamDescriptorPlan :: "(u32 \<times> u32) list" where
  "wasmStreamDescriptorPlan = [(0, 0), (0, 1), (0, 2), (1, 0), (1, 1), (1, 2), (2, 0), (2, 1), (2, 2)]"

definition descriptor_entry :: "u32 \<times> u32 \<Rightarrow> u32 \<Rightarrow> bytes" where
  "descriptor_entry plan ssrc =
     (let inner = (if fst plan \<noteq> 0 then pbTag [] 1 0 @ uvarint (ucast (fst plan)) else []);
          inner = (if snd plan \<noteq> 0 then pbTag inner 2 0 @ uvarint (ucast (snd plan)) else inner)
      in pbTag inner 3 0 @ uvarint (ucast ssrc))"

definition fec_entry :: "nat \<Rightarrow> u32 \<Rightarrow> bytes" where
  "fec_entry i ssrc =
     (let inner = pbTag [] 1 0 @ uvarint (of_nat (i + 3));
          inner = pbTag inner 2 0 @ uvarint 3
      in pbTag inner 3 0 @ uvarint (ucast ssrc))"

definition createWasmStreamDescriptorsWithHBHFEC :: "u32 list \<Rightarrow> u32 list \<Rightarrow> bytes" where
  "createWasmStreamDescriptorsWithHBHFEC ssrcs hbhFECSSRCs =
     (let out = foldl (\<lambda>out (i, ssrc). if ssrc = 0 then out
            else pbLenDelim out 1 (descriptor_entry (wasmStreamDescriptorPlan ! i) ssrc))
            [] (enumerate 0 ssrcs)
      in foldl (\<lambda>out (i, ssrc). if ssrc = 0 then out else pbLenDelim out 1 (fec_entry i ssrc))
           out (enumerate 0 hbhFECSSRCs))"

definition CreateWasmStreamDescriptors :: "u32 list \<Rightarrow> bytes" where
  "CreateWasmStreamDescriptors ssrcs = createWasmStreamDescriptorsWithHBHFEC ssrcs [0, 0]"

section \<open>Allocate requests and the consent ping\<close>

definition buildWasmStunAllocateRequest ::
  "(bytes \<Rightarrow> bytes \<Rightarrow> bytes) \<Rightarrow> bytes \<Rightarrow> bytes \<Rightarrow> bytes \<Rightarrow> bytes \<Rightarrow> bytes option \<Rightarrow> bytes" where
  "buildWasmStunAllocateRequest hmac transactionID relayToken endpointXor streamDescriptors integrityKey =
     (let attrs = stunAttr attrRelayToken relayToken;
          attrs = attrs @ stunAttr attrStreamDescriptors streamDescriptors;
          attrs = attrs @ stunAttr attrWasmRelayEndpoint (createWasmRelayEndpointAttr endpointXor)
      in EncodeStunRequest hmac MsgAllocateRequest transactionID attrs integrityKey False)"

definition BuildWasmStunAllocateRequest ::
  "(bytes \<Rightarrow> bytes \<Rightarrow> bytes) \<Rightarrow> bytes \<Rightarrow> bytes \<Rightarrow> bytes \<Rightarrow> bytes option \<Rightarrow> bytes" where
  "BuildWasmStunAllocateRequest hmac transactionID relayToken endpointXor integrityKey =
     buildWasmStunAllocateRequest hmac transactionID relayToken endpointXor wasmStreamDescriptorsTemplate
       integrityKey"

definition BuildWasmStunAllocateRequestWithStreamSsrcs ::
  "(bytes \<Rightarrow> bytes \<Rightarrow> bytes) \<Rightarrow> bytes \<Rightarrow> bytes \<Rightarrow> bytes \<Rightarrow> u32 list \<Rightarrow> bytes option \<Rightarrow> bytes" where
  "BuildWasmStunAllocateRequestWithStreamSsrcs hmac transactionID relayToken endpointXor streamSsrcs
      integrityKey =
     buildWasmStunAllocateRequest hmac transactionID relayToken endpointXor
       (CreateWasmStreamDescriptors streamSsrcs) integrityKey"

definition BuildWasmStunAllocateRequestWithGroupSubscriptionsAndHBHFEC ::
  "(bytes \<Rightarrow> bytes \<Rightarrow> bytes) \<Rightarrow> bytes \<Rightarrow> bytes \<Rightarrow> bytes \<Rightarrow> u32 list \<Rightarrow> u32 \<Rightarrow> u32 list \<Rightarrow> u32 list \<Rightarrow>
    bytes option \<Rightarrow> bytes" where
  "BuildWasmStunAllocateRequestWithGroupSubscriptionsAndHBHFEC hmac transactionID relayToken endpointXor
      streamSsrcs appDataSSRC hbhFECSSRCs participantPIDs integrityKey =
     (let pids = normalizedParticipantPIDs participantPIDs
      in if pids = [] then
           BuildWasmStunAllocateRequestWithStreamSsrcs hmac transactionID relayToken endpointXor streamSsrcs
             integrityKey
         else
           let streamDescriptors = (if length pids > 1
                 then createWasmStreamDescriptorsWithHBHFEC streamSsrcs hbhFECSSRCs
                 else CreateWasmStreamDescriptors streamSsrcs);
               attrs = stunAttr attrRelayToken relayToken;
               attrs = attrs @ stunAttr attrSenderSubscriptionsV2
                 (createWasmGroupSenderSubscriptions streamSsrcs appDataSSRC pids);
               attrs = attrs @ stunAttr attrReceiverSubscriptions
                 (createWasmGroupReceiverSubscriptions pids);
               attrs = attrs @ stunAttr attrStreamDescriptors streamDescriptors;
               attrs = attrs @ stunAttr attrParticipantCount (uvarint (of_nat (length pids)));
               attrs = attrs @ stunAttr attrWasmRelayEndpoint (createWasmRelayEndpointAttr endpointXor)
           in EncodeStunRequest hmac MsgAllocateRequest transactionID attrs integrityKey False)"

definition BuildWasmStunAllocateRequestWithGroupSubscriptions ::
  "(bytes \<Rightarrow> bytes \<Rightarrow> bytes) \<Rightarrow> bytes \<Rightarrow> bytes \<Rightarrow> bytes \<Rightarrow> u32 list \<Rightarrow> u32 \<Rightarrow> u32 list \<Rightarrow>
    bytes option \<Rightarrow> bytes" where
  "BuildWasmStunAllocateRequestWithGroupSubscriptions hmac transactionID relayToken endpointXor streamSsrcs
      appDataSSRC participantPIDs integrityKey =
     BuildWasmStunAllocateRequestWithGroupSubscriptionsAndHBHFEC hmac transactionID relayToken endpointXor
       streamSsrcs appDataSSRC [0, 0] participantPIDs integrityKey"

definition BuildAndroidStunAllocateRequest ::
  "(bytes \<Rightarrow> bytes \<Rightarrow> bytes) \<Rightarrow> bytes \<Rightarrow> bytes \<Rightarrow> u32 \<Rightarrow> u32 option \<Rightarrow> bytes option \<Rightarrow> bool \<Rightarrow> bytes" where
  "BuildAndroidStunAllocateRequest hmac transactionID relayToken ssrc pid integrityKey includeFingerprint =
     (let attrs = stunAttr attrRelayToken relayToken;
          attrs = attrs @ stunAttr attrSenderSubscriptionsV2 (CreateApkSenderSubscriptions ssrc pid);
          attrs = attrs @ stunAttr attrStreamDescriptors (CreateApkStreamDescriptors ssrc)
      in EncodeStunRequest hmac MsgAllocateRequest transactionID attrs integrityKey includeFingerprint)"

definition BuildWhatsappPing :: "bytes \<Rightarrow> bytes" where
  "BuildWhatsappPing transactionID =
     put_be16 MsgWhatsappPing @ [0, 0] @ put_be32 stunMagic @ transactionID"

section \<open>Classification and parsing\<close>

definition IsStunPacket :: "bytes \<Rightarrow> bool" where
  "IsStunPacket d \<longleftrightarrow> length d \<ge> 2 \<and> d ! 0 AND 0xc0 = 0"

definition StunMessageType :: "bytes \<Rightarrow> u16 option" where
  "StunMessageType d =
     (if length d < 2 then None else Some (push_bit 8 (ucast (d ! 0 AND 0x3f)) OR ucast (d ! 1)))"

definition StunTransactionID :: "bytes \<Rightarrow> bytes option" where
  "StunTransactionID d = (if length d < 20 then None else Some (take 12 (drop 8 d)))"

definition IsAllocateOrBindingSuccess :: "bytes \<Rightarrow> bool" where
  "IsAllocateOrBindingSuccess d \<longleftrightarrow>
     (if \<not> IsStunPacket d \<or> length d < 20 then False
      else case StunMessageType d of
        None \<Rightarrow> False
      | Some mt \<Rightarrow> mt = MsgAllocateSuccess \<or> mt = MsgBindingSuccess)"

definition IsAllocateError :: "bytes \<Rightarrow> bool" where
  "IsAllocateError d \<longleftrightarrow>
     (if \<not> IsStunPacket d then False
      else case StunMessageType d of None \<Rightarrow> False | Some mt \<Rightarrow> mt = MsgAllocateError)"

definition IsWhatsappPong :: "bytes \<Rightarrow> bytes \<Rightarrow> bool" where
  "IsWhatsappPong d transactionID \<longleftrightarrow>
     (if \<not> IsStunPacket d then False
      else case StunMessageType d of
        None \<Rightarrow> False
      | Some mt \<Rightarrow>
          if mt \<noteq> MsgWhatsappPong then False
          else if transactionID = [] then True
          else (case StunTransactionID d of None \<Rightarrow> False | Some tx \<Rightarrow> tx = transactionID))"

text \<open>The argument of the loops is the rest of the packet, from \<open>off\<close> on.\<close>

function parse_attrs :: "bytes \<Rightarrow> (u16 \<times> bytes) list" where
  "parse_attrs d =
     (if 4 \<le> length d then
        (let attrType = push_bit 8 (ucast (d ! 0)) OR ucast (d ! 1);
             len = push_bit 8 (unat (d ! 2)) OR unat (d ! 3);
             d = drop 4 d
         in if len > length d then []
            else (attrType, take len d) # parse_attrs (drop (len + stun_pad4 len) d))
      else [])"
  by pat_completeness auto

termination
  by (relation "measure length") auto

declare parse_attrs.simps [simp del]

definition ParseStunAttributes :: "bytes \<Rightarrow> (u16 \<times> bytes) list" where
  "ParseStunAttributes d =
     (if \<not> IsStunPacket d \<or> length d < 20 then [] else parse_attrs (drop 20 d))"

function error_code_loop :: "bytes \<Rightarrow> nat \<Rightarrow> nat \<Rightarrow> u16 option" where
  "error_code_loop d end off =
     (if off + 4 \<le> end then
        (let attrType = push_bit 8 (ucast (d ! off)) OR ucast (d ! (off + 1)) :: u16;
             len = push_bit 8 (unat (d ! (off + 2))) OR unat (d ! (off + 3))
         in if attrType = attrErrorCode \<and> len \<ge> 4 \<and> off + 8 \<le> length d then
              Some (ucast (d ! (off + 6)) * 100 + ucast (d ! (off + 7)))
            else error_code_loop d end (off + 4 + len + stun_pad4 len))
      else None)"
  by pat_completeness auto

termination
  by (relation "measure (\<lambda>(d, end, off). end - off)") auto

declare error_code_loop.simps [simp del]

definition ParseStunErrorCode :: "bytes \<Rightarrow> u16 option" where
  "ParseStunErrorCode d =
     (if length d < 20 then None
      else case StunMessageType d of
        None \<Rightarrow> None
      | Some t \<Rightarrow>
          if t \<noteq> MsgAllocateError \<and> t \<noteq> 0x0111 then None
          else let bodyLen = push_bit 8 (unat (d ! 2)) OR unat (d ! 3)
               in error_code_loop d (min (20 + bodyLen) (length d)) 20)"

section \<open>Attributes round trip\<close>

lemma bit_c0: "bit (0xc0 :: int) n \<longleftrightarrow> n = 6 \<or> n = 7"
proof -
  have "(0xc0 :: int) = push_bit 6 3" by simp
  then show ?thesis
    by (simp add: bit_push_bit_iff bit_numeral_rec bit_1_iff split: nat.splits)
qed

lemma bit_3f: "bit (0x3f :: int) n \<longleftrightarrow> n < 6"
  using bit_mask_iff [of 6 n, where ?'a = int] by (simp add: mask_eq_exp_minus_1)

lemma header_bits:
  fixes msgType :: u16
  assumes "msgType < 0x4000"
  shows "(ucast (drop_bit 8 msgType) :: u8) AND 0xc0 = 0"
    and "(ucast (drop_bit 8 msgType) :: u8) AND 0x3f = ucast (drop_bit 8 msgType)"
proof -
  have "take_bit 14 msgType = msgType"
    using assms by (intro word_take_bit) (simp add: word_less_nat_alt)
  then have b: "bit msgType n \<Longrightarrow> n < 14" for n
    by (metis bit_take_bit_iff)
  show "(ucast (drop_bit 8 msgType) :: u8) AND 0xc0 = 0"
    by (rule bit_word_eqI) (auto simp: bit_simps bit_c0 dest!: b)
  show "(ucast (drop_bit 8 msgType) :: u8) AND 0x3f = ucast (drop_bit 8 msgType)"
    by (rule bit_word_eqI) (auto simp: bit_simps bit_3f dest: b)
qed

lemma parse_attrs_short: "length d < 4 \<Longrightarrow> parse_attrs d = []"
  by (subst parse_attrs.simps) simp

lemma parse_attrs_stunAttr:
  assumes "length v < 65536"
  shows "parse_attrs (stunAttr t v @ rest) = (t, v) # parse_attrs rest"
  using assms
  by (subst parse_attrs.simps)
    (simp add: stunAttr_def put_be16_def Let_def be16_nat be16_def [symmetric] unat_of_nat_u16)

definition encode_attrs :: "(u16 \<times> bytes) list \<Rightarrow> bytes" where
  "encode_attrs as = concat (map (\<lambda>(t, v). stunAttr t v) as)"

lemma encode_attrs_simps [simp]:
  "encode_attrs [] = []"
  "encode_attrs ((t, v) # as) = stunAttr t v @ encode_attrs as"
  "encode_attrs (as @ bs) = encode_attrs as @ encode_attrs bs"
  by (simp_all add: encode_attrs_def)

definition attrs_fit :: "(u16 \<times> bytes) list \<Rightarrow> bool" where
  "attrs_fit as \<longleftrightarrow> (\<forall>(t, v) \<in> set as. length v < 65536)"

lemma parse_attrs_encode: "attrs_fit as \<Longrightarrow> parse_attrs (encode_attrs as) = as"
  by (induction as) (auto simp: attrs_fit_def parse_attrs_short parse_attrs_stunAttr)

text \<open>The attributes that a request carries: the given ones, then integrity and fingerprint.\<close>

definition with_integrity ::
  "(bytes \<Rightarrow> bytes \<Rightarrow> bytes) \<Rightarrow> u16 \<Rightarrow> bytes \<Rightarrow> (u16 \<times> bytes) list \<Rightarrow> bytes option \<Rightarrow> (u16 \<times> bytes) list" where
  "with_integrity hmac msgType tid as key =
     (case key of
        None \<Rightarrow> as
      | Some k \<Rightarrow> as @ [(attrMessageIntegrity,
          hmac k (stunPseudoHeader msgType (of_nat (length (encode_attrs as) + 24)) tid @ encode_attrs as))])"

definition with_fingerprint :: "u16 \<Rightarrow> bytes \<Rightarrow> (u16 \<times> bytes) list \<Rightarrow> bool \<Rightarrow> (u16 \<times> bytes) list" where
  "with_fingerprint msgType tid as fp =
     (if fp then as @ [(attrFingerprint, put_be32 (stunFingerprint
        (stunPseudoHeader msgType (of_nat (length (encode_attrs as) + 8)) tid @ encode_attrs as)
          XOR stunFingerprintXor))] else as)"

definition request_attrs where
  "request_attrs hmac msgType tid as key fp =
     with_fingerprint msgType tid (with_integrity hmac msgType tid as key) fp"

lemma EncodeStunRequest_attrs:
  "EncodeStunRequest hmac msgType tid (encode_attrs as) key fp =
     stunPseudoHeader msgType (of_nat (length (encode_attrs (request_attrs hmac msgType tid as key fp)))) tid
     @ encode_attrs (request_attrs hmac msgType tid as key fp)"
  by (simp add: EncodeStunRequest_def request_attrs_def with_integrity_def with_fingerprint_def
      stunPseudoHeader_def Let_def split: option.splits)

lemma request_attrs_fit:
  assumes "attrs_fit as" and "\<And>k m. length (hmac k m) = 20"
  shows "attrs_fit (request_attrs hmac msgType tid as key fp)"
  using assms by (auto simp: attrs_fit_def request_attrs_def with_integrity_def with_fingerprint_def
      split: option.splits)

lemma parse_request:
  assumes "attrs_fit as" and "\<And>k m. length (hmac k m) = 20" and "msgType < 0x4000" and "length tid = 12"
  shows "ParseStunAttributes (EncodeStunRequest hmac msgType tid (encode_attrs as) key fp) =
    request_attrs hmac msgType tid as key fp"
  using header_bits [OF assms(3)] assms(4) parse_attrs_encode [OF request_attrs_fit [OF assms(1,2)]]
  by (simp add: EncodeStunRequest_attrs stunPseudoHeader_def put_be16_def put_be32_def
      IsStunPacket_def ParseStunAttributes_def)

text \<open>
  C25: Requests are self-describing. For any message type of the STUN range, any twelve-byte
  transaction id and any attributes whose values fit a length field, the parser reads from the
  encoded request the message type, the transaction id, and exactly the given attributes followed
  by the integrity attribute (the HMAC over the header that already counts it) and the
  fingerprint, in this order.
\<close>

theorem stun_request_roundtrip:
  assumes "attrs_fit as" and "\<And>k m. length (hmac k m) = 20"
    and "msgType < 0x4000" and "length tid = 12"
    and "packet = EncodeStunRequest hmac msgType tid (encode_attrs as) key fp"
  shows "IsStunPacket packet \<and> StunMessageType packet = Some msgType \<and>
    StunTransactionID packet = Some tid \<and>
    ParseStunAttributes packet = request_attrs hmac msgType tid as key fp"
  using header_bits [OF assms(3)] assms(4) parse_request [OF assms(1-4)] be16_put [of msgType]
  unfolding assms(5)
  by (simp add: EncodeStunRequest_attrs stunPseudoHeader_def put_be16_def put_be32_def
      IsStunPacket_def StunMessageType_def StunTransactionID_def be16_def [symmetric])

theorem stun_request_roundtrip_witness:
  "ParseStunAttributes (EncodeStunRequest (\<lambda>k m. replicate 20 7) MsgAllocateRequest (replicate 12 1)
      (encode_attrs [(attrRelayToken, [1, 2, 3])]) (Some [9]) False) =
    [(attrRelayToken, [1, 2, 3]), (attrMessageIntegrity, replicate 20 7)]"
  using stun_request_roundtrip [of "[(attrRelayToken, [1, 2, 3])]" "\<lambda>k m. replicate 20 7" MsgAllocateRequest
      "replicate 12 1" _ "Some [9]" False]
  by (simp add: attrs_fit_def MsgAllocateRequest_def request_attrs_def with_integrity_def with_fingerprint_def
      del: replicate.simps)

section \<open>Error responses\<close>

lemma attr_head:
  assumes "drop off d = stunAttr t v @ rest" and "length v < 65536"
  shows "push_bit 8 (ucast (d ! off)) OR ucast (d ! (off + 1)) = t"
    and "push_bit 8 (unat (d ! (off + 2))) OR unat (d ! (off + 3)) = length v"
    and "i < length v \<Longrightarrow> d ! (off + 4 + i) = v ! i"
proof -
  have "off \<le> length d"
    using assms(1) by (cases "off \<le> length d") (auto simp: stunAttr_def put_be16_def)
  then have nth: "d ! (off + i) = (stunAttr t v @ rest) ! i" for i
    by (simp add: assms(1) [symmetric])
  show "push_bit 8 (ucast (d ! off)) OR ucast (d ! (off + 1)) = t"
    using nth [of 0] nth [of 1]
    by (simp add: stunAttr_def put_be16_def be16_def [symmetric])
  show "push_bit 8 (unat (d ! (off + 2))) OR unat (d ! (off + 3)) = length v"
    using assms(2) unfolding nth
    by (simp add: stunAttr_def put_be16_def be16_nat unat_of_nat_u16)
  show "d ! (off + 4 + i) = v ! i" if "i < length v"
    using that unfolding add.assoc nth by (simp add: stunAttr_def put_be16_def nth_append)
qed

lemma error_code_loop_found:
  assumes "off + 8 \<le> end" and "end \<le> length d"
    and "drop off d = stunAttr attrErrorCode (r0 # r1 # c # n # reason) @ rest"
    and "length reason < 65532"
  shows "error_code_loop d end off = Some (ucast c * 100 + ucast n)"
proof -
  note h = attr_head [OF assms(3)]
  have "d ! (off + 6) = c" "d ! (off + 7) = n"
    using h(3) [of 2] h(3) [of 3] assms(4) by (simp_all add: add.assoc add.commute)
  then show ?thesis
    using assms h(1,2) unfolding error_code_loop.simps [of d "end" off] by (simp add: Let_def)
qed

lemma error_code_loop_skip:
  assumes "drop off d = stunAttr t v @ rest" and "t \<noteq> attrErrorCode" and "length v < 65536"
    and "off + 4 \<le> end"
  shows "error_code_loop d end off = error_code_loop d end (off + (4 + length v + stun_pad4 (length v)))"
  using attr_head(1,2) [OF assms(1,3)] assms(2,4) unfolding error_code_loop.simps [of d "end" off]
  by (simp add: Let_def add.assoc)

lemma length_stunAttr: "length (stunAttr t v) = 4 + length v + stun_pad4 (length v)"
  by (simp add: stunAttr_def)

lemma error_code_loop_attrs:
  assumes "drop off d = encode_attrs as @ stunAttr attrErrorCode (r0 # r1 # c # n # reason) @ rest"
    and "attrs_fit as" and "attrErrorCode \<notin> fst ` set as" and "length reason < 65532"
    and "off + length (encode_attrs as) + 8 \<le> end" and "end \<le> length d"
  shows "error_code_loop d end off = Some (ucast c * 100 + ucast n)"
  using assms
proof (induction as arbitrary: off)
  case Nil
  then show ?case by (simp add: error_code_loop_found)
next
  case (Cons a as)
  obtain t v where a: "a = (t, v)" by fastforce
  have "drop (off + length (stunAttr t v)) d = drop (length (stunAttr t v)) (drop off d)"
    by (simp add: add.commute)
  then have "drop (off + length (stunAttr t v)) d =
      encode_attrs as @ stunAttr attrErrorCode (r0 # r1 # c # n # reason) @ rest"
    by (simp add: Cons.prems(1) a)
  with Cons.IH Cons.prems have "error_code_loop d end (off + length (stunAttr t v)) =
      Some (ucast c * 100 + ucast n)"
    by (simp add: a attrs_fit_def add.assoc)
  moreover have "error_code_loop d end off = error_code_loop d end (off + length (stunAttr t v))"
    using Cons.prems unfolding length_stunAttr by (intro error_code_loop_skip [of _ _ _ _
      "encode_attrs as @ stunAttr attrErrorCode (r0 # r1 # c # n # reason) @ rest"])
      (auto simp: a attrs_fit_def length_stunAttr)
  ultimately show ?case by simp
qed

text \<open>
  The error code is found. In an allocate error or binding error response whose declared
  length fits, the parser returns class times hundred plus number of the first error-code
  attribute, whatever attributes precede or follow it.
\<close>

theorem stun_error_code_found:
  assumes "attrs_fit as" and "attrErrorCode \<notin> fst ` set as" and "length reason < 65532"
    and "msgType = MsgAllocateError \<or> msgType = 0x0111" and "length tid = 12"
    and "body = encode_attrs as @ stunAttr attrErrorCode (r0 # r1 # class # number # reason) @ rest"
    and "length body < 65536"
  shows "ParseStunErrorCode (stunPseudoHeader msgType (of_nat (length body)) tid @ body) =
    Some (ucast class * 100 + ucast number)"
proof -
  let ?d = "stunPseudoHeader msgType (of_nat (length body)) tid @ body"
  have lt: "msgType < 0x4000"
    using assms(4) by (auto simp: MsgAllocateError_def)
  have len: "length ?d = 20 + length body"
    using assms(5) by (simp add: stunPseudoHeader_def)
  have ty: "StunMessageType ?d = Some msgType"
    using header_bits [OF lt] be16_put [of msgType]
    by (simp add: StunMessageType_def stunPseudoHeader_def put_be16_def be16_def [symmetric])
  have bl: "push_bit 8 (unat (?d ! 2)) OR unat (?d ! 3) = length body"
    using assms(7) by (simp add: stunPseudoHeader_def put_be16_def be16_nat unat_of_nat_u16)
  have "drop 20 ?d = body"
    using assms(5) by (simp add: stunPseudoHeader_def)
  with assms(1-3,6) len have "error_code_loop ?d (20 + length body) 20 = Some (ucast class * 100 + ucast number)"
    by (intro error_code_loop_attrs [of _ _ as r0 r1 _ _ reason rest]) (simp_all add: length_stunAttr)
  then show ?thesis
    using assms(4) unfolding ParseStunErrorCode_def len ty bl by (auto simp: Let_def)
qed

theorem stun_error_code_found_witness:
  "ParseStunErrorCode (stunPseudoHeader MsgAllocateError 16 (replicate 12 0) @
     stunAttr attrParticipantCount [2] @ stunAttr attrErrorCode [0, 0, 4, 86]) = Some 486"
  using stun_error_code_found [of "[(attrParticipantCount, [2])]" "[]" MsgAllocateError "replicate 12 0"
      "stunAttr attrParticipantCount [2] @ stunAttr attrErrorCode [0, 0, 4, 86]" 0 0 4 86 "[]"]
  by (simp add: attrs_fit_def attrParticipantCount_def attrErrorCode_def length_stunAttr stun_pad4_def
      del: replicate.simps)

section \<open>The relay endpoint\<close>

definition dotted :: "nat \<Rightarrow> nat \<Rightarrow> nat \<Rightarrow> nat \<Rightarrow> string" where
  "dotted a b c d = FormatNat a @ ''.'' @ FormatNat b @ ''.'' @ FormatNat c @ ''.'' @ FormatNat d"

lemma dot_notin_FormatNat [simp]: "CHR ''.'' \<notin> set (FormatNat n)"
  using FormatNat_digits [of "CHR ''.''" n] by (auto simp: is_digit_def)

lemma endpoint_octets_dotted:
  assumes "a < 256" "b < 256" "c < 256" "d < 256"
  shows "endpoint_octets (dotted a b c d) = [of_nat a, of_nat b, of_nat c, of_nat d]"
  using assms by (simp add: endpoint_octets_def dotted_def split_on_append split_on_none)

lemma xor_cancel_right: "(x XOR m) XOR m = (x :: 'a::len word)"
  by (simp add: xor.assoc)

text \<open>A peer recovers address and port by applying the same masks.\<close>

definition decode_endpoint :: "bytes \<Rightarrow> nat list \<times> u16" where
  "decode_endpoint e =
     (map (\<lambda>i. unat (e ! (2 + i) XOR stunXorAddr ! i)) [0..<4], be16 (e ! 0) (e ! 1) XOR stunXorPort)"

text \<open>
  A relay address in dotted form is encoded to six bytes from which the peer recovers exactly
  its four octets and the port.
\<close>

theorem relay_endpoint_roundtrip:
  assumes "a < 256" "b < 256" "c < 256" "d < 256"
  shows "\<exists>e. EncodeXorRelayEndpoint (dotted a b c d) port = Some e \<and> length e = 6 \<and>
    decode_endpoint e = ([a, b, c, d], port)"
proof -
  have u: "[0..<4] = [0, 1, 2, 3 :: nat]" by (simp add: upt_rec)
  have o4: "unat (of_nat n :: u8) = n" if "n < 256" for n
    using that by (simp add: unat_of_nat take_bit_nat_eq_self)
  show ?thesis
    using assms be16_put [of "port XOR stunXorPort"]
    by (simp add: EncodeXorRelayEndpoint_def endpoint_octets_dotted decode_endpoint_def
        put_be16_def u xor_cancel_right o4)
qed

theorem relay_endpoint_roundtrip_witness:
  "\<exists>e. EncodeXorRelayEndpoint (dotted 157 240 1 2) 3478 = Some e \<and> decode_endpoint e = ([157, 240, 1, 2], 3478)"
  using relay_endpoint_roundtrip [of 157 240 1 2 3478] by auto

text \<open>
  Parts of an address that are not octets are skipped, not rejected: with such a part inserted
  anywhere the address is still accepted and gives the same endpoint, although the function is
  documented to accept exactly four dotted octets.
\<close>

theorem relay_endpoint_skips_junk:
  assumes "CHR ''.'' \<notin> set junk" and "snd (ParseUint junk 8) \<noteq> None"
  shows "EncodeXorRelayEndpoint (junk @ ''.'' @ ipv4) port = EncodeXorRelayEndpoint ipv4 port"
proof -
  have "endpoint_octets (junk @ ''.'' @ ipv4) = endpoint_octets ipv4"
    using assms by (auto simp: endpoint_octets_def split_on_append split: prod.splits option.splits)
  then show ?thesis by (simp add: EncodeXorRelayEndpoint_def)
qed

theorem relay_endpoint_skips_junk_witness:
  "EncodeXorRelayEndpoint ''999.1.2.3.4'' 80 = EncodeXorRelayEndpoint ''1.2.3.4'' 80"
proof -
  have "snd (ParseUint ''999'' 8) \<noteq> None" by code_simp
  with relay_endpoint_skips_junk [of "''999''" "''1.2.3.4''" 80] show ?thesis by simp
qed

section \<open>A reference reader for the payloads\<close>

text \<open>
  The protobuf wire format, read independently of the code: a message is a sequence of tagged
  varint and length-delimited fields.
\<close>

datatype pb_value = Varint nat | Delimited bytes

function pb_parse :: "bytes \<Rightarrow> (nat \<times> pb_value) list option" where
  "pb_parse bs =
     (if bs = [] then Some []
      else case uvarint_read bs of
        None \<Rightarrow> None
      | Some (tag, rest) \<Rightarrow>
          (case uvarint_read rest of
             None \<Rightarrow> None
           | Some (v, rest) \<Rightarrow>
               if tag mod 8 = 0 then map_option ((#) (tag div 8, Varint v)) (pb_parse rest)
               else if tag mod 8 = 2 \<and> v \<le> length rest then
                 map_option ((#) (tag div 8, Delimited (take v rest))) (pb_parse (drop v rest))
               else None))"
  by pat_completeness auto

termination
  by (relation "measure length") (auto dest!: uvarint_read_length)

declare pb_parse.simps [simp del]

lemma unat_tag:
  assumes "unat f < 2 ^ 29" and "unat w < 8"
  shows "unat (ucast (push_bit 3 (f :: u32) OR w) :: u64) = 8 * unat f + unat w"
proof -
  have "unat (push_bit 3 f) = push_bit 3 (unat f)"
    using assms(1) by (subst unsigned_push_bit_eq) (simp add: take_bit_nat_eq_self push_bit_eq_mult)
  then have "unat (push_bit 3 f OR w) = 8 * unat f + unat w"
    using assms or_push_bit_add [of "unat w" 3 "unat f"]
    by (simp only: unsigned_or_eq) simp
  then show ?thesis
    using assms by (simp add: unsigned_ucast_eq take_bit_nat_eq_self)
qed

lemma pb_parse_Nil [simp]: "pb_parse [] = Some []"
  by (simp add: pb_parse.simps)

lemma pb_parse_varint [simp]:
  assumes "unat f < 2 ^ 29"
  shows "pb_parse (pbTag [] f 0 @ uvarint v @ rest) =
    map_option ((#) (unat f, Varint (unat v))) (pb_parse rest)"
  using unat_tag [of f 0] assms
  by (subst pb_parse.simps) (simp add: pbTag_def)

lemma pb_parse_delimited [simp]:
  assumes "unat f < 2 ^ 29" and "length b < 2 ^ 64"
  shows "pb_parse (pbLenDelim [] f b @ rest) =
    map_option ((#) (unat f, Delimited b)) (pb_parse rest)"
proof -
  have "(8 * n + 2) mod 8 = 2" "(8 * n + 2) div 8 = n" for n :: nat
    by presburger+
  then show ?thesis
    using unat_tag [of f 2] assms
    by (subst pb_parse.simps) (simp add: pbTag_def pbLenDelim_def unat_of_nat take_bit_nat_eq_self
      del: add_2_eq_Suc')
qed

lemmas pb_parse_last [simp] = pb_parse_varint [where rest = "[]", simplified]
  pb_parse_delimited [where rest = "[]", simplified]

lemma pb_append:
  "NO_MATCH [] out \<Longrightarrow> pbTag out f w = out @ pbTag [] f w"
  "NO_MATCH [] out \<Longrightarrow> pbLenDelim out f b = out @ pbLenDelim [] f b"
  by (simp_all add: pbTag_def pbLenDelim_def)

text \<open>Readers for stream descriptors and subscriptions, with protobuf's default zero.\<close>

definition pb_int :: "(nat \<times> pb_value) list \<Rightarrow> nat \<Rightarrow> nat" where
  "pb_int fs f = (case map_of fs f of Some (Varint v) \<Rightarrow> v | _ \<Rightarrow> 0)"

definition those_of :: "nat \<Rightarrow> (nat \<times> pb_value) list \<Rightarrow> bytes list" where
  "those_of f fs = concat (map (\<lambda>(g, v). case v of Delimited b \<Rightarrow> if g = f then [b] else [] | _ \<Rightarrow> []) fs)"

definition read_descriptor :: "bytes \<Rightarrow> (nat \<times> nat \<times> nat) option" where
  "read_descriptor b = map_option (\<lambda>fs. (pb_int fs 1, pb_int fs 2, pb_int fs 3)) (pb_parse b)"

definition read_descriptors :: "bytes \<Rightarrow> (nat \<times> nat \<times> nat) option list option" where
  "read_descriptors b = map_option (\<lambda>fs. map read_descriptor (those_of 1 fs)) (pb_parse b)"

lemma foldl_delimited:
  "foldl (\<lambda>out x. if P x then out else pbLenDelim out f (g x)) out xs =
     out @ concat (map (pbLenDelim [] f) (map g (filter (\<lambda>x. \<not> P x) xs)))"
  by (induction xs arbitrary: out) (auto simp: pb_append)

lemma pb_parse_payloads:
  assumes "unat f < 2 ^ 29" and "\<forall>b \<in> set bs. length b < 2 ^ 64"
  shows "pb_parse (concat (map (pbLenDelim [] f) bs) @ rest) =
    map_option ((@) (map (\<lambda>b. (unat f, Delimited b)) bs)) (pb_parse rest)"
  using assms(2)
proof (induction bs)
  case Nil
  then show ?case by (simp add: option.map_ident)
next
  case (Cons b bs)
  then show ?case using assms(1) by (simp add: option.map_comp comp_def)
qed

lemma unat_ucast_u32 [simp]: "unat (ucast (x :: u32) :: u64) = unat x"
proof -
  have "unat x < 2 ^ 64"
    using unsigned_less [of x, where ?'a = nat] by simp
  then show ?thesis by (simp add: unsigned_ucast_eq take_bit_nat_eq_self)
qed

lemma read_descriptor_entry:
  "read_descriptor (descriptor_entry plan s) = Some (unat (fst plan), unat (snd plan), unat s)"
  by (simp add: read_descriptor_def descriptor_entry_def Let_def pb_append pb_int_def)

lemma read_fec_entry: "i < 2 \<Longrightarrow> read_descriptor (fec_entry i s) = Some (i + 3, 3, unat s)"
  by (auto simp: read_descriptor_def fec_entry_def Let_def pb_append pb_int_def less_2_cases_iff)

lemma length_pbTag: "length (pbTag out f w) \<le> length out + 10"
  by (simp add: pbTag_def length_uvarint)

lemma length_pbField: "length (pbTag out f w @ uvarint x) \<le> length out + 20"
  using length_pbTag [of out f w] length_uvarint [of x] by simp

lemma length_entries:
  "length (descriptor_entry plan s) \<le> 60" "length (fec_entry i s) \<le> 60"
  "length (participant_entry v pid) \<le> 40"
proof -
  note b = length_pbField length_pbField [THEN order_trans]
  show "length (descriptor_entry plan s) \<le> 60"
    unfolding descriptor_entry_def Let_def
    by (rule b, cases "fst plan = 0"; cases "snd plan = 0") (auto intro!: b simp del: length_append)
  show "length (fec_entry i s) \<le> 60" "length (participant_entry v pid) \<le> 40"
    unfolding fec_entry_def participant_entry_def Let_def
    by (auto intro!: b simp del: length_append)
qed

lemma zip_enumerate:
  "length ys = length xs \<Longrightarrow> zip ys xs = map (\<lambda>(i, x). (ys ! i, x)) (enumerate 0 xs)"
  by (rule nth_equalityI) (simp_all add: nth_enumerate_eq)

lemma those_of_simps [simp]:
  "those_of f [] = []"
  "those_of f (fs @ gs) = those_of f fs @ those_of f gs"
  "those_of f (map (\<lambda>b. (g, Delimited b)) bs) = (if f = g then bs else [])"
  "those_of f ((g, Delimited b) # fs) = (if f = g then b # those_of f fs else those_of f fs)"
  by (induction bs) (simp_all add: those_of_def)

lemma short_entries: "length b \<le> 60 \<Longrightarrow> length b < 18446744073709551616"
  by simp

lemma descriptors_payloads:
  assumes "bs = map (\<lambda>x. descriptor_entry (wasmStreamDescriptorPlan ! fst x) (snd x))
        (filter (\<lambda>x. \<not> snd x = 0) (enumerate 0 ssrcs)) @
      map (\<lambda>x. fec_entry (fst x) (snd x)) (filter (\<lambda>x. \<not> snd x = 0) (enumerate 0 fec))"
  shows "createWasmStreamDescriptorsWithHBHFEC ssrcs fec = concat (map (pbLenDelim [] 1) bs)"
    and "\<forall>b \<in> set bs. length b \<le> 60" and "length bs \<le> length ssrcs + length fec"
proof -
  show "createWasmStreamDescriptorsWithHBHFEC ssrcs fec = concat (map (pbLenDelim [] 1) bs)"
    by (simp add: assms createWasmStreamDescriptorsWithHBHFEC_def case_prod_unfold foldl_delimited)
  show "\<forall>b \<in> set bs. length b \<le> 60"
    by (auto simp: assms intro!: length_entries simp del: split_paired_All)
  have "length (filter P (enumerate 0 xs)) \<le> length xs" for P and xs :: "u32 list"
    using length_filter_le [of P "enumerate 0 xs"] by simp
  then show "length bs \<le> length ssrcs + length fec"
    by (simp add: assms add_mono)
qed

text \<open>
  Stream descriptors carry every stream. A protobuf reader of the descriptors of a call finds
  one entry for each stream with a nonzero SSRC, in order, with the participant and layer of its
  slot in the plan, then one for each hop-by-hop FEC stream (participants 3 and 4, layer 3).
\<close>

theorem stream_descriptors_readable:
  assumes "length ssrcs = 9" and "length fec = 2"
  shows "read_descriptors (createWasmStreamDescriptorsWithHBHFEC ssrcs fec) = Some (map Some (
    map (\<lambda>(plan, s). (unat (fst plan), unat (snd plan), unat s))
      (filter (\<lambda>(plan, s). s \<noteq> 0) (zip wasmStreamDescriptorPlan ssrcs)) @
    map (\<lambda>(p, s). (p, 3, unat s)) (filter (\<lambda>(p, s). s \<noteq> 0) (zip [3, 4] fec))))"
proof -
  let ?A = "filter (\<lambda>x. \<not> snd x = 0) (enumerate 0 ssrcs)" and ?B = "filter (\<lambda>x. \<not> snd x = 0) (enumerate 0 fec)"
  let ?a = "\<lambda>x. descriptor_entry (wasmStreamDescriptorPlan ! fst x) (snd x)"
  let ?b = "\<lambda>x. fec_entry (fst x) (snd x)"
  let ?bs = "map ?a ?A @ map ?b ?B"
  note p = descriptors_payloads [OF refl, of ssrcs fec]
  have "\<forall>b \<in> set ?bs. length b < 2 ^ 64"
    using p(2) by (auto intro: short_entries simp del: split_paired_All)
  then have "read_descriptors (createWasmStreamDescriptorsWithHBHFEC ssrcs fec) =
      Some (map read_descriptor ?bs)"
    unfolding p(1) using pb_parse_payloads [of 1 ?bs "[]"] by (simp add: read_descriptors_def del: map_append)
  also have "map read_descriptor ?bs =
      map (\<lambda>x. Some (unat (fst (wasmStreamDescriptorPlan ! fst x)),
        unat (snd (wasmStreamDescriptorPlan ! fst x)), unat (snd x))) ?A @
      map (\<lambda>x. Some (fst x + 3, 3, unat (snd x))) ?B"
    using assms(2) by (auto simp: read_descriptor_entry enumerate_eq_zip read_fec_entry dest!: set_zip_leftD)
  moreover have "i + 3 = [3, 4] ! i" if "(i, s) \<in> set (enumerate 0 fec)" for i s
    using that assms(2) by (auto simp: enumerate_eq_zip less_2_cases_iff dest!: set_zip_leftD)
  moreover have "length wasmStreamDescriptorPlan = 9"
    by (simp add: wasmStreamDescriptorPlan_def)
  ultimately show ?thesis
    using assms by (simp add: zip_enumerate filter_map comp_def case_prod_unfold) blast
qed

theorem stream_descriptors_readable_witness:
  "read_descriptors (createWasmStreamDescriptorsWithHBHFEC [7, 0, 0, 0, 300, 0, 0, 0, 0] [0, 9]) =
     Some [Some (0, 0, 7), Some (1, 1, 300), Some (4, 3, 9)]"
  using stream_descriptors_readable [of "[7, 0, 0, 0, 300, 0, 0, 0, 0]" "[0, 9]"]
  by (simp add: wasmStreamDescriptorPlan_def)

function uvarints :: "bytes \<Rightarrow> nat list" where
  "uvarints bs = (case uvarint_read bs of None \<Rightarrow> [] | Some (v, rest) \<Rightarrow> v # uvarints rest)"
  by pat_completeness auto

termination
  by (relation "measure length") (auto dest!: uvarint_read_length)

declare uvarints.simps [simp del]

lemma uvarints_concat: "uvarints (concat (map uvarint xs)) = map unat xs"
  by (induction xs; subst uvarints.simps) simp_all

definition read_participant :: "bytes \<Rightarrow> (nat \<times> nat) option" where
  "read_participant b = map_option (\<lambda>fs. (pb_int fs 1, pb_int fs 2)) (pb_parse b)"

definition read_layers :: "bytes \<Rightarrow> (nat list \<times> (nat \<times> nat) option list) option" where
  "read_layers b = map_option (\<lambda>fs. (concat (map uvarints (those_of 1 fs)), map read_participant (those_of 2 fs)))
     (pb_parse b)"

definition read_subscription :: "bytes \<Rightarrow> (nat list \<times> (nat \<times> nat) option list) option list option" where
  "read_subscription b = map_option (\<lambda>fs. map read_layers (those_of 1 fs)) (pb_parse b)"

definition read_subscriptions ::
  "bytes \<Rightarrow> (nat list \<times> (nat \<times> nat) option list) option list option list option" where
  "read_subscriptions b = map_option (\<lambda>fs. map read_subscription (those_of 1 fs)) (pb_parse b)"

definition nonzero :: "u32 list \<Rightarrow> nat list" where
  "nonzero ssrcs = map unat (filter (\<lambda>s. s \<noteq> 0) ssrcs)"

lemma read_participant_entry: "read_participant (participant_entry video pid) = Some (unat pid, of_bool video)"
  by (simp add: read_participant_def participant_entry_def Let_def pb_append pb_int_def)

lemma foldl_uvarints:
  "foldl (\<lambda>out ssrc. if ssrc \<noteq> 0 then out @ uvarint (ucast ssrc) else out) out ssrcs =
     out @ concat (map uvarint (map ucast (filter (\<lambda>s. s \<noteq> (0 :: u32)) ssrcs)))"
  by (induction ssrcs arbitrary: out) auto

lemma length_concat_le: "\<forall>b \<in> set bs. length b \<le> k \<Longrightarrow> length (concat bs) \<le> k * length bs"
  by (induction bs) auto

lemma length_pbLenDelim: "length (pbLenDelim [] f b) \<le> 20 + length b"
  using length_pbTag [of "[]" f 2] length_uvarint [of "of_nat (length b)"] by (simp add: pbLenDelim_def)

text \<open>The inner message of one sender subscription.\<close>

definition sender_layers :: "u32 list \<Rightarrow> u32 list \<Rightarrow> bool \<Rightarrow> bytes" where
  "sender_layers ssrcs pids video =
     pbLenDelim [] 1 (concat (map uvarint (map ucast (filter (\<lambda>s. s \<noteq> (0 :: u32)) ssrcs))))
     @ concat (map (pbLenDelim [] 2) (map (participant_entry video) pids))"

lemma createWasmSenderSubscription_layers:
  "createWasmSenderSubscription ssrcs pids video =
     pbLenDelim [] 1 (pbLenDelim [] 1 (sender_layers ssrcs pids video))"
  using foldl_delimited [of "\<lambda>_. False" 2 "participant_entry video" _ pids]
  by (simp add: createWasmSenderSubscription_def sender_layers_def foldl_uvarints)

lemma length_sender_layers:
  "length (sender_layers ssrcs pids video) \<le> 20 + 10 * length ssrcs + 60 * length pids"
proof -
  have "length (concat (map uvarint (map ucast (filter (\<lambda>s. s \<noteq> (0 :: u32)) ssrcs)))) \<le>
      10 * length (filter (\<lambda>s. s \<noteq> 0) ssrcs)"
    using length_concat_le [of "map uvarint (map ucast (filter (\<lambda>s. s \<noteq> 0) ssrcs))" 10] length_uvarint
    by simp
  also have "\<dots> \<le> 10 * length ssrcs" by simp
  finally have "length (pbLenDelim [] 1 (concat (map uvarint (map ucast (filter (\<lambda>s. s \<noteq> (0 :: u32)) ssrcs))))) \<le>
      20 + 10 * length ssrcs"
    by (rule order_trans [OF length_pbLenDelim, OF add_left_mono])
  moreover have "length (concat (map (pbLenDelim [] 2) (map (participant_entry video) pids))) \<le> 60 * length pids"
    using length_concat_le [of "map (pbLenDelim [] 2) (map (participant_entry video) pids)" 60]
      order_trans [OF length_pbLenDelim, OF add_left_mono, OF length_entries(3)] by simp
  ultimately show ?thesis by (simp add: sender_layers_def)
qed

lemma read_layers_sender:
  assumes "length ssrcs \<le> 3" and "length pids \<le> 300"
  shows "read_layers (sender_layers ssrcs pids video) =
    Some (nonzero ssrcs, map (\<lambda>p. Some (unat p, of_bool video)) pids)"
proof -
  let ?p = "concat (map uvarint (map ucast (filter (\<lambda>s. s \<noteq> (0 :: u32)) ssrcs)))"
  let ?bs = "map (participant_entry video) pids"
  have "length ?p \<le> length (sender_layers ssrcs pids video)"
    by (simp add: sender_layers_def pbLenDelim_def)
  then have "length ?p < 2 ^ 64"
    using length_sender_layers [of ssrcs pids video] assms by simp
  moreover have "\<forall>b \<in> set ?bs. length b < 2 ^ 64"
    using length_entries(3) [THEN order_trans, of 60] by (auto intro!: short_entries)
  ultimately have "pb_parse (sender_layers ssrcs pids video) =
      Some ((1, Delimited ?p) # map (\<lambda>b. (2, Delimited b)) ?bs)"
    using pb_parse_payloads [of 2 ?bs "[]"] unfolding sender_layers_def
    by (simp del: map_map)
  then show ?thesis
    by (simp add: read_layers_def nonzero_def uvarints_concat del: map_map)
      (simp add: read_participant_entry)
qed

lemma read_subscription_sender:
  assumes "length ssrcs \<le> 3" and "length pids \<le> 300"
  shows "read_subscription (pbLenDelim [] 1 (sender_layers ssrcs pids video)) =
    Some [Some (nonzero ssrcs, map (\<lambda>p. Some (unat p, of_bool video)) pids)]"
  using read_layers_sender [OF assms, of video] length_sender_layers [of ssrcs pids video] assms
  by (simp add: read_subscription_def)

lemma read_group_subscriptions:
  assumes "length ssrcs = 9" and "length pids \<le> 300"
  shows "read_subscriptions (createWasmGroupSenderSubscriptions ssrcs appData pids) = Some [
    Some [Some (nonzero (take 3 (drop 3 ssrcs)), map (\<lambda>p. Some (unat p, 1)) pids)],
    Some [Some (nonzero (drop 6 ssrcs), [])],
    Some [Some (nonzero (take 3 ssrcs), map (\<lambda>p. Some (unat p, 0)) pids)],
    Some [Some (nonzero [appData], map (\<lambda>p. Some (unat p, 0)) pids)]]"
proof -
  let ?w = "\<lambda>ssrcs pids video. pbLenDelim [] 1 (sender_layers ssrcs pids video)"
  let ?bs = "[?w (take 3 (drop 3 ssrcs)) pids True, ?w (drop 6 ssrcs) [] False,
    ?w (take 3 ssrcs) pids False, ?w [appData] pids False]"
  have "length (?w ss ps v) < 2 ^ 64" if "length ss \<le> 3" "length ps \<le> 300" for ss ps v
    using that length_sender_layers [of ss ps v] length_pbLenDelim [of 1 "sender_layers ss ps v"] by simp
  then have "\<forall>b \<in> set ?bs. length b < 2 ^ 64"
    using assms by simp
  moreover have "createWasmGroupSenderSubscriptions ssrcs appData pids = concat (map (pbLenDelim [] 1) ?bs)"
    using assms(1) by (simp add: createWasmGroupSenderSubscriptions_def createWasmSenderSubscription_layers)
  ultimately have "read_subscriptions (createWasmGroupSenderSubscriptions ssrcs appData pids) =
      Some (map read_subscription ?bs)"
    using pb_parse_payloads [of 1 ?bs "[]"] by (simp add: read_subscriptions_def del: list.map concat.simps)
  then show ?thesis
    using assms by (simp add: read_subscription_sender)
qed

lemma length_group_subscriptions:
  assumes "length ssrcs = 9" and "length pids \<le> 300"
  shows "length (createWasmGroupSenderSubscriptions ssrcs appData pids) < 65536"
    and "length (createWasmGroupReceiverSubscriptions pids) < 65536"
proof -
  have s: "length (createWasmSenderSubscription ss ps v) \<le> 60 + 10 * length ss + 60 * length ps" for ss ps v
    using length_sender_layers [of ss ps v] length_pbLenDelim [of 1 "sender_layers ss ps v"]
      length_pbLenDelim [of 1 "pbLenDelim [] 1 (sender_layers ss ps v)"]
    by (simp add: createWasmSenderSubscription_layers)
  show "length (createWasmGroupSenderSubscriptions ssrcs appData pids) < 65536"
    using assms s [of "take 3 (drop 3 ssrcs)" pids True] s [of "take 3 (drop 6 ssrcs)" "[]" False]
      s [of "take 3 ssrcs" pids False] s [of "[appData]" pids False]
    by (simp add: createWasmGroupSenderSubscriptions_def)
  have "createWasmGroupReceiverSubscriptions pids =
      concat (map (pbLenDelim [] 2) (map (participant_entry False) pids))"
    using foldl_delimited [of "\<lambda>_. False" 2 "participant_entry False" "[]" pids]
    by (simp add: createWasmGroupReceiverSubscriptions_def)
  moreover have "length (concat (map (pbLenDelim [] 2) (map (participant_entry False) pids))) \<le> 60 * length pids"
    using length_concat_le [of "map (pbLenDelim [] 2) (map (participant_entry False) pids)" 60]
      order_trans [OF length_pbLenDelim, OF add_left_mono, OF length_entries(3)] by simp
  ultimately show "length (createWasmGroupReceiverSubscriptions pids) < 65536"
    using assms by simp
qed

lemma length_descriptors:
  assumes "length ssrcs = 9" and "length fec = 2"
  shows "length (createWasmStreamDescriptorsWithHBHFEC ssrcs fec) < 65536"
proof -
  obtain bs where c: "createWasmStreamDescriptorsWithHBHFEC ssrcs fec = concat (map (pbLenDelim [] 1) bs)"
    and b: "\<forall>b \<in> set bs. length b \<le> 60" and l: "length bs \<le> length ssrcs + length fec"
    by (rule that [OF descriptors_payloads [OF refl, of ssrcs fec]])
  have "\<forall>b \<in> set (map (pbLenDelim [] 1) bs). length b \<le> 80"
    using b by (auto intro!: order_trans [OF length_pbLenDelim])
  then show ?thesis
    using length_concat_le [of "map (pbLenDelim [] 1) bs" 80] l assms by (simp add: c)
qed

lemma set_normalized [simp]: "set (normalizedParticipantPIDs pids) = set pids"
  by (simp add: normalizedParticipantPIDs_def)

lemma strict_remdups_adj: "sorted xs \<Longrightarrow> sorted_wrt (<) (remdups_adj (xs :: 'a::linorder list))"
  by (induction xs rule: remdups_adj.induct) (auto simp: less_le)

text \<open>
  A group allocate request tells the relay whom to forward. Its attributes are the relay token,
  the sender subscriptions, the receiver subscriptions, the stream descriptors, the participant
  count, the endpoint and the integrity value. The participants are the given ones, each once and in
  ascending order; a protobuf reader finds in the sender subscriptions every nonzero stream SSRC
  under its group (video, then video FEC without participants, audio, application data), with all
  participants subscribed and only the first group flagged as video.
\<close>

theorem group_allocate_readable:
  assumes "length tid = 12" and "\<And>k m. length (hmac k m) = 20" and "length ssrcs = 9" and "length fec = 2"
    and "length token < 65536" and "length endpoint = 6" and "participants \<noteq> []"
    and "pids = normalizedParticipantPIDs participants" and "length pids \<le> 300"
    and "subs = createWasmGroupSenderSubscriptions ssrcs appData pids"
  shows "\<exists>receivers descriptors mac.
    ParseStunAttributes (BuildWasmStunAllocateRequestWithGroupSubscriptionsAndHBHFEC hmac tid token endpoint
      ssrcs appData fec participants (Some key)) =
      [(attrRelayToken, token), (attrSenderSubscriptionsV2, subs), (attrReceiverSubscriptions, receivers),
       (attrStreamDescriptors, descriptors), (attrParticipantCount, uvarint (of_nat (length pids))),
       (attrWasmRelayEndpoint, [0, 1] @ endpoint), (attrMessageIntegrity, mac)] \<and>
    set pids = set participants \<and> sorted_wrt (<) pids \<and>
    read_subscriptions subs = Some [
      Some [Some (nonzero (take 3 (drop 3 ssrcs)), map (\<lambda>p. Some (unat p, 1)) pids)],
      Some [Some (nonzero (drop 6 ssrcs), [])],
      Some [Some (nonzero (take 3 ssrcs), map (\<lambda>p. Some (unat p, 0)) pids)],
      Some [Some (nonzero [appData], map (\<lambda>p. Some (unat p, 0)) pids)]]"
proof -
  let ?d = "if length pids > 1 then createWasmStreamDescriptorsWithHBHFEC ssrcs fec
    else CreateWasmStreamDescriptors ssrcs"
  let ?as = "[(attrRelayToken, token), (attrSenderSubscriptionsV2, subs),
    (attrReceiverSubscriptions, createWasmGroupReceiverSubscriptions pids), (attrStreamDescriptors, ?d),
    (attrParticipantCount, uvarint (of_nat (length pids))), (attrWasmRelayEndpoint, [0, 1] @ endpoint)]"
  let ?r = "BuildWasmStunAllocateRequestWithGroupSubscriptionsAndHBHFEC hmac tid token endpoint
      ssrcs appData fec participants (Some key)"
  have ne: "pids \<noteq> []"
    using assms(7) set_normalized [of participants] by (metis assms(8) set_empty)
  have "length (uvarint (of_nat (length pids))) < 65536"
    by (rule le_less_trans [OF length_uvarint]) simp
  then have fit: "attrs_fit ?as"
    using assms length_group_subscriptions [OF assms(3,9)] length_descriptors [OF assms(3,4)]
      length_descriptors [OF assms(3), of "[0, 0]"]
    by (simp add: attrs_fit_def CreateWasmStreamDescriptors_def)
  have r: "?r = EncodeStunRequest hmac MsgAllocateRequest tid (encode_attrs ?as) (Some key) False"
    using ne by (simp add: BuildWasmStunAllocateRequestWithGroupSubscriptionsAndHBHFEC_def assms(8,10) Let_def
        createWasmRelayEndpointAttr_def put_be16_def)
  have "ParseStunAttributes ?r = request_attrs hmac MsgAllocateRequest tid ?as (Some key) False"
    unfolding r using fit assms(1,2) by (intro parse_request) (simp_all add: MsgAllocateRequest_def)
  moreover have "sorted_wrt (<) pids"
    by (simp add: assms(8) normalizedParticipantPIDs_def strict_remdups_adj)
  ultimately show ?thesis
    using read_group_subscriptions [OF assms(3,9), of appData]
    by (simp add: request_attrs_def with_integrity_def with_fingerprint_def assms(8,10))
qed

theorem group_allocate_readable_witness:
  "\<exists>receivers descriptors mac.
    ParseStunAttributes (BuildWasmStunAllocateRequestWithGroupSubscriptionsAndHBHFEC (\<lambda>k m. replicate 20 0)
      (replicate 12 0) [7] (replicate 6 0) [1, 2, 3, 4, 5, 6, 7, 8, 9] 10 [0, 0] [30, 20, 30] (Some [])) =
      [(attrRelayToken, [7]),
       (attrSenderSubscriptionsV2, createWasmGroupSenderSubscriptions [1, 2, 3, 4, 5, 6, 7, 8, 9] 10 [20, 30]),
       (attrReceiverSubscriptions, receivers), (attrStreamDescriptors, descriptors),
       (attrParticipantCount, uvarint 2), (attrWasmRelayEndpoint, [0, 1] @ replicate 6 0),
       (attrMessageIntegrity, mac)]"
proof -
  have "normalizedParticipantPIDs [30, 20, 30] = [20, 30]"
    by (simp add: normalizedParticipantPIDs_def)
  then show ?thesis
    using group_allocate_readable [of "replicate 12 0" "\<lambda>k m. replicate 20 0" "[1, 2, 3, 4, 5, 6, 7, 8, 9]"
        "[0, 0]" "[7]" "replicate 6 0" "[30, 20, 30]" "[20, 30]"
        "createWasmGroupSenderSubscriptions [1, 2, 3, 4, 5, 6, 7, 8, 9] 10 [20, 30]" 10 "[]"]
    by (auto simp del: replicate.simps)
qed

end
