(* ===== verification/Memory_Store.thy ===== *)
theory Memory_Store
  imports Strconv "HOL-Library.Sublist"
begin

text \<open>
  The bounded in-memory cache of \<open>util/cache/memory.go\<close>: a map from keys to list elements and a
  doubly linked list of entries in order of use. List elements are addresses into a store of
  entries, so that the map and the list can disagree unless the code keeps them in step. Times are
  nanoseconds; each operation takes the value of \<open>time.Now()\<close> that it reads. The mutex makes each
  operation one step. JSON and \<open>fmt\<close> formatting of values other than strings, bytes, integers and
  booleans are parameters.
\<close>

section \<open>State\<close>

record cacheEntry =
  ce_key :: string
  ce_value :: bytes
  expiresAt :: "int option"

definition isExpired :: "cacheEntry \<Rightarrow> int \<Rightarrow> bool" where
  "isExpired e now = (case expiresAt e of None \<Rightarrow> False | Some t \<Rightarrow> now > t)"

record MemoryStore =
  items :: "string \<rightharpoonup> nat"
  evictList :: "nat list"
  elements :: "nat \<Rightarrow> cacheEntry"
  fresh :: nat
  maxEntries :: nat
  ms_closed :: bool

definition NewMemoryStore :: "int \<Rightarrow> MemoryStore" where
  "NewMemoryStore maxEntries' =
     \<lparr>items = Map.empty, evictList = [], elements = (\<lambda>_. \<lparr>ce_key = [], ce_value = [], expiresAt = None\<rparr>),
      fresh = 0, maxEntries = (if maxEntries' \<le> 0 then 10000 else nat maxEntries'), ms_closed = False\<rparr>"

section \<open>Operations\<close>

definition removeElement :: "MemoryStore \<Rightarrow> nat \<Rightarrow> MemoryStore" where
  "removeElement m elem =
     m\<lparr>evictList := remove1 elem (evictList m), items := (items m)(ce_key (elements m elem) := None)\<rparr>"

definition moveToFront :: "MemoryStore \<Rightarrow> nat \<Rightarrow> MemoryStore" where
  "moveToFront m elem = m\<lparr>evictList := elem # remove1 elem (evictList m)\<rparr>"

fun prune_loop :: "MemoryStore \<Rightarrow> int \<Rightarrow> nat \<Rightarrow> nat list \<Rightarrow> MemoryStore" where
  "prune_loop m now batch [] = m"
| "prune_loop m now batch (elem # prevs) =
     (if batch = 0 then m
      else if isExpired (elements m elem) now then prune_loop (removeElement m elem) now (batch - 1) prevs
      else prune_loop m now batch prevs)"

definition pruneExpiredBatch :: "MemoryStore \<Rightarrow> int \<Rightarrow> nat \<Rightarrow> MemoryStore" where
  "pruneExpiredBatch m now batchSize = prune_loop m now batchSize (rev (evictList m))"

definition GetBytes :: "MemoryStore \<Rightarrow> int \<Rightarrow> string \<Rightarrow> bytes option \<times> MemoryStore" where
  "GetBytes m now key =
     (case items m key of
        None \<Rightarrow> (None, m)
      | Some elem \<Rightarrow>
          (let entry = elements m elem
           in if isExpired entry now then (None, removeElement m elem)
              else (Some (ce_value entry), moveToFront m elem)))"

definition CacheGet :: "MemoryStore \<Rightarrow> int \<Rightarrow> string \<Rightarrow> string option \<times> MemoryStore" where
  "CacheGet m now key = (case GetBytes m now key of (b, m') \<Rightarrow> (map_option bytes_str b, m'))"

definition GetJSON ::
  "(bytes \<Rightarrow> 'e + 'v) \<Rightarrow> MemoryStore \<Rightarrow> int \<Rightarrow> string \<Rightarrow> ('e + 'v) option \<times> MemoryStore" where
  "GetJSON unmarshal m now key = (case GetBytes m now key of (b, m') \<Rightarrow> (map_option unmarshal b, m'))"

definition set_entry :: "MemoryStore \<Rightarrow> string \<Rightarrow> bytes \<Rightarrow> int option \<Rightarrow> MemoryStore" where
  "set_entry m key data expires =
     (case items m key of
        Some elem \<Rightarrow>
          (let m = moveToFront m elem
           in m\<lparr>elements := (elements m)(elem := \<lparr>ce_key = key, ce_value = data, expiresAt = expires\<rparr>)\<rparr>)
      | None \<Rightarrow>
          (let m = (if length (evictList m) \<ge> maxEntries m then
                 (if evictList m = [] then m else removeElement m (last (evictList m)))
               else m);
               elem = fresh m
           in m\<lparr>elements := (elements m)(elem := \<lparr>ce_key = key, ce_value = data, expiresAt = expires\<rparr>),
                fresh := fresh m + 1, evictList := elem # evictList m, items := (items m)(key \<mapsto> elem)\<rparr>))"

definition expiry :: "int \<Rightarrow> int \<Rightarrow> int option" where
  "expiry now ttl = (if ttl > 0 then Some (now + ttl) else None)"

datatype 'v cache_value = CString string | CBytes bytes | CInt int | CBool bool | CPrinted 'v | CJson 'v

text \<open>Runes and floating-point numbers are the \<open>CPrinted\<close> values.\<close>

definition serializeValue ::
  "('v \<Rightarrow> bytes) \<Rightarrow> ('v \<Rightarrow> 'e + bytes) \<Rightarrow> 'v cache_value \<Rightarrow> 'e + bytes" where
  "serializeValue printed marshal v =
     (case v of
        CString s \<Rightarrow> Inr (str_bytes s)
      | CBytes b \<Rightarrow> Inr b
      | CInt i \<Rightarrow> Inr (str_bytes (FormatInt i))
      | CBool b \<Rightarrow> Inr (str_bytes (if b then ''true'' else ''false''))
      | CPrinted x \<Rightarrow> Inr (printed x)
      | CJson x \<Rightarrow> marshal x)"

definition CacheSet ::
  "('v \<Rightarrow> bytes) \<Rightarrow> ('v \<Rightarrow> 'e + bytes) \<Rightarrow> MemoryStore \<Rightarrow> int \<Rightarrow> string \<Rightarrow> 'v cache_value \<Rightarrow> int \<Rightarrow>
    'e option \<times> MemoryStore" where
  "CacheSet printed marshal m now key value ttl =
     (case serializeValue printed marshal value of
        Inl err \<Rightarrow> (Some err, m)
      | Inr data \<Rightarrow> (None, set_entry m key data (expiry now ttl)))"

definition SetJSON ::
  "('v \<Rightarrow> bytes) \<Rightarrow> ('v \<Rightarrow> 'e + bytes) \<Rightarrow> MemoryStore \<Rightarrow> int \<Rightarrow> string \<Rightarrow> 'v \<Rightarrow> int \<Rightarrow>
    'e option \<times> MemoryStore" where
  "SetJSON printed marshal m now key value ttl =
     (case marshal value of
        Inl err \<Rightarrow> (Some err, m)
      | Inr data \<Rightarrow> CacheSet printed marshal m now key (CBytes data) ttl)"

definition Delete :: "MemoryStore \<Rightarrow> string \<Rightarrow> MemoryStore" where
  "Delete m key = (case items m key of None \<Rightarrow> m | Some elem \<Rightarrow> removeElement m elem)"

text \<open>The result map is an association list in the order of the requested keys.\<close>

fun get_many_loop :: "MemoryStore \<Rightarrow> int \<Rightarrow> string list \<Rightarrow> (string \<times> bytes) list \<times> MemoryStore" where
  "get_many_loop m now [] = ([], m)"
| "get_many_loop m now (key # keys) =
     (case GetBytes m now key of
        (None, m) \<Rightarrow> get_many_loop m now keys
      | (Some v, m) \<Rightarrow> (case get_many_loop m now keys of (res, m) \<Rightarrow> ((key, v) # res, m)))"

definition GetManyBytes :: "MemoryStore \<Rightarrow> int \<Rightarrow> string list \<Rightarrow> (string \<times> bytes) list \<times> MemoryStore" where
  "GetManyBytes m now keys = get_many_loop m now keys"

text \<open>The iteration order over the entries is the order of the list.\<close>

definition SetMany :: "MemoryStore \<Rightarrow> int \<Rightarrow> (string \<times> bytes) list \<Rightarrow> int \<Rightarrow> MemoryStore" where
  "SetMany m now entries ttl = foldl (\<lambda>m (key, data). set_entry m key data (expiry now ttl)) m entries"

definition DeleteMany :: "MemoryStore \<Rightarrow> string list \<Rightarrow> MemoryStore" where
  "DeleteMany m keys = foldl Delete m keys"

definition DeletePrefix :: "MemoryStore \<Rightarrow> string \<Rightarrow> MemoryStore" where
  "DeletePrefix m pre =
     foldl (\<lambda>m elem. if prefix pre (ce_key (elements m elem)) then removeElement m elem else m)
       m (evictList m)"

definition Exists :: "MemoryStore \<Rightarrow> int \<Rightarrow> string \<Rightarrow> bool \<times> MemoryStore" where
  "Exists m now key =
     (case items m key of
        None \<Rightarrow> (False, m)
      | Some elem \<Rightarrow> if isExpired (elements m elem) now then (False, removeElement m elem) else (True, m))"

definition Clear :: "MemoryStore \<Rightarrow> MemoryStore" where
  "Clear m = m\<lparr>items := Map.empty, evictList := []\<rparr>"

definition CloseStore :: "MemoryStore \<Rightarrow> MemoryStore" where
  "CloseStore m = (if ms_closed m then m else m\<lparr>ms_closed := True, items := Map.empty, evictList := []\<rparr>)"

section \<open>The specification: a list of entries in order of use\<close>

type_synonym lru = "cacheEntry list"

definition drop_key :: "string \<Rightarrow> lru \<Rightarrow> lru" where
  "drop_key k L = filter (\<lambda>e. ce_key e \<noteq> k) L"

definition entry_of :: "lru \<Rightarrow> string \<Rightarrow> cacheEntry option" where
  "entry_of L k = List.find (\<lambda>e. ce_key e = k) L"

definition lru_get :: "lru \<Rightarrow> int \<Rightarrow> string \<Rightarrow> bytes option \<times> lru" where
  "lru_get L now k =
     (case entry_of L k of
        None \<Rightarrow> (None, L)
      | Some e \<Rightarrow> if isExpired e now then (None, drop_key k L) else (Some (ce_value e), e # drop_key k L))"

definition lru_set :: "nat \<Rightarrow> lru \<Rightarrow> cacheEntry \<Rightarrow> lru" where
  "lru_set cap L e =
     e # (if ce_key e \<in> ce_key ` set L then drop_key (ce_key e) L
          else if length L \<ge> cap then butlast L else L)"

fun drop_expired :: "int \<Rightarrow> nat \<Rightarrow> lru \<Rightarrow> lru" where
  "drop_expired now n [] = []"
| "drop_expired now n (e # es) =
     (if n = 0 then e # es
      else if isExpired e now then drop_expired now (n - 1) es
      else e # drop_expired now n es)"

definition lru_prune :: "lru \<Rightarrow> int \<Rightarrow> nat \<Rightarrow> lru" where
  "lru_prune L now n = rev (drop_expired now n (rev L))"

definition contents :: "MemoryStore \<Rightarrow> lru" where
  "contents m = map (elements m) (evictList m)"

text \<open>The map and the list agree, no address is used twice, and the bound holds.\<close>

definition store_inv :: "MemoryStore \<Rightarrow> bool" where
  "store_inv m \<longleftrightarrow> distinct (evictList m) \<and> (\<forall>p \<in> set (evictList m). p < fresh m) \<and>
     (\<forall>k p. items m k = Some p \<longleftrightarrow> p \<in> set (evictList m) \<and> ce_key (elements m p) = k) \<and>
     0 < maxEntries m \<and> length (evictList m) \<le> maxEntries m"

lemma store_invD:
  assumes "store_inv m"
  shows "distinct (evictList m)" and "items m k = Some p \<longleftrightarrow> p \<in> set (evictList m) \<and> ce_key (elements m p) = k"
    and "p \<in> set (evictList m) \<Longrightarrow> p < fresh m"
  using assms by (auto simp: store_inv_def)

lemma items_None: "store_inv m \<Longrightarrow> items m k = None \<longleftrightarrow> k \<notin> ce_key ` set (contents m)"
  using store_invD(2) [of m k] by (cases "items m k") (force simp: contents_def)+

lemma removeElement_refines:
  assumes "store_inv m" and "p \<in> set (evictList m)"
  shows "store_inv (removeElement m p)"
    and "contents (removeElement m p) = drop_key (ce_key (elements m p)) (contents m)"
proof -
  note i = store_invD [OF assms(1)]
  have key: "ce_key (elements m q) = ce_key (elements m p) \<longleftrightarrow> q = p" if "q \<in> set (evictList m)" for q
    using that assms(2) i(2) by (metis option.inject)
  show "store_inv (removeElement m p)"
    using assms i key by (auto simp: store_inv_def removeElement_def length_remove1)
  show "contents (removeElement m p) = drop_key (ce_key (elements m p)) (contents m)"
    using i(1) key by (auto simp: contents_def removeElement_def drop_key_def distinct_remove1_removeAll
        removeAll_filter_not_eq filter_map comp_def intro!: filter_cong arg_cong [where f = "map (elements m)"])
qed

lemma moveToFront_refines:
  assumes "store_inv m" and "p \<in> set (evictList m)"
  shows "store_inv (moveToFront m p)"
    and "contents (moveToFront m p) = elements m p # drop_key (ce_key (elements m p)) (contents m)"
proof -
  have "0 < length (evictList m)"
    using assms(2) by (cases "evictList m") auto
  then show "store_inv (moveToFront m p)"
    using assms by (auto simp: store_inv_def moveToFront_def length_remove1)
  show "contents (moveToFront m p) = elements m p # drop_key (ce_key (elements m p)) (contents m)"
    using removeElement_refines(2) [OF assms] by (simp add: contents_def moveToFront_def removeElement_def)
qed

lemma entry_of_contents:
  assumes "store_inv m" and "items m k = Some p"
  shows "entry_of (contents m) k = Some (elements m p)"
proof -
  have p: "p \<in> set (evictList m)" "ce_key (elements m p) = k"
    using assms by (auto simp: store_inv_def)
  have key: "ce_key (elements m q) = k \<longleftrightarrow> q = p" if "q \<in> set (evictList m)" for q
    using that p store_invD(2) [OF assms(1)] by (metis option.inject)
  obtain e where e: "entry_of (contents m) k = Some e"
    using p by (cases "entry_of (contents m) k") (auto simp: entry_of_def contents_def find_None_iff)
  then have "e \<in> set (contents m)" "ce_key e = k"
    by (auto simp: entry_of_def find_Some_iff)
  then show ?thesis
    using e key by (auto simp: contents_def)
qed

lemma entry_of_None: "entry_of L k = None \<longleftrightarrow> k \<notin> ce_key ` set L"
  by (auto simp: entry_of_def find_None_iff)

lemma GetBytes_refines:
  assumes "store_inv m"
  shows "store_inv (snd (GetBytes m now k))"
    and "lru_get (contents m) now k = (fst (GetBytes m now k), contents (snd (GetBytes m now k)))"
proof -
  have "store_inv (snd (GetBytes m now k)) \<and>
    lru_get (contents m) now k = (fst (GetBytes m now k), contents (snd (GetBytes m now k)))"
  proof (cases "items m k")
    case None
    then show ?thesis
      using assms items_None [OF assms, of k] entry_of_None [of "contents m" k]
      by (simp add: GetBytes_def lru_get_def)
  next
    case (Some p)
    then have "p \<in> set (evictList m)" "ce_key (elements m p) = k"
      using store_invD(2) [OF assms] by auto
    with Some show ?thesis
      using removeElement_refines [OF assms] moveToFront_refines [OF assms]
      by (simp add: GetBytes_def lru_get_def entry_of_contents [OF assms] Let_def)
  qed
  then show "store_inv (snd (GetBytes m now k))"
    and "lru_get (contents m) now k = (fst (GetBytes m now k), contents (snd (GetBytes m now k)))"
    by simp_all
qed

lemma contents_update_fresh:
  "p \<notin> set (evictList m) \<Longrightarrow> map ((elements m)(p := e)) (evictList m) = contents m"
  by (simp add: contents_def)

lemma remove1_last: "distinct xs \<Longrightarrow> xs \<noteq> [] \<Longrightarrow> remove1 (last xs) xs = butlast xs"
  by (induction xs) auto

lemma drop_key_last:
  assumes "store_inv m" and "evictList m \<noteq> []"
  shows "drop_key (ce_key (elements m (last (evictList m)))) (contents m) = butlast (contents m)"
  using assms removeElement_refines(2) [OF assms(1), of "last (evictList m)"] store_invD(1) [OF assms(1)]
  by (simp add: contents_def removeElement_def map_butlast remove1_last)

definition make_room :: "MemoryStore \<Rightarrow> MemoryStore" where
  "make_room m = (if length (evictList m) \<ge> maxEntries m then
     (if evictList m = [] then m else removeElement m (last (evictList m))) else m)"

lemma make_room_refines:
  assumes "store_inv m"
  shows "store_inv (make_room m)" and "length (evictList (make_room m)) < maxEntries m"
    and "maxEntries (make_room m) = maxEntries m" and "fresh (make_room m) = fresh m"
    and "contents (make_room m) = (if length (contents m) \<ge> maxEntries m then butlast (contents m) else contents m)"
    and "items m k = None \<Longrightarrow> items (make_room m) k = None"
proof -
  have "evictList m \<noteq> []" if "length (evictList m) \<ge> maxEntries m"
    using that assms by (auto simp: store_inv_def)
  moreover from this have "last (evictList m) \<in> set (evictList m)" if "length (evictList m) \<ge> maxEntries m"
    using that by simp
  ultimately show "store_inv (make_room m)" "length (evictList (make_room m)) < maxEntries m"
    "maxEntries (make_room m) = maxEntries m" "fresh (make_room m) = fresh m"
    "contents (make_room m) = (if length (contents m) \<ge> maxEntries m then butlast (contents m) else contents m)"
    "items m k = None \<Longrightarrow> items (make_room m) k = None"
    using assms removeElement_refines [OF assms] drop_key_last [OF assms]
    by (auto simp: make_room_def removeElement_def store_inv_def length_remove1)
      (auto simp: contents_def)
qed

lemma push_refines:
  assumes "store_inv m" and "items m k = None" and "length (evictList m) < maxEntries m"
    and "e = \<lparr>ce_key = k, ce_value = v, expiresAt = x\<rparr>"
    and "m' = m\<lparr>elements := (elements m)(fresh m := e), fresh := fresh m + 1,
      evictList := fresh m # evictList m, items := (items m)(k \<mapsto> fresh m)\<rparr>"
  shows "store_inv m' \<and> contents m' = e # contents m"
proof -
  have f: "fresh m \<notin> set (evictList m)"
    using store_invD(3) [OF assms(1)] by blast
  have nk: "ce_key (elements m p) \<noteq> k" if "p \<in> set (evictList m)" for p
    using that assms(2) store_invD(2) [OF assms(1), of k p] by auto
  show ?thesis
    using assms f nk by (auto simp: store_inv_def contents_def)
qed

lemma set_entry_refines:
  assumes "store_inv m"
  shows "store_inv (set_entry m k v x) \<and> contents (set_entry m k v x) =
    lru_set (maxEntries m) (contents m) \<lparr>ce_key = k, ce_value = v, expiresAt = x\<rparr>"
proof (cases "items m k")
  case (Some p)
  then have p: "p \<in> set (evictList m)" "ce_key (elements m p) = k"
    using store_invD(2) [OF assms] by auto
  have k: "k \<in> ce_key ` set (contents m)"
    using p by (force simp: contents_def)
  note mv = moveToFront_refines [OF assms p(1)]
  have "p \<notin> set (remove1 p (evictList m))"
    using store_invD(1) [OF assms] by simp
  then have "contents (set_entry m k v x) =
      \<lparr>ce_key = k, ce_value = v, expiresAt = x\<rparr> # drop_key k (contents m)"
    using mv(2) p(2) by (simp add: set_entry_def Some contents_def moveToFront_def Let_def)
  moreover have "store_inv (set_entry m k v x)"
    using mv(1) p(2) by (auto simp: set_entry_def Some store_inv_def moveToFront_def Let_def)
  ultimately show ?thesis
    using k by (simp add: lru_set_def)
next
  case None
  note r = make_room_refines [OF assms]
  have "set_entry m k v x = (make_room m)\<lparr>elements := (elements (make_room m))(fresh (make_room m) :=
        \<lparr>ce_key = k, ce_value = v, expiresAt = x\<rparr>), fresh := fresh (make_room m) + 1,
      evictList := fresh (make_room m) # evictList (make_room m), items := (items (make_room m))(k \<mapsto> fresh (make_room m))\<rparr>"
    by (simp add: set_entry_def None Let_def make_room_def)
  with push_refines [OF r(1) r(6) [OF None] _ refl] r(2,3,5) None items_None [OF assms, of k] show ?thesis
    by (simp add: lru_set_def)
qed

lemma set_entry_maxEntries [simp]: "maxEntries (set_entry m k v x) = maxEntries m"
  by (auto simp: set_entry_def moveToFront_def removeElement_def Let_def split: option.splits)

lemma GetBytes_maxEntries [simp]: "maxEntries (snd (GetBytes m now k)) = maxEntries m"
  by (auto simp: GetBytes_def moveToFront_def removeElement_def Let_def split: option.splits)

lemma Delete_refines:
  assumes "store_inv m"
  shows "store_inv (Delete m k) \<and> contents (Delete m k) = drop_key k (contents m)"
proof (cases "items m k")
  case None
  then have "drop_key k (contents m) = contents m"
    using items_None [OF assms, of k] by (auto simp: drop_key_def filter_id_conv)
  with None assms show ?thesis by (simp add: Delete_def)
next
  case (Some p)
  then show ?thesis
    using removeElement_refines [OF assms, of p] store_invD(2) [OF assms, of k p] by (simp add: Delete_def)
qed

lemma removeElement_sel [simp]:
  "elements (removeElement m p) = elements m" "maxEntries (removeElement m p) = maxEntries m"
  "evictList (removeElement m p) = remove1 p (evictList m)"
  by (simp_all add: removeElement_def)

lemma remove1_middle: "distinct (ys @ p # zs) \<Longrightarrow> remove1 p (ys @ p # zs) = ys @ zs"
  by (simp add: remove1_append)

lemma prune_loop_refines:
  assumes "store_inv m" and "evictList m = rev ps @ kept"
  shows "store_inv (prune_loop m now n ps) \<and> maxEntries (prune_loop m now n ps) = maxEntries m \<and>
    contents (prune_loop m now n ps) =
      rev (drop_expired now n (map (elements m) ps)) @ map (elements m) kept"
  using assms
proof (induction ps arbitrary: m n kept)
  case Nil
  then show ?case by (simp add: contents_def)
next
  case (Cons p ps)
  have ev: "evictList m = rev ps @ p # kept"
    using Cons.prems(2) by simp
  have del: "evictList (removeElement m p) = rev ps @ kept"
    using store_invD(1) [OF Cons.prems(1)] remove1_middle [of "rev ps" p kept] by (simp add: ev)
  have inv: "store_inv (removeElement m p)"
    using removeElement_refines(1) [OF Cons.prems(1), of p] by (simp add: ev)
  show ?case
    using Cons.IH [OF inv del, of "n - 1"] Cons.IH [OF Cons.prems(1), of "p # kept" n] Cons.prems(1) ev
    by (auto simp: contents_def rev_map)
qed

lemma prune_refines:
  assumes "store_inv m"
  shows "store_inv (pruneExpiredBatch m now n)"
    and "contents (pruneExpiredBatch m now n) = lru_prune (contents m) now n"
    and "maxEntries (pruneExpiredBatch m now n) = maxEntries m"
  using prune_loop_refines [OF assms, of "rev (evictList m)" "[]" now n]
  by (simp_all add: pruneExpiredBatch_def lru_prune_def contents_def rev_map)

lemma delete_prefix_loop:
  assumes "store_inv m" and "evictList m = kept @ ps"
    and "m' = foldl (\<lambda>m p. if prefix pre (ce_key (elements m p)) then removeElement m p else m) m ps"
  shows "store_inv m' \<and> maxEntries m' = maxEntries m \<and>
    contents m' = map (elements m) kept @ filter (\<lambda>e. \<not> prefix pre (ce_key e)) (map (elements m) ps)"
  using assms
proof (induction ps arbitrary: m kept)
  case Nil
  then show ?case by (simp add: contents_def)
next
  case (Cons p ps)
  show ?case
  proof (cases "prefix pre (ce_key (elements m p))")
    case True
    have "evictList (removeElement m p) = kept @ ps"
      using store_invD(1) [OF Cons.prems(1)] remove1_middle [of kept p ps] by (simp add: Cons.prems(2))
    moreover have "store_inv (removeElement m p)"
      using removeElement_refines(1) [OF Cons.prems(1), of p] by (simp add: Cons.prems(2))
    ultimately show ?thesis
      using Cons.IH [of "removeElement m p" kept] Cons.prems(3) True by simp
  next
    case False
    then show ?thesis
      using Cons.IH [of m "kept @ [p]"] Cons.prems by simp
  qed
qed

lemma DeletePrefix_refines:
  assumes "store_inv m"
  shows "store_inv (DeletePrefix m pre) \<and> maxEntries (DeletePrefix m pre) = maxEntries m \<and>
    contents (DeletePrefix m pre) = filter (\<lambda>e. \<not> prefix pre (ce_key e)) (contents m)"
  using delete_prefix_loop [OF assms append_Nil [symmetric] DeletePrefix_def, of pre]
  by (simp add: contents_def)

lemma Exists_refines:
  assumes "store_inv m"
  shows "store_inv (snd (Exists m now k)) \<and> maxEntries (snd (Exists m now k)) = maxEntries m \<and>
    fst (Exists m now k) = (fst (lru_get (contents m) now k) \<noteq> None) \<and>
    contents (snd (Exists m now k)) =
      (if fst (Exists m now k) then contents m else snd (lru_get (contents m) now k))"
proof (cases "items m k")
  case None
  then show ?thesis
    using assms items_None [OF assms, of k] entry_of_None [of "contents m" k]
    by (simp add: Exists_def lru_get_def)
next
  case (Some p)
  then show ?thesis
    using removeElement_refines [OF assms, of p] store_invD(2) [OF assms, of k p] assms
    by (simp add: Exists_def lru_get_def entry_of_contents [OF assms])
qed

section \<open>Refinement of whole histories\<close>

datatype store_op =
    OpGet string
  | OpSet string bytes int
  | OpDelete string
  | OpDeletePrefix string
  | OpExists string
  | OpPrune nat
  | OpClear

text \<open>Each operation happens at a time; reads return a value, \<open>Exists\<close> an empty one.\<close>

fun store_step :: "MemoryStore \<Rightarrow> int \<times> store_op \<Rightarrow> bytes option \<times> MemoryStore" where
  "store_step m (now, OpGet k) = GetBytes m now k"
| "store_step m (now, OpSet k v ttl) = (None, set_entry m k v (expiry now ttl))"
| "store_step m (now, OpDelete k) = (None, Delete m k)"
| "store_step m (now, OpDeletePrefix pre) = (None, DeletePrefix m pre)"
| "store_step m (now, OpExists k) = (case Exists m now k of (b, m) \<Rightarrow> (if b then Some [] else None, m))"
| "store_step m (now, OpPrune n) = (None, pruneExpiredBatch m now n)"
| "store_step m (now, OpClear) = (None, Clear m)"

fun lru_step :: "nat \<Rightarrow> lru \<Rightarrow> int \<times> store_op \<Rightarrow> bytes option \<times> lru" where
  "lru_step cap L (now, OpGet k) = lru_get L now k"
| "lru_step cap L (now, OpSet k v ttl) =
     (None, lru_set cap L \<lparr>ce_key = k, ce_value = v, expiresAt = expiry now ttl\<rparr>)"
| "lru_step cap L (now, OpDelete k) = (None, drop_key k L)"
| "lru_step cap L (now, OpDeletePrefix pre) = (None, filter (\<lambda>e. \<not> prefix pre (ce_key e)) L)"
| "lru_step cap L (now, OpExists k) =
     (if fst (lru_get L now k) = None then (None, snd (lru_get L now k)) else (Some [], L))"
| "lru_step cap L (now, OpPrune n) = (None, lru_prune L now n)"
| "lru_step cap L (now, OpClear) = (None, [])"

fun history :: "('s \<Rightarrow> int \<times> store_op \<Rightarrow> bytes option \<times> 's) \<Rightarrow> 's \<Rightarrow> (int \<times> store_op) list \<Rightarrow>
    bytes option list \<times> 's" where
  "history step s [] = ([], s)"
| "history step s (x # xs) =
     (case step s x of (r, s') \<Rightarrow> case history step s' xs of (rs, s'') \<Rightarrow> (r # rs, s''))"

lemma Delete_maxEntries [simp]: "maxEntries (Delete m k) = maxEntries m"
  by (simp add: Delete_def split: option.splits)

lemma store_step_refines:
  assumes "store_inv m"
  shows "store_inv (snd (store_step m x)) \<and> maxEntries (snd (store_step m x)) = maxEntries m \<and>
    lru_step (maxEntries m) (contents m) x = (fst (store_step m x), contents (snd (store_step m x)))"
proof -
  obtain now opr where x: "x = (now, opr)" by fastforce
  show ?thesis
  proof (cases opr)
    case (OpGet k)
    then show ?thesis using GetBytes_refines [OF assms, of now k] by (simp add: x)
  next
    case (OpSet k v ttl)
    then show ?thesis using set_entry_refines [OF assms, of k v "expiry now ttl"] by (simp add: x)
  next
    case (OpDelete k)
    then show ?thesis using Delete_refines [OF assms, of k] by (simp add: x)
  next
    case (OpDeletePrefix pre)
    then show ?thesis using DeletePrefix_refines [OF assms, of pre] by (simp add: x)
  next
    case (OpExists k)
    then show ?thesis using Exists_refines [OF assms, of now k] by (auto simp: x split: prod.splits)
  next
    case (OpPrune n)
    then show ?thesis using prune_refines [OF assms, of now n] by (simp add: x)
  next
    case OpClear
    then show ?thesis using assms by (simp add: x Clear_def contents_def store_inv_def)
  qed
qed

lemma NewMemoryStore_inv: "store_inv (NewMemoryStore n)" "contents (NewMemoryStore n) = []"
  "maxEntries (NewMemoryStore n) = (if n \<le> 0 then 10000 else nat n)"
  by (simp_all add: NewMemoryStore_def store_inv_def contents_def)

lemma history_refines:
  assumes "store_inv m"
  shows "store_inv (snd (history store_step m xs)) \<and> maxEntries (snd (history store_step m xs)) = maxEntries m \<and>
    history (lru_step (maxEntries m)) (contents m) xs =
      (fst (history store_step m xs), contents (snd (history store_step m xs)))"
  using assms
proof (induction xs arbitrary: m)
  case Nil
  then show ?case by simp
next
  case (Cons x xs)
  then show ?case
    using store_step_refines [of m x] Cons.IH [of "snd (store_step m x)"]
    by (auto simp: case_prod_unfold)
qed

text \<open>
  C3: The cache is an LRU list. For every history of reads, writes, deletions, prefix deletions,
  existence checks, background pruning and clearing at any times, the store built from a map and a
  linked list returns exactly what a plain list of entries in order of use returns, holds the same
  entries in the same order, and never exceeds its capacity.
\<close>

theorem memory_store_refines_lru:
  assumes "cap = (if n \<le> 0 then 10000 else nat n)"
  shows "fst (history store_step (NewMemoryStore n) xs) = fst (history (lru_step cap) [] xs) \<and>
    contents (snd (history store_step (NewMemoryStore n) xs)) = snd (history (lru_step cap) [] xs) \<and>
    store_inv (snd (history store_step (NewMemoryStore n) xs)) \<and>
    length (contents (snd (history store_step (NewMemoryStore n) xs))) \<le> cap"
proof -
  have "length (contents m) \<le> maxEntries m" if "store_inv m" for m
    using that by (simp add: store_inv_def contents_def)
  then show ?thesis
    using history_refines [OF NewMemoryStore_inv(1), of n xs] assms NewMemoryStore_inv(2,3) [of n]
    by (metis fst_conv snd_conv)
qed

theorem memory_store_refines_lru_witness:
  "fst (history store_step (NewMemoryStore 2) [(0, OpSet ''a'' [1] 10), (1, OpSet ''b'' [2] 0),
      (2, OpGet ''a''), (3, OpSet ''c'' [3] 0), (4, OpGet ''b''), (20, OpGet ''a'')]) =
    [None, None, Some [1], None, None, None]"
  using memory_store_refines_lru [of 2 2 "[(0, OpSet ''a'' [1] 10), (1, OpSet ''b'' [2] 0),
      (2, OpGet ''a''), (3, OpSet ''c'' [3] 0), (4, OpGet ''b''), (20, OpGet ''a'')]"]
  by (simp add: lru_get_def lru_set_def entry_of_def drop_key_def isExpired_def expiry_def)

section \<open>Recently used entries stay\<close>

text \<open>\<open>e\<close> is in the list, and every key before it was used since.\<close>

definition kept :: "lru \<Rightarrow> cacheEntry \<Rightarrow> string set \<Rightarrow> bool" where
  "kept L e T \<longleftrightarrow> distinct (map ce_key L) \<and> (\<exists>ys zs. L = ys @ e # zs \<and> ce_key ` set ys \<subseteq> T)"

fun used :: "int \<times> store_op \<Rightarrow> string set" where
  "used (now, OpGet k) = {k}"
| "used (now, OpSet k v ttl) = {k}"
| "used _ = {}"

text \<open>An operation leaves \<open>e\<close> alone if it neither rewrites nor deletes it and comes before its end.\<close>

fun spares :: "cacheEntry \<Rightarrow> int \<times> store_op \<Rightarrow> bool" where
  "spares e (now, opr) \<longleftrightarrow> \<not> isExpired e now \<and>
     (case opr of OpSet k v ttl \<Rightarrow> k \<noteq> ce_key e | OpDelete k \<Rightarrow> k \<noteq> ce_key e
      | OpDeletePrefix pre \<Rightarrow> \<not> prefix pre (ce_key e) | OpClear \<Rightarrow> False | _ \<Rightarrow> True)"

lemma keptI: "distinct (map ce_key L) \<Longrightarrow> L = ys @ e # zs \<Longrightarrow> ce_key ` set ys \<subseteq> T \<Longrightarrow> kept L e T"
  by (auto simp: kept_def)

lemma kept_filter:
  assumes "kept L e T" and "P e"
  shows "kept (filter P L) e T"
proof -
  obtain ys zs where "L = ys @ e # zs" "ce_key ` set ys \<subseteq> T" "distinct (map ce_key L)"
    using assms(1) by (auto simp: kept_def)
  then show ?thesis
    using assms(2) by (intro keptI [of _ "filter P ys" _ "filter P zs"]) (auto simp: distinct_map_filter)
qed

lemma kept_cons:
  assumes "kept L e T" and "ce_key f \<notin> ce_key ` set L"
  shows "kept (f # L) e (insert (ce_key f) T)"
proof -
  obtain ys zs where "L = ys @ e # zs" "ce_key ` set ys \<subseteq> T" "distinct (map ce_key L)"
    using assms(1) by (auto simp: kept_def)
  then show ?thesis
    using assms(2) by (intro keptI [of _ "f # ys" _ zs]) auto
qed

lemma kept_mono: "kept L e T \<Longrightarrow> T \<subseteq> T' \<Longrightarrow> kept L e T'"
  by (fastforce simp: kept_def)

lemma kept_entry:
  assumes "kept L e T"
  shows "entry_of L (ce_key e) = Some e" and "e \<in> set L"
proof -
  obtain ys zs where L: "L = ys @ e # zs" "distinct (map ce_key L)"
    using assms by (auto simp: kept_def)
  then have "ce_key e \<notin> ce_key ` set ys" by auto
  then have "List.find (\<lambda>e'. ce_key e' = ce_key e) (ys @ e # zs) = Some e"
    by (induction ys) auto
  then show "entry_of L (ce_key e) = Some e" "e \<in> set L"
    by (simp_all add: L entry_of_def)
qed

lemma set_drop_expired: "set (drop_expired now n xs) \<subseteq> set xs"
  by (induction xs arbitrary: n) (auto simp: subset_insertI2)

lemma distinct_drop_expired: "distinct (map f xs) \<Longrightarrow> distinct (map f (drop_expired now n xs))"
  using set_drop_expired by (induction xs arbitrary: n) (auto simp: image_iff, blast)

lemma drop_expired_keeps:
  assumes "\<not> isExpired e now"
  shows "\<exists>as bs. drop_expired now n (xs @ e # ys) = as @ e # bs \<and> set bs \<subseteq> set ys"
proof (induction xs arbitrary: n)
  case Nil
  show ?case
    using assms set_drop_expired [of now n ys]
    by (intro exI [of _ "[]"] exI [of _ "if n = 0 then ys else drop_expired now n ys"]) auto
next
  case (Cons x xs)
  obtain as bs where ih: "drop_expired now n (xs @ e # ys) = as @ e # bs" "set bs \<subseteq> set ys"
    using Cons.IH by blast
  show ?case
  proof (cases "n = 0")
    case True
    then show ?thesis by (intro exI [of _ "x # xs"] exI [of _ ys]) simp
  next
    case False
    then show ?thesis
      using Cons.IH [of "n - 1"] ih
      by (cases "isExpired x now") (simp, intro exI [of _ "x # as"] exI [of _ bs], simp)
  qed
qed

lemma kept_prune:
  assumes "kept L e T" and "\<not> isExpired e now"
  shows "kept (lru_prune L now n) e T"
proof -
  obtain ys zs where L: "L = ys @ e # zs" "ce_key ` set ys \<subseteq> T" "distinct (map ce_key L)"
    using assms(1) by (auto simp: kept_def)
  obtain as bs where d: "drop_expired now n (rev zs @ e # rev ys) = as @ e # bs" "set bs \<subseteq> set (rev ys)"
    using drop_expired_keeps [OF assms(2)] by blast
  have "distinct (map ce_key (drop_expired now n (rev L)))"
    using L(3) by (intro distinct_drop_expired) (simp add: rev_map [symmetric])
  then have "distinct (map ce_key (lru_prune L now n))"
    by (simp add: lru_prune_def rev_map [symmetric])
  moreover have "lru_prune L now n = rev bs @ e # rev as"
    using d(1) by (simp add: lru_prune_def L(1))
  ultimately show ?thesis
    using d(2) L(2) by (intro keptI [of _ "rev bs" _ "rev as"]) auto
qed

lemma kept_get:
  assumes "kept L e T" and "\<not> isExpired e now"
  shows "kept (snd (lru_get L now k)) e (insert k T)"
proof (cases "entry_of L k")
  case None
  then show ?thesis using assms by (simp add: lru_get_def kept_mono subset_insertI)
next
  case (Some f)
  have f: "ce_key f = k" "f \<in> set L"
    using Some by (auto simp: entry_of_def find_Some_iff)
  have no: "ce_key f \<notin> ce_key ` set (drop_key k L)"
    using f by (auto simp: drop_key_def)
  show ?thesis
  proof (cases "k = ce_key e")
    case True
    then have "f = e" using Some kept_entry(1) [OF assms(1)] by simp
    moreover have "distinct (map ce_key (drop_key k L))"
      using assms(1) by (simp add: kept_def drop_key_def distinct_map_filter)
    ultimately show ?thesis
      using assms(2) Some no by (auto simp: lru_get_def intro!: keptI [of _ "[]"])
  next
    case False
    then have "kept (drop_key k L) e T"
      unfolding drop_key_def by (intro kept_filter [OF assms(1)]) simp
    then show ?thesis
      using Some no f(1) kept_cons [of "drop_key k L" e T f] by (auto simp: lru_get_def intro: kept_mono)
  qed
qed

lemma kept_set:
  assumes "kept L e T" and "ce_key f \<noteq> ce_key e" and "length L \<le> cap"
    and "finite T" and "card (insert (ce_key f) T - {ce_key e}) < cap"
  shows "kept (lru_set cap L f) e (insert (ce_key f) T)"
proof (cases "ce_key f \<in> ce_key ` set L")
  case True
  have "kept (drop_key (ce_key f) L) e T"
    unfolding drop_key_def using assms(2) by (intro kept_filter [OF assms(1)]) simp
  moreover have "ce_key f \<notin> ce_key ` set (drop_key (ce_key f) L)"
    by (auto simp: drop_key_def)
  ultimately show ?thesis
    using True kept_cons by (simp add: lru_set_def)
next
  case new: False
  show ?thesis
  proof (cases "length L \<ge> cap")
    case False
    then show ?thesis using new assms(1) by (simp add: lru_set_def kept_cons)
  next
    case True
    obtain ys zs where L: "L = ys @ e # zs" "ce_key ` set ys \<subseteq> T" "distinct (map ce_key L)"
      using assms(1) by (auto simp: kept_def)
    have "zs \<noteq> []"
    proof
      assume "zs = []"
      then have "cap = Suc (length ys)" using L(1) True assms(3) by simp
      moreover have "card (insert (ce_key f) (ce_key ` set ys)) = Suc (length ys)"
      proof -
        have "card (ce_key ` set ys) = length ys"
          using L(1,3) distinct_card [of "map ce_key ys"] by simp
        moreover have "ce_key f \<notin> ce_key ` set ys"
          using new by (simp add: L(1) image_Un)
        ultimately show ?thesis
          using card_insert_disjoint [of "ce_key ` set ys" "ce_key f"] by (simp only: finite_imageI finite_set simp_thms)
      qed
      moreover have "ce_key e \<notin> ce_key ` set ys"
        using L(1,3) by simp
      then have "insert (ce_key f) (ce_key ` set ys) \<subseteq> insert (ce_key f) T - {ce_key e}"
        using L(2) assms(2) by (simp add: subset_Diff_insert subset_insertI2)
      then have "card (insert (ce_key f) (ce_key ` set ys)) \<le> card (insert (ce_key f) T - {ce_key e})"
        by (rule card_mono [rotated]) (simp add: assms(4))
      ultimately show False
        using assms(5) by linarith
    qed
    then have "butlast L = ys @ e # butlast zs" by (simp add: L(1) butlast_append)
    moreover have "distinct (map ce_key (butlast L))"
      using L(3) by (simp add: map_butlast distinct_butlast)
    ultimately have "kept (butlast L) e T"
      using L(2) by (intro keptI)
    moreover have "set (butlast L) \<subseteq> set L"
      by (auto dest: in_set_butlastD)
    then have "ce_key f \<notin> ce_key ` set (butlast L)"
      using new subsetD [OF image_mono] by metis
    ultimately have "kept (f # butlast L) e (insert (ce_key f) T)"
      by (rule kept_cons)
    with True new show ?thesis by (simp add: lru_set_def)
  qed
qed

lemma kept_step:
  assumes "kept L e U" and "spares e x" and "used x \<subseteq> U" and "finite U"
    and "card (U - {ce_key e}) < cap" and "length L \<le> cap"
  shows "kept (snd (lru_step cap L x)) e U"
proof -
  obtain now opr where x: "x = (now, opr)" by fastforce
  have ne: "\<not> isExpired e now" using assms(2) by (simp add: x)
  show ?thesis
  proof (cases opr)
    case (OpGet k)
    then show ?thesis
      using kept_get [OF assms(1) ne, of k] assms(3) by (simp add: x insert_absorb)
  next
    case (OpSet k v ttl)
    then show ?thesis
      using kept_set [OF assms(1), of "\<lparr>ce_key = k, ce_value = v, expiresAt = expiry now ttl\<rparr>" cap] assms
      by (simp add: x insert_absorb)
  next
    case (OpDelete k)
    then show ?thesis
      using assms(2) kept_filter [OF assms(1), of "\<lambda>e. ce_key e \<noteq> k"] by (auto simp: x drop_key_def)
  next
    case (OpDeletePrefix pre)
    then show ?thesis
      using assms(2) kept_filter [OF assms(1), of "\<lambda>e. \<not> prefix pre (ce_key e)"] by (simp add: x)
  next
    case (OpExists k)
    have "kept (snd (lru_get L now k)) e U" if "fst (lru_get L now k) = None"
      using that assms(1) ne kept_entry(1) [OF assms(1)] kept_filter [OF assms(1), of "\<lambda>e. ce_key e \<noteq> k"]
      by (cases "k = ce_key e") (auto simp: lru_get_def drop_key_def split: option.splits if_splits)
    then show ?thesis using OpExists assms(1) by (simp add: x)
  next
    case (OpPrune n)
    then show ?thesis using kept_prune [OF assms(1) ne] by (simp add: x)
  next
    case OpClear
    then show ?thesis using assms(2) by (simp add: x)
  qed
qed

lemma kept_history:
  assumes "store_inv m" and "kept (contents m) e U" and "\<forall>x \<in> set xs. spares e x \<and> used x \<subseteq> U" and "finite U"
    and "card (U - {ce_key e}) < maxEntries m"
  shows "kept (contents (snd (history store_step m xs))) e U \<and> store_inv (snd (history store_step m xs))"
  using assms
proof (induction xs arbitrary: m)
  case Nil
  then show ?case by simp
next
  case (Cons x xs)
  have "length (contents m) \<le> maxEntries m"
    using Cons.prems(1) by (simp add: store_inv_def contents_def)
  then have "kept (contents (snd (store_step m x))) e U"
    using kept_step [of "contents m" e U x "maxEntries m"] Cons.prems store_step_refines [OF Cons.prems(1), of x]
    by simp
  then show ?case
    using Cons.IH [of "snd (store_step m x)"] Cons.prems store_step_refines [OF Cons.prems(1), of x]
    by (simp add: case_prod_unfold)
qed

lemma distinct_contents: "store_inv m \<Longrightarrow> distinct (map ce_key (contents m))"
proof -
  assume inv: "store_inv m"
  have "inj_on (\<lambda>p. ce_key (elements m p)) (set (evictList m))"
  proof (rule inj_onI)
    fix p q
    assume "p \<in> set (evictList m)" "q \<in> set (evictList m)"
      and "ce_key (elements m p) = ce_key (elements m q)"
    then show "p = q" using store_invD(2) [OF inv] by (metis option.inject)
  qed
  then show ?thesis
    using store_invD(1) [OF inv] by (simp add: contents_def distinct_map comp_def)
qed

text \<open>
  C26: Recently used entries stay. After a value is stored, and as long as it is neither rewritten,
  deleted nor expired, reading its key returns it, provided fewer other keys than the capacity have
  been read or written since, whatever else happens to the cache.
\<close>

theorem recently_stored_kept:
  assumes "store_inv m" and "e = \<lparr>ce_key = k, ce_value = v, expiresAt = x\<rparr>"
    and "\<forall>y \<in> set ys. spares e y" and "card (\<Union> (used ` set ys) - {k}) < maxEntries m"
    and "\<not> isExpired e now"
  shows "fst (GetBytes (snd (history store_step (set_entry m k v x) ys)) now k) = Some v"
proof -
  let ?U = "\<Union> (used ` set ys)"
  let ?m = "snd (history store_step (set_entry m k v x) ys)"
  have inv: "store_inv (set_entry m k v x)"
    and c: "contents (set_entry m k v x) = lru_set (maxEntries m) (contents m) e"
    using set_entry_refines [OF assms(1), of k v x] assms(2) by simp_all
  have fin: "finite (used y)" for y
    by (cases y rule: used.cases) simp_all
  have "kept (contents (set_entry m k v x)) e ?U"
    using distinct_contents [OF inv] c by (intro keptI [of _ "[]"]) (auto simp: lru_set_def)
  then have "kept (contents ?m) e ?U \<and> store_inv ?m"
    using assms fin inv by (intro kept_history) auto
  then show ?thesis
    using GetBytes_refines(2) [of ?m now k] kept_entry(1) [of "contents ?m" e ?U] assms(2,5)
    by (simp add: lru_get_def)
qed

theorem recently_stored_kept_witness:
  "fst (GetBytes (snd (history store_step (set_entry (NewMemoryStore 2) ''a'' [7] (Some 50))
      [(1, OpSet ''b'' [1] 0), (2, OpGet ''b''), (3, OpPrune 9)])) 4 ''a'') = Some [7]"
  using recently_stored_kept [of "NewMemoryStore 2" "\<lparr>ce_key = ''a'', ce_value = [7], expiresAt = Some 50\<rparr>"
      "''a''" "[7]" "Some 50" "[(1, OpSet ''b'' [1] 0), (2, OpGet ''b''), (3, OpPrune 9)]" 4]
    NewMemoryStore_inv [of 2]
  by (simp add: isExpired_def)

end
