(* ===== verification/Cache.thy ===== *)
theory Cache
  imports Memory_Store
begin

text \<open>
  The cache facade of \<open>util/cache/cache.go\<close>: the package-level default store with its lazy
  initialisation, replacement and teardown. \<open>Store\<close> is an interface of the code, so the facade is
  polymorphic in the type of stores; store objects are addresses into the map \<open>stores\<close>, because
  \<open>SetDefault\<close> compares identities and several holders may share a store. A method call on the nil
  store is a panic, the value \<open>None\<close>.
\<close>

section \<open>The package state\<close>

record 's cache_package =
  stores :: "nat \<Rightarrow> 's"
  nextStore :: nat
  defaultStore :: "nat option"
  initOnce :: bool

definition cache_start :: "(nat \<Rightarrow> 's) \<Rightarrow> 's cache_package" where
  "cache_start mem = \<lparr>stores = mem, nextStore = 0, defaultStore = None, initOnce = False\<rparr>"

definition close_default :: "('s \<Rightarrow> 's) \<Rightarrow> 's cache_package \<Rightarrow> 's cache_package" where
  "close_default close p =
     (case defaultStore p of None \<Rightarrow> p | Some a \<Rightarrow> p\<lparr>stores := (stores p)(a := close (stores p a))\<rparr>)"

definition Init :: "(int \<Rightarrow> 's) \<Rightarrow> ('s \<Rightarrow> 's) \<Rightarrow> int \<Rightarrow> 's cache_package \<Rightarrow> 's cache_package" where
  "Init new close maxEntries' p =
     (let p = close_default close p;
          maxEntries' = (if maxEntries' \<le> 0 then 10000 else maxEntries')
      in p\<lparr>stores := (stores p)(nextStore p := new maxEntries'), nextStore := nextStore p + 1,
           defaultStore := Some (nextStore p)\<rparr>)"

definition Default :: "(int \<Rightarrow> 's) \<Rightarrow> ('s \<Rightarrow> 's) \<Rightarrow> 's cache_package \<Rightarrow> nat option \<times> 's cache_package" where
  "Default new close p =
     (case defaultStore p of
        Some a \<Rightarrow> (Some a, p)
      | None \<Rightarrow>
          (let p = (if initOnce p then p else Init new close 10000 (p\<lparr>initOnce := True\<rparr>))
           in (defaultStore p, p)))"

definition SetDefault :: "('s \<Rightarrow> 's) \<Rightarrow> nat option \<Rightarrow> 's cache_package \<Rightarrow> 's cache_package" where
  "SetDefault close s p =
     (let p = (if defaultStore p \<noteq> None \<and> defaultStore p \<noteq> s then close_default close p else p)
      in p\<lparr>defaultStore := s\<rparr>)"

definition CachePackageClose :: "('s \<Rightarrow> 's) \<Rightarrow> 's cache_package \<Rightarrow> 's cache_package" where
  "CachePackageClose close p =
     (if defaultStore p \<noteq> None then (close_default close p)\<lparr>defaultStore := None\<rparr> else p)"

text \<open>
  The wrappers call one method of the default store: \<open>with_default\<close> is their common body, for a
  method that returns a result and the updated store.
\<close>

definition with_default ::
  "(int \<Rightarrow> 's) \<Rightarrow> ('s \<Rightarrow> 's) \<Rightarrow> ('s \<Rightarrow> 'r \<times> 's) \<Rightarrow> 's cache_package \<Rightarrow> 'r option \<times> 's cache_package" where
  "with_default new close method p =
     (case Default new close p of
        (None, p) \<Rightarrow> (None, p)
      | (Some a, p) \<Rightarrow>
          (case method (stores p a) of (r, s) \<Rightarrow> (Some r, p\<lparr>stores := (stores p)(a := s)\<rparr>)))"

section \<open>The interface of a store\<close>

text \<open>
  What the users of the facade rely on: a stored value is returned until it expires or is deleted,
  a deleted key is not found, and every operation keeps the store's invariant.
\<close>

locale byte_store =
  fixes inv :: "'s \<Rightarrow> bool"
    and new :: "int \<Rightarrow> 's"
    and get :: "'s \<Rightarrow> int \<Rightarrow> string \<Rightarrow> bytes option \<times> 's"
    and put :: "'s \<Rightarrow> int \<Rightarrow> string \<Rightarrow> bytes \<Rightarrow> int \<Rightarrow> 's"
    and del :: "'s \<Rightarrow> string \<Rightarrow> 's"
    and close :: "'s \<Rightarrow> 's"
  assumes inv_new: "inv (new n)"
    and inv_get: "inv s \<Longrightarrow> inv (snd (get s now k))"
    and inv_put: "inv s \<Longrightarrow> inv (put s now k v ttl)"
    and inv_del: "inv s \<Longrightarrow> inv (del s k)"
    and inv_close: "inv s \<Longrightarrow> inv (close s)"
    and get_put: "inv s \<Longrightarrow> ttl \<le> 0 \<or> later \<le> now + ttl \<Longrightarrow> fst (get (put s now k v ttl) later k) = Some v"
    and get_del: "inv s \<Longrightarrow> fst (get (del s k) now k) = None"
    and get_again: "inv s \<Longrightarrow> fst (get s now k) = Some v \<Longrightarrow> fst (get (snd (get s now k)) now k) = Some v"
begin

definition all_inv :: "'s cache_package \<Rightarrow> bool" where
  "all_inv p \<longleftrightarrow> (\<forall>a. inv (stores p a))"

definition usable :: "'s cache_package \<Rightarrow> bool" where
  "usable p \<longleftrightarrow> defaultStore p \<noteq> None \<or> \<not> initOnce p"

lemma all_inv_close: "all_inv p \<Longrightarrow> all_inv (close_default close p)"
  by (auto simp: all_inv_def close_default_def inv_close split: option.splits)

lemma all_inv_Init: "all_inv p \<Longrightarrow> all_inv (Init new close n p)"
  using all_inv_close [of p] by (auto simp: Init_def Let_def all_inv_def inv_new)

lemma Default_inv: "all_inv p \<Longrightarrow> all_inv (snd (Default new close p))"
  using all_inv_Init [of "p\<lparr>initOnce := True\<rparr>" 10000]
  by (auto simp: Default_def Let_def all_inv_def split: option.splits)

lemma Default_usable:
  "usable p \<Longrightarrow> \<exists>a. fst (Default new close p) = Some a \<and> defaultStore (snd (Default new close p)) = Some a"
  by (auto simp: usable_def Default_def Init_def Let_def split: option.splits)

lemma with_default_usable:
  assumes "usable p"
  obtains a p' where "Default new close p = (Some a, p')" "defaultStore p' = Some a"
  using Default_usable [OF assms] by (metis prod.collapse)

text \<open>A stored value is read back through the facade, whichever store the default is.\<close>

lemma facade_set_get:
  assumes "all_inv p" and "usable p" and "ttl \<le> 0 \<or> later \<le> now + ttl"
    and "p' = snd (with_default new close (\<lambda>s. ((), put s now k v ttl)) p)"
  shows "fst (with_default new close (\<lambda>s. get s later k) p') = Some (Some v)"
proof -
  obtain a q where d: "Default new close p = (Some a, q)" "defaultStore q = Some a"
    using assms(2) by (rule with_default_usable)
  have "inv (stores q a)"
    using Default_inv [OF assms(1)] d(1) by (simp add: all_inv_def)
  moreover have "p' = q\<lparr>stores := (stores q)(a := put (stores q a) now k v ttl)\<rparr>"
    using assms(4) d(1) by (simp add: with_default_def)
  ultimately show ?thesis
    using get_put [of "stores q a" ttl later now k v] assms(3) d(2)
    by (simp add: with_default_def Default_def case_prod_unfold)
qed

lemma facade_delete_get:
  assumes "all_inv p" and "usable p"
    and "p' = snd (with_default new close (\<lambda>s. ((), del s k)) p)"
  shows "fst (with_default new close (\<lambda>s. get s now k) p') = Some None"
proof -
  obtain a q where d: "Default new close p = (Some a, q)" "defaultStore q = Some a"
    using assms(2) by (rule with_default_usable)
  have "inv (stores q a)"
    using Default_inv [OF assms(1)] d(1) by (simp add: all_inv_def)
  moreover have "p' = q\<lparr>stores := (stores q)(a := del (stores q a) k)\<rparr>"
    using assms(3) d(1) by (simp add: with_default_def)
  ultimately show ?thesis
    using get_del [of "stores q a" k now] d(2)
    by (simp add: with_default_def Default_def case_prod_unfold)
qed

end

section \<open>The in-memory store provides the interface\<close>

definition store_put :: "MemoryStore \<Rightarrow> int \<Rightarrow> string \<Rightarrow> bytes \<Rightarrow> int \<Rightarrow> MemoryStore" where
  "store_put m now k v ttl = snd (CacheSet (\<lambda>_. []) (\<lambda>_. Inr [] :: unit + bytes) m now k (CBytes v :: unit cache_value) ttl)"

lemma store_put_set_entry: "store_put m now k v ttl = set_entry m k v (expiry now ttl)"
  by (simp add: store_put_def CacheSet_def serializeValue_def)

lemma CloseStore_inv: "store_inv m \<Longrightarrow> store_inv (CloseStore m)"
  by (auto simp: CloseStore_def store_inv_def)

lemma entry_of_drop_key [simp]: "entry_of (drop_key k L) k = None"
  by (auto simp: entry_of_None drop_key_def)

lemma entry_of_key: "entry_of L k = Some e \<Longrightarrow> ce_key e = k"
  by (auto simp: entry_of_def find_Some_iff)

lemma lru_get_again:
  "fst (lru_get L now k) = Some v \<Longrightarrow> fst (lru_get (snd (lru_get L now k)) now k) = Some v"
  by (cases "entry_of L k") (auto simp: lru_get_def entry_of_def dest: entry_of_key [unfolded entry_of_def]
      split: if_splits)

interpretation mem: byte_store store_inv NewMemoryStore GetBytes store_put Delete CloseStore
proof unfold_locales
  fix s and now ttl later :: int and k v
  assume inv: "store_inv s" and t: "ttl \<le> 0 \<or> later \<le> now + ttl"
  show "fst (GetBytes (store_put s now k v ttl) later k) = Some v"
    using set_entry_refines [OF inv, of k v "expiry now ttl"] t
      GetBytes_refines(2) [of "store_put s now k v ttl" later k]
    by (auto simp: store_put_set_entry lru_get_def lru_set_def entry_of_def expiry_def isExpired_def)
next
  fix s now k v
  assume inv: "store_inv s" and g: "fst (GetBytes s now k) = Some v"
  then show "fst (GetBytes (snd (GetBytes s now k)) now k) = Some v"
    using GetBytes_refines [OF inv, of now k] GetBytes_refines(2) [of "snd (GetBytes s now k)" now k]
      lru_get_again [of "contents s" now k v]
    by simp
next
  fix s k now
  assume inv: "store_inv s"
  show "fst (GetBytes (Delete s k) now k) = None"
    using Delete_refines [OF inv, of k] GetBytes_refines(2) [of "Delete s k" now k]
    by (auto simp: lru_get_def)
qed (simp_all add: NewMemoryStore_inv GetBytes_refines(1) store_put_set_entry set_entry_refines
    Delete_refines CloseStore_inv)

text \<open>
  Values come back through the default cache. From any package state whose stores are
  consistent and whose default store is set or not yet lazily initialised, a value stored through
  the facade is read back through it until its time to live has passed, and a deleted key is not
  found.
\<close>

theorem default_cache_set_get:
  assumes "\<forall>a. store_inv (stores p a)" and "defaultStore p \<noteq> None \<or> \<not> initOnce p"
    and "ttl \<le> 0 \<or> later \<le> now + ttl"
    and "p' = snd (with_default NewMemoryStore CloseStore (\<lambda>s. ((), store_put s now k v ttl)) p)"
    and "p'' = snd (with_default NewMemoryStore CloseStore (\<lambda>s. ((), Delete s k)) p)"
  shows "fst (with_default NewMemoryStore CloseStore (\<lambda>s. GetBytes s later k) p') = Some (Some v) \<and>
    fst (with_default NewMemoryStore CloseStore (\<lambda>s. GetBytes s later k) p'') = Some None"
  using mem.facade_set_get [OF _ _ assms(3,4)] mem.facade_delete_get [OF _ _ assms(5)] assms(1,2)
  by (simp add: mem.all_inv_def mem.usable_def)

theorem default_cache_set_get_witness:
  "fst (with_default NewMemoryStore CloseStore (\<lambda>s. GetBytes s 5 ''k'')
     (snd (with_default NewMemoryStore CloseStore (\<lambda>s. ((), store_put s 0 ''k'' [1] 9))
       (cache_start (\<lambda>_. NewMemoryStore 1))))) = Some (Some [1])"
  using default_cache_set_get [of "cache_start (\<lambda>_. NewMemoryStore 1)" 9 5 0 _ "''k''" "[1]"]
    NewMemoryStore_inv(1)
  by (simp add: cache_start_def)

text \<open>
  After a lazily initialised cache is closed, the facade is unusable: the once-guard has fired
  and the default store is nil, so the next call through the facade panics, and so does every
  later one, until a store is installed explicitly.
\<close>

theorem closed_cache_panics:
  assumes "defaultStore p = None" and "\<not> initOnce p"
    and "p' = CachePackageClose CloseStore (snd (with_default NewMemoryStore CloseStore method p))"
  shows "with_default NewMemoryStore CloseStore method' p' = (None, p')"
  using assms
  by (simp add: with_default_def Default_def Init_def CachePackageClose_def close_default_def Let_def
      case_prod_unfold)

theorem closed_cache_panics_witness:
  "fst (with_default NewMemoryStore CloseStore (\<lambda>s. GetBytes s 2 ''k'')
     (CachePackageClose CloseStore (snd (with_default NewMemoryStore CloseStore
       (\<lambda>s. ((), store_put s 0 ''k'' [1] 0)) (cache_start (\<lambda>_. NewMemoryStore 1)))))) = None"
  using closed_cache_panics [of "cache_start (\<lambda>_. NewMemoryStore 1)" _ "\<lambda>s. ((), store_put s 0 ''k'' [1] 0)"
      "\<lambda>s. GetBytes s 2 ''k''"]
  by (simp add: cache_start_def)

end
