(* ===== verification/Write_Behind.thy ===== *)
theory Write_Behind
  imports Prelude
begin

text \<open>
  The write-behind buffer of \<open>util/cache/batch.go\<close>. \<open>Flush\<close> holds the buffer's mutex only while it
  swaps the dirty map out and while it puts a failed batch back; the flush callback runs in between
  under a second mutex. Its two critical sections are therefore two steps, and the callers, the
  worker and other flushes interleave with them. The callback is modelled by its effect on the
  backing store: a success writes the whole batch, a failure may have written any part of it.
\<close>

section \<open>Operations\<close>

datatype wb_error = ErrBufferClosed

record ('k, 'v) WriteBehindBuffer =
  dirty :: "'k \<rightharpoonup> 'v"
  maxBatchSize :: nat
  flushReq :: bool
  wb_closed :: bool

definition NewWriteBehindBuffer :: "int \<Rightarrow> ('k, 'v) WriteBehindBuffer" where
  "NewWriteBehindBuffer batch =
     \<lparr>dirty = Map.empty, maxBatchSize = (if batch \<le> 0 then 50 else nat batch), flushReq = False,
      wb_closed = False\<rparr>"

definition signal :: "('k, 'v) WriteBehindBuffer \<Rightarrow> ('k, 'v) WriteBehindBuffer" where
  "signal b = (if card (dom (dirty b)) \<ge> maxBatchSize b then b\<lparr>flushReq := True\<rparr> else b)"

definition Put ::
  "('k, 'v) WriteBehindBuffer \<Rightarrow> 'k \<Rightarrow> 'v \<Rightarrow> wb_error option \<times> ('k, 'v) WriteBehindBuffer" where
  "Put b key value =
     (if wb_closed b then (Some ErrBufferClosed, b)
      else (None, signal (b\<lparr>dirty := (dirty b)(key \<mapsto> value)\<rparr>)))"

definition PutMany ::
  "('k, 'v) WriteBehindBuffer \<Rightarrow> ('k \<rightharpoonup> 'v) \<Rightarrow> wb_error option \<times> ('k, 'v) WriteBehindBuffer" where
  "PutMany b entries =
     (if entries = Map.empty then (None, b)
      else if wb_closed b then (Some ErrBufferClosed, b)
      else (None, signal (b\<lparr>dirty := dirty b ++ entries\<rparr>)))"

text \<open>The first critical section of \<open>Flush\<close>: nothing to do, or the batch that was swapped out.\<close>

definition flush_swap ::
  "('k, 'v) WriteBehindBuffer \<Rightarrow> ('k \<rightharpoonup> 'v) option \<times> ('k, 'v) WriteBehindBuffer" where
  "flush_swap b =
     (if dirty b = Map.empty then (None, b) else (Some (dirty b), b\<lparr>dirty := Map.empty\<rparr>))"

text \<open>The second one, after the callback failed: keys that are dirty again keep their newer value.\<close>

definition flush_restore :: "('k, 'v) WriteBehindBuffer \<Rightarrow> ('k \<rightharpoonup> 'v) \<Rightarrow> ('k, 'v) WriteBehindBuffer" where
  "flush_restore b batch = b\<lparr>dirty := batch ++ dirty b\<rparr>"

definition PendingCount :: "('k, 'v) WriteBehindBuffer \<Rightarrow> nat" where
  "PendingCount b = card (dom (dirty b))"

definition close_begin :: "('k, 'v) WriteBehindBuffer \<Rightarrow> ('k, 'v) WriteBehindBuffer" where
  "close_begin b = b\<lparr>wb_closed := True\<rparr>"

text \<open>
  One whole \<open>Flush\<close> that nothing interleaves with. The result of the callback is a parameter: an
  error and the store it left, or the store after the write; a nil callback drops the batch.
\<close>

definition Flush ::
  "(('k \<rightharpoonup> 'v) \<Rightarrow> 's \<Rightarrow> 'e option \<times> 's) option \<Rightarrow> ('k, 'v) WriteBehindBuffer \<Rightarrow> 's \<Rightarrow>
    'e option \<times> ('k, 'v) WriteBehindBuffer \<times> 's" where
  "Flush flushFn b s =
     (case flush_swap b of
        (None, b) \<Rightarrow> (None, b, s)
      | (Some batch, b) \<Rightarrow>
          (case flushFn of
             None \<Rightarrow> (None, b, s)
           | Some f \<Rightarrow>
               (case f batch s of
                  (None, s) \<Rightarrow> (None, b, s)
                | (Some err, s) \<Rightarrow> (Some err, flush_restore b batch, s))))"

definition CloseBuffer ::
  "(('k \<rightharpoonup> 'v) \<Rightarrow> 's \<Rightarrow> 'e option \<times> 's) option \<Rightarrow> ('k, 'v) WriteBehindBuffer \<Rightarrow> 's \<Rightarrow>
    'e option \<times> ('k, 'v) WriteBehindBuffer \<times> 's" where
  "CloseBuffer flushFn b s =
     (if wb_closed b then (None, b, s) else Flush flushFn (close_begin b) s)"

section \<open>Interleavings\<close>

text \<open>
  A system state: the buffer, the batches that running flushes have swapped out, the backing store,
  and, as a ghost, what a store without a buffer would hold after the accepted writes.
\<close>

record ('k, 'v) wb_system =
  buffer :: "('k, 'v) WriteBehindBuffer"
  flights :: "('k \<rightharpoonup> 'v) list"
  backing :: "'k \<rightharpoonup> 'v"
  direct :: "'k \<rightharpoonup> 'v"

definition wb_start :: "int \<Rightarrow> ('k \<rightharpoonup> 'v) \<Rightarrow> ('k, 'v) wb_system" where
  "wb_start batch db = \<lparr>buffer = NewWriteBehindBuffer batch, flights = [], backing = db, direct = db\<rparr>"

text \<open>The parameter bounds how many flushes overlap.\<close>

inductive wb_step :: "nat \<Rightarrow> ('k, 'v) wb_system \<Rightarrow> ('k, 'v) wb_system \<Rightarrow> bool" for n where
  put: "Put (buffer s) k v = (None, b) \<Longrightarrow>
    wb_step n s (s\<lparr>buffer := b, direct := (direct s)(k \<mapsto> v)\<rparr>)"
| put_many: "PutMany (buffer s) m = (None, b) \<Longrightarrow>
    wb_step n s (s\<lparr>buffer := b, direct := direct s ++ m\<rparr>)"
| swap: "flush_swap (buffer s) = (Some batch, b) \<Longrightarrow> length (flights s) < n \<Longrightarrow>
    wb_step n s (s\<lparr>buffer := b, flights := flights s @ [batch]\<rparr>)"
| success: "batch \<in> set (flights s) \<Longrightarrow>
    wb_step n s (s\<lparr>flights := remove1 batch (flights s), backing := backing s ++ batch\<rparr>)"
| failure: "batch \<in> set (flights s) \<Longrightarrow>
    wb_step n s (s\<lparr>flights := remove1 batch (flights s), backing := backing s ++ (batch |` written),
      buffer := flush_restore (buffer s) batch\<rparr>)"
| request: "flushReq (buffer s) \<Longrightarrow> wb_step n s (s\<lparr>buffer := (buffer s)\<lparr>flushReq := False\<rparr>\<rparr>)"
| close: "wb_step n s (s\<lparr>buffer := close_begin (buffer s)\<rparr>)"

inductive wb_reachable :: "nat \<Rightarrow> int \<Rightarrow> ('k \<rightharpoonup> 'v) \<Rightarrow> ('k, 'v) wb_system \<Rightarrow> bool" for n batch db where
  start: "wb_reachable n batch db (wb_start batch db)"
| step: "wb_reachable n batch db s \<Longrightarrow> wb_step n s t \<Longrightarrow> wb_reachable n batch db t"

inductive_cases wb_stepE: "wb_step n s t"

lemma signal_sel [simp]: "dirty (signal b) = dirty b" "wb_closed (signal b) = wb_closed b"
  "maxBatchSize (signal b) = maxBatchSize b"
  by (simp_all add: signal_def)

lemma Put_accepted: "Put b k v = (None, b') \<longleftrightarrow> \<not> wb_closed b \<and> b' = signal (b\<lparr>dirty := (dirty b)(k \<mapsto> v)\<rparr>)"
  by (auto simp: Put_def)

lemma PutMany_accepted: "PutMany b m = (None, b') \<Longrightarrow> dirty b' = dirty b ++ m"
  by (auto simp: PutMany_def split: if_splits)

text \<open>Store, batch in flight and dirty entries, the newer over the older, make up the direct store.\<close>

definition layered :: "('k, 'v) wb_system \<Rightarrow> bool" where
  "layered s \<longleftrightarrow> length (flights s) \<le> 1 \<and>
     backing s ++ (case flights s of [] \<Rightarrow> Map.empty | f # _ \<Rightarrow> f) ++ dirty (buffer s) = direct s"

lemma restrict_absorb: "(f |` A) ++ (f ++ d) = f ++ d"
  by (rule ext) (simp add: map_add_def restrict_map_def split: option.splits)

lemma layered_step:
  assumes "layered s" and "wb_step 1 s t"
  shows "layered t"
  using assms(2)
proof cases
  case (put k v b)
  then show ?thesis
    using assms(1) by (auto simp: layered_def Put_accepted)
next
  case (put_many m b)
  then show ?thesis
    using assms(1) PutMany_accepted [of "buffer s" m b] by (auto simp: layered_def)
next
  case (swap batch b)
  then show ?thesis
    using assms(1) by (auto simp: layered_def flush_swap_def split: if_splits)
next
  case (success batch)
  then have "flights s = [batch]"
    using assms(1) by (cases "flights s") (auto simp: layered_def)
  then show ?thesis using assms(1) success by (simp add: layered_def)
next
  case (failure batch written)
  then have "flights s = [batch]"
    using assms(1) by (cases "flights s") (auto simp: layered_def)
  then show ?thesis
    using assms(1) failure restrict_absorb [of batch written "dirty (buffer s)"]
    by (simp add: layered_def flush_restore_def flip: map_add_assoc)
next
  case request
  then show ?thesis using assms(1) by (simp add: layered_def)
next
  case close
  then show ?thesis using assms(1) by (simp add: layered_def close_begin_def)
qed

lemma layered_reachable: "wb_reachable 1 batch db s \<Longrightarrow> layered s"
proof (induction rule: wb_reachable.induct)
  case start
  then show ?case by (simp add: layered_def wb_start_def NewWriteBehindBuffer_def)
next
  case (step s t)
  then show ?case by (blast intro: layered_step)
qed

text \<open>
  C12: No write is lost while flushes do not overlap. In every reachable interleaving of writes,
  flush requests, flushes that succeed, flushes that fail after writing any part of their batch,
  and closing, the backing store overlaid with the batch in flight and the dirty entries is exactly
  what writing through directly would have stored; once nothing is pending they are equal.
\<close>

theorem write_behind_loses_nothing:
  assumes "wb_reachable 1 batch db s"
  shows "backing s ++ (case flights s of [] \<Rightarrow> Map.empty | f # _ \<Rightarrow> f) ++ dirty (buffer s) = direct s \<and>
    (flights s = [] \<and> dirty (buffer s) = Map.empty \<longrightarrow> backing s = direct s)"
  using layered_reachable [OF assms] by (auto simp: layered_def)

lemmas wb_run = wb_start_def NewWriteBehindBuffer_def Put_def signal_def flush_swap_def flush_restore_def

definition put_one :: "('k, 'v) wb_system \<Rightarrow> 'k \<Rightarrow> 'v \<Rightarrow> ('k, 'v) wb_system" where
  "put_one s k v = s\<lparr>buffer := snd (Put (buffer s) k v), direct := (direct s)(k \<mapsto> v)\<rparr>"

definition swap_out :: "('k, 'v) wb_system \<Rightarrow> ('k, 'v) wb_system" where
  "swap_out s = s\<lparr>buffer := (buffer s)\<lparr>dirty := Map.empty\<rparr>, flights := flights s @ [dirty (buffer s)]\<rparr>"

lemma reach_put:
  "wb_reachable n batch db s \<Longrightarrow> \<not> wb_closed (buffer s) \<Longrightarrow> wb_reachable n batch db (put_one s k v)"
  unfolding put_one_def by (erule wb_reachable.step, rule wb_step.put) (simp add: Put_def)

lemma reach_swap:
  "wb_reachable n batch db s \<Longrightarrow> dirty (buffer s) \<noteq> Map.empty \<Longrightarrow> length (flights s) < n \<Longrightarrow>
    wb_reachable n batch db (swap_out s)"
  unfolding swap_out_def by (erule wb_reachable.step, rule wb_step.swap) (simp_all add: flush_swap_def)

lemma reach_success:
  "wb_reachable n batch db s \<Longrightarrow> f \<in> set (flights s) \<Longrightarrow>
    wb_reachable n batch db (s\<lparr>flights := remove1 f (flights s), backing := backing s ++ f\<rparr>)"
  by (erule wb_reachable.step, rule wb_step.success)

lemma reach_failure:
  "wb_reachable n batch db s \<Longrightarrow> f \<in> set (flights s) \<Longrightarrow>
    wb_reachable n batch db (s\<lparr>flights := remove1 f (flights s), backing := backing s ++ (f |` written),
      buffer := flush_restore (buffer s) f\<rparr>)"
  by (erule wb_reachable.step, rule wb_step.failure)

theorem write_behind_loses_nothing_witness:
  "backing (swap_out (put_one (wb_start 5 Map.empty) (1 :: nat) True)) ++ [1 \<mapsto> True] ++ Map.empty = [1 \<mapsto> True]"
proof -
  let ?s = "swap_out (put_one (wb_start 5 Map.empty) (1 :: nat) True)"
  have "wb_reachable 1 5 Map.empty ?s"
    by (intro reach_swap reach_put wb_reachable.start) (simp_all add: put_one_def wb_run)
  from write_behind_loses_nothing [OF this] show ?thesis
    by (simp add: swap_out_def put_one_def wb_run)
qed

text \<open>
  Overlapping flushes can resurrect an overwritten value. With two flushes in flight, the one
  that holds the older value of a key can fail after the newer value has left the dirty map: the
  old value is restored as if nothing newer existed, and when everything has been flushed the
  backing store holds the overwritten value.
\<close>

theorem overlapping_flushes_resurrect:
  assumes "old \<noteq> new"
  shows "\<exists>s :: ('k, 'v) wb_system. wb_reachable 2 batch Map.empty s \<and> flights s = [] \<and>
    dirty (buffer s) = Map.empty \<and> direct s = [k \<mapsto> new] \<and> backing s = [k \<mapsto> old]"
proof -
  let ?s1 = "swap_out (put_one (wb_start batch Map.empty) k old) :: ('k, 'v) wb_system"
  let ?s2 = "swap_out (put_one ?s1 k new)"
  let ?s3 = "?s2\<lparr>flights := remove1 [k \<mapsto> old] (flights ?s2), backing := backing ?s2 ++ ([k \<mapsto> old] |` {}),
      buffer := flush_restore (buffer ?s2) [k \<mapsto> old]\<rparr>"
  let ?s4 = "?s3\<lparr>flights := remove1 [k \<mapsto> new] (flights ?s3), backing := backing ?s3 ++ [k \<mapsto> new]\<rparr>"
  let ?s5 = "swap_out ?s4"
  let ?s6 = "?s5\<lparr>flights := remove1 [k \<mapsto> old] (flights ?s5), backing := backing ?s5 ++ [k \<mapsto> old]\<rparr>"
  have ne: "[k \<mapsto> old] \<noteq> [k \<mapsto> new]" "[k \<mapsto> new] \<noteq> [k \<mapsto> old]"
    using assms by (auto dest: fun_cong [where x = k])
  have "wb_reachable 2 batch Map.empty ?s1"
    by (intro reach_swap reach_put wb_reachable.start) (simp_all add: put_one_def wb_run)
  then have "wb_reachable 2 batch Map.empty (put_one ?s1 k new)"
    by (rule reach_put) (simp add: put_one_def swap_out_def wb_run)
  then have "wb_reachable 2 batch Map.empty ?s2"
    by (rule reach_swap) (simp_all add: put_one_def swap_out_def wb_run)
  then have "wb_reachable 2 batch Map.empty ?s3"
    by (rule reach_failure) (simp add: put_one_def swap_out_def wb_run)
  then have "wb_reachable 2 batch Map.empty ?s4"
    by (rule reach_success) (use ne in \<open>simp add: put_one_def swap_out_def wb_run\<close>)
  then have "wb_reachable 2 batch Map.empty ?s5"
    by (rule reach_swap) (use ne in \<open>simp_all add: put_one_def swap_out_def wb_run\<close>)
  then have "wb_reachable 2 batch Map.empty ?s6"
    by (rule reach_success) (use ne in \<open>simp add: put_one_def swap_out_def wb_run\<close>)
  moreover have "flights ?s6 = []" "dirty (buffer ?s6) = Map.empty" "direct ?s6 = [k \<mapsto> new]"
    "backing ?s6 = [k \<mapsto> old]"
    using ne by (simp_all add: put_one_def swap_out_def wb_run)
  ultimately show ?thesis by blast
qed

theorem overlapping_flushes_resurrect_witness:
  "\<exists>s :: (nat, bool) wb_system. wb_reachable 2 50 Map.empty s \<and> flights s = [] \<and>
    dirty (buffer s) = Map.empty \<and> direct s = [0 \<mapsto> True] \<and> backing s = [0 \<mapsto> False]"
  using overlapping_flushes_resurrect [of False True 50 0] by simp

text \<open>
  Closing drains the buffer. When no other flush is running and the callback succeeds, closing
  an open buffer returns without error, leaves nothing pending, refuses further writes, and the
  backing store holds every write that was ever accepted.
\<close>

theorem close_drains:
  assumes "wb_reachable 1 batch db s" and "flights s = []" and "\<not> wb_closed (buffer s)"
    and "\<And>m st. f m st = (None, st ++ m)"
  shows "\<exists>b. CloseBuffer (Some f) (buffer s) (backing s) = (None, b, direct s) \<and>
    dirty b = Map.empty \<and> (\<forall>k v. Put b k v = (Some ErrBufferClosed, b))"
  using layered_reachable [OF assms(1)] assms(2-4)
  by (auto simp: layered_def CloseBuffer_def Flush_def flush_swap_def close_begin_def Put_def)

theorem close_drains_witness:
  "\<exists>b. CloseBuffer (Some (\<lambda>m st. (None :: unit option, st ++ m)))
      (buffer (put_one (wb_start 5 Map.empty) (1 :: nat) True)) Map.empty = (None, b, [1 \<mapsto> True])"
proof -
  have "wb_reachable 1 5 Map.empty (put_one (wb_start 5 Map.empty) (1 :: nat) True)"
    by (intro reach_put wb_reachable.start) (simp add: wb_run)
  from close_drains [OF this, of "\<lambda>m st. (None :: unit option, st ++ m)"] show ?thesis
    by (auto simp: put_one_def wb_run)
qed

end
