(* ===== verification/Participant.thy ===== *)
theory Participant
  imports Strconv
begin

text \<open>
  Participant identities and stream numbers: \<open>lib/callutil/participant.go\<close>, \<open>lib/callutil/hkdf.go\<close>
  and \<open>lib/rtp/ssrc.go\<close>. HKDF-SHA256 is the parameter \<open>hkdf\<close> (salt, input key, info, length); its
  only error is a length above 255 hash blocks.
\<close>

section \<open>Key derivation\<close>

type_synonym hkdf_fun = "bytes \<Rightarrow> bytes \<Rightarrow> bytes \<Rightarrow> nat \<Rightarrow> bytes"

datatype key_error = ErrHkdfLength | ErrShortKey | ErrBadHbhKeyLen | ErrBadCallKeyLen

definition HKDFSHA256 :: "hkdf_fun \<Rightarrow> bytes \<Rightarrow> bytes \<Rightarrow> bytes \<Rightarrow> nat \<Rightarrow> key_error + bytes" where
  "HKDFSHA256 hkdf salt ikm info len = (if len > 255 * 32 then Inl ErrHkdfLength else Inr (hkdf salt ikm info len))"

section \<open>Participant identifiers\<close>

definition FormatParticipantID :: "string \<Rightarrow> string" where
  "FormatParticipantID jid =
     (let bare = TrimSpace (cut_before CHR ''/'' jid)
      in case last_index CHR ''@'' bare of
           None \<Rightarrow> bare
         | Some at \<Rightarrow>
             if at = 0 then bare
             else let user = take at bare; domain = drop (at + 1) bare
                  in if domain = ''lid'' \<and> CHR '':'' \<notin> set user then user @ '':0@'' @ domain else bare)"

definition FormatE2ESrtpParticipantID :: "string \<Rightarrow> string" where
  "FormatE2ESrtpParticipantID jid = FormatParticipantID jid"

text \<open>\<open>push\<close>: trimmed, not empty, not seen before.\<close>

definition push_variant :: "string list \<Rightarrow> string \<Rightarrow> string list" where
  "push_variant out s = (let t = TrimSpace s in if t \<noteq> [] \<and> t \<notin> set out then out @ [t] else out)"

definition E2EParticipantIDVariants :: "string \<Rightarrow> string list" where
  "E2EParticipantIDVariants jid =
     (let bare = TrimSpace (cut_before CHR ''/'' jid);
          out = push_variant [] bare;
          out = push_variant out (FormatE2ESrtpParticipantID jid)
      in case last_index CHR ''@'' bare of
           None \<Rightarrow> out
         | Some at \<Rightarrow>
             if at = 0 then out
             else let user = take at bare; domain = drop (at + 1) bare
                  in if domain = ''lid'' \<and> CHR '':'' \<in> set user then
                       (let base = cut_before CHR '':'' user
                        in push_variant (push_variant out (base @ '':0@'' @ domain)) (base @ ''@'' @ domain))
                     else out)"

section \<open>Stream numbers\<close>

definition WasmRelayStreamSlotWords :: "u32 list" where
  "WasmRelayStreamSlotWords = [0, 1, 4, 2, 3, 5, 7, 8, 6]"

definition put_le32 :: "u32 \<Rightarrow> bytes" where "put_le32 x = rev (put_be32 x)"

definition le32 :: "bytes \<Rightarrow> u32" where "le32 b = be32 (b ! 3) (b ! 2) (b ! 1) (b ! 0)"

definition DeriveWasmParticipantSsrc :: "hkdf_fun \<Rightarrow> string \<Rightarrow> string \<Rightarrow> u32 \<Rightarrow> key_error + u32" where
  "DeriveWasmParticipantSsrc hkdf callID lid slotWord =
     bind_res (HKDFSHA256 hkdf (put_le32 slotWord) (str_bytes callID) (str_bytes lid) 4) (\<lambda>okm. Inr (le32 okm))"

fun derive_all :: "hkdf_fun \<Rightarrow> string \<Rightarrow> string \<Rightarrow> u32 list \<Rightarrow> key_error + u32 list" where
  "derive_all hkdf callID lid [] = Inr []"
| "derive_all hkdf callID lid (slot # slots) =
     bind_res (DeriveWasmParticipantSsrc hkdf callID lid slot) (\<lambda>ssrc.
     bind_res (derive_all hkdf callID lid slots) (\<lambda>out. Inr (ssrc # out)))"

definition DeriveWasmRelayStreamSsrcs :: "hkdf_fun \<Rightarrow> string \<Rightarrow> string \<Rightarrow> key_error + u32 list" where
  "DeriveWasmRelayStreamSsrcs hkdf callID lid = derive_all hkdf callID lid WasmRelayStreamSlotWords"

section \<open>Laws\<close>

lemma FormatParticipantID_lid:
  assumes "user \<noteq> []" and "is_graph (hd user)" and "set user \<inter> {CHR ''/'', CHR '':''} = {}"
  shows "FormatParticipantID (user @ ''@lid'') = user @ '':0@lid''"
proof -
  have "cut_before CHR ''/'' (user @ ''@lid'') = user @ ''@lid''"
    using assms(3) by (intro cut_before_none) auto
  moreover have "TrimSpace (user @ ''@lid'') = user @ ''@lid''"
    using assms by (intro TrimSpace_graph) (simp_all add: is_graph_def)
  moreover have "last_index CHR ''@'' (user @ ''@lid'') = Some (length user)"
    using last_index_append [of "CHR ''@''" "''lid''" user] by simp
  ultimately show ?thesis
    using assms by (auto simp: FormatParticipantID_def)
qed

lemma FormatParticipantID_device:
  assumes "user \<noteq> []" and "is_graph (hd user)" and "CHR ''/'' \<notin> set user" and "CHR '':'' \<in> set user"
  shows "FormatParticipantID (user @ ''@lid'') = user @ ''@lid''"
proof -
  have "cut_before CHR ''/'' (user @ ''@lid'') = user @ ''@lid''"
    using assms(3) by (intro cut_before_none) auto
  moreover have "TrimSpace (user @ ''@lid'') = user @ ''@lid''"
    using assms by (intro TrimSpace_graph) (simp_all add: is_graph_def)
  moreover have "last_index CHR ''@'' (user @ ''@lid'') = Some (length user)"
    using last_index_append [of "CHR ''@''" "''lid''" user] by simp
  ultimately show ?thesis
    using assms by (auto simp: FormatParticipantID_def)
qed

lemma push_variant_simps [simp]:
  "set out \<subseteq> set (push_variant out s)"
  "distinct out \<Longrightarrow> distinct (push_variant out s)"
  "[] \<notin> set out \<Longrightarrow> [] \<notin> set (push_variant out s)"
  by (auto simp: push_variant_def Let_def)

lemma derive_all_length: "derive_all hkdf c l slots = Inr out \<Longrightarrow> length out = length slots"
  by (induction slots arbitrary: out) (auto simp: res_elims)

text \<open>
  A device of a LID is recognised under every spelling. Whatever device number a peer's LID
  carries, the candidate list the receiver tries is without duplicates and contains the LID itself,
  the form with device zero (the identifier its owner derives keys with when no device is given)
  and the bare form.
\<close>

theorem participant_variants_complete:
  assumes "user \<noteq> []" and "is_graph (hd user)" and "set user \<inter> {CHR ''/'', CHR '':'', CHR ''@''} = {}"
    and "CHR ''/'' \<notin> set device"
    and "vs = E2EParticipantIDVariants (user @ '':'' @ device @ ''@lid'')"
  shows "distinct vs \<and> {user @ '':'' @ device @ ''@lid'', FormatParticipantID (user @ ''@lid''), user @ ''@lid''} \<subseteq> set vs"
proof -
  let ?jid = "user @ '':'' @ device @ ''@lid''" and ?ud = "user @ '':'' @ device"
  have cut: "cut_before CHR ''/'' ?jid = ?jid"
    using assms(3,4) by (intro cut_before_none) auto
  have graph: "TrimSpace (user @ t @ ''@lid'') = user @ t @ ''@lid''" for t
    using assms by (intro TrimSpace_graph) (simp_all add: is_graph_def)
  have at: "last_index CHR ''@'' ?jid = Some (length ?ud)"
    using last_index_append [of "CHR ''@''" "''lid''" ?ud] by simp
  have base: "cut_before CHR '':'' ?ud = user"
    using assms(3) cut_before_append [of "CHR '':''" user device] by auto
  have fmt: "FormatParticipantID ?jid = ?jid"
    using assms(1-4) FormatParticipantID_device [of ?ud] by simp
  have vs: "vs = push_variant (push_variant (push_variant (push_variant [] ?jid) ?jid) (user @ '':0@lid''))
      (user @ ''@lid'')"
    unfolding assms(5) E2EParticipantIDVariants_def cut graph [of "'':'' @ device"] FormatE2ESrtpParticipantID_def fmt
    using graph [of "'':'' @ device"] at base assms(1) by (simp add: Let_def)
  have "?jid \<in> set vs" "user @ '':0@lid'' \<in> set vs" "user @ ''@lid'' \<in> set vs"
    using graph [of "'':'' @ device"] graph [of "'':0''"] graph [of "[]"] assms(1)
    by (simp_all add: vs push_variant_def Let_def)
  then show ?thesis
    using FormatParticipantID_lid [of user] assms(1-3) by (auto simp: vs)
qed

theorem participant_variants_complete_witness:
  "{''77:3@lid'', ''77:0@lid'', ''77@lid''} \<subseteq> set (E2EParticipantIDVariants ''77:3@lid'')"
  using participant_variants_complete [of "''77''" "''3''"] FormatParticipantID_lid [of "''77''"]
  by (simp add: is_graph_def)

end
