(* ===== verification/Srtp.thy ===== *)
theory Srtp
  imports Participant
begin

text \<open>
  Media encryption: \<open>lib/srtp/e2e.go\<close> (end-to-end SRTP and SRTCP, rollover counters), \<open>lib/srtp/hbh.go\<close>
  (hop-by-hop keys and AES-ICM) and the integrity tag of \<open>lib/srtp/warp.go\<close>. The AES block function
  and HMAC-SHA1 are the parameters \<open>aes\<close> (key and block) and \<open>hmac\<close> (key and message). AES key sizes
  are fixed by the array types, so the error of \<open>aes.NewCipher\<close> cannot occur.
\<close>

section \<open>Key streams\<close>

text \<open>
  Both stream modes encrypt a counter block and XOR the result into up to sixteen bytes; they differ
  in how the counter advances.
\<close>

function xor_stream :: "(bytes \<Rightarrow> bytes) \<Rightarrow> (bytes \<Rightarrow> bytes) \<Rightarrow> bytes \<Rightarrow> bytes \<Rightarrow> bytes" where
  "xor_stream block inc counter data =
     (if data = [] then []
      else map2 (XOR) (take 16 data) (block counter) @ xor_stream block inc (inc counter) (drop 16 data))"
  by pat_completeness auto

termination
  by (relation "measure (\<lambda>(_, _, _, data). length data)") auto

declare xor_stream.simps [simp del]

fun inc_le :: "bytes \<Rightarrow> bytes" where
  "inc_le [] = []"
| "inc_le (b # bs) = (if b + 1 = 0 then 0 # inc_le bs else (b + 1) # bs)"

text \<open>\<open>cipher.NewCTR\<close>: a 128-bit big-endian counter.\<close>

definition ctr_inc :: "bytes \<Rightarrow> bytes" where
  "ctr_inc c = rev (inc_le (rev c))"

definition ctr_crypt :: "(bytes \<Rightarrow> bytes \<Rightarrow> bytes) \<Rightarrow> bytes \<Rightarrow> bytes \<Rightarrow> bytes \<Rightarrow> bytes" where
  "ctr_crypt aes key iv data = xor_stream (aes key) ctr_inc iv data"

section \<open>End-to-end keys\<close>

record E2eSrtpKeys =
  CipherKey :: bytes
  Salt :: bytes
  AuthKey :: bytes

definition SrtcpAuthTagLen :: nat where "SrtcpAuthTagLen = 10"
definition SrtcpTrailerLen :: nat where "SrtcpTrailerLen = 4 + SrtcpAuthTagLen"
definition rtcpHeaderLen :: nat where "rtcpHeaderLen = 8"

definition aesCmKdf :: "(bytes \<Rightarrow> bytes \<Rightarrow> bytes) \<Rightarrow> bytes \<Rightarrow> bytes \<Rightarrow> u8 \<Rightarrow> nat \<Rightarrow> bytes" where
  "aesCmKdf aes masterKey masterSalt label len =
     (let iv = take 14 masterSalt @ [0, 0];
          iv = iv[7 := iv ! 7 XOR label]
      in ctr_crypt aes masterKey iv (replicate len 0))"

definition deriveSessionKeysFromMasterLabels ::
  "(bytes \<Rightarrow> bytes \<Rightarrow> bytes) \<Rightarrow> bytes \<Rightarrow> u8 \<Rightarrow> u8 \<Rightarrow> u8 \<Rightarrow> E2eSrtpKeys" where
  "deriveSessionKeysFromMasterLabels aes master cipherLabel authLabel saltLabel =
     (let masterKey = take 16 master; masterSalt = take 14 (drop 16 master)
      in \<lparr>CipherKey = aesCmKdf aes masterKey masterSalt cipherLabel 16,
          Salt = aesCmKdf aes masterKey masterSalt saltLabel 14,
          AuthKey = aesCmKdf aes masterKey masterSalt authLabel 20\<rparr>)"

definition deriveSessionKeysFromMaster :: "(bytes \<Rightarrow> bytes \<Rightarrow> bytes) \<Rightarrow> bytes \<Rightarrow> E2eSrtpKeys" where
  "deriveSessionKeysFromMaster aes master = deriveSessionKeysFromMasterLabels aes master 0 1 2"

definition DeriveE2eKeys ::
  "hkdf_fun \<Rightarrow> (bytes \<Rightarrow> bytes \<Rightarrow> bytes) \<Rightarrow> bytes \<Rightarrow> string \<Rightarrow> key_error + E2eSrtpKeys" where
  "DeriveE2eKeys hkdf aes callKey participantLid =
     (if length callKey < 32 then Inl ErrShortKey
      else bind_res (HKDFSHA256 hkdf (replicate 32 0) (take 32 callKey) (str_bytes participantLid) 46)
        (\<lambda>master. Inr (deriveSessionKeysFromMaster aes master)))"

definition DeriveE2eSrtcpKeys ::
  "hkdf_fun \<Rightarrow> (bytes \<Rightarrow> bytes \<Rightarrow> bytes) \<Rightarrow> bytes \<Rightarrow> string \<Rightarrow> key_error + E2eSrtpKeys" where
  "DeriveE2eSrtcpKeys hkdf aes callKey participantLid =
     (if length callKey < 32 then Inl ErrShortKey
      else bind_res (HKDFSHA256 hkdf (replicate 32 0) (take 32 callKey) (str_bytes participantLid) 46)
        (\<lambda>master. Inr (deriveSessionKeysFromMasterLabels aes master 3 4 5)))"

definition DeriveE2eKeysFromRaw ::
  "hkdf_fun \<Rightarrow> (bytes \<Rightarrow> bytes \<Rightarrow> bytes) \<Rightarrow> bytes \<Rightarrow> string \<Rightarrow> key_error + E2eSrtpKeys" where
  "DeriveE2eKeysFromRaw hkdf aes rawE2e participantLid =
     (if length rawE2e < 32 then Inl ErrShortKey
      else bind_res (HKDFSHA256 hkdf (replicate 32 0) (take 32 rawE2e) (str_bytes participantLid) 46)
        (\<lambda>master. Inr (deriveSessionKeysFromMaster aes master)))"

definition DeriveE2eSRTCPKeysFromRaw ::
  "hkdf_fun \<Rightarrow> (bytes \<Rightarrow> bytes \<Rightarrow> bytes) \<Rightarrow> bytes \<Rightarrow> string \<Rightarrow> key_error + E2eSrtpKeys" where
  "DeriveE2eSRTCPKeysFromRaw hkdf aes rawE2E participantLID =
     (if length rawE2E < 32 then Inl ErrShortKey
      else bind_res (HKDFSHA256 hkdf (replicate 32 0) (take 32 rawE2E) (str_bytes participantLID) 46)
        (\<lambda>master. Inr (deriveSessionKeysFromMasterLabels aes master 3 4 5)))"

section \<open>Packet encryption\<close>

text \<open>The bytes XORed into the right-aligned salt, as one mask.\<close>

definition BuildE2eRtpIV :: "bytes \<Rightarrow> u32 \<Rightarrow> u32 \<Rightarrow> u16 \<Rightarrow> bytes" where
  "BuildE2eRtpIV salt ssrc roc seq =
     (let iv = replicate (14 - length salt) 0 @ salt @ [0, 0];
          packetIndex = (ucast roc :: u64) * 0x10000 + ucast seq;
          hi16 = (ucast (drop_bit 32 packetIndex AND 0xffff) :: u16);
          lo32 = (ucast (packetIndex AND 0xffffffff) :: u32)
      in map2 (XOR) iv ([0, 0, 0, 0] @ put_be32 ssrc @ put_be16 hi16 @ put_be32 lo32 @ [0, 0]))"

definition CryptPayload ::
  "(bytes \<Rightarrow> bytes \<Rightarrow> bytes) \<Rightarrow> E2eSrtpKeys \<Rightarrow> u32 \<Rightarrow> u16 \<Rightarrow> u32 \<Rightarrow> bytes \<Rightarrow> bytes" where
  "CryptPayload aes keys ssrc seq roc payload =
     ctr_crypt aes (CipherKey keys) (BuildE2eRtpIV (Salt keys) ssrc roc seq) payload"

definition ProtectSrtcp ::
  "(bytes \<Rightarrow> bytes \<Rightarrow> bytes) \<Rightarrow> (bytes \<Rightarrow> bytes \<Rightarrow> bytes) \<Rightarrow> E2eSrtpKeys \<Rightarrow> u32 \<Rightarrow> u32 \<Rightarrow> bytes \<Rightarrow> bytes" where
  "ProtectSrtcp aes hmac keys senderSsrc index rtcp =
     (let split = min (length rtcp) rtcpHeaderLen;
          out = take split rtcp;
          body = CryptPayload aes keys senderSsrc (ucast index) (drop_bit 16 index) (drop split rtcp);
          out = out @ body;
          out = out @ put_be32 (0x80000000 OR index)
      in out @ take SrtcpAuthTagLen (hmac (AuthKey keys) out))"

definition UnprotectSrtcp ::
  "(bytes \<Rightarrow> bytes \<Rightarrow> bytes) \<Rightarrow> (bytes \<Rightarrow> bytes \<Rightarrow> bytes) \<Rightarrow> E2eSrtpKeys \<Rightarrow> u32 \<Rightarrow> bytes \<Rightarrow> (bytes \<times> u32) option" where
  "UnprotectSrtcp aes hmac keys senderSsrc packet =
     (if length packet < rtcpHeaderLen + SrtcpTrailerLen then None
      else
        let tagStart = length packet - SrtcpAuthTagLen
        in if drop tagStart packet \<noteq> take SrtcpAuthTagLen (hmac (AuthKey keys) (take tagStart packet)) then None
           else
             let indexStart = tagStart - 4;
                 index = be32 (packet ! indexStart) (packet ! (indexStart + 1)) (packet ! (indexStart + 2))
                   (packet ! (indexStart + 3)) AND 0x7fffffff;
                 body = CryptPayload aes keys senderSsrc (ucast index) (drop_bit 16 index)
                   (drop rtcpHeaderLen (take indexStart packet))
             in Some (take rtcpHeaderLen packet @ body, index))"

section \<open>Rollover counters\<close>

record RocTracker =
  send_roc :: u32
  lastSeq :: u16
  send_initialized :: bool

definition Advance :: "RocTracker \<Rightarrow> u16 \<Rightarrow> u32 \<times> RocTracker" where
  "Advance t seq =
     (if \<not> send_initialized t then (send_roc t, t\<lparr>lastSeq := seq, send_initialized := True\<rparr>)
      else
        let t = (if uint seq - uint (lastSeq t) < - 32768 then t\<lparr>send_roc := send_roc t + 1\<rparr> else t);
            t = t\<lparr>lastSeq := seq\<rparr>
        in (send_roc t, t))"

record RecvRocTracker =
  recv_roc :: u32
  sL :: u16
  recv_initialized :: bool

definition EstimateRoc :: "RecvRocTracker \<Rightarrow> u16 \<Rightarrow> u32" where
  "EstimateRoc t seq =
     (if \<not> recv_initialized t then recv_roc t
      else if sL t < 0x8000 then
        (if uint seq - uint (sL t) > 0x8000 then recv_roc t - 1 else recv_roc t)
      else if uint (sL t) - uint seq > 0x8000 then recv_roc t + 1
      else recv_roc t)"

definition CommitRoc :: "RecvRocTracker \<Rightarrow> u32 \<Rightarrow> u16 \<Rightarrow> RecvRocTracker" where
  "CommitRoc t v seq =
     (if \<not> recv_initialized t then t\<lparr>sL := seq, recv_initialized := True\<rparr>
      else if v = recv_roc t then (if seq > sL t then t\<lparr>sL := seq\<rparr> else t)
      else if v = recv_roc t + 1 then t\<lparr>recv_roc := v, sL := seq\<rparr>
      else t)"

definition GuessRoc :: "RecvRocTracker \<Rightarrow> u16 \<Rightarrow> u32 \<times> RecvRocTracker" where
  "GuessRoc t seq = (let v = EstimateRoc t seq in (v, CommitRoc t v seq))"

section \<open>Hop-by-hop keys\<close>

record SrtpKeyingMaterial =
  MasterKey :: bytes
  MasterSalt :: bytes

record LibsrtpSessionKeys =
  SessionKey :: bytes
  SessionSalt :: bytes
  SessionAuthKey :: bytes

definition keyingFromCryptoKey :: "bytes \<Rightarrow> SrtpKeyingMaterial" where
  "keyingFromCryptoKey cryptoKey = \<lparr>MasterKey = take 16 cryptoKey, MasterSalt = take 14 (drop 16 cryptoKey)\<rparr>"

definition deriveHbhSrtpKeyWithLabels :: "hkdf_fun \<Rightarrow> bytes \<Rightarrow> string \<Rightarrow> string \<Rightarrow> key_error + bytes" where
  "deriveHbhSrtpKeyWithLabels hkdf hbhKey saltLabel keyLabel =
     (if length hbhKey \<noteq> 30 then Inl ErrBadHbhKeyLen
      else
        let masterKey = take 16 hbhKey; masterSalt = take 14 (drop 16 hbhKey)
        in bind_res (HKDFSHA256 hkdf (replicate 32 0) masterSalt (str_bytes saltLabel) 32) (\<lambda>srtcpSalt.
           HKDFSHA256 hkdf srtcpSalt masterKey (str_bytes keyLabel) 30))"

definition DeriveHbhSrtpKeyUplink :: "hkdf_fun \<Rightarrow> bytes \<Rightarrow> key_error + bytes" where
  "DeriveHbhSrtpKeyUplink hkdf hbhKey =
     deriveHbhSrtpKeyWithLabels hkdf hbhKey ''uplink hbh srtcp salt'' ''uplink hbh srtcp key''"

definition DeriveHbhSrtpKeyDownlink :: "hkdf_fun \<Rightarrow> bytes \<Rightarrow> key_error + bytes" where
  "DeriveHbhSrtpKeyDownlink hkdf hbhKey =
     deriveHbhSrtpKeyWithLabels hkdf hbhKey ''downlink hbh srtcp salt'' ''downlink hbh srtcp key''"

definition KeyingFromHbhKeyUplink :: "hkdf_fun \<Rightarrow> bytes \<Rightarrow> key_error + SrtpKeyingMaterial" where
  "KeyingFromHbhKeyUplink hkdf hbhKey =
     bind_res (DeriveHbhSrtpKeyUplink hkdf hbhKey) (\<lambda>k. Inr (keyingFromCryptoKey k))"

definition KeyingFromHbhKeyDownlink :: "hkdf_fun \<Rightarrow> bytes \<Rightarrow> key_error + SrtpKeyingMaterial" where
  "KeyingFromHbhKeyDownlink hkdf hbhKey =
     bind_res (DeriveHbhSrtpKeyDownlink hkdf hbhKey) (\<lambda>k. Inr (keyingFromCryptoKey k))"

definition aesICMKey30 :: "bytes \<Rightarrow> bytes \<Rightarrow> bytes" where
  "aesICMKey30 aesKey salt = take 16 aesKey @ take 14 salt"

text \<open>The counter of \<open>aesICMCrypt\<close>: byte 15 with a single carry into byte 14.\<close>

definition icm_inc :: "bytes \<Rightarrow> bytes" where
  "icm_inc c =
     (let c = c[15 := c ! 15 + 1]
      in if c ! 15 = 0 then c[14 := c ! 14 + 1] else c)"

definition aesICMCrypt :: "(bytes \<Rightarrow> bytes \<Rightarrow> bytes) \<Rightarrow> bytes \<Rightarrow> bytes \<Rightarrow> bytes \<Rightarrow> bytes" where
  "aesICMCrypt aes key30 iv16 data =
     (let aesKey = take 16 key30; salt = take 14 (drop 16 key30);
          counter = map2 (XOR) (salt @ [0, 0]) iv16
      in xor_stream (aes aesKey) icm_inc counter data)"

definition deriveSessionBytes :: "(bytes \<Rightarrow> bytes \<Rightarrow> bytes) \<Rightarrow> bytes \<Rightarrow> bytes \<Rightarrow> u8 \<Rightarrow> nat \<Rightarrow> bytes" where
  "deriveSessionBytes aes masterKey masterSalt label len =
     aesICMCrypt aes (aesICMKey30 masterKey masterSalt) ((replicate 16 0)[7 := label]) (replicate len 0)"

definition ExpandLibsrtpSessionKeys :: "(bytes \<Rightarrow> bytes \<Rightarrow> bytes) \<Rightarrow> SrtpKeyingMaterial \<Rightarrow> LibsrtpSessionKeys" where
  "ExpandLibsrtpSessionKeys aes keying =
     \<lparr>SessionKey = deriveSessionBytes aes (MasterKey keying) (MasterSalt keying) 0 16,
      SessionSalt = deriveSessionBytes aes (MasterKey keying) (MasterSalt keying) 2 14,
      SessionAuthKey = deriveSessionBytes aes (MasterKey keying) (MasterSalt keying) 1 20\<rparr>"

definition put_be64 :: "u64 \<Rightarrow> bytes" where
  "put_be64 x = put_be32 (ucast (drop_bit 32 x)) @ put_be32 (ucast x)"

definition BuildRtpICMNonce :: "u32 \<Rightarrow> u64 \<Rightarrow> bytes" where
  "BuildRtpICMNonce ssrc packetIndex = [0, 0, 0, 0] @ put_be32 ssrc @ put_be64 (push_bit 16 packetIndex)"

definition CryptRtpPayload ::
  "(bytes \<Rightarrow> bytes \<Rightarrow> bytes) \<Rightarrow> LibsrtpSessionKeys \<Rightarrow> u32 \<Rightarrow> u64 \<Rightarrow> bytes \<Rightarrow> bytes" where
  "CryptRtpPayload aes session ssrc packetIndex payload =
     aesICMCrypt aes (aesICMKey30 (SessionKey session) (SessionSalt session)) (BuildRtpICMNonce ssrc packetIndex)
       payload"

section \<open>The WARP integrity tag\<close>

text \<open>A tag length above the digest size panics; the callers check or fix it.\<close>

definition ComputeWarpMITag :: "(bytes \<Rightarrow> bytes \<Rightarrow> bytes) \<Rightarrow> bytes \<Rightarrow> bytes \<Rightarrow> u32 \<Rightarrow> nat \<Rightarrow> bytes" where
  "ComputeWarpMITag hmac authKey packetWithoutTag roc tagLen =
     take tagLen (hmac authKey (packetWithoutTag @ put_be32 roc))"

definition AppendWarpMITag :: "(bytes \<Rightarrow> bytes \<Rightarrow> bytes) \<Rightarrow> bytes \<Rightarrow> bytes \<Rightarrow> u32 \<Rightarrow> nat \<Rightarrow> bytes" where
  "AppendWarpMITag hmac authKey packetWithoutTag roc tagLen =
     packetWithoutTag @ ComputeWarpMITag hmac authKey packetWithoutTag roc tagLen"

definition VerifyWarpMITag ::
  "(bytes \<Rightarrow> bytes \<Rightarrow> bytes) \<Rightarrow> bytes \<Rightarrow> bytes \<Rightarrow> u32 \<Rightarrow> int \<Rightarrow> bytes \<Rightarrow> bool" where
  "VerifyWarpMITag hmac authKey packetWithoutTag roc tagLen receivedTag \<longleftrightarrow>
     (if tagLen \<le> 0 \<or> tagLen > 20 \<or> int (length receivedTag) \<noteq> tagLen then False
      else ComputeWarpMITag hmac authKey packetWithoutTag roc (nat tagLen) = receivedTag)"

section \<open>Encryption is its own inverse\<close>

lemma xor_stream_Nil [simp]: "xor_stream block inc c [] = []"
  by (simp add: xor_stream.simps)

lemma map2_xor_twice: "length a \<le> length k \<Longrightarrow> map2 (XOR) (map2 (XOR) a k) k = (a :: bytes)"
  by (rule nth_equalityI) (simp_all add: xor.assoc)

lemma length_xor_stream:
  assumes "\<forall>c. length (block c) = 16"
  shows "length (xor_stream block inc c d) = length d"
proof (induction d arbitrary: c rule: measure_induct_rule [of length])
  case (less d)
  then show ?case
    using assms by (cases "d = []"; subst xor_stream.simps) (simp_all add: min_def)
qed

lemma xor_stream_block:
  assumes "a \<noteq> []" and "take 16 (a @ r) = a" and "drop 16 (a @ r) = r"
  shows "xor_stream block inc c (a @ r) = map2 (XOR) a (block c) @ xor_stream block inc (inc c) r"
  by (subst xor_stream.simps) (simp only: assms append_is_Nil_conv simp_thms if_False)

lemma xor_stream_twice:
  assumes "\<forall>c. length (block c) = 16"
  shows "xor_stream block inc c (xor_stream block inc c d) = d"
proof (induction d arbitrary: c rule: measure_induct_rule [of length])
  case (less d)
  show ?case
  proof (cases "d = []")
    case False
    let ?a = "map2 (XOR) (take 16 d) (block c)"
    have len: "length ?a = min 16 (length d)" using assms by simp
    have x: "xor_stream block inc c d = ?a @ xor_stream block inc (inc c) (drop 16 d)"
      using False by (subst xor_stream.simps) simp
    have "drop 16 (?a @ xor_stream block inc (inc c) (drop 16 d)) = xor_stream block inc (inc c) (drop 16 d)"
      "take 16 (?a @ xor_stream block inc (inc c) (drop 16 d)) = ?a"
      using len by (cases "length d < 16"; simp add: min_def)+
    moreover have "?a \<noteq> []" using len False by (metis length_0_conv length_greater_0_conv min_less_iff_conj zero_less_numeral)
    ultimately have "xor_stream block inc c (xor_stream block inc c d) =
        map2 (XOR) ?a (block c) @ xor_stream block inc (inc c) (xor_stream block inc (inc c) (drop 16 d))"
      unfolding x by (intro xor_stream_block)
    moreover have "length (drop 16 d) < length d" using False by simp
    ultimately show ?thesis
      using less map2_xor_twice [of "take 16 d" "block c"] assms by simp
  qed simp
qed

lemma length_BuildE2eRtpIV: "length salt = 14 \<Longrightarrow> length (BuildE2eRtpIV salt ssrc roc seq) = 16"
  by (simp add: BuildE2eRtpIV_def Let_def)

lemma CryptPayload_twice:
  "\<forall>k c. length (aes k c) = 16 \<Longrightarrow>
    CryptPayload aes keys ssrc seq roc (CryptPayload aes keys ssrc seq roc p) = p"
  by (simp add: CryptPayload_def ctr_crypt_def xor_stream_twice)

lemma length_CryptPayload:
  "\<forall>k c. length (aes k c) = 16 \<Longrightarrow> length (CryptPayload aes keys ssrc seq roc p) = length p"
  by (simp add: CryptPayload_def ctr_crypt_def length_xor_stream)

lemma bits_31: "bit (2147483648 :: int) n \<longleftrightarrow> n = 31" "bit (2147483647 :: int) n \<longleftrightarrow> n < 31"
  using bit_exp_iff [of 31 n, where ?'a = int] bit_mask_iff [of 31 n, where ?'a = int]
  by (simp_all add: mask_eq_exp_minus_1)

lemma index_bit31:
  assumes "index < (0x80000000 :: u32)"
  shows "(0x80000000 OR index) AND 0x7fffffff = index"
proof -
  have "take_bit 31 index = index"
    using assms by (intro word_take_bit) (simp add: word_less_nat_alt)
  then have "bit index n \<Longrightarrow> n < 31" for n
    by (metis bit_take_bit_iff)
  then show ?thesis
    by (intro bit_word_eqI) (auto simp: bit_simps bits_31)
qed

lemma UnprotectSrtcp_sealed:
  assumes "length hdr = 8" and "length tag = 10" and "out = hdr @ body @ put_be32 w"
    and "tag = take 10 (hmac (AuthKey keys) out)" and "index = w AND 0x7fffffff"
  shows "UnprotectSrtcp aes hmac keys ssrc (out @ tag) =
    Some (hdr @ CryptPayload aes keys ssrc (ucast index) (drop_bit 16 index) body, index)"
proof -
  have lo: "length out = 12 + length body" using assms(1,3) by simp
  have nth: "(out @ tag) ! (8 + length body + i) = put_be32 w ! i" if "i < 4" for i
    using that assms(1) nth_append_length_plus [of "hdr @ body" "put_be32 w @ tag" i]
    by (simp add: assms(3) nth_append_left)
  have n0: "(out @ tag) ! (8 + length body) = put_be32 w ! 0"
    using nth [of 0] by simp
  have w: "be32 ((out @ tag) ! (8 + length body)) ((out @ tag) ! (8 + length body + 1))
      ((out @ tag) ! (8 + length body + 2)) ((out @ tag) ! (8 + length body + 3)) = w"
    using nth [of 1] nth [of 2] nth [of 3] by (simp only: n0 be32_nth)
  have "take (8 + length body) (out @ tag) = hdr @ body" "take 8 (out @ tag) = hdr"
    using assms(1) by (simp_all add: assms(3))
  then show ?thesis
    using lo assms(1,2,4) w
    by (simp add: UnprotectSrtcp_def SrtcpAuthTagLen_def SrtcpTrailerLen_def rtcpHeaderLen_def Let_def assms(5))
qed

text \<open>
  Control packets survive SRTCP. For every block cipher with 16-byte blocks and every MAC with
  at least ten bytes, unprotecting a protected control packet of at least a header, under an index
  below the flag bit, gives back the packet and its index.
\<close>

theorem srtcp_roundtrip:
  assumes "\<forall>k c. length (aes k c) = 16" and "\<forall>k m. length (hmac k m) \<ge> 10"
    and "8 \<le> length rtcp" and "index < 0x80000000"
  shows "UnprotectSrtcp aes hmac keys ssrc (ProtectSrtcp aes hmac keys ssrc index rtcp) = Some (rtcp, index)"
proof -
  let ?body = "CryptPayload aes keys ssrc (ucast index) (drop_bit 16 index) (drop 8 rtcp)"
  let ?out = "take 8 rtcp @ ?body @ put_be32 (0x80000000 OR index)"
  have "ProtectSrtcp aes hmac keys ssrc index rtcp = ?out @ take 10 (hmac (AuthKey keys) ?out)"
    using assms(3) by (simp add: ProtectSrtcp_def rtcpHeaderLen_def SrtcpAuthTagLen_def Let_def min_absorb2)
  moreover have "length (take 10 (hmac (AuthKey keys) ?out)) = 10"
    using assms(2) by (simp add: min_absorb2)
  then have "UnprotectSrtcp aes hmac keys ssrc (?out @ take 10 (hmac (AuthKey keys) ?out)) =
      Some (take 8 rtcp @ CryptPayload aes keys ssrc (ucast index) (drop_bit 16 index) ?body, index)"
    using assms(3) by (intro UnprotectSrtcp_sealed [OF _ _ refl refl index_bit31 [OF assms(4), symmetric]]) simp_all
  ultimately show ?thesis
    using CryptPayload_twice [OF assms(1)] by simp
qed

definition toy_aes :: "bytes \<Rightarrow> bytes \<Rightarrow> bytes" where "toy_aes k c = take 16 (c @ replicate 16 7)"
definition toy_hmac :: "bytes \<Rightarrow> bytes \<Rightarrow> bytes" where "toy_hmac k m = take 20 (m @ replicate 20 1)"

lemma toy_lengths: "length (toy_aes k c) = 16" "length (toy_hmac k m) = 20"
  by (simp_all add: toy_aes_def toy_hmac_def)

theorem srtcp_roundtrip_witness:
  "UnprotectSrtcp toy_aes toy_hmac \<lparr>CipherKey = [], Salt = replicate 14 3, AuthKey = []\<rparr> 9
     (ProtectSrtcp toy_aes toy_hmac \<lparr>CipherKey = [], Salt = replicate 14 3, AuthKey = []\<rparr> 9 70000
       [128, 200, 0, 2, 0, 0, 0, 9, 1, 2, 3, 4]) = Some ([128, 200, 0, 2, 0, 0, 0, 9, 1, 2, 3, 4], 70000)"
  by (rule srtcp_roundtrip) (simp_all add: toy_lengths)

section \<open>Rollover counters agree\<close>

text \<open>The receiver has seen packets up to the extended number \<open>h\<close>; the sender started in cycle \<open>c0\<close>.\<close>

definition recv_tracks :: "RecvRocTracker \<Rightarrow> nat \<Rightarrow> nat \<Rightarrow> bool" where
  "recv_tracks t c0 h \<longleftrightarrow> recv_initialized t \<and> c0 \<le> h div 65536 \<and> sL t = of_nat h \<and>
     recv_roc t = of_nat (h div 65536 - c0)"

lemma uint_seq: "uint (of_nat n :: u16) = int (n mod 65536)"
  by (simp add: uint_nat unat_of_nat_u16)

lemma seq_cycles:
  fixes e h :: nat
  assumes "e < h + 32768" and "h < e + 32768"
  obtains (same) "e div 65536 = h div 65536" "\<bar>int (e mod 65536) - int (h mod 65536)\<bar> < 32768"
    | (later) "e div 65536 = h div 65536 + 1" "int (h mod 65536) - int (e mod 65536) > 32768"
    | (earlier) "h div 65536 = e div 65536 + 1" "int (e mod 65536) - int (h mod 65536) > 32768"
proof -
  have eq: "65536 * (e div 65536) + e mod 65536 = e" "65536 * (h div 65536) + h mod 65536 = h"
    by simp_all
  have lt: "e mod 65536 < 65536" "h mod 65536 < 65536" by simp_all
  consider "e div 65536 = h div 65536" | "e div 65536 = h div 65536 + 1" | "h div 65536 = e div 65536 + 1"
    using assms eq lt by linarith
  then show ?thesis
  proof cases
    case 1
    then show ?thesis using assms eq by (intro same) linarith+
  next
    case 2
    then show ?thesis using assms eq by (intro later) linarith+
  next
    case 3
    then show ?thesis using assms eq by (intro earlier) linarith+
  qed
qed

lemma EstimateRoc_tracks:
  assumes "recv_tracks t c0 h" and "e < h + 32768" and "h < e + 32768" and "c0 \<le> e div 65536"
  shows "EstimateRoc t (of_nat e) = of_nat (e div 65536 - c0)"
proof -
  have low: "sL t < 0x8000 \<longleftrightarrow> h mod 65536 < 32768"
    using assms(1) by (simp add: recv_tracks_def word_less_nat_alt unat_of_nat_u16)
  have est: "EstimateRoc t (of_nat e) =
     (if h mod 65536 < 32768 then
        (if int (e mod 65536) - int (h mod 65536) > 32768 then recv_roc t - 1 else recv_roc t)
      else if int (h mod 65536) - int (e mod 65536) > 32768 then recv_roc t + 1 else recv_roc t)"
    using assms(1) low by (simp add: EstimateRoc_def recv_tracks_def uint_seq)
  have roc: "recv_roc t = of_nat (h div 65536 - c0)" "c0 \<le> h div 65536"
    using assms(1) by (simp_all add: recv_tracks_def)
  from assms(2,3) show ?thesis
  proof (cases rule: seq_cycles)
    case same
    then show ?thesis by (auto simp: est roc)
  next
    case later
    then have "\<not> h mod 65536 < 32768" by linarith
    moreover have "e div 65536 - c0 = Suc (h div 65536 - c0)" using later roc(2) by linarith
    ultimately show ?thesis using later by (simp add: est roc)
  next
    case earlier
    have "e mod 65536 < 65536" by simp
    with earlier have "h mod 65536 < 32768" by linarith
    moreover have "h div 65536 - c0 = Suc (e div 65536 - c0)" using earlier assms(4) by linarith
    ultimately show ?thesis using earlier by (simp add: est roc)
  qed
qed

lemma CommitRoc_tracks:
  assumes "recv_tracks t c0 h" and "e < h + 32768" and "h < e + 32768" and "c0 \<le> e div 65536"
  shows "recv_tracks (CommitRoc t (of_nat (e div 65536 - c0)) (of_nat e)) c0 (max h e)"
proof -
  have roc: "recv_roc t = of_nat (h div 65536 - c0)" "c0 \<le> h div 65536" "recv_initialized t" "sL t = of_nat h"
    using assms(1) by (simp_all add: recv_tracks_def)
  have gt: "(of_nat e :: u16) > of_nat h \<longleftrightarrow> e mod 65536 > h mod 65536"
    by (simp add: word_less_nat_alt unat_of_nat_u16)
  have eq: "65536 * (e div 65536) + e mod 65536 = e" "65536 * (h div 65536) + h mod 65536 = h"
    by simp_all
  from assms(2,3) show ?thesis
  proof (cases rule: seq_cycles)
    case same
    then have "e mod 65536 > h mod 65536 \<longleftrightarrow> e > h" using eq by linarith
    with same show ?thesis
      using assms(1,4) by (auto simp: CommitRoc_def roc gt recv_tracks_def max_def)
  next
    case later
    then have "e div 65536 - c0 = Suc (h div 65536 - c0)" "h < e"
      using roc(2) eq assms(2) by linarith+
    then show ?thesis
      using assms(4) by (simp add: CommitRoc_def roc recv_tracks_def add.commute)
  next
    case earlier
    then have "h div 65536 - c0 = Suc (e div 65536 - c0)" "e < h"
      using assms(3,4) eq by linarith+
    then show ?thesis
      using assms(1) by (simp add: CommitRoc_def roc recv_tracks_def)
  qed
qed

section \<open>A media stream over a lossy network\<close>

text \<open>
  The sender numbers its payloads consecutively from the extended number \<open>e\<close>; the receiver sees
  sequence numbers and ciphertexts only.
\<close>

fun send_stream ::
  "(bytes \<Rightarrow> bytes \<Rightarrow> bytes) \<Rightarrow> E2eSrtpKeys \<Rightarrow> u32 \<Rightarrow> RocTracker \<Rightarrow> nat \<Rightarrow> bytes list \<Rightarrow> (u16 \<times> bytes) list" where
  "send_stream aes keys ssrc t e [] = []"
| "send_stream aes keys ssrc t e (p # ps) =
     (case Advance t (of_nat e) of (roc, t') \<Rightarrow>
        (of_nat e, CryptPayload aes keys ssrc (of_nat e) roc p) # send_stream aes keys ssrc t' (Suc e) ps)"

fun recv_stream ::
  "(bytes \<Rightarrow> bytes \<Rightarrow> bytes) \<Rightarrow> E2eSrtpKeys \<Rightarrow> u32 \<Rightarrow> RecvRocTracker \<Rightarrow> (u16 \<times> bytes) list \<Rightarrow> bytes list" where
  "recv_stream aes keys ssrc t [] = []"
| "recv_stream aes keys ssrc t ((seq, c) # cs) =
     (case GuessRoc t seq of (roc, t') \<Rightarrow>
        CryptPayload aes keys ssrc seq roc c # recv_stream aes keys ssrc t' cs)"

definition new_send_roc :: RocTracker where
  "new_send_roc = \<lparr>send_roc = 0, lastSeq = 0, send_initialized = False\<rparr>"

definition new_recv_roc :: RecvRocTracker where
  "new_recv_roc = \<lparr>recv_roc = 0, sL = 0, recv_initialized = False\<rparr>"

text \<open>Arrival indices that never fall half the number space from the highest one so far.\<close>

fun near :: "nat \<Rightarrow> nat list \<Rightarrow> bool" where
  "near h [] \<longleftrightarrow> True"
| "near h (i # is) \<longleftrightarrow> i < h + 32768 \<and> h < i + 32768 \<and> near (max h i) is"

lemma near_shift: "near h js \<Longrightarrow> near (e + h) (map ((+) e) js)"
  by (induction js arbitrary: h) (auto simp: max_def add.assoc split: if_splits)

definition send_tracks :: "RocTracker \<Rightarrow> nat \<Rightarrow> nat \<Rightarrow> bool" where
  "send_tracks t c0 e \<longleftrightarrow> send_initialized t \<and> c0 \<le> e div 65536 \<and> lastSeq t = of_nat e \<and>
     send_roc t = of_nat (e div 65536 - c0)"

lemma Suc_cycle:
  fixes e :: nat
  obtains (inside) "Suc e div 65536 = e div 65536" "Suc e mod 65536 = Suc (e mod 65536)"
    | (wrap) "Suc e div 65536 = Suc (e div 65536)" "Suc e mod 65536 = 0" "e mod 65536 = 65535"
  by (cases "Suc e mod 65536 = 0") (auto simp: div_Suc mod_Suc split: if_splits)

lemma Advance_tracks:
  assumes "send_tracks t c0 e"
  shows "fst (Advance t (of_nat (Suc e))) = of_nat (Suc e div 65536 - c0) \<and>
    send_tracks (snd (Advance t (of_nat (Suc e)))) c0 (Suc e)"
proof -
  have u: "uint (of_nat (Suc e) :: u16) = int (Suc e mod 65536)" "uint (of_nat e :: u16) = int (e mod 65536)"
    by (rule uint_seq)+
  have t: "send_initialized t" "c0 \<le> e div 65536" "lastSeq t = of_nat e" "send_roc t = of_nat (e div 65536 - c0)"
    using assms by (simp_all add: send_tracks_def)
  show ?thesis
  proof (cases e rule: Suc_cycle)
    case inside
    then have "\<not> uint (of_nat (Suc e) :: u16) - uint (lastSeq t) < - 32768" unfolding t u by simp
    then have "Advance t (of_nat (Suc e)) = (send_roc t, t\<lparr>lastSeq := of_nat (Suc e)\<rparr>)"
      using t(1) unfolding Advance_def by (simp only: simp_thms if_False Let_def) simp
    then show ?thesis using t inside by (simp add: send_tracks_def)
  next
    case wrap
    then have "uint (of_nat (Suc e) :: u16) - uint (lastSeq t) < - 32768" unfolding t u by simp
    then have "Advance t (of_nat (Suc e)) =
        (send_roc t + 1, t\<lparr>send_roc := send_roc t + 1, lastSeq := of_nat (Suc e)\<rparr>)"
      using t(1) unfolding Advance_def by (simp only: simp_thms if_True if_False Let_def) simp
    moreover have "Suc e div 65536 - c0 = Suc (e div 65536 - c0)" using wrap t(2) by linarith
    ultimately show ?thesis using t wrap by (simp add: send_tracks_def add.commute)
  qed
qed

definition packet_of :: "(bytes \<Rightarrow> bytes \<Rightarrow> bytes) \<Rightarrow> E2eSrtpKeys \<Rightarrow> u32 \<Rightarrow> nat \<Rightarrow> nat \<Rightarrow> bytes \<Rightarrow> u16 \<times> bytes" where
  "packet_of aes keys ssrc c0 e p =
     (of_nat e, CryptPayload aes keys ssrc (of_nat e) (of_nat (e div 65536 - c0)) p)"

lemma send_stream_tracked:
  assumes "send_tracks t c0 e"
  shows "send_stream aes keys ssrc t (Suc e) ps =
    map (\<lambda>i. packet_of aes keys ssrc c0 (Suc e + i) (ps ! i)) [0..<length ps]"
  using assms
proof (induction ps arbitrary: t e)
  case Nil
  then show ?case by simp
next
  case (Cons p ps)
  obtain roc t' where a: "Advance t (of_nat (Suc e)) = (roc, t')" by fastforce
  then have "roc = of_nat (Suc e div 65536 - c0)" "send_tracks t' c0 (Suc e)"
    using Advance_tracks [OF Cons.prems] by simp_all
  then show ?case
    using Cons.IH [of t' "Suc e"] a
    by (simp add: packet_of_def upt_conv_Cons map_Suc_upt [symmetric] del: upt_Suc of_nat_Suc)
qed

lemma send_stream_nth:
  assumes "i < length ps"
  shows "send_stream aes keys ssrc new_send_roc e ps ! i = packet_of aes keys ssrc (e div 65536) (e + i) (ps ! i)"
proof (cases ps)
  case (Cons p qs)
  have "Advance new_send_roc (of_nat e) = (0, new_send_roc\<lparr>lastSeq := of_nat e, send_initialized := True\<rparr>)"
    by (simp add: Advance_def new_send_roc_def)
  moreover have "send_tracks (new_send_roc\<lparr>lastSeq := of_nat e, send_initialized := True\<rparr>) (e div 65536) e"
    by (simp add: send_tracks_def new_send_roc_def)
  ultimately show ?thesis
    using assms send_stream_tracked [of _ "e div 65536" e aes keys ssrc qs]
    by (cases i) (simp_all add: Cons packet_of_def)
qed (use assms in simp)

lemma recv_stream_tracked:
  assumes "\<forall>k c. length (aes k c) = 16" and "recv_tracks t c0 h" and "near h es" and "\<forall>e \<in> set es. c0 \<le> e div 65536"
  shows "recv_stream aes keys ssrc t (map (\<lambda>e. packet_of aes keys ssrc c0 e (f e)) es) = map f es"
  using assms(2-4)
proof (induction es arbitrary: t h)
  case Nil
  then show ?case by simp
next
  case (Cons e es)
  then have "EstimateRoc t (of_nat e) = of_nat (e div 65536 - c0)"
    "recv_tracks (CommitRoc t (of_nat (e div 65536 - c0)) (of_nat e)) c0 (max h e)"
    by (intro EstimateRoc_tracks [where h = h] CommitRoc_tracks; simp)+
  then show ?case
    using Cons CryptPayload_twice [OF assms(1)] by (simp add: packet_of_def GuessRoc_def Let_def)
qed

text \<open>
  Media survives the network. The sender encrypts any number of payloads, from any starting
  sequence number and across any number of wrap-arounds, tracking its rollover counter. Whatever
  the network does to the packets (loss, duplication, reordering below half the number space),
  provided the first one to arrive was sent before the first wrap-around, the receiver's guessed
  counters decrypt every packet that arrives to the payload that was sent.
\<close>

theorem media_stream_decrypts:
  assumes "\<forall>k c. length (aes k c) = 16" and "\<forall>i \<in> set (i0 # is). i < length ps"
    and "(e + i0) div 65536 = e div 65536" and "near i0 is"
    and "packets = send_stream aes keys ssrc new_send_roc e ps"
  shows "recv_stream aes keys ssrc new_recv_roc (map (\<lambda>i. packets ! i) (i0 # is)) = map (\<lambda>i. ps ! i) (i0 # is)"
proof -
  let ?c0 = "e div 65536" and ?f = "\<lambda>n. ps ! (n - e)"
  have pk: "packets ! i = packet_of aes keys ssrc ?c0 (e + i) (?f (e + i))" if "i < length ps" for i
    using that by (simp add: assms(5) send_stream_nth)
  let ?t = "snd (GuessRoc new_recv_roc (of_nat (e + i0)))"
  have t: "fst (GuessRoc new_recv_roc (of_nat (e + i0))) = 0" "recv_tracks ?t ?c0 (e + i0)"
    using assms(3) by (simp_all add: GuessRoc_def EstimateRoc_def CommitRoc_def new_recv_roc_def recv_tracks_def Let_def)
  have "map (\<lambda>i. packets ! i) is = map (\<lambda>n. packet_of aes keys ssrc ?c0 n (?f n)) (map ((+) e) is)"
    using assms(2) pk by simp
  moreover have "\<forall>n \<in> set (map ((+) e) is). ?c0 \<le> n div 65536"
    by (auto intro: div_le_mono)
  ultimately have "recv_stream aes keys ssrc ?t (map (\<lambda>i. packets ! i) is) = map ?f (map ((+) e) is)"
    using recv_stream_tracked [OF assms(1) t(2) near_shift [OF assms(4)], of keys ssrc ?f] by (simp only:)
  moreover have "packets ! i0 = (of_nat (e + i0), CryptPayload aes keys ssrc (of_nat (e + i0)) 0 (ps ! i0))"
    using assms(2,3) pk [of i0] by (simp add: packet_of_def)
  ultimately show ?thesis
    using t(1) CryptPayload_twice [OF assms(1)] by (simp add: case_prod_unfold)
qed

theorem media_stream_decrypts_witness:
  "recv_stream toy_aes \<lparr>CipherKey = [], Salt = replicate 14 3, AuthKey = []\<rparr> 9 new_recv_roc
     (map (\<lambda>i. send_stream toy_aes \<lparr>CipherKey = [], Salt = replicate 14 3, AuthKey = []\<rparr> 9 new_send_roc 65534
       [[1], [2], [3], [4]] ! i) [1, 3, 0]) = [[2], [4], [1]]"
  using media_stream_decrypts [of toy_aes 1 "[3, 0]" "[[1], [2], [3], [4]]" 65534 _
      "\<lparr>CipherKey = [], Salt = replicate 14 3, AuthKey = []\<rparr>" 9]
  by (simp add: toy_lengths)

section \<open>No initialisation vector is used twice\<close>

lemma map2_xor_inject:
  assumes "map2 (XOR) iv a = map2 (XOR) iv b" and "length a = length iv" and "length b = length iv"
  shows "a = (b :: bytes)"
proof (rule nth_equalityI)
  fix i assume "i < length a"
  with assms have "iv ! i XOR a ! i = iv ! i XOR b ! i"
    by (metis (no_types, lifting) case_prod_conv length_map length_zip min.idem nth_map nth_zip)
  then show "a ! i = b ! i" by (metis xor.left_neutral xor.assoc xor_self_eq)
qed (use assms in simp)

lemma unat_packet_index:
  "unat ((ucast (roc :: u32) :: u64) * 0x10000 + ucast (seq :: u16)) = unat roc * 65536 + unat seq"
  "unat roc * 65536 + unat seq < 2 ^ 48"
proof -
  have "unat roc < 2 ^ 32" using unsigned_less [of roc, where ?'a = nat] by simp
  then show lt: "unat roc * 65536 + unat seq < 2 ^ 48" using unat_u16_less [of seq] by (simp del: unat_u16_less)
  have "(ucast roc :: u64) * 0x10000 + ucast seq = of_nat (unat roc * 65536 + unat seq)" by simp
  then show "unat ((ucast roc :: u64) * 0x10000 + ucast seq) = unat roc * 65536 + unat seq"
    using lt by (simp only: unat_of_nat) (simp add: take_bit_nat_eq_self)
qed

lemma packet_index_parts:
  fixes p :: u64
  assumes "unat p < 2 ^ 48"
  shows "unat (ucast (drop_bit 32 p AND 0xffff) :: u16) = unat p div 2 ^ 32"
    and "unat (ucast (p AND 0xffffffff) :: u32) = unat p mod 2 ^ 32"
proof -
  have m: "x AND 0xffff = take_bit 16 x" "x AND 0xffffffff = take_bit 32 x" for x :: u64
    by (simp_all add: take_bit_eq_mask mask_eq_exp_minus_1)
  have "unat p div 2 ^ 32 < 2 ^ 16"
    using assms by (intro less_mult_imp_div_less) simp
  then show "unat (ucast (drop_bit 32 p AND 0xffff) :: u16) = unat p div 2 ^ 32"
    unfolding m unsigned_ucast_eq unsigned_take_bit_eq unat_drop_bit_eq
    by (simp add: drop_bit_eq_div take_bit_nat_eq_self)
  show "unat (ucast (p AND 0xffffffff) :: u32) = unat p mod 2 ^ 32"
    unfolding m unsigned_ucast_eq unsigned_take_bit_eq by (simp add: take_bit_eq_mod)
qed

text \<open>
  Every packet has its own initialisation vector. Under one salt, two packets that differ in
  stream, rollover counter or sequence number are encrypted under different vectors, so no two of
  the \<open>2^48\<close> packets of a stream share a key stream start.
\<close>

theorem e2e_iv_injective:
  assumes "length salt = 14" and "BuildE2eRtpIV salt ssrc roc seq = BuildE2eRtpIV salt ssrc' roc' seq'"
  shows "ssrc = ssrc' \<and> roc = roc' \<and> seq = seq'"
proof -
  let ?i = "(ucast roc :: u64) * 0x10000 + ucast seq" and ?i' = "(ucast roc' :: u64) * 0x10000 + ucast seq'"
  have "[0, 0, 0, 0] @ put_be32 ssrc @ put_be16 (ucast (drop_bit 32 ?i AND 0xffff)) @
      put_be32 (ucast (?i AND 0xffffffff)) @ [0, 0] =
    [0, 0, 0, 0] @ put_be32 ssrc' @ put_be16 (ucast (drop_bit 32 ?i' AND 0xffff)) @
      put_be32 (ucast (?i' AND 0xffffffff)) @ [0, 0]"
    using assms unfolding BuildE2eRtpIV_def Let_def by (elim map2_xor_inject) simp_all
  then have eq: "ssrc = ssrc'"
    "(ucast (drop_bit 32 ?i AND 0xffff) :: u16) = ucast (drop_bit 32 ?i' AND 0xffff)"
    "(ucast (?i AND 0xffffffff) :: u32) = ucast (?i' AND 0xffffffff)"
    by (simp_all add: put_be32_inject put_be16_inject append_eq_append_conv)
  have "unat ?i div 2 ^ 32 = unat ?i' div 2 ^ 32" "unat ?i mod 2 ^ 32 = unat ?i' mod 2 ^ 32"
    using packet_index_parts [of ?i] packet_index_parts [of ?i'] unat_packet_index eq(2,3) by metis+
  then have "unat ?i = unat ?i'" by (metis div_mult_mod_eq)
  then have n: "unat roc * 65536 + unat seq = unat roc' * 65536 + unat seq'"
    by (simp only: unat_packet_index)
  have "unat roc = (unat roc * 65536 + unat seq) div 65536" "unat seq = (unat roc * 65536 + unat seq) mod 65536"
    "unat roc' = (unat roc' * 65536 + unat seq') div 65536" "unat seq' = (unat roc' * 65536 + unat seq') mod 65536"
    by simp_all
  then have "unat roc = unat roc'" "unat seq = unat seq'" using n by metis+
  then show ?thesis using eq(1) by (auto intro: unsigned_word_eqI)
qed

theorem e2e_iv_injective_witness:
  "BuildE2eRtpIV (replicate 14 1) 5 0 7 \<noteq> BuildE2eRtpIV (replicate 14 1) 5 1 7"
  using e2e_iv_injective [of "replicate 14 1" 5 0 7 5 1 7] by auto

end
