(* ===== verification/Sframe.thy ===== *)
theory Sframe
  imports Participant Varint
begin

text \<open>
  SFrame encryption of group media, \<open>lib/srtp/sframe.go\<close>. AES-128-GCM with 16-byte nonces is the
  pair of parameters \<open>seal\<close> and \<open>unseal\<close> (key, nonce, text); HKDF is \<open>hkdf\<close>. Keys are arrays of fixed
  size, so building the cipher cannot fail.
\<close>

section \<open>Keys\<close>

definition KDFLabelE2ESframe :: string where "KDFLabelE2ESframe = ''e2e sframe key''"
definition KDFLabelWarpAuth :: string where "KDFLabelWarpAuth = ''warp auth key''"
definition gcmTagLen :: nat where "gcmTagLen = 16"
definition aesKeyLen :: nat where "aesKeyLen = 16"

definition FormatSframeParticipantID :: "string \<Rightarrow> string" where
  "FormatSframeParticipantID jid = FormatParticipantID jid"

definition SframeInfoLabel :: "string \<Rightarrow> string" where
  "SframeInfoLabel participantID = KDFLabelE2ESframe @ participantID"

definition splitCallKey :: "bytes \<Rightarrow> key_error + bytes \<times> bytes" where
  "splitCallKey callKey =
     (if length callKey \<noteq> 32 then Inl ErrBadCallKeyLen else Inr (take 16 callKey, drop 16 callKey))"

definition DeriveE2eSframeKeyForParticipant :: "hkdf_fun \<Rightarrow> bytes \<Rightarrow> string \<Rightarrow> key_error + bytes" where
  "DeriveE2eSframeKeyForParticipant hkdf callKey participantID =
     bind_res (splitCallKey callKey) (\<lambda>(salt, ikm).
       HKDFSHA256 hkdf salt ikm (str_bytes (SframeInfoLabel participantID)) 32)"

definition DeriveWarpAuthKey :: "hkdf_fun \<Rightarrow> bytes \<Rightarrow> key_error + bytes" where
  "DeriveWarpAuthKey hkdf callKey =
     (if length callKey \<noteq> 32 then Inl ErrBadCallKeyLen
      else HKDFSHA256 hkdf [] callKey (str_bytes KDFLabelWarpAuth) 32)"

section \<open>Frames\<close>

definition put_le64 :: "u64 \<Rightarrow> bytes" where
  "put_le64 x = rev (put_be32 (ucast (drop_bit 32 x)) @ put_be32 (ucast x))"

definition counterToIV :: "u64 \<Rightarrow> bytes" where
  "counterToIV counter = replicate 8 0 @ put_le64 counter"

definition buildSframeHeader :: "u64 \<Rightarrow> u64 \<Rightarrow> bytes" where
  "buildSframeHeader counter keyID =
     (let h = uvarint counter @ uvarint keyID in h @ [of_nat (length h + 1)])"

definition parseSframeHeader :: "bytes \<Rightarrow> (u64 \<times> u64) option" where
  "parseSframeHeader header =
     (if length header < 2 then None
      else if unat (header ! (length header - 1)) \<noteq> length header then None
      else let body = take (length header - 1) header
      in case Uvarint body of
           None \<Rightarrow> None
         | Some (counter, n) \<Rightarrow>
             (case Uvarint (drop n body) of None \<Rightarrow> None | Some (keyID, _) \<Rightarrow> Some (counter, keyID)))"

type_synonym seal_fun = "bytes \<Rightarrow> bytes \<Rightarrow> bytes \<Rightarrow> bytes"
type_synonym unseal_fun = "bytes \<Rightarrow> bytes \<Rightarrow> bytes \<Rightarrow> bytes option"

definition gcmEncrypt :: "seal_fun \<Rightarrow> bytes \<Rightarrow> bytes \<Rightarrow> bytes \<Rightarrow> bytes" where
  "gcmEncrypt seal key nonce plaintext = seal (take aesKeyLen key) nonce plaintext"

definition gcmDecrypt :: "unseal_fun \<Rightarrow> bytes \<Rightarrow> bytes \<Rightarrow> bytes \<Rightarrow> bytes option" where
  "gcmDecrypt unseal key nonce ciphertext = unseal (take aesKeyLen key) nonce ciphertext"

record SframeSession =
  SelfParticipantID :: string
  PeerParticipantID :: string
  encryptKey :: bytes
  decryptKey :: bytes
  txCounter :: u64

definition NewSframeSession :: "hkdf_fun \<Rightarrow> bytes \<Rightarrow> string \<Rightarrow> string \<Rightarrow> key_error + SframeSession" where
  "NewSframeSession hkdf callKey selfJID peerJID =
     (let selfID = FormatSframeParticipantID selfJID; peerID = FormatSframeParticipantID peerJID
      in bind_res (DeriveE2eSframeKeyForParticipant hkdf callKey peerID) (\<lambda>sendKey.
         bind_res (DeriveE2eSframeKeyForParticipant hkdf callKey selfID) (\<lambda>recvKey.
           Inr \<lparr>SelfParticipantID = selfID, PeerParticipantID = peerID, encryptKey = take aesKeyLen sendKey,
             decryptKey = take aesKeyLen recvKey, txCounter = 0\<rparr>)))"

definition SframeEncrypt :: "seal_fun \<Rightarrow> SframeSession \<Rightarrow> bytes \<Rightarrow> bytes \<times> SframeSession" where
  "SframeEncrypt seal s plaintext =
     (let counter = txCounter s;
          s = s\<lparr>txCounter := txCounter s + 1\<rparr>;
          header = buildSframeHeader counter 0
      in (gcmEncrypt seal (encryptKey s) (counterToIV counter) plaintext @ header, s))"

definition SframeDecrypt :: "unseal_fun \<Rightarrow> SframeSession \<Rightarrow> bytes \<Rightarrow> bytes option" where
  "SframeDecrypt unseal s frame =
     (if length frame < gcmTagLen + 3 then None
      else
        let headerLen = unat (frame ! (length frame - 1))
        in if headerLen < 3 \<or> headerLen > length frame then None
        else
          let headerStart = length frame - headerLen;
              header = drop headerStart frame;
              ciphertext = take headerStart frame
          in if length ciphertext < gcmTagLen + 1 then None
          else case parseSframeHeader header of
            None \<Rightarrow> None
          | Some (counter, _) \<Rightarrow> gcmDecrypt unseal (decryptKey s) (counterToIV counter) ciphertext)"

section \<open>Headers\<close>

lemma length_uvarint_pos: "0 < length (uvarint x)"
  by simp

lemma length_buildSframeHeader:
  "length (buildSframeHeader c k) = length (uvarint c) + length (uvarint k) + 1"
  "3 \<le> length (buildSframeHeader c k)" "length (buildSframeHeader c k) \<le> 21"
proof -
  show l: "length (buildSframeHeader c k) = length (uvarint c) + length (uvarint k) + 1"
    by (simp add: buildSframeHeader_def Let_def)
  show "3 \<le> length (buildSframeHeader c k)"
    using length_uvarint_pos [of c] length_uvarint_pos [of k] unfolding l by linarith
  show "length (buildSframeHeader c k) \<le> 21"
    using length_uvarint [of c] length_uvarint [of k] unfolding l by linarith
qed

lemma buildSframeHeader_last:
  "unat (buildSframeHeader c k ! (length (buildSframeHeader c k) - 1)) = length (buildSframeHeader c k)"
proof -
  obtain h where h: "buildSframeHeader c k = h @ [of_nat (length h + 1)]" "length h + 1 < 256"
    using length_uvarint [of c] length_uvarint [of k]
    by (intro that [of "uvarint c @ uvarint k"]) (simp_all add: buildSframeHeader_def)
  have "unat (of_nat (length h + 1) :: u8) = length h + 1"
    using h(2) by (rule unat_of_nat_less8)
  then show ?thesis by (simp add: h(1) del: of_nat_add of_nat_Suc)
qed

lemma parseSframeHeader_build: "parseSframeHeader (buildSframeHeader c k) = Some (c, k)"
proof -
  have "take (length (buildSframeHeader c k) - 1) (buildSframeHeader c k) = uvarint c @ uvarint k"
    by (simp add: buildSframeHeader_def Let_def)
  then show ?thesis
    using length_buildSframeHeader(2) [of c k] buildSframeHeader_last [of c k] Uvarint_uvarint [of k "[]"]
    by (simp add: parseSframeHeader_def Let_def)
qed

lemma SframeDecrypt_frame:
  assumes "length ct \<ge> 16"
  shows "SframeDecrypt unseal s (ct @ buildSframeHeader c k) =
    (if length ct < 17 then None else gcmDecrypt unseal (decryptKey s) (counterToIV c) ct)"
proof -
  let ?h = "buildSframeHeader c k"
  have "length (ct @ ?h) - 1 = length ct + (length ?h - 1)"
    using length_buildSframeHeader(2) [of c k] unfolding length_append by linarith
  then have "(ct @ ?h) ! (length (ct @ ?h) - 1) = ?h ! (length ?h - 1)"
    by (simp only: nth_append_length_plus)
  then have "unat ((ct @ ?h) ! (length (ct @ ?h) - 1)) = length ?h"
    by (simp only: buildSframeHeader_last)
  then show ?thesis
    using assms length_buildSframeHeader(2) [of c k]
    by (simp add: SframeDecrypt_def gcmTagLen_def Let_def parseSframeHeader_build)
qed

section \<open>Sessions of two participants\<close>

fun encrypt_all :: "seal_fun \<Rightarrow> SframeSession \<Rightarrow> bytes list \<Rightarrow> bytes list" where
  "encrypt_all seal s [] = []"
| "encrypt_all seal s (p # ps) = (case SframeEncrypt seal s p of (f, s) \<Rightarrow> f # encrypt_all seal s ps)"

text \<open>
  C27: Frames reach the peer. Two sessions created from one call key, each naming the other, use
  matching keys: whatever the sender seals, the peer opens to the same bytes, in any order and with
  any frames missing, because each frame carries its own counter. Empty frames are the exception:
  the peer takes their sealed form for an unencrypted frame.
\<close>

theorem sframe_sessions_agree:
  assumes "\<And>k n p. unseal k n (seal k n p) = Some p" and "\<And>k n p. length (seal k n p) = length p + 16"
    and "NewSframeSession hkdf callKey a b = Inr alice" and "NewSframeSession hkdf callKey b a = Inr bob"
  shows "map (SframeDecrypt unseal bob) (encrypt_all seal alice ps) = map (\<lambda>p. if p = [] then None else Some p) ps"
proof -
  have keys: "decryptKey bob = encryptKey alice"
    using assms(3,4) by (auto simp: NewSframeSession_def Let_def res_elims)
  have "map (SframeDecrypt unseal bob) (encrypt_all seal s ps) = map (\<lambda>p. if p = [] then None else Some p) ps"
    if "encryptKey s = encryptKey alice" for s
    using that
  proof (induction ps arbitrary: s)
    case (Cons p ps)
    have "SframeDecrypt unseal bob (fst (SframeEncrypt seal s p)) = (if p = [] then None else Some p)"
      using Cons.prems assms(1,2) keys
      by (simp add: SframeEncrypt_def Let_def SframeDecrypt_frame gcmEncrypt_def gcmDecrypt_def Suc_le_eq)
    then show ?case
      using Cons.IH [of "snd (SframeEncrypt seal s p)"] Cons.prems
      by (simp add: case_prod_unfold) (simp add: SframeEncrypt_def Let_def)
  qed simp
  then show ?thesis by simp
qed

definition toy_seal :: seal_fun where "toy_seal k n p = p @ replicate 16 0"
definition toy_unseal :: unseal_fun where "toy_unseal k n c = Some (take (length c - 16) c)"

theorem sframe_sessions_agree_witness:
  "\<exists>alice bob. NewSframeSession (\<lambda>s i f n. i @ f) (replicate 32 1) ''1@lid'' ''2@lid'' = Inr alice \<and>
    NewSframeSession (\<lambda>s i f n. i @ f) (replicate 32 1) ''2@lid'' ''1@lid'' = Inr bob \<and>
    map (SframeDecrypt toy_unseal bob) (encrypt_all toy_seal alice [[5, 6], []]) = [Some [5, 6], None]"
proof -
  obtain alice where a: "NewSframeSession (\<lambda>s i f n. i @ f) (replicate 32 1) ''1@lid'' ''2@lid'' = Inr alice"
    by (simp add: NewSframeSession_def DeriveE2eSframeKeyForParticipant_def splitCallKey_def HKDFSHA256_def Let_def)
  obtain bob where b: "NewSframeSession (\<lambda>s i f n. i @ f) (replicate 32 1) ''2@lid'' ''1@lid'' = Inr bob"
    by (simp add: NewSframeSession_def DeriveE2eSframeKeyForParticipant_def splitCallKey_def HKDFSHA256_def Let_def)
  from sframe_sessions_agree [of toy_unseal toy_seal, OF _ _ a b, of "[[5, 6], []]"] a b show ?thesis
    by (simp add: toy_seal_def toy_unseal_def)
qed

end
