(* ===== verification/App_State_Store.thy ===== *)
theory App_State_Store
  imports Prelude
begin

text \<open>
  The store of the app state: the interfaces \<open>AppStateStore\<close> and \<open>AppStateSyncKeyStore\<close> of
  \<open>lib/store/store.go\<close> and their SQL implementation in \<open>lib/store/sqlstore/store.go\<close> over the schema of
  \<open>lib/store/sqlstore/upgrades/00-latest-schema.sql\<close>. An operation maps the state to a result and
  the next state, so what was written before an error stays written. The locale \<open>app_state_store\<close>
  states what the users of the interface rely on, and is interpreted on the SQL implementation.
\<close>

section \<open>Stateful operations that may fail\<close>

datatype as_error =
  ErrPanic | ErrDatabase | ErrInvalidLength | ErrVersionZero | ErrKeyNotFound
| ErrMismatchingLTHash | ErrMismatchingPatchMAC | ErrMismatchingContentMAC | ErrMismatchingIndexMAC
| ErrDecryptMutation | ErrUnmarshalMutation | ErrUnmarshalIndex | ErrMarshal
| ErrUnmarshalPatch | ErrDownload | ErrNoMutations | ErrAttrs
| ErrUnexpectedSnapshot | ErrNonEmptyState | ErrFetch | ErrInvalidLthashLength

type_synonym ('s, 'a) st = "'s \<Rightarrow> (as_error + 'a) \<times> 's"

definition st_return :: "'a \<Rightarrow> ('s, 'a) st" where "st_return x s = (Inr x, s)"

definition st_fail :: "as_error \<Rightarrow> ('s, 'a) st" where "st_fail e s = (Inl e, s)"

definition st_bind :: "('s, 'a) st \<Rightarrow> ('a \<Rightarrow> ('s, 'b) st) \<Rightarrow> ('s, 'b) st" where
  "st_bind m f s = (case m s of (Inl e, s) \<Rightarrow> (Inl e, s) | (Inr x, s) \<Rightarrow> f x s)"

lemma st_simps [simp]:
  "st_return x s = (Inr x, s)"
  "st_fail e s = (Inl e, s)"
  "st_bind (st_return x) f = f x"
  "st_bind (st_fail e) f = st_fail e"
  by (auto simp: st_return_def st_fail_def st_bind_def)

lemma st_bind_Inr_iff [res_elims]:
  "st_bind m f s = (Inr y, s'') \<longleftrightarrow> (\<exists>x s'. m s = (Inr x, s') \<and> f x s' = (Inr y, s''))"
  by (auto simp: st_bind_def split: prod.splits sum.splits)

lemma st_bind_run: "m s = (Inr x, s') \<Longrightarrow> st_bind m f s = f x s'"
  by (simp add: st_bind_def)

lemma st_bind_cong [fundef_cong]:
  "m = m' \<Longrightarrow> s = s' \<Longrightarrow> (\<And>x s''. m' s' = (Inr x, s'') \<Longrightarrow> f x s'' = g x s'') \<Longrightarrow> st_bind m f s = st_bind m' g s'"
  by (auto simp: st_bind_def split: prod.splits sum.splits)

section \<open>The interface\<close>

type_synonym mac_entry = "bytes \<times> bytes"

record AppStateSyncKey =
  ask_Data :: bytes
  ask_Fingerprint :: bytes
  ask_Timestamp :: int

record 'd AppStateStore =
  PutAppStateVersion :: "string \<Rightarrow> u64 \<Rightarrow> bytes \<Rightarrow> ('d, unit) st"
  GetAppStateVersion :: "string \<Rightarrow> ('d, u64 \<times> bytes) st"
  DeleteAppStateVersion :: "string \<Rightarrow> ('d, unit) st"
  PutAppStateMutationMACs :: "string \<Rightarrow> u64 \<Rightarrow> mac_entry list \<Rightarrow> ('d, unit) st"
  DeleteAppStateMutationMACs :: "string \<Rightarrow> bytes list \<Rightarrow> ('d, unit) st"
  GetAppStateMutationMAC :: "string \<Rightarrow> bytes \<Rightarrow> ('d, bytes option) st"
  GetAppStateSyncKey :: "bytes \<Rightarrow> ('d, AppStateSyncKey option) st"

text \<open>
  What a client observes: \<open>macs_of\<close>, the value MAC of every index MAC of a collection, \<open>state_of\<close>,
  the saved version and hash, and \<open>keys_of\<close>, the sync keys. A successful operation has exactly the
  documented effect on the three; nothing is promised of a failed one.
\<close>

locale app_state_store =
  fixes S :: "'d AppStateStore"
    and macs_of :: "'d \<Rightarrow> string \<Rightarrow> bytes \<rightharpoonup> bytes"
    and state_of :: "'d \<Rightarrow> string \<Rightarrow> u64 \<times> bytes"
    and keys_of :: "'d \<Rightarrow> bytes \<rightharpoonup> AppStateSyncKey"
  assumes put_version: "PutAppStateVersion S name v h d = (Inr u, d') \<Longrightarrow>
      macs_of d' = macs_of d \<and> state_of d' = (state_of d)(name := (v, h)) \<and> keys_of d' = keys_of d"
    and get_version: "GetAppStateVersion S name d = (Inr vh, d') \<Longrightarrow>
      vh = state_of d name \<and> macs_of d' = macs_of d \<and> state_of d' = state_of d \<and> keys_of d' = keys_of d"
    and delete_version: "DeleteAppStateVersion S name d = (Inr u, d') \<Longrightarrow>
      macs_of d' = (macs_of d)(name := Map.empty) \<and> state_of d' = (state_of d)(name := (0, replicate 128 0)) \<and>
      keys_of d' = keys_of d"
    and put_macs: "PutAppStateMutationMACs S name v ms d = (Inr u, d') \<Longrightarrow>
      macs_of d' = (macs_of d)(name := macs_of d name ++ map_of (rev ms)) \<and> state_of d' = state_of d \<and> keys_of d' = keys_of d"
    and delete_macs: "DeleteAppStateMutationMACs S name xs d = (Inr u, d') \<Longrightarrow>
      macs_of d' = (macs_of d)(name := macs_of d name |` (- set xs)) \<and> state_of d' = state_of d \<and> keys_of d' = keys_of d"
    and get_mac: "GetAppStateMutationMAC S name i d = (Inr r, d') \<Longrightarrow>
      r = macs_of d name i \<and> macs_of d' = macs_of d \<and> state_of d' = state_of d \<and> keys_of d' = keys_of d"
    and get_key: "GetAppStateSyncKey S k d = (Inr rk, d') \<Longrightarrow>
      rk = keys_of d k \<and> macs_of d' = macs_of d \<and> state_of d' = state_of d \<and> keys_of d' = keys_of d"

section \<open>The SQL implementation\<close>

text \<open>
  The rows of one device. \<open>faults\<close> says for each coming statement whether the database fails it;
  beyond its end every statement runs.
\<close>

record SQLStore =
  version_rows :: "string \<rightharpoonup> u64 \<times> bytes"
  mac_rows :: "string \<times> bytes \<rightharpoonup> u64 \<times> bytes"
  key_rows :: "(bytes \<times> AppStateSyncKey) list"
  postgres :: bool
  faults :: "bool list"

definition statement :: "(SQLStore \<Rightarrow> (as_error + 'a) \<times> SQLStore) \<Rightarrow> (SQLStore, 'a) st" where
  "statement f d =
     (case faults d of
        True # fs \<Rightarrow> (Inl ErrDatabase, d\<lparr>faults := fs\<rparr>)
      | False # fs \<Rightarrow> f (d\<lparr>faults := fs\<rparr>)
      | [] \<Rightarrow> f d)"

text \<open>The driver rejects an unsigned value with the high bit set.\<close>

definition big :: "u64 \<Rightarrow> bool" where "big v = bit v 63"

definition sql_PutAppStateVersion :: "string \<Rightarrow> u64 \<Rightarrow> bytes \<Rightarrow> (SQLStore, unit) st" where
  "sql_PutAppStateVersion name v h = statement (\<lambda>d.
     if big v \<or> length h \<noteq> 128 then (Inl ErrDatabase, d)
     else (Inr (), d\<lparr>version_rows := (version_rows d)(name \<mapsto> (v, h))\<rparr>))"

definition sql_GetAppStateVersion :: "string \<Rightarrow> (SQLStore, u64 \<times> bytes) st" where
  "sql_GetAppStateVersion name = statement (\<lambda>d.
     (case version_rows d name of
        None \<Rightarrow> Inr (0, replicate 128 0)
      | Some (v, h) \<Rightarrow>
          if length h \<noteq> 128 then Inl ErrInvalidLength
          else if v = 0 then Inl ErrVersionZero
          else Inr (v, h), d))"

text \<open>The MAC rows of a collection refer to its version row and are deleted with it.\<close>

definition sql_DeleteAppStateVersion :: "string \<Rightarrow> (SQLStore, unit) st" where
  "sql_DeleteAppStateVersion name = statement (\<lambda>d.
     (Inr (), d\<lparr>version_rows := (version_rows d)(name := None),
                mac_rows := (\<lambda>(n, i). if n = name then None else mac_rows d (n, i))\<rparr>))"

definition mutationBatchSize :: nat where "mutationBatchSize = 400"

text \<open>
  \<open>dedupeMutationMACs\<close>: the map \<open>indices\<close> holds the position of every index of 32 bytes in \<open>out\<close>.
\<close>

fun dedupe_loop :: "(bytes \<rightharpoonup> nat) \<Rightarrow> mac_entry list \<Rightarrow> mac_entry list \<Rightarrow> mac_entry list" where
  "dedupe_loop indices out [] = out"
| "dedupe_loop indices out (m # ms) =
     (if length (fst m) \<noteq> 32 then dedupe_loop indices (out @ [m]) ms
      else case indices (fst m) of
        Some i \<Rightarrow> dedupe_loop indices (out[i := m]) ms
      | None \<Rightarrow> dedupe_loop (indices(fst m \<mapsto> length out)) (out @ [m]) ms)"

definition dedupeMutationMACs :: "mac_entry list \<Rightarrow> mac_entry list" where
  "dedupeMutationMACs ms = dedupe_loop Map.empty [] ms"

fun chunk :: "nat \<Rightarrow> 'a list \<Rightarrow> 'a list list" where
  "chunk n [] = []"
| "chunk n (x # xs) = take (Suc n) (x # xs) # chunk n (drop n xs)"

text \<open>
  One upsert: rows that break a length check or refer to no version row fail it, and Postgres
  rejects a statement that touches a row twice.
\<close>

definition putAppStateMutationMACs ::
  "string \<Rightarrow> u64 \<Rightarrow> mac_entry list \<Rightarrow> SQLStore \<Rightarrow> (as_error + unit) \<times> SQLStore" where
  "putAppStateMutationMACs name v ms d =
     (if big v \<or> version_rows d name = None
         \<or> \<not> list_all (\<lambda>(i, m). length i = 32 \<and> length m = 32) ms
         \<or> postgres d \<and> \<not> distinct (map fst ms)
      then (Inl ErrDatabase, d)
      else (Inr (), d\<lparr>mac_rows := foldl (\<lambda>rows (i, m). rows((name, i) \<mapsto> (v, m))) (mac_rows d) ms\<rparr>))"

fun put_chunks :: "string \<Rightarrow> u64 \<Rightarrow> mac_entry list list \<Rightarrow> (SQLStore, unit) st" where
  "put_chunks name v [] = st_return ()"
| "put_chunks name v (c # cs) =
     st_bind (statement (putAppStateMutationMACs name v c)) (\<lambda>_. put_chunks name v cs)"

text \<open>The transaction takes back the rows of a failed run.\<close>

definition sql_PutAppStateMutationMACs :: "string \<Rightarrow> u64 \<Rightarrow> mac_entry list \<Rightarrow> (SQLStore, unit) st" where
  "sql_PutAppStateMutationMACs name v ms d =
     (if ms = [] then (Inr (), d)
      else case put_chunks name v (chunk (mutationBatchSize - 1) (dedupeMutationMACs ms)) d of
        (Inr u, d') \<Rightarrow> (Inr u, d')
      | (Inl e, d') \<Rightarrow> (Inl e, d\<lparr>faults := faults d'\<rparr>))"

definition sql_DeleteAppStateMutationMACs :: "string \<Rightarrow> bytes list \<Rightarrow> (SQLStore, unit) st" where
  "sql_DeleteAppStateMutationMACs name xs d =
     (if xs = [] then (Inr (), d)
      else statement (\<lambda>d. (Inr (), d\<lparr>mac_rows := (\<lambda>(n, i). if n = name \<and> i \<in> set xs then None else mac_rows d (n, i))\<rparr>)) d)"

definition sql_GetAppStateMutationMAC :: "string \<Rightarrow> bytes \<Rightarrow> (SQLStore, bytes option) st" where
  "sql_GetAppStateMutationMAC name i = statement (\<lambda>d. (Inr (map_option snd (mac_rows d (name, i))), d))"

definition sql_PutAppStateSyncKey :: "bytes \<Rightarrow> AppStateSyncKey \<Rightarrow> (SQLStore, unit) st" where
  "sql_PutAppStateSyncKey key_id key = statement (\<lambda>d.
     (Inr (), case map_of (key_rows d) key_id of
        Some old \<Rightarrow> if ask_Timestamp key > ask_Timestamp old then d\<lparr>key_rows := AList.update key_id key (key_rows d)\<rparr> else d
      | None \<Rightarrow> d\<lparr>key_rows := AList.update key_id key (key_rows d)\<rparr>))"

definition sql_GetAppStateSyncKey :: "bytes \<Rightarrow> (SQLStore, AppStateSyncKey option) st" where
  "sql_GetAppStateSyncKey key_id = statement (\<lambda>d. (Inr (map_of (key_rows d) key_id), d))"

text \<open>\<open>ORDER BY timestamp DESC\<close>, with rows of equal time in table order.\<close>

definition by_time :: "(bytes \<times> AppStateSyncKey) list \<Rightarrow> (bytes \<times> AppStateSyncKey) list" where
  "by_time rows = sort_key (\<lambda>(_, k). - ask_Timestamp k) rows"

definition sql_GetLatestAppStateSyncKeyID :: "(SQLStore, bytes option) st" where
  "sql_GetLatestAppStateSyncKeyID = statement (\<lambda>d.
     (Inr (case by_time (key_rows d) of [] \<Rightarrow> None | (i, _) # _ \<Rightarrow> Some i), d))"

definition sql_GetAllAppStateSyncKeys :: "(SQLStore, AppStateSyncKey list) st" where
  "sql_GetAllAppStateSyncKeys = statement (\<lambda>d. (Inr (map snd (by_time (key_rows d))), d))"

definition sql_store :: "SQLStore AppStateStore" where
  "sql_store = \<lparr>PutAppStateVersion = sql_PutAppStateVersion, GetAppStateVersion = sql_GetAppStateVersion,
     DeleteAppStateVersion = sql_DeleteAppStateVersion, PutAppStateMutationMACs = sql_PutAppStateMutationMACs,
     DeleteAppStateMutationMACs = sql_DeleteAppStateMutationMACs,
     GetAppStateMutationMAC = sql_GetAppStateMutationMAC, GetAppStateSyncKey = sql_GetAppStateSyncKey\<rparr>"

section \<open>Deduplication and batches\<close>

lemma concat_chunk: "concat (chunk n xs) = xs"
  by (induction n xs rule: chunk.induct) simp_all

lemma chunk_distinct:
  assumes "distinct (map f xs)" and "c \<in> set (chunk n xs)"
  shows "distinct (map f c)"
proof -
  obtain l r where "chunk n xs = l @ c # r" using split_list [OF assms(2)] by blast
  then have "xs = concat l @ c @ concat r" using concat_chunk [of n xs] by simp
  then show ?thesis using assms(1) by simp
qed

definition positions_ok :: "(bytes \<rightharpoonup> nat) \<Rightarrow> mac_entry list \<Rightarrow> bool" where
  "positions_ok indices out \<longleftrightarrow>
     (\<forall>k i. indices k = Some i \<longleftrightarrow> length k = 32 \<and> i < length out \<and> fst (out ! i) = k)"

lemma positions_ok_distinct:
  "positions_ok indices out \<Longrightarrow> list_all (\<lambda>m. length (fst m) = 32) out \<Longrightarrow> distinct (map fst out)"
  by (auto simp: positions_ok_def distinct_conv_nth list_all_length) (metis option.inject)

lemma map_of_rev_update:
  assumes "i < length out" and "fst (out ! i) = fst m" and "\<And>j. j < length out \<Longrightarrow> fst (out ! j) = fst m \<Longrightarrow> j = i"
  shows "map_of (rev (out[i := m])) = (map_of (rev out))(fst m \<mapsto> snd m)"
proof -
  define a b where ab: "a = take i out" "b = drop (Suc i) out"
  have out: "out = a @ out ! i # b" "out[i := m] = a @ m # b" "length a = i"
    using assms(1) by (simp_all add: ab id_take_nth_drop upd_conv_take_nth_drop)
  have "fst m \<notin> fst ` set b"
  proof
    assume "fst m \<in> fst ` set b"
    then obtain j where "j < length b" "fst (b ! j) = fst m" by (auto simp: in_set_conv_nth)
    then have "fst (out ! (Suc i + j)) = fst m" "Suc i + j < length out"
      using assms(1) by (auto simp: ab)
    then show False using assms(3) by fastforce
  qed
  then have nb: "map_of (rev b) (fst m) = None"
    by (simp add: map_of_eq_None_iff)
  have "map_of (rev (a @ out ! i # b)) k = (if k = fst m then Some (snd (out ! i)) else map_of (rev (a @ m # b)) k)" for k
    using nb assms(2) by (cases "out ! i"; cases m) (auto simp: map_add_def split: option.splits)
  moreover have "map_of (rev (a @ m # b)) (fst m) = Some (snd m)"
    using nb by (cases m) (auto simp: map_add_def)
  ultimately show ?thesis
    unfolding out(2) by (intro ext) (metis (no_types) fun_upd_apply out(1))
qed

lemma positions_ok_snoc:
  assumes "positions_ok indices out" and "length (fst m) \<noteq> 32 \<and> indices' = indices \<or>
    indices (fst m) = None \<and> length (fst m) = 32 \<and> indices' = indices(fst m \<mapsto> length out)"
  shows "positions_ok indices' (out @ [m])"
  unfolding positions_ok_def
proof (intro allI)
  fix k i
  have ok: "indices k = Some j \<longleftrightarrow> length k = 32 \<and> j < length out \<and> fst (out ! j) = k" for k j
    using assms(1) by (auto simp: positions_ok_def)
  show "indices' k = Some i \<longleftrightarrow> length k = 32 \<and> i < length (out @ [m]) \<and> fst ((out @ [m]) ! i) = k"
  proof (cases "i < length out")
    case True
    then show ?thesis using assms(2) ok [of k i] ok [of "fst m" i] by (auto simp: nth_append split: if_splits)
  next
    case False
    then show ?thesis using assms(2) ok [of k i] by (auto simp: nth_append less_Suc_eq split: if_splits)
  qed
qed

lemma positions_ok_update:
  assumes "positions_ok indices out" and "indices (fst m) = Some i"
  shows "positions_ok indices (out[i := m])"
proof -
  have "i < length out" "fst (out ! i) = fst m" using assms by (auto simp: positions_ok_def)
  then have "map fst (out[i := m]) = map fst out"
    by (metis list_update_id map_update nth_map)
  then have "fst (out[i := m] ! j) = fst (out ! j)" if "j < length out" for j
    using that by (metis length_list_update nth_map)
  then show ?thesis using assms(1) by (auto simp: positions_ok_def)
qed

lemma dedupe_loop_spec:
  assumes "positions_ok indices out"
  shows "map_of (rev (dedupe_loop indices out ms)) = map_of (rev out) ++ map_of (rev ms) \<and>
    (\<exists>indices'. positions_ok indices' (dedupe_loop indices out ms))"
  using assms
proof (induction indices out ms rule: dedupe_loop.induct)
  case (2 indices out m ms)
  have comb: "map_of (rev out) ++ map_of (rev (m # ms)) = (map_of (rev out))(fst m \<mapsto> snd m) ++ map_of (rev ms)"
    by (cases m) (simp add: map_add_assoc [symmetric])
  show ?case
  proof (cases "length (fst m) = 32")
    case False
    then show ?thesis
      using 2(1) positions_ok_snoc [OF 2(4), of m indices] comb by (cases m) (auto simp: fun_upd_def)
  next
    case True
    show ?thesis
    proof (cases "indices (fst m)")
      case None
      then show ?thesis
        using 2(2) [OF _ None] positions_ok_snoc [OF 2(4), of m "indices(fst m \<mapsto> length out)"] comb True
        by (cases m) (auto simp: fun_upd_def)
    next
      case (Some i)
      have "map_of (rev (out[i := m])) = (map_of (rev out))(fst m \<mapsto> snd m)"
      proof (rule map_of_rev_update)
        show "j = i" if "j < length out" "fst (out ! j) = fst m" for j
          using 2(4) Some True that unfolding positions_ok_def by (metis option.inject)
      qed (use 2(4) Some in \<open>auto simp: positions_ok_def\<close>)
      then show ?thesis
        using 2(3) [OF _ Some] True positions_ok_update [OF 2(4) Some] comb Some by (simp add: fun_upd_def)
    qed
  qed
qed auto

lemma dedupe_spec:
  "map_of (rev (dedupeMutationMACs ms)) = map_of (rev ms)"
  "list_all (\<lambda>m. length (fst m) = 32) (dedupeMutationMACs ms) \<Longrightarrow> distinct (map fst (dedupeMutationMACs ms))"
  using dedupe_loop_spec [of Map.empty "[]" ms] positions_ok_distinct
  by (auto simp: dedupeMutationMACs_def positions_ok_def)

section \<open>The implementation keeps the contract\<close>

definition sql_macs :: "SQLStore \<Rightarrow> string \<Rightarrow> bytes \<rightharpoonup> bytes" where
  "sql_macs d name i = map_option snd (mac_rows d (name, i))"

definition sql_state :: "SQLStore \<Rightarrow> string \<Rightarrow> u64 \<times> bytes" where
  "sql_state d name = (case version_rows d name of None \<Rightarrow> (0, replicate 128 0) | Some vh \<Rightarrow> vh)"

definition sql_keys :: "SQLStore \<Rightarrow> bytes \<rightharpoonup> AppStateSyncKey" where
  "sql_keys d = map_of (key_rows d)"

lemma statement_Inr:
  "statement f d = (Inr x, d') \<Longrightarrow> \<exists>fs. f (d\<lparr>faults := fs\<rparr>) = (Inr x, d')"
  by (cases d) (auto simp: statement_def split: list.splits bool.splits)

lemma sql_views_faults [simp]:
  "sql_macs (d\<lparr>faults := fs\<rparr>) = sql_macs d" "sql_state (d\<lparr>faults := fs\<rparr>) = sql_state d" "sql_keys (d\<lparr>faults := fs\<rparr>) = sql_keys d"
  by (simp_all add: sql_macs_def sql_state_def sql_keys_def fun_eq_iff)

lemma put_rows_macs:
  "(\<lambda>n i. map_option snd (foldl (\<lambda>rows (i, m). rows((name, i) \<mapsto> (v, m))) rows ms (n, i))) =
    (\<lambda>n i. map_option snd (rows (n, i)))(name := (\<lambda>i. map_option snd (rows (name, i))) ++ map_of (rev ms))"
proof (induction ms arbitrary: rows)
  case (Cons m ms)
  obtain i x where m: "m = (i, x)" by force
  show ?case
    unfolding m foldl_Cons prod.case Cons.IH
    by (auto simp: fun_eq_iff map_add_def split: option.splits)
qed (simp add: fun_eq_iff)

lemma put_chunks_views:
  assumes "put_chunks name v cs d = (Inr u, d')"
  shows "sql_macs d' = (sql_macs d)(name := sql_macs d name ++ map_of (rev (concat cs))) \<and>
    sql_state d' = sql_state d \<and> sql_keys d' = sql_keys d"
  using assms
proof (induction cs arbitrary: d)
  case (Cons c cs)
  obtain fs u1 d1 where 1: "putAppStateMutationMACs name v c (d\<lparr>faults := fs\<rparr>) = (Inr u1, d1)" "put_chunks name v cs d1 = (Inr u, d')"
    using Cons.prems by (auto simp: res_elims dest!: statement_Inr)
  have "sql_macs d1 = (sql_macs d)(name := sql_macs d name ++ map_of (rev c))"
    using 1(1) put_rows_macs [of name v "mac_rows d" c] unfolding sql_macs_def
    by (auto simp: putAppStateMutationMACs_def split: if_splits)
  moreover have "sql_state d1 = sql_state d" "sql_keys d1 = sql_keys d"
    using 1(1) by (auto simp: putAppStateMutationMACs_def sql_state_def sql_keys_def fun_eq_iff split: if_splits)
  ultimately show ?case using Cons.IH [OF 1(2)] by (auto simp: fun_eq_iff)
qed simp

lemma set_dedupe_loop: "set (dedupe_loop indices out ms) \<subseteq> set out \<union> set ms"
proof (induction indices out ms rule: dedupe_loop.induct)
  case (2 indices out m ms)
  show ?case
  proof (cases "length (fst m) = 32")
    case True
    show ?thesis
    proof (cases "indices (fst m)")
      case None
      then show ?thesis using 2(2) [OF _ None] True by (simp add: fun_upd_def)
    next
      case (Some i)
      then show ?thesis using 2(3) [OF _ Some] True set_update_subset_insert [of out i m] by simp blast
    qed
  qed (use 2(1) in auto)
qed simp

lemma put_chunks_succeeds:
  assumes "faults d = []" and "\<not> big v" and "version_rows d name \<noteq> None"
    and "\<And>c. c \<in> set cs \<Longrightarrow> distinct (map fst c) \<and> list_all (\<lambda>(i, m). length i = 32 \<and> length m = 32) c"
  shows "\<exists>d'. put_chunks name v cs d = (Inr (), d') \<and> faults d' = []"
  using assms
proof (induction cs arbitrary: d)
  case (Cons c cs)
  then have "putAppStateMutationMACs name v c d =
      (Inr (), d\<lparr>mac_rows := foldl (\<lambda>rows (i, m). rows((name, i) \<mapsto> (v, m))) (mac_rows d) c\<rparr>)"
    by (simp add: putAppStateMutationMACs_def)
  then show ?case
    using Cons.IH [of "d\<lparr>mac_rows := foldl (\<lambda>rows (i, m). rows((name, i) \<mapsto> (v, m))) (mac_rows d) c\<rparr>"] Cons.prems
    by (simp add: st_bind_run statement_def)
qed simp

lemma sql_put_macs_succeeds:
  assumes "faults d = []" and "\<not> big v" and "version_rows d name \<noteq> None"
    and "list_all (\<lambda>(i, m). length i = 32 \<and> length m = 32) ms"
  shows "\<exists>d'. sql_PutAppStateMutationMACs name v ms d = (Inr (), d') \<and> faults d' = []"
proof (cases "ms = []")
  case False
  let ?ds = "dedupeMutationMACs ms"
  have ok: "list_all (\<lambda>(i, m). length i = 32 \<and> length m = 32) ?ds"
    using assms(4) set_dedupe_loop [of Map.empty "[]" ms] by (auto simp: dedupeMutationMACs_def list_all_iff)
  then have "distinct (map fst ?ds)" by (intro dedupe_spec(2)) (auto simp: list_all_iff)
  moreover have "set c \<subseteq> set ?ds" if "c \<in> set (chunk (mutationBatchSize - 1) ?ds)" for c
    using that concat_chunk [of "mutationBatchSize - 1" ?ds] by (metis UN_upper set_concat)
  ultimately obtain d' where "put_chunks name v (chunk (mutationBatchSize - 1) ?ds) d = (Inr (), d')" "faults d' = []"
    using put_chunks_succeeds [OF assms(1-3), of "chunk (mutationBatchSize - 1) ?ds"] chunk_distinct ok
    unfolding list_all_iff by (metis (no_types, lifting) subsetD)
  then show ?thesis using False by (simp add: sql_PutAppStateMutationMACs_def)
qed (simp add: sql_PutAppStateMutationMACs_def assms(1))

interpretation sql: app_state_store sql_store sql_macs sql_state sql_keys
proof
  fix name v h d u d'
  assume "PutAppStateVersion sql_store name v h d = (Inr u, d')"
  then show "sql_macs d' = sql_macs d \<and> sql_state d' = (sql_state d)(name := (v, h)) \<and> sql_keys d' = sql_keys d"
    by (auto simp: sql_store_def sql_PutAppStateVersion_def sql_macs_def sql_state_def sql_keys_def fun_eq_iff
        split: if_splits dest!: statement_Inr)
next
  fix name d vh d'
  assume "GetAppStateVersion sql_store name d = (Inr vh, d')"
  then show "vh = sql_state d name \<and> sql_macs d' = sql_macs d \<and> sql_state d' = sql_state d \<and> sql_keys d' = sql_keys d"
    by (auto simp: sql_store_def sql_GetAppStateVersion_def sql_state_def [of d name] split: option.splits if_splits dest!: statement_Inr)
next
  fix name d u d'
  assume "DeleteAppStateVersion sql_store name d = (Inr u, d')"
  then show "sql_macs d' = (sql_macs d)(name := Map.empty) \<and> sql_state d' = (sql_state d)(name := (0, replicate 128 0)) \<and>
      sql_keys d' = sql_keys d"
    by (auto simp: sql_store_def sql_DeleteAppStateVersion_def sql_macs_def sql_state_def sql_keys_def fun_eq_iff dest!: statement_Inr)
next
  fix name v ms d u d'
  assume a: "PutAppStateMutationMACs sql_store name v ms d = (Inr u, d')"
  show "sql_macs d' = (sql_macs d)(name := sql_macs d name ++ map_of (rev ms)) \<and> sql_state d' = sql_state d \<and> sql_keys d' = sql_keys d"
  proof (cases "ms = []")
    case False
    then have "put_chunks name v (chunk (mutationBatchSize - 1) (dedupeMutationMACs ms)) d = (Inr u, d')"
      using a by (auto simp: sql_store_def sql_PutAppStateMutationMACs_def split: prod.splits sum.splits)
    then show ?thesis using put_chunks_views [of name v _ d u d'] by (simp add: concat_chunk dedupe_spec)
  qed (use a in \<open>simp add: sql_store_def sql_PutAppStateMutationMACs_def\<close>)
next
  fix name xs d u d'
  assume a: "DeleteAppStateMutationMACs sql_store name xs d = (Inr u, d')"
  show "sql_macs d' = (sql_macs d)(name := sql_macs d name |` (- set xs)) \<and> sql_state d' = sql_state d \<and> sql_keys d' = sql_keys d"
  proof (cases "xs = []")
    case False
    then show ?thesis
      using a by (auto simp: sql_store_def sql_DeleteAppStateMutationMACs_def sql_macs_def sql_state_def sql_keys_def fun_eq_iff
          restrict_map_def dest!: statement_Inr)
  qed (use a in \<open>simp add: sql_store_def sql_DeleteAppStateMutationMACs_def fun_eq_iff restrict_map_def\<close>)
next
  fix name i d r d'
  assume "GetAppStateMutationMAC sql_store name i d = (Inr r, d')"
  then show "r = sql_macs d name i \<and> sql_macs d' = sql_macs d \<and> sql_state d' = sql_state d \<and> sql_keys d' = sql_keys d"
    by (auto simp: sql_store_def sql_GetAppStateMutationMAC_def sql_macs_def [of d name i] dest!: statement_Inr)
next
  fix k d r d'
  assume "GetAppStateSyncKey sql_store k d = (Inr r, d')"
  then show "r = sql_keys d k \<and> sql_macs d' = sql_macs d \<and> sql_state d' = sql_state d \<and> sql_keys d' = sql_keys d"
    by (auto simp: sql_store_def sql_GetAppStateSyncKey_def sql_keys_def [of d] dest!: statement_Inr)
qed

end
