(* ===== verification/Lthash.thy ===== *)
theory Lthash
  imports Prelude
begin

text \<open>
  The summation hash of \<open>lib/appstate/lthash/lthash.go\<close>: 128 bytes read as 64 little-endian 16-bit
  words, to which the expansion of an item is added or from which it is subtracted word by word,
  modulo \<open>2 ^ 16\<close>. The expansion, HKDF-SHA256 with a fixed label, is the parameter \<open>expand\<close>. A slice
  expression out of range is a panic, \<^const>\<open>None\<close>.
\<close>

section \<open>Operations\<close>

definition le16 :: "u8 \<Rightarrow> u8 \<Rightarrow> u16" where
  "le16 a b = be16 b a"

definition put_le16 :: "u16 \<Rightarrow> bytes" where
  "put_le16 x = [ucast x, ucast (drop_bit 8 x)]"

fun performPointwiseWithOverflow :: "bytes \<Rightarrow> bytes \<Rightarrow> bool \<Rightarrow> bytes option" where
  "performPointwiseWithOverflow [] input subtract = Some []"
| "performPointwiseWithOverflow (a # b # base) (c # d # input) subtract =
     (let x = le16 a b; y = le16 c d; result = (if subtract then x - y else x + y)
      in map_option ((@) (put_le16 result)) (performPointwiseWithOverflow base input subtract))"
| "performPointwiseWithOverflow base input subtract = None"

fun multipleOp :: "(bytes \<Rightarrow> bytes) \<Rightarrow> bytes \<Rightarrow> bytes list \<Rightarrow> bool \<Rightarrow> bytes option" where
  "multipleOp expand base [] subtract = Some base"
| "multipleOp expand base (item # items) subtract =
     (case performPointwiseWithOverflow base (expand item) subtract of
        None \<Rightarrow> None
      | Some base \<Rightarrow> multipleOp expand base items subtract)"

definition SubtractThenAddInPlace :: "(bytes \<Rightarrow> bytes) \<Rightarrow> bytes \<Rightarrow> bytes list \<Rightarrow> bytes list \<Rightarrow> bytes option" where
  "SubtractThenAddInPlace expand base subtract add =
     (case multipleOp expand base subtract True of
        None \<Rightarrow> None
      | Some base \<Rightarrow> multipleOp expand base add False)"

definition SubtractThenAdd :: "(bytes \<Rightarrow> bytes) \<Rightarrow> bytes \<Rightarrow> bytes list \<Rightarrow> bytes list \<Rightarrow> bytes option" where
  "SubtractThenAdd expand base subtract add = SubtractThenAddInPlace expand base subtract add"

definition HKDFSize :: nat where "HKDFSize = 128"

section \<open>Coordinates\<close>

definition coord :: "bytes \<Rightarrow> nat \<Rightarrow> u16" where
  "coord h i = le16 (h ! (2 * i)) (h ! (2 * i + 1))"

lemma le16_put [simp]: "le16 (ucast x) (ucast (drop_bit 8 (x :: u16))) = x"
  by (simp add: le16_def)

lemma coord_simps [simp]:
  "coord (a # b # h) 0 = le16 a b" "coord (a # b # h) (Suc i) = coord h i"
  by (simp_all add: coord_def)

lemma pointwise_total:
  assumes "length base = length input" and "even (length base)"
  shows "\<exists>h. performPointwiseWithOverflow base input s = Some h \<and> length h = length base \<and>
    (\<forall>i < length base div 2. coord h i = (if s then coord base i - coord input i else coord base i + coord input i))"
  using assms
proof (induction base input s rule: performPointwiseWithOverflow.induct)
  case (2 a b base c d input s)
  from 2(2,3) obtain h where h: "performPointwiseWithOverflow base input s = Some h" "length h = length base"
      "\<forall>i < length base div 2. coord h i = (if s then coord base i - coord input i else coord base i + coord input i)"
    using 2(1) [OF refl refl refl] by auto
  show ?case
    unfolding performPointwiseWithOverflow.simps h(1) Let_def put_le16_def
    using h(2,3) by (auto simp: less_Suc_eq_0_disj split: if_splits)
qed auto

lemma multipleOp_total:
  assumes "\<And>x. length (expand x) = length base" and "even (length base)"
  shows "\<exists>h. multipleOp expand base xs s = Some h \<and> length h = length base \<and>
    (\<forall>i < length base div 2. coord h i =
      (if s then coord base i - (\<Sum>x\<leftarrow>xs. coord (expand x) i) else coord base i + (\<Sum>x\<leftarrow>xs. coord (expand x) i)))"
  using assms
proof (induction xs arbitrary: base)
  case (Cons x xs)
  from pointwise_total [of base "expand x" s] Cons.prems obtain h1 where
    h1: "performPointwiseWithOverflow base (expand x) s = Some h1" "length h1 = length base"
      "\<forall>i < length base div 2. coord h1 i = (if s then coord base i - coord (expand x) i else coord base i + coord (expand x) i)"
    by auto
  from Cons.IH [of h1] Cons.prems h1(2) obtain h2 where
    h2: "multipleOp expand h1 xs s = Some h2" "length h2 = length base"
      "\<forall>i < length base div 2. coord h2 i =
        (if s then coord h1 i - (\<Sum>x\<leftarrow>xs. coord (expand x) i) else coord h1 i + (\<Sum>x\<leftarrow>xs. coord (expand x) i))"
    by auto
  show ?case
    using h1(1) h2(1,2) h1(3) h2(3) by (auto simp: algebra_simps)
qed simp

lemma SubtractThenAdd_total:
  assumes "\<And>x. length (expand x) = length base" and "even (length base)"
  shows "\<exists>h. SubtractThenAddInPlace expand base sub add = Some h \<and> length h = length base \<and>
    (\<forall>i < length base div 2. coord h i =
      coord base i - (\<Sum>x\<leftarrow>sub. coord (expand x) i) + (\<Sum>x\<leftarrow>add. coord (expand x) i))"
proof -
  from multipleOp_total [of expand base sub True] assms obtain h1 where
    h1: "multipleOp expand base sub True = Some h1" "length h1 = length base"
      "\<forall>i < length base div 2. coord h1 i = coord base i - (\<Sum>x\<leftarrow>sub. coord (expand x) i)"
    by auto
  with multipleOp_total [of expand h1 add False] assms show ?thesis
    by (auto simp: SubtractThenAddInPlace_def)
qed

lemma le16_inject: "le16 a b = le16 c d \<longleftrightarrow> a = c \<and> b = d"
  by (metis le16_def list.inject put_be16_be16)

lemma coord_eqI:
  assumes "length g = length h" and "even (length h)" and "\<And>i. i < length h div 2 \<Longrightarrow> coord g i = coord h i"
  shows "g = h"
proof (rule nth_equalityI)
  fix j
  assume "j < length g"
  then have "j div 2 < length h div 2" using assms(1,2) by (auto elim!: evenE)
  then have "g ! (2 * (j div 2)) = h ! (2 * (j div 2))" "g ! (2 * (j div 2) + 1) = h ! (2 * (j div 2) + 1)"
    using assms(3) [of "j div 2"] by (simp_all add: coord_def le16_inject)
  then show "g ! j = h ! j" by (cases "even j") (simp_all add: odd_two_times_div_two_succ)
qed (rule assms(1))

section \<open>The hash of a collection\<close>

text \<open>
  The specification: a collection maps index MACs to value MACs, and its hash is the sum of the
  expansions of its values. \<open>hashes\<close> says that a byte string is that hash.
\<close>

definition collection_sum :: "(bytes \<Rightarrow> bytes) \<Rightarrow> (bytes \<rightharpoonup> bytes) \<Rightarrow> nat \<Rightarrow> u16" where
  "collection_sum expand m i = (\<Sum>k\<in>dom m. coord (expand (the (m k))) i)"

definition hashes :: "(bytes \<Rightarrow> bytes) \<Rightarrow> bytes \<Rightarrow> (bytes \<rightharpoonup> bytes) \<Rightarrow> bool" where
  "hashes expand h m \<longleftrightarrow> length h = 128 \<and> (\<forall>i < 64. coord h i = collection_sum expand m i)"

lemma hashes_unique: "hashes expand g m \<Longrightarrow> hashes expand h m \<Longrightarrow> g = h"
  by (rule coord_eqI) (auto simp: hashes_def)

lemma coord_zero: "i < 64 \<Longrightarrow> coord (replicate 128 0) i = 0"
  by (simp add: coord_def le16_def be16_def)

lemma hashes_empty: "hashes expand (replicate 128 0) Map.empty"
  by (simp add: hashes_def coord_zero collection_sum_def)

lemma collection_sum_remove:
  assumes "finite (dom m)"
  shows "collection_sum expand (m(k := None)) i =
    collection_sum expand m i - (case m k of None \<Rightarrow> 0 | Some v \<Rightarrow> coord (expand v) i)"
proof (cases "m k")
  case (Some v)
  then have "collection_sum expand m i = coord (expand v) i + (\<Sum>k\<in>dom m - {k}. coord (expand (the (m k))) i)"
    using sum.remove [OF assms, of k "\<lambda>k. coord (expand (the (m k))) i"] by (simp add: collection_sum_def domI)
  moreover have "(\<Sum>k\<in>dom m - {k}. coord (expand (the (m k))) i) = collection_sum expand (m(k := None)) i"
    unfolding collection_sum_def by (rule sum.cong) auto
  ultimately show ?thesis using Some by simp
next
  case None
  then have "m(k := None) = m" by auto
  then show ?thesis using None by simp
qed

lemma collection_sum_set:
  assumes "finite (dom m)"
  shows "collection_sum expand (m(k \<mapsto> v)) i =
    collection_sum expand m i - (case m k of None \<Rightarrow> 0 | Some w \<Rightarrow> coord (expand w) i) + coord (expand v) i"
proof -
  have "collection_sum expand ((m(k \<mapsto> v))(k := None)) i = collection_sum expand (m(k \<mapsto> v)) i - coord (expand v) i"
    using collection_sum_remove [of "m(k \<mapsto> v)" expand k i] assms by simp
  then show ?thesis
    using collection_sum_remove [OF assms, of expand k i] by (simp add: algebra_simps)
qed

end
