(* ===== verification/Cbc.thy ===== *)
theory Cbc
  imports Prelude
begin

text \<open>
  AES-CBC with PKCS#7 padding: \<open>lib/util/cbcutil/cbc.go\<close>. The one-shot functions \<open>Encrypt\<close> and
  \<open>Decrypt\<close>, the streaming encryption of media uploads and the decryption of a file in place. The
  block functions (key and block), SHA-256 and HMAC-SHA256 are parameters; the readers, writers and
  files of the Go interfaces are explicit states whose calls may fail.
\<close>

section \<open>The block mode\<close>

datatype cbc_error =
  ErrKeySize | ErrPanicIV | ErrPlaintextTooLarge | ErrRandom | ErrBlockMultiple | ErrPaddingLength
| ErrStat | ErrRead | ErrWrite | ErrShortWrite | ErrTruncate

abbreviation BlockSize :: nat where "BlockSize \<equiv> 16"

text \<open>
  \<open>CryptBlocks\<close> of the two modes: the output and the initialisation vector for the next call.
\<close>

function cbc_encrypt :: "(bytes \<Rightarrow> bytes) \<Rightarrow> bytes \<Rightarrow> bytes \<Rightarrow> bytes \<times> bytes" where
  "cbc_encrypt block iv src =
     (if length src < 16 then ([], iv)
      else let c = block (map2 (XOR) iv (take 16 src))
           in case cbc_encrypt block c (drop 16 src) of (r, iv') \<Rightarrow> (c @ r, iv'))"
  by pat_completeness auto

termination
  by (relation "measure (\<lambda>(_, _, src). length src)") auto

function cbc_decrypt :: "(bytes \<Rightarrow> bytes) \<Rightarrow> bytes \<Rightarrow> bytes \<Rightarrow> bytes \<times> bytes" where
  "cbc_decrypt block iv src =
     (if length src < 16 then ([], iv)
      else let p = map2 (XOR) iv (block (take 16 src))
           in case cbc_decrypt block (take 16 src) (drop 16 src) of (r, iv') \<Rightarrow> (p @ r, iv'))"
  by pat_completeness auto

termination
  by (relation "measure (\<lambda>(_, _, src). length src)") auto

declare cbc_encrypt.simps [simp del] cbc_decrypt.simps [simp del]

text \<open>\<open>aes.NewCipher\<close> and the constructors of the modes, which panic on an initialisation vector of another length.\<close>

definition new_cipher :: "bytes \<Rightarrow> bytes \<Rightarrow> cbc_error + unit" where
  "new_cipher key iv =
     (if length key \<notin> {16, 24, 32} then Inl ErrKeySize
      else if length iv \<noteq> BlockSize then Inl ErrPanicIV else Inr ())"

section \<open>One-shot operation\<close>

definition unpad :: "bytes \<Rightarrow> cbc_error + bytes" where
  "unpad src =
     (let n = length src; padLen = unat (src ! (n - 1))
      in if padLen > n then Inl ErrPaddingLength else Inr (take (n - padLen) src))"

definition cbc_Decrypt :: "(bytes \<Rightarrow> bytes \<Rightarrow> bytes) \<Rightarrow> bytes \<Rightarrow> bytes \<Rightarrow> bytes \<Rightarrow> cbc_error + bytes" where
  "cbc_Decrypt dec key iv ciphertext =
     (if length key \<notin> {16, 24, 32} then Inl ErrKeySize
      else if length ciphertext = 0 \<or> length ciphertext mod BlockSize \<noteq> 0 then Inl ErrBlockMultiple
      else bind_res (new_cipher key iv) (\<lambda>_.
        unpad (fst (cbc_decrypt (dec key) iv ciphertext))))"

text \<open>
  The initialisation vector is either given or drawn, \<open>random\<close>, and put in front of the ciphertext.
  The two size checks on the split plaintext cannot fail.
\<close>

definition cbc_Encrypt ::
  "(bytes \<Rightarrow> bytes \<Rightarrow> bytes) \<Rightarrow> bytes option \<Rightarrow> bytes \<Rightarrow> bytes option \<Rightarrow> bytes \<Rightarrow> cbc_error + bytes" where
  "cbc_Encrypt enc random key iv plaintext =
     (if length plaintext > 1000000000 then Inl ErrPlaintextTooLarge
      else
        let sizeOfLastBlock = length plaintext mod BlockSize;
            paddingLen = BlockSize - sizeOfLastBlock;
            plaintextStart = take (length plaintext - sizeOfLastBlock) plaintext;
            lastBlock = drop (length plaintext - sizeOfLastBlock) plaintext @ replicate paddingLen (of_nat paddingLen)
        in if length key \<notin> {16, 24, 32} then Inl ErrKeySize
           else case iv of
             None \<Rightarrow>
               (case random of
                  None \<Rightarrow> Inl ErrRandom
                | Some iv \<Rightarrow>
                    (case cbc_encrypt (enc key) iv plaintextStart of (c1, iv') \<Rightarrow>
                       Inr (iv @ c1 @ fst (cbc_encrypt (enc key) iv' lastBlock))))
           | Some iv \<Rightarrow>
               bind_res (new_cipher key iv) (\<lambda>_.
                 case cbc_encrypt (enc key) iv plaintextStart of (c1, iv') \<Rightarrow>
                   Inr (c1 @ fst (cbc_encrypt (enc key) iv' lastBlock))))"

section \<open>Readers, writers and files\<close>

text \<open>
  A reader delivers its bytes and then ends, or fails when it should have ended. \<open>io.ReadFull\<close>
  returns the bytes and whether the input ended before the buffer was full.
\<close>

record reader =
  rd_data :: bytes
  rd_fails :: bool

definition ReadFull :: "nat \<Rightarrow> reader \<Rightarrow> cbc_error + bytes \<times> bool \<times> reader" where
  "ReadFull n r =
     (if length (rd_data r) \<ge> n then Inr (take n (rd_data r), False, r\<lparr>rd_data := drop n (rd_data r)\<rparr>)
      else if rd_fails r then Inl ErrRead
      else Inr (rd_data r, True, r\<lparr>rd_data := []\<rparr>))"

text \<open>
  A writer has its contents and a script of what the next calls do: fail, or take so many bytes;
  beyond the script every call takes everything.
\<close>

record sink =
  sk_data :: bytes
  sk_script :: "nat option list"

definition Write :: "sink \<Rightarrow> bytes \<Rightarrow> cbc_error + nat \<times> sink" where
  "Write w data =
     (case sk_script w of
        [] \<Rightarrow> Inr (length data, w\<lparr>sk_data := sk_data w @ data\<rparr>)
      | None # _ \<Rightarrow> Inl ErrWrite
      | Some n # rest \<Rightarrow> (let n = min n (length data)
          in Inr (n, w\<lparr>sk_data := sk_data w @ take n data, sk_script := rest\<rparr>)))"

function writeAll :: "sink \<Rightarrow> bytes \<Rightarrow> cbc_error + sink" where
  "writeAll w data =
     (if data = [] then Inr w
      else bind_res (Write w data) (\<lambda>(n, w).
        if n = 0 then Inl ErrShortWrite else writeAll w (drop n data)))"
  by pat_completeness auto

termination
  by (relation "measure (\<lambda>(_, data). length data)") auto

declare writeAll.simps [simp del]

text \<open>Writing at an offset replaces what is there and fills a gap with zeros.\<close>

definition put_at :: "bytes \<Rightarrow> nat \<Rightarrow> bytes \<Rightarrow> bytes" where
  "put_at file off data =
     take off file @ replicate (off - length file) 0 @ data @ drop (off + length data) file"

definition WriteAt :: "sink \<Rightarrow> bytes \<Rightarrow> nat \<Rightarrow> cbc_error + nat \<times> sink" where
  "WriteAt w data off =
     (case sk_script w of
        [] \<Rightarrow> Inr (length data, w\<lparr>sk_data := put_at (sk_data w) off data\<rparr>)
      | None # _ \<Rightarrow> Inl ErrWrite
      | Some n # rest \<Rightarrow> (let n = min n (length data)
          in Inr (n, w\<lparr>sk_data := put_at (sk_data w) off (take n data), sk_script := rest\<rparr>)))"

definition write_at_all :: "sink \<Rightarrow> bytes \<Rightarrow> nat \<Rightarrow> cbc_error + sink" where
  "write_at_all w data off =
     bind_res (WriteAt w data off) (\<lambda>(n, w). if n \<noteq> length data then Inl ErrShortWrite else Inr w)"

section \<open>Streaming encryption\<close>

definition stream_buf :: nat where "stream_buf = 32 * 1024"

definition write_out :: "bool \<Rightarrow> sink \<Rightarrow> bytes \<Rightarrow> nat \<Rightarrow> cbc_error + sink" where
  "write_out hasWriterAt w buf writePtr =
     (if hasWriterAt then write_at_all w buf writePtr else writeAll w buf)"

text \<open>
  One pass per buffer. The hashers are the bytes written to them so far: \<open>plain\<close>, and \<open>cipher\<close> for
  both the ciphertext hash and the MAC. \<open>writePtr\<close> equals the length of \<open>cipher\<close>.
\<close>

function encrypt_loop ::
  "(bytes \<Rightarrow> bytes) \<Rightarrow> bool \<Rightarrow> bytes \<Rightarrow> reader \<Rightarrow> sink \<Rightarrow> bytes \<Rightarrow> bytes \<Rightarrow>
    cbc_error + sink \<times> bytes \<times> bytes \<times> nat" where
  "encrypt_loop block hasWriterAt iv r w plain cipher =
     (case ReadFull stream_buf r of
        Inl e \<Rightarrow> Inl e
      | Inr (buf, ended, r') \<Rightarrow>
          (let plain = plain @ buf; size = length plain;
               padding = (if ended then BlockSize - size mod BlockSize else 0);
               buf = buf @ replicate padding (of_nat padding)
           in case cbc_encrypt block iv buf of (buf, iv) \<Rightarrow>
             (case write_out hasWriterAt w buf (length cipher) of
                Inl e \<Rightarrow> Inl e
              | Inr w \<Rightarrow>
                  if ended then Inr (w, plain, cipher @ buf, padding)
                  else encrypt_loop block hasWriterAt iv r' w plain (cipher @ buf))))"
  by pat_completeness auto

termination
  by (relation "measure (\<lambda>(_, _, _, r, _, _, _). length (rd_data r))")
    (auto simp: ReadFull_def stream_buf_def split: if_splits)

declare encrypt_loop.simps [simp del]

definition EncryptStream ::
  "(bytes \<Rightarrow> bytes \<Rightarrow> bytes) \<Rightarrow> (bytes \<Rightarrow> bytes) \<Rightarrow> (bytes \<Rightarrow> bytes \<Rightarrow> bytes) \<Rightarrow> bool \<Rightarrow>
    bytes \<Rightarrow> bytes \<Rightarrow> bytes \<Rightarrow> reader \<Rightarrow> sink \<Rightarrow> cbc_error + (bytes \<times> bytes \<times> nat \<times> nat) \<times> sink" where
  "EncryptStream enc sha256 hmac hasWriterAt key iv macKey plaintext ciphertext =
     bind_res (new_cipher key iv) (\<lambda>_.
     bind_res (encrypt_loop (enc key) hasWriterAt iv plaintext ciphertext [] []) (\<lambda>(w, plain, cipher, extraSize).
     let mac = take 10 (hmac macKey (iv @ cipher))
     in bind_res (write_out hasWriterAt w mac (length cipher)) (\<lambda>w.
          Inr ((sha256 plain, sha256 (cipher @ mac), length plain, length plain + (extraSize + 10)), w))))"

section \<open>Decryption of a file in place\<close>

text \<open>
  The file is read from its start, so the read position is the write position; \<open>rd_ok\<close> and \<open>wr_ok\<close>
  say which of the buffers can be read and written.
\<close>

record io_faults =
  stat_ok :: bool
  rd_ok :: "nat \<Rightarrow> bool"
  wr_ok :: "nat \<Rightarrow> bool"
  trunc_ok :: bool

function decrypt_loop ::
  "(bytes \<Rightarrow> bytes) \<Rightarrow> io_faults \<Rightarrow> nat \<Rightarrow> bytes \<Rightarrow> nat \<Rightarrow> u8 \<Rightarrow> bytes \<Rightarrow> (cbc_error + u8) \<times> bytes" where
  "decrypt_loop block io fileSize iv writePtr lastByte file =
     (if writePtr < fileSize then
        (let n = min (min fileSize stream_buf) (fileSize - writePtr)
         in if \<not> rd_ok io writePtr then (Inl ErrRead, file)
            else case cbc_decrypt block iv (take n (drop writePtr file)) of (buf, iv') \<Rightarrow>
              if \<not> wr_ok io writePtr then (Inl ErrWrite, file)
              else decrypt_loop block io fileSize iv' (writePtr + n) (buf ! (n - 1)) (put_at file writePtr buf))
      else (Inr lastByte, file))"
  by pat_completeness auto

termination
  by (relation "measure (\<lambda>(_, _, fileSize, _, writePtr, _, _). fileSize - writePtr)")
    (auto simp: stream_buf_def)

declare decrypt_loop.simps [simp del]

definition DecryptFile ::
  "(bytes \<Rightarrow> bytes \<Rightarrow> bytes) \<Rightarrow> io_faults \<Rightarrow> bytes \<Rightarrow> bytes \<Rightarrow> bytes \<Rightarrow> cbc_error option \<times> bytes" where
  "DecryptFile dec io key iv file =
     (case new_cipher key iv of
        Inl e \<Rightarrow> (Some e, file)
      | Inr _ \<Rightarrow>
          (let fileSize = length file
           in if \<not> stat_ok io then (Some ErrStat, file)
              else if fileSize mod BlockSize \<noteq> 0 then (Some ErrBlockMultiple, file)
              else
                (case decrypt_loop (dec key) io fileSize iv 0 0 file of
                   (Inl e, file) \<Rightarrow> (Some e, file)
                 | (Inr lastByte, file) \<Rightarrow>
                     if unat lastByte > fileSize then (Some ErrPaddingLength, file)
                     else if \<not> trunc_ok io then (Some ErrTruncate, file)
                     else (None, take (fileSize - unat lastByte) file))))"

section \<open>The block mode in pieces\<close>

lemma cbc_encrypt_short [simp]: "length src < 16 \<Longrightarrow> cbc_encrypt block iv src = ([], iv)"
  by (simp add: cbc_encrypt.simps)

lemma cbc_decrypt_short [simp]: "length src < 16 \<Longrightarrow> cbc_decrypt block iv src = ([], iv)"
  by (simp add: cbc_decrypt.simps)

lemma cbc_encrypt_block:
  "length b = 16 \<Longrightarrow> cbc_encrypt block iv (b @ src) =
    (let c = block (map2 (XOR) iv b) in (c @ fst (cbc_encrypt block c src), snd (cbc_encrypt block c src)))"
  by (simp add: cbc_encrypt.simps [of block iv "b @ src"] Let_def case_prod_unfold)

lemma cbc_decrypt_block:
  "length b = 16 \<Longrightarrow> cbc_decrypt block iv (b @ src) =
    (map2 (XOR) iv (block b) @ fst (cbc_decrypt block b src), snd (cbc_decrypt block b src))"
  by (simp add: cbc_decrypt.simps [of block iv "b @ src"] Let_def case_prod_unfold)

lemma blocks_induct [consumes 1, case_names Nil Block]:
  assumes "length src mod 16 = 0" and "P []"
    and "\<And>b src. length b = 16 \<Longrightarrow> length src mod 16 = 0 \<Longrightarrow> P src \<Longrightarrow> P (b @ src)"
  shows "P (src :: bytes)"
  using assms(1)
proof (induction "length src" arbitrary: src rule: less_induct)
  case less
  show ?case
  proof (cases "src = []")
    case False
    then have "16 \<le> length src"
      using less.prems by (metis length_greater_0_conv mod_less not_le_imp_less less_irrefl)
    moreover from this have "P (drop 16 src)"
      using less.prems by (intro less.hyps) (auto simp: le_mod_geq)
    ultimately have "P (take 16 src @ drop 16 src)"
      using less.prems by (intro assms(3)) (auto simp: le_mod_geq)
    then show ?thesis by simp
  qed (simp add: assms(2))
qed

lemma cbc_encrypt_append:
  "length a mod 16 = 0 \<Longrightarrow> cbc_encrypt block iv (a @ src) =
    (fst (cbc_encrypt block iv a) @ fst (cbc_encrypt block (snd (cbc_encrypt block iv a)) src),
     snd (cbc_encrypt block (snd (cbc_encrypt block iv a)) src))"
  by (induction a arbitrary: iv rule: blocks_induct) (simp_all add: cbc_encrypt_block Let_def)

lemma cbc_decrypt_append:
  "length a mod 16 = 0 \<Longrightarrow> cbc_decrypt block iv (a @ src) =
    (fst (cbc_decrypt block iv a) @ fst (cbc_decrypt block (snd (cbc_decrypt block iv a)) src),
     snd (cbc_decrypt block (snd (cbc_decrypt block iv a)) src))"
  by (induction a arbitrary: iv rule: blocks_induct) (simp_all add: cbc_decrypt_block)

lemma length_cbc_encrypt:
  assumes "\<And>b. length (block b) = 16" and "length src mod 16 = 0"
  shows "length (fst (cbc_encrypt block iv src)) = length src"
  using assms(2) by (induction src arbitrary: iv rule: blocks_induct)
    (simp_all add: cbc_encrypt_block Let_def assms(1))

lemma length_cbc_decrypt:
  assumes "\<And>b. length (block b) = 16" and "length src mod 16 = 0" and "length iv = 16"
  shows "length (fst (cbc_decrypt block iv src)) = length src \<and> length (snd (cbc_decrypt block iv src)) = 16"
  using assms(2,3) by (induction src arbitrary: iv rule: blocks_induct)
    (simp_all add: cbc_decrypt_block assms(1))

lemma map2_xor_cancel: "length a = length b \<Longrightarrow> map2 (XOR) a (map2 (XOR) a b) = (b :: bytes)"
  by (induction a b rule: list_induct2) simp_all

lemma cbc_decrypt_encrypt:
  assumes "\<And>b. length b = 16 \<Longrightarrow> dec (enc b) = b" and "\<And>b. length (enc b) = 16"
    and "length src mod 16 = 0" and "length iv = 16"
  shows "fst (cbc_decrypt dec iv (fst (cbc_encrypt enc iv src))) = src"
  using assms(3,4) by (induction src arbitrary: iv rule: blocks_induct)
    (simp_all add: cbc_encrypt_block cbc_decrypt_block Let_def assms(1,2) map2_xor_cancel)

section \<open>Padding\<close>

definition padded :: "bytes \<Rightarrow> bytes" where
  "padded p = (let n = BlockSize - length p mod BlockSize in p @ replicate n (of_nat n))"

lemma length_padded: "length (padded p) mod 16 = 0" "padded p \<noteq> []" "length p < length (padded p)"
    "length (padded p) = length p + (16 - length p mod 16)"
proof -
  show l: "length (padded p) = length p + (16 - length p mod 16)"
    by (simp add: padded_def Let_def)
  show "length p < length (padded p)" unfolding l by simp
  then show "padded p \<noteq> []" by auto
  have "length p + (16 - length p mod 16) = (length p div 16 + 1) * 16"
    using mod_less_divisor [of 16 "length p"] by presburger
  then show "length (padded p) mod 16 = 0" unfolding l by simp
qed

lemma unpad_padded: "unpad (padded p) = Inr p"
proof -
  obtain n where n: "padded p = p @ replicate n (of_nat n)" "0 < n" "n < 256"
    by (rule that [of "16 - length p mod 16"]) (simp_all add: padded_def Let_def)
  have "unat (of_nat n :: u8) = n"
    using n(3) by (rule unat_of_nat_less8)
  moreover have "(p @ replicate n (of_nat n :: u8)) ! (length p + n - 1) = of_nat n"
    using n(2) by (auto simp: nth_append)
  ultimately show ?thesis by (simp add: unpad_def Let_def n(1))
qed

lemma padded_append: "length a mod 16 = 0 \<Longrightarrow> padded (a @ p) = a @ padded p"
  by (simp add: padded_def Let_def mod_add_left_eq [symmetric])

lemma cbc_Encrypt_padded:
  assumes "length key \<in> {16, 24, 32}" and "length p \<le> 1000000000" and "length iv = 16"
  shows "cbc_Encrypt enc random key (Some iv) p = Inr (fst (cbc_encrypt (enc key) iv (padded p)))"
    and "cbc_Encrypt enc (Some iv) key None p = Inr (iv @ fst (cbc_encrypt (enc key) iv (padded p)))"
proof -
  define k where "k = length p - length p mod 16"
  have k: "length (take k p) mod 16 = 0"
    by (simp add: k_def minus_mod_eq_mult_div)
  have "padded p = take k p @ drop k p @ replicate (16 - length p mod 16) (of_nat (16 - length p mod 16))"
    by (simp add: padded_def Let_def)
  then have enc: "cbc_encrypt (enc key) iv (padded p) =
      (fst (cbc_encrypt (enc key) iv (take k p)) @
        fst (cbc_encrypt (enc key) (snd (cbc_encrypt (enc key) iv (take k p)))
          (drop k p @ replicate (16 - length p mod 16) (of_nat (16 - length p mod 16)))),
       snd (cbc_encrypt (enc key) (snd (cbc_encrypt (enc key) iv (take k p)))
          (drop k p @ replicate (16 - length p mod 16) (of_nat (16 - length p mod 16)))))"
    using cbc_encrypt_append [OF k] by simp
  show "cbc_Encrypt enc random key (Some iv) p = Inr (fst (cbc_encrypt (enc key) iv (padded p)))"
    using assms unfolding enc k_def
    by (auto simp: cbc_Encrypt_def Let_def new_cipher_def case_prod_unfold)
  show "cbc_Encrypt enc (Some iv) key None p = Inr (iv @ fst (cbc_encrypt (enc key) iv (padded p)))"
    using assms unfolding enc k_def
    by (auto simp: cbc_Encrypt_def Let_def case_prod_unfold)
qed

lemma cbc_Encrypt_InrD:
  "cbc_Encrypt enc random key (Some iv) p = Inr ct \<Longrightarrow>
    length key \<in> {16, 24, 32} \<and> length p \<le> 1000000000 \<and> length iv = 16"
  by (auto simp: cbc_Encrypt_def new_cipher_def Let_def split: if_splits)

section \<open>Sinks that accept everything\<close>

definition good_sink :: "bool \<Rightarrow> sink \<Rightarrow> bool" where
  "good_sink hasWriterAt w =
     (if hasWriterAt then sk_script w = []
      else list_all (\<lambda>x. case x of None \<Rightarrow> False | Some n \<Rightarrow> 0 < n) (sk_script w))"

definition emitted :: "bool \<Rightarrow> bytes \<Rightarrow> bytes \<Rightarrow> bytes" where
  "emitted hasWriterAt base data = (if hasWriterAt then put_at base 0 data else base @ data)"

lemma Write_good:
  assumes "good_sink False w" and "data \<noteq> []"
  shows "\<exists>n w'. Write w data = Inr (n, w') \<and> 0 < n \<and> good_sink False w' \<and> sk_data w' = sk_data w @ take n data"
proof (cases "sk_script w")
  case (Cons x rest)
  then show ?thesis using assms by (cases x) (auto simp: Write_def good_sink_def Let_def)
qed (use assms in \<open>simp add: Write_def good_sink_def\<close>)

lemma writeAll_good:
  assumes "good_sink False w"
  shows "\<exists>w'. writeAll w data = Inr w' \<and> good_sink False w' \<and> sk_data w' = sk_data w @ data"
  using assms
proof (induction w data rule: writeAll.induct)
  case (1 w data)
  show ?case
  proof (cases "data = []")
    case False
    obtain n w1 where w1: "Write w data = Inr (n, w1)" "0 < n" "good_sink False w1"
        "sk_data w1 = sk_data w @ take n data"
      using Write_good [OF 1(2) False] by blast
    obtain w' where "writeAll w1 (drop n data) = Inr w'" "good_sink False w'"
        "sk_data w' = sk_data w1 @ drop n data"
      using 1(1) [OF False w1(1) refl] w1(2,3) by auto
    then show ?thesis using w1 False by (simp add: writeAll.simps [of w data])
  qed (use 1(2) in \<open>simp add: writeAll.simps\<close>)
qed

lemma put_at_append:
  "put_at (put_at base 0 a) (length a) b = put_at base 0 (a @ b)"
  by (simp add: put_at_def add.commute)

lemma write_out_good:
  assumes "good_sink h w" and "sk_data w = emitted h base cipher"
  shows "\<exists>w'. write_out h w buf (length cipher) = Inr w' \<and> good_sink h w' \<and> sk_data w' = emitted h base (cipher @ buf)"
proof (cases h)
  case True
  then show ?thesis using assms
    by (simp add: write_out_def write_at_all_def WriteAt_def good_sink_def emitted_def put_at_append)
next
  case False
  then show ?thesis using assms writeAll_good [of w buf] by (simp add: write_out_def emitted_def)
qed

section \<open>Streaming is one-shot encryption\<close>

lemma stream_buf_blocks: "stream_buf mod 16 = 0" by (simp add: stream_buf_def)

lemma encrypt_loop_last:
  assumes "length (rd_data r) < stream_buf" and "\<not> rd_fails r" and "length plain mod 16 = 0"
    and "write_out h w (fst (cbc_encrypt block iv (padded (rd_data r)))) (length cipher) = Inr w'"
  shows "encrypt_loop block h iv r w plain cipher =
    Inr (w', plain @ rd_data r, cipher @ fst (cbc_encrypt block iv (padded (rd_data r))), 16 - length (rd_data r) mod 16)"
proof -
  have "(length plain + length (rd_data r)) mod 16 = length (rd_data r) mod 16"
    using assms(3) by (metis add_0 mod_add_left_eq)
  then show ?thesis
    using assms(1,2,4)
    by (simp add: encrypt_loop.simps [of block h iv r w plain cipher] ReadFull_def Let_def case_prod_unfold padded_def)
qed

lemma encrypt_loop_step:
  assumes "length a = stream_buf" and "rd_data r = a @ b"
    and "write_out h w (fst (cbc_encrypt block iv a)) (length cipher) = Inr w'"
  shows "encrypt_loop block h iv r w plain cipher =
    encrypt_loop block h (snd (cbc_encrypt block iv a)) (r\<lparr>rd_data := b\<rparr>) w' (plain @ a) (cipher @ fst (cbc_encrypt block iv a))"
proof -
  have "ReadFull stream_buf r = Inr (a, False, r\<lparr>rd_data := b\<rparr>)"
    using assms(1,2) by (simp add: ReadFull_def)
  then show ?thesis
    using assms(3)
    by (simp add: encrypt_loop.simps [of block h iv r w plain cipher] Let_def case_prod_unfold)
qed

lemma encrypt_loop_good:
  assumes "\<not> rd_fails r" and "good_sink h w" and "sk_data w = emitted h base cipher"
    and "length plain mod 16 = 0"
  shows "\<exists>w'. encrypt_loop block h iv r w plain cipher =
      Inr (w', plain @ rd_data r, cipher @ fst (cbc_encrypt block iv (padded (rd_data r))), 16 - length (rd_data r) mod 16) \<and>
    good_sink h w' \<and> sk_data w' = emitted h base (cipher @ fst (cbc_encrypt block iv (padded (rd_data r))))"
  using assms
proof (induction "length (rd_data r)" arbitrary: r w plain cipher iv rule: less_induct)
  case less
  let ?p = "rd_data r"
  show ?case
  proof (cases "stream_buf \<le> length ?p")
    case True
    define a b where ab: "a = take stream_buf ?p" "b = drop stream_buf ?p"
    have a: "length a = stream_buf" "?p = a @ b" using True by (simp_all add: ab)
    have a16: "length a mod 16 = 0" by (simp add: a(1) stream_buf_blocks)
    have m: "length ?p mod 16 = length b mod 16" "(length plain + length a) mod 16 = 0"
      using a16 less.prems(4) unfolding a(2) length_append by (metis add_0 mod_add_left_eq)+
    obtain w1 where w1: "write_out h w (fst (cbc_encrypt block iv a)) (length cipher) = Inr w1" "good_sink h w1"
        "sk_data w1 = emitted h base (cipher @ fst (cbc_encrypt block iv a))"
      using write_out_good [OF less.prems(2,3)] by blast
    have "length b < length ?p" using a(1) unfolding a(2) by (simp add: stream_buf_def)
    then show ?thesis
      using less.hyps [of "r\<lparr>rd_data := b\<rparr>" w1 "cipher @ fst (cbc_encrypt block iv a)" "plain @ a" "snd (cbc_encrypt block iv a)"]
        w1(2,3) less.prems(1) m
      unfolding encrypt_loop_step [OF a w1(1)] m(1) a(2) padded_append [OF a16] cbc_encrypt_append [OF a16]
      by simp
  next
    case False
    obtain w1 where "write_out h w (fst (cbc_encrypt block iv (padded ?p))) (length cipher) = Inr w1" "good_sink h w1"
        "sk_data w1 = emitted h base (cipher @ fst (cbc_encrypt block iv (padded ?p)))"
      using write_out_good [OF less.prems(2,3)] by blast
    then show ?thesis using encrypt_loop_last [of r plain h w block iv cipher w1] False less.prems(1,4) by simp
  qed
qed

text \<open>
  C14: Encrypting a stream buffer by buffer gives what the one-shot function gives. With a reader that
  ends and a writer that keeps accepting bytes, in pieces of any size, the output is the one-shot
  ciphertext followed by the first ten bytes of its MAC; the hashes are those of the whole
  plaintext and of the whole output, and the sizes are theirs.
\<close>

theorem EncryptStream_is_Encrypt:
  assumes "\<And>k b. length (enc k b) = 16" and "\<And>k m. 10 \<le> length (hmac k m)"
    and "cbc_Encrypt enc random key (Some iv) (rd_data r) = Inr ct"
    and "\<not> rd_fails r" and "good_sink h w" and "\<not> h \<or> length (sk_data w) \<le> length ct"
    and "mac = take 10 (hmac macKey (iv @ ct))"
  shows "\<exists>w'. EncryptStream enc sha256 hmac h key iv macKey r w =
      Inr ((sha256 (rd_data r), sha256 (ct @ mac), length (rd_data r), length (ct @ mac)), w') \<and>
    sk_data w' = (if h then ct @ mac else sk_data w @ ct @ mac)"
proof -
  let ?p = "rd_data r"
  note k = cbc_Encrypt_InrD [OF assms(3)]
  have ct: "ct = fst (cbc_encrypt (enc key) iv (padded ?p))"
    using assms(3) cbc_Encrypt_padded(1) [of key ?p iv enc random] k by simp
  have len: "length ct = length ?p + (16 - length ?p mod 16)"
    using length_cbc_encrypt [of "enc key" "padded ?p" iv] assms(1) length_padded [of ?p] by (simp add: ct)
  have base: "sk_data w = emitted h (sk_data w) []"
    by (simp add: emitted_def put_at_def)
  obtain w1 where w1: "encrypt_loop (enc key) h iv r w [] [] = Inr (w1, ?p, ct, 16 - length ?p mod 16)"
      "good_sink h w1" "sk_data w1 = emitted h (sk_data w) ct"
    using encrypt_loop_good [OF assms(4,5) base, of "[]" "enc key" iv] by (auto simp: ct)
  obtain w2 where "write_out h w1 mac (length ct) = Inr w2" "sk_data w2 = emitted h (sk_data w) (ct @ mac)"
    using write_out_good [OF w1(2,3)] by blast
  moreover have "length mac = 10" using assms(2) [of macKey "iv @ ct"] by (simp add: assms(7))
  ultimately show ?thesis
    using k w1(1) assms(6)
    by (auto simp: EncryptStream_def new_cipher_def Let_def assms(7) [symmetric] len emitted_def put_at_def)
qed

definition toy_block :: "bytes \<Rightarrow> bytes \<Rightarrow> bytes" where
  "toy_block k b = take 16 (b @ replicate 16 0)"

lemma toy_block_simps [simp]: "length (toy_block k b) = 16" "length b = 16 \<Longrightarrow> toy_block k b = b"
  by (simp_all add: toy_block_def)

theorem EncryptStream_is_Encrypt_witness:
  "\<exists>ct w'. cbc_Encrypt toy_block None (replicate 32 1) (Some (replicate 16 2)) [3, 4, 5] = Inr ct \<and>
    EncryptStream toy_block id (\<lambda>k m. replicate 32 9) False (replicate 32 1) (replicate 16 2) []
      \<lparr>rd_data = [3, 4, 5], rd_fails = False\<rparr> \<lparr>sk_data = [7], sk_script = [Some 1, Some 4]\<rparr> =
      Inr (([3, 4, 5], ct @ replicate 10 9, 3, length (ct @ replicate 10 9)), w') \<and>
    sk_data w' = [7] @ ct @ replicate 10 9"
proof -
  obtain ct where ct: "cbc_Encrypt toy_block None (replicate 32 1) (Some (replicate 16 2)) [3, 4, 5] = Inr ct"
    using cbc_Encrypt_padded(1) [of "replicate 32 1" "[3, 4, 5]" "replicate 16 2"] by simp
  from EncryptStream_is_Encrypt [of toy_block "\<lambda>k m. replicate 32 9" None "replicate 32 1" "replicate 16 2"
      "\<lparr>rd_data = [3, 4, 5], rd_fails = False\<rparr>" ct False "\<lparr>sk_data = [7], sk_script = [Some 1, Some 4]\<rparr>"
      "replicate 10 9" "[]" id] ct
  show ?thesis by (auto simp: good_sink_def)
qed

section \<open>Decrypting in place is one-shot decryption\<close>

lemma decrypt_loop_blocks:
  assumes "\<And>b. length (block b) = 16" and "rd_ok io = (\<lambda>_. True)" and "wr_ok io = (\<lambda>_. True)"
    and "length iv = 16" and "length rest mod 16 = 0" and "fileSize = length front + length rest"
  shows "decrypt_loop block io fileSize iv (length front) b (front @ rest) =
    (Inr (if rest = [] then b else last (fst (cbc_decrypt block iv rest))), front @ fst (cbc_decrypt block iv rest))"
  using assms(4-6)
proof (induction "length rest" arbitrary: rest front b iv rule: less_induct)
  case less
  show ?case
  proof (cases "rest = []")
    case False
    define n where "n = min stream_buf (length rest)"
    define a c where ac: "a = take n rest" "c = drop n rest"
    have n: "min (min fileSize stream_buf) (fileSize - length front) = n" "0 < n" "length a = n"
      using False less.prems(3) by (auto simp: n_def ac stream_buf_def)
    have rest: "rest = a @ c" by (simp add: ac)
    have a16: "length a mod 16 = 0" unfolding n(3) n_def using less.prems(2) stream_buf_blocks by (simp add: min_def)
    have c16: "length c mod 16 = 0"
      using less.prems(2) a16 unfolding rest length_append by (metis add_0 mod_add_left_eq)
    define p iv' where p: "p = fst (cbc_decrypt block iv a)" "iv' = snd (cbc_decrypt block iv a)"
    have lp: "length p = n" "length iv' = 16"
      using length_cbc_decrypt [OF assms(1) a16 less.prems(1)] by (simp_all add: p n(3))
    have pne: "p \<noteq> []" using lp(1) n(2) by auto
    have put: "put_at (front @ rest) (length front) p = (front @ p) @ c"
      using n(3) lp(1) by (simp add: put_at_def rest)
    have lt: "length front < fileSize" using False less.prems(3) by simp
    have "decrypt_loop block io fileSize iv (length front) b (front @ rest) =
        decrypt_loop block io fileSize iv' (length (front @ p)) (p ! (n - 1)) ((front @ p) @ c)"
      using lt assms(2,3) put lp(1)
      by (subst decrypt_loop.simps) (simp add: Let_def case_prod_unfold n(1) p ac)
    also have "\<dots> = (Inr (if c = [] then p ! (n - 1) else last (fst (cbc_decrypt block iv' c))),
        (front @ p) @ fst (cbc_decrypt block iv' c))"
      using n(2,3) c16 lp less.prems(3) by (intro less.hyps) (simp_all add: rest)
    also have "p ! (n - 1) = last p" using lp(1) pne by (simp add: last_conv_nth)
    finally show ?thesis
      using False pne length_cbc_decrypt [of block c iv', OF assms(1) c16 lp(2)]
      unfolding rest cbc_decrypt_append [OF a16] p [symmetric] by (auto simp: last_append)
  qed (use less.prems in \<open>simp add: decrypt_loop.simps\<close>)
qed

text \<open>
  Decrypting a file in place, buffer by buffer, is the one-shot decryption of its contents: it
  fails exactly when that fails, with the same error, and otherwise leaves exactly the plaintext in
  the file. The empty file is the exception: the one-shot function rejects it.
\<close>

theorem DecryptFile_is_Decrypt:
  assumes "\<And>k b. length (dec k b) = 16"
    and "stat_ok io" and "rd_ok io = (\<lambda>_. True)" and "wr_ok io = (\<lambda>_. True)" and "trunc_ok io"
    and "length key \<in> {16, 24, 32}" and "length iv = 16"
  shows "case cbc_Decrypt dec key iv file of
      Inr p \<Rightarrow> DecryptFile dec io key iv file = (None, p)
    | Inl e \<Rightarrow> fst (DecryptFile dec io key iv file) = (if file = [] then None else Some e)"
proof (cases "length file mod 16 = 0 \<and> file \<noteq> []")
  case True
  let ?p = "fst (cbc_decrypt (dec key) iv file)"
  have l: "length ?p = length file"
    using length_cbc_decrypt [of "dec key" "file" iv] assms(1,7) True by simp
  have "decrypt_loop (dec key) io (length file) iv 0 0 file = (Inr (last ?p), ?p)"
    using decrypt_loop_blocks [of "dec key" io iv "file" "length file" "[]" 0] assms True by simp
  moreover have "last ?p = ?p ! (length file - 1)"
    using True l by (metis last_conv_nth length_0_conv)
  ultimately show ?thesis
    using True assms(2,5-7) l by (auto simp: DecryptFile_def cbc_Decrypt_def new_cipher_def unpad_def Let_def)
next
  case False
  then show ?thesis
    using assms(2,5-7) by (auto simp: DecryptFile_def cbc_Decrypt_def new_cipher_def decrypt_loop.simps)
qed

definition no_faults :: io_faults where
  "no_faults = \<lparr>stat_ok = True, rd_ok = (\<lambda>_. True), wr_ok = (\<lambda>_. True), trunc_ok = True\<rparr>"

theorem DecryptFile_is_Decrypt_witness:
  "DecryptFile toy_block no_faults (replicate 32 1) (replicate 16 0) (replicate 15 7 @ [9]) = (None, replicate 7 7)"
proof -
  have "cbc_decrypt (toy_block (replicate 32 1)) (replicate 16 0) (replicate 15 7 @ [9]) = (replicate 15 7 @ [9], replicate 15 7 @ [9])"
    using cbc_decrypt_block [of "replicate 15 7 @ [9]" "toy_block (replicate 32 1)" "replicate 16 0" "[]"]
      map2_xor_cancel [of "replicate 16 0" "replicate 15 7 @ [9]"]
    by (simp add: zip_replicate1 o_def)
  then have "cbc_Decrypt toy_block (replicate 32 1) (replicate 16 0) (replicate 15 7 @ [9]) = Inr (replicate 7 7)"
    by (simp add: cbc_Decrypt_def new_cipher_def unpad_def Let_def nth_append)
  then show ?thesis
    using DecryptFile_is_Decrypt [of toy_block no_faults "replicate 32 1" "replicate 16 0" "replicate 15 7 @ [9]"]
    by (simp add: no_faults_def)
qed

text \<open>
  Media survives storage. What the streaming encryption writes to a new file, without the trailing
  MAC, is decrypted in place to the plaintext, for every plaintext the one-shot function accepts.
\<close>

theorem media_file_roundtrip:
  assumes "\<And>k b. length b = 16 \<Longrightarrow> dec k (enc k b) = b" and "\<And>k b. length (enc k b) = 16"
    and "\<And>k b. length (dec k b) = 16" and "\<And>k m. 10 \<le> length (hmac k m)"
    and "length key \<in> {16, 24, 32}" and "length iv = 16"
    and "EncryptStream enc sha256 hmac h key iv macKey \<lparr>rd_data = p, rd_fails = False\<rparr> \<lparr>sk_data = [], sk_script = []\<rparr> = Inr (res, w)"
  shows "DecryptFile dec no_faults key iv (take (length (sk_data w) - 10) (sk_data w)) = (None, p)"
proof -
  let ?r = "\<lparr>rd_data = p, rd_fails = False\<rparr>" and ?w = "\<lparr>sk_data = [], sk_script = []\<rparr>"
  let ?c = "fst (cbc_encrypt (enc key) iv (padded p))"
  have base: "sk_data ?w = emitted h [] []" "good_sink h ?w"
    by (simp_all add: emitted_def put_at_def good_sink_def)
  obtain w1 where w1: "encrypt_loop (enc key) h iv ?r ?w [] [] = Inr (w1, p, ?c, 16 - length p mod 16)"
      "good_sink h w1" "sk_data w1 = emitted h [] ?c"
    using encrypt_loop_good [of ?r h ?w "[]" "[]" "[]" "enc key" iv] base by auto
  obtain w2 where w2: "write_out h w1 (take 10 (hmac macKey (iv @ ?c))) (length ?c) = Inr w2"
      "sk_data w2 = emitted h [] (?c @ take 10 (hmac macKey (iv @ ?c)))"
    using write_out_good [OF w1(2,3)] by blast
  have "w = w2" using assms(5-7) w1(1) w2(1) by (auto simp: EncryptStream_def new_cipher_def Let_def)
  then have c: "take (length (sk_data w) - 10) (sk_data w) = ?c"
    using w2(2) assms(4) [of macKey "iv @ ?c"] by (simp add: emitted_def put_at_def min_def)
  have lc: "length ?c mod 16 = 0" "?c \<noteq> []"
    using length_cbc_encrypt [of "enc key" "padded p" iv] assms(2) length_padded [of p] by auto
  have "fst (cbc_decrypt (dec key) iv ?c) = padded p"
    using cbc_decrypt_encrypt [of "dec key" "enc key" "padded p" iv] assms(1,2,6) length_padded(1) by simp
  then have p: "unpad (fst (cbc_decrypt (dec key) iv ?c)) = Inr p" by (simp add: unpad_padded)
  have l: "length (fst (cbc_decrypt (dec key) iv ?c)) = length ?c"
    using length_cbc_decrypt [of "dec key" ?c iv] assms(3,6) lc by simp
  have "decrypt_loop (dec key) no_faults (length ?c) iv 0 0 ?c =
      (Inr (last (fst (cbc_decrypt (dec key) iv ?c))), fst (cbc_decrypt (dec key) iv ?c))"
    using decrypt_loop_blocks [of "dec key" no_faults iv ?c "length ?c" "[]" 0] assms(3,6) lc by (simp add: no_faults_def)
  moreover have "last (fst (cbc_decrypt (dec key) iv ?c)) = fst (cbc_decrypt (dec key) iv ?c) ! (length ?c - 1)"
    using lc l by (metis last_conv_nth length_0_conv)
  ultimately show ?thesis
    using p l lc assms(5,6) unfolding c
    by (auto simp: DecryptFile_def new_cipher_def unpad_def Let_def no_faults_def split: if_splits)
qed

theorem media_file_roundtrip_witness:
  "\<exists>res w. EncryptStream toy_block id (\<lambda>k m. replicate 32 9) True (replicate 32 1) (replicate 16 2) []
      \<lparr>rd_data = [3, 4], rd_fails = False\<rparr> \<lparr>sk_data = [], sk_script = []\<rparr> = Inr (res, w) \<and>
    DecryptFile toy_block no_faults (replicate 32 1) (replicate 16 2) (take (length (sk_data w) - 10) (sk_data w)) = (None, [3, 4])"
proof -
  obtain w1 where w1: "encrypt_loop (toy_block (replicate 32 1)) True (replicate 16 2) \<lparr>rd_data = [3, 4], rd_fails = False\<rparr>
      \<lparr>sk_data = [], sk_script = []\<rparr> [] [] =
      Inr (w1, [3, 4], fst (cbc_encrypt (toy_block (replicate 32 1)) (replicate 16 2) (padded [3, 4])), 14)" "good_sink True w1"
    using encrypt_loop_good [of "\<lparr>rd_data = [3, 4], rd_fails = False\<rparr>" True "\<lparr>sk_data = [], sk_script = []\<rparr>" "[]" "[]" "[]"]
    by (auto simp: good_sink_def emitted_def put_at_def)
  then obtain res w where e: "EncryptStream toy_block id (\<lambda>k m. replicate 32 9) True (replicate 32 1) (replicate 16 2) []
      \<lparr>rd_data = [3, 4], rd_fails = False\<rparr> \<lparr>sk_data = [], sk_script = []\<rparr> = Inr (res, w)"
    by (auto simp: EncryptStream_def new_cipher_def Let_def write_out_def write_at_all_def WriteAt_def good_sink_def)
  from media_file_roundtrip [of toy_block, OF _ _ _ _ _ _ e] e show ?thesis by fastforce
qed

end
