(* ===== verification/App_State.thy ===== *)
theory App_State
  imports App_State_Store Lthash Cbc Node_Access
begin

text \<open>
  App state synchronisation: \<open>lib/appstate/hash.go\<close>, \<open>keys.go\<close>, \<open>decode.go\<close>, \<open>recovery.go\<close> and the
  function \<open>EncodePatch\<close> of \<open>encode.go\<close>. Patches change a collection of encrypted records, each named
  by the MAC of its index; the client keeps the value MAC of every record and a summation hash of
  them, and checks both against the MACs of each patch. The cryptographic primitives, protobuf and
  JSON are the fields of one parameter record. A slice expression out of range is \<open>ErrPanic\<close>.
\<close>

section \<open>Messages\<close>

datatype SyncdOperation = SET | REMOVE

text \<open>An absent key id is \<^const>\<open>None\<close>; its getter returns the empty slice.\<close>

record SyncdRecord =
  rec_Index :: bytes
  rec_Value :: bytes
  rec_KeyID :: "bytes option"

record SyncdMutation =
  mut_Operation :: SyncdOperation
  mut_Record :: SyncdRecord

record SyncdPatch =
  sp_Version :: u64
  sp_Mutations :: "SyncdMutation list"
  sp_SnapshotMAC :: bytes
  sp_PatchMAC :: bytes
  sp_KeyID :: "bytes option"
  sp_External :: "bytes option"

record SyncdSnapshot =
  ss_Version :: u64
  ss_Records :: "SyncdRecord list"
  ss_Mac :: bytes
  ss_KeyID :: "bytes option"

definition key_of :: "bytes option \<Rightarrow> bytes" where
  "key_of k = (case k of None \<Rightarrow> [] | Some b \<Rightarrow> b)"

record 'v SyncActionData =
  sa_Index :: bytes
  sa_Value :: 'v
  sa_Version :: int

record 'v Mutation =
  m_KeyID :: "bytes option"
  m_Operation :: SyncdOperation
  m_Action :: 'v
  m_Version :: int
  m_Index :: "string list"
  m_IndexMAC :: bytes
  m_ValueMAC :: bytes
  m_PatchVersion :: u64

record HashState =
  hs_Version :: u64
  hs_Hash :: bytes

record 'v primitives =
  hmac_sha256 :: "bytes \<Rightarrow> bytes \<Rightarrow> bytes"
  hmac_sha512 :: "bytes \<Rightarrow> bytes \<Rightarrow> bytes"
  hkdf_sha256 :: "bytes \<Rightarrow> string \<Rightarrow> nat \<Rightarrow> bytes"
  aes_encrypt :: "bytes \<Rightarrow> bytes \<Rightarrow> bytes"
  aes_decrypt :: "bytes \<Rightarrow> bytes \<Rightarrow> bytes"
  unmarshal_action :: "bytes \<Rightarrow> 'v SyncActionData option"
  marshal_action :: "'v SyncActionData \<Rightarrow> bytes option"
  unmarshal_index :: "bytes \<Rightarrow> string list option"
  marshal_index :: "string list \<Rightarrow> bytes"

section \<open>Hashes and MACs\<close>

definition patch_expand :: "'v primitives \<Rightarrow> bytes \<Rightarrow> bytes" where
  "patch_expand c x = hkdf_sha256 c x ''WhatsApp Patch Integrity'' HKDFSize"

definition mac_suffix :: "bytes \<Rightarrow> bytes option" where
  "mac_suffix v = (if length v < 32 then None else Some (drop (length v - 32) v))"

text \<open>
  The loop of \<open>updateHash\<close>: the values added, the values removed, and the indexes of removals that
  found nothing, which are only warned about.
\<close>

fun update_scan ::
  "(bytes \<Rightarrow> nat \<Rightarrow> ('s, bytes option) st) \<Rightarrow> nat \<Rightarrow> SyncdMutation list \<Rightarrow> bytes list \<Rightarrow> bytes list \<Rightarrow> bytes list \<Rightarrow>
    ('s, bytes list \<times> bytes list \<times> bytes list) st" where
  "update_scan getPrev i [] added removed warn = st_return (added, removed, warn)"
| "update_scan getPrev i (m # ms) added removed warn =
     (let value = mac_suffix (rec_Value (mut_Record m)); indexMAC = rec_Index (mut_Record m)
      in if mut_Operation m = SET \<and> value = None then st_fail ErrPanic
      else
        let added = (if mut_Operation m = SET then added @ [the value] else added)
        in st_bind (getPrev indexMAC i) (\<lambda>removal.
             case removal of
               Some r \<Rightarrow> update_scan getPrev (Suc i) ms added (removed @ [r]) warn
             | None \<Rightarrow> update_scan getPrev (Suc i) ms added removed
                 (if mut_Operation m = REMOVE then warn @ [indexMAC] else warn)))"

definition updateHash ::
  "'v primitives \<Rightarrow> HashState \<Rightarrow> SyncdMutation list \<Rightarrow> (bytes \<Rightarrow> nat \<Rightarrow> ('s, bytes option) st) \<Rightarrow>
    ('s, bytes list \<times> HashState) st" where
  "updateHash c hs ms getPrev =
     st_bind (update_scan getPrev 0 ms [] [] []) (\<lambda>(added, removed, warn).
       case SubtractThenAddInPlace (patch_expand c) (hs_Hash hs) removed added of
         None \<Rightarrow> st_fail ErrPanic
       | Some h \<Rightarrow> st_return (warn, hs\<lparr>hs_Hash := h\<rparr>))"

definition uint64ToBytes :: "u64 \<Rightarrow> bytes" where
  "uint64ToBytes val = put_be32 (ucast (drop_bit 32 val)) @ put_be32 (ucast val)"

definition concatAndHMAC :: "(bytes \<Rightarrow> bytes \<Rightarrow> bytes) \<Rightarrow> bytes \<Rightarrow> bytes list \<Rightarrow> bytes" where
  "concatAndHMAC alg key parts = alg key (concat parts)"

definition generateSnapshotMAC :: "'v primitives \<Rightarrow> HashState \<Rightarrow> string \<Rightarrow> bytes \<Rightarrow> bytes" where
  "generateSnapshotMAC c hs name key =
     concatAndHMAC (hmac_sha256 c) key [hs_Hash hs, uint64ToBytes (hs_Version hs), str_bytes name]"

definition generatePatchMAC ::
  "'v primitives \<Rightarrow> SyncdPatch \<Rightarrow> string \<Rightarrow> bytes \<Rightarrow> u64 \<Rightarrow> bytes option" where
  "generatePatchMAC c patch name key version =
     map_option (\<lambda>values. concatAndHMAC (hmac_sha256 c) key
         ([sp_SnapshotMAC patch] @ values @ [uint64ToBytes version, str_bytes name]))
       (those (map (\<lambda>m. mac_suffix (rec_Value (mut_Record m))) (sp_Mutations patch)))"

definition operation_byte :: "SyncdOperation \<Rightarrow> u8" where
  "operation_byte op = (case op of SET \<Rightarrow> 1 | REMOVE \<Rightarrow> 2)"

definition generateContentMAC :: "'v primitives \<Rightarrow> SyncdOperation \<Rightarrow> bytes \<Rightarrow> bytes \<Rightarrow> bytes \<Rightarrow> bytes" where
  "generateContentMAC c operation content keyID key =
     take 32 (concatAndHMAC (hmac_sha512 c) key
       [[operation_byte operation], keyID, content, uint64ToBytes (of_nat (length keyID + 1))])"

section \<open>Keys\<close>

record ExpandedAppStateKeys =
  eak_Index :: bytes
  eak_ValueEncryption :: bytes
  eak_ValueMAC :: bytes
  eak_SnapshotMAC :: bytes
  eak_PatchMAC :: bytes

record 'd Processor =
  keyCache :: "bytes \<rightharpoonup> ExpandedAppStateKeys"
  Store :: 'd

definition NewProcessor :: "'d \<Rightarrow> 'd Processor" where
  "NewProcessor store = \<lparr>keyCache = Map.empty, Store = store\<rparr>"

definition expandAppStateKeys :: "'v primitives \<Rightarrow> bytes \<Rightarrow> ExpandedAppStateKeys" where
  "expandAppStateKeys c keyData =
     (let k = hkdf_sha256 c keyData ''WhatsApp Mutation Keys'' 160
      in \<lparr>eak_Index = take 32 k, eak_ValueEncryption = take 32 (drop 32 k), eak_ValueMAC = take 32 (drop 64 k),
          eak_SnapshotMAC = take 32 (drop 96 k), eak_PatchMAC = take 32 (drop 128 k)\<rparr>)"

definition in_store :: "('d, 'a) st \<Rightarrow> ('d Processor, 'a) st" where
  "in_store m p = (case m (Store p) of (r, d) \<Rightarrow> (r, p\<lparr>Store := d\<rparr>))"

text \<open>The cache is keyed by the base64 form of the key id, which determines the key id.\<close>

definition getAppStateKey ::
  "'v primitives \<Rightarrow> 'd AppStateStore \<Rightarrow> bytes \<Rightarrow> ('d Processor, ExpandedAppStateKeys) st" where
  "getAppStateKey c S keyID p =
     (case keyCache p keyID of
        Some keys \<Rightarrow> (Inr keys, p)
      | None \<Rightarrow>
          st_bind (in_store (GetAppStateSyncKey S keyID)) (\<lambda>keyData p.
            case keyData of
              Some kd \<Rightarrow>
                (let keys = expandAppStateKeys c (ask_Data kd)
                 in (Inr keys, p\<lparr>keyCache := (keyCache p)(keyID \<mapsto> keys)\<rparr>))
            | None \<Rightarrow> (Inl ErrKeyNotFound, p)) p)"

section \<open>Patch lists\<close>

record PatchList =
  pl_Name :: string
  pl_HasMorePatches :: bool
  pl_Patches :: "SyncdPatch list"
  pl_Snapshot :: "SyncdSnapshot option"

text \<open>A key that cannot be looked up because of a database error does not count as missing.\<close>

fun missing_loop :: "'d AppStateStore \<Rightarrow> bytes set \<Rightarrow> bytes option list \<Rightarrow> 'd Processor \<Rightarrow> bytes list \<times> 'd Processor" where
  "missing_loop S cache [] p = ([], p)"
| "missing_loop S cache (None # ks) p = missing_loop S cache ks p"
| "missing_loop S cache (Some k # ks) p =
     (if k \<in> cache then missing_loop S cache ks p
      else case in_store (GetAppStateSyncKey S k) p of
        (Inr None, p) \<Rightarrow> (case missing_loop S (insert k cache) ks p of (r, p) \<Rightarrow> (k # r, p))
      | (_, p) \<Rightarrow> missing_loop S (insert k cache) ks p)"

definition GetMissingKeyIDs :: "'d AppStateStore \<Rightarrow> PatchList \<Rightarrow> 'd Processor \<Rightarrow> bytes list \<times> 'd Processor" where
  "GetMissingKeyIDs S pl =
     missing_loop S {} ((case pl_Snapshot pl of None \<Rightarrow> [] | Some ss \<Rightarrow> ss_KeyID ss # map rec_KeyID (ss_Records ss))
       @ map sp_KeyID (pl_Patches pl))"

text \<open>
  Parsing the response. The protobuf decoders and the download of external blobs are parameters;
  \<open>download\<close> may be absent, as in the Go code.
\<close>

record parsers =
  unmarshal_blob_ref :: "bytes \<Rightarrow> bytes option"
  unmarshal_snapshot :: "bytes \<Rightarrow> SyncdSnapshot option"
  unmarshal_patch :: "bytes \<Rightarrow> SyncdPatch option"
  unmarshal_mutations :: "bytes \<Rightarrow> SyncdMutation list option"
  download :: "bytes \<Rightarrow> bytes option"

definition node_bytes :: "node \<Rightarrow> bytes option" where
  "node_bytes n = (case Content n of BytesV b \<Rightarrow> Some b | _ \<Rightarrow> None)"

definition parse_step :: "as_error \<Rightarrow> 'a option \<Rightarrow> as_error + 'a" where
  "parse_step e r = (case r of None \<Rightarrow> Inl e | Some x \<Rightarrow> Inr x)"

definition parseSnapshotInternal :: "parsers \<Rightarrow> node \<Rightarrow> as_error + SyncdSnapshot option" where
  "parseSnapshotInternal ps collection =
     (let snapshotNode = GetChildByTag collection [''snapshot'']
      in case node_bytes snapshotNode of
           None \<Rightarrow> Inr None
         | Some rawSnapshot \<Rightarrow>
             if Tag snapshotNode \<noteq> ''snapshot'' then Inr None
             else bind_res (parse_step ErrUnmarshalPatch (unmarshal_blob_ref ps rawSnapshot)) (\<lambda>ref.
                  bind_res (parse_step ErrDownload (download ps ref)) (\<lambda>rawData.
                  bind_res (parse_step ErrUnmarshalPatch (unmarshal_snapshot ps rawData)) (\<lambda>ss. Inr (Some ss)))))"

definition parse_patch :: "parsers \<Rightarrow> bytes \<Rightarrow> as_error + SyncdPatch" where
  "parse_patch ps rawPatch =
     bind_res (parse_step ErrUnmarshalPatch (unmarshal_patch ps rawPatch)) (\<lambda>patch.
       case sp_External patch of
         None \<Rightarrow> Inr patch
       | Some ref \<Rightarrow>
           bind_res (parse_step ErrDownload (download ps ref)) (\<lambda>rawData.
           bind_res (parse_step ErrUnmarshalPatch (unmarshal_mutations ps rawData)) (\<lambda>ms.
             if ms = [] then Inl ErrNoMutations else Inr (patch\<lparr>sp_Mutations := ms\<rparr>))))"

fun parse_patches :: "parsers \<Rightarrow> node list \<Rightarrow> as_error + SyncdPatch list" where
  "parse_patches ps [] = Inr []"
| "parse_patches ps (n # ns) =
     (case node_bytes n of
        Some rawPatch \<Rightarrow>
          if Tag n \<noteq> ''patch'' then parse_patches ps ns
          else bind_res (parse_patch ps rawPatch) (\<lambda>p. bind_res (parse_patches ps ns) (\<lambda>r. Inr (p # r)))
      | None \<Rightarrow> parse_patches ps ns)"

definition parsePatchListInternal :: "parsers \<Rightarrow> node \<Rightarrow> as_error + SyncdPatch list" where
  "parsePatchListInternal ps collection =
     parse_patches ps (GetChildren (GetChildByTag collection [''patches'']))"

definition ParsePatchList :: "parsers \<Rightarrow> node \<Rightarrow> as_error + PatchList" where
  "ParsePatchList ps collection =
     bind_res (parseSnapshotInternal ps collection) (\<lambda>snapshot.
     bind_res (parsePatchListInternal ps collection) (\<lambda>patches.
       case AttrString ''name'' (AttrGetter collection) of (name, ag) \<Rightarrow>
       case OptionalBool ''has_more_patches'' ag of (more_, ag) \<Rightarrow>
         if AuError ag \<noteq> None then Inl ErrAttrs
         else Inr \<lparr>pl_Name = name, pl_HasMorePatches = more_, pl_Patches = patches, pl_Snapshot = snapshot\<rparr>))"

section \<open>Decoding\<close>

record 'v patchOutput =
  RemovedMACs :: "bytes list"
  AddedMACs :: "mac_entry list"
  po_Mutations :: "'v Mutation list"

definition RemoveMAC :: "bytes \<Rightarrow> 'v patchOutput \<Rightarrow> 'v patchOutput" where
  "RemoveMAC indexMAC out =
     out\<lparr>RemovedMACs := RemovedMACs out @ [indexMAC],
         AddedMACs := filter (\<lambda>m. fst m \<noteq> indexMAC) (AddedMACs out)\<rparr>"

definition AddMAC :: "bytes \<Rightarrow> bytes \<Rightarrow> 'v patchOutput \<Rightarrow> 'v patchOutput" where
  "AddMAC indexMAC valueMAC out = out\<lparr>AddedMACs := AddedMACs out @ [(indexMAC, valueMAC)]\<rparr>"

definition decodeMutation ::
  "'v primitives \<Rightarrow> 'd AppStateStore \<Rightarrow> SyncdMutation \<Rightarrow> bool \<Rightarrow>
    ('d Processor, bytes \<times> bytes \<times> string list \<times> 'v SyncActionData) st" where
  "decodeMutation c S mutation validateMACs =
     (let keyID = key_of (rec_KeyID (mut_Record mutation))
      in st_bind (getAppStateKey c S keyID) (\<lambda>keys.
        let blob = rec_Value (mut_Record mutation)
        in case mac_suffix blob of
             None \<Rightarrow> st_fail ErrPanic
           | Some valueMAC \<Rightarrow>
               let content = take (length blob - 32) blob
               in if validateMACs \<and> generateContentMAC c (mut_Operation mutation) content keyID (eak_ValueMAC keys) \<noteq> valueMAC
                  then st_fail ErrMismatchingContentMAC
                  else if length content < 16 then st_fail ErrPanic
                  else case cbc_Decrypt (aes_decrypt c) (eak_ValueEncryption keys) (take 16 content) (drop 16 content) of
                    Inl _ \<Rightarrow> st_fail ErrDecryptMutation
                  | Inr plaintext \<Rightarrow>
                      (case unmarshal_action c plaintext of
                         None \<Rightarrow> st_fail ErrUnmarshalMutation
                       | Some syncAction \<Rightarrow>
                           let indexMAC = rec_Index (mut_Record mutation)
                           in if validateMACs \<and> concatAndHMAC (hmac_sha256 c) (eak_Index keys) [sa_Index syncAction] \<noteq> indexMAC
                              then st_fail ErrMismatchingIndexMAC
                              else case unmarshal_index c (sa_Index syncAction) of
                                None \<Rightarrow> st_fail ErrUnmarshalIndex
                              | Some idx \<Rightarrow> st_return (indexMAC, valueMAC, idx, syncAction))))"

definition indexMACToArray :: "bytes \<Rightarrow> bytes" where
  "indexMACToArray indexMAC = (if length indexMAC \<noteq> 32 then replicate 32 0 else indexMAC)"

definition record_mac :: "(bytes \<rightharpoonup> bytes) \<Rightarrow> SyncdOperation \<Rightarrow> bytes \<Rightarrow> bytes \<Rightarrow> 'v patchOutput \<Rightarrow> 'v patchOutput" where
  "record_mac fakeIndexesToRemove op indexMAC valueMAC out =
     (case op of
        REMOVE \<Rightarrow>
          (let out = RemoveMAC indexMAC out
           in case fakeIndexesToRemove (indexMACToArray indexMAC) of
                Some altIndexMAC \<Rightarrow> if length indexMAC = 32 then RemoveMAC altIndexMAC out else out
              | None \<Rightarrow> out)
      | SET \<Rightarrow> AddMAC indexMAC valueMAC out)"

fun decodeMutations ::
  "'v primitives \<Rightarrow> 'd AppStateStore \<Rightarrow> SyncdMutation list \<Rightarrow> 'v patchOutput \<Rightarrow> bool \<Rightarrow> u64 \<Rightarrow> (bytes \<rightharpoonup> bytes) \<Rightarrow>
    ('d Processor, 'v patchOutput) st" where
  "decodeMutations c S [] out validateMACs patchVersion fake = st_return out"
| "decodeMutations c S (m # ms) out validateMACs patchVersion fake =
     st_bind (decodeMutation c S m validateMACs) (\<lambda>(indexMAC, valueMAC, idx, syncAction).
       let out = record_mac fake (mut_Operation m) indexMAC valueMAC out
       in decodeMutations c S ms
            (out\<lparr>po_Mutations := po_Mutations out @
               [\<lparr>m_KeyID = rec_KeyID (mut_Record m), m_Operation = mut_Operation m, m_Action = sa_Value syncAction,
                 m_Version = sa_Version syncAction, m_Index = idx, m_IndexMAC = indexMAC, m_ValueMAC = valueMAC,
                 m_PatchVersion = patchVersion\<rparr>]\<rparr>)
            validateMACs patchVersion fake)"

definition storeMACs :: "'d AppStateStore \<Rightarrow> string \<Rightarrow> HashState \<Rightarrow> 'v patchOutput \<Rightarrow> ('d Processor, unit) st" where
  "storeMACs S name currentState out =
     st_bind (in_store (PutAppStateVersion S name (hs_Version currentState) (hs_Hash currentState))) (\<lambda>_.
     st_bind (in_store (DeleteAppStateMutationMACs S name (RemovedMACs out))) (\<lambda>_.
       in_store (PutAppStateMutationMACs S name (hs_Version currentState) (AddedMACs out))))"

definition validateSnapshotMAC ::
  "'v primitives \<Rightarrow> 'd AppStateStore \<Rightarrow> string \<Rightarrow> HashState \<Rightarrow> bytes \<Rightarrow> bytes \<Rightarrow> ('d Processor, ExpandedAppStateKeys) st" where
  "validateSnapshotMAC c S name currentState keyID expectedSnapshotMAC =
     st_bind (getAppStateKey c S keyID) (\<lambda>keys.
       if generateSnapshotMAC c currentState name (eak_SnapshotMAC keys) \<noteq> expectedSnapshotMAC
       then st_fail ErrMismatchingLTHash else st_return keys)"

definition empty_output :: "'v Mutation list \<Rightarrow> 'v patchOutput" where
  "empty_output ms = \<lparr>RemovedMACs = [], AddedMACs = [], po_Mutations = ms\<rparr>"

definition decodeSnapshot ::
  "'v primitives \<Rightarrow> 'd AppStateStore \<Rightarrow> string \<Rightarrow> SyncdSnapshot \<Rightarrow> HashState \<Rightarrow> bool \<Rightarrow> 'v Mutation list \<Rightarrow>
    ('d Processor, 'v Mutation list \<times> HashState) st" where
  "decodeSnapshot c S name ss initialState validateMACs newMutationsInput =
     (let currentState = initialState\<lparr>hs_Version := ss_Version ss\<rparr>;
          encryptedMutations = map (\<lambda>r. \<lparr>mut_Operation = SET, mut_Record = r\<rparr>) (ss_Records ss)
      in st_bind (updateHash c currentState encryptedMutations (\<lambda>_ _. st_return None)) (\<lambda>(_, currentState).
         st_bind (if validateMACs
             then st_bind (validateSnapshotMAC c S name currentState (key_of (ss_KeyID ss)) (ss_Mac ss)) (\<lambda>_. st_return ())
             else st_return ()) (\<lambda>_.
         st_bind (decodeMutations c S encryptedMutations (empty_output newMutationsInput) validateMACs
             (hs_Version currentState) Map.empty) (\<lambda>out.
         st_bind (storeMACs S name currentState out) (\<lambda>_.
           st_return (po_Mutations out, currentState))))))"

text \<open>
  The value that a record had before mutation number \<open>maxIndex\<close>: the latest earlier mutation of the
  same patch decides, otherwise the store.
\<close>

fun prev_in_patch :: "SyncdMutation list \<Rightarrow> bytes \<Rightarrow> nat \<Rightarrow> ('s, bytes option) st \<Rightarrow> ('s, bytes option) st" where
  "prev_in_patch ms indexMAC 0 lookup = lookup"
| "prev_in_patch ms indexMAC (Suc i) lookup =
     (if rec_Index (mut_Record (ms ! i)) = indexMAC then
        case mut_Operation (ms ! i) of
          SET \<Rightarrow> (case mac_suffix (rec_Value (mut_Record (ms ! i))) of
              None \<Rightarrow> st_fail ErrPanic | Some v \<Rightarrow> st_return (Some v))
        | REMOVE \<Rightarrow> st_return None
      else prev_in_patch ms indexMAC i lookup)"

definition validatePatch ::
  "'v primitives \<Rightarrow> 'd AppStateStore \<Rightarrow> string \<Rightarrow> SyncdPatch \<Rightarrow> HashState \<Rightarrow> bool \<Rightarrow> ('d Processor, HashState) st" where
  "validatePatch c S patchName patch currentState validateMACs =
     st_bind (updateHash c (currentState\<lparr>hs_Version := sp_Version patch\<rparr>) (sp_Mutations patch)
         (\<lambda>indexMAC maxIndex. prev_in_patch (sp_Mutations patch) indexMAC maxIndex
            (in_store (GetAppStateMutationMAC S patchName indexMAC)))) (\<lambda>(_, newState).
       if \<not> validateMACs then st_return newState
       else
         st_bind (validateSnapshotMAC c S patchName newState (key_of (sp_KeyID patch)) (sp_SnapshotMAC patch)) (\<lambda>keys.
           case generatePatchMAC c patch patchName (eak_PatchMAC keys) (sp_Version patch) of
             None \<Rightarrow> st_fail ErrPanic
           | Some patchMAC \<Rightarrow>
               if patchMAC \<noteq> sp_PatchMAC patch then st_fail ErrMismatchingPatchMAC else st_return newState))"

definition decode_patch ::
  "'v primitives \<Rightarrow> 'd AppStateStore \<Rightarrow> string \<Rightarrow> bool \<Rightarrow> SyncdPatch \<Rightarrow> 'v Mutation list \<times> HashState \<Rightarrow>
    ('d Processor, 'v Mutation list \<times> HashState) st" where
  "decode_patch c S name validateMACs patch acc =
     (case acc of (newMutations, currentState) \<Rightarrow>
       st_bind (validatePatch c S name patch currentState validateMACs) (\<lambda>newState.
       st_bind (decodeMutations c S (sp_Mutations patch) (empty_output newMutations) validateMACs
           (hs_Version newState) Map.empty) (\<lambda>out.
       st_bind (storeMACs S name newState out) (\<lambda>_.
         st_return (po_Mutations out, newState)))))"

fun decode_patches ::
  "'v primitives \<Rightarrow> 'd AppStateStore \<Rightarrow> string \<Rightarrow> bool \<Rightarrow> SyncdPatch list \<Rightarrow> 'v Mutation list \<times> HashState \<Rightarrow>
    ('d Processor, 'v Mutation list \<times> HashState) st" where
  "decode_patches c S name validateMACs [] acc = st_return acc"
| "decode_patches c S name validateMACs (patch # patches) acc =
     st_bind (decode_patch c S name validateMACs patch acc) (decode_patches c S name validateMACs patches)"

definition DecodePatches ::
  "'v primitives \<Rightarrow> 'd AppStateStore \<Rightarrow> PatchList \<Rightarrow> HashState \<Rightarrow> bool \<Rightarrow>
    ('d Processor, 'v Mutation list \<times> HashState) st" where
  "DecodePatches c S pl initialState validateMACs =
     st_bind (case pl_Snapshot pl of
         None \<Rightarrow> st_return ([], initialState)
       | Some ss \<Rightarrow> decodeSnapshot c S (pl_Name pl) ss initialState validateMACs [])
       (decode_patches c S (pl_Name pl) validateMACs (pl_Patches pl))"

section \<open>Recovery\<close>

record 'v RecoveryRecord =
  rr_KeyID :: bytes
  rr_Action :: "'v SyncActionData"
  rr_Mac :: bytes

record 'v SyncdSnapshotRecovery =
  sr_Name :: string
  sr_Version :: u64
  sr_Lthash :: bytes
  sr_Records :: "'v RecoveryRecord list"

text \<open>\<open>ParseRecovery\<close>: decompression and the protobuf decoder are parameters.\<close>

definition ParseRecovery ::
  "(bytes \<Rightarrow> bytes option) \<Rightarrow> (bytes \<Rightarrow> 'v SyncdSnapshotRecovery option) \<Rightarrow> bool \<Rightarrow> bytes \<Rightarrow> as_error + 'v SyncdSnapshotRecovery" where
  "ParseRecovery gunzip unmarshal isCompressed blob =
     bind_res (if isCompressed then parse_step ErrDownload (gunzip blob) else Inr blob) (\<lambda>blob.
       parse_step ErrUnmarshalPatch (unmarshal blob))"

fun recovery_loop ::
  "'v primitives \<Rightarrow> 'd AppStateStore \<Rightarrow> u64 \<Rightarrow> 'v RecoveryRecord list \<Rightarrow>
    ('d Processor, (mac_entry \<times> 'v Mutation) list) st" where
  "recovery_loop c S version [] = st_return []"
| "recovery_loop c S version (r # rs) =
     st_bind (getAppStateKey c S (rr_KeyID r)) (\<lambda>keys.
       case unmarshal_index c (sa_Index (rr_Action r)) of
         None \<Rightarrow> st_fail ErrUnmarshalIndex
       | Some parsedIndex \<Rightarrow>
           let indexMAC = concatAndHMAC (hmac_sha256 c) (eak_Index keys) [sa_Index (rr_Action r)]
           in st_bind (recovery_loop c S version rs) (\<lambda>rest.
                st_return (((indexMAC, rr_Mac r),
                  \<lparr>m_KeyID = Some (rr_KeyID r), m_Operation = SET, m_Action = sa_Value (rr_Action r),
                   m_Version = sa_Version (rr_Action r), m_Index = parsedIndex, m_IndexMAC = indexMAC,
                   m_ValueMAC = rr_Mac r, m_PatchVersion = version\<rparr>) # rest)))"

definition ProcessRecovery ::
  "'v primitives \<Rightarrow> 'd AppStateStore \<Rightarrow> 'v SyncdSnapshotRecovery \<Rightarrow> ('d Processor, 'v Mutation list) st" where
  "ProcessRecovery c S recovery =
     (if length (sr_Lthash recovery) \<noteq> 128 then st_fail ErrInvalidLthashLength
      else
        let name = sr_Name recovery; version = sr_Version recovery
        in st_bind (recovery_loop c S version (sr_Records recovery)) (\<lambda>entries.
           st_bind (in_store (DeleteAppStateVersion S name)) (\<lambda>_.
           st_bind (in_store (PutAppStateVersion S name version (sr_Lthash recovery))) (\<lambda>_.
           st_bind (in_store (PutAppStateMutationMACs S name version (map fst entries))) (\<lambda>_.
             st_return (map snd entries))))))"

section \<open>Encoding\<close>

record 'v MutationInfo =
  mi_Index :: "string list"
  mi_Version :: int
  mi_Value :: 'v

record 'v PatchInfo =
  pi_Timestamp :: "int option"
  pi_Type :: string
  pi_Mutations :: "'v MutationInfo list"

text \<open>
  \<open>stamp\<close> sets the timestamp of an action; \<open>ivs i\<close> is the initialisation vector that the cipher draws
  for mutation \<open>i\<close> (\<^const>\<open>None\<close> where the random source fails).
\<close>

fun encode_mutations ::
  "'v primitives \<Rightarrow> ('v \<Rightarrow> 'v) \<Rightarrow> ExpandedAppStateKeys \<Rightarrow> bytes \<Rightarrow> (nat \<Rightarrow> bytes option) \<Rightarrow> nat \<Rightarrow> 'v MutationInfo list \<Rightarrow>
    as_error + SyncdMutation list" where
  "encode_mutations c stamp keys keyID ivs i [] = Inr []"
| "encode_mutations c stamp keys keyID ivs i (mi # mis) =
     (let indexBytes = marshal_index c (mi_Index mi)
      in case marshal_action c \<lparr>sa_Index = indexBytes, sa_Value = stamp (mi_Value mi), sa_Version = mi_Version mi\<rparr> of
           None \<Rightarrow> Inl ErrMarshal
         | Some content \<Rightarrow>
             (case cbc_Encrypt (aes_encrypt c) (ivs i) (eak_ValueEncryption keys) None content of
                Inl _ \<Rightarrow> Inl ErrMarshal
              | Inr encryptedContent \<Rightarrow>
                  let valueMac = generateContentMAC c SET encryptedContent keyID (eak_ValueMAC keys);
                      indexMac = concatAndHMAC (hmac_sha256 c) (eak_Index keys) [indexBytes]
                  in bind_res (encode_mutations c stamp keys keyID ivs (Suc i) mis) (\<lambda>rest.
                       Inr (\<lparr>mut_Operation = SET,
                              mut_Record = \<lparr>rec_Index = indexMac, rec_Value = encryptedContent @ valueMac, rec_KeyID = Some keyID\<rparr>\<rparr> # rest))))"

definition lift_res :: "as_error + 'a \<Rightarrow> ('s, 'a) st" where
  "lift_res r = (case r of Inl e \<Rightarrow> st_fail e | Inr x \<Rightarrow> st_return x)"

text \<open>
  \<open>stamp t\<close> stamps the patch time \<open>t\<close>, which is the current time when the patch has none. The result
  is the patch before its protobuf encoding; its version is left to the server.
\<close>

definition EncodePatch ::
  "'v primitives \<Rightarrow> 'd AppStateStore \<Rightarrow> (int \<Rightarrow> 'v \<Rightarrow> 'v) \<Rightarrow> int \<Rightarrow> (nat \<Rightarrow> bytes option) \<Rightarrow> bytes \<Rightarrow> HashState \<Rightarrow> 'v PatchInfo \<Rightarrow>
    ('d Processor, SyncdPatch) st" where
  "EncodePatch c S stamp now ivs keyID state patchInfo =
     st_bind (getAppStateKey c S keyID) (\<lambda>keys.
       let timestamp = (case pi_Timestamp patchInfo of None \<Rightarrow> now | Some t \<Rightarrow> t)
       in st_bind (lift_res (encode_mutations c (stamp timestamp) keys keyID ivs 0 (pi_Mutations patchInfo))) (\<lambda>mutations.
          st_bind (updateHash c state mutations (\<lambda>indexMAC _. in_store (GetAppStateMutationMAC S (pi_Type patchInfo) indexMAC)))
            (\<lambda>(_, state).
              let state = state\<lparr>hs_Version := hs_Version state + 1\<rparr>;
                  patch = \<lparr>sp_Version = 0, sp_Mutations = mutations,
                    sp_SnapshotMAC = generateSnapshotMAC c state (pi_Type patchInfo) (eak_SnapshotMAC keys),
                    sp_PatchMAC = [], sp_KeyID = Some keyID, sp_External = None\<rparr>
              in case generatePatchMAC c patch (pi_Type patchInfo) (eak_PatchMAC keys) (hs_Version state) of
                   None \<Rightarrow> st_fail ErrPanic
                 | Some mac \<Rightarrow> st_return (patch\<lparr>sp_PatchMAC := mac\<rparr>))))"

end
