(* ===== verification/App_State_Sync.thy ===== *)
theory App_State_Sync
  imports App_State
begin

text \<open>
  Correctness of app state synchronisation: after every successful decoding, the stored MACs are
  those of the collection that the mutations describe, and the hash is the hash of that
  collection. The proofs rest on the contract of the store, the locale \<open>app_state_store\<close>.
\<close>

section \<open>The collection that mutations describe\<close>

definition apply_mutation :: "SyncdMutation \<Rightarrow> (bytes \<rightharpoonup> bytes) \<Rightarrow> bytes \<rightharpoonup> bytes" where
  "apply_mutation m coll =
     coll(rec_Index (mut_Record m) :=
       (case mut_Operation m of SET \<Rightarrow> mac_suffix (rec_Value (mut_Record m)) | REMOVE \<Rightarrow> None))"

abbreviation apply_mutations :: "SyncdMutation list \<Rightarrow> (bytes \<rightharpoonup> bytes) \<Rightarrow> bytes \<rightharpoonup> bytes" where
  "apply_mutations ms coll \<equiv> fold apply_mutation ms coll"

lemma finite_apply_mutation: "finite (dom coll) \<Longrightarrow> finite (dom (apply_mutation m coll))"
  unfolding apply_mutation_def by (rule finite_subset [of _ "insert (rec_Index (mut_Record m)) (dom coll)"]) auto

lemma finite_apply_mutations: "finite (dom coll) \<Longrightarrow> finite (dom (apply_mutations ms coll))"
  by (induction ms arbitrary: coll) (simp_all add: finite_apply_mutation)

lemma apply_mutations_other:
  "k \<notin> (\<lambda>m. rec_Index (mut_Record m)) ` set ms \<Longrightarrow> apply_mutations ms coll k = coll k"
  by (induction ms arbitrary: coll) (auto simp: apply_mutation_def)

lemma collection_sum_apply:
  assumes "finite (dom coll)"
  shows "collection_sum e (apply_mutation m coll) i = collection_sum e coll i
    - (case coll (rec_Index (mut_Record m)) of None \<Rightarrow> 0 | Some w \<Rightarrow> coord (e w) i)
    + (case mut_Operation m of REMOVE \<Rightarrow> 0 | SET \<Rightarrow>
        (case mac_suffix (rec_Value (mut_Record m)) of None \<Rightarrow> 0 | Some v \<Rightarrow> coord (e v) i))"
  using collection_sum_remove [OF assms] collection_sum_set [OF assms]
  by (auto simp: apply_mutation_def split: SyncdOperation.splits option.splits)

section \<open>Updating the hash\<close>

text \<open>
  \<open>I\<close> is what the lookups of previous values keep true of the state.
\<close>

definition finds_previous ::
  "('s \<Rightarrow> bool) \<Rightarrow> SyncdMutation list \<Rightarrow> (bytes \<rightharpoonup> bytes) \<Rightarrow> (bytes \<Rightarrow> nat \<Rightarrow> ('s, bytes option) st) \<Rightarrow> bool" where
  "finds_previous I ms base getPrev \<longleftrightarrow>
     (\<forall>i s r s'. i < length ms \<longrightarrow> I s \<longrightarrow> getPrev (rec_Index (mut_Record (ms ! i))) i s = (Inr r, s') \<longrightarrow>
        r = apply_mutations (take i ms) base (rec_Index (mut_Record (ms ! i))) \<and> I s')"

lemma update_scan_sums:
  assumes "finds_previous I ms base getPrev" and "finite (dom base)" and "I s" and "i \<le> length ms"
    and "update_scan getPrev i (drop i ms) added removed warn s = (Inr (a, r, w), s')"
  shows "I s' \<and> (\<forall>j. (\<Sum>x\<leftarrow>a. coord (e x) j) - (\<Sum>x\<leftarrow>r. coord (e x) j) + collection_sum e (apply_mutations (take i ms) base) j =
    (\<Sum>x\<leftarrow>added. coord (e x) j) - (\<Sum>x\<leftarrow>removed. coord (e x) j) + collection_sum e (apply_mutations ms base) j)"
  using assms(3-5)
proof (induction "length ms - i" arbitrary: i s added removed warn)
  case 0
  then show ?case by simp
next
  case (Suc n)
  define m where "m = ms ! i"
  let ?idx = "rec_Index (mut_Record m)" and ?coll = "apply_mutations (take i ms) base"
  let ?v = "mac_suffix (rec_Value (mut_Record m))"
  let ?added = "if mut_Operation m = SET then added @ [the ?v] else added"
  have i: "i < length ms" using Suc.hyps(2) by simp
  then have d: "drop i ms = m # drop (Suc i) ms" by (simp add: m_def Cons_nth_drop_Suc)
  have t: "apply_mutations (take (Suc i) ms) base = apply_mutation m ?coll"
    using i by (simp add: take_Suc_conv_app_nth m_def)
  have ok: "mut_Operation m = SET \<Longrightarrow> ?v \<noteq> None"
    using Suc.prems(3) unfolding d by (auto simp: Let_def split: if_splits)
  obtain p s1 where p: "getPrev ?idx i s = (Inr p, s1)"
      "update_scan getPrev (Suc i) (drop (Suc i) ms) ?added (case p of None \<Rightarrow> removed | Some x \<Rightarrow> removed @ [x])
        (case p of None \<Rightarrow> if mut_Operation m = REMOVE then warn @ [?idx] else warn | Some x \<Rightarrow> warn) s1 = (Inr (a, r, w), s')"
    using Suc.prems(3) unfolding d by (auto simp: Let_def res_elims split: if_splits option.splits)
  have prev: "p = ?coll ?idx" "I s1"
    using assms(1) i Suc.prems(1) p(1) by (auto simp: finds_previous_def m_def)
  have IH: "I s' \<and> (\<forall>j. (\<Sum>x\<leftarrow>a. coord (e x) j) - (\<Sum>x\<leftarrow>r. coord (e x) j) + collection_sum e (apply_mutation m ?coll) j =
    (\<Sum>x\<leftarrow>?added. coord (e x) j) - (\<Sum>x\<leftarrow>(case p of None \<Rightarrow> removed | Some x \<Rightarrow> removed @ [x]). coord (e x) j)
      + collection_sum e (apply_mutations ms base) j)"
    using Suc.hyps(1) [OF _ prev(2) _ p(2)] Suc.hyps(2) i unfolding t by simp
  have cs: "collection_sum e (apply_mutation m ?coll) j = collection_sum e ?coll j
    - (case p of None \<Rightarrow> 0 | Some w \<Rightarrow> coord (e w) j)
    + (case mut_Operation m of REMOVE \<Rightarrow> 0 | SET \<Rightarrow> (case ?v of None \<Rightarrow> 0 | Some v \<Rightarrow> coord (e v) j))" for j
    using collection_sum_apply [OF finite_apply_mutations [OF assms(2)], of e m "take i ms" j] by (simp add: prev(1))
  show ?case
    using IH ok unfolding cs
    by (cases "mut_Operation m"; cases p) (auto simp: algebra_simps)
qed

lemma updateHash_hashes:
  assumes "finds_previous I ms base getPrev" and "finite (dom base)" and "I s"
    and "\<And>x. length (patch_expand c x) = 128" and "hashes (patch_expand c) (hs_Hash hs) base"
    and "updateHash c hs ms getPrev s = (Inr (w, hs'), s')"
  shows "I s' \<and> hs_Version hs' = hs_Version hs \<and> hashes (patch_expand c) (hs_Hash hs') (apply_mutations ms base)"
proof -
  obtain a r where sc: "update_scan getPrev 0 ms [] [] [] s = (Inr (a, r, w), s')"
      and h: "SubtractThenAddInPlace (patch_expand c) (hs_Hash hs) r a = Some (hs_Hash hs')" "hs_Version hs' = hs_Version hs"
    using assms(6) by (auto simp: updateHash_def res_elims split: option.splits)
  have sums: "I s'" "(\<Sum>x\<leftarrow>a. coord (patch_expand c x) j) - (\<Sum>x\<leftarrow>r. coord (patch_expand c x) j) + collection_sum (patch_expand c) base j =
      collection_sum (patch_expand c) (apply_mutations ms base) j" for j
    using update_scan_sums [OF assms(1-3), of 0 "[]" "[]" "[]" a r w s' "patch_expand c"] sc by simp_all
  show ?thesis
    using SubtractThenAdd_total [of "patch_expand c" "hs_Hash hs" r a] assms(4,5) h sums
    by (auto simp: hashes_def algebra_simps)
qed

section \<open>The MACs that a patch stores\<close>

definition out_view :: "(bytes \<rightharpoonup> bytes) \<Rightarrow> 'v patchOutput \<Rightarrow> bytes \<rightharpoonup> bytes" where
  "out_view base out = (base |` (- set (RemovedMACs out))) ++ map_of (rev (AddedMACs out))"

lemma map_of_filter_key: "map_of (filter (\<lambda>m. fst m \<noteq> k) xs) = (map_of xs)(k := None)"
  by (induction xs) (auto simp: fun_eq_iff)

lemma out_view_simps [simp]:
  "out_view base (empty_output ms) = base"
  "out_view base (RemoveMAC k out) = (out_view base out)(k := None)"
  "out_view base (AddMAC k v out) = (out_view base out)(k \<mapsto> v)"
  "out_view base (out\<lparr>po_Mutations := ms\<rparr>) = out_view base out"
  by (auto simp: out_view_def empty_output_def RemoveMAC_def AddMAC_def rev_filter map_of_filter_key fun_eq_iff
      map_add_def restrict_map_def split: option.splits)

section \<open>Clients of the store\<close>

context app_state_store
begin

definition same_rows :: "'d Processor \<Rightarrow> 'd Processor \<Rightarrow> bool" where
  "same_rows p p' \<longleftrightarrow>
     macs_of (Store p') = macs_of (Store p) \<and> state_of (Store p') = state_of (Store p) \<and> keys_of (Store p') = keys_of (Store p)"

lemma same_rows_refl: "same_rows p p"
  by (simp add: same_rows_def)

lemma same_rows_trans: "same_rows p q \<Longrightarrow> same_rows q r \<Longrightarrow> same_rows p r"
  by (simp add: same_rows_def)

lemma in_store_Inr: "in_store m p = (Inr x, p') \<Longrightarrow> m (Store p) = (Inr x, Store p') \<and> keyCache p' = keyCache p"
  by (auto simp: in_store_def split: prod.splits)

lemma getAppStateKey_rows: "getAppStateKey c S k p = (Inr keys, p') \<Longrightarrow> same_rows p p'"
  by (auto simp: getAppStateKey_def same_rows_def res_elims Let_def split: option.splits dest!: in_store_Inr get_key)

lemma lookup_rows:
  "in_store (GetAppStateMutationMAC S name i) p = (Inr r, p') \<Longrightarrow> r = macs_of (Store p) name i \<and> same_rows p p'"
  by (auto simp: same_rows_def dest!: in_store_Inr get_mac)

lemma prev_in_patch_finds:
  assumes "prev_in_patch ms idx i (in_store (GetAppStateMutationMAC S name idx)) p = (Inr r, p')" and "i \<le> length ms"
  shows "r = apply_mutations (take i ms) (macs_of (Store p) name) idx \<and> same_rows p p'"
  using assms
proof (induction i)
  case 0
  then show ?case by (simp add: lookup_rows)
next
  case (Suc i)
  have "take (Suc i) ms = take i ms @ [ms ! i]"
    using Suc.prems(2) by (simp add: take_Suc_conv_app_nth)
  then show ?case
    using Suc by (auto simp: apply_mutation_def same_rows_refl split: if_splits SyncdOperation.splits option.splits)
qed

lemma patch_finds_previous:
  "finds_previous (\<lambda>p'. same_rows p p') ms (macs_of (Store p) name)
    (\<lambda>idx i. prev_in_patch ms idx i (in_store (GetAppStateMutationMAC S name idx)))"
  unfolding finds_previous_def
  using prev_in_patch_finds same_rows_trans by (fastforce simp: same_rows_def)

lemma decodeMutation_rows:
  "decodeMutation c S m val p = (Inr (i, v, idx, sa), p') \<Longrightarrow>
    same_rows p p' \<and> i = rec_Index (mut_Record m) \<and> mac_suffix (rec_Value (mut_Record m)) = Some v"
  by (cases "mac_suffix (rec_Value (mut_Record m))")
    (auto simp: decodeMutation_def Let_def res_elims split: option.split_asm if_split_asm sum.split_asm dest: getAppStateKey_rows)

lemma decodeMutations_rows:
  assumes "decodeMutations c S ms out val v Map.empty p = (Inr out', p')"
  shows "same_rows p p' \<and> out_view base out' = apply_mutations ms (out_view base out)"
  using assms
proof (induction ms arbitrary: out p)
  case Nil
  then show ?case by (simp add: same_rows_refl)
next
  case (Cons m ms)
  obtain i v' idx sa p1 out1 where 1: "decodeMutation c S m val p = (Inr (i, v', idx, sa), p1)"
      "decodeMutations c S ms (out1\<lparr>po_Mutations := po_Mutations out1 @
         [\<lparr>m_KeyID = rec_KeyID (mut_Record m), m_Operation = mut_Operation m, m_Action = sa_Value sa, m_Version = sa_Version sa,
           m_Index = idx, m_IndexMAC = i, m_ValueMAC = v', m_PatchVersion = v\<rparr>]\<rparr>) val v Map.empty p1 = (Inr out', p')"
      "out1 = record_mac Map.empty (mut_Operation m) i v' out"
    using Cons.prems by (auto simp: res_elims Let_def)
  have "out_view base out1 = apply_mutation m (out_view base out)"
    using decodeMutation_rows [OF 1(1)]
    by (auto simp: 1(3) record_mac_def apply_mutation_def split: SyncdOperation.splits)
  then show ?case
    using Cons.IH [OF 1(2)] decodeMutation_rows [OF 1(1)] same_rows_trans by auto
qed

lemma storeMACs_rows:
  assumes "storeMACs S name st out p = (Inr u, p')"
  shows "macs_of (Store p') = (macs_of (Store p))(name := out_view (macs_of (Store p) name) out) \<and>
    state_of (Store p') = (state_of (Store p))(name := (hs_Version st, hs_Hash st)) \<and> keys_of (Store p') = keys_of (Store p)"
proof -
  obtain d1 d2 where
      1: "PutAppStateVersion S name (hs_Version st) (hs_Hash st) (Store p) = (Inr (), d1)"
    and 2: "DeleteAppStateMutationMACs S name (RemovedMACs out) d1 = (Inr (), d2)"
    and 3: "PutAppStateMutationMACs S name (hs_Version st) (AddedMACs out) d2 = (Inr u, Store p')"
    using assms by (auto simp: storeMACs_def res_elims dest!: in_store_Inr)
  show ?thesis
    using put_version [OF 1] delete_macs [OF 2] put_macs [OF 3] by (simp add: out_view_def)
qed

text \<open>A collection is in sync when the store and the hash describe it.\<close>

definition in_sync :: "'v primitives \<Rightarrow> 'd Processor \<Rightarrow> string \<Rightarrow> HashState \<Rightarrow> (bytes \<rightharpoonup> bytes) \<Rightarrow> bool" where
  "in_sync c p name st coll \<longleftrightarrow>
     macs_of (Store p) name = coll \<and> state_of (Store p) name = (hs_Version st, hs_Hash st) \<and>
     finite (dom coll) \<and> hashes (patch_expand c) (hs_Hash st) coll"

definition others_kept :: "string \<Rightarrow> 'd Processor \<Rightarrow> 'd Processor \<Rightarrow> bool" where
  "others_kept name p p' \<longleftrightarrow>
     (\<forall>n. n \<noteq> name \<longrightarrow> macs_of (Store p') n = macs_of (Store p) n \<and> state_of (Store p') n = state_of (Store p) n)"

lemma validateSnapshotMAC_rows: "validateSnapshotMAC c S name st k mac p = (Inr keys, p') \<Longrightarrow> same_rows p p'"
  by (auto simp: validateSnapshotMAC_def res_elims split: if_splits dest: getAppStateKey_rows)

lemma validatePatch_hashes:
  assumes "\<And>x. length (patch_expand c x) = 128" and "finite (dom coll)" and "macs_of (Store p) name = coll"
    and "hashes (patch_expand c) (hs_Hash st) coll" and "validatePatch c S name patch st val p = (Inr st', p')"
  shows "same_rows p p' \<and> hs_Version st' = sp_Version patch \<and>
    hashes (patch_expand c) (hs_Hash st') (apply_mutations (sp_Mutations patch) coll)"
proof -
  obtain w p1 where u: "updateHash c (st\<lparr>hs_Version := sp_Version patch\<rparr>) (sp_Mutations patch)
      (\<lambda>idx i. prev_in_patch (sp_Mutations patch) idx i (in_store (GetAppStateMutationMAC S name idx))) p = (Inr (w, st'), p1)"
      and p1: "p1 = p' \<or> (\<exists>keys. validateSnapshotMAC c S name st' (key_of (sp_KeyID patch)) (sp_SnapshotMAC patch) p1 = (Inr keys, p'))"
    using assms(5) by (auto simp: validatePatch_def res_elims split: if_splits option.splits)
  have "same_rows p p1 \<and> hs_Version st' = sp_Version patch \<and>
      hashes (patch_expand c) (hs_Hash st') (apply_mutations (sp_Mutations patch) coll)"
    using updateHash_hashes [OF patch_finds_previous _ same_rows_refl assms(1) _ u] assms(2-4) by simp
  then show ?thesis using p1 validateSnapshotMAC_rows same_rows_trans by blast
qed

lemma decode_patch_in_sync:
  assumes "\<And>x. length (patch_expand c x) = 128" and "in_sync c p name st coll"
    and "decode_patch c S name val patch (ms, st) p = (Inr (ms', st'), p')"
  shows "in_sync c p' name st' (apply_mutations (sp_Mutations patch) coll) \<and> others_kept name p p' \<and> hs_Version st' = sp_Version patch"
proof -
  obtain p1 out p2 where 1: "validatePatch c S name patch st val p = (Inr st', p1)"
      and 2: "decodeMutations c S (sp_Mutations patch) (empty_output ms) val (hs_Version st') Map.empty p1 = (Inr out, p2)"
      and 3: "storeMACs S name st' out p2 = (Inr (), p')"
    using assms(3) by (auto simp: decode_patch_def res_elims)
  have v: "same_rows p p1" "hs_Version st' = sp_Version patch"
      "hashes (patch_expand c) (hs_Hash st') (apply_mutations (sp_Mutations patch) coll)"
    using validatePatch_hashes [OF assms(1) _ _ _ 1, of coll] assms(2) by (auto simp: in_sync_def)
  have d: "same_rows p1 p2" "out_view coll out = apply_mutations (sp_Mutations patch) coll"
    using decodeMutations_rows [OF 2, of coll] by simp_all
  show ?thesis
    using storeMACs_rows [OF 3] v d assms(2) finite_apply_mutations [of coll "sp_Mutations patch"]
    by (auto simp: in_sync_def others_kept_def same_rows_def)
qed

lemma decode_patches_in_sync:
  assumes "\<And>x. length (patch_expand c x) = 128"
  shows "in_sync c p name st coll \<Longrightarrow> decode_patches c S name val patches (ms, st) p = (Inr (ms', st'), p') \<Longrightarrow>
    in_sync c p' name st' (apply_mutations (concat (map sp_Mutations patches)) coll) \<and> others_kept name p p'"
proof (induction patches arbitrary: p st coll ms)
  case Nil
  then show ?case by (auto simp: others_kept_def)
next
  case (Cons patch patches)
  then obtain ms1 st1 p1 where 1: "decode_patch c S name val patch (ms, st) p = (Inr (ms1, st1), p1)"
      "decode_patches c S name val patches (ms1, st1) p1 = (Inr (ms', st'), p')"
    by (auto simp: res_elims)
  note step = decode_patch_in_sync [OF assms Cons.prems(1) 1(1)]
  show ?case using Cons.IH [OF _ 1(2)] step by (fastforce simp: others_kept_def)
qed

lemma snapshot_finds_previous:
  assumes "distinct (map rec_Index rs)" and "ms = map (\<lambda>r. \<lparr>mut_Operation = SET, mut_Record = r\<rparr>) rs"
  shows "finds_previous (\<lambda>p'. same_rows p p') ms Map.empty (\<lambda>_ _. st_return None)"
proof -
  have "apply_mutations (take i ms) Map.empty (rec_Index (mut_Record (ms ! i))) = None" if "i < length ms" for i
  proof -
    have "rec_Index (mut_Record (ms ! i)) \<notin> (\<lambda>m. rec_Index (mut_Record m)) ` set (take i ms)"
      using assms that by (auto simp: distinct_conv_nth in_set_conv_nth)
    then show ?thesis by (simp add: apply_mutations_other)
  qed
  then show ?thesis by (auto simp: finds_previous_def)
qed

lemma decodeSnapshot_in_sync:
  assumes "\<And>x. length (patch_expand c x) = 128" and "in_sync c p name st Map.empty" and "distinct (map rec_Index (ss_Records ss))"
    and "decodeSnapshot c S name ss st val ms p = (Inr (ms', st'), p')"
  shows "in_sync c p' name st' (apply_mutations (map (\<lambda>r. \<lparr>mut_Operation = SET, mut_Record = r\<rparr>) (ss_Records ss)) Map.empty) \<and>
    others_kept name p p' \<and> hs_Version st' = ss_Version ss"
proof -
  define es where "es = map (\<lambda>r. \<lparr>mut_Operation = SET, mut_Record = r\<rparr>) (ss_Records ss)"
  obtain w p1 p2 out p3 where
      1: "updateHash c (st\<lparr>hs_Version := ss_Version ss\<rparr>) es (\<lambda>_ _. st_return None) p = (Inr (w, st'), p1)"
    and 2: "(if val then st_bind (validateSnapshotMAC c S name st' (key_of (ss_KeyID ss)) (ss_Mac ss)) (\<lambda>_. st_return ())
      else st_return ()) p1 = (Inr (), p2)"
    and 3: "decodeMutations c S es (empty_output ms) val (hs_Version st') Map.empty p2 = (Inr out, p3)"
    and 4: "storeMACs S name st' out p3 = (Inr (), p')"
    using assms(4) unfolding decodeSnapshot_def Let_def es_def [symmetric] st_bind_Inr_iff
    by (auto simp del: st_simps(3,4) simp: st_bind_Inr_iff)
  have u: "same_rows p p1" "hs_Version st' = ss_Version ss" "hashes (patch_expand c) (hs_Hash st') (apply_mutations es Map.empty)"
    using updateHash_hashes [OF snapshot_finds_previous [OF assms(3) es_def] _ same_rows_refl assms(1) _ 1] assms(2)
    by (auto simp: in_sync_def)
  have "same_rows p1 p2" using 2 validateSnapshotMAC_rows same_rows_refl by (auto simp: res_elims split: if_splits)
  then have v: "same_rows p p2" using u(1) same_rows_trans by blast
  have d: "same_rows p2 p3" "out_view Map.empty out = apply_mutations es Map.empty"
    using decodeMutations_rows [OF 3, of Map.empty] by simp_all
  show ?thesis
    using storeMACs_rows [OF 4] u v d assms(2) finite_apply_mutations [of Map.empty es]
    by (auto simp: in_sync_def others_kept_def same_rows_def es_def [symmetric])
qed

lemma DecodePatches_in_sync:
  assumes "\<And>x. length (patch_expand c x) = 128" and "in_sync c p (pl_Name pl) st coll"
    and "case pl_Snapshot pl of None \<Rightarrow> True | Some ss \<Rightarrow> coll = Map.empty \<and> distinct (map rec_Index (ss_Records ss))"
    and "DecodePatches c S pl st val p = (Inr (ms', st'), p')"
  shows "in_sync c p' (pl_Name pl) st' (apply_mutations
      ((case pl_Snapshot pl of None \<Rightarrow> [] | Some ss \<Rightarrow> map (\<lambda>r. \<lparr>mut_Operation = SET, mut_Record = r\<rparr>) (ss_Records ss))
        @ concat (map sp_Mutations (pl_Patches pl))) coll) \<and>
    others_kept (pl_Name pl) p p'"
proof (cases "pl_Snapshot pl")
  case None
  then show ?thesis
    using decode_patches_in_sync [OF assms(1,2)] assms(4) by (auto simp: DecodePatches_def res_elims)
next
  case (Some ss)
  then obtain ms1 st1 p1 where 1: "decodeSnapshot c S (pl_Name pl) ss st val [] p = (Inr (ms1, st1), p1)"
      "decode_patches c S (pl_Name pl) val (pl_Patches pl) (ms1, st1) p1 = (Inr (ms', st'), p')"
    using assms(4) by (auto simp: DecodePatches_def res_elims)
  have "in_sync c p1 (pl_Name pl) st1 (apply_mutations (map (\<lambda>r. \<lparr>mut_Operation = SET, mut_Record = r\<rparr>) (ss_Records ss)) coll)"
      "others_kept (pl_Name pl) p p1"
    using decodeSnapshot_in_sync [OF assms(1) _ _ 1(1)] assms(2,3) Some by auto
  then show ?thesis
    using decode_patches_in_sync [OF assms(1) _ 1(2)] Some by (fastforce simp: others_kept_def)
qed

end

end
