(* ===== verification/App_State_Roundtrip.thy ===== *)
theory App_State_Roundtrip
  imports App_State_Sync
begin

text \<open>
  The properties of app state synchronisation over the SQL store: the hash and the stored MACs
  describe the collection, a patch that one device encodes is accepted and read back by every
  other device in the same state, and what an interrupted store leaves behind.
\<close>

section \<open>Collections stay in sync\<close>

definition decoded_collection :: "PatchList \<Rightarrow> (bytes \<rightharpoonup> bytes) \<Rightarrow> bytes \<rightharpoonup> bytes" where
  "decoded_collection pl coll = apply_mutations
     ((case pl_Snapshot pl of None \<Rightarrow> [] | Some ss \<Rightarrow> map (\<lambda>r. \<lparr>mut_Operation = SET, mut_Record = r\<rparr>) (ss_Records ss))
       @ concat (map sp_Mutations (pl_Patches pl))) coll"

text \<open>
  C2: Decoding refines the abstract collection. If the stored MACs of a collection are those of a map
  from index MACs to value MACs and the hash is the sum over that map, then after a successful
  \<open>DecodePatches\<close> they are those of the map that results from applying the snapshot and all mutations
  in order, whatever the mutations: records set twice, removed and set again, or removed without
  having been set. The other collections keep their rows. A snapshot must name each record once.
\<close>

theorem app_state_refines_collection:
  assumes "\<And>x. length (patch_expand c x) = 128"
    and "sql_macs (Store p) (pl_Name pl) = coll" and "finite (dom coll)"
    and "sql_state (Store p) (pl_Name pl) = (hs_Version st, hs_Hash st)" and "hashes (patch_expand c) (hs_Hash st) coll"
    and "case pl_Snapshot pl of None \<Rightarrow> True | Some ss \<Rightarrow> coll = Map.empty \<and> distinct (map rec_Index (ss_Records ss))"
    and "DecodePatches c sql_store pl st val p = (Inr (ms, st'), p')"
  shows "sql_macs (Store p') (pl_Name pl) = decoded_collection pl coll \<and>
    hashes (patch_expand c) (hs_Hash st') (decoded_collection pl coll) \<and>
    sql_state (Store p') (pl_Name pl) = (hs_Version st', hs_Hash st') \<and>
    (\<forall>n. n \<noteq> pl_Name pl \<longrightarrow> sql_macs (Store p') n = sql_macs (Store p) n \<and> sql_state (Store p') n = sql_state (Store p) n)"
proof -
  have "sql.in_sync c p (pl_Name pl) st coll"
    using assms(2-5) by (simp add: sql.in_sync_def)
  from sql.DecodePatches_in_sync [OF assms(1) this assms(6,7)] show ?thesis
    by (auto simp: sql.in_sync_def sql.others_kept_def decoded_collection_def)
qed

section \<open>Reading without faults\<close>

definition healthy :: "'v primitives \<Rightarrow> SQLStore Processor \<Rightarrow> bool" where
  "healthy c p \<longleftrightarrow> faults (Store p) = [] \<and>
     (\<forall>k keys. keyCache p k = Some keys \<longrightarrow> (\<exists>kd. sql_keys (Store p) k = Some kd \<and> keys = expandAppStateKeys c (ask_Data kd)))"

lemma statement_healthy: "faults d = [] \<Longrightarrow> statement f d = f d"
  by (simp add: statement_def)

lemma getAppStateKey_healthy:
  assumes "healthy c p" and "sql_keys (Store p) k = Some kd"
  shows "\<exists>p'. getAppStateKey c sql_store k p = (Inr (expandAppStateKeys c (ask_Data kd)), p') \<and> Store p' = Store p \<and> healthy c p'"
proof (cases "keyCache p k")
  case None
  have "in_store (GetAppStateSyncKey sql_store k) p = (Inr (Some kd), p)"
    using assms by (simp add: in_store_def sql_store_def sql_GetAppStateSyncKey_def statement_healthy healthy_def sql_keys_def)
  then show ?thesis
    using None assms by (auto simp: getAppStateKey_def st_bind_run Let_def healthy_def)
next
  case (Some keys)
  then show ?thesis using assms by (fastforce simp: getAppStateKey_def healthy_def)
qed

lemma getAppStateKey_is:
  assumes "healthy c p" and "getAppStateKey c sql_store k p = (Inr keys, p')"
  shows "\<exists>kd. sql_keys (Store p) k = Some kd \<and> keys = expandAppStateKeys c (ask_Data kd) \<and> Store p' = Store p"
proof (cases "keyCache p k")
  case None
  have "in_store (GetAppStateSyncKey sql_store k) p = (Inr (sql_keys (Store p) k), p)"
    using assms by (simp add: in_store_def sql_store_def sql_GetAppStateSyncKey_def statement_healthy healthy_def sql_keys_def)
  then show ?thesis
    using None assms(2) by (auto simp: getAppStateKey_def st_bind_run Let_def split: option.splits)
next
  case (Some keys)
  then show ?thesis using assms by (auto simp: getAppStateKey_def healthy_def)
qed

lemma update_scan_total:
  assumes "\<And>idx i. i < N \<Longrightarrow> \<exists>r. getPrev idx i s = (Inr r, s)"
    and "list_all (\<lambda>m. mac_suffix (rec_Value (mut_Record m)) \<noteq> None) ms" and "i + length ms \<le> N"
  shows "\<exists>x. update_scan getPrev i ms added removed warn s = (Inr x, s)"
  using assms(2,3)
proof (induction ms arbitrary: i added removed warn)
  case (Cons m ms)
  obtain r where "getPrev (rec_Index (mut_Record m)) i s = (Inr r, s)" using assms(1) [of i] Cons.prems(2) by fastforce
  then show ?case using Cons by (cases r) (auto simp: Let_def st_bind_run)
qed simp

lemma updateHash_total:
  assumes "\<And>idx i. i < length ms \<Longrightarrow> \<exists>r. getPrev idx i s = (Inr r, s)"
    and "list_all (\<lambda>m. mac_suffix (rec_Value (mut_Record m)) \<noteq> None) ms"
    and "\<And>x. length (patch_expand c x) = 128" and "length (hs_Hash hs) = 128"
  shows "\<exists>w hs'. updateHash c hs ms getPrev s = (Inr (w, hs'), s)"
proof -
  obtain a r w where u: "update_scan getPrev 0 ms [] [] [] s = (Inr (a, r, w), s)"
    using update_scan_total [of "length ms" getPrev s ms 0 "[]" "[]" "[]"] assms(1,2) by auto
  obtain h where "SubtractThenAddInPlace (patch_expand c) (hs_Hash hs) r a = Some h"
    using SubtractThenAdd_total [of "patch_expand c" "hs_Hash hs" r a] assms(3,4) by auto
  then show ?thesis using u by (auto simp: updateHash_def st_bind_run)
qed

lemma lookup_healthy:
  "faults (Store p) = [] \<Longrightarrow>
    in_store (GetAppStateMutationMAC sql_store name i) p = (Inr (sql_macs (Store p) name i), p)"
  by (simp add: in_store_def sql_store_def sql_GetAppStateMutationMAC_def statement_healthy sql_macs_def)

lemma prev_in_patch_healthy:
  assumes "faults (Store p) = []" and "list_all (\<lambda>m. mac_suffix (rec_Value (mut_Record m)) \<noteq> None) ms" and "i \<le> length ms"
  shows "\<exists>r. prev_in_patch ms idx i (in_store (GetAppStateMutationMAC sql_store name idx)) p = (Inr r, p)"
  using assms(3)
proof (induction i)
  case (Suc i)
  then have "mac_suffix (rec_Value (mut_Record (ms ! i))) \<noteq> None"
    using assms(2) by (auto simp: list_all_length)
  then show ?case using Suc by (auto split: SyncdOperation.splits option.splits)
qed (simp add: lookup_healthy [OF assms(1)])

section \<open>Encoded mutations\<close>

definition encoded ::
  "'v primitives \<Rightarrow> ('v \<Rightarrow> 'v) \<Rightarrow> ExpandedAppStateKeys \<Rightarrow> bytes \<Rightarrow> 'v MutationInfo \<Rightarrow> SyncdMutation \<Rightarrow> bool" where
  "encoded c stamp keys keyID mi m \<longleftrightarrow>
     (\<exists>ec content. mut_Operation m = SET \<and> rec_KeyID (mut_Record m) = Some keyID \<and>
        rec_Index (mut_Record m) = hmac_sha256 c (eak_Index keys) (marshal_index c (mi_Index mi)) \<and>
        rec_Value (mut_Record m) = ec @ generateContentMAC c SET ec keyID (eak_ValueMAC keys) \<and>
        marshal_action c \<lparr>sa_Index = marshal_index c (mi_Index mi), sa_Value = stamp (mi_Value mi), sa_Version = mi_Version mi\<rparr> = Some content \<and>
        16 \<le> length ec \<and> cbc_Decrypt (aes_decrypt c) (eak_ValueEncryption keys) (take 16 ec) (drop 16 ec) = Inr content)"

lemma cbc_Decrypt_Encrypt:
  assumes "\<And>k b. length b = 16 \<Longrightarrow> dec k (enc k b) = b" and "\<And>k b. length (enc k b) = 16"
    and "length iv = 16" and "cbc_Encrypt enc (Some iv) key None p = Inr ec"
  shows "take 16 ec = iv \<and> cbc_Decrypt dec key iv (drop 16 ec) = Inr p \<and> 16 \<le> length ec"
proof -
  have k: "length key \<in> {16, 24, 32}" "length p \<le> 1000000000"
    using assms(4) by (auto simp: cbc_Encrypt_def Let_def split: if_splits)
  let ?c = "fst (cbc_encrypt (enc key) iv (padded p))"
  have ec: "ec = iv @ ?c"
    using cbc_Encrypt_padded(2) [OF k assms(3), of enc] assms(4) by simp
  have "length ?c = length (padded p)"
    using length_cbc_encrypt [of "enc key" "padded p" iv] assms(2) length_padded(1) by simp
  moreover have "fst (cbc_decrypt (dec key) iv ?c) = padded p"
    using cbc_decrypt_encrypt [of "dec key" "enc key" "padded p" iv] assms(1-3) length_padded(1) by simp
  ultimately show ?thesis
    using k assms(3) length_padded(1,2) [of p] by (auto simp: ec cbc_Decrypt_def new_cipher_def unpad_padded)
qed

text \<open>What the cryptographic and serialisation libraries document.\<close>

definition sound_primitives :: "'v primitives \<Rightarrow> bool" where
  "sound_primitives c \<longleftrightarrow>
     (\<forall>k m. length (hmac_sha256 c k m) = 32) \<and> (\<forall>k m. length (hmac_sha512 c k m) = 64) \<and>
     (\<forall>k i n. length (hkdf_sha256 c k i n) = n) \<and>
     (\<forall>k b. length b = 16 \<longrightarrow> aes_decrypt c k (aes_encrypt c k b) = b) \<and> (\<forall>k b. length (aes_encrypt c k b) = 16) \<and>
     (\<forall>a b. marshal_action c a = Some b \<longrightarrow> unmarshal_action c b = Some a)"

lemma encode_mutations_encoded:
  assumes "sound_primitives c" and "\<And>i iv. ivs i = Some iv \<Longrightarrow> length iv = 16"
  shows "encode_mutations c stamp keys keyID ivs i mis = Inr ms \<Longrightarrow> list_all2 (encoded c stamp keys keyID) mis ms"
proof (induction mis arbitrary: i ms)
  case (Cons mi mis)
  then obtain content ec m ms' where
      a: "marshal_action c \<lparr>sa_Index = marshal_index c (mi_Index mi), sa_Value = stamp (mi_Value mi), sa_Version = mi_Version mi\<rparr> = Some content"
    and e: "cbc_Encrypt (aes_encrypt c) (ivs i) (eak_ValueEncryption keys) None content = Inr ec"
    and m: "m = \<lparr>mut_Operation = SET, mut_Record = \<lparr>rec_Index = concatAndHMAC (hmac_sha256 c) (eak_Index keys) [marshal_index c (mi_Index mi)],
        rec_Value = ec @ generateContentMAC c SET ec keyID (eak_ValueMAC keys), rec_KeyID = Some keyID\<rparr>\<rparr>"
    and r: "encode_mutations c stamp keys keyID ivs (Suc i) mis = Inr ms'" and ms: "ms = m # ms'"
    by (auto simp: Let_def res_elims split: option.splits sum.splits)
  obtain iv where iv: "ivs i = Some iv" "length iv = 16"
    using e assms(2) by (cases "ivs i") (auto simp: cbc_Encrypt_def Let_def split: if_splits)
  have "take 16 ec = iv \<and> cbc_Decrypt (aes_decrypt c) (eak_ValueEncryption keys) iv (drop 16 ec) = Inr content \<and> 16 \<le> length ec"
    using cbc_Decrypt_Encrypt [of "aes_decrypt c" "aes_encrypt c" iv _ content ec] e iv assms(1) by (simp add: sound_primitives_def)
  then have "encoded c stamp keys keyID mi m"
    using a unfolding encoded_def m by (intro exI [of _ ec] exI [of _ content]) (simp add: concatAndHMAC_def)
  then show ?case using Cons.IH [OF r] by (simp add: ms)
qed simp

lemma encoded_suffix:
  assumes "sound_primitives c" and "encoded c stamp keys keyID mi m"
  shows "\<exists>vm. mac_suffix (rec_Value (mut_Record m)) = Some vm \<and> length vm = 32"
  using assms by (auto simp: encoded_def mac_suffix_def generateContentMAC_def concatAndHMAC_def sound_primitives_def)

lemma decodeMutation_encoded:
  assumes "sound_primitives c" and "healthy c p" and "sql_keys (Store p) keyID = Some kd"
    and "keys = expandAppStateKeys c (ask_Data kd)" and "encoded c stamp keys keyID mi m"
    and "unmarshal_index c (marshal_index c (mi_Index mi)) = Some (mi_Index mi)"
  shows "\<exists>vm p'. decodeMutation c sql_store m True p =
      (Inr (rec_Index (mut_Record m), vm, mi_Index mi,
        \<lparr>sa_Index = marshal_index c (mi_Index mi), sa_Value = stamp (mi_Value mi), sa_Version = mi_Version mi\<rparr>), p') \<and>
    Store p' = Store p \<and> healthy c p' \<and> length vm = 32"
proof -
  obtain p' where p': "getAppStateKey c sql_store keyID p = (Inr keys, p')" "Store p' = Store p" "healthy c p'"
    using getAppStateKey_healthy [OF assms(2,3)] assms(4) by auto
  obtain ec content where e: "rec_KeyID (mut_Record m) = Some keyID" "mut_Operation m = SET"
      "rec_Index (mut_Record m) = hmac_sha256 c (eak_Index keys) (marshal_index c (mi_Index mi))"
      "rec_Value (mut_Record m) = ec @ generateContentMAC c SET ec keyID (eak_ValueMAC keys)"
      "marshal_action c \<lparr>sa_Index = marshal_index c (mi_Index mi), sa_Value = stamp (mi_Value mi), sa_Version = mi_Version mi\<rparr> = Some content"
      "16 \<le> length ec" "cbc_Decrypt (aes_decrypt c) (eak_ValueEncryption keys) (take 16 ec) (drop 16 ec) = Inr content"
    using assms(5) by (auto simp: encoded_def)
  define vm where "vm = generateContentMAC c SET ec keyID (eak_ValueMAC keys)"
  have l: "length vm = 32"
    using assms(1) by (simp add: vm_def generateContentMAC_def concatAndHMAC_def sound_primitives_def)
  have s: "mac_suffix (rec_Value (mut_Record m)) = Some vm" "take (length (rec_Value (mut_Record m)) - 32) (rec_Value (mut_Record m)) = ec"
    unfolding e(4) vm_def [symmetric] using l by (simp_all add: mac_suffix_def)
  have u: "unmarshal_action c content = Some \<lparr>sa_Index = marshal_index c (mi_Index mi), sa_Value = stamp (mi_Value mi), sa_Version = mi_Version mi\<rparr>"
      "unmarshal_index c (marshal_index c (mi_Index mi)) = Some (mi_Index mi)"
    using assms(1,6) e(5) by (auto simp: sound_primitives_def)
  show ?thesis
    using p' e(6) l
    by (intro exI [of _ vm] exI [of _ p'])
      (simp add: decodeMutation_def Let_def key_of_def e(1,2,3) st_bind_run s e(7) u vm_def [symmetric] concatAndHMAC_def)
qed

lemma decodeMutations_encoded:
  assumes "sound_primitives c" and "keys = expandAppStateKeys c (ask_Data kd)"
    and "list_all2 (encoded c stamp keys keyID) mis ms" and "healthy c p" and "sql_keys (Store p) keyID = Some kd"
    and "list_all (\<lambda>(i, m). length i = 32 \<and> length m = 32) (AddedMACs out)"
    and "list_all (\<lambda>mi. unmarshal_index c (marshal_index c (mi_Index mi)) = Some (mi_Index mi)) mis"
  shows "\<exists>out' p'. decodeMutations c sql_store ms out True v Map.empty p = (Inr out', p') \<and>
    Store p' = Store p \<and> healthy c p' \<and> list_all (\<lambda>(i, m). length i = 32 \<and> length m = 32) (AddedMACs out') \<and>
    map (\<lambda>m. (m_Operation m, m_Index m, m_Action m, m_Version m)) (po_Mutations out') =
      map (\<lambda>m. (m_Operation m, m_Index m, m_Action m, m_Version m)) (po_Mutations out) @
      map (\<lambda>mi. (SET, mi_Index mi, stamp (mi_Value mi), mi_Version mi)) mis"
  using assms(3-7)
proof (induction mis ms arbitrary: p out rule: list_all2_induct)
  case (Cons mi mis m ms)
  obtain vm p1 where 1: "decodeMutation c sql_store m True p = (Inr (rec_Index (mut_Record m), vm, mi_Index mi,
        \<lparr>sa_Index = marshal_index c (mi_Index mi), sa_Value = stamp (mi_Value mi), sa_Version = mi_Version mi\<rparr>), p1)"
      "Store p1 = Store p" "healthy c p1" "length vm = 32"
    using decodeMutation_encoded [OF assms(1) Cons.prems(1,2) assms(2) Cons.hyps(1)] Cons.prems(4) by auto
  have m: "mut_Operation m = SET" "length (rec_Index (mut_Record m)) = 32"
    using Cons.hyps(1) assms(1) by (auto simp: encoded_def sound_primitives_def)
  show ?case
    using Cons.IH [of p1 "(AddMAC (rec_Index (mut_Record m)) vm out)\<lparr>po_Mutations := po_Mutations out @
       [\<lparr>m_KeyID = rec_KeyID (mut_Record m), m_Operation = SET, m_Action = stamp (mi_Value mi), m_Version = mi_Version mi,
         m_Index = mi_Index mi, m_IndexMAC = rec_Index (mut_Record m), m_ValueMAC = vm, m_PatchVersion = v\<rparr>]\<rparr>"]
      1 m Cons.prems
    by (simp add: st_bind_run Let_def record_mac_def AddMAC_def)
qed simp

lemma storeMACs_healthy:
  assumes "faults (Store p) = []" and "\<not> big (hs_Version st)" and "length (hs_Hash st) = 128"
    and "list_all (\<lambda>(i, m). length i = 32 \<and> length m = 32) (AddedMACs out)"
  shows "\<exists>p'. storeMACs sql_store name st out p = (Inr (), p')"
proof -
  obtain d1 where d1: "sql_PutAppStateVersion name (hs_Version st) (hs_Hash st) (Store p) = (Inr (), d1)" "faults d1 = []" "version_rows d1 name \<noteq> None"
    using assms(1-3) by (simp add: sql_PutAppStateVersion_def statement_healthy)
  obtain d2 where d2: "sql_DeleteAppStateMutationMACs name (RemovedMACs out) d1 = (Inr (), d2)" "faults d2 = []" "version_rows d2 name \<noteq> None"
    using d1(2,3) by (cases "RemovedMACs out = []") (simp_all add: sql_DeleteAppStateMutationMACs_def statement_healthy)
  obtain d3 where "sql_PutAppStateMutationMACs name (hs_Version st) (AddedMACs out) d2 = (Inr (), d3)"
    using sql_put_macs_succeeds [OF d2(2) assms(2) d2(3) assms(4)] by blast
  then show ?thesis
    using d1(1) d2(1) by (simp add: storeMACs_def st_bind_def in_store_def sql_store_def)
qed

section \<open>A patch reaches the other devices\<close>

lemma distinct_finds_previous:
  assumes "distinct (map (\<lambda>m. rec_Index (mut_Record m)) ms)" and "faults (Store p) = []"
  shows "finds_previous (\<lambda>p'. p' = p) ms (sql_macs (Store p) name) (\<lambda>idx _. in_store (GetAppStateMutationMAC sql_store name idx))"
proof -
  have "rec_Index (mut_Record (ms ! i)) \<notin> (\<lambda>m. rec_Index (mut_Record m)) ` set (take i ms)" if "i < length ms" for i
    using assms(1) that by (auto simp: distinct_conv_nth in_set_conv_nth)
  then show ?thesis
    by (auto simp: finds_previous_def lookup_healthy [OF assms(2)] apply_mutations_other)
qed

lemma validatePatch_healthy:
  assumes "sound_primitives c" and "healthy c p" and "sql_keys (Store p) keyID = Some kd"
    and "keys = expandAppStateKeys c (ask_Data kd)"
    and "list_all (\<lambda>m. mac_suffix (rec_Value (mut_Record m)) \<noteq> None) (sp_Mutations patch)" and "sp_KeyID patch = Some keyID"
    and "hashes (patch_expand c) (hs_Hash st) (sql_macs (Store p) name)" and "finite (dom (sql_macs (Store p) name))"
    and "hashes (patch_expand c) h' (apply_mutations (sp_Mutations patch) (sql_macs (Store p) name))"
    and "sp_SnapshotMAC patch = generateSnapshotMAC c \<lparr>hs_Version = sp_Version patch, hs_Hash = h'\<rparr> name (eak_SnapshotMAC keys)"
    and "generatePatchMAC c patch name (eak_PatchMAC keys) (sp_Version patch) = Some (sp_PatchMAC patch)"
  shows "\<exists>p'. validatePatch c sql_store name patch st True p = (Inr \<lparr>hs_Version = sp_Version patch, hs_Hash = h'\<rparr>, p') \<and>
    Store p' = Store p \<and> healthy c p'"
proof -
  have pe: "length (patch_expand c x) = 128" for x
    using assms(1) by (simp add: sound_primitives_def patch_expand_def HKDFSize_def)
  have f: "faults (Store p) = []" using assms(2) by (simp add: healthy_def)
  let ?prev = "\<lambda>idx i. prev_in_patch (sp_Mutations patch) idx i (in_store (GetAppStateMutationMAC sql_store name idx))"
  obtain w st' where u: "updateHash c (st\<lparr>hs_Version := sp_Version patch\<rparr>) (sp_Mutations patch) ?prev p = (Inr (w, st'), p)"
    using updateHash_total [of "sp_Mutations patch" ?prev p c "st\<lparr>hs_Version := sp_Version patch\<rparr>"]
      prev_in_patch_healthy [OF f assms(5)] assms(5,7) pe by (auto simp: hashes_def)
  have "hs_Version st' = sp_Version patch" "hashes (patch_expand c) (hs_Hash st') (apply_mutations (sp_Mutations patch) (sql_macs (Store p) name))"
    using updateHash_hashes [OF sql.patch_finds_previous assms(8) sql.same_rows_refl pe _ u] assms(7) by simp_all
  then have st': "st' = \<lparr>hs_Version = sp_Version patch, hs_Hash = h'\<rparr>"
    using hashes_unique [OF _ assms(9)] by simp
  obtain p' where "getAppStateKey c sql_store keyID p = (Inr keys, p')" "Store p' = Store p" "healthy c p'"
    using getAppStateKey_healthy [OF assms(2,3)] assms(4) by auto
  then show ?thesis
    using u unfolding st'
    by (simp add: validatePatch_def st_bind_run validateSnapshotMAC_def assms(6,10,11) key_of_def)
qed

text \<open>
  C28: A patch reaches the other devices. When one device encodes a patch and another device holds the
  same collection in the same state and the same key, the other accepts the patch, with all MACs
  checked, and reads back exactly the mutations that went in: operation, index, stamped action
  and version. The patch must name each record once, its indexes must survive JSON (as valid text
  does), and the receiver's database works.
\<close>

theorem app_state_patch_roundtrip:
  assumes "sound_primitives c" and "\<And>i iv. ivs i = Some iv \<Longrightarrow> length iv = 16"
    and "healthy c pa" and "healthy c pb" and "name = pi_Type info"
    and "sql_macs (Store pa) name = coll" and "sql_macs (Store pb) name = coll" and "finite (dom coll)"
    and "hashes (patch_expand c) (hs_Hash st) coll"
    and "sql_keys (Store pa) keyID = Some kd" and "sql_keys (Store pb) keyID = Some kd"
    and "distinct (map (\<lambda>mi. hmac_sha256 c (eak_Index (expandAppStateKeys c (ask_Data kd))) (marshal_index c (mi_Index mi))) (pi_Mutations info))"
    and "EncodePatch c sql_store stamp now ivs keyID st info pa = (Inr patch, pa')"
    and idx: "list_all (\<lambda>mi. unmarshal_index c (marshal_index c (mi_Index mi)) = Some (mi_Index mi)) (pi_Mutations info)"
    and "\<not> big (hs_Version st + 1)" and "t = (case pi_Timestamp info of None \<Rightarrow> now | Some t \<Rightarrow> t)"
  shows "\<exists>ms st' pb'. DecodePatches c sql_store
      \<lparr>pl_Name = name, pl_HasMorePatches = False, pl_Patches = [patch\<lparr>sp_Version := hs_Version st + 1\<rparr>], pl_Snapshot = None\<rparr> st True pb =
      (Inr (ms, st'), pb') \<and> hs_Version st' = hs_Version st + 1 \<and>
    map (\<lambda>m. (m_Operation m, m_Index m, m_Action m, m_Version m)) ms =
      map (\<lambda>mi. (SET, mi_Index mi, stamp t (mi_Value mi), mi_Version mi)) (pi_Mutations info)"
proof -
  define keys where "keys = expandAppStateKeys c (ask_Data kd)"
  have pe: "length (patch_expand c x) = 128" for x
    using assms(1) by (simp add: sound_primitives_def patch_expand_def HKDFSize_def)
  obtain pa1 where k: "getAppStateKey c sql_store keyID pa = (Inr keys, pa1)" "Store pa1 = Store pa" "healthy c pa1"
    using getAppStateKey_healthy [OF assms(3,10)] by (auto simp: keys_def)
  obtain muts pa2 w st1 mac where
      e: "encode_mutations c (stamp t) keys keyID ivs 0 (pi_Mutations info) = Inr muts"
    and u: "updateHash c st muts (\<lambda>idx _. in_store (GetAppStateMutationMAC sql_store name idx)) pa1 = (Inr (w, st1), pa2)"
    and g: "generatePatchMAC c \<lparr>sp_Version = 0, sp_Mutations = muts,
          sp_SnapshotMAC = generateSnapshotMAC c (st1\<lparr>hs_Version := hs_Version st1 + 1\<rparr>) name (eak_SnapshotMAC keys),
          sp_PatchMAC = [], sp_KeyID = Some keyID, sp_External = None\<rparr> name (eak_PatchMAC keys) (hs_Version st1 + 1) = Some mac"
    and patch: "patch = \<lparr>sp_Version = 0, sp_Mutations = muts,
          sp_SnapshotMAC = generateSnapshotMAC c (st1\<lparr>hs_Version := hs_Version st1 + 1\<rparr>) name (eak_SnapshotMAC keys),
          sp_PatchMAC = mac, sp_KeyID = Some keyID, sp_External = None\<rparr>"
    using assms(13) k(1) unfolding assms(16)
    by (auto simp: EncodePatch_def Let_def res_elims lift_res_def assms(5) split: option.splits sum.splits)
  have enc: "list_all2 (encoded c (stamp t) keys keyID) (pi_Mutations info) muts"
    by (rule encode_mutations_encoded [OF assms(1,2) e])
  then have sfx: "list_all (\<lambda>m. mac_suffix (rec_Value (mut_Record m)) \<noteq> None) muts"
    using encoded_suffix [OF assms(1)] by (auto simp: list_all2_conv_all_nth list_all_length) (metis option.distinct(1))
  have "map (\<lambda>m. rec_Index (mut_Record m)) muts = map (\<lambda>mi. hmac_sha256 c (eak_Index keys) (marshal_index c (mi_Index mi))) (pi_Mutations info)"
    using enc by (auto simp: list_all2_conv_all_nth encoded_def intro!: nth_equalityI)
  then have "distinct (map (\<lambda>m. rec_Index (mut_Record m)) muts)"
    using assms(12) by (simp add: keys_def)
  then have fp: "finds_previous (\<lambda>p'. p' = pa1) muts coll (\<lambda>idx _. in_store (GetAppStateMutationMAC sql_store name idx))"
    using distinct_finds_previous [of muts pa1 name] k assms(6) by (simp add: healthy_def)
  have h1: "hs_Version st1 = hs_Version st" "hashes (patch_expand c) (hs_Hash st1) (apply_mutations muts coll)"
    using updateHash_hashes [OF fp assms(8) refl pe assms(9) u] by simp_all
  define patch' st' where p': "patch' = patch\<lparr>sp_Version := hs_Version st + 1\<rparr>" "st' = \<lparr>hs_Version = hs_Version st + 1, hs_Hash = hs_Hash st1\<rparr>"
  have s1: "st1\<lparr>hs_Version := hs_Version st1 + 1\<rparr> = st'" by (simp add: p'(2) h1(1))
  have f: "sp_Mutations patch' = muts" "sp_KeyID patch' = Some keyID" "sp_Version patch' = hs_Version st + 1"
      "sp_SnapshotMAC patch' = generateSnapshotMAC c st' name (eak_SnapshotMAC keys)"
      "generatePatchMAC c patch' name (eak_PatchMAC keys) (sp_Version patch') = Some (sp_PatchMAC patch')"
    using g unfolding p'(1) patch s1 by (simp_all add: generatePatchMAC_def h1(1))
  obtain pb1 where v: "validatePatch c sql_store name patch' st True pb = (Inr st', pb1)" "Store pb1 = Store pb" "healthy c pb1"
    using validatePatch_healthy [OF assms(1,4,11) keys_def, of patch' st name "hs_Hash st1"] sfx assms(7-9) h1(2) f p'(2) by auto
  obtain out pb2 where d: "decodeMutations c sql_store muts (empty_output []) True (hs_Version st + 1) Map.empty pb1 = (Inr out, pb2)"
      "Store pb2 = Store pb1" "healthy c pb2" "list_all (\<lambda>(i, m). length i = 32 \<and> length m = 32) (AddedMACs out)"
      "map (\<lambda>m. (m_Operation m, m_Index m, m_Action m, m_Version m)) (po_Mutations out) =
        map (\<lambda>mi. (SET, mi_Index mi, stamp t (mi_Value mi), mi_Version mi)) (pi_Mutations info)"
    using decodeMutations_encoded [OF assms(1) keys_def enc v(3), of "empty_output []" "hs_Version st + 1"] v(2) assms(11) idx
    by (auto simp: empty_output_def)
  obtain pb3 where "storeMACs sql_store name st' out pb2 = (Inr (), pb3)"
    using storeMACs_healthy [of pb2 st' out name] d(3,4) assms(15) h1(2) by (auto simp: healthy_def hashes_def p'(2))
  then have "decode_patches c sql_store name True [patch'] ([], st) pb = (Inr (po_Mutations out, st'), pb3)"
    using v(1) d(1) by (simp add: decode_patch_def st_bind_run p'(1) p'(2) patch)
  then show ?thesis
    using d(5) by (intro exI [of _ "po_Mutations out"] exI [of _ st'] exI [of _ pb3]) (simp add: DecodePatches_def p')
qed

section \<open>Encoding succeeds\<close>

lemma encode_mutations_total:
  assumes "sound_primitives c" and "length (eak_ValueEncryption keys) = 32" and "\<And>i. \<exists>iv. ivs i = Some iv \<and> length iv = 16"
    and "list_all (\<lambda>mi. \<exists>content. length content \<le> 1000000000 \<and> marshal_action c
      \<lparr>sa_Index = marshal_index c (mi_Index mi), sa_Value = stamp (mi_Value mi), sa_Version = mi_Version mi\<rparr> = Some content) mis"
  shows "\<exists>ms. encode_mutations c stamp keys keyID ivs i mis = Inr ms"
  using assms(4)
proof (induction mis arbitrary: i)
  case (Cons mi mis)
  obtain content where content: "length content \<le> 1000000000" "marshal_action c
      \<lparr>sa_Index = marshal_index c (mi_Index mi), sa_Value = stamp (mi_Value mi), sa_Version = mi_Version mi\<rparr> = Some content"
    using Cons.prems by auto
  obtain iv where "ivs i = Some iv" "length iv = 16" using assms(3) by blast
  then obtain ec where "cbc_Encrypt (aes_encrypt c) (ivs i) (eak_ValueEncryption keys) None content = Inr ec"
    using cbc_Encrypt_padded(2) [of "eak_ValueEncryption keys" content iv] assms(2) content(1) by simp
  moreover obtain rest where "encode_mutations c stamp keys keyID ivs (Suc i) mis = Inr rest" using Cons by auto
  ultimately show ?case using content(2) by (simp add: Let_def)
qed simp

lemma EncodePatch_total:
  assumes "sound_primitives c" and "\<And>i. \<exists>iv. ivs i = Some iv \<and> length iv = 16" and "healthy c p"
    and "sql_keys (Store p) keyID = Some kd" and "length (hs_Hash st) = 128"
    and "list_all (\<lambda>mi. \<exists>content. length content \<le> 1000000000 \<and> marshal_action c
      \<lparr>sa_Index = marshal_index c (mi_Index mi), sa_Value = stamp (case pi_Timestamp info of None \<Rightarrow> now | Some t \<Rightarrow> t) (mi_Value mi),
       sa_Version = mi_Version mi\<rparr> = Some content) (pi_Mutations info)"
  shows "\<exists>patch p'. EncodePatch c sql_store stamp now ivs keyID st info p = (Inr patch, p')"
proof -
  define keys where "keys = expandAppStateKeys c (ask_Data kd)"
  have pe: "length (patch_expand c x) = 128" for x
    using assms(1) by (simp add: sound_primitives_def patch_expand_def HKDFSize_def)
  obtain p1 where k: "getAppStateKey c sql_store keyID p = (Inr keys, p1)" "healthy c p1"
    using getAppStateKey_healthy [OF assms(3,4)] by (auto simp: keys_def)
  have "length (eak_ValueEncryption keys) = 32"
    using assms(1) by (simp add: keys_def expandAppStateKeys_def sound_primitives_def Let_def)
  then obtain ms where e: "encode_mutations c (stamp (case pi_Timestamp info of None \<Rightarrow> now | Some t \<Rightarrow> t)) keys keyID ivs 0 (pi_Mutations info) = Inr ms"
    using encode_mutations_total [of c keys ivs, OF assms(1) _ assms(2,6)] by blast
  have "list_all2 (encoded c (stamp (case pi_Timestamp info of None \<Rightarrow> now | Some t \<Rightarrow> t)) keys keyID) (pi_Mutations info) ms"
    using assms(2) by (intro encode_mutations_encoded [OF assms(1) _ e]) (metis option.inject)
  then have sfx: "list_all (\<lambda>m. mac_suffix (rec_Value (mut_Record m)) \<noteq> None) ms"
    using encoded_suffix [OF assms(1)] by (auto simp: list_all2_conv_all_nth list_all_length) (metis option.distinct(1))
  then obtain vs where vs: "those (map (\<lambda>m. mac_suffix (rec_Value (mut_Record m))) ms) = Some vs"
    by (induction ms) auto
  obtain w st1 where "updateHash c st ms (\<lambda>idx _. in_store (GetAppStateMutationMAC sql_store (pi_Type info) idx)) p1 = (Inr (w, st1), p1)"
    using updateHash_total [of ms "\<lambda>idx _. in_store (GetAppStateMutationMAC sql_store (pi_Type info) idx)" p1 c st] lookup_healthy k(2) sfx pe assms(5)
    by (auto simp: healthy_def)
  then show ?thesis
    using k(1) e vs by (simp add: EncodePatch_def st_bind_run Let_def lift_res_def generatePatchMAC_def)
qed

section \<open>Witnesses\<close>

definition toy_primitives :: "unit primitives" where
  "toy_primitives =
     \<lparr>hmac_sha256 = (\<lambda>k m. take 32 (m @ replicate 32 0)), hmac_sha512 = (\<lambda>k m. take 64 (m @ replicate 64 0)),
      hkdf_sha256 = (\<lambda>k i n. take n (k @ replicate n 0)), aes_encrypt = toy_block, aes_decrypt = toy_block,
      unmarshal_action = (\<lambda>b. Some \<lparr>sa_Index = b, sa_Value = (), sa_Version = 0\<rparr>),
      marshal_action = (\<lambda>a. if sa_Version a = 0 then Some (sa_Index a) else None),
      unmarshal_index = (\<lambda>b. Some [bytes_str b]), marshal_index = (\<lambda>i. str_bytes (concat i))\<rparr>"

lemma toy_sound: "sound_primitives toy_primitives"
  by (auto simp: sound_primitives_def toy_primitives_def split: if_splits)

lemma toy_expand: "length (patch_expand toy_primitives x) = 128"
  by (simp add: patch_expand_def toy_primitives_def HKDFSize_def)

definition toy_processor :: "SQLStore Processor" where
  "toy_processor = NewProcessor \<lparr>version_rows = Map.empty, mac_rows = Map.empty,
     key_rows = [([7], \<lparr>ask_Data = [1, 2], ask_Fingerprint = [], ask_Timestamp = 0\<rparr>)], postgres = True, faults = []\<rparr>"

definition toy_info :: "unit PatchInfo" where
  "toy_info = \<lparr>pi_Timestamp = None, pi_Type = ''regular_high'',
     pi_Mutations = [\<lparr>mi_Index = [''mute''], mi_Version = 0, mi_Value = ()\<rparr>]\<rparr>"

lemma toy_processor_healthy: "healthy toy_primitives toy_processor"
  by (simp add: healthy_def toy_processor_def NewProcessor_def)

definition toy_state :: HashState where
  "toy_state = \<lparr>hs_Version = 0, hs_Hash = replicate 128 0\<rparr>"

theorem app_state_patch_roundtrip_witness:
  "\<exists>patch pa' ms st' pb'.
    EncodePatch toy_primitives sql_store (\<lambda>_ v. v) 0 (\<lambda>_. Some (replicate 16 3)) [7] toy_state toy_info toy_processor = (Inr patch, pa') \<and>
    DecodePatches toy_primitives sql_store
      \<lparr>pl_Name = ''regular_high'', pl_HasMorePatches = False, pl_Patches = [patch\<lparr>sp_Version := 1\<rparr>], pl_Snapshot = None\<rparr>
      toy_state True toy_processor = (Inr (ms, st'), pb') \<and> hs_Version st' = 1 \<and>
    map (\<lambda>m. (m_Operation m, m_Index m, m_Action m, m_Version m)) ms = [(SET, [''mute''], (), 0)]"
proof -
  let ?kd = "\<lparr>ask_Data = [1, 2], ask_Fingerprint = [], ask_Timestamp = 0\<rparr>"
  have key: "sql_keys (Store toy_processor) [7] = Some ?kd"
    by (simp add: sql_keys_def toy_processor_def NewProcessor_def)
  have rows: "sql_macs (Store toy_processor) ''regular_high'' = Map.empty"
    by (simp add: sql_macs_def fun_eq_iff toy_processor_def NewProcessor_def)
  obtain patch pa' where e: "EncodePatch toy_primitives sql_store (\<lambda>_ v. v) 0 (\<lambda>_. Some (replicate 16 3)) [7] toy_state toy_info toy_processor = (Inr patch, pa')"
    using EncodePatch_total [OF toy_sound _ toy_processor_healthy key, of "\<lambda>_. Some (replicate 16 3)" toy_state "\<lambda>_ v. v" 0 toy_info]
    by (auto simp: toy_state_def toy_info_def) (auto simp: toy_primitives_def)
  from app_state_patch_roundtrip [OF toy_sound _ toy_processor_healthy toy_processor_healthy _ rows rows _ _ key key _ e] e
  show ?thesis
    by (auto simp: toy_info_def toy_state_def hashes_empty big_def toy_primitives_def)
qed

theorem app_state_refines_collection_witness:
  "\<exists>ms st' p'. DecodePatches toy_primitives sql_store
      \<lparr>pl_Name = ''regular'', pl_HasMorePatches = False,
       pl_Patches = [\<lparr>sp_Version = 4, sp_Mutations = [], sp_SnapshotMAC = [], sp_PatchMAC = [], sp_KeyID = None, sp_External = None\<rparr>],
       pl_Snapshot = None\<rparr> toy_state False toy_processor = (Inr (ms, st'), p') \<and>
    sql_macs (Store p') ''regular'' = Map.empty \<and> sql_state (Store p') ''regular'' = (4, replicate 128 0)"
proof -
  let ?pl = "\<lparr>pl_Name = ''regular'', pl_HasMorePatches = False,
       pl_Patches = [\<lparr>sp_Version = 4, sp_Mutations = [], sp_SnapshotMAC = [], sp_PatchMAC = [], sp_KeyID = None, sp_External = None\<rparr>],
       pl_Snapshot = None\<rparr>"
  have rows: "sql_macs (Store toy_processor) ''regular'' = Map.empty" "sql_state (Store toy_processor) ''regular'' = (0, replicate 128 0)"
    by (simp_all add: sql_macs_def sql_state_def fun_eq_iff toy_processor_def NewProcessor_def)
  obtain p' where p': "storeMACs sql_store ''regular'' \<lparr>hs_Version = 4, hs_Hash = replicate 128 0\<rparr> (empty_output ([] :: unit Mutation list)) toy_processor = (Inr (), p')"
    using storeMACs_healthy [of toy_processor "\<lparr>hs_Version = 4, hs_Hash = replicate 128 0\<rparr>" "empty_output []" "''regular''"]
    by (auto simp: toy_processor_def NewProcessor_def big_def empty_output_def)
  have d: "DecodePatches toy_primitives sql_store ?pl toy_state False toy_processor = (Inr ([], \<lparr>hs_Version = 4, hs_Hash = replicate 128 0\<rparr>), p')"
    using p' by (simp add: DecodePatches_def decode_patch_def validatePatch_def updateHash_def SubtractThenAddInPlace_def toy_state_def
        st_bind_def empty_output_def)
  from app_state_refines_collection [OF toy_expand _ _ _ _ _ d, of Map.empty] rows d show ?thesis
    by (auto simp: toy_state_def hashes_empty decoded_collection_def)
qed

section \<open>An interrupted store\<close>

text \<open>
  C29: The rows of a patch are not written atomically. If the database fails the statement after the
  one that saves version and hash, \<open>storeMACs\<close> reports the error, but the new version and hash stay
  while the MACs are still the old ones: the saved hash is no longer the hash of the saved MACs, so
  the next patch, which starts from them, cannot verify.
\<close>

theorem interrupted_store_out_of_sync:
  assumes "faults (Store p) = [False, True]" and "\<not> big (hs_Version st)" and "RemovedMACs out \<noteq> []"
    and "hashes e (hs_Hash st) coll" and "\<exists>i < 64. collection_sum e coll i \<noteq> collection_sum e (sql_macs (Store p) name) i"
  shows "\<exists>p'. storeMACs sql_store name st out p = (Inl ErrDatabase, p') \<and>
    sql_state (Store p') name = (hs_Version st, hs_Hash st) \<and> sql_macs (Store p') name = sql_macs (Store p) name \<and>
    \<not> hashes e (snd (sql_state (Store p') name)) (sql_macs (Store p') name)"
proof -
  let ?d = "(Store p)\<lparr>version_rows := (version_rows (Store p))(name \<mapsto> (hs_Version st, hs_Hash st)), faults := []\<rparr>"
  have "storeMACs sql_store name st out p = (Inl ErrDatabase, p\<lparr>Store := ?d\<rparr>)"
    using assms(1-4)
    by (simp add: storeMACs_def st_bind_def in_store_def sql_store_def sql_PutAppStateVersion_def statement_def
        sql_DeleteAppStateMutationMACs_def hashes_def)
  moreover have "sql_state ?d name = (hs_Version st, hs_Hash st)" "sql_macs ?d name = sql_macs (Store p) name"
    by (simp_all add: sql_state_def sql_macs_def fun_eq_iff)
  moreover have "\<not> hashes e (hs_Hash st) (sql_macs (Store p) name)"
    using assms(4,5) by (auto simp: hashes_def)
  ultimately show ?thesis by auto
qed

theorem interrupted_store_out_of_sync_witness:
  "\<exists>p'. storeMACs sql_store ''regular'' \<lparr>hs_Version = 4, hs_Hash = replicate 128 0\<rparr> \<lparr>RemovedMACs = [[1]], AddedMACs = [], po_Mutations = ([] :: unit Mutation list)\<rparr>
      (NewProcessor \<lparr>version_rows = Map.empty, mac_rows = [(''regular'', [1]) \<mapsto> (3, [9])], key_rows = [], postgres = True, faults = [False, True]\<rparr>)
      = (Inl ErrDatabase, p') \<and>
    \<not> hashes (\<lambda>_. replicate 128 1) (snd (sql_state (Store p') ''regular'')) (sql_macs (Store p') ''regular'')"
proof -
  let ?p = "NewProcessor \<lparr>version_rows = Map.empty, mac_rows = [(''regular'', [1]) \<mapsto> (3, [9])], key_rows = [], postgres = True, faults = [False, True]\<rparr>"
  let ?e = "\<lambda>_ :: bytes. replicate 128 (1 :: u8)"
  have rows: "sql_macs (Store ?p) ''regular'' = [[1] \<mapsto> [9]]"
    by (auto simp: sql_macs_def NewProcessor_def fun_eq_iff)
  have "coord (replicate 128 1) 0 = 257"
    by (simp add: coord_def le16_def be16_def)
  then have "\<exists>i < 64. collection_sum ?e Map.empty i \<noteq> collection_sum ?e (sql_macs (Store ?p) ''regular'') i"
    unfolding rows by (intro exI [of _ 0]) (simp add: collection_sum_def)
  from interrupted_store_out_of_sync [of ?p "\<lparr>hs_Version = 4, hs_Hash = replicate 128 0\<rparr>"
      "\<lparr>RemovedMACs = [[1]], AddedMACs = [], po_Mutations = ([] :: unit Mutation list)\<rparr>" ?e Map.empty "''regular''", OF _ _ _ _ this]
  show ?thesis by (auto simp: NewProcessor_def big_def hashes_empty)
qed

end
