(* ===== verification/App_State_Events.thy ===== *)
theory App_State_Events
  imports App_State
begin

text \<open>
  Producers and consumers of app state mutations: the patch builders of \<open>lib/appstate/encode.go\<close> and
  the dispatching of received mutations in \<open>lib/appstate.go\<close>. A protobuf message is a record with an
  option for every optional field that the code uses; its getters return the zero value for an
  absent field. Times are milliseconds; the zero time of \<open>PutMutedUntil\<close> and \<open>MutedForever\<close> are
  constructors. An index out of range is a panic, \<^const>\<open>None\<close>.
\<close>

section \<open>Index names and collections\<close>

definition WAPatchCriticalBlock :: string where "WAPatchCriticalBlock = ''critical_block''"
definition WAPatchCriticalUnblockLow :: string where "WAPatchCriticalUnblockLow = ''critical_unblock_low''"
definition WAPatchRegularLow :: string where "WAPatchRegularLow = ''regular_low''"
definition WAPatchRegularHigh :: string where "WAPatchRegularHigh = ''regular_high''"
definition WAPatchRegular :: string where "WAPatchRegular = ''regular''"

definition AllPatchNames :: "string list" where
  "AllPatchNames = [WAPatchCriticalBlock, WAPatchCriticalUnblockLow, WAPatchRegularHigh, WAPatchRegular, WAPatchRegularLow]"

definition IndexPin :: string where "IndexPin = ''pin_v1''"
definition IndexArchive :: string where "IndexArchive = ''archive''"
definition IndexMarkChatAsRead :: string where "IndexMarkChatAsRead = ''markChatAsRead''"
definition IndexSettingUnarchiveChats :: string where "IndexSettingUnarchiveChats = ''setting_unarchiveChats''"
definition IndexQuickReply :: string where "IndexQuickReply = ''quick_reply''"
definition IndexLabelAssociationMessage :: string where "IndexLabelAssociationMessage = ''label_message''"
definition IndexLabelEdit :: string where "IndexLabelEdit = ''label_edit''"
definition IndexLabelAssociationChat :: string where "IndexLabelAssociationChat = ''label_jid''"
definition IndexStar :: string where "IndexStar = ''star''"
definition IndexMute :: string where "IndexMute = ''mute''"
definition IndexDeleteMessageForMe :: string where "IndexDeleteMessageForMe = ''deleteMessageForMe''"
definition IndexClearChat :: string where "IndexClearChat = ''clearChat''"
definition IndexDeleteChat :: string where "IndexDeleteChat = ''deleteChat''"
definition IndexUserStatusMute :: string where "IndexUserStatusMute = ''userStatusMute''"
definition IndexNCTSaltSync :: string where "IndexNCTSaltSync = ''nct_salt_sync''"
definition IndexWasaRootSecretAction :: string where "IndexWasaRootSecretAction = ''wasa_root_secret''"
definition IndexContact :: string where "IndexContact = ''contact''"
definition IndexLIDContact :: string where "IndexLIDContact = ''lid_contact''"
definition IndexSettingPushName :: string where "IndexSettingPushName = ''setting_pushName''"

lemmas index_defs =
  IndexPin_def IndexArchive_def IndexMarkChatAsRead_def IndexSettingUnarchiveChats_def IndexQuickReply_def
  IndexLabelAssociationMessage_def IndexLabelEdit_def IndexLabelAssociationChat_def IndexStar_def IndexMute_def
  IndexDeleteMessageForMe_def IndexClearChat_def IndexDeleteChat_def IndexUserStatusMute_def IndexNCTSaltSync_def
  IndexWasaRootSecretAction_def IndexContact_def IndexLIDContact_def IndexSettingPushName_def

section \<open>Actions\<close>

type_synonym message_key = string

record SyncActionMessageRange =
  LastMessageTimestamp :: int
  RangeMessages :: "(message_key \<times> int) list"

record MuteAction =
  Muted :: "bool option"
  MuteEndTimestamp :: "int option"

record ChatRangeAction =
  ActionFlag :: "bool option"
  MessageRange :: "SyncActionMessageRange option"

record LabelEditAction =
  LabelName :: "string option"
  LabelColor :: "int option"
  LabelDeleted :: "bool option"

record QuickReplyAction =
  Shortcut :: "string option"
  QRMessage :: "string option"
  Keywords :: "string list"
  QRCount :: "int option"
  QRDeleted :: "bool option"
  AssociatedLabelIDs :: "string list"

record ContactAction =
  FirstName :: "string option"
  FullName :: "string option"
  Username :: "string option"

text \<open>
  \<open>ChatRangeAction\<close> stands for the messages of a flag and a message range (archive, mark as read,
  and with no flag, delete and clear); \<open>Flag\<close> actions have one optional flag (pin, star, label
  association); actions that the code only passes on are opaque strings.
\<close>

record SyncActionValue =
  sav_Timestamp :: "int option"
  sav_MuteAction :: "MuteAction option"
  sav_PinAction :: "bool option option"
  sav_ArchiveChatAction :: "ChatRangeAction option"
  sav_MarkChatAsReadAction :: "ChatRangeAction option"
  sav_LabelAssociationAction :: "bool option option"
  sav_LabelEditAction :: "LabelEditAction option"
  sav_QuickReplyAction :: "QuickReplyAction option"
  sav_PushNameSetting :: "string option option"
  sav_StarAction :: "bool option option"
  sav_DeleteChatAction :: "ChatRangeAction option"
  sav_ClearChatAction :: "ChatRangeAction option"
  sav_ContactAction :: "ContactAction option"
  sav_LidContactAction :: "ContactAction option"
  sav_DeleteMessageForMeAction :: "string option"
  sav_UnarchiveChatsSetting :: "string option"
  sav_UserStatusMuteAction :: "string option"
  sav_NctSalt :: bytes
  sav_RootSecrets :: "(string \<times> bytes) list"

definition no_action :: SyncActionValue where
  "no_action = \<lparr>sav_Timestamp = None, sav_MuteAction = None, sav_PinAction = None, sav_ArchiveChatAction = None,
     sav_MarkChatAsReadAction = None, sav_LabelAssociationAction = None, sav_LabelEditAction = None,
     sav_QuickReplyAction = None, sav_PushNameSetting = None, sav_StarAction = None, sav_DeleteChatAction = None,
     sav_ClearChatAction = None, sav_ContactAction = None, sav_LidContactAction = None,
     sav_DeleteMessageForMeAction = None, sav_UnarchiveChatsSetting = None, sav_UserStatusMuteAction = None,
     sav_NctSalt = [], sav_RootSecrets = []\<rparr>"

definition get_or :: "'a \<Rightarrow> 'a option \<Rightarrow> 'a" where
  "get_or d x = (case x of None \<Rightarrow> d | Some v \<Rightarrow> v)"

section \<open>Builders\<close>

type_synonym patch_info = "SyncActionValue PatchInfo"
type_synonym mutation_info = "SyncActionValue MutationInfo"

definition patch_of :: "string \<Rightarrow> mutation_info list \<Rightarrow> patch_info" where
  "patch_of type ms = \<lparr>pi_Timestamp = None, pi_Type = type, pi_Mutations = ms\<rparr>"








definition newLabelChatMutation :: "JID \<Rightarrow> string \<Rightarrow> bool \<Rightarrow> mutation_info" where
  "newLabelChatMutation target labelID labeled =
     \<lparr>mi_Index = [IndexLabelAssociationChat, labelID, JID_String target], mi_Version = 3,
      mi_Value = no_action\<lparr>sav_LabelAssociationAction := Some (Some labeled)\<rparr>\<rparr>"


fun label_changes_loop ::
  "JID \<Rightarrow> (string \<times> bool) list \<Rightarrow> (string \<rightharpoonup> nat) \<Rightarrow> mutation_info list \<Rightarrow> mutation_info list" where
  "label_changes_loop target [] mutationIndexes mutations = mutations"
| "label_changes_loop target ((labelID, labeled) # changes) mutationIndexes mutations =
     (let mutation = newLabelChatMutation target labelID labeled
      in case mutationIndexes labelID of
           Some i \<Rightarrow> label_changes_loop target changes mutationIndexes (mutations[i := mutation])
         | None \<Rightarrow> label_changes_loop target changes (mutationIndexes(labelID \<mapsto> length mutations)) (mutations @ [mutation]))"

definition BuildLabelChatChanges :: "JID \<Rightarrow> (string \<times> bool) list \<Rightarrow> patch_info" where
  "BuildLabelChatChanges target changes = patch_of WAPatchRegular (label_changes_loop target changes Map.empty [])"



definition newLabelEditMutation :: "string \<Rightarrow> string \<Rightarrow> int \<Rightarrow> bool \<Rightarrow> mutation_info" where
  "newLabelEditMutation labelID labelName labelColor deleted =
     \<lparr>mi_Index = [IndexLabelEdit, labelID], mi_Version = 3,
      mi_Value = no_action\<lparr>sav_LabelEditAction :=
        Some \<lparr>LabelName = Some labelName, LabelColor = Some labelColor, LabelDeleted = Some deleted\<rparr>\<rparr>\<rparr>"

definition BuildLabelEdit :: "string \<Rightarrow> string \<Rightarrow> int \<Rightarrow> bool \<Rightarrow> patch_info" where
  "BuildLabelEdit labelID labelName labelColor deleted =
     patch_of WAPatchRegular [newLabelEditMutation labelID labelName labelColor deleted]"

definition newQuickReplyMutation ::
  "string \<Rightarrow> string \<Rightarrow> string \<Rightarrow> string list \<Rightarrow> int \<Rightarrow> bool \<Rightarrow> string list \<Rightarrow> mutation_info" where
  "newQuickReplyMutation qid shortcut message keywords count deleted associatedLabelIDs =
     \<lparr>mi_Index = [IndexQuickReply, qid], mi_Version = 2,
      mi_Value = no_action\<lparr>sav_QuickReplyAction := Some \<lparr>Shortcut = Some shortcut, QRMessage = Some message,
        Keywords = keywords, QRCount = Some count, QRDeleted = Some deleted, AssociatedLabelIDs = associatedLabelIDs\<rparr>\<rparr>\<rparr>"

definition BuildQuickReply :: "string \<Rightarrow> string \<Rightarrow> string \<Rightarrow> string list \<Rightarrow> int \<Rightarrow> string list \<Rightarrow> patch_info" where
  "BuildQuickReply qid shortcut message keywords count associatedLabelIDs =
     patch_of WAPatchRegular [newQuickReplyMutation qid shortcut message keywords count False associatedLabelIDs]"







section \<open>Events and local stores\<close>

datatype app_event =
  EvAppState "string list" SyncActionValue
| EvMute JID int "MuteAction option" bool
| EvPin JID int "bool option option" bool
| EvArchive JID int "ChatRangeAction option" bool
| EvContact JID int "ContactAction option" bool
| EvLIDContact JID int "ContactAction option" bool
| EvClearChat JID int "ChatRangeAction option" bool bool
| EvDeleteChat JID int "ChatRangeAction option" bool bool
| EvStar (ev_chat: JID) (ev_sender: JID) (ev_from_me: bool) (ev_message: string) int "bool option option" bool
| EvDeleteForMe JID JID bool string int "string option" bool
| EvMarkChatAsRead JID int "ChatRangeAction option" bool
| EvPushNameSetting int "string option option" bool
| EvUnarchiveChatsSetting int "string option" bool
| EvUserStatusMute JID int "string option" bool
| EvLabelEdit int string "LabelEditAction option" bool
| EvLabelAssociationChat JID int string "bool option option" bool
| EvLabelAssociationMessage JID int string string "bool option option" bool
| EvQuickReply int string "QuickReplyAction option" bool

datatype muted_until = NotMuted | MutedForever | MutedUntil int

record contact =
  c_FirstName :: string
  c_FullName :: string
  c_Username :: string

text \<open>
  The parts of the device store that mutations change. The chat settings and contact stores may be
  absent; a failing store keeps its contents, and the failure is only logged.
\<close>

record client_state =
  cs_settings :: bool
  cs_muted :: "JID \<rightharpoonup> muted_until"
  cs_pinned :: "JID \<rightharpoonup> bool"
  cs_archived :: "JID \<rightharpoonup> bool"
  cs_contact_store :: bool
  cs_usernames :: bool
  cs_contacts :: "JID \<rightharpoonup> contact"
  cs_push_name :: string
  cs_nct_salt :: "bytes option"
  cs_secrets :: "(JID \<times> JID \<times> string \<times> bytes) list"
  cs_own_lid :: JID
  cs_failing :: bool

definition no_contact :: contact where
  "no_contact = \<lparr>c_FirstName = [], c_FullName = [], c_Username = []\<rparr>"

definition put_contact :: "JID \<Rightarrow> ContactAction option \<Rightarrow> client_state \<Rightarrow> client_state" where
  "put_contact jid act s =
     (if \<not> cs_contact_store s \<or> cs_failing s then s
      else
        let old = get_or no_contact (cs_contacts s jid);
            first = get_or [] (Option.bind act FirstName);
            full = get_or [] (Option.bind act FullName);
            user = (if cs_usernames s then get_or [] (Option.bind act Username) else c_Username old)
        in s\<lparr>cs_contacts := (cs_contacts s)(jid \<mapsto> \<lparr>c_FirstName = first, c_FullName = full, c_Username = user\<rparr>)\<rparr>)"

definition put_setting :: "(client_state \<Rightarrow> client_state) \<Rightarrow> client_state \<Rightarrow> client_state" where
  "put_setting f s = (if cs_settings s \<and> \<not> cs_failing s then f s else s)"

definition storeNCTSalt :: "bytes \<Rightarrow> client_state \<Rightarrow> client_state" where
  "storeNCTSalt salt s = (if salt = [] \<or> cs_failing s then s else s\<lparr>cs_nct_salt := Some salt\<rparr>)"

definition clearNCTSalt :: "client_state \<Rightarrow> client_state" where
  "clearNCTSalt s = (if cs_failing s then s else s\<lparr>cs_nct_salt := None\<rparr>)"

definition put_secrets :: "JID \<Rightarrow> (string \<times> bytes) list \<Rightarrow> client_state \<Rightarrow> client_state" where
  "put_secrets botJID secrets s =
     (if cs_failing s then s
      else s\<lparr>cs_secrets := cs_secrets s @ map (\<lambda>(i, sec). (botJID, cs_own_lid s, i, sec)) secrets\<rparr>)"

section \<open>Dispatching\<close>

definition mute_end :: "MuteAction option \<Rightarrow> muted_until" where
  "mute_end act =
     (if get_or False (Option.bind act Muted) then
        (let e = get_or 0 (Option.bind act MuteEndTimestamp)
         in if e < 0 then MutedForever else MutedUntil e)
      else NotMuted)"

definition parse_jid :: "string \<Rightarrow> JID" where
  "parse_jid s = fst (ParseJID s)"

text \<open>The result is the event, if any, and the state; \<^const>\<open>None\<close> is an index out of range.\<close>

definition dispatchAppState ::
  "SyncActionValue Mutation \<Rightarrow> bool \<Rightarrow> client_state \<Rightarrow> (app_event option \<times> client_state) option" where
  "dispatchAppState m fullSync s =
     (let idx = m_Index m; act = m_Action m
      in if length idx = 1 \<and> idx ! 0 = IndexNCTSaltSync then
           Some (None, case m_Operation m of SET \<Rightarrow> storeNCTSalt (sav_NctSalt act) s | REMOVE \<Rightarrow> clearNCTSalt s)
      else if m_Operation m \<noteq> SET then Some (None, s)
      else if idx = [] then None
      else
        let jid = (if length idx > 1 then parse_jid (idx ! 1) else EmptyJID);
            ts = get_or 0 (sav_Timestamp act);
            name = idx ! 0
        in if name = IndexMute then
             Some (Some (EvMute jid ts (sav_MuteAction act) fullSync),
               put_setting (\<lambda>s. s\<lparr>cs_muted := (cs_muted s)(jid \<mapsto> mute_end (sav_MuteAction act))\<rparr>) s)
           else if name = IndexPin then
             Some (Some (EvPin jid ts (sav_PinAction act) fullSync),
               put_setting (\<lambda>s. s\<lparr>cs_pinned := (cs_pinned s)(jid \<mapsto> get_or False (Option.bind (sav_PinAction act) id))\<rparr>) s)
           else if name = IndexArchive then
             Some (Some (EvArchive jid ts (sav_ArchiveChatAction act) fullSync),
               put_setting (\<lambda>s. s\<lparr>cs_archived := (cs_archived s)(jid \<mapsto> get_or False (Option.bind (sav_ArchiveChatAction act) ActionFlag))\<rparr>) s)
           else if name = IndexContact then
             Some (Some (EvContact jid ts (sav_ContactAction act) fullSync), put_contact jid (sav_ContactAction act) s)
           else if name = IndexLIDContact then
             Some (Some (EvLIDContact jid ts (sav_LidContactAction act) fullSync), put_contact jid (sav_LidContactAction act) s)
           else if name = IndexClearChat then
             Some (Some (EvClearChat jid ts (sav_ClearChatAction act) (length idx > 3 \<and> idx ! 3 = ''1'') fullSync), s)
           else if name = IndexDeleteChat then
             Some (Some (EvDeleteChat jid ts (sav_DeleteChatAction act) (length idx > 2 \<and> idx ! 2 = ''1'') fullSync), s)
           else if name = IndexStar then
             (if length idx < 5 then Some (None, s)
              else Some (Some (EvStar jid (if idx ! 4 \<noteq> ''0'' then parse_jid (idx ! 4) else EmptyJID) (idx ! 3 = ''1'')
                (idx ! 2) ts (sav_StarAction act) fullSync), s))
           else if name = IndexDeleteMessageForMe then
             (if length idx < 5 then Some (None, s)
              else Some (Some (EvDeleteForMe jid (if idx ! 4 \<noteq> ''0'' then parse_jid (idx ! 4) else EmptyJID) (idx ! 3 = ''1'')
                (idx ! 2) ts (sav_DeleteMessageForMeAction act) fullSync), s))
           else if name = IndexMarkChatAsRead then
             Some (Some (EvMarkChatAsRead jid ts (sav_MarkChatAsReadAction act) fullSync), s)
           else if name = IndexSettingPushName then
             Some (Some (EvPushNameSetting ts (sav_PushNameSetting act) fullSync),
               s\<lparr>cs_push_name := get_or [] (Option.bind (sav_PushNameSetting act) id)\<rparr>)
           else if name = IndexSettingUnarchiveChats then
             Some (Some (EvUnarchiveChatsSetting ts (sav_UnarchiveChatsSetting act) fullSync), s)
           else if name = IndexUserStatusMute then
             Some (Some (EvUserStatusMute jid ts (sav_UserStatusMuteAction act) fullSync), s)
           else if name = IndexLabelEdit then
             (if length idx < 2 then None
              else Some (Some (EvLabelEdit ts (idx ! 1) (sav_LabelEditAction act) fullSync), s))
           else if name = IndexLabelAssociationChat then
             (if length idx < 3 then Some (None, s)
              else Some (Some (EvLabelAssociationChat (parse_jid (idx ! 2)) ts (idx ! 1) (sav_LabelAssociationAction act) fullSync), s))
           else if name = IndexLabelAssociationMessage then
             (if length idx < 6 then Some (None, s)
              else Some (Some (EvLabelAssociationMessage (parse_jid (idx ! 2)) ts (idx ! 1) (idx ! 3)
                (sav_LabelAssociationAction act) fullSync), s))
           else if name = IndexQuickReply then
             (if length idx < 2 then Some (None, s)
              else Some (Some (EvQuickReply ts (idx ! 1) (sav_QuickReplyAction act) fullSync), s))
           else if name = IndexWasaRootSecretAction then
             (if length idx < 2 then Some (None, s)
              else Some (None, put_secrets (parse_jid (idx ! 1)) (sav_RootSecrets act) s))
           else Some (None, s))"

record emit_flags =
  EmitAppStateEventsOnFullSync :: bool
  EmitLabelEventsOnFullSync :: bool
  EmitQuickReplyEventsOnFullSync :: bool

definition shouldEmitFullSyncMutation :: "emit_flags \<Rightarrow> string list \<Rightarrow> bool" where
  "shouldEmitFullSyncMutation fl idx =
     (if EmitAppStateEventsOnFullSync fl then True
      else if idx = [] then False
      else if EmitQuickReplyEventsOnFullSync fl \<and> idx ! 0 = IndexQuickReply then True
      else if \<not> EmitLabelEventsOnFullSync fl then False
      else idx ! 0 \<in> {IndexLabelEdit, IndexLabelAssociationChat, IndexLabelAssociationMessage})"

definition contact_entry :: "string \<Rightarrow> ContactAction option \<Rightarrow> JID \<times> contact" where
  "contact_entry s act = (parse_jid s,
     \<lparr>c_FirstName = get_or [] (Option.bind act FirstName), c_FullName = get_or [] (Option.bind act FullName),
      c_Username = get_or [] (Option.bind act Username)\<rparr>)"

fun filterContacts ::
  "SyncActionValue Mutation list \<Rightarrow> SyncActionValue Mutation list \<times> (JID \<times> contact) list" where
  "filterContacts [] = ([], [])"
| "filterContacts (m # ms) =
     (case filterContacts ms of (filteredMutations, contacts) \<Rightarrow>
       if length (m_Index m) > 1 \<and> m_Index m ! 0 = IndexContact then
         (filteredMutations, contact_entry (m_Index m ! 1) (sav_ContactAction (m_Action m)) # contacts)
       else if length (m_Index m) > 1 \<and> m_Index m ! 0 = IndexLIDContact then
         (filteredMutations, contact_entry (m_Index m ! 1) (sav_LidContactAction (m_Action m)) # contacts)
       else (m # filteredMutations, contacts))"

text \<open>\<open>PutAllContactNames\<close> writes the entries in order; its failure aborts the collection.\<close>

definition write_contacts :: "(JID \<rightharpoonup> contact) \<Rightarrow> (JID \<times> contact) list \<Rightarrow> JID \<rightharpoonup> contact" where
  "write_contacts cs es = foldl (\<lambda>cs e. cs(fst e \<mapsto> snd e)) cs es"

lemma write_contacts_simps [simp]:
  "write_contacts cs [] = cs" "write_contacts cs (e # es) = write_contacts (cs(fst e \<mapsto> snd e)) es"
  by (simp_all add: write_contacts_def)

definition put_all_contacts :: "(JID \<times> contact) list \<Rightarrow> client_state \<Rightarrow> client_state option" where
  "put_all_contacts es s =
     (if cs_failing s then None
      else Some (s\<lparr>cs_contacts := write_contacts (cs_contacts s) es\<rparr>))"

fun collect_loop ::
  "emit_flags \<Rightarrow> bool \<Rightarrow> bool \<Rightarrow> SyncActionValue Mutation list \<Rightarrow> app_event list \<Rightarrow> client_state \<Rightarrow>
    (app_event list \<times> client_state) option" where
  "collect_loop fl collecting fullSync [] evs s = Some (evs, s)"
| "collect_loop fl collecting fullSync (m # ms) evs s =
     (let emitMutation = (collecting \<and> (\<not> fullSync \<or> shouldEmitFullSyncMutation fl (m_Index m)));
          evs = (if emitMutation \<and> m_Operation m = SET then evs @ [EvAppState (m_Index m) (m_Action m)] else evs)
      in case dispatchAppState m fullSync s of
           None \<Rightarrow> None
         | Some (ev, s) \<Rightarrow>
             collect_loop fl collecting fullSync ms
               (case ev of None \<Rightarrow> evs | Some e \<Rightarrow> if emitMutation then evs @ [e] else evs) s)"

datatype collect_error = CollectPanic | CollectContacts

definition collectEventsToDispatch ::
  "emit_flags \<Rightarrow> bool \<Rightarrow> string \<Rightarrow> SyncActionValue Mutation list \<Rightarrow> bool \<Rightarrow> app_event list \<Rightarrow> client_state \<Rightarrow>
    collect_error + app_event list \<times> client_state" where
  "collectEventsToDispatch fl collecting name mutations fullSync evs s =
     (let bulk = (name = WAPatchCriticalUnblockLow \<and> fullSync \<and> \<not> EmitAppStateEventsOnFullSync fl);
          mutations' = (if bulk then fst (filterContacts mutations) else mutations);
          stored = (if bulk then put_all_contacts (snd (filterContacts mutations)) s else Some s)
      in case stored of
           None \<Rightarrow> Inl CollectContacts
         | Some s \<Rightarrow>
             (case collect_loop fl collecting fullSync mutations' evs s of
                None \<Rightarrow> Inl CollectPanic
              | Some r \<Rightarrow> Inr r))"

section \<open>Built patches are dispatched as intended\<close>





lemma parse_jid_String: "printable_JID j \<Longrightarrow> parse_jid (JID_String j) = j"
  by (simp add: parse_jid_def ParseJID_String_aux)



definition toy_client :: client_state where
  "toy_client = \<lparr>cs_settings = True, cs_muted = Map.empty, cs_pinned = Map.empty, cs_archived = Map.empty,
     cs_contact_store = True, cs_usernames = True, cs_contacts = Map.empty, cs_push_name = [], cs_nct_salt = None,
     cs_secrets = [], cs_own_lid = EmptyJID, cs_failing = False\<rparr>"


section \<open>Contacts of a full sync\<close>

text \<open>In a full sync the contacts are taken out of the mutations and written at once.\<close>

definition is_contact :: "SyncActionValue Mutation \<Rightarrow> bool" where
  "is_contact m \<longleftrightarrow> length (m_Index m) > 1 \<and> m_Index m ! 0 \<in> {IndexContact, IndexLIDContact}"

definition entry_of_mutation :: "SyncActionValue Mutation \<Rightarrow> JID \<times> contact" where
  "entry_of_mutation m = contact_entry (m_Index m ! 1)
     (if m_Index m ! 0 = IndexContact then sav_ContactAction (m_Action m) else sav_LidContactAction (m_Action m))"

lemma filterContacts_filter:
  "filterContacts ms = (filter (Not \<circ> is_contact) ms, map entry_of_mutation (filter is_contact ms))"
  by (induction ms) (auto simp: is_contact_def entry_of_mutation_def index_defs)





definition store_flags :: "client_state \<Rightarrow> bool \<times> bool \<times> bool" where
  "store_flags s = (cs_contact_store s, cs_usernames s, cs_failing s)"

lemma flags_kept [simp]:
  "store_flags (put_contact j a s) = store_flags s"
  "store_flags (storeNCTSalt b s) = store_flags s"
  "store_flags (clearNCTSalt s) = store_flags s"
  "store_flags (put_secrets j xs s) = store_flags s"
  "store_flags (s\<lparr>cs_push_name := n\<rparr>) = store_flags s"
  "store_flags (s\<lparr>cs_contacts := c\<rparr>) = store_flags s"
  "store_flags (put_setting (\<lambda>s. s\<lparr>cs_muted := f1 s\<rparr>) s) = store_flags s"
  "store_flags (put_setting (\<lambda>s. s\<lparr>cs_pinned := f2 s\<rparr>) s) = store_flags s"
  "store_flags (put_setting (\<lambda>s. s\<lparr>cs_archived := f3 s\<rparr>) s) = store_flags s"
  by (simp_all add: store_flags_def put_contact_def storeNCTSalt_def clearNCTSalt_def put_secrets_def put_setting_def Let_def)




definition contact_mutation :: "SyncdOperation \<Rightarrow> SyncActionValue Mutation" where
  "contact_mutation op = \<lparr>m_KeyID = None, m_Operation = op,
     m_Action = no_action\<lparr>sav_ContactAction := Some \<lparr>FirstName = Some ''A'', FullName = None, Username = None\<rparr>\<rparr>,
     m_Version = 2, m_Index = [IndexContact, ''1@s.whatsapp.net''], m_IndexMAC = [], m_ValueMAC = [], m_PatchVersion = 3\<rparr>"

definition quiet :: emit_flags where
  "quiet = \<lparr>EmitAppStateEventsOnFullSync = False, EmitLabelEventsOnFullSync = False, EmitQuickReplyEventsOnFullSync = False\<rparr>"


text \<open>
  The bulk insertion ignores the operation of a mutation. When a full sync removes a contact, the
  removed contact is written to the store, while dispatching the same mutation leaves the store
  as it is.
\<close>

theorem removed_contact_inserted:
  assumes "is_contact m" and "m_Operation m = REMOVE" and "\<not> cs_failing s" and "\<not> EmitAppStateEventsOnFullSync fl"
  shows "collectEventsToDispatch fl False WAPatchCriticalUnblockLow [m] True [] s =
      Inr ([], s\<lparr>cs_contacts := (cs_contacts s)(fst (entry_of_mutation m) \<mapsto> snd (entry_of_mutation m))\<rparr>) \<and>
    collect_loop fl False True [m] [] s = Some ([], s)"
proof -
  have "length (m_Index m) \<noteq> 1" using assms(1) by (auto simp: is_contact_def)
  then have "dispatchAppState m True s = Some (None, s)"
    using assms(2) by (simp add: dispatchAppState_def Let_def)
  then show ?thesis
    using assms by (simp add: collectEventsToDispatch_def put_all_contacts_def filterContacts_filter Let_def case_prod_unfold)
qed

theorem removed_contact_inserted_witness:
  "\<exists>s'. collectEventsToDispatch quiet False WAPatchCriticalUnblockLow [contact_mutation REMOVE] True [] toy_client = Inr ([], s') \<and>
    cs_contacts s' (parse_jid ''1@s.whatsapp.net'') \<noteq> None \<and> collect_loop quiet False True [contact_mutation REMOVE] [] toy_client = Some ([], toy_client)"
proof -
  have "is_contact (contact_mutation REMOVE)" "m_Operation (contact_mutation REMOVE) = REMOVE" "\<not> cs_failing toy_client"
      "\<not> EmitAppStateEventsOnFullSync quiet" "fst (entry_of_mutation (contact_mutation REMOVE)) = parse_jid ''1@s.whatsapp.net''"
    by (simp_all add: is_contact_def contact_mutation_def toy_client_def quiet_def entry_of_mutation_def contact_entry_def)
  with removed_contact_inserted [of "contact_mutation REMOVE" toy_client quiet] show ?thesis by auto
qed

text \<open>
  Exactly two kinds of mutation crash the dispatcher: a set with an empty index, and a label edit
  that names no label. Every other mutation is dispatched or ignored.
\<close>

theorem dispatch_panics_exactly:
  "dispatchAppState m fs s = None \<longleftrightarrow> m_Operation m = SET \<and> (m_Index m = [] \<or> m_Index m = [IndexLabelEdit])"
proof -
  have one: "m_Index m = [IndexLabelEdit] \<longleftrightarrow> m_Index m \<noteq> [] \<and> m_Index m ! 0 = IndexLabelEdit \<and> length (m_Index m) < 2"
    by (cases "m_Index m") (auto simp: less_Suc_eq)
  show ?thesis
    unfolding one dispatchAppState_def Let_def
    by (cases "m_Operation m") (auto simp: index_defs)
qed

end
