(* ===== verification/Client_Cache.thy ===== *)
theory Client_Cache
  imports Prelude
begin

text \<open>
  The bounded maps of the client in \<open>lib/cache.go\<close>. A Go map is an association list with distinct
  keys; the iteration that picks a victim may meet any entry first, which is the parameter
  \<open>victim\<close>. Times are integers, and the zero time of a counter window is \<^const>\<open>None\<close>.
\<close>

definition maxGroupCacheEntries :: nat where "maxGroupCacheEntries = 8"
definition maxUserDeviceCacheEntries :: nat where "maxUserDeviceCacheEntries = 2048"
definition maxMessageRetryEntries :: nat where "maxMessageRetryEntries = 1024"
definition maxIncomingRetryEntries :: nat where "maxIncomingRetryEntries = 1024"
definition maxAppStateKeyRequestEntries :: nat where "maxAppStateKeyRequestEntries = 1024"
definition maxSessionRecreateHistoryItems :: nat where "maxSessionRecreateHistoryItems = 1024"
definition retryCounterWindow :: int where "retryCounterWindow = 3600"

definition go_map :: "('k \<times> 'v) list \<Rightarrow> bool" where
  "go_map m = distinct (map fst m)"

definition putBoundedCache :: "(('k \<times> 'v) list \<Rightarrow> 'k) \<Rightarrow> ('k \<times> 'v) list \<Rightarrow> 'k \<Rightarrow> 'v \<Rightarrow> nat \<Rightarrow> ('k \<times> 'v) list" where
  "putBoundedCache victim cache key val limit =
     (let cache = (if map_of cache key = None \<and> length cache \<ge> limit \<and> cache \<noteq> [] then AList.delete (victim cache) cache else cache)
      in AList.update key val cache)"

definition incrementBoundedCounter ::
  "('k \<times> nat) list \<Rightarrow> 'k \<Rightarrow> nat \<Rightarrow> int option \<Rightarrow> int \<Rightarrow> (nat \<times> bool) \<times> ('k \<times> nat) list \<times> int option" where
  "incrementBoundedCounter cache key limit resetAt now =
     (let reset = (case resetAt of None \<Rightarrow> True | Some r \<Rightarrow> now - r \<ge> retryCounterWindow);
          cache = (if reset then [] else cache);
          resetAt = (if reset then Some now else resetAt)
      in if map_of cache key = None \<and> length cache \<ge> limit then ((0, False), cache, resetAt)
         else let n = (case map_of cache key of None \<Rightarrow> 1 | Some n \<Rightarrow> n + 1)
              in ((n, True), AList.update key n cache, resetAt))"

definition pruneExpiredCache :: "('k \<times> int) list \<Rightarrow> int \<Rightarrow> ('k \<times> int) list" where
  "pruneExpiredCache cache cutoff = filter (\<lambda>(_, t). \<not> t < cutoff) cache"

section \<open>Bounds\<close>

lemma go_map_update: "go_map m \<Longrightarrow> go_map (AList.update k v m)"
  by (simp add: go_map_def distinct_update)

lemma go_map_delete: "go_map m \<Longrightarrow> go_map (AList.delete k m)"
  by (simp add: go_map_def distinct_delete)

lemma length_update:
  "length (AList.update k v m) = (if map_of m k = None then Suc (length m) else length m)"
  by (induction m) auto

lemma length_delete_less: "k \<in> fst ` set m \<Longrightarrow> length (AList.delete k m) < length m"
  unfolding AList.delete_eq by (auto intro: length_filter_less)

lemma putBoundedCache_bounded:
  assumes "length cache \<le> limit" and "0 < limit" and "cache \<noteq> [] \<Longrightarrow> victim cache \<in> fst ` set cache"
  shows "length (putBoundedCache victim cache key val limit) \<le> limit"
  using assms length_delete_less [of "victim cache" cache]
  by (auto simp: putBoundedCache_def Let_def length_update)

lemma putBoundedCache_lookup: "map_of (putBoundedCache victim cache key val limit) key = Some val"
  by (simp add: putBoundedCache_def Let_def update_conv')

lemma pruneExpiredCache_lookup:
  "go_map m \<Longrightarrow> map_of (pruneExpiredCache m cutoff) k = (case map_of m k of None \<Rightarrow> None | Some t \<Rightarrow> if t < cutoff then None else Some t)"
proof (induction m)
  case (Cons x m)
  have "map_of (pruneExpiredCache m cutoff) k = None" if "k = fst x"
    using Cons that by (auto simp: go_map_def map_of_eq_None_iff split: option.splits) (auto simp: map_of_eq_None_iff [symmetric])
  then show ?case using Cons by (auto simp: pruneExpiredCache_def go_map_def)
qed (simp add: pruneExpiredCache_def)

lemma go_map_prune: "go_map m \<Longrightarrow> go_map (pruneExpiredCache m cutoff)"
  by (simp add: go_map_def pruneExpiredCache_def distinct_map_filter)

lemma length_prune: "length (pruneExpiredCache m cutoff) \<le> length m"
  by (simp add: pruneExpiredCache_def)

end
