(* ===== verification/App_State_Client.thy ===== *)
theory App_State_Client
  imports App_State_Events App_State_Sync Client_Cache
begin

text \<open>
  The client side of app state synchronisation in \<open>lib/appstate.go\<close>: fetching a collection until the
  server has no more patches, applying what arrives, recovery from the primary device, and asking
  for missing keys. The server's answers are a list that the loop consumes; when it ends, the
  request fails, as it does when it times out.
\<close>

section \<open>Fetching\<close>

record 'd sync_client =
  sc_proc :: "'d Processor"
  sc_state :: client_state

datatype fetch_error = FetchStore as_error | FetchRequest | FetchUnexpectedSnapshot | FetchNonEmptyState | FetchDecode as_error | FetchCollect collect_error

definition applyAppStatePatches ::
  "SyncActionValue primitives \<Rightarrow> 'd AppStateStore \<Rightarrow> emit_flags \<Rightarrow> bool \<Rightarrow> string \<Rightarrow> HashState \<Rightarrow> PatchList \<Rightarrow> bool \<Rightarrow>
    app_event list \<Rightarrow> 'd sync_client \<Rightarrow> (fetch_error + HashState \<times> app_event list) \<times> 'd sync_client" where
  "applyAppStatePatches c S fl collecting name state patches fullSync evs k =
     (case DecodePatches c S patches state True (sc_proc k) of
        (Inl e, p) \<Rightarrow> (Inl (FetchDecode e), k\<lparr>sc_proc := p\<rparr>)
      | (Inr (mutations, newState), p) \<Rightarrow>
          (case collectEventsToDispatch fl collecting name mutations fullSync evs (sc_state k) of
             Inl e \<Rightarrow> (Inl (FetchCollect e), k\<lparr>sc_proc := p\<rparr>)
           | Inr (evs, s) \<Rightarrow> (Inr (newState, evs), \<lparr>sc_proc = p, sc_state = s\<rparr>)))"

definition zero_state :: HashState where
  "zero_state = \<lparr>hs_Version = 0, hs_Hash = replicate 128 0\<rparr>"

fun fetch_loop ::
  "SyncActionValue primitives \<Rightarrow> 'd AppStateStore \<Rightarrow> emit_flags \<Rightarrow> bool \<Rightarrow> string \<Rightarrow> bool \<Rightarrow> PatchList option list \<Rightarrow> bool \<Rightarrow> HashState \<Rightarrow>
    app_event list \<Rightarrow> 'd sync_client \<Rightarrow> (fetch_error + HashState \<times> app_event list) \<times> 'd sync_client" where
  "fetch_loop c S fl collecting name fullSync [] wantSnapshot state evs k = (Inl FetchRequest, k)"
| "fetch_loop c S fl collecting name fullSync (None # _) wantSnapshot state evs k = (Inl FetchRequest, k)"
| "fetch_loop c S fl collecting name fullSync (Some patches # answers) wantSnapshot state evs k =
     (if \<not> wantSnapshot \<and> pl_Snapshot patches \<noteq> None then (Inl FetchUnexpectedSnapshot, k)
      else if pl_Snapshot patches \<noteq> None \<and> state \<noteq> zero_state then (Inl FetchNonEmptyState, k)
      else case applyAppStatePatches c S fl collecting name state patches fullSync evs k of
        (Inl e, k) \<Rightarrow> (Inl e, k)
      | (Inr (state, evs), k) \<Rightarrow>
          if pl_HasMorePatches patches then fetch_loop c S fl collecting name fullSync answers False state evs k
          else (Inr (state, evs), k))"

text \<open>
  The result is the events to dispatch and whether the full sync is reported as complete, with its
  version; \<^const>\<open>None\<close> where nothing was to be done.
\<close>

definition fetchAppState ::
  "SyncActionValue primitives \<Rightarrow> 'd AppStateStore \<Rightarrow> emit_flags \<Rightarrow> string \<Rightarrow> bool \<Rightarrow> bool \<Rightarrow> PatchList option list \<Rightarrow>
    'd sync_client \<Rightarrow> (fetch_error + (app_event list \<times> u64 option) option) \<times> 'd sync_client" where
  "fetchAppState c S fl name fullSync onlyIfNotSynced answers k =
     (case (if fullSync then in_store (DeleteAppStateVersion S name) else st_return ()) (sc_proc k) of
        (Inl e, p) \<Rightarrow> (Inl (FetchStore e), k\<lparr>sc_proc := p\<rparr>)
      | (Inr _, p) \<Rightarrow>
          (case in_store (GetAppStateVersion S name) p of
             (Inl e, p) \<Rightarrow> (Inl (FetchStore e), k\<lparr>sc_proc := p\<rparr>)
           | (Inr (version, hash), p) \<Rightarrow>
               if version \<noteq> 0 \<and> onlyIfNotSynced then (Inr None, k\<lparr>sc_proc := p\<rparr>)
               else
                 let fullSync = (fullSync \<or> version = 0);
                     collecting = (\<not> fullSync \<or> EmitAppStateEventsOnFullSync fl \<or> EmitLabelEventsOnFullSync fl
                       \<or> EmitQuickReplyEventsOnFullSync fl)
                 in case fetch_loop c S fl collecting name fullSync answers fullSync
                      \<lparr>hs_Version = version, hs_Hash = hash\<rparr> [] (k\<lparr>sc_proc := p\<rparr>) of
                      (Inl e, k) \<Rightarrow> (Inl e, k)
                    | (Inr (state, evs), k) \<Rightarrow>
                        (Inr (Some (evs, if fullSync then Some (hs_Version state) else None)), k)))"

section \<open>Recovery\<close>

definition handleAppStateRecovery ::
  "SyncActionValue primitives \<Rightarrow> 'd AppStateStore \<Rightarrow> emit_flags \<Rightarrow> (as_error + SyncActionValue SyncdSnapshotRecovery) option \<Rightarrow>
    'd sync_client \<Rightarrow> (app_event list \<times> u64) option \<times> 'd sync_client" where
  "handleAppStateRecovery c S fl result k =
     (case result of
        None \<Rightarrow> (None, k)
      | Some (Inl _) \<Rightarrow> (None, k)
      | Some (Inr snapshot) \<Rightarrow>
          (case in_store (GetAppStateVersion S (sr_Name snapshot)) (sc_proc k) of
             (Inl _, p) \<Rightarrow> (None, k\<lparr>sc_proc := p\<rparr>)
           | (Inr (currentVersion, _), p) \<Rightarrow>
               if currentVersion \<ge> sr_Version snapshot then (None, k\<lparr>sc_proc := p\<rparr>)
               else case ProcessRecovery c S snapshot p of
                 (Inl _, p) \<Rightarrow> (None, k\<lparr>sc_proc := p\<rparr>)
               | (Inr mutations, p) \<Rightarrow>
                   let collecting = (EmitAppStateEventsOnFullSync fl \<or> EmitLabelEventsOnFullSync fl \<or> EmitQuickReplyEventsOnFullSync fl)
                   in case collectEventsToDispatch fl collecting (sr_Name snapshot) mutations True [] (sc_state k) of
                        Inl _ \<Rightarrow> (None, k\<lparr>sc_proc := p\<rparr>)
                      | Inr (evs, s) \<Rightarrow> (Some (evs, sr_Version snapshot), \<lparr>sc_proc = p, sc_state = s\<rparr>)))"

section \<open>Missing keys\<close>

text \<open>The times of the last requests, in seconds, by the hexadecimal key id, which determines the key id.\<close>

definition day :: int where "day = 24 * 60 * 60"

fun filter_requests :: "int \<Rightarrow> bytes list \<Rightarrow> (bytes \<times> int) list \<Rightarrow> bytes list \<times> (bytes \<times> int) list" where
  "filter_requests now [] reqs = ([], reqs)"
| "filter_requests now (k # ks) reqs =
     (let due = (case map_of reqs k of None \<Rightarrow> length reqs < maxAppStateKeyRequestEntries | Some t \<Rightarrow> t + day < now)
      in if due then (case filter_requests now ks (AList.update k now reqs) of (r, reqs) \<Rightarrow> (k # r, reqs))
         else filter_requests now ks reqs)"

text \<open>
  \<open>rawKeyIDs\<close> are the ids that \<open>GetMissingKeyIDs\<close> returned; \<open>sent\<close> says whether the peer message goes out.
  No message is sent for an empty list. The result is what was sent.
\<close>

definition requestMissingAppStateKeys ::
  "int \<Rightarrow> bytes list \<Rightarrow> bool \<Rightarrow> (bytes \<times> int) list \<Rightarrow> bytes list \<times> (bytes \<times> int) list" where
  "requestMissingAppStateKeys now rawKeyIDs sent reqs =
     (let reqs = (if length reqs \<ge> maxAppStateKeyRequestEntries then pruneExpiredCache reqs (now - day) else reqs)
      in case filter_requests now rawKeyIDs reqs of (filteredKeyIDs, reqs) \<Rightarrow>
           if filteredKeyIDs \<noteq> [] \<and> \<not> sent then ([], foldl (\<lambda>m k. AList.delete k m) reqs filteredKeyIDs)
           else (filteredKeyIDs, reqs))"

section \<open>Fetching keeps collections in sync\<close>

context app_state_store
begin

lemma applyAppStatePatches_in_sync:
  assumes "\<And>x. length (patch_expand c x) = 128" and "in_sync c (sc_proc k) name st coll" and "pl_Name patches = name"
    and "case pl_Snapshot patches of None \<Rightarrow> True | Some ss \<Rightarrow> coll = Map.empty \<and> distinct (map rec_Index (ss_Records ss))"
    and "applyAppStatePatches c S fl col name st patches fs evs k = (Inr (st', evs'), k')"
  shows "\<exists>coll'. in_sync c (sc_proc k') name st' coll' \<and> others_kept name (sc_proc k) (sc_proc k')"
proof -
  obtain ms where "DecodePatches c S patches st True (sc_proc k) = (Inr (ms, st'), sc_proc k')"
    using assms(5) by (auto simp: applyAppStatePatches_def split: prod.splits sum.splits)
  with DecodePatches_in_sync [OF assms(1), of "sc_proc k" patches st coll] assms(2-4) show ?thesis by blast
qed

lemma fetch_loop_in_sync:
  assumes "\<And>x. length (patch_expand c x) = 128"
    and "list_all (\<lambda>a. case a of None \<Rightarrow> True | Some pl \<Rightarrow> pl_Name pl = name \<and>
      (case pl_Snapshot pl of None \<Rightarrow> True | Some ss \<Rightarrow> distinct (map rec_Index (ss_Records ss)))) answers"
    and "in_sync c (sc_proc k) name st coll" and "want \<longrightarrow> st = zero_state \<longrightarrow> coll = Map.empty"
    and "fetch_loop c S fl col name fs answers want st evs k = (Inr (st', evs'), k')"
  shows "\<exists>coll'. in_sync c (sc_proc k') name st' coll' \<and> others_kept name (sc_proc k) (sc_proc k')"
  using assms(2-5)
proof (induction answers arbitrary: want st evs k coll)
  case (Cons a answers)
  obtain pl where pl: "a = Some pl" using Cons.prems(4) by (cases a) auto
  have ok: "\<not> (\<not> want \<and> pl_Snapshot pl \<noteq> None)" "\<not> (pl_Snapshot pl \<noteq> None \<and> st \<noteq> zero_state)"
    using Cons.prems(4) unfolding pl by (auto split: if_splits)
  obtain st1 evs1 k1 where a: "applyAppStatePatches c S fl col name st pl fs evs k = (Inr (st1, evs1), k1)"
      and more: "if pl_HasMorePatches pl then fetch_loop c S fl col name fs answers False st1 evs1 k1 = (Inr (st', evs'), k')
        else st1 = st' \<and> k1 = k'"
    using Cons.prems(4) ok unfolding pl by (auto split: prod.splits sum.splits if_splits)
  have "case pl_Snapshot pl of None \<Rightarrow> True | Some ss \<Rightarrow> coll = Map.empty \<and> distinct (map rec_Index (ss_Records ss))"
    using Cons.prems(1,3) ok unfolding pl by (auto split: option.splits)
  then obtain coll1 where c1: "in_sync c (sc_proc k1) name st1 coll1" "others_kept name (sc_proc k) (sc_proc k1)"
    using applyAppStatePatches_in_sync [OF assms(1) Cons.prems(2) _ _ a] Cons.prems(1) pl by auto
  show ?case
  proof (cases "pl_HasMorePatches pl")
    case True
    then obtain coll' where "in_sync c (sc_proc k') name st' coll'" "others_kept name (sc_proc k1) (sc_proc k')"
      using Cons.IH [OF _ c1(1), of False evs1] more Cons.prems(1) by auto
    then show ?thesis using c1(2) by (fastforce simp: others_kept_def)
  qed (use more c1 in auto)
qed simp

lemma fetchAppState_in_sync:
  assumes "\<And>x. length (patch_expand c x) = 128"
    and "list_all (\<lambda>a. case a of None \<Rightarrow> True | Some pl \<Rightarrow> pl_Name pl = name \<and>
      (case pl_Snapshot pl of None \<Rightarrow> True | Some ss \<Rightarrow> distinct (map rec_Index (ss_Records ss)))) answers"
    and "in_sync c (sc_proc k) name st coll" and "hs_Version st = 0 \<Longrightarrow> coll = Map.empty"
    and "fetchAppState c S fl name full once answers k = (Inr r, k')"
  shows "\<exists>st' coll'. in_sync c (sc_proc k') name st' coll' \<and> others_kept name (sc_proc k) (sc_proc k')"
proof -
  obtain u p1 where 1: "(if full then in_store (DeleteAppStateVersion S name) else st_return ()) (sc_proc k) = (Inr u, p1)"
    using assms(5) by (auto simp: fetchAppState_def split: prod.splits sum.splits)
  obtain v h p2 where 2: "in_store (GetAppStateVersion S name) p1 = (Inr (v, h), p2)"
    using assms(5) 1 by (auto simp: fetchAppState_def split: prod.splits sum.splits)
  define coll1 where "coll1 = (if full then Map.empty else coll)"
  have s1: "macs_of (Store p1) name = coll1 \<and> (full \<longrightarrow> state_of (Store p1) name = (0, replicate 128 0)) \<and>
      (\<not> full \<longrightarrow> state_of (Store p1) name = (hs_Version st, hs_Hash st)) \<and> others_kept name (sc_proc k) p1"
    using 1 assms(3) by (auto simp: coll1_def others_kept_def in_sync_def split: if_splits dest!: in_store_Inr delete_version)
  have s2: "(v, h) = state_of (Store p1) name" "macs_of (Store p2) = macs_of (Store p1)" "state_of (Store p2) = state_of (Store p1)"
    using 2 by (auto dest!: in_store_Inr get_version)
  have sync: "in_sync c p2 name \<lparr>hs_Version = v, hs_Hash = h\<rparr> coll1"
    using s1 s2 assms(3) hashes_empty by (auto simp: in_sync_def coll1_def split: if_splits)
  have others: "others_kept name (sc_proc k) p2" using s1 s2 by (simp add: others_kept_def)
  have empty: "v = 0 \<longrightarrow> coll1 = Map.empty" using s1 s2(1) assms(4) by (auto simp: coll1_def split: if_splits)
  show ?thesis
  proof (cases "v \<noteq> 0 \<and> once")
    case True
    then have "sc_proc k' = p2" using assms(5) 1 2 by (auto simp: fetchAppState_def)
    then show ?thesis using sync others by auto
  next
    case False
    then obtain st' evs where "fetch_loop c S fl (\<not> (full \<or> v = 0) \<or> EmitAppStateEventsOnFullSync fl \<or> EmitLabelEventsOnFullSync fl
        \<or> EmitQuickReplyEventsOnFullSync fl) name (full \<or> v = 0) answers (full \<or> v = 0) \<lparr>hs_Version = v, hs_Hash = h\<rparr> []
        (k\<lparr>sc_proc := p2\<rparr>) = (Inr (st', evs), k')"
      using assms(5) 1 2 unfolding fetchAppState_def Let_def by (auto split: prod.splits sum.splits)
    from fetch_loop_in_sync [OF assms(1,2) _ _ this, of coll1] sync empty obtain coll' where
      "in_sync c (sc_proc k') name st' coll'" "others_kept name p2 (sc_proc k')"
      by (auto simp: zero_state_def)
    then show ?thesis using others by (fastforce simp: others_kept_def)
  qed
qed

end

definition db_in_sync :: "'v primitives \<Rightarrow> SQLStore \<Rightarrow> bool" where
  "db_in_sync c d \<longleftrightarrow>
     (\<forall>n. finite (dom (sql_macs d n)) \<and> hashes (patch_expand c) (snd (sql_state d n)) (sql_macs d n))"

text \<open>
  C13: Fetching keeps the database in sync. If every collection's saved hash is the hash of its saved
  MACs, and a collection without a version has no MACs, then so it is after every successful
  fetch, incremental or full, over any number of answers, skipped or not; snapshots must name each
  record once and the answers must be for the requested collection.
\<close>

theorem fetch_keeps_database_in_sync:
  assumes "\<And>x. length (patch_expand c x) = 128" and "db_in_sync c (Store (sc_proc k))"
    and "fst (sql_state (Store (sc_proc k)) name) = 0 \<longrightarrow> sql_macs (Store (sc_proc k)) name = Map.empty"
    and "list_all (\<lambda>a. case a of None \<Rightarrow> True | Some pl \<Rightarrow> pl_Name pl = name \<and>
      (case pl_Snapshot pl of None \<Rightarrow> True | Some ss \<Rightarrow> distinct (map rec_Index (ss_Records ss)))) answers"
    and "fetchAppState c sql_store fl name full once answers k = (Inr r, k')"
  shows "db_in_sync c (Store (sc_proc k'))"
proof -
  let ?st = "\<lparr>hs_Version = fst (sql_state (Store (sc_proc k)) name), hs_Hash = snd (sql_state (Store (sc_proc k)) name)\<rparr>"
  have "sql.in_sync c (sc_proc k) name ?st (sql_macs (Store (sc_proc k)) name)"
    using assms(2) by (simp add: sql.in_sync_def db_in_sync_def)
  from sql.fetchAppState_in_sync [OF assms(1,4) this _ assms(5)] assms(3) obtain st' coll' where
    "sql.in_sync c (sc_proc k') name st' coll'" "sql.others_kept name (sc_proc k) (sc_proc k')"
    by auto
  then have "finite (dom (sql_macs (Store (sc_proc k')) n)) \<and>
      hashes (patch_expand c) (snd (sql_state (Store (sc_proc k')) n)) (sql_macs (Store (sc_proc k')) n)" for n
    using assms(2) by (cases "n = name") (auto simp: sql.in_sync_def sql.others_kept_def db_in_sync_def)
  then show ?thesis by (simp add: db_in_sync_def)
qed

definition fetch_client :: "SQLStore sync_client" where
  "fetch_client = \<lparr>sc_proc = NewProcessor \<lparr>version_rows = Map.empty, mac_rows = Map.empty, key_rows = [], postgres = True, faults = []\<rparr>,
     sc_state = toy_client\<rparr>"

definition fetch_primitives :: "SyncActionValue primitives" where
  "fetch_primitives = \<lparr>hmac_sha256 = (\<lambda>k m. take 32 (m @ replicate 32 0)), hmac_sha512 = (\<lambda>k m. take 64 (m @ replicate 64 0)),
      hkdf_sha256 = (\<lambda>k i n. replicate n 0), aes_encrypt = toy_block, aes_decrypt = toy_block,
      unmarshal_action = (\<lambda>b. None), marshal_action = (\<lambda>a. None), unmarshal_index = (\<lambda>b. None), marshal_index = (\<lambda>i. [])\<rparr>"

theorem fetch_keeps_database_in_sync_witness:
  "\<exists>k'. fetchAppState fetch_primitives sql_store quiet ''regular'' True False
      [Some \<lparr>pl_Name = ''regular'', pl_HasMorePatches = False, pl_Patches = [], pl_Snapshot = None\<rparr>] fetch_client =
      (Inr (Some ([], Some 0)), k') \<and> db_in_sync fetch_primitives (Store (sc_proc k'))"
proof -
  let ?a = "[Some \<lparr>pl_Name = ''regular'', pl_HasMorePatches = False, pl_Patches = [], pl_Snapshot = None\<rparr>]"
  have e: "length (patch_expand fetch_primitives x) = 128" for x
    by (simp add: patch_expand_def fetch_primitives_def HKDFSize_def)
  have d: "db_in_sync fetch_primitives (Store (sc_proc fetch_client))"
    by (simp add: db_in_sync_def fetch_client_def NewProcessor_def sql_macs_def sql_state_def hashes_def coord_zero collection_sum_def dom_def)
  obtain k' where f: "fetchAppState fetch_primitives sql_store quiet ''regular'' True False ?a fetch_client = (Inr (Some ([], Some 0)), k')"
    by (simp add: fetchAppState_def Let_def in_store_def sql_store_def sql_DeleteAppStateVersion_def sql_GetAppStateVersion_def statement_def
        fetch_client_def NewProcessor_def applyAppStatePatches_def DecodePatches_def collectEventsToDispatch_def WAPatchCriticalUnblockLow_def
        st_bind_def quiet_def)
  from fetch_keeps_database_in_sync [OF e d _ _ f] f show ?thesis
    by (auto simp: fetch_client_def NewProcessor_def sql_macs_def fun_eq_iff)
qed

section \<open>Key requests are throttled\<close>

lemma filter_requests_keeps:
  assumes "filter_requests now ks reqs = (r, reqs')"
  shows "k \<notin> set r \<Longrightarrow> map_of reqs' k = map_of reqs k"
    and "k \<in> set r \<Longrightarrow> map_of reqs' k = Some now \<and> (\<forall>t. map_of reqs k = Some t \<longrightarrow> t + day < now)"
  using assms
proof (induction ks arbitrary: reqs r)
  case (Cons x ks)
  case 1
  then show ?case using Cons.IH(1) by (auto simp: Let_def update_conv' split: if_splits prod.splits)
next
  case (Cons x ks)
  case 2
  show ?case
  proof (cases "case map_of reqs x of None \<Rightarrow> length reqs < maxAppStateKeyRequestEntries | Some t \<Rightarrow> t + day < now")
    case True
    obtain r1 where r1: "filter_requests now ks (AList.update x now reqs) = (r1, reqs')" "r = x # r1"
      using 2(2) True by (auto split: prod.splits)
    show ?thesis
    proof (cases "k \<in> set r1")
      case True
      then have "map_of reqs' k = Some now" "\<forall>t. map_of (AList.update x now reqs) k = Some t \<longrightarrow> t + day < now"
        using Cons.IH(2) r1(1) by blast+
      then show ?thesis by (auto simp: update_conv' day_def split: if_splits)
    next
      case False
      then have "k = x" using 2(1) r1(2) by simp
      then show ?thesis
        using Cons.IH(1) [OF False] r1(1) True by (auto simp: update_conv' split: option.splits)
    qed
  next
    case False
    then show ?thesis using 2 Cons.IH(2) by (auto simp: Let_def)
  qed
qed simp_all

lemma filter_requests_map:
  assumes "filter_requests now ks reqs = (r, reqs')" and "go_map reqs" and "length reqs \<le> maxAppStateKeyRequestEntries"
  shows "go_map reqs' \<and> length reqs' \<le> maxAppStateKeyRequestEntries \<and> distinct r"
  using assms
proof (induction ks arbitrary: reqs r)
  case (Cons x ks)
  show ?case
  proof (cases "case map_of reqs x of None \<Rightarrow> length reqs < maxAppStateKeyRequestEntries | Some t \<Rightarrow> t + day < now")
    case True
    then obtain r1 where r1: "filter_requests now ks (AList.update x now reqs) = (r1, reqs')" "r = x # r1"
      using Cons.prems(1) by (auto split: prod.splits)
    have "x \<notin> set r1"
      using filter_requests_keeps(2) [OF r1(1), of x] by (auto simp: update_conv' day_def)
    then show ?thesis
      using Cons.IH [OF r1(1)] True Cons.prems(2,3) r1(2) by (auto simp: go_map_update length_update split: option.splits)
  next
    case False
    then show ?thesis using Cons.IH [of reqs r] Cons.prems by (auto simp: Let_def)
  qed
qed simp

definition covered :: "(bytes \<times> int) list \<Rightarrow> int \<Rightarrow> bytes \<Rightarrow> int \<Rightarrow> bool" where
  "covered reqs now k t \<longleftrightarrow> (\<exists>t'. map_of reqs k = Some t' \<and> t \<le> t') \<or> t + day < now"

lemma covered_mono: "covered reqs now k t \<Longrightarrow> now \<le> now' \<Longrightarrow> covered reqs now' k t"
  by (auto simp: covered_def)

lemma deletes_lookup: "map_of (foldl (\<lambda>m k. AList.delete k m) m ks) k = (if k \<in> set ks then None else map_of m k)"
  by (induction ks arbitrary: m) (auto simp: delete_conv')

lemma deletes_map:
  "go_map m \<Longrightarrow> go_map (foldl (\<lambda>m k. AList.delete k m) m ks) \<and> length (foldl (\<lambda>m k. AList.delete k m) m ks) \<le> length m"
proof (induction ks arbitrary: m)
  case (Cons k ks)
  have "length (AList.delete k m) \<le> length m" by (simp add: AList.delete_eq)
  then show ?case using Cons.IH [OF go_map_delete [OF Cons.prems, of k]] by simp
qed simp

lemma requestMissing_step:
  assumes "requestMissingAppStateKeys now raw sent reqs = (ks, reqs')" and "go_map reqs" and "length reqs \<le> maxAppStateKeyRequestEntries"
  shows "go_map reqs' \<and> length reqs' \<le> maxAppStateKeyRequestEntries \<and> distinct ks"
    and "covered reqs now k t \<Longrightarrow> k \<in> set ks \<Longrightarrow> t + day < now"
    and "covered reqs now k t \<Longrightarrow> covered reqs' now k t"
    and "k \<in> set ks \<Longrightarrow> covered reqs' now k now"
proof -
  define reqs0 where "reqs0 = (if length reqs \<ge> maxAppStateKeyRequestEntries then pruneExpiredCache reqs (now - day) else reqs)"
  obtain r reqs1 where r: "filter_requests now raw reqs0 = (r, reqs1)" by force
  have out: "(ks, reqs') = (if r \<noteq> [] \<and> \<not> sent then ([], foldl (\<lambda>m k. AList.delete k m) reqs1 r) else (r, reqs1))"
    using assms(1) r by (simp add: requestMissingAppStateKeys_def reqs0_def [symmetric])
  have m0: "go_map reqs0" "length reqs0 \<le> maxAppStateKeyRequestEntries"
    using assms(2,3) length_prune [of reqs "now - day"] by (auto simp: reqs0_def go_map_prune)
  have c0: "covered reqs0 now k t" if "covered reqs now k t" for k t
    using that assms(2) by (auto simp: covered_def reqs0_def pruneExpiredCache_lookup)
  have due: "t + day < now" if "covered reqs now k t" "k \<in> set r" for k t
    using c0 [OF that(1)] filter_requests_keeps(2) [OF r that(2)] by (force simp: covered_def)
  note m1 = filter_requests_map [OF r m0]
  show "go_map reqs' \<and> length reqs' \<le> maxAppStateKeyRequestEntries \<and> distinct ks"
    using out m1 deletes_map [of reqs1 r] by (auto split: if_splits)
  show "covered reqs now k t \<Longrightarrow> k \<in> set ks \<Longrightarrow> t + day < now"
    using due out by (auto split: if_splits)
  show "covered reqs now k t \<Longrightarrow> covered reqs' now k t"
    using due [of k t] c0 [of k t] filter_requests_keeps(1) [OF r, of k] out
    by (cases "k \<in> set r") (auto simp: covered_def deletes_lookup split: if_splits)
  show "k \<in> set ks \<Longrightarrow> covered reqs' now k now"
    using filter_requests_keeps(2) [OF r, of k] out by (auto simp: covered_def split: if_splits)
qed

text \<open>A run of calls, each with its time, the missing keys and whether the message goes out, and the log of what was sent.\<close>

fun request_run :: "(int \<times> bytes list \<times> bool) list \<Rightarrow> (bytes \<times> int) list \<Rightarrow> (bytes \<times> int) list \<times> (bytes \<times> int) list" where
  "request_run [] reqs = ([], reqs)"
| "request_run ((now, raw, sent) # calls) reqs =
     (case requestMissingAppStateKeys now raw sent reqs of (ks, reqs) \<Rightarrow>
      case request_run calls reqs of (log, reqs) \<Rightarrow> (map (\<lambda>k. (k, now)) ks @ log, reqs))"

lemma request_run_throttled:
  assumes "request_run calls reqs = (log, reqs')" and "sorted (map fst calls)" and "go_map reqs" and "length reqs \<le> maxAppStateKeyRequestEntries"
  shows "length reqs' \<le> maxAppStateKeyRequestEntries \<and> sorted_wrt (\<lambda>(k1, t1) (k2, t2). k1 = k2 \<longrightarrow> t1 + day < t2) log \<and>
    (\<forall>(k2, t2) \<in> set log. \<forall>t. (\<forall>now \<in> set (map fst calls). covered reqs now k2 t) \<longrightarrow> t + day < t2)"
  using assms
proof (induction calls arbitrary: reqs log)
  case (Cons call calls)
  obtain now raw sent where call: "call = (now, raw, sent)" by (cases call)
  obtain ks reqs1 log1 where s: "requestMissingAppStateKeys now raw sent reqs = (ks, reqs1)" "request_run calls reqs1 = (log1, reqs')"
      "log = map (\<lambda>k. (k, now)) ks @ log1"
    using Cons.prems(1) by (auto simp: call split: prod.splits)
  note step = requestMissing_step [OF s(1) Cons.prems(3,4)]
  have later: "now \<le> n" if "n \<in> set (map fst calls)" for n using Cons.prems(2) that by (auto simp: call)
  have IH: "length reqs' \<le> maxAppStateKeyRequestEntries" "sorted_wrt (\<lambda>(k1, t1) (k2, t2). k1 = k2 \<longrightarrow> t1 + day < t2) log1"
      "\<And>k2 t2 t. (k2, t2) \<in> set log1 \<Longrightarrow> (\<And>n. n \<in> set (map fst calls) \<Longrightarrow> covered reqs1 n k2 t) \<Longrightarrow> t + day < t2"
    using Cons.IH [OF s(2)] Cons.prems(2) step(1) by (auto simp: call)
  have old: "t + day < t2" if "(k2, t2) \<in> set log" "\<forall>n \<in> set (map fst (call # calls)). covered reqs n k2 t" for k2 t2 t
  proof (cases "(k2, t2) \<in> set log1")
    case True
    then show ?thesis using IH(3) [OF True] step(3) [of k2 t] covered_mono later that(2) by (auto simp: call)
  next
    case False
    then show ?thesis using that step(2) [of k2 t] by (auto simp: s(3) call)
  qed
  have "sorted_wrt (\<lambda>(k1, t1) (k2, t2). k1 = k2 \<longrightarrow> t1 + day < t2) (map (\<lambda>k. (k, now)) ks)"
    using step(1) by (auto simp: sorted_wrt_map distinct_conv_nth sorted_wrt_iff_nth_less)
  moreover have "now + day < t2" if "k \<in> set ks" "(k, t2) \<in> set log1" for k t2
    using IH(3) [OF that(2)] step(4) [OF that(1)] covered_mono later by blast
  ultimately have "sorted_wrt (\<lambda>(k1, t1) (k2, t2). k1 = k2 \<longrightarrow> t1 + day < t2) log"
    using IH(2) by (auto simp: s(3) sorted_wrt_append)
  then show ?case using IH(1) old by blast
qed simp

text \<open>
  C32: Missing keys are asked for at most once a day. Over any run of calls at non-decreasing times, two
  requests for the same key that went out are more than 24 hours apart, also across failed
  requests and pruning, and the table of requests never has more than 1024 entries.
\<close>

theorem key_requests_throttled:
  assumes "sorted (map fst calls)" and "request_run calls [] = (log, reqs)"
  shows "length reqs \<le> 1024 \<and> (\<forall>i j. i < j \<longrightarrow> j < length log \<longrightarrow> fst (log ! i) = fst (log ! j) \<longrightarrow> snd (log ! i) + day < snd (log ! j))"
  using request_run_throttled [OF assms(2,1)]
  by (auto simp: go_map_def maxAppStateKeyRequestEntries_def sorted_wrt_iff_nth_less case_prod_unfold)

theorem key_requests_throttled_witness:
  "request_run [(0, [[1], [2]], True), (50, [[1]], True), (90000, [[1]], True)] [] =
     ([([1], 0), ([2], 0), ([1], 90000)], [([1], 90000), ([2], 0)]) \<and> 0 + day < 90000"
proof -
  have run: "request_run [(0, [[1], [2]], True), (50, [[1]], True), (90000, [[1]], True)] [] =
     ([([1], 0), ([2], 0), ([1], 90000)], [([1], 90000), ([2], 0)])"
    by (simp add: requestMissingAppStateKeys_def maxAppStateKeyRequestEntries_def day_def Let_def)
  have "sorted (map fst [(0 :: int, [[1 :: u8], [2]], True), (50, [[1]], True), (90000, [[1]], True)])" by simp
  from key_requests_throttled [OF this run, THEN conjunct2, rule_format, of 0 2] have "0 + day < 90000" by simp
  with run show ?thesis by simp
qed

end
