(* ===== verification/Range_Coder.thy ===== *)
theory Range_Coder
  imports Prelude
begin

text \<open>
  The range coder of the MLow codec (\<open>lib/mlow/rangecoder.go\<close>): symbols are coded towards the front of
  a buffer, raw bits towards its back. \<open>uint32\<close> is \<^typ>\<open>u32\<close>, so that its arithmetic wraps; the
  \<open>int32\<close> fields \<open>rem\<close> and \<open>nendBits\<close> are integers, wrapped by \<open>s32\<close> where they could leave the
  range, and \<open>nbitsTotal\<close> is a word. The loop of \<open>normalize\<close> never ends on an empty range: that is
  the result \<open>Loops\<close>; an index outside a table is \<open>IndexOutOfRange\<close>.
\<close>

section \<open>Constants and results\<close>

definition ecSymBits :: nat where "ecSymBits = 8"
definition ecCodeBits :: nat where "ecCodeBits = 32"
definition ecSymMax :: nat where "ecSymMax = 255"
definition ecCodeTop :: u32 where "ecCodeTop = 0x80000000"
definition ecCodeBot :: u32 where "ecCodeBot = 0x800000"
definition ecCodeExtra :: nat where "ecCodeExtra = 7"
definition ecWindowSize :: nat where "ecWindowSize = 32"
definition ecUintBits :: nat where "ecUintBits = 8"
definition ecCodeShift :: nat where "ecCodeShift = 23"

lemmas ec_defs = ecSymBits_def ecCodeBits_def ecSymMax_def ecCodeTop_def ecCodeBot_def ecCodeExtra_def
  ecWindowSize_def ecUintBits_def ecCodeShift_def

datatype rc_stop = Loops | IndexOutOfRange

definition from_loop :: "'a option \<Rightarrow> rc_stop + 'a" where
  "from_loop r = (case r of None \<Rightarrow> Inl Loops | Some x \<Rightarrow> Inr x)"

definition s32 :: "int \<Rightarrow> int" where
  "s32 x = sint (word_of_int x :: u32)"

fun bit_len :: "nat \<Rightarrow> nat" where
  "bit_len n = (if n = 0 then 0 else Suc (bit_len (n div 2)))"

declare bit_len.simps [simp del]

definition ilog :: "u32 \<Rightarrow> nat" where
  "ilog x = bit_len (unat x)"

definition ecMini :: "u32 \<Rightarrow> u32 \<Rightarrow> u32" where
  "ecMini a b = (if a < b then a else b)"

section \<open>Decoder\<close>

record RangeDecoder =
  rd_buf :: bytes
  rd_storage :: u32
  rd_endOffs :: u32
  rd_endWindow :: u32
  rd_nendBits :: int
  rd_nbitsTotal :: u32
  rd_offs :: u32
  rd_rng :: u32
  rd_val :: u32
  rd_ext :: u32
  rd_rem :: int
  rd_Err :: int

definition rd_readByte :: "RangeDecoder \<Rightarrow> u32 \<times> RangeDecoder" where
  "rd_readByte d =
     (if rd_offs d < rd_storage d then (ucast (rd_buf d ! unat (rd_offs d)), d\<lparr>rd_offs := rd_offs d + 1\<rparr>)
      else (0, d))"

definition rd_readByteFromEnd :: "RangeDecoder \<Rightarrow> u32 \<times> RangeDecoder" where
  "rd_readByteFromEnd d =
     (if rd_endOffs d < rd_storage d then
        (let d = d\<lparr>rd_endOffs := rd_endOffs d + 1\<rparr>
         in (ucast (rd_buf d ! unat (rd_storage d - rd_endOffs d)), d))
      else (0, d))"

definition rd_shift :: "RangeDecoder \<Rightarrow> RangeDecoder" where
  "rd_shift d =
     (let d = d\<lparr>rd_nbitsTotal := rd_nbitsTotal d + of_nat ecSymBits, rd_rng := push_bit ecSymBits (rd_rng d)\<rparr>;
          sym0 = rd_rem d
      in case rd_readByte d of (b, d) \<Rightarrow>
        let d = d\<lparr>rd_rem := uint b\<rparr>;
            symb = drop_bit (ecSymBits - ecCodeExtra) (push_bit ecSymBits sym0 OR rd_rem d)
        in d\<lparr>rd_val := (push_bit ecSymBits (rd_val d) + (of_nat ecSymMax AND NOT (word_of_int symb))) AND (ecCodeTop - 1)\<rparr>)"

partial_function (option) rd_normalize :: "RangeDecoder \<Rightarrow> RangeDecoder option" where
  "rd_normalize d = (if rd_rng d \<le> ecCodeBot then rd_normalize (rd_shift d) else Some d)"

declare rd_normalize.simps [code]

definition NewRangeDecoder :: "bytes \<Rightarrow> rc_stop + RangeDecoder" where
  "NewRangeDecoder buf =
     (let d = \<lparr>rd_buf = buf, rd_storage = of_nat (length buf), rd_endOffs = 0, rd_endWindow = 0, rd_nendBits = 0,
            rd_nbitsTotal = of_nat (ecCodeBits + 1 - (ecCodeBits - ecCodeExtra) div ecSymBits * ecSymBits),
            rd_offs = 0, rd_rng = push_bit ecCodeExtra 1, rd_val = 0, rd_ext = 0, rd_rem = 0, rd_Err = 0\<rparr>
      in case rd_readByte d of (b, d) \<Rightarrow>
        let d = d\<lparr>rd_rem := uint b\<rparr>;
            d = d\<lparr>rd_val := rd_rng d - 1 - word_of_int (drop_bit (ecSymBits - ecCodeExtra) (rd_rem d))\<rparr>
        in from_loop (rd_normalize d))"

definition rd_Decode :: "RangeDecoder \<Rightarrow> u32 \<Rightarrow> u32 \<times> RangeDecoder" where
  "rd_Decode d ft =
     (if ft = 0 then (0, d\<lparr>rd_Err := 1, rd_ext := 1\<rparr>)
      else
        let d = d\<lparr>rd_ext := rd_rng d div ft\<rparr>
        in if rd_ext d = 0 then (0, d\<lparr>rd_Err := 1, rd_ext := 1\<rparr>)
           else let s = rd_val d div rd_ext d in (ft - ecMini (s + 1) ft, d))"

definition decodeBin :: "RangeDecoder \<Rightarrow> u32 \<Rightarrow> u32 \<times> RangeDecoder" where
  "decodeBin d bitsN =
     (let d = d\<lparr>rd_ext := drop_bit (unat bitsN) (rd_rng d)\<rparr>
      in if rd_ext d = 0 then (0, d\<lparr>rd_Err := 1, rd_ext := 1\<rparr>)
         else let s = rd_val d div rd_ext d; ft = push_bit (unat bitsN) 1 in (ft - ecMini (s + 1) ft, d))"

definition rd_Update :: "RangeDecoder \<Rightarrow> u32 \<Rightarrow> u32 \<Rightarrow> u32 \<Rightarrow> rc_stop + RangeDecoder" where
  "rd_Update d fl fh ft =
     (let s = rd_ext d * (ft - fh);
          d = d\<lparr>rd_val := rd_val d - s\<rparr>;
          d = (if fl > 0 then d\<lparr>rd_rng := rd_ext d * (fh - fl)\<rparr> else d\<lparr>rd_rng := rd_rng d - s\<rparr>)
      in from_loop (rd_normalize d))"

definition DecodeRawSymbol :: "RangeDecoder \<Rightarrow> u32 \<Rightarrow> rc_stop + u32 \<times> RangeDecoder" where
  "DecodeRawSymbol d nbits =
     (case decodeBin d nbits of (symb, d) \<Rightarrow>
        bind_res (rd_Update d symb (symb + 1) (push_bit (unat nbits) 1)) (\<lambda>d. Inr (symb, d)))"

definition rd_BitLogp :: "RangeDecoder \<Rightarrow> u32 \<Rightarrow> rc_stop + int \<times> RangeDecoder" where
  "rd_BitLogp d logp =
     (let r = rd_rng d; dv = rd_val d; s = drop_bit (unat logp) r;
          ret = (if dv < s then 1 else 0);
          d = (if ret = 0 then d\<lparr>rd_val := dv - s, rd_rng := r - s\<rparr> else d\<lparr>rd_rng := s\<rparr>)
      in bind_res (from_loop (rd_normalize d)) (\<lambda>d. Inr (ret, d)))"

text \<open>The search of \<open>DecodeICDF\<close>: the table from position \<open>ret\<close> on, the previous bound \<open>t\<close>.\<close>

fun icdf_loop :: "u32 \<Rightarrow> u32 \<Rightarrow> u8 list \<Rightarrow> nat \<Rightarrow> u32 \<Rightarrow> nat \<times> u32 \<times> u32" where
  "icdf_loop r dv [] ret t = (ret, t, t)"
| "icdf_loop r dv (x # xs) ret t =
     (let s = r * ucast x in if dv \<ge> s \<or> xs = [] then (ret, t, s) else icdf_loop r dv xs (Suc ret) s)"

definition DecodeICDF :: "RangeDecoder \<Rightarrow> u8 list \<Rightarrow> u32 \<Rightarrow> rc_stop + nat \<times> RangeDecoder" where
  "DecodeICDF d icdf ftb =
     (if length icdf = 0 then Inr (0, d\<lparr>rd_Err := 1\<rparr>)
      else
        let s0 = rd_rng d; dv = rd_val d; r = drop_bit (unat ftb) s0
        in case icdf_loop r dv icdf 0 s0 of (ret, t, s) \<Rightarrow>
             bind_res (from_loop (rd_normalize (d\<lparr>rd_val := dv - s, rd_rng := t - s\<rparr>))) (\<lambda>d. Inr (ret, d)))"

function cdf_search :: "u16 list \<Rightarrow> u32 \<Rightarrow> nat \<Rightarrow> nat" where
  "cdf_search cdf target k =
     (if k < length cdf - 1 then
        (if ucast (cdf ! (k + 1)) > target then k else cdf_search cdf target (k + 1))
      else k)"
  by auto
termination
  by (relation "measure (\<lambda>(cdf, _, k). length cdf - k)") auto

declare cdf_search.simps [simp del]

definition DecodeCDF :: "RangeDecoder \<Rightarrow> u16 list \<Rightarrow> rc_stop + nat \<times> RangeDecoder" where
  "DecodeCDF d cdf =
     (let n = length cdf
      in if n < 2 then Inr (0, d\<lparr>rd_Err := 1\<rparr>)
         else
           let base = ucast (cdf ! 0)
           in if ucast (cdf ! (n - 1)) \<le> base then Inr (0, d\<lparr>rd_Err := 1\<rparr>)
              else
                let ft = ucast (cdf ! (n - 1)) - base
                in case rd_Decode d ft of (fs, d) \<Rightarrow>
                  let k = cdf_search cdf (base + fs) 0
                  in if k + 1 < n then
                       bind_res (rd_Update d (ucast (cdf ! k) - base) (ucast (cdf ! (k + 1)) - base) ft) (\<lambda>d. Inr (k, d))
                     else Inl IndexOutOfRange)"

lemma s32_range: "- (2 ^ 31) \<le> s32 x" "s32 x < 2 ^ 31"
  using sint_greater_eq [of "word_of_int x :: u32"] sint_less [of "word_of_int x :: u32"] by (simp_all add: s32_def)

lemma s32_id: "- (2 ^ 31) \<le> x \<Longrightarrow> x < 2 ^ 31 \<Longrightarrow> s32 x = x"
  by (simp add: s32_def signed_of_int signed_take_bit_int_eq_self)

lemma uint_s32: "uint (word_of_int (s32 x) :: u32) = x mod 2 ^ 32"
  by (simp add: s32_def uint_word_of_int)

lemma s32_small: assumes "(word_of_int (s32 x) :: u32) \<le> 24" shows "s32 x = x mod 2 ^ 32"
proof -
  have "x mod 2 ^ 32 \<le> 24" using assms uint_s32 [of x] by (simp add: word_le_def)
  then have "s32 (x mod 2 ^ 32) = x mod 2 ^ 32" by (intro s32_id) auto
  moreover have "(word_of_int (x mod 2 ^ 32) :: u32) = word_of_int x" by (simp add: word_of_int_eq_iff take_bit_eq_mod)
  ultimately show ?thesis by (simp add: s32_def)
qed

definition refill_measure :: "int \<Rightarrow> nat" where
  "refill_measure a = (if 0 \<le> a \<and> a \<le> 24 then nat (40 - a) else 100)"

lemma refill_decreases:
  assumes "\<not> (word_of_int (s32 (a + 8)) :: u32) > 24"
  shows "refill_measure (s32 (a + 8)) < refill_measure a"
proof -
  have small: "s32 (a + 8) = (a + 8) mod 2 ^ 32" using assms by (intro s32_small) simp
  then have "(a + 8) mod 2 ^ 32 \<le> 24" using assms uint_s32 [of "a + 8"] by (simp add: word_le_def not_less)
  then show ?thesis using small by (auto simp: refill_measure_def)
qed

text \<open>The inner loop of \<open>BitsN\<close>: a byte at a time until more than 24 bits are in the window.\<close>

function refill :: "u32 \<Rightarrow> int \<Rightarrow> RangeDecoder \<Rightarrow> u32 \<times> int \<times> RangeDecoder" where
  "refill window available d =
     (case rd_readByteFromEnd d of (b, d) \<Rightarrow>
        let window = window OR push_bit (unat (word_of_int available :: u32)) b;
            available = s32 (available + int ecSymBits)
        in if (word_of_int available :: u32) > of_nat (ecWindowSize - ecSymBits) then (window, available, d)
           else refill window available d)"
  by auto
termination
  by (relation "measure (\<lambda>(_, a, _). refill_measure a)") (auto simp: ec_defs intro: refill_decreases)

declare refill.simps [simp del]

definition rd_BitsN :: "RangeDecoder \<Rightarrow> u32 \<Rightarrow> u32 \<times> RangeDecoder" where
  "rd_BitsN d n =
     (let window = rd_endWindow d; available = rd_nendBits d
      in case (if (word_of_int available :: u32) < n then refill window available d else (window, available, d)) of
        (window, available, d) \<Rightarrow>
          let ret = window AND (push_bit (unat n) 1 - 1);
              window = drop_bit (unat n) window;
              available = s32 (available - sint n)
          in (ret, d\<lparr>rd_endWindow := window, rd_nendBits := available, rd_nbitsTotal := rd_nbitsTotal d + n\<rparr>))"

definition DecodeUint :: "RangeDecoder \<Rightarrow> u32 \<Rightarrow> rc_stop + u32 \<times> RangeDecoder" where
  "DecodeUint d ft0 =
     (let ft = ft0 - 1; ftb = ilog ft
      in if ftb > ecUintBits then
           (let ftb = ftb - ecUintBits; t = drop_bit ftb ft + 1
            in case rd_Decode d t of (s, d) \<Rightarrow>
              bind_res (rd_Update d s (s + 1) t) (\<lambda>d.
                case rd_BitsN d (of_nat ftb) of (b, d) \<Rightarrow>
                  let v = push_bit ftb s OR b
                  in if v \<le> ft then Inr (v, d) else Inr (ft, d\<lparr>rd_Err := 1\<rparr>)))
         else
           (let ft = ft + 1
            in case rd_Decode d ft of (s, d) \<Rightarrow> bind_res (rd_Update d s (s + 1) ft) (\<lambda>d. Inr (s, d))))"

definition Decode64FineSym :: "RangeDecoder \<Rightarrow> rc_stop + int \<times> RangeDecoder" where
  "Decode64FineSym d =
     (let d = d\<lparr>rd_ext := drop_bit 6 (rd_rng d)\<rparr>
      in if rd_ext d = 0 then Inr (0, d\<lparr>rd_Err := 1, rd_ext := 1\<rparr>)
         else
           let s = rd_val d div rd_ext d;
               symb = 63 - uint s;
               symb = (if symb < 0 then 0 else if symb > 64 then 64 else symb)
           in bind_res (rd_Update d (word_of_int symb) (word_of_int symb + 1) 64) (\<lambda>d. Inr (symb, d)))"

definition rd_Tell :: "RangeDecoder \<Rightarrow> u32" where
  "rd_Tell d = rd_nbitsTotal d - of_nat (ilog (rd_rng d))"

section \<open>Encoder\<close>

record RangeEncoder =
  re_buf :: bytes
  re_storage :: u32
  re_endOffs :: u32
  re_endWindow :: u32
  re_nendBits :: int
  re_nbitsTotal :: u32
  re_offs :: u32
  re_rng :: u32
  re_val :: u32
  re_ext :: u32
  re_rem :: int
  re_err :: int

definition NewRangeEncoder :: "nat \<Rightarrow> RangeEncoder" where
  "NewRangeEncoder sz =
     \<lparr>re_buf = replicate sz 0, re_storage = of_nat sz, re_endOffs = 0, re_endWindow = 0, re_nendBits = 0,
      re_nbitsTotal = of_nat (ecCodeBits + 1), re_offs = 0, re_rng = ecCodeTop, re_val = 0, re_ext = 0, re_rem = - 1, re_err = 0\<rparr>"

definition re_writeByte :: "RangeEncoder \<Rightarrow> u32 \<Rightarrow> RangeEncoder" where
  "re_writeByte e b =
     (if re_offs e + re_endOffs e < re_storage e then
        e\<lparr>re_buf := (re_buf e)[unat (re_offs e) := ucast b], re_offs := re_offs e + 1\<rparr>
      else e\<lparr>re_err := - 1\<rparr>)"

definition re_writeByteAtEnd :: "RangeEncoder \<Rightarrow> u32 \<Rightarrow> RangeEncoder" where
  "re_writeByteAtEnd e b =
     (if re_offs e + re_endOffs e < re_storage e then
        (let e = e\<lparr>re_endOffs := re_endOffs e + 1\<rparr>
         in e\<lparr>re_buf := (re_buf e)[unat (re_storage e - re_endOffs e) := ucast b]\<rparr>)
      else e\<lparr>re_err := - 1\<rparr>)"

text \<open>The loop of \<open>carryOut\<close> that writes the \<open>ext\<close> pending symbols.\<close>

fun write_pending :: "nat \<Rightarrow> u32 \<Rightarrow> RangeEncoder \<Rightarrow> RangeEncoder" where
  "write_pending 0 symb e = e"
| "write_pending (Suc n) symb e = (let e = re_writeByte e symb in write_pending n symb (e\<lparr>re_ext := re_ext e - 1\<rparr>))"

definition carryOut :: "int \<Rightarrow> RangeEncoder \<Rightarrow> RangeEncoder" where
  "carryOut c e =
     (if c \<noteq> int ecSymMax then
        (let carry = drop_bit ecSymBits c;
             e = (if re_rem e \<ge> 0 then re_writeByte e (word_of_int (re_rem e + carry)) else e);
             e = (if re_ext e > 0 then write_pending (unat (re_ext e)) (word_of_int ((int ecSymMax + carry) AND int ecSymMax)) e else e)
         in e\<lparr>re_rem := c AND int ecSymMax\<rparr>)
      else e\<lparr>re_ext := re_ext e + 1\<rparr>)"

definition re_shift :: "RangeEncoder \<Rightarrow> RangeEncoder" where
  "re_shift e =
     (let e = carryOut (uint (drop_bit ecCodeShift (re_val e))) e
      in e\<lparr>re_val := push_bit ecSymBits (re_val e) AND (ecCodeTop - 1), re_rng := push_bit ecSymBits (re_rng e),
           re_nbitsTotal := re_nbitsTotal e + of_nat ecSymBits\<rparr>)"

partial_function (option) re_normalize :: "RangeEncoder \<Rightarrow> RangeEncoder option" where
  "re_normalize e = (if re_rng e \<le> ecCodeBot then re_normalize (re_shift e) else Some e)"

declare re_normalize.simps [code]

definition re_Encode :: "RangeEncoder \<Rightarrow> u32 \<Rightarrow> u32 \<Rightarrow> u32 \<Rightarrow> rc_stop + RangeEncoder" where
  "re_Encode e fl fh ft =
     (if ft = 0 then Inr (e\<lparr>re_err := - 1\<rparr>)
      else
        let r = re_rng e div ft
        in from_loop (re_normalize
             (if fl > 0 then e\<lparr>re_val := re_val e + (re_rng e - r * (ft - fl)), re_rng := r * (fh - fl)\<rparr>
              else e\<lparr>re_rng := re_rng e - r * (ft - fh)\<rparr>)))"

definition re_BitLogp :: "RangeEncoder \<Rightarrow> int \<Rightarrow> u32 \<Rightarrow> rc_stop + RangeEncoder" where
  "re_BitLogp e v logp =
     (let r = re_rng e; l = re_val e; s = drop_bit (unat logp) r; r2 = r - s
      in from_loop (re_normalize (if v \<noteq> 0 then e\<lparr>re_val := l + r2, re_rng := s\<rparr> else e\<lparr>re_rng := r2\<rparr>)))"

definition EncodeICDF :: "RangeEncoder \<Rightarrow> int \<Rightarrow> u8 list \<Rightarrow> u32 \<Rightarrow> rc_stop + RangeEncoder" where
  "EncodeICDF e s icdf ftb =
     (let r = drop_bit (unat ftb) (re_rng e)
      in if s < 0 \<or> nat s \<ge> length icdf then Inl IndexOutOfRange
         else if s > 0 then
           from_loop (re_normalize
             (e\<lparr>re_val := re_val e + (re_rng e - r * ucast (icdf ! (nat s - 1))),
                re_rng := r * ucast (icdf ! (nat s - 1) - icdf ! nat s)\<rparr>))
         else from_loop (re_normalize (e\<lparr>re_rng := re_rng e - r * ucast (icdf ! nat s)\<rparr>)))"

definition EncodeCDF :: "RangeEncoder \<Rightarrow> int \<Rightarrow> u16 list \<Rightarrow> rc_stop + RangeEncoder" where
  "EncodeCDF e s cdf =
     (let n = length cdf
      in if n < 2 \<or> s < 0 \<or> s32 (s + 1) \<ge> int n then Inr (e\<lparr>re_err := - 1\<rparr>)
         else
           let base = ucast (cdf ! 0)
           in if ucast (cdf ! (n - 1)) \<le> base then Inr (e\<lparr>re_err := - 1\<rparr>)
              else if nat s \<ge> n \<or> s32 (s + 1) < 0 then Inl IndexOutOfRange
              else re_Encode e (ucast (cdf ! nat s) - base) (ucast (cdf ! nat (s32 (s + 1))) - base) (ucast (cdf ! (n - 1)) - base))"

definition flush_measure :: "int \<Rightarrow> nat" where
  "flush_measure u = (if 8 \<le> u \<and> u < 2 ^ 31 then nat u else 2 ^ 31)"

lemma flush_decreases: "\<not> s32 (u - 8) < 8 \<Longrightarrow> flush_measure (s32 (u - 8)) < flush_measure u"
  using s32_id [of "u - 8"] s32_range [of "u - 8"] by (auto simp: flush_measure_def)

text \<open>The inner loop of \<open>BitsN\<close>: whole bytes move from the window to the back of the buffer.\<close>

function flush_window :: "u32 \<Rightarrow> int \<Rightarrow> RangeEncoder \<Rightarrow> u32 \<times> int \<times> RangeEncoder" where
  "flush_window window used e =
     (let e = re_writeByteAtEnd e (window AND of_nat ecSymMax);
          window = drop_bit ecSymBits window;
          used = s32 (used - int ecSymBits)
      in if used < int ecSymBits then (window, used, e) else flush_window window used e)"
  by auto
termination
  by (relation "measure (\<lambda>(_, u, _). flush_measure u)") (auto simp: ec_defs intro: flush_decreases)

declare flush_window.simps [simp del]

definition re_BitsN :: "RangeEncoder \<Rightarrow> u32 \<Rightarrow> u32 \<Rightarrow> RangeEncoder" where
  "re_BitsN e fl n =
     (let window = re_endWindow e; used = re_nendBits e
      in case (if s32 (used + sint n) > int ecWindowSize then flush_window window used e else (window, used, e)) of
        (window, used, e) \<Rightarrow>
          let window = window OR push_bit (unat (word_of_int used :: u32)) fl;
              used = s32 (used + sint n)
          in e\<lparr>re_endWindow := window, re_nendBits := used, re_nbitsTotal := re_nbitsTotal e + n\<rparr>)"

definition EncodeUint :: "RangeEncoder \<Rightarrow> u32 \<Rightarrow> u32 \<Rightarrow> rc_stop + RangeEncoder" where
  "EncodeUint e fl ft0 =
     (let ft = ft0 - 1; ftb = ilog ft
      in if ftb > ecUintBits then
           (let shift = ftb - ecUintBits; t = drop_bit shift ft + 1
            in bind_res (re_Encode e (drop_bit shift fl) (drop_bit shift fl + 1) t) (\<lambda>e.
                 Inr (re_BitsN e (fl AND (push_bit shift 1 - 1)) (of_nat shift))))
         else re_Encode e fl (fl + 1) (ft + 1))"

definition EncodeRawSymbol :: "RangeEncoder \<Rightarrow> u32 \<Rightarrow> u32 \<Rightarrow> rc_stop + RangeEncoder" where
  "EncodeRawSymbol e symb nbits = re_Encode e symb (symb + 1) (push_bit (unat nbits) 1)"

definition Encode64FineSym :: "RangeEncoder \<Rightarrow> int \<Rightarrow> rc_stop + RangeEncoder" where
  "Encode64FineSym e symb = re_Encode e (word_of_int symb) (word_of_int symb + 1) 64"

text \<open>The loops of \<open>Done\<close>: the remaining bits of the range, and the whole bytes of the bit window.\<close>

function done_front :: "int \<Rightarrow> u32 \<Rightarrow> RangeEncoder \<Rightarrow> RangeEncoder" where
  "done_front l fin e =
     (if l > 0 then done_front (l - int ecSymBits) (push_bit ecSymBits fin AND (ecCodeTop - 1)) (carryOut (uint (drop_bit ecCodeShift fin)) e)
      else e)"
  by auto
termination
  by (relation "measure (\<lambda>(l, _, _). nat l)") (auto simp: ec_defs)

function done_back :: "u32 \<Rightarrow> int \<Rightarrow> RangeEncoder \<Rightarrow> u32 \<times> int \<times> RangeEncoder" where
  "done_back window used e =
     (if used \<ge> int ecSymBits then done_back (drop_bit ecSymBits window) (used - int ecSymBits) (re_writeByteAtEnd e (window AND of_nat ecSymMax))
      else (window, used, e))"
  by auto
termination
  by (relation "measure (\<lambda>(_, used, _). nat used)") (auto simp: ec_defs)

declare done_front.simps [simp del] done_back.simps [simp del]

definition zero_gap :: "RangeEncoder \<Rightarrow> RangeEncoder" where
  "zero_gap e =
     e\<lparr>re_buf := map (\<lambda>i. if unat (re_offs e) \<le> i \<and> i < unat (re_storage e - re_endOffs e) then 0 else re_buf e ! i) [0..<length (re_buf e)]\<rparr>"

definition re_Done :: "RangeEncoder \<Rightarrow> RangeEncoder" where
  "re_Done e =
     (let l = int ecCodeBits - int (ilog (re_rng e));
          msk = drop_bit (nat l) (ecCodeTop - 1);
          fin = (re_val e + msk) AND NOT msk;
          (l, fin) = (if (fin OR msk) \<ge> re_val e + re_rng e
             then (let msk = drop_bit 1 msk in (l + 1, (re_val e + msk) AND NOT msk)) else (l, fin));
          e = done_front l fin e;
          e = (if re_rem e \<ge> 0 \<or> re_ext e > 0 then carryOut 0 e else e)
      in case done_back (re_endWindow e) (re_nendBits e) e of (window, used, e) \<Rightarrow>
        if re_err e = 0 then
          (let e = zero_gap e
           in if used > 0 then
                (if re_endOffs e \<ge> re_storage e - re_offs e then e\<lparr>re_err := - 1\<rparr>
                 else (let i = unat (re_storage e - re_endOffs e - 1)
                       in e\<lparr>re_buf := (re_buf e)[i := re_buf e ! i OR ucast window]\<rparr>))
              else e)
        else e)"

definition ConsumedLen :: "RangeEncoder \<Rightarrow> nat" where
  "ConsumedLen e = unat (re_offs e + re_endOffs e)"

end
