(* ===== verification/Range_Coder_Encoder.thy ===== *)
theory Range_Coder_Encoder
  imports Range_Coder
begin

text \<open>
  What the range encoder computes. The bytes it has produced, with the pending ones, are a number in
  base 256; together with \<open>val\<close> it is the lower end of an interval of width \<open>rng\<close>. Every range-coding
  operation narrows this interval, a shift scales it by 256, and carries are resolved into the
  pending bytes without ever reaching a byte already written.
\<close>

section \<open>Numbers in base 256\<close>

definition val256 :: "nat list \<Rightarrow> nat" where
  "val256 bs = foldl (\<lambda>a b. a * 256 + b) 0 bs"

lemma val256_foldl: "foldl (\<lambda>a b. a * 256 + b) a bs = a * 256 ^ length bs + val256 bs"
proof (induction bs arbitrary: a)
  case (Cons b bs)
  have "foldl (\<lambda>a b. a * 256 + b) a (b # bs) = (a * 256 + b) * 256 ^ length bs + val256 bs" by (simp add: Cons.IH)
  moreover have "val256 (b # bs) = b * 256 ^ length bs + val256 bs" using Cons.IH [of b] by (simp add: val256_def)
  ultimately show ?case by (simp add: add_mult_distrib mult.assoc)
qed (simp add: val256_def)

lemma val256_append: "val256 (xs @ ys) = val256 xs * 256 ^ length ys + val256 ys"
  using val256_foldl [of "val256 xs" ys] by (simp add: val256_def)

lemma val256_simps [simp]:
  "val256 [] = 0" "val256 [b] = b" "val256 (b # bs) = b * 256 ^ length bs + val256 bs"
  using val256_append [of "[b]" bs] by (simp_all add: val256_def)

lemma val256_less: "(\<And>b. b \<in> set bs \<Longrightarrow> b < 256) \<Longrightarrow> val256 bs < 256 ^ length bs"
proof (induction bs)
  case (Cons b bs)
  then have less: "val256 bs < 256 ^ length bs" and "b < 256" by simp_all
  then have "b \<le> 255" by simp
  with less have "b * 256 ^ length bs + val256 bs < 255 * 256 ^ length bs + 256 ^ length bs"
    by (intro add_le_less_mono mult_right_mono) auto
  then show ?case by simp
qed simp

lemma val256_replicate: "val256 (replicate n 255) + 1 = 256 ^ n" "val256 (replicate n 0) = 0"
  by (induction n) simp_all

section \<open>State\<close>

definition written :: "RangeEncoder \<Rightarrow> nat list" where
  "written e = map unat (take (unat (re_offs e)) (re_buf e))"

definition pending :: "RangeEncoder \<Rightarrow> nat list" where
  "pending e = (if re_rem e \<ge> 0 then [nat (re_rem e)] else []) @ replicate (unat (re_ext e)) 255"

definition count :: "RangeEncoder \<Rightarrow> nat" where
  "count e = length (written e @ pending e)"

definition low :: "RangeEncoder \<Rightarrow> nat" where
  "low e = val256 (written e @ pending e) * 2 ^ 31 + unat (re_val e)"

definition layout :: "RangeEncoder \<Rightarrow> bool" where
  "layout e \<longleftrightarrow> length (re_buf e) = unat (re_storage e) \<and> unat (re_offs e) + unat (re_endOffs e) \<le> unat (re_storage e) \<and>
     - 1 \<le> re_rem e \<and> re_rem e \<le> 255"

definition back_bytes :: "RangeEncoder \<Rightarrow> bytes" where
  "back_bytes e = drop (unat (re_storage e) - unat (re_endOffs e)) (re_buf e)"

text \<open>The part of the state that belongs to the raw bits.\<close>

definition back_part :: "RangeEncoder \<Rightarrow> bytes \<times> u32 \<times> u32 \<times> u32 \<times> int" where
  "back_part e = (back_bytes e, re_storage e, re_endOffs e, re_endWindow e, re_nendBits e)"

text \<open>\<open>e'\<close> is \<open>e\<close> after the bytes \<open>bs\<close> were written at the front.\<close>

definition appended :: "RangeEncoder \<Rightarrow> bytes \<Rightarrow> RangeEncoder \<Rightarrow> bool" where
  "appended e bs e' \<longleftrightarrow> (\<exists>b o'. e' = e\<lparr>re_buf := b, re_offs := o'\<rparr> \<and> length b = length (re_buf e) \<and>
     unat o' = unat (re_offs e) + length bs \<and> unat o' + unat (re_endOffs e) \<le> unat (re_storage e) \<and>
     take (unat o') b = take (unat (re_offs e)) (re_buf e) @ bs \<and> drop (unat o') b = drop (unat o') (re_buf e))"

lemma room_less:
  assumes "unat (re_offs e) + unat (re_endOffs e) \<le> unat (re_storage e)"
  shows "re_offs e + re_endOffs e < re_storage e \<longleftrightarrow> unat (re_offs e) + unat (re_endOffs e) < unat (re_storage e)"
    and "unat (re_offs e + re_endOffs e) = unat (re_offs e) + unat (re_endOffs e)"
proof -
  have "unat (re_offs e) + unat (re_endOffs e) < 2 ^ 32" using assms unsigned_less [of "re_storage e", where ?'a = nat] by simp
  then show "unat (re_offs e + re_endOffs e) = unat (re_offs e) + unat (re_endOffs e)" by (simp add: unat_plus_if')
  then show "re_offs e + re_endOffs e < re_storage e \<longleftrightarrow> unat (re_offs e) + unat (re_endOffs e) < unat (re_storage e)"
    by (simp add: word_less_nat_alt)
qed

lemma unat_u32_less: "unat (x :: u32) < 4294967296"
  using unsigned_less [of x, where ?'a = nat] by simp

lemma unat_Suc_bound: assumes "unat (x :: u32) < unat (y :: u32)" shows "unat (x + 1) = unat x + 1"
proof -
  have "unat x < 4294967295" using assms unat_u32_less [of y] by linarith
  then show ?thesis by (simp add: unat_plus_if')
qed

lemma writeByte_appended:
  assumes "layout e" "re_err (re_writeByte e b) = 0"
  shows "re_err e = 0 \<and> appended e [ucast b] (re_writeByte e b)"
proof -
  have fits: "unat (re_offs e) + unat (re_endOffs e) \<le> unat (re_storage e)" using assms(1) by (simp add: layout_def)
  have room: "unat (re_offs e) + unat (re_endOffs e) < unat (re_storage e)" "re_err e = 0"
    using assms(2) room_less [OF fits] by (auto simp: re_writeByte_def split: if_splits)
  moreover have "unat (re_offs e + 1) = unat (re_offs e) + 1" using room by (intro unat_Suc_bound [of _ "re_storage e"]) simp
  ultimately show ?thesis using assms(1) room_less [OF fits]
    by (auto simp: re_writeByte_def appended_def layout_def take_Suc_conv_app_nth
        intro!: exI [of _ "(re_buf e)[unat (re_offs e) := ucast b]"] exI [of _ "re_offs e + 1"])
qed

lemma appended_refl: "layout e \<Longrightarrow> appended e [] e"
  by (auto simp: appended_def layout_def intro!: exI [of _ "re_buf e"] exI [of _ "re_offs e"])

lemma appended_layout: "layout e \<Longrightarrow> appended e bs e' \<Longrightarrow> layout e'"
  by (auto simp: appended_def layout_def)

lemma appended_ext: "appended e bs e' \<Longrightarrow> appended (e\<lparr>re_ext := x\<rparr>) bs (e'\<lparr>re_ext := x\<rparr>)"
proof -
  assume "appended e bs e'"
  then obtain b o' where "e' = e\<lparr>re_buf := b, re_offs := o'\<rparr>" "length b = length (re_buf e)" "unat o' = unat (re_offs e) + length bs"
      "unat o' + unat (re_endOffs e) \<le> unat (re_storage e)" "take (unat o') b = take (unat (re_offs e)) (re_buf e) @ bs" "drop (unat o') b = drop (unat o') (re_buf e)"
    by (auto simp: appended_def)
  then show ?thesis unfolding appended_def by (intro exI [of _ b] exI [of _ o']) simp
qed

lemma appended_trans:
  assumes "appended e xs e1" "appended e1 ys e2" shows "appended e (xs @ ys) e2"
proof -
  obtain b1 o1 where 1: "e1 = e\<lparr>re_buf := b1, re_offs := o1\<rparr>" "length b1 = length (re_buf e)" "unat o1 = unat (re_offs e) + length xs"
      "take (unat o1) b1 = take (unat (re_offs e)) (re_buf e) @ xs" "drop (unat o1) b1 = drop (unat o1) (re_buf e)"
    using assms(1) by (auto simp: appended_def)
  obtain b2 o2 where 2: "e2 = e1\<lparr>re_buf := b2, re_offs := o2\<rparr>" "length b2 = length b1" "unat o2 = unat o1 + length ys"
      "unat o2 + unat (re_endOffs e) \<le> unat (re_storage e)" "take (unat o2) b2 = take (unat o1) b1 @ ys" "drop (unat o2) b2 = drop (unat o2) b1"
    using assms(2) 1(1) by (auto simp: appended_def)
  have "drop (unat o2) b1 = drop (unat o2) (re_buf e)"
    using arg_cong [OF 1(5), of "drop (length ys)"] 2(3) by (simp add: add.commute)
  then show ?thesis using 1 2 by (auto simp: appended_def intro!: exI [of _ b2] exI [of _ o2])
qed

text \<open>The bytes that \<open>carryOut\<close> writes: the pending ones with the carry added.\<close>

definition carried :: "int \<Rightarrow> RangeEncoder \<Rightarrow> bytes" where
  "carried carry e = (if re_rem e \<ge> 0 then [word_of_int (re_rem e + carry)] else []) @ replicate (unat (re_ext e)) (word_of_int (255 + carry))"

lemma appended_sel:
  assumes "appended e bs e'"
  shows "re_err e' = re_err e" "re_ext e' = re_ext e" "re_rem e' = re_rem e" "re_val e' = re_val e" "re_rng e' = re_rng e"
  using assms by (auto simp: appended_def)

lemma write_pending_appended:
  assumes "layout e" "n \<le> unat (re_ext e)" "re_err (write_pending n s e) = 0"
  shows "re_err e = 0 \<and> appended (e\<lparr>re_ext := re_ext e - of_nat n\<rparr>) (replicate n (ucast s)) (write_pending n s e)"
  using assms
proof (induction n arbitrary: e)
  case 0
  have "e\<lparr>re_ext := re_ext e\<rparr> = e" by simp
  with 0 show ?case by (simp add: appended_refl)
next
  case (Suc n)
  define e1 where "e1 = re_writeByte e s"
  define e2 where "e2 = e1\<lparr>re_ext := re_ext e1 - 1\<rparr>"
  have run: "write_pending (Suc n) s e = write_pending n s e2" by (simp add: e1_def e2_def Let_def)
  have keep: "layout e1" "re_ext e1 = re_ext e" using Suc.prems(1) room_less [of e] unat_Suc_bound [of "re_offs e" "re_storage e"]
    by (auto simp: e1_def re_writeByte_def layout_def)
  have pred: "unat (re_ext e - 1) = unat (re_ext e) - 1" using Suc.prems(2) by (simp add: unat_sub_if')
  have IH: "re_err e2 = 0" "appended (e2\<lparr>re_ext := re_ext e2 - of_nat n\<rparr>) (replicate n (ucast s)) (write_pending n s e2)"
    using Suc.IH [of e2, OF _ _ Suc.prems(3) [unfolded run]] Suc.prems(2) keep pred by (auto simp: e2_def layout_def)
  then have 1: "re_err e = 0" "appended e [ucast s] e1"
    using writeByte_appended [OF Suc.prems(1), of s] by (auto simp: e1_def e2_def)
  have "appended (e\<lparr>re_ext := re_ext e - of_nat (Suc n)\<rparr>) [ucast s] (e2\<lparr>re_ext := re_ext e2 - of_nat n\<rparr>)"
    using appended_ext [OF 1(2), of "re_ext e - of_nat (Suc n)"] keep(2) by (simp add: e2_def algebra_simps)
  from appended_trans [OF this IH(2)] show ?case using 1(1) unfolding run by simp
qed

lemma re_writeByte_sel [simp]:
  "re_ext (re_writeByte e b) = re_ext e" "re_rem (re_writeByte e b) = re_rem e"
  by (simp_all add: re_writeByte_def)

lemma and_255_int: "(x :: int) AND 255 = x mod 256"
  using take_bit_eq_mask [of 8 x] by (simp add: mask_eq_exp_minus_1 take_bit_eq_mod)

lemma ucast_symbol: "ucast (word_of_int (x AND 255) :: u32) = (word_of_int x :: u8)"
  by (rule bit_word_eqI) (simp add: and_255_int bit_simps flip: take_bit_eq_mod [of 8, simplified])

lemma carryOut_appended:
  assumes "layout e" "c \<noteq> 255" "re_err (carryOut c e) = 0"
  obtains e' where "re_err e = 0" "appended e (carried (drop_bit 8 c) e) e'"
    "carryOut c e = e'\<lparr>re_ext := 0, re_rem := c AND 255\<rparr>"
proof -
  let ?carry = "drop_bit 8 c"
  let ?s = "word_of_int ((255 + ?carry) AND 255) :: u32"
  define e1 where "e1 = (if re_rem e \<ge> 0 then re_writeByte e (word_of_int (re_rem e + ?carry)) else e)"
  define e2 where "e2 = (if re_ext e1 > 0 then write_pending (unat (re_ext e1)) ?s e1 else e1)"
  have run: "carryOut c e = e2\<lparr>re_rem := c AND 255\<rparr>"
    using assms(2) by (simp add: carryOut_def ec_defs e1_def e2_def Let_def)
  have lay1: "layout e1" and ext1: "re_ext e1 = re_ext e" using assms(1) room_less [of e] unat_Suc_bound [of "re_offs e" "re_storage e"]
    by (auto simp: e1_def re_writeByte_def layout_def)
  have err2: "re_err e2 = 0" using assms(3) by (simp add: run)
  have 2: "re_err e1 = 0 \<and> re_ext e2 = 0 \<and>
      appended (e1\<lparr>re_ext := 0\<rparr>) (replicate (unat (re_ext e)) (word_of_int (255 + ?carry))) (e2\<lparr>re_ext := 0\<rparr>)"
  proof (cases "re_ext e1 > 0")
    case True
    then have "e2 = write_pending (unat (re_ext e1)) ?s e1" by (simp add: e2_def)
    with write_pending_appended [OF lay1 order_refl, of ?s] err2
    have *: "re_err e1 = 0" "appended (e1\<lparr>re_ext := 0\<rparr>) (replicate (unat (re_ext e)) (ucast ?s)) e2"
      by (simp_all add: ext1)
    then have "re_ext e2 = 0" using appended_sel by fastforce
    then have same: "e2\<lparr>re_ext := 0\<rparr> = e2" by simp
    show ?thesis unfolding same using * \<open>re_ext e2 = 0\<close> unfolding ucast_symbol by simp
  next
    case False
    then have "re_ext e = 0" by (simp add: ext1 word_gt_0)
    with err2 show ?thesis using appended_ext [OF appended_refl [OF lay1]] by (auto simp: e2_def ext1)
  qed
  have byte: "ucast (word_of_int x :: u32) = (word_of_int x :: u8)" for x by (rule bit_word_eqI) (simp add: bit_simps)
  have 1: "re_err e = 0 \<and> appended e (if re_rem e \<ge> 0 then [word_of_int (re_rem e + ?carry)] else []) e1"
    using 2 writeByte_appended [OF assms(1), of "word_of_int (re_rem e + ?carry)"] appended_refl [OF assms(1)]
    unfolding byte by (auto simp: e1_def simp del: of_int_add)
  have "appended (e\<lparr>re_ext := 0\<rparr>) (carried ?carry e) (e2\<lparr>re_ext := 0\<rparr>)"
    using appended_trans [OF appended_ext [OF conjunct2 [OF 1]] conjunct2 [OF conjunct2 [OF 2]]] by (simp add: carried_def)
  from appended_ext [OF this, of "re_ext e"] have "appended e (carried ?carry e) (e2\<lparr>re_ext := re_ext e\<rparr>)" by simp
  moreover have "carryOut c e = e2\<lparr>re_ext := re_ext e\<rparr>\<lparr>re_ext := 0, re_rem := c AND 255\<rparr>" using 2 by (simp add: run)
  ultimately show ?thesis using that 1 by blast
qed

lemma written_appended: "appended e bs e' \<Longrightarrow> written e' = written e @ map unat bs"
  by (auto simp: appended_def written_def)

lemma back_part_appended:
  assumes "layout e" "appended e bs e'" shows "back_part e' = back_part e"
proof -
  obtain b o' where e': "e' = e\<lparr>re_buf := b, re_offs := o'\<rparr>" "unat o' + unat (re_endOffs e) \<le> unat (re_storage e)" "drop (unat o') b = drop (unat o') (re_buf e)"
    using assms(2) by (auto simp: appended_def)
  have "drop (unat (re_storage e) - unat (re_endOffs e)) b = drop (unat (re_storage e) - unat (re_endOffs e)) (re_buf e)"
    using arg_cong [OF e'(3), of "drop (unat (re_storage e) - unat (re_endOffs e) - unat o')"] e'(2) by simp
  then show ?thesis by (simp add: e'(1) back_part_def back_bytes_def)
qed

lemma unat_word_of_int_byte: "0 \<le> x \<Longrightarrow> x < 256 \<Longrightarrow> unat (word_of_int x :: u8) = nat x"
  by (simp add: unat_eq_nat_uint uint_word_of_int)

lemma carried_value:
  assumes "layout e" "carry = 0 \<or> carry = 1" "val256 (pending e) + nat carry < 256 ^ length (pending e)"
  shows "val256 (map unat (carried carry e)) = val256 (pending e) + nat carry" "length (carried carry e) = length (pending e)"
proof -
  have rem: "- 1 \<le> re_rem e" "re_rem e \<le> 255" using assms(1) by (auto simp: layout_def)
  show "length (carried carry e) = length (pending e)" by (simp add: carried_def pending_def)
  show "val256 (map unat (carried carry e)) = val256 (pending e) + nat carry"
  proof (cases "carry = 0")
    case True
    then show ?thesis using rem by (simp add: carried_def pending_def unat_word_of_int_byte)
  next
    case False
    then have c: "carry = 1" using assms(2) by simp
    have ff: "val256 (replicate (unat (re_ext e)) 255) + 1 = 256 ^ unat (re_ext e)" by (rule val256_replicate)
    show ?thesis
    proof (cases "re_rem e \<ge> 0")
      case True
      then have len: "length (pending e) = 1 + unat (re_ext e)" and sum: "val256 (pending e) + 1 = (nat (re_rem e) + 1) * 256 ^ unat (re_ext e)"
        using ff by (simp_all add: pending_def)
      have "(nat (re_rem e) + 1) * 256 ^ unat (re_ext e) < 256 * 256 ^ unat (re_ext e)"
        using assms(3) unfolding sum [symmetric] by (simp add: c len)
      then have "nat (re_rem e) + 1 < 256" unfolding mult_less_cancel2 by simp
      then have "re_rem e + 1 < 256" using True by simp
      then have "unat (word_of_int (re_rem e + 1) :: u8) = nat (re_rem e) + 1" using True by (subst unat_word_of_int_byte) auto
      moreover have "unat (word_of_int (255 + 1) :: u8) = 0" by simp
      ultimately have "map unat (carried carry e) = (nat (re_rem e) + 1) # replicate (unat (re_ext e)) 0"
        using True unfolding carried_def c by (simp del: of_int_add)
      then show ?thesis using sum by (simp add: val256_replicate c)
    next
      case False
      then show ?thesis using assms(3) ff by (simp add: c pending_def)
    qed
  qed
qed

lemma carryOut_step:
  assumes "layout e" "0 \<le> c" "c < 512" "unat (re_ext e) < 2 ^ 32 - 1" "re_err (carryOut c e) = 0"
    "256 \<le> c \<longrightarrow> val256 (pending e) + 1 < 256 ^ length (pending e)"
  defines "e' \<equiv> carryOut c e"
  shows "re_err e = 0" "layout e'" "count e' = count e + 1" "back_part e' = back_part e"
    "val256 (written e' @ pending e') = 256 * val256 (written e @ pending e) + nat c"
    "(if c = 255 then written e' = written e \<and> length (pending e') = length (pending e) + 1
      else val256 (written e') = val256 (written e @ pending e) + nat c div 256 \<and> length (pending e') = 1)"
    "re_val e' = re_val e" "re_rng e' = re_rng e"
proof -
  have all: "re_err e = 0 \<and> layout e' \<and> count e' = count e + 1 \<and> back_part e' = back_part e \<and>
    val256 (written e' @ pending e') = 256 * val256 (written e @ pending e) + nat c \<and>
    (if c = 255 then written e' = written e \<and> length (pending e') = length (pending e) + 1
      else val256 (written e') = val256 (written e @ pending e) + nat c div 256 \<and> length (pending e') = 1) \<and>
    re_val e' = re_val e \<and> re_rng e' = re_rng e"
  proof (cases "c = 255")
    case True
    then have e': "e' = e\<lparr>re_ext := re_ext e + 1\<rparr>" by (simp add: e'_def carryOut_def ec_defs)
    have "unat (re_ext e + 1) = unat (re_ext e) + 1" using assms(4) by (simp add: unat_plus_if')
    then have pend: "pending e' = pending e @ [255]" by (simp add: e' pending_def replicate_append_same)
    have "re_err e = 0" using assms(5) True by (simp add: carryOut_def ec_defs)
    then show ?thesis using assms(1) True pend
      by (simp add: count_def val256_append layout_def back_part_def back_bytes_def written_def) (simp add: e')
  next
    case False
    obtain e1 where 1: "re_err e = 0" "appended e (carried (drop_bit 8 c) e) e1" "e' = e1\<lparr>re_ext := 0, re_rem := c AND 255\<rparr>"
      using carryOut_appended [OF assms(1) False assms(5)] by (auto simp: e'_def)
    let ?carry = "drop_bit 8 c"
    have carry: "?carry = 0 \<or> ?carry = 1" "nat ?carry = nat c div 256" using assms(2,3) by (auto simp: drop_bit_eq_div nat_div_distrib)
    have "val256 (pending e) < 256 ^ length (pending e)"
      using assms(1) by (intro val256_less) (auto simp: pending_def layout_def)
    then have "val256 (pending e) + nat ?carry < 256 ^ length (pending e)"
      using assms(6) carry assms(2) by (cases "c \<ge> 256") (auto simp: drop_bit_eq_div)
    note cv = carried_value [OF assms(1) carry(1) this]
    have w: "written e' = written e @ map unat (carried ?carry e)" using written_appended [OF 1(2)] by (simp add: 1(3) written_def)
    have p: "pending e' = [nat (c mod 256)]" by (simp add: 1(3) pending_def and_255_int)
    have "layout e1" using appended_layout [OF assms(1) 1(2)] .
    moreover have "0 \<le> c mod 256" "c mod 256 < 256" by (rule pos_mod_sign, simp) (rule pos_mod_bound, simp)
    then have "- 1 \<le> c mod 256 \<and> c mod 256 \<le> 255" by linarith
    ultimately have "layout e'" by (simp add: 1(3) layout_def and_255_int)
    moreover have "back_part e' = back_part e1" by (simp add: 1(3) back_part_def back_bytes_def)
    then have "back_part e' = back_part e" using back_part_appended [OF assms(1) 1(2)] by simp
    moreover have vw: "val256 (written e') = val256 (written e @ pending e) + nat c div 256"
      using cv carry(2) by (simp add: w val256_append)
    moreover have "val256 (written e' @ pending e') = 256 * val256 (written e @ pending e) + nat c"
      using assms(2) div_mult_mod_eq [of "nat c" 256] by (simp add: val256_append [of "written e'"] p vw nat_mod_distrib)
    moreover have "count e' = count e + 1" using cv(2) by (simp add: count_def p w)
    moreover have "re_val e' = re_val e" "re_rng e' = re_rng e" using appended_sel [OF 1(2)] by (simp_all add: 1(3))
    ultimately show ?thesis using False 1(1) p by simp
  qed
  then show "re_err e = 0" "layout e'" "count e' = count e + 1" "back_part e' = back_part e"
    "val256 (written e' @ pending e') = 256 * val256 (written e @ pending e) + nat c"
    "(if c = 255 then written e' = written e \<and> length (pending e') = length (pending e) + 1
      else val256 (written e') = val256 (written e @ pending e) + nat c div 256 \<and> length (pending e') = 1)"
    "re_val e' = re_val e" "re_rng e' = re_rng e"
    by blast+
qed

section \<open>Shifting\<close>

definition enc_ok :: "RangeEncoder \<Rightarrow> bool" where
  "enc_ok e \<longleftrightarrow> layout e \<and> 0 < unat (re_rng e) \<and> unat (re_rng e) \<le> 2 ^ 31 \<and> unat (re_val e) + unat (re_rng e) < 2 ^ 32 \<and>
     low e + unat (re_rng e) \<le> (val256 (written e) + 1) * 256 ^ length (pending e) * 2 ^ 31"

lemma unat_shifted_val: "unat (push_bit 8 v AND (0x80000000 - 1) :: u32) = 256 * unat (v :: u32) mod 2 ^ 31"
proof -
  have "push_bit 8 v AND (0x80000000 - 1) = take_bit 31 (push_bit 8 v)" by (simp add: take_bit_eq_mask mask_eq_exp_minus_1)
  then have "unat (push_bit 8 v AND (0x80000000 - 1)) = take_bit 31 (take_bit 32 (push_bit 8 (unat v)))"
    by (simp add: unsigned_take_bit_eq unsigned_push_bit_eq)
  then show ?thesis by (simp add: take_bit_eq_mod push_bit_eq_mult mult.commute mod_mod_cancel)
qed

lemma unat_shifted_rng: "unat (r :: u32) \<le> 2 ^ 23 \<Longrightarrow> unat (push_bit 8 r) = 256 * unat r"
proof -
  assume "unat r \<le> 2 ^ 23"
  moreover have "unat (push_bit 8 r) = take_bit 32 (push_bit 8 (unat r))" by (simp add: unsigned_push_bit_eq)
  ultimately show ?thesis by (simp add: take_bit_eq_mod push_bit_eq_mult)
qed

lemma unat_drop_bit_div: "unat (drop_bit n (v :: u32)) = unat v div 2 ^ n"
  by (simp add: unat_drop_bit_eq flip: drop_bit_eq_div)

lemma no_carry_lost:
  assumes "enc_ok e" "2 ^ 31 \<le> unat (re_val e)"
  shows "val256 (pending e) + 1 < 256 ^ length (pending e)"
proof -
  have "(val256 (written e @ pending e) + 1) * 2 ^ 31 < low e + unat (re_rng e)"
    using assms by (simp add: enc_ok_def low_def)
  also have "\<dots> \<le> (val256 (written e) + 1) * 256 ^ length (pending e) * 2 ^ 31" using assms(1) by (simp add: enc_ok_def)
  finally have "val256 (written e @ pending e) + 1 < (val256 (written e) + 1) * 256 ^ length (pending e)"
    unfolding mult_less_cancel2 by simp
  then show ?thesis by (simp add: val256_append)
qed

lemma re_shift_step:
  assumes "enc_ok e" "unat (re_rng e) \<le> 2 ^ 23" "count e < 2 ^ 32 - 1" "re_err (re_shift e) = 0"
  shows "re_err e = 0" "enc_ok (re_shift e)" "count (re_shift e) = count e + 1" "back_part (re_shift e) = back_part e"
    "low (re_shift e) = 256 * low e" "unat (re_rng (re_shift e)) = 256 * unat (re_rng e)" "unat (re_val (re_shift e)) < 2 ^ 31"
proof -
  define v where "v = unat (re_val e)"
  define c where "c = uint (drop_bit 23 (re_val e))"
  define e' where "e' = carryOut c e"
  have c: "nat c = v div 2 ^ 23" "0 \<le> c" using unat_drop_bit_div [of 23 "re_val e"] by (simp_all add: c_def v_def flip: unat_eq_nat_uint)
  have v: "v < 2 ^ 32" using unat_u32_less [of "re_val e"] by (simp add: v_def)
  then have "nat c < 512" by (simp add: c less_mult_imp_div_less)
  then have c512: "c < 512" by simp
  have run: "re_shift e = e'\<lparr>re_val := push_bit 8 (re_val e') AND (0x80000000 - 1), re_rng := push_bit 8 (re_rng e'), re_nbitsTotal := re_nbitsTotal e' + 8\<rparr>"
    by (simp add: re_shift_def e'_def c_def ec_defs Let_def)
  have ext: "unat (re_ext e) < 2 ^ 32 - 1" using assms(3) by (simp add: count_def pending_def split: if_splits)
  have "2 ^ 31 \<le> v" if "256 \<le> c" using that c less_eq_div_iff_mult_less_eq [of "2 ^ 23" 256 v] by simp
  then have lost: "256 \<le> c \<longrightarrow> val256 (pending e) + 1 < 256 ^ length (pending e)" using no_carry_lost [OF assms(1)] by (simp add: v_def)
  have err: "re_err (carryOut c e) = 0" using assms(4) by (simp add: run e'_def)
  have "layout e" using assms(1) by (simp add: enc_ok_def)
  note s = carryOut_step [OF this c(2) c512 ext err lost, folded e'_def]
  have v': "unat (re_val (re_shift e)) = 256 * v mod 2 ^ 31" using unat_shifted_val [of "re_val e"] s(7) by (simp add: run v_def)
  have r': "unat (re_rng (re_shift e)) = 256 * unat (re_rng e)" using s(8) unat_shifted_rng [OF assms(2)] by (simp add: run)
  have same: "written (re_shift e) = written e'" "pending (re_shift e) = pending e'" "layout (re_shift e) = layout e'" "back_part (re_shift e) = back_part e'"
    by (simp_all add: run written_def pending_def layout_def back_part_def back_bytes_def)
  have split: "256 * v = nat c * 2 ^ 31 + 256 * v mod 2 ^ 31"
    using div_mult_mod_eq [of "256 * v" "2 ^ 31"] by (simp add: c)
  show "re_err e = 0" using s(1) .
  show "count (re_shift e) = count e + 1" using s(3) by (simp add: count_def same)
  show "back_part (re_shift e) = back_part e" using s(4) same(4) by simp
  show low: "low (re_shift e) = 256 * low e"
    using s(5) split by (simp add: low_def same v' v_def [symmetric] add_mult_distrib)
  show "unat (re_rng (re_shift e)) = 256 * unat (re_rng e)" by (rule r')
  show "unat (re_val (re_shift e)) < 2 ^ 31" by (simp add: v')
  have "256 * (low e + unat (re_rng e)) \<le> (val256 (written e') + 1) * 256 ^ length (pending e') * 2 ^ 31"
  proof (cases "c = 255")
    case True
    have "256 * (low e + unat (re_rng e)) \<le> 256 * ((val256 (written e) + 1) * 256 ^ length (pending e) * 2 ^ 31)"
      using assms(1) unfolding enc_ok_def by (intro mult_le_mono2) blast
    then show ?thesis using s(6) True by (simp add: algebra_simps)
  next
    case False
    have "v + unat (re_rng e) \<le> (nat c div 256 + 1) * 2 ^ 31"
    proof (cases "256 \<le> c")
      case True
      then have "nat c div 256 = 1" using c512 by (simp add: nat_eq_iff2 div_nat_eqI)
      then show ?thesis using assms(1) by (simp add: enc_ok_def v_def)
    next
      case small: False
      with False have "v div 2 ^ 23 < 255" using c by linarith
      then have "v < 255 * 2 ^ 23" by (simp add: div_less_iff_less_mult)
      then show ?thesis using assms(2) by simp
    qed
    then have "256 * (low e + unat (re_rng e)) \<le> 256 * ((val256 (written e @ pending e) + nat c div 256 + 1) * 2 ^ 31)"
      by (intro mult_le_mono2) (simp add: low_def v_def [symmetric] add_mult_distrib)
    then show ?thesis using s(6) False by simp
  qed
  then have "low (re_shift e) + unat (re_rng (re_shift e)) \<le> (val256 (written (re_shift e)) + 1) * 256 ^ length (pending (re_shift e)) * 2 ^ 31"
    unfolding low r' same by (simp only: add_mult_distrib2)
  moreover have "layout (re_shift e)" using s(2) same(3) by simp
  moreover have "256 * v mod 2 ^ 31 < 2 ^ 31" by simp
  ultimately show "enc_ok (re_shift e)" using assms(1,2) unfolding enc_ok_def r' v' by simp
qed

lemma write_pending_rng: "re_rng (write_pending n s e) = re_rng e"
  by (induction n arbitrary: e) (simp_all add: Let_def re_writeByte_def)

lemma carryOut_rng: "re_rng (carryOut c e) = re_rng e"
  by (simp add: carryOut_def Let_def write_pending_rng re_writeByte_def)

lemma writeByte_sticky: "re_err (re_writeByte e b) = 0 \<Longrightarrow> re_err e = 0"
  by (simp add: re_writeByte_def split: if_splits)

lemma write_pending_sticky: "re_err (write_pending n s e) = 0 \<Longrightarrow> re_err e = 0"
proof (induction n arbitrary: e)
  case (Suc n)
  have "re_err ((re_writeByte e s)\<lparr>re_ext := re_ext e - 1\<rparr>) = 0" using Suc.prems by - (rule Suc.IH [of "(re_writeByte e s)\<lparr>re_ext := re_ext e - 1\<rparr>"], simp add: Let_def)
  then show ?case using writeByte_sticky [of e s] by simp
qed simp

lemma carryOut_sticky: "re_err (carryOut c e) = 0 \<Longrightarrow> re_err e = 0"
  by (auto simp: carryOut_def Let_def split: if_splits dest!: write_pending_sticky writeByte_sticky)

lemma re_shift_sticky: "re_err (re_shift e) = 0 \<Longrightarrow> re_err e = 0"
  by (auto simp: re_shift_def Let_def dest!: carryOut_sticky)

lemma re_shift_rng: "re_rng (re_shift e) = push_bit 8 (re_rng e)"
  by (simp add: re_shift_def Let_def carryOut_rng ec_defs)

function norm_steps :: "nat \<Rightarrow> nat" where
  "norm_steps r = (if 0 < r \<and> r \<le> 2 ^ 23 then Suc (norm_steps (256 * r)) else 0)"
  by auto
termination
  by (relation "measure (\<lambda>r. 2 ^ 24 - r)") auto

declare norm_steps.simps [simp del]

lemma norm_steps_le: "norm_steps r \<le> 3"
  by (subst norm_steps.simps, subst norm_steps.simps, subst norm_steps.simps, subst norm_steps.simps) auto

lemma norm_steps_range:
  assumes "0 < r" "r \<le> 2 ^ 31" shows "2 ^ 23 < r * 256 ^ norm_steps r \<and> r * 256 ^ norm_steps r \<le> 2 ^ 31"
  using assms
proof (induction r rule: norm_steps.induct)
  case (1 r)
  show ?case
  proof (cases "r \<le> 2 ^ 23")
    case True
    with 1 show ?thesis by (subst (1 2) norm_steps.simps) (simp add: mult.assoc)
  next
    case False
    with 1 show ?thesis by (subst (1 2) norm_steps.simps) simp
  qed
qed

lemma re_normalize_total:
  assumes "0 < unat (re_rng e)" "unat (re_rng e) \<le> 2 ^ 31"
  obtains e' where "re_normalize e = Some e'" "unat (re_rng e') = unat (re_rng e) * 256 ^ norm_steps (unat (re_rng e))"
    "re_err e' = 0 \<longrightarrow> re_err e = 0"
    "re_err e' = 0 \<Longrightarrow> enc_ok e \<Longrightarrow> count e + 3 < 2 ^ 32 \<Longrightarrow> enc_ok e' \<and> count e' = count e + norm_steps (unat (re_rng e)) \<and>
       low e' = low e * 256 ^ norm_steps (unat (re_rng e)) \<and> back_part e' = back_part e"
proof -
  have "\<exists>e'. re_normalize e = Some e' \<and> unat (re_rng e') = r * 256 ^ norm_steps r \<and> (re_err e' = 0 \<longrightarrow> re_err e = 0) \<and>
      (re_err e' = 0 \<longrightarrow> enc_ok e \<longrightarrow> count e + norm_steps r < 2 ^ 32 \<longrightarrow>
         enc_ok e' \<and> count e' = count e + norm_steps r \<and> low e' = low e * 256 ^ norm_steps r \<and> back_part e' = back_part e)"
    if "unat (re_rng e) = r" "0 < r" "r \<le> 2 ^ 31" for r e
    using that
  proof (induction r arbitrary: e rule: norm_steps.induct)
    case (1 r)
    show ?case
    proof (cases "r \<le> 2 ^ 23")
      case True
      have n: "norm_steps r = Suc (norm_steps (256 * r))" using 1 True by (subst norm_steps.simps) simp
      have bot: "re_rng e \<le> ecCodeBot" using True 1 by (simp add: ec_defs word_le_nat_alt)
      have "unat (re_rng (re_shift e)) = 256 * r" using True 1 unat_shifted_rng [of "re_rng e"] by (simp add: re_shift_rng)
      with 1 True obtain e' where e': "re_normalize (re_shift e) = Some e'" "unat (re_rng e') = 256 * r * 256 ^ norm_steps (256 * r)"
        "re_err e' = 0 \<longrightarrow> re_err (re_shift e) = 0" "re_err e' = 0 \<longrightarrow> enc_ok (re_shift e) \<longrightarrow> count (re_shift e) + norm_steps (256 * r) < 2 ^ 32 \<longrightarrow>
         enc_ok e' \<and> count e' = count (re_shift e) + norm_steps (256 * r) \<and>
           low e' = low (re_shift e) * 256 ^ norm_steps (256 * r) \<and> back_part e' = back_part (re_shift e)"
        by force
      have "re_normalize e = Some e'" using bot e'(1) by (simp add: re_normalize.simps [of e])
      moreover have "enc_ok e' \<and> count e' = count e + norm_steps r \<and> low e' = low e * 256 ^ norm_steps r \<and> back_part e' = back_part e"
        if "re_err e' = 0" "enc_ok e" "count e + norm_steps r < 2 ^ 32"
        using re_shift_step [OF that(2), OF _ _ e'(3) [rule_format, OF that(1)]] e'(4) that(1,3) True 1 by (simp add: n)
      ultimately show ?thesis using e'(2,3) re_shift_sticky by (auto simp: n)
    next
      case False
      then have "norm_steps r = 0" "\<not> re_rng e \<le> ecCodeBot" using 1 by (simp_all add: norm_steps.simps ec_defs word_le_nat_alt)
      then show ?thesis using 1 by (simp add: re_normalize.simps)
    qed
  qed
  from this [OF refl assms] norm_steps_le [of "unat (re_rng e)"] that show ?thesis by force
qed

end
