(* ===== verification/Range_Coder_Decoder.thy ===== *)
theory Range_Coder_Decoder
  imports Range_Coder_Encoder
begin

text \<open>
  What the range decoder knows. After \<open>n\<close> shifts it has seen the first \<open>31 + 8 n\<close> bits of the buffer
  as the number \<open>seen B n\<close>, and its \<open>val\<close> is the distance from there to the upper end of the interval
  that the encoder had reached after the same symbols.
\<close>

section \<open>The buffer as a number\<close>

definition byte_at :: "bytes \<Rightarrow> nat \<Rightarrow> nat" where
  "byte_at B i = (if i < length B then unat (B ! i) else 0)"

text \<open>The first \<open>8 m - 1\<close> bits, and what the decoder has seen when the encoder has produced \<open>n\<close> bytes.\<close>

definition seen_at :: "bytes \<Rightarrow> nat \<Rightarrow> nat" where
  "seen_at B m = val256 (map (byte_at B) [0..<m]) div 2"

definition seen :: "bytes \<Rightarrow> nat \<Rightarrow> nat" where
  "seen B n = seen_at B (n + 4)"

lemma byte_at_less: "byte_at B i < 256"
  by (simp add: byte_at_def)

lemma shift_byte:
  assumes "y < 256" shows "((a :: nat) * 65536 + (x * 256 + y)) div 2 = 256 * ((a * 256 + x) div 2) + (x * 256 + y) div 2 mod 256"
proof -
  have x: "x = 2 * (x div 2) + x mod 2" by simp
  have "(a * 65536 + (x * 256 + y)) div 2 = a * 32768 + x * 128 + y div 2"
    using div_mult_self3 [of 2 "a * 32768 + x * 128" y] by (simp add: algebra_simps)
  moreover have "(a * 256 + x) div 2 = a * 128 + x div 2" using div_mult_self3 [of 2 "a * 128" x] by (simp add: algebra_simps)
  moreover have "(x * 256 + y) div 2 = x * 128 + y div 2" using div_mult_self3 [of 2 "x * 128" y] by (simp add: algebra_simps)
  moreover have "(x * 128 + y div 2) mod 256 = x mod 2 * 128 + y div 2"
  proof -
    have "x * 128 + y div 2 = (x mod 2 * 128 + y div 2) + 256 * (x div 2)" by (subst x) (simp only: algebra_simps)
    moreover have "x mod 2 * 128 + y div 2 < 256" using assms mod_less_divisor [of 2 x] by linarith
    ultimately show ?thesis by (simp only: mod_mult_self2 mod_less)
  qed
  moreover have "x * 128 = 256 * (x div 2) + x mod 2 * 128" using arg_cong [OF x, of "\<lambda>z. z * 128"] by (simp only: algebra_simps)
  ultimately show ?thesis by (simp add: algebra_simps)
qed

lemma or_bytes: "y < 256 \<Longrightarrow> push_bit 8 (int x) OR int y = int (x * 256 + y)"
proof -
  assume "y < 256"
  then have "take_bit 8 (int y) = int y" by (simp add: take_bit_int_eq_self_iff)
  moreover have "push_bit 8 (int x) OR take_bit 8 (int y) = push_bit 8 (int x) + take_bit 8 (int y)"
    by (rule disjunctive_add [symmetric]) (simp add: bit_simps)
  ultimately show ?thesis by (simp add: push_bit_eq_mult)
qed

lemma seen_at_Suc:
  assumes "0 < m" shows "seen_at B (Suc m) = 256 * seen_at B m + (byte_at B (m - 1) * 256 + byte_at B m) div 2 mod 256"
proof -
  obtain n where m: "m = Suc n" using assms by (cases m) auto
  define A where "A = val256 (map (byte_at B) [0..<n])"
  define x y where "x = byte_at B n" and "y = byte_at B m"
  have "map (byte_at B) [0..<m] = map (byte_at B) [0..<n] @ [x]"
       "map (byte_at B) [0..<Suc m] = map (byte_at B) [0..<n] @ [x, y]"
    by (simp_all add: x_def y_def m)
  then have "val256 (map (byte_at B) [0..<m]) = A * 256 + x" "val256 (map (byte_at B) [0..<Suc m]) = A * 65536 + (x * 256 + y)"
    by (simp_all add: val256_append A_def)
  moreover have "y < 256" by (simp add: y_def byte_at_less)
  ultimately show ?thesis unfolding seen_at_def using shift_byte [of y A x] by (simp only: x_def y_def m diff_Suc_1)
qed

lemma seen_Suc: "seen B (Suc n) = 256 * seen B n + (byte_at B (n + 3) * 256 + byte_at B (n + 4)) div 2 mod 256"
  using seen_at_Suc [of "n + 4" B] by (simp add: seen_def add.commute)

lemma seen_add: "seen B n = seen B (n + k) div 256 ^ k"
proof (induction k)
  case (Suc k)
  have "seen B (n + Suc k) div 256 = seen B (n + k)" using seen_Suc [of B "n + k"] by simp
  then have "seen B (n + k) div 256 ^ k = seen B (n + Suc k) div (256 * 256 ^ k)" by (simp only: div_mult2_eq)
  with Suc show ?case by simp
qed simp

section \<open>Shifting\<close>

definition dec_ok :: "bytes \<Rightarrow> nat \<Rightarrow> nat \<Rightarrow> RangeDecoder \<Rightarrow> bool" where
  "dec_ok B n L d \<longleftrightarrow> rd_buf d = B \<and> length B < 2 ^ 32 \<and> unat (rd_storage d) = length B \<and> unat (rd_offs d) = min (n + 4) (length B) \<and>
     rd_rem d = int (byte_at B (n + 3)) \<and> L \<le> seen B n \<and> seen B n < L + unat (rd_rng d) \<and>
     unat (rd_val d) = L + unat (rd_rng d) - 1 - seen B n"

text \<open>The same with the number \<open>m\<close> of bytes read, which is less than four while the decoder starts.\<close>

definition rd_at :: "bytes \<Rightarrow> nat \<Rightarrow> nat \<Rightarrow> RangeDecoder \<Rightarrow> bool" where
  "rd_at B m L d \<longleftrightarrow> rd_buf d = B \<and> length B < 2 ^ 32 \<and> unat (rd_storage d) = length B \<and> 0 < m \<and> unat (rd_offs d) = min m (length B) \<and>
     rd_rem d = int (byte_at B (m - 1)) \<and> L \<le> seen_at B m \<and> seen_at B m < L + unat (rd_rng d) \<and>
     unat (rd_val d) = L + unat (rd_rng d) - 1 - seen_at B m"

lemma dec_ok_at: "dec_ok B n L d \<longleftrightarrow> rd_at B (n + 4) L d"
  by (simp add: dec_ok_def rd_at_def seen_def add.commute [of 3])

definition dec_back :: "RangeDecoder \<Rightarrow> bytes \<times> u32 \<times> u32 \<times> u32 \<times> int \<times> int" where
  "dec_back d = (rd_buf d, rd_storage d, rd_endOffs d, rd_endWindow d, rd_nendBits d, rd_Err d)"

lemma rd_readByte_at:
  assumes "rd_buf d = B" "length B < 2 ^ 32" "unat (rd_storage d) = length B" "unat (rd_offs d) = min n (length B)"
  obtains o' where "rd_readByte d = (of_nat (byte_at B n), d\<lparr>rd_offs := o'\<rparr>)" "unat o' = min (Suc n) (length B)"
proof (cases "n < length B")
  case True
  then have less: "unat (rd_offs d) < unat (rd_storage d)" "unat (rd_offs d) = n" using assms by simp_all
  then have "unat (rd_offs d + 1) = n + 1" by (simp add: unat_Suc_bound)
  then show ?thesis using that [of "rd_offs d + 1"] less True assms(1)
    by (simp add: rd_readByte_def byte_at_def word_less_nat_alt)
next
  case False
  then show ?thesis using that [of "rd_offs d"] assms by (simp add: rd_readByte_def byte_at_def word_less_nat_alt)
qed

lemma unat_of_nat_u32: "n < 2 ^ 32 \<Longrightarrow> unat (of_nat n :: u32) = n"
  by (simp add: unat_of_nat take_bit_nat_eq_self)

lemma neg_mod_256: "(- x - 1) mod 256 = 255 - x mod (256 :: int)"
proof -
  have "(- x - 1) mod 256 = (255 - x mod 256 + (- (x div 256) - 1) * 256) mod 256"
    by (rule arg_cong [of _ _ "\<lambda>a. a mod 256"]) (simp add: algebra_simps minus_mod_eq_mult_div [symmetric])
  also have "\<dots> = 255 - x mod 256" unfolding mod_mult_self1 by (rule mod_pos_pos_trivial) (simp_all add: pos_mod_bound [THEN order_less_imp_le, of 256 x])
  finally show ?thesis .
qed

lemma complement_byte: "unat (255 AND NOT (w :: u32)) = 255 - unat w mod 256"
proof -
  have "255 AND NOT w = take_bit 8 (NOT w)" by (simp add: take_bit_eq_mask mask_eq_exp_minus_1 and.commute)
  then have "uint (255 AND NOT w) = take_bit 8 (take_bit 32 (NOT (uint w)))"
    by (simp add: unsigned_take_bit_eq unsigned_not_eq)
  then have "uint (255 AND NOT w) = (- uint w - 1) mod 256" unfolding take_bit_eq_mod not_int_def by (simp add: mod_mod_cancel)
  then have "int (unat (255 AND NOT w)) = 255 - int (unat w) mod 256" unfolding neg_mod_256 by simp
  also have "\<dots> = int (255 - unat w mod 256)" by (subst of_nat_diff) (simp_all add: zmod_int less_Suc_eq_le [symmetric])
  finally show ?thesis by (simp only: of_nat_eq_iff)
qed

lemma unat_and_31: "unat (w AND (0x80000000 - 1) :: u32) = unat w mod 2 ^ 31"
proof -
  have "w AND (0x80000000 - 1) = take_bit 31 w" by (simp add: take_bit_eq_mask mask_eq_exp_minus_1)
  then show ?thesis by (simp only: unsigned_take_bit_eq) (simp add: take_bit_eq_mod)
qed

lemma rd_shift_at:
  assumes "rd_at B m L d" "0 < unat (rd_rng d)" "unat (rd_rng d) \<le> 2 ^ 23"
  shows "rd_at B (Suc m) (256 * L) (rd_shift d)" "unat (rd_rng (rd_shift d)) = 256 * unat (rd_rng d)" "dec_back (rd_shift d) = dec_back d"
proof -
  define r v x y where "r = unat (rd_rng d)" and "v = unat (rd_val d)" and "x = byte_at B (m - 1)" and "y = byte_at B m"
  have d: "rd_buf d = B" "length B < 2 ^ 32" "unat (rd_storage d) = length B" "unat (rd_offs d) = min m (length B)" "rd_rem d = int x"
      "L \<le> seen_at B m" "seen_at B m < L + r" "v = L + r - 1 - seen_at B m" "0 < m"
    using assms(1) by (auto simp: rd_at_def r_def v_def x_def)
  obtain o' where o': "rd_readByte (d\<lparr>rd_nbitsTotal := rd_nbitsTotal d + 8, rd_rng := push_bit 8 (rd_rng d)\<rparr>) =
       (of_nat y, d\<lparr>rd_nbitsTotal := rd_nbitsTotal d + 8, rd_rng := push_bit 8 (rd_rng d), rd_offs := o'\<rparr>)" "unat o' = min (Suc m) (length B)"
    using rd_readByte_at [of "d\<lparr>rd_nbitsTotal := rd_nbitsTotal d + 8, rd_rng := push_bit 8 (rd_rng d)\<rparr>" B m] d by (auto simp: y_def)
  have y: "y < 256" "uint (of_nat y :: u32) = int y" using byte_at_less [of B m] by (simp_all add: y_def uint_nat unat_of_nat_u32)
  define s where "s = (x * 256 + y) div 2"
  have saw: "seen_at B (Suc m) = 256 * seen_at B m + s mod 256" using seen_at_Suc [OF d(9), of B] by (simp add: s_def x_def y_def)
  have sym: "drop_bit 1 (push_bit 8 (int x) OR int y) = int s" using or_bytes [OF y(1), of x] by (simp add: s_def drop_bit_eq_div zdiv_int)
  have "s < 2 ^ 32" using byte_at_less [of B "m - 1"] y(1) by (simp add: s_def x_def)
  then have comp: "unat (255 AND NOT (word_of_int (int s) :: u32)) = 255 - s mod 256" using complement_byte [of "of_nat s"] by (simp add: unat_of_nat_u32)
  define v' where "v' = (push_bit 8 (rd_val d) + (255 AND NOT (word_of_int (int s)))) AND (0x80000000 - 1)"
  have run: "rd_shift d = d\<lparr>rd_nbitsTotal := rd_nbitsTotal d + 8, rd_rng := push_bit 8 (rd_rng d), rd_offs := o', rd_rem := int y, rd_val := v'\<rparr>"
    unfolding rd_shift_def ec_defs v'_def using o'(1) d(5) y(2) sym by (simp add: Let_def)
  show r': "unat (rd_rng (rd_shift d)) = 256 * unat (rd_rng d)" using unat_shifted_rng [OF assms(3)] by (simp add: run)
  show "dec_back (rd_shift d) = dec_back d" by (simp add: run dec_back_def)
  have v: "v < r" using d(6,7,8) by linarith
  have bound: "256 * v + (255 - s mod 256) < 2 ^ 31" using v assms(3) by (simp add: r_def)
  have "unat (push_bit 8 (rd_val d)) = 256 * v" using unat_shifted_rng [of "rd_val d"] v assms(3) by (simp add: r_def v_def)
  then have "unat (push_bit 8 (rd_val d) + (255 AND NOT (word_of_int (int s)))) = 256 * v + (255 - s mod 256)"
    using bound comp by (simp add: unat_plus_if')
  then have "unat v' = 256 * v + (255 - s mod 256)" using bound unfolding v'_def unat_and_31 by simp
  then have "unat v' = 256 * L + 256 * r - 1 - seen_at B (Suc m)"
    using d(6,7,8) mod_less_divisor [of 256 s] by (simp add: saw)
  moreover have "256 * L \<le> seen_at B (Suc m)" "seen_at B (Suc m) < 256 * L + 256 * r"
    using d(6,7) mod_less_divisor [of 256 s] by (simp_all add: saw)
  ultimately show "rd_at B (Suc m) (256 * L) (rd_shift d)" unfolding rd_at_def r' using d o'(2)
    by (simp add: run r_def y_def add.commute)
qed

lemma rd_shift_step:
  assumes "dec_ok B n L d" "0 < unat (rd_rng d)" "unat (rd_rng d) \<le> 2 ^ 23"
  shows "dec_ok B (Suc n) (256 * L) (rd_shift d)" "unat (rd_rng (rd_shift d)) = 256 * unat (rd_rng d)" "dec_back (rd_shift d) = dec_back d"
  using rd_shift_at [of B "n + 4" L d] assms by (simp_all add: dec_ok_at)

lemma NewRangeDecoder_start:
  assumes "length B < 2 ^ 32"
  obtains d where "NewRangeDecoder B = Inr d" "dec_ok B 0 0 d" "rd_rng d = 0x80000000" "rd_buf d = B" "rd_endOffs d = 0" "rd_endWindow d = 0" "rd_nendBits d = 0" "rd_Err d = 0"
proof -
  define d0 where "d0 = \<lparr>rd_buf = B, rd_storage = of_nat (length B), rd_endOffs = 0, rd_endWindow = 0, rd_nendBits = 0,
            rd_nbitsTotal = of_nat (ecCodeBits + 1 - (ecCodeBits - ecCodeExtra) div ecSymBits * ecSymBits),
            rd_offs = 0, rd_rng = push_bit ecCodeExtra 1, rd_val = 0, rd_ext = 0, rd_rem = 0, rd_Err = 0\<rparr>"
  obtain o' where o': "rd_readByte d0 = (of_nat (byte_at B 0), d0\<lparr>rd_offs := o'\<rparr>)" "unat o' = min 1 (length B)"
    using rd_readByte_at [of d0 B 0] assms by (auto simp: d0_def unat_of_nat_u32)
  define x where "x = byte_at B 0"
  have x: "x < 256" "x < 2 ^ 32" using byte_at_less [of B 0] by (simp_all add: x_def)
  have rem: "uint (of_nat x :: u32) = int x" using x by (simp add: uint_nat unat_of_nat_u32)
  define d1 where "d1 = d0\<lparr>rd_offs := o', rd_rem := int x, rd_val := 128 - 1 - word_of_int (drop_bit 1 (int x))\<rparr>"
  have run: "NewRangeDecoder B = from_loop (rd_normalize d1)"
    unfolding NewRangeDecoder_def d0_def [symmetric] Let_def o'(1) x_def [symmetric] by (simp add: d1_def rem ec_defs d0_def push_bit_eq_mult)
  have "drop_bit 1 (int x) = int (x div 2)" by (simp add: drop_bit_eq_div zdiv_int)
  moreover have "unat (127 - of_nat (x div 2) :: u32) = 127 - x div 2" using x by (subst unat_sub) (simp_all add: word_le_nat_alt unat_of_nat_u32)
  ultimately have "unat (rd_val d1) = 127 - x div 2" by (simp add: d1_def)
  moreover have "seen_at B 1 = x div 2" by (simp add: seen_at_def x_def)
  moreover have rng1: "unat (rd_rng d1) = 128" by (simp add: d1_def d0_def ec_defs push_bit_eq_mult)
  ultimately have at1: "rd_at B 1 0 d1"
    using assms o'(2) x unfolding rd_at_def by (auto simp: d1_def d0_def x_def unat_of_nat_u32)
  define d2 d3 d4 where "d2 = rd_shift d1" and "d3 = rd_shift d2" and "d4 = rd_shift d3"
  have 2: "rd_at B 2 0 d2" "unat (rd_rng d2) = 32768" "dec_back d2 = dec_back d1"
    using rd_shift_at [OF at1, unfolded Suc_1] rng1 by (simp_all add: d2_def)
  have 3: "rd_at B 3 0 d3" "unat (rd_rng d3) = 8388608" "dec_back d3 = dec_back d1"
    using rd_shift_at [OF 2(1)] 2(2,3) by (simp_all add: d3_def)
  have 4: "rd_at B 4 0 d4" "unat (rd_rng d4) = 2147483648" "dec_back d4 = dec_back d1"
    using rd_shift_at [OF 3(1)] 3(2,3) by (simp_all add: d4_def)
  have le: "r \<le> ecCodeBot \<longleftrightarrow> unat r \<le> 8388608" for r by (simp add: ec_defs word_le_nat_alt)
  have "rd_normalize d1 = Some d4"
    using rng1 2(2) 3(2) 4(2) by (simp add: rd_normalize.simps [of d1] rd_normalize.simps [of "rd_shift d1"]
        rd_normalize.simps [of "rd_shift (rd_shift d1)"] rd_normalize.simps [of "rd_shift (rd_shift (rd_shift d1))"] le d2_def d3_def d4_def)
  moreover have "rd_rng d4 = 0x80000000" using 4(2) by (simp add: word_unat_eq_iff)
  ultimately show ?thesis using that [of d4] 4(1,3) run by (simp add: from_loop_def dec_ok_at dec_back_def d1_def d0_def)
qed

lemma rd_normalize_step:
  assumes "dec_ok B n L d" "0 < unat (rd_rng d)" "unat (rd_rng d) \<le> 2 ^ 31"
  defines "k \<equiv> norm_steps (unat (rd_rng d))"
  obtains d' where "rd_normalize d = Some d'" "dec_ok B (n + k) (L * 256 ^ k) d'" "unat (rd_rng d') = unat (rd_rng d) * 256 ^ k" "dec_back d' = dec_back d"
proof -
  have "\<exists>d'. rd_normalize d = Some d' \<and> dec_ok B (n + norm_steps r) (L * 256 ^ norm_steps r) d' \<and> unat (rd_rng d') = r * 256 ^ norm_steps r \<and> dec_back d' = dec_back d"
    if "unat (rd_rng d) = r" "0 < r" "r \<le> 2 ^ 31" "dec_ok B n L d" for r d n L
    using that
  proof (induction r arbitrary: d n L rule: norm_steps.induct)
    case (1 r)
    show ?case
    proof (cases "r \<le> 2 ^ 23")
      case True
      have steps: "norm_steps r = Suc (norm_steps (256 * r))" using 1 True by (subst norm_steps.simps) simp
      have bot: "rd_rng d \<le> ecCodeBot" using True 1 by (simp add: ec_defs word_le_nat_alt)
      have s: "dec_ok B (Suc n) (256 * L) (rd_shift d)" "unat (rd_rng (rd_shift d)) = 256 * r" "dec_back (rd_shift d) = dec_back d"
        using rd_shift_step [OF 1(5)] True 1(2,3) by simp_all
      show ?thesis using 1(1) [OF _ s(2) _ _ s(1)] 1(2,3) True s(3) bot
        by (simp add: steps rd_normalize.simps [of d] mult_ac)
    next
      case False
      then have "norm_steps r = 0" "\<not> rd_rng d \<le> ecCodeBot" using 1 by (simp_all add: norm_steps.simps ec_defs word_le_nat_alt)
      then show ?thesis using 1 by (simp add: rd_normalize.simps)
    qed
  qed
  from this [OF refl assms(2,3,1)] that show ?thesis unfolding k_def by blast
qed

end
