(* ===== verification/Range_Coder_Bits.thy ===== *)
theory Range_Coder_Bits
  imports Range_Coder_Decoder
begin

text \<open>
  The raw bits at the back of the buffer. Read from its end, the buffer is a number whose low bits
  are the bits written so far: \<open>bits_val\<close> of the encoder, with \<open>bits_len\<close> many of them, some of them
  still in its window. The decoder has consumed a number of low bits and holds some more in its window.
\<close>

section \<open>Encoder\<close>

definition bits_len :: "RangeEncoder \<Rightarrow> nat" where
  "bits_len e = 8 * unat (re_endOffs e) + nat (re_nendBits e)"

definition bits_val :: "RangeEncoder \<Rightarrow> nat" where
  "bits_val e = val256 (map unat (back_bytes e)) + unat (re_endWindow e) * 256 ^ unat (re_endOffs e)"

definition bits_ok :: "RangeEncoder \<Rightarrow> bool" where
  "bits_ok e \<longleftrightarrow> 0 \<le> re_nendBits e \<and> re_nendBits e \<le> 32 \<and> unat (re_endWindow e) < 2 ^ nat (re_nendBits e)"

definition front_part :: "RangeEncoder \<Rightarrow> nat list \<times> nat list \<times> u32 \<times> u32 \<times> u32" where
  "front_part e = (written e, pending e, re_offs e, re_val e, re_rng e)"

lemma front_part_eq:
  assumes "front_part e' = front_part e"
  shows "low e' = low e" "count e' = count e" "re_rng e' = re_rng e" "layout e' \<Longrightarrow> enc_ok e \<Longrightarrow> enc_ok e'"
  using assms by (auto simp: front_part_def low_def count_def enc_ok_def)

lemma back_part_eq:
  assumes "back_part e' = back_part e"
  shows "bits_len e' = bits_len e" "bits_val e' = bits_val e" "bits_ok e' = bits_ok e"
  using assms by (auto simp: back_part_def bits_len_def bits_val_def bits_ok_def)

lemma unat_and_255: "unat (w AND 255 :: u32) = unat w mod 256"
proof -
  have "w AND 255 = take_bit 8 w" by (simp add: take_bit_eq_mask mask_eq_exp_minus_1)
  then show ?thesis by (simp only: unsigned_take_bit_eq) (simp add: take_bit_eq_mod)
qed

lemma unat_ucast_255: "unat (ucast (w AND 255 :: u32) :: u8) = unat w mod 256"
proof -
  have "unat (ucast (w AND 255) :: u8) = take_bit 8 (unat (w AND 255))" by (simp add: unsigned_ucast_eq)
  then show ?thesis by (simp add: take_bit_eq_mod unat_and_255)
qed

lemma writeByteAtEnd_step:
  assumes "layout e" "re_err (re_writeByteAtEnd e b) = 0"
  shows "re_err e = 0" "layout (re_writeByteAtEnd e b)" "back_bytes (re_writeByteAtEnd e b) = ucast b # back_bytes e"
    "unat (re_endOffs (re_writeByteAtEnd e b)) = unat (re_endOffs e) + 1" "front_part (re_writeByteAtEnd e b) = front_part e"
proof -
  have fits: "unat (re_offs e) + unat (re_endOffs e) \<le> unat (re_storage e)" using assms(1) by (simp add: layout_def)
  have room: "unat (re_offs e) + unat (re_endOffs e) < unat (re_storage e)" "re_err e = 0"
    using assms(2) room_less [OF fits] by (auto simp: re_writeByteAtEnd_def split: if_splits)
  have Suc: "unat (re_endOffs e + 1) = unat (re_endOffs e) + 1" using room by (intro unat_Suc_bound [of _ "re_storage e"]) simp
  have "re_endOffs e + 1 \<le> re_storage e" using room Suc by (simp add: word_le_nat_alt)
  then have pos: "unat (re_storage e - (re_endOffs e + 1)) = unat (re_storage e) - unat (re_endOffs e) - 1"
    using Suc by (simp add: unat_sub)
  let ?i = "unat (re_storage e) - unat (re_endOffs e) - 1"
  have run: "re_writeByteAtEnd e b = e\<lparr>re_endOffs := re_endOffs e + 1, re_buf := (re_buf e)[?i := ucast b]\<rparr>"
    using room room_less [OF fits] pos by (simp add: re_writeByteAtEnd_def)
  have len: "length (re_buf e) = unat (re_storage e)" using assms(1) by (simp add: layout_def)
  show "re_err e = 0" by (rule room)
  show "layout (re_writeByteAtEnd e b)" using assms(1) room Suc by (simp add: run layout_def)
  show "unat (re_endOffs (re_writeByteAtEnd e b)) = unat (re_endOffs e) + 1" by (simp add: run Suc)
  have "drop ?i ((re_buf e)[?i := ucast b]) = ucast b # drop (Suc ?i) (re_buf e)"
    using room len by (simp add: drop_update_swap flip: Cons_nth_drop_Suc)
  then show "back_bytes (re_writeByteAtEnd e b) = ucast b # back_bytes e"
    using room Suc by (simp add: run back_bytes_def Suc_diff_Suc)
  show "front_part (re_writeByteAtEnd e b) = front_part e" using room by (simp add: run front_part_def written_def pending_def)
qed

lemma writeByteAtEnd_sticky: "re_err (re_writeByteAtEnd e b) = 0 \<Longrightarrow> re_err e = 0"
  by (simp add: re_writeByteAtEnd_def split: if_splits)

text \<open>One byte moved from the window to the buffer changes neither the bits nor their number.\<close>

definition window_step :: "u32 \<times> int \<times> RangeEncoder \<Rightarrow> u32 \<times> int \<times> RangeEncoder \<Rightarrow> bool" where
  "window_step s s' \<longleftrightarrow> (case (s, s') of ((w, u, e), (w', u', e')) \<Rightarrow>
     re_err e = 0 \<and> layout e' \<and> 0 \<le> u' \<and> unat w' < 2 ^ nat u' \<and> front_part e' = front_part e \<and>
     8 * unat (re_endOffs e') + nat u' = 8 * unat (re_endOffs e) + nat u \<and>
     val256 (map unat (back_bytes e')) + unat w' * 256 ^ unat (re_endOffs e') = val256 (map unat (back_bytes e)) + unat w * 256 ^ unat (re_endOffs e))"

lemma window_step_byte:
  assumes "layout e" "8 \<le> u" "unat w < 2 ^ nat u" "re_err (re_writeByteAtEnd e (w AND 255)) = 0"
  shows "window_step (w, u, e) (drop_bit 8 w, u - 8, re_writeByteAtEnd e (w AND 255))"
proof -
  note s = writeByteAtEnd_step [OF assms(1,4)]
  have "nat u = nat (u - 8) + 8" using assms(2) by simp
  then have "unat w < 2 ^ nat (u - 8) * 256" using assms(3) by (simp add: power_add)
  then have "unat w div 256 < 2 ^ nat (u - 8)" by (simp add: div_less_iff_less_mult)
  moreover have "length (back_bytes e) = unat (re_endOffs e)" using assms(1) by (simp add: back_bytes_def layout_def)
  moreover have "unat w * 256 ^ unat (re_endOffs e) = unat w mod 256 * 256 ^ unat (re_endOffs e) + unat w div 256 * 256 ^ (unat (re_endOffs e) + 1)"
    by (subst (1) div_mult_mod_eq [of "unat w" 256, symmetric]) (simp only: add_mult_distrib add_mult_distrib2 power_add power_one_right mult_ac add_ac)
  ultimately show ?thesis using s assms(2) unat_drop_bit_div [of 8 w]
    by (simp add: window_step_def unat_ucast_255)
qed

lemma window_step_trans: "window_step s1 s2 \<Longrightarrow> window_step s2 s3 \<Longrightarrow> window_step s1 s3"
  by (auto simp: window_step_def split: prod.splits)

lemma flush_window_sticky: "flush_window w u e = (w', u', e') \<Longrightarrow> re_err e' = 0 \<Longrightarrow> re_err e = 0"
proof (induction w u e rule: flush_window.induct)
  case (1 w u e)
  then show ?case by (subst (asm) (2) flush_window.simps) (auto simp: Let_def split: if_splits dest: writeByteAtEnd_sticky)
qed

lemma flush_window_step:
  assumes "layout e" "8 \<le> u" "u \<le> 32" "unat w < 2 ^ nat u" "flush_window w u e = (w', u', e')" "re_err e' = 0"
  shows "window_step (w, u, e) (w', u', e') \<and> u' < 8"
  using assms
proof (induction w u e rule: flush_window.induct)
  case (1 w u e)
  define e1 where "e1 = re_writeByteAtEnd e (w AND 255)"
  have u1: "s32 (u - 8) = u - 8" using 1(3,4) by (intro s32_id) auto
  have run: "(if u - 8 < 8 then (drop_bit 8 w, u - 8, e1) else flush_window (drop_bit 8 w) (u - 8) e1) = (w', u', e')"
    using 1(6) by (subst (asm) flush_window.simps) (simp add: ec_defs Let_def e1_def u1 split: if_splits)
  have err: "re_err e1 = 0" using run 1(7) flush_window_sticky by (auto split: if_splits)
  note s = window_step_byte [OF 1(2,3,5), folded e1_def, OF err]
  show ?case
  proof (cases "u - 8 < 8")
    case True
    then show ?thesis using run s by simp
  next
    case False
    have "window_step (drop_bit 8 w, u - 8, e1) (w', u', e') \<and> u' < 8"
      using 1(1) [of e1 "drop_bit 8 w" "u - 8"] False s 1(4,7) run u1 by (simp add: ec_defs window_step_def e1_def)
    then show ?thesis using s window_step_trans by blast
  qed
qed

lemma done_back_flush:
  assumes "0 \<le> u" "u \<le> 32"
  shows "done_back w u e = (if u < 8 then (w, u, e) else flush_window w u e)"
  using assms
proof (induction w u e rule: done_back.induct)
  case (1 w u e)
  have "s32 (u - 8) = u - 8" using 1(2,3) by (intro s32_id) auto
  then show ?case using 1 by (subst done_back.simps, subst flush_window.simps) (simp add: ec_defs Let_def)
qed

lemma sint_small: "unat (n :: u32) < 2 ^ 31 \<Longrightarrow> sint n = int (unat n)"
proof -
  assume "unat n < 2 ^ 31"
  then have "int (unat n) < int (2 ^ 31)" by (simp only: of_nat_less_iff)
  then have "uint n < 2 ^ 31" by simp
  moreover have "0 \<le> uint n" by simp
  ultimately have "signed_take_bit 31 (uint n) = uint n" by (intro signed_take_bit_int_eq_self) linarith+
  then show ?thesis by (simp add: sint_uint)
qed

lemma unat_window:
  assumes "unat (w :: u32) < 2 ^ u" "unat fl < 2 ^ n" "u + n \<le> 32"
  shows "unat (w OR push_bit u fl) = unat w + unat fl * 2 ^ u"
proof -
  have "unat fl * 2 ^ u < 2 ^ n * 2 ^ u" using assms(2) by simp
  also have "\<dots> \<le> 2 ^ 32" using assms(3) power_increasing [of "n + u" 32 "2 :: nat"] by (simp add: power_add)
  finally have "take_bit 32 (push_bit u (unat fl)) = push_bit u (unat fl)" by (intro take_bit_nat_eq_self) (simp add: push_bit_eq_mult)
  then have "unat (push_bit u fl) = push_bit u (unat fl)" by (simp add: unsigned_push_bit_eq)
  then have "unat (w OR push_bit u fl) = push_bit u (unat fl) OR unat w" by (simp add: unsigned_or_eq or.commute)
  then show ?thesis using or_push_bit_add [OF assms(1), of "unat fl"] by simp
qed

lemma pow256: "(256 :: nat) ^ k = 2 ^ (8 * k)"
  by (simp add: power_mult)

lemma re_BitsN_step:
  assumes "layout e" "bits_ok e" "unat n \<le> 25" "unat fl < 2 ^ unat n" "re_err (re_BitsN e fl n) = 0"
  defines "e' \<equiv> re_BitsN e fl n"
  shows "re_err e = 0" "layout e'" "bits_ok e'" "bits_len e' = bits_len e + unat n"
    "bits_val e' = bits_val e + unat fl * 2 ^ bits_len e" "front_part e' = front_part e"
proof -
  let ?w = "re_endWindow e" and ?u = "re_nendBits e"
  define k where "k = unat n"
  have k: "k \<le> 25" "unat fl < 2 ^ k" using assms(3,4) by (simp_all add: k_def)
  have ok: "0 \<le> ?u" "?u \<le> 32" "unat ?w < 2 ^ nat ?u" using assms(2) by (simp_all add: bits_ok_def)
  have n: "sint n = int k" unfolding k_def using assms(3) by (intro sint_small) simp
  have sum: "s32 (?u + int k) = ?u + int k" using ok k by (intro s32_id) auto
  obtain w u e1 where s: "(if ?u + int k > 32 then flush_window ?w ?u e else (?w, ?u, e)) = (w, u, e1)" by (metis prod_cases3)
  have e': "e' = e1\<lparr>re_endWindow := w OR push_bit (nat u) fl, re_nendBits := u + int k, re_nbitsTotal := re_nbitsTotal e1 + n\<rparr>" if "0 \<le> u" "u \<le> 32"
  proof -
    have "unat (word_of_int u :: u32) = nat u" using that by (simp add: unat_eq_nat_uint uint_word_of_int)
    moreover have "s32 (u + int k) = u + int k" using that k by (intro s32_id) auto
    ultimately show ?thesis using s by (simp add: e'_def re_BitsN_def n sum ec_defs Let_def)
  qed
  have err1: "re_err e1 = 0" using assms(5) s by (simp add: re_BitsN_def n sum ec_defs Let_def)
  have step: "window_step (?w, ?u, e) (w, u, e1) \<and> u + int k \<le> 32 \<and> u \<le> 32"
  proof (cases "?u + int k > 32")
    case True
    then show ?thesis using flush_window_step [OF assms(1) _ ok(2,3), of w u e1] s err1 k by simp
  next
    case False
    then show ?thesis using s assms(1) err1 ok by (auto simp: window_step_def)
  qed
  then have u: "0 \<le> u" "u \<le> 32" "unat w < 2 ^ nat u" "nat u + k \<le> 32" by (auto simp: window_step_def)
  note e' = e' [OF u(1,2)] and win = unat_window [OF u(3) k(2) u(4)]
  have "unat w + unat fl * 2 ^ nat u < 2 ^ (nat u + k)"
  proof -
    have "unat w + unat fl * 2 ^ nat u < (unat fl + 1) * 2 ^ nat u" using u(3) by simp
    also have "\<dots> \<le> 2 ^ k * 2 ^ nat u" using k(2) by (intro mult_right_mono) simp_all
    finally show ?thesis by (simp add: power_add mult.commute)
  qed
  moreover have same: "back_bytes e' = back_bytes e1" "re_endOffs e' = re_endOffs e1" "layout e' = layout e1" "front_part e' = front_part e1"
    by (simp_all add: e' back_bytes_def layout_def front_part_def written_def pending_def)
  moreover have added: "unat fl * 2 ^ nat u * 256 ^ unat (re_endOffs e1) = unat fl * 2 ^ bits_len e"
  proof -
    have "bits_len e = 8 * unat (re_endOffs e1) + nat u" using step by (simp add: window_step_def bits_len_def)
    then show ?thesis by (simp add: pow256 power_add)
  qed
  moreover have fields: "re_endWindow e' = w OR push_bit (nat u) fl" "re_nendBits e' = u + int k" by (simp_all add: e')
  ultimately show "re_err e = 0" "layout e'" "bits_ok e'" "bits_len e' = bits_len e + unat n" "front_part e' = front_part e"
    using step u win unfolding bits_ok_def by (simp_all add: window_step_def bits_len_def k_def [symmetric] nat_add_distrib)
  have "bits_val e' = val256 (map unat (back_bytes e1)) + unat w * 256 ^ unat (re_endOffs e1) + unat fl * 2 ^ nat u * 256 ^ unat (re_endOffs e1)"
    unfolding bits_val_def same fields win by (simp only: add_mult_distrib add.assoc)
  then show "bits_val e' = bits_val e + unat fl * 2 ^ bits_len e"
    unfolding added using step by (simp add: window_step_def bits_val_def)
qed

section \<open>Decoder\<close>

definition back_num :: "bytes \<Rightarrow> nat" where
  "back_num B = val256 (map unat B)"

lemma val256_digit:
  "(\<And>b. b \<in> set xs \<Longrightarrow> b < 256) \<Longrightarrow> val256 xs div 256 ^ k mod 256 = (if k < length xs then xs ! (length xs - 1 - k) else 0)"
proof (induction xs arbitrary: k rule: rev_induct)
  case (snoc b xs)
  have v: "val256 (xs @ [b]) = val256 xs * 256 + b" and b: "b < 256" using snoc.prems by (simp_all add: val256_append)
  show ?case
  proof (cases k)
    case 0
    then show ?thesis using b by (simp add: v)
  next
    case (Suc j)
    have "val256 (xs @ [b]) div 256 ^ k = val256 xs div 256 ^ j" using b by (simp add: v Suc div_mult2_eq)
    then show ?thesis using snoc.IH [of j] snoc.prems Suc by (auto simp: nth_append)
  qed
qed simp

lemma back_num_digit: "back_num B div 256 ^ k mod 256 = (if k < length B then unat (B ! (length B - 1 - k)) else 0)"
  unfolding back_num_def by (subst val256_digit) auto

definition dec_bits :: "bytes \<Rightarrow> nat \<Rightarrow> RangeDecoder \<Rightarrow> bool" where
  "dec_bits B m d \<longleftrightarrow> rd_buf d = B \<and> length B < 2 ^ 32 \<and> unat (rd_storage d) = length B \<and> 0 \<le> rd_nendBits d \<and> rd_nendBits d \<le> 32 \<and>
     (\<exists>k. m + nat (rd_nendBits d) = 8 * k \<and> unat (rd_endOffs d) = min k (length B)) \<and>
     unat (rd_endWindow d) = back_num B div 2 ^ m mod 2 ^ nat (rd_nendBits d)"

lemma dec_bits_back: "dec_back d' = dec_back d \<Longrightarrow> dec_bits B m d' = dec_bits B m d"
  by (auto simp: dec_back_def dec_bits_def)

lemma readByteFromEnd_at:
  assumes "rd_buf d = B" "length B < 2 ^ 32" "unat (rd_storage d) = length B" "unat (rd_endOffs d) = min k (length B)"
  obtains o' where "rd_readByteFromEnd d = (of_nat (back_num B div 256 ^ k mod 256), d\<lparr>rd_endOffs := o'\<rparr>)" "unat o' = min (Suc k) (length B)"
proof (cases "k < length B")
  case True
  then have less: "unat (rd_endOffs d) < unat (rd_storage d)" "unat (rd_endOffs d) = k" using assms by simp_all
  then have Suc: "unat (rd_endOffs d + 1) = k + 1" by (simp add: unat_Suc_bound)
  then have "rd_endOffs d + 1 \<le> rd_storage d" using True assms(3) by (simp add: word_le_nat_alt)
  then have "unat (rd_storage d - (rd_endOffs d + 1)) = length B - 1 - k" using Suc assms(3) by (simp add: unat_sub)
  then show ?thesis using that [of "rd_endOffs d + 1"] less True assms(1) Suc
    by (simp add: rd_readByteFromEnd_def back_num_digit word_less_nat_alt)
next
  case False
  then show ?thesis using that [of "rd_endOffs d"] assms by (simp add: rd_readByteFromEnd_def back_num_digit word_less_nat_alt)
qed

lemma dec_bits_byte:
  assumes "dec_bits B m (d\<lparr>rd_endWindow := w, rd_nendBits := a\<rparr>)" "0 \<le> a" "a \<le> 24"
  obtains o' b where "rd_readByteFromEnd d = (b, d\<lparr>rd_endOffs := o'\<rparr>)"
    "dec_bits B m (d\<lparr>rd_endOffs := o', rd_endWindow := w OR push_bit (nat a) b, rd_nendBits := a + 8\<rparr>)"
proof -
  obtain k where k: "rd_buf d = B" "length B < 2 ^ 32" "unat (rd_storage d) = length B" "m + nat a = 8 * k" "unat (rd_endOffs d) = min k (length B)"
      "unat w = back_num B div 2 ^ m mod 2 ^ nat a"
    using assms(1) by (auto simp: dec_bits_def)
  obtain o' where o': "rd_readByteFromEnd d = (of_nat (back_num B div 256 ^ k mod 256), d\<lparr>rd_endOffs := o'\<rparr>)" "unat o' = min (Suc k) (length B)"
    using readByteFromEnd_at [OF k(1,2,3,5)] by blast
  let ?b = "of_nat (back_num B div 256 ^ k mod 256) :: u32"
  have b: "unat ?b = back_num B div 256 ^ k mod 256" by (rule unat_of_nat_u32) (rule less_trans [OF mod_less_divisor], simp_all)
  have nat8: "nat (a + 8) = nat a + 8" using assms(2) by simp
  have digit: "back_num B div 256 ^ k = back_num B div 2 ^ m div 2 ^ nat a"
    using k(4) by (simp add: pow256 flip: div_mult2_eq power_add)
  have "unat (w OR push_bit (nat a) ?b) = unat w + unat ?b * 2 ^ nat a"
    using k(6) assms(2,3) b by (intro unat_window [where n = 8]) auto
  also have "\<dots> = 2 ^ nat a * (back_num B div 2 ^ m div 2 ^ nat a mod 2 ^ 8) + back_num B div 2 ^ m mod 2 ^ nat a"
    unfolding b unfolding k(6) digit by simp
  also have "\<dots> = back_num B div 2 ^ m mod 2 ^ nat (a + 8)" unfolding nat8 power_add by (rule mod_mult2_eq [symmetric])
  finally have "unat (w OR push_bit (nat a) ?b) = back_num B div 2 ^ m mod 2 ^ nat (a + 8)" .
  then have "dec_bits B m (d\<lparr>rd_endOffs := o', rd_endWindow := w OR push_bit (nat a) ?b, rd_nendBits := a + 8\<rparr>)"
    using k o'(2) assms(2,3) by (auto simp: dec_bits_def nat8 intro!: exI [of _ "Suc k"])
  with o'(1) that show ?thesis by blast
qed

lemma refill_bits:
  assumes "dec_bits B m (d\<lparr>rd_endWindow := w, rd_nendBits := a\<rparr>)" "0 \<le> a" "a \<le> 24"
  obtains w' a' o' where "refill w a d = (w', a', d\<lparr>rd_endOffs := o'\<rparr>)" "25 \<le> a'" "a' \<le> 32"
    "dec_bits B m (d\<lparr>rd_endOffs := o', rd_endWindow := w', rd_nendBits := a'\<rparr>)"
proof -
  have "\<exists>w' a' o'. refill w a d = (w', a', d\<lparr>rd_endOffs := o'\<rparr>) \<and> 25 \<le> a' \<and> a' \<le> 32 \<and>
      dec_bits B m (d\<lparr>rd_endOffs := o', rd_endWindow := w', rd_nendBits := a'\<rparr>)"
    using assms
  proof (induction "nat (24 - a)" arbitrary: w a d rule: less_induct)
    case less
    obtain o' b where s: "rd_readByteFromEnd d = (b, d\<lparr>rd_endOffs := o'\<rparr>)"
        "dec_bits B m (d\<lparr>rd_endOffs := o', rd_endWindow := w OR push_bit (nat a) b, rd_nendBits := a + 8\<rparr>)"
      using dec_bits_byte [OF less.prems] by blast
    have "(word_of_int c :: u32) > 24 \<longleftrightarrow> c > 24" if "0 \<le> c" "c \<le> 32" for c
      using that by (simp add: uint_word_of_int word_less_def)
    then have a: "s32 (a + 8) = a + 8" "unat (word_of_int a :: u32) = nat a" "(word_of_int (a + 8) :: u32) > 24 \<longleftrightarrow> a + 8 > 24"
      using less.prems(2,3) by (auto simp: s32_id unat_eq_nat_uint uint_word_of_int simp del: of_int_add)
    have run: "refill w a d = (if a + 8 > 24 then (w OR push_bit (nat a) b, a + 8, d\<lparr>rd_endOffs := o'\<rparr>)
        else refill (w OR push_bit (nat a) b) (a + 8) (d\<lparr>rd_endOffs := o'\<rparr>))"
      by (subst refill.simps) (simp add: s(1) ec_defs Let_def a del: of_int_add)
    show ?case
    proof (cases "a + 8 > 24")
      case True
      then show ?thesis using run s(2) less.prems(3) by auto
    next
      case False
      then show ?thesis using less.hyps [OF _ s(2)] less.prems run by (auto simp: nat_less_eq_zless)
    qed
  qed
  then show ?thesis using that by blast
qed

lemma unat_low_bits: "n < 32 \<Longrightarrow> unat (w AND (push_bit n 1 - 1) :: u32) = unat w mod 2 ^ n"
proof -
  assume "n < 32"
  have "w AND (push_bit n 1 - 1) = take_bit n w" by (simp add: take_bit_eq_mask mask_eq_exp_minus_1 push_bit_eq_mult)
  then show ?thesis by (simp only: unsigned_take_bit_eq) (simp add: take_bit_eq_mod)
qed

lemma rd_BitsN_step:
  assumes "dec_bits B m d" "unat n \<le> 25"
  obtains d' where "rd_BitsN d n = (of_nat (back_num B div 2 ^ m mod 2 ^ unat n), d')" "dec_bits B (m + unat n) d'"
    "d' = d\<lparr>rd_endOffs := rd_endOffs d', rd_endWindow := rd_endWindow d', rd_nendBits := rd_nendBits d', rd_nbitsTotal := rd_nbitsTotal d'\<rparr>"
proof -
  define k where "k = unat n"
  have k: "k \<le> 25" "sint n = int k" using assms(2) sint_small [of n] by (simp_all add: k_def)
  let ?a = "rd_nendBits d"
  have a: "0 \<le> ?a" "?a \<le> 32" using assms(1) by (auto simp: dec_bits_def)
  have less: "(word_of_int ?a :: u32) < n \<longleftrightarrow> ?a < int k"
    using a by (simp add: word_less_def uint_word_of_int k_def)
  have self: "d\<lparr>rd_endWindow := rd_endWindow d, rd_nendBits := ?a\<rparr> = d" "d\<lparr>rd_endOffs := rd_endOffs d\<rparr> = d" by simp_all
  obtain w a' o' where s: "(if ?a < int k then refill (rd_endWindow d) ?a d else (rd_endWindow d, ?a, d)) = (w, a', d\<lparr>rd_endOffs := o'\<rparr>)"
      "int k \<le> a'" "a' \<le> 32" "dec_bits B m (d\<lparr>rd_endOffs := o', rd_endWindow := w, rd_nendBits := a'\<rparr>)"
  proof (cases "?a < int k")
    case True
    have "dec_bits B m (d\<lparr>rd_endWindow := rd_endWindow d, rd_nendBits := ?a\<rparr>)" unfolding self by (rule assms(1))
    moreover have "?a \<le> 24" using True k by simp
    ultimately obtain w a' o' where r: "refill (rd_endWindow d) ?a d = (w, a', d\<lparr>rd_endOffs := o'\<rparr>)" "25 \<le> a'" "a' \<le> 32"
        "dec_bits B m (d\<lparr>rd_endOffs := o', rd_endWindow := w, rd_nendBits := a'\<rparr>)"
      using refill_bits [of B m ?a "rd_endWindow d" d] a(1) by blast
    show ?thesis using that [of w a' o'] r True k by simp
  next
    case False
    then show ?thesis using that [of "rd_endWindow d" ?a "rd_endOffs d"] assms(1) a by simp
  qed
  have w: "unat w = back_num B div 2 ^ m mod 2 ^ nat a'" using s(4) by (simp add: dec_bits_def)
  define j where "j = nat a' - k"
  have j: "nat a' = k + j" "nat (a' - int k) = j" using s(2) by (simp_all add: j_def)
  have split: "unat w = 2 ^ k * (back_num B div 2 ^ m div 2 ^ k mod 2 ^ j) + back_num B div 2 ^ m mod 2 ^ k"
    unfolding w j(1) power_add by (rule mod_mult2_eq)
  have ret: "unat (w AND (push_bit k 1 - 1)) = back_num B div 2 ^ m mod 2 ^ k" using k(1) unat_low_bits [of k w] by (simp add: split)
  have rest: "unat (drop_bit k w) = back_num B div 2 ^ (m + k) mod 2 ^ j"
    unfolding unat_drop_bit_div split by (simp add: power_add div_mult2_eq)
  let ?d' = "d\<lparr>rd_endOffs := o', rd_endWindow := drop_bit k w, rd_nendBits := a' - int k, rd_nbitsTotal := rd_nbitsTotal d + n\<rparr>"
  have "s32 (a' - int k) = a' - int k" using s(2,3) by (intro s32_id) auto
  moreover have "w AND (push_bit k 1 - 1) = of_nat (back_num B div 2 ^ m mod 2 ^ k)" unfolding ret [symmetric] by simp
  ultimately have "rd_BitsN d n = (of_nat (back_num B div 2 ^ m mod 2 ^ k), ?d')"
    using s(1) by (simp add: rd_BitsN_def less k(2) Let_def flip: k_def)
  moreover have "dec_bits B (m + k) ?d'" using s(2,3,4) rest j by (auto simp: dec_bits_def add.assoc)
  ultimately show ?thesis using that [of ?d'] by (simp add: k_def)
qed

end
