(* ===== verification/Range_Coder_Roundtrip.thy ===== *)
theory Range_Coder_Roundtrip
  imports Range_Coder_Bits
begin

text \<open>
  The range decoder inverts the range encoder. A pair of an encoding and a decoding operation codes a
  value when the encoder's state after it determines, in any buffer that agrees with that state, what
  the decoder reads. Such pairs compose, so it is enough to look at each operation once.
\<close>

section \<open>Agreement of buffer, encoder and decoder\<close>

definition rng_ok :: "RangeEncoder \<Rightarrow> bool" where
  "rng_ok e \<longleftrightarrow> 2 ^ 23 < unat (re_rng e) \<and> unat (re_rng e) \<le> 2 ^ 31"

definition holds :: "bytes \<Rightarrow> RangeEncoder \<Rightarrow> bool" where
  "holds B e \<longleftrightarrow> low e \<le> seen B (count e) \<and> seen B (count e) < low e + unat (re_rng e) \<and> back_num B mod 2 ^ bits_len e = bits_val e"

definition follows :: "bytes \<Rightarrow> RangeEncoder \<Rightarrow> RangeDecoder \<Rightarrow> bool" where
  "follows B e d \<longleftrightarrow> dec_ok B (count e) (low e) d \<and> rd_rng d = re_rng e \<and> dec_bits B (bits_len e) d \<and> rd_Err d = 0"

text \<open>\<open>n\<close> bounds the bytes that the operation adds to the front.\<close>

definition codes :: "nat \<Rightarrow> (RangeEncoder \<Rightarrow> rc_stop + RangeEncoder) \<Rightarrow> (RangeDecoder \<Rightarrow> rc_stop + 'a \<times> RangeDecoder) \<Rightarrow> 'a \<Rightarrow> bool" where
  "codes n f g v \<longleftrightarrow> (\<forall>e. rng_ok e \<longrightarrow> (\<exists>e'. f e = Inr e' \<and> rng_ok e' \<and> (re_err e' = 0 \<longrightarrow> re_err e = 0) \<and>
     (re_err e' = 0 \<longrightarrow> enc_ok e \<longrightarrow> bits_ok e \<longrightarrow> count e + n < 2 ^ 32 \<longrightarrow>
        enc_ok e' \<and> bits_ok e' \<and> count e' \<le> count e + n \<and>
        (\<forall>B. holds B e' \<longrightarrow> holds B e \<and> (\<forall>d. follows B e d \<longrightarrow> (\<exists>d'. g d = Inr (v, d') \<and> follows B e' d'))))))"

lemma codesI:
  assumes "\<And>e. rng_ok e \<Longrightarrow> \<exists>e'. f e = Inr e' \<and> rng_ok e' \<and> (re_err e' = 0 \<longrightarrow> re_err e = 0) \<and>
     (re_err e' = 0 \<longrightarrow> enc_ok e \<longrightarrow> bits_ok e \<longrightarrow> count e + n < 2 ^ 32 \<longrightarrow>
        enc_ok e' \<and> bits_ok e' \<and> count e' \<le> count e + n \<and>
        (\<forall>B. holds B e' \<longrightarrow> holds B e \<and> (\<forall>d. follows B e d \<longrightarrow> (\<exists>d'. g d = Inr (v, d') \<and> follows B e' d'))))"
  shows "codes n f g v"
  using assms by (simp add: codes_def)

lemma codes_return: "codes n Inr (\<lambda>d. Inr (v, d)) v"
  by (rule codesI) auto

lemma codes_bind:
  assumes "codes m f g v" "codes n f' (g' v) w"
  shows "codes (m + n) (\<lambda>e. bind_res (f e) f') (\<lambda>d. bind_res (g d) (\<lambda>(x, d). g' x d)) w"
proof (rule codesI)
  fix e assume "rng_ok e"
  with assms(1) obtain e1 where 1: "f e = Inr e1" "rng_ok e1" "re_err e1 = 0 \<longrightarrow> re_err e = 0"
      "re_err e1 = 0 \<longrightarrow> enc_ok e \<longrightarrow> bits_ok e \<longrightarrow> count e + m < 2 ^ 32 \<longrightarrow> enc_ok e1 \<and> bits_ok e1 \<and> count e1 \<le> count e + m \<and>
        (\<forall>B. holds B e1 \<longrightarrow> holds B e \<and> (\<forall>d. follows B e d \<longrightarrow> (\<exists>d'. g d = Inr (v, d') \<and> follows B e1 d')))"
    unfolding codes_def by blast
  from 1(2) assms(2) obtain e2 where 2: "f' e1 = Inr e2" "rng_ok e2" "re_err e2 = 0 \<longrightarrow> re_err e1 = 0"
      "re_err e2 = 0 \<longrightarrow> enc_ok e1 \<longrightarrow> bits_ok e1 \<longrightarrow> count e1 + n < 2 ^ 32 \<longrightarrow> enc_ok e2 \<and> bits_ok e2 \<and> count e2 \<le> count e1 + n \<and>
        (\<forall>B. holds B e2 \<longrightarrow> holds B e1 \<and> (\<forall>d. follows B e1 d \<longrightarrow> (\<exists>d'. g' v d = Inr (w, d') \<and> follows B e2 d')))"
    unfolding codes_def by blast
  show "\<exists>e'. bind_res (f e) f' = Inr e' \<and> rng_ok e' \<and> (re_err e' = 0 \<longrightarrow> re_err e = 0) \<and>
     (re_err e' = 0 \<longrightarrow> enc_ok e \<longrightarrow> bits_ok e \<longrightarrow> count e + (m + n) < 2 ^ 32 \<longrightarrow>
        enc_ok e' \<and> bits_ok e' \<and> count e' \<le> count e + (m + n) \<and>
        (\<forall>B. holds B e' \<longrightarrow> holds B e \<and> (\<forall>d. follows B e d \<longrightarrow>
           (\<exists>d'. bind_res (g d) (\<lambda>(x, d). g' x d) = Inr (w, d') \<and> follows B e' d'))))"
    using 1 2 by (intro exI [of _ e2]) (auto simp: res_elims; force)
qed

section \<open>Slices\<close>

text \<open>Every range-coding operation keeps the part of the interval from \<open>off\<close> on, \<open>w\<close> wide.\<close>

definition enc_slice :: "nat \<Rightarrow> nat \<Rightarrow> RangeEncoder \<Rightarrow> rc_stop + RangeEncoder" where
  "enc_slice off w e = from_loop (re_normalize (e\<lparr>re_val := re_val e + of_nat off, re_rng := of_nat w\<rparr>))"

definition dec_slice :: "nat \<Rightarrow> nat \<Rightarrow> RangeDecoder \<Rightarrow> rc_stop + RangeDecoder" where
  "dec_slice off w d = from_loop (rd_normalize (d\<lparr>rd_val := rd_val d - of_nat (unat (rd_rng d) - off - w), rd_rng := of_nat w\<rparr>))"

lemma dec_slice_ok:
  assumes "dec_ok B n L d" "off + w \<le> unat (rd_rng d)" "L + off \<le> seen B n" "seen B n < L + off + w"
  shows "dec_ok B n (L + off) (d\<lparr>rd_val := rd_val d - of_nat (unat (rd_rng d) - off - w), rd_rng := of_nat w\<rparr>)"
proof -
  have bounds: "w < 2 ^ 32" "unat (rd_rng d) - off - w < 2 ^ 32" using assms(2) unat_u32_less [of "rd_rng d"] by simp_all
  have v: "unat (rd_val d) = L + unat (rd_rng d) - 1 - seen B n" using assms(1) by (simp add: dec_ok_def)
  have "unat (of_nat (unat (rd_rng d) - off - w) :: u32) = unat (rd_rng d) - off - w" using bounds(2) by (rule unat_of_nat_u32)
  moreover from this have "of_nat (unat (rd_rng d) - off - w) \<le> rd_val d" using assms(2-4) v by (simp add: word_le_nat_alt)
  ultimately have "unat (rd_val d - of_nat (unat (rd_rng d) - off - w)) = L + off + w - 1 - seen B n"
    using assms(2-4) v by (simp add: unat_sub)
  then show ?thesis using assms bounds(1) by (simp add: dec_ok_def unat_of_nat_u32)
qed

lemma enc_slice_ok:
  assumes "enc_ok e" "off + w \<le> unat (re_rng e)" "0 < w"
  defines "e1 \<equiv> e\<lparr>re_val := re_val e + of_nat off, re_rng := of_nat w\<rparr>"
  shows "enc_ok e1" "low e1 = low e + off" "count e1 = count e" "back_part e1 = back_part e"
proof -
  have bounds: "off < 2 ^ 32" "w < 2 ^ 32" "unat (re_val e) + off < 2 ^ 32" using assms(1,2) by (auto simp: enc_ok_def)
  have r: "unat (re_rng e1) = w" using bounds by (simp add: e1_def unat_of_nat_u32)
  have "unat (re_val e + of_nat off) = unat (re_val e) + off"
    using bounds by (simp add: unat_plus_if' unat_of_nat_u32)
  then have v: "unat (re_val e1) = unat (re_val e) + off" by (simp add: e1_def)
  have same: "written e1 = written e" "pending e1 = pending e" "layout e1 = layout e"
    by (simp_all add: e1_def written_def pending_def layout_def)
  show low: "low e1 = low e + off" by (simp add: low_def same v)
  show "count e1 = count e" by (simp add: count_def same)
  show "back_part e1 = back_part e" by (simp add: e1_def back_part_def back_bytes_def)
  show "enc_ok e1" using assms(1-3) unfolding enc_ok_def r v low same by auto
qed

lemma nested_interval:
  assumes "L * 256 ^ k \<le> seen B (n + k)" "seen B (n + k) < L * 256 ^ k + w * 256 ^ k"
  shows "L \<le> seen B n" "seen B n < L + w"
  using assms unfolding seen_add [of B n k] by (simp_all add: less_eq_div_iff_mult_less_eq div_less_iff_less_mult add_mult_distrib)

lemma slice_step:
  assumes "rng_ok e" "off + w \<le> unat (re_rng e)" "0 < w"
  obtains e' where "enc_slice off w e = Inr e'" "rng_ok e'" "re_err e' = 0 \<longrightarrow> re_err e = 0"
    "re_err e' = 0 \<Longrightarrow> enc_ok e \<Longrightarrow> bits_ok e \<Longrightarrow> count e + 3 < 2 ^ 32 \<Longrightarrow>
       enc_ok e' \<and> bits_ok e' \<and> count e' \<le> count e + 3 \<and>
       (\<forall>B. holds B e' \<longrightarrow> holds B e \<and> low e + off \<le> seen B (count e) \<and> seen B (count e) < low e + off + w \<and>
          (\<forall>d x. follows B e d \<longrightarrow> (\<exists>d'. dec_slice off w (d\<lparr>rd_ext := x\<rparr>) = Inr d' \<and> follows B e' d')))"
proof -
  define e1 where "e1 = e\<lparr>re_val := re_val e + of_nat off, re_rng := of_nat w\<rparr>"
  have w: "w \<le> 2 ^ 31" "unat (re_rng e1) = w" using assms(1,2) by (simp_all add: rng_ok_def e1_def unat_of_nat_u32)
  define k where "k = norm_steps w"
  obtain e' where e': "re_normalize e1 = Some e'" "unat (re_rng e') = w * 256 ^ k" "re_err e' = 0 \<longrightarrow> re_err e1 = 0"
      "re_err e' = 0 \<Longrightarrow> enc_ok e1 \<Longrightarrow> count e1 + 3 < 2 ^ 32 \<Longrightarrow>
         enc_ok e' \<and> count e' = count e1 + k \<and> low e' = low e1 * 256 ^ k \<and> back_part e' = back_part e1"
    using re_normalize_total [of e1] assms(3) w unfolding k_def by metis
  have main: "enc_ok e' \<and> bits_ok e' \<and> count e' \<le> count e + 3 \<and>
       (\<forall>B. holds B e' \<longrightarrow> holds B e \<and> low e + off \<le> seen B (count e) \<and> seen B (count e) < low e + off + w \<and>
          (\<forall>d x. follows B e d \<longrightarrow> (\<exists>d'. dec_slice off w (d\<lparr>rd_ext := x\<rparr>) = Inr d' \<and> follows B e' d')))"
    if err: "re_err e' = 0" and ok: "enc_ok e" "bits_ok e" and fits: "count e + 3 < 2 ^ 32"
  proof -
    note s = enc_slice_ok [OF ok(1) assms(2,3), folded e1_def]
    have n: "enc_ok e'" "count e' = count e + k" "low e' = (low e + off) * 256 ^ k" "back_part e' = back_part e"
      using e'(4) [OF err s(1)] s fits by simp_all
    note bk = back_part_eq [OF n(4)]
    have "holds B e \<and> low e + off \<le> seen B (count e) \<and> seen B (count e) < low e + off + w \<and>
          (\<forall>d x. follows B e d \<longrightarrow> (\<exists>d'. dec_slice off w (d\<lparr>rd_ext := x\<rparr>) = Inr d' \<and> follows B e' d'))" if "holds B e'" for B
    proof -
      have inside: "low e + off \<le> seen B (count e)" "seen B (count e) < low e + off + w"
        using that nested_interval [of "low e + off" k B "count e" w] by (simp_all add: holds_def n(2,3) e'(2))
      have "\<exists>d'. dec_slice off w (d\<lparr>rd_ext := x\<rparr>) = Inr d' \<and> follows B e' d'" if f: "follows B e d" for d x
      proof -
        let ?d = "d\<lparr>rd_ext := x\<rparr>"
        let ?d1 = "?d\<lparr>rd_val := rd_val ?d - of_nat (unat (rd_rng ?d) - off - w), rd_rng := of_nat w\<rparr>"
        have "dec_ok B (count e) (low e) ?d" "rd_rng ?d = re_rng e" using f by (auto simp: follows_def dec_ok_def)
        then have ok1: "dec_ok B (count e) (low e + off) ?d1" using assms(2) inside by (intro dec_slice_ok) simp_all
        have rng1: "unat (rd_rng ?d1) = w" using w by (simp add: unat_of_nat_u32)
        obtain d' where d': "rd_normalize ?d1 = Some d'" "dec_ok B (count e + k) ((low e + off) * 256 ^ k) d'" "unat (rd_rng d') = w * 256 ^ k"
            "dec_back d' = dec_back ?d1"
          using rd_normalize_step [OF ok1] assms(3) w(1) unfolding rng1 k_def [symmetric] by metis
        have "rd_rng d' = re_rng e'" using d'(3) e'(2) by (simp add: word_unat_eq_iff)
        moreover have "dec_back d' = dec_back d" using d'(4) by (simp add: dec_back_def)
        then have "dec_bits B (bits_len e') d'" "rd_Err d' = 0" using f dec_bits_back [of d' d] bk(1) by (simp_all add: follows_def dec_back_def)
        ultimately have "follows B e' d'" using d'(2) n(2,3) by (simp add: follows_def)
        then show ?thesis using d'(1) by (auto simp: dec_slice_def from_loop_def)
      qed
      moreover have "holds B e" using that inside assms(2) bk by (simp add: holds_def)
      ultimately show ?thesis using inside by blast
    qed
    then show ?thesis using n(1,2) bk(3) ok(2) norm_steps_le [of w] by (simp add: k_def)
  qed
  have "rng_ok e'" using norm_steps_range [OF assms(3) w(1)] e'(2) by (simp add: rng_ok_def k_def)
  moreover have "enc_slice off w e = Inr e'" using e'(1) by (simp add: enc_slice_def e1_def from_loop_def)
  ultimately show ?thesis using that main e'(3) by (simp add: e1_def)
qed

lemma codes_slice:
  assumes part: "\<And>r. 2 ^ 23 < r \<Longrightarrow> r \<le> 2 ^ 31 \<Longrightarrow> off r + wid r \<le> r \<and> 0 < wid r"
    and f: "\<And>e. rng_ok e \<Longrightarrow> f e = enc_slice (off (unat (re_rng e))) (wid (unat (re_rng e))) e"
    and g: "\<And>d r. unat (rd_rng d) = r \<Longrightarrow> 2 ^ 23 < r \<Longrightarrow> r \<le> 2 ^ 31 \<Longrightarrow> r - off r - wid r \<le> unat (rd_val d) \<Longrightarrow> unat (rd_val d) < r - off r \<Longrightarrow>
      \<exists>x. g d = bind_res (dec_slice (off r) (wid r) (d\<lparr>rd_ext := x\<rparr>)) (\<lambda>d. Inr (v, d))"
  shows "codes 3 f g v"
proof (rule codesI)
  fix e assume rng: "rng_ok e"
  define r where "r = unat (re_rng e)"
  have r: "2 ^ 23 < r" "r \<le> 2 ^ 31" using rng by (simp_all add: rng_ok_def r_def)
  note p = part [OF r]
  obtain e' where e': "enc_slice (off r) (wid r) e = Inr e'" "rng_ok e'" "re_err e' = 0 \<longrightarrow> re_err e = 0"
    "re_err e' = 0 \<Longrightarrow> enc_ok e \<Longrightarrow> bits_ok e \<Longrightarrow> count e + 3 < 2 ^ 32 \<Longrightarrow>
       enc_ok e' \<and> bits_ok e' \<and> count e' \<le> count e + 3 \<and>
       (\<forall>B. holds B e' \<longrightarrow> holds B e \<and> low e + off r \<le> seen B (count e) \<and> seen B (count e) < low e + off r + wid r \<and>
          (\<forall>d x. follows B e d \<longrightarrow> (\<exists>d'. dec_slice (off r) (wid r) (d\<lparr>rd_ext := x\<rparr>) = Inr d' \<and> follows B e' d')))"
    using slice_step [OF rng, of "off r" "wid r"] p unfolding r_def by metis
  have decode: "\<exists>d'. g d = Inr (v, d') \<and> follows B e' d'"
    if fol: "follows B e d" and inside: "low e + off r \<le> seen B (count e)" "seen B (count e) < low e + off r + wid r"
      and slice: "\<And>x. \<exists>d'. dec_slice (off r) (wid r) (d\<lparr>rd_ext := x\<rparr>) = Inr d' \<and> follows B e' d'" for B d
  proof -
    have d: "unat (rd_rng d) = r" "unat (rd_val d) = low e + r - 1 - seen B (count e)" using fol by (auto simp: follows_def dec_ok_def r_def)
    have "r - off r - wid r \<le> unat (rd_val d)" "unat (rd_val d) < r - off r" using d(2) inside p by linarith+
    then obtain x where "g d = bind_res (dec_slice (off r) (wid r) (d\<lparr>rd_ext := x\<rparr>)) (\<lambda>d. Inr (v, d))"
      using g [OF d(1) r] by blast
    then show ?thesis using slice [of x] by auto
  qed
  show "\<exists>e'. f e = Inr e' \<and> rng_ok e' \<and> (re_err e' = 0 \<longrightarrow> re_err e = 0) \<and>
     (re_err e' = 0 \<longrightarrow> enc_ok e \<longrightarrow> bits_ok e \<longrightarrow> count e + 3 < 2 ^ 32 \<longrightarrow>
        enc_ok e' \<and> bits_ok e' \<and> count e' \<le> count e + 3 \<and>
        (\<forall>B. holds B e' \<longrightarrow> holds B e \<and> (\<forall>d. follows B e d \<longrightarrow> (\<exists>d'. g d = Inr (v, d') \<and> follows B e' d'))))"
    using e' decode f [OF rng] by (intro exI [of _ e']) (simp add: r_def)
qed

section \<open>Symbols of a cumulative table\<close>

definition sym_off :: "nat \<Rightarrow> nat \<Rightarrow> nat \<Rightarrow> nat" where
  "sym_off r fl ft = (if fl = 0 then 0 else r - r div ft * (ft - fl))"

definition sym_wid :: "nat \<Rightarrow> nat \<Rightarrow> nat \<Rightarrow> nat \<Rightarrow> nat" where
  "sym_wid r fl fh ft = (if fl = 0 then r - r div ft * (ft - fh) else r div ft * (fh - fl))"

lemma sym_parts:
  assumes "fl < fh" "fh \<le> ft" "ft \<le> 2 ^ 23" "(2 :: nat) ^ 23 < r"
  shows "0 < sym_wid r fl fh ft" "sym_off r fl ft + sym_wid r fl fh ft + r div ft * (ft - fh) = r"
proof -
  have q: "0 < r div ft" using assms by (simp add: div_greater_zero_iff)
  have all: "r div ft * ft \<le> r" by (simp add: mult.commute)
  have split: "r div ft * (ft - x) + r div ft * x = r div ft * ft" if "x \<le> ft" for x
    using that by (simp flip: add_mult_distrib2)
  have wide: "r div ft * (fh - fl) + r div ft * (ft - fh) = r div ft * (ft - fl)"
    using assms(1,2) by (simp flip: add_mult_distrib2)
  have pos: "0 < r div ft * fh" "0 < r div ft * (fh - fl)" using assms(1) q by simp_all
  have "r div ft * (ft - fh) < r" using pos(1) split [OF assms(2)] all by linarith
  then show "0 < sym_wid r fl fh ft" using pos by (simp add: sym_wid_def)
  show "sym_off r fl ft + sym_wid r fl fh ft + r div ft * (ft - fh) = r"
  proof -
    have "r div ft * (ft - fl) \<le> r" using split [of fl] all assms(1,2) by linarith
    with wide have "r - r div ft * (ft - fl) + r div ft * (fh - fl) + r div ft * (ft - fh) = r" by linarith
    then show ?thesis using \<open>r div ft * (ft - fh) < r\<close> by (simp add: sym_wid_def sym_off_def)
  qed
qed

lemma word_diff: "unat (y :: u32) \<le> unat x \<Longrightarrow> x - y = of_nat (unat x - unat y)"
  by (simp add: of_nat_diff)

lemma word_quot: "(x :: u32) div y = of_nat (unat x div unat y)"
  by (subst unat_div [symmetric]) simp

lemma re_Encode_slice:
  assumes "unat fl < unat fh" "unat fh \<le> unat ft" "unat ft \<le> 2 ^ 23" "rng_ok e"
  shows "re_Encode e fl fh ft = enc_slice (sym_off (unat (re_rng e)) (unat fl) (unat ft)) (sym_wid (unat (re_rng e)) (unat fl) (unat fh) (unat ft)) e"
proof -
  let ?r = "unat (re_rng e)" and ?q = "unat (re_rng e) div unat ft"
  have le: "?q * (unat ft - x) \<le> ?r" for x
    by (rule order_trans [OF mult_le_mono2 div_times_less_eq_dividend]) simp
  have part: "re_rng e div ft * (y - x) = of_nat (?q * (unat y - unat x))" if "unat x \<le> unat y" for x y
    unfolding word_diff [OF that] word_quot by (simp only: of_nat_mult)
  have "re_rng e - re_rng e div ft * (ft - x) = of_nat (?r - ?q * (unat ft - unat x))" if "unat x \<le> unat ft" for x
    unfolding part [OF that] of_nat_diff [OF le] by simp
  moreover have "re_rng e div ft * (fh - fl) = of_nat (?q * (unat fh - unat fl))" using assms(1) by (intro part) simp
  moreover have "ft \<noteq> 0" using assms(1,2) by auto
  moreover have "fl > 0 \<longleftrightarrow> unat fl \<noteq> 0" by (simp add: word_less_nat_alt)
  ultimately show ?thesis using assms(1,2) by (auto simp: re_Encode_def Let_def enc_slice_def sym_off_def sym_wid_def)
qed

lemma rd_Decode_symbol:
  assumes sizes: "unat fl < unat fh" "unat fh \<le> unat ft" "unat ft \<le> 2 ^ 23" "2 ^ 23 < unat (rd_rng d)" "unat (rd_rng d) \<le> 2 ^ 31"
    and val: "unat (rd_val d) < unat (rd_rng d)" "unat (rd_rng d) div unat ft * (unat ft - unat fh) \<le> unat (rd_val d)"
      "unat fl \<noteq> 0 \<Longrightarrow> unat (rd_val d) < unat (rd_rng d) div unat ft * (unat ft - unat fl)"
  obtains fs where "rd_Decode d ft = (fs, d\<lparr>rd_ext := rd_rng d div ft\<rparr>)" "fl \<le> fs" "fs < fh"
proof -
  let ?q = "unat (rd_rng d) div unat ft" and ?s = "rd_val d div (rd_rng d div ft)"
  have q: "0 < ?q" "unat (rd_rng d div ft) = ?q" using sizes by (simp_all add: div_greater_zero_iff unat_div)
  have ft: "ft \<noteq> 0" "rd_rng d div ft \<noteq> 0" using sizes(1,2) q by auto
  have s: "unat ?s = unat (rd_val d) div ?q" by (simp add: unat_div q(2))
  have small: "unat (rd_val d) div ?q < 2 ^ 31" using val(1) sizes(5) div_le_dividend [of "unat (rd_val d)" ?q] by linarith
  have Suc: "unat (?s + 1) = unat (rd_val d) div ?q + 1" using small s by (simp add: unat_plus_if')
  have lo: "unat ft - unat fh \<le> unat (rd_val d) div ?q" using val(2) q(1) by (simp add: less_eq_div_iff_mult_less_eq mult.commute)
  have hi: "unat (rd_val d) div ?q < unat ft - unat fl" if "unat fl \<noteq> 0"
    using val(3) [OF that] q(1) by (simp add: div_less_iff_less_mult mult.commute)
  define m where "m = ecMini (?s + 1) ft"
  have m: "unat m = min (unat (rd_val d) div ?q + 1) (unat ft)" using Suc by (auto simp: m_def ecMini_def word_less_nat_alt)
  then have "m \<le> ft" by (simp add: word_le_nat_alt)
  then have "unat (ft - m) = unat ft - unat m" by (rule unat_sub)
  then have "fl \<le> ft - m" "ft - m < fh"
    using m lo hi sizes(1,2) by (cases "unat fl = 0"; force simp: word_le_nat_alt word_less_nat_alt min_def)+
  then show ?thesis using that [of "ft - m"] ft by (simp add: rd_Decode_def m_def Let_def)
qed

lemma rd_Update_slice:
  assumes "unat fl < unat fh" "unat fh \<le> unat ft" "unat ft \<le> 2 ^ 23" "2 ^ 23 < unat (rd_rng d)" "rd_ext d = rd_rng d div ft"
  shows "rd_Update d fl fh ft = dec_slice (sym_off (unat (rd_rng d)) (unat fl) (unat ft)) (sym_wid (unat (rd_rng d)) (unat fl) (unat fh) (unat ft)) d"
proof -
  let ?r = "unat (rd_rng d)" and ?q = "unat (rd_rng d) div unat ft"
  note parts = sym_parts [OF assms(1-4)]
  have part: "rd_rng d div ft * (y - x) = of_nat (?q * (unat y - unat x))" if "unat x \<le> unat y" for x y
    unfolding word_diff [OF that] word_quot by (simp only: of_nat_mult)
  have "?r - sym_off ?r (unat fl) (unat ft) - sym_wid ?r (unat fl) (unat fh) (unat ft) = ?q * (unat ft - unat fh)"
    using parts(2) by linarith
  moreover have "?q * (unat ft - unat fh) \<le> ?r" using parts(2) by linarith
  then have "rd_rng d - of_nat (?q * (unat ft - unat fh)) = of_nat (?r - ?q * (unat ft - unat fh))" by (simp add: of_nat_diff)
  moreover have "fl > 0 \<longleftrightarrow> unat fl \<noteq> 0" by (simp add: word_less_nat_alt)
  ultimately show ?thesis using assms(1,2,5) part [of fh ft] part [of fl fh]
    by (simp add: rd_Update_def Let_def dec_slice_def sym_wid_def)
qed

lemma codes_symbol:
  assumes "unat fl < unat fh" "unat fh \<le> unat ft" "unat ft \<le> 2 ^ 23"
    and f: "\<And>e. f e = re_Encode e fl fh ft"
    and g: "\<And>d d1 fs. rd_Decode d ft = (fs, d1) \<Longrightarrow> 2 ^ 23 < unat (rd_rng d) \<Longrightarrow> unat (rd_rng d) \<le> 2 ^ 31 \<Longrightarrow>
      unat (rd_val d) < unat (rd_rng d) \<Longrightarrow> fl \<le> fs \<Longrightarrow> fs < fh \<Longrightarrow> g d = bind_res (rd_Update d1 fl fh ft) (\<lambda>d. Inr (v, d))"
  shows "codes 3 f g v"
proof (rule codes_slice [where off = "\<lambda>r. sym_off r (unat fl) (unat ft)" and wid = "\<lambda>r. sym_wid r (unat fl) (unat fh) (unat ft)"])
  show "sym_off r (unat fl) (unat ft) + sym_wid r (unat fl) (unat fh) (unat ft) \<le> r \<and> 0 < sym_wid r (unat fl) (unat fh) (unat ft)" if "2 ^ 23 < r" for r
    using sym_parts [OF assms(1-3) that] by linarith
  show "f e = enc_slice (sym_off (unat (re_rng e)) (unat fl) (unat ft)) (sym_wid (unat (re_rng e)) (unat fl) (unat fh) (unat ft)) e" if "rng_ok e" for e
    using re_Encode_slice [OF assms(1-3) that] by (simp add: f)
  show "\<exists>x. g d = bind_res (dec_slice (sym_off r (unat fl) (unat ft)) (sym_wid r (unat fl) (unat fh) (unat ft)) (d\<lparr>rd_ext := x\<rparr>)) (\<lambda>d. Inr (v, d))"
    if r: "unat (rd_rng d) = r" "2 ^ 23 < r" "r \<le> 2 ^ 31"
      and val: "r - sym_off r (unat fl) (unat ft) - sym_wid r (unat fl) (unat fh) (unat ft) \<le> unat (rd_val d)" "unat (rd_val d) < r - sym_off r (unat fl) (unat ft)" for d r
  proof -
    note parts = sym_parts [OF assms(1-3) r(2)]
    have "unat (rd_val d) < r" "r div unat ft * (unat ft - unat fh) \<le> unat (rd_val d)" using val parts by linarith+
    moreover have "unat (rd_val d) < r div unat ft * (unat ft - unat fl)" if "unat fl \<noteq> 0"
      using val(2) parts(2) that by (simp add: sym_off_def split: if_splits)
    ultimately obtain fs where fs: "rd_Decode d ft = (fs, d\<lparr>rd_ext := rd_rng d div ft\<rparr>)" "fl \<le> fs" "fs < fh"
      using rd_Decode_symbol [OF assms(1-3), of d] r by metis
    have "g d = bind_res (rd_Update (d\<lparr>rd_ext := rd_rng d div ft\<rparr>) fl fh ft) (\<lambda>d. Inr (v, d))"
      using g [OF fs(1)] r fs(2,3) \<open>unat (rd_val d) < r\<close> by simp
    then show ?thesis using rd_Update_slice [OF assms(1-3), of "d\<lparr>rd_ext := rd_rng d div ft\<rparr>"] r by auto
  qed
qed

end
