(* ===== verification/Range_Coder_Symbols.thy ===== *)
theory Range_Coder_Symbols
  imports Range_Coder_Roundtrip
begin

text \<open>Each pair of operations of the range coder codes its symbol.\<close>

section \<open>Cumulative tables\<close>

lemma cdf_search_found:
  assumes "\<And>j. k < j \<Longrightarrow> j \<le> s \<Longrightarrow> ucast (cdf ! j) \<le> target" "target < ucast (cdf ! (s + 1))" "s + 1 < length cdf" "k \<le> s"
  shows "cdf_search cdf target k = s"
  using assms(4,1)
proof (induction k rule: inc_induct)
  case base
  then show ?case using assms(2,3) by (subst cdf_search.simps) simp
next
  case (step k)
  then have "\<not> ucast (cdf ! (k + 1)) > target" using step.prems [of "k + 1"] by (simp add: not_less)
  moreover have "k < length cdf - 1" using step.hyps assms(3) by simp
  ultimately show ?case using step by (subst cdf_search.simps) simp
qed

lemma unat_ucast_u16: "unat (ucast (x :: u16) :: u32) = unat x"
proof -
  have "unat x < 2 ^ 32" by (rule less_trans [OF unat_u16_less]) simp
  then show ?thesis by (simp add: unsigned_ucast_eq take_bit_nat_eq_self)
qed

lemma unat_ucast_diff: "y \<le> x \<Longrightarrow> unat (ucast (x :: u16) - ucast y :: u32) = unat x - unat y"
  by (subst unat_sub) (simp_all add: word_le_nat_alt unat_ucast_u16)

lemma codes_CDF:
  assumes "sorted cdf" "s + 1 < length cdf" "cdf ! s < cdf ! (s + 1)" "length cdf \<le> 2 ^ 31"
  shows "codes 3 (\<lambda>e. EncodeCDF e (int s) cdf) (\<lambda>d. DecodeCDF d cdf) s"
proof -
  let ?base = "cdf ! 0" and ?last = "cdf ! (length cdf - 1)"
  have mono: "cdf ! i \<le> cdf ! j" if "i \<le> j" "j < length cdf" for i j using that assms(1) by (simp add: sorted_nth_mono)
  have "?base \<le> cdf ! s" "cdf ! (s + 1) \<le> ?last" using assms(2) by (intro mono; simp)+
  then have order: "?base \<le> cdf ! s" "cdf ! (s + 1) \<le> ?last" "?base < ?last" using assms(3) by auto
  let ?fl = "ucast (cdf ! s) - ucast ?base :: u32" and ?fh = "ucast (cdf ! (s + 1)) - ucast ?base :: u32" and ?ft = "ucast ?last - ucast ?base :: u32"
  have u: "unat ?fl = unat (cdf ! s) - unat ?base" "unat ?fh = unat (cdf ! (s + 1)) - unat ?base" "unat ?ft = unat ?last - unat ?base"
    using order assms(3) by (simp_all add: unat_ucast_diff)
  have nats: "unat ?base \<le> unat (cdf ! s)" "unat (cdf ! s) < unat (cdf ! (s + 1))" "unat (cdf ! (s + 1)) \<le> unat ?last" "unat ?last < 65536"
    using order assms(3) unat_u16_less by (simp_all add: word_le_nat_alt word_less_nat_alt)
  have last: "\<not> (ucast ?last :: u32) \<le> ucast ?base" using order(3) by (simp add: word_le_nat_alt word_less_nat_alt unat_ucast_u16)
  have "unat ?last - unat ?base \<le> 8388608" using nats(4) by linarith
  then have "unat ?ft \<le> 2 ^ 23" unfolding u by simp
  moreover have "unat ?fl < unat ?fh" "unat ?fh \<le> unat ?ft" unfolding u using nats by linarith+
  ultimately have fl: "unat ?fl < unat ?fh" "unat ?fh \<le> unat ?ft" "unat ?ft \<le> 2 ^ 23" by blast+
  show ?thesis
  proof (rule codes_symbol [OF fl])
    fix e show "EncodeCDF e (int s) cdf = re_Encode e ?fl ?fh ?ft"
    proof -
      have "s32 (int s + 1) = int s + 1" using assms(2,4) by (intro s32_id) auto
      then show ?thesis using assms(2) last by (auto simp: EncodeCDF_def Let_def nat_add_distrib)
    qed
  next
    fix d d1 fs
    assume d: "rd_Decode d ?ft = (fs, d1)" and fs: "?fl \<le> fs" "fs < ?fh"
    have nfs: "unat (cdf ! s) - unat ?base \<le> unat fs" "unat fs < unat (cdf ! (s + 1)) - unat ?base"
      using fs u by (simp_all add: word_le_nat_alt word_less_nat_alt)
    have "unat ?base + unat fs < 4294967296" using nfs nats by linarith
    then have target: "unat (ucast ?base + fs) = unat ?base + unat fs" by (simp add: unat_plus_if' unat_ucast_u16)
    have "cdf_search cdf (ucast ?base + fs) 0 = s"
    proof (rule cdf_search_found)
      show "ucast (cdf ! j) \<le> ucast ?base + fs" if "j \<le> s" for j
        using mono [of j s] that assms(2) nfs(1) nats by (simp add: word_le_nat_alt target unat_ucast_u16)
      show "ucast ?base + fs < ucast (cdf ! (s + 1))"
        using nfs(2) nats unfolding word_less_nat_alt target unat_ucast_u16 by linarith
    qed (use assms(2) in simp_all)
    then show "DecodeCDF d cdf = bind_res (rd_Update d1 ?fl ?fh ?ft) (\<lambda>d. Inr (s, d))"
      using assms(2) last d by (simp add: DecodeCDF_def Let_def)
  qed
qed

section \<open>Operations given by a slice\<close>

lemma codes_BitLogp:
  assumes "0 < unat logp" "unat logp \<le> 23"
  shows "codes 3 (\<lambda>e. re_BitLogp e (if b then 1 else 0) logp) (\<lambda>d. rd_BitLogp d logp) (if b then 1 else 0)"
proof (rule codes_slice [where off = "\<lambda>r. if b then r - r div 2 ^ unat logp else 0" and wid = "\<lambda>r. if b then r div 2 ^ unat logp else r - r div 2 ^ unat logp"])
  have half: "0 < r div 2 ^ unat logp" "r div 2 ^ unat logp < r" if "(2 :: nat) ^ 23 < r" for r
  proof -
    have "(2 :: nat) ^ unat logp \<le> 2 ^ 23" "(1 :: nat) < 2 ^ unat logp" using assms power_increasing [of "unat logp" 23 "2 :: nat"] one_less_power [of "2 :: nat" "unat logp"] by simp_all
    with that show "0 < r div 2 ^ unat logp" "r div 2 ^ unat logp < r" by (auto simp: div_greater_zero_iff intro: div_less_dividend)
  qed
  show "(if b then r - r div 2 ^ unat logp else 0) + (if b then r div 2 ^ unat logp else r - r div 2 ^ unat logp) \<le> r \<and>
      0 < (if b then r div 2 ^ unat logp else r - r div 2 ^ unat logp)" if "2 ^ 23 < r" for r :: nat
    using half [OF that] by auto
  have word: "drop_bit (unat logp) x = of_nat (unat x div 2 ^ unat logp)" "x - drop_bit (unat logp) x = of_nat (unat x - unat x div 2 ^ unat logp)" for x :: u32
    using word_diff [of "drop_bit (unat logp) x" x] by (simp_all add: unat_drop_bit_div)
  show "re_BitLogp e (if b then 1 else 0) logp = enc_slice (if b then unat (re_rng e) - unat (re_rng e) div 2 ^ unat logp else 0)
      (if b then unat (re_rng e) div 2 ^ unat logp else unat (re_rng e) - unat (re_rng e) div 2 ^ unat logp) e" for e
    by (simp add: re_BitLogp_def enc_slice_def Let_def word)
  show "\<exists>x. rd_BitLogp d logp = bind_res (dec_slice (if b then r - r div 2 ^ unat logp else 0)
        (if b then r div 2 ^ unat logp else r - r div 2 ^ unat logp) (d\<lparr>rd_ext := x\<rparr>)) (\<lambda>d. Inr (if b then 1 else 0, d))"
    if "unat (rd_rng d) = r" "2 ^ 23 < r"
      "r - (if b then r - r div 2 ^ unat logp else 0) - (if b then r div 2 ^ unat logp else r - r div 2 ^ unat logp) \<le> unat (rd_val d)"
      "unat (rd_val d) < r - (if b then r - r div 2 ^ unat logp else 0)" for d r
  proof -
    have "rd_val d < drop_bit (unat logp) (rd_rng d) \<longleftrightarrow> b"
      using that half [OF that(2)] by (cases b) (auto simp: word_less_nat_alt unat_drop_bit_div)
    then show ?thesis using that(1) half [OF that(2)]
      by (cases b) (auto simp: rd_BitLogp_def dec_slice_def Let_def word intro!: exI [of _ "rd_ext d"])
  qed
qed

lemma icdf_loop_found:
  assumes "\<And>j. j < s \<Longrightarrow> dv < r * ucast (xs ! j)" "r * ucast (xs ! s) \<le> dv" "s < length xs"
  shows "icdf_loop r dv xs ret t = (ret + s, if s = 0 then t else r * ucast (xs ! (s - 1)), r * ucast (xs ! s))"
  using assms
proof (induction xs arbitrary: s ret t)
  case (Cons x xs)
  show ?case
  proof (cases s)
    case 0
    then show ?thesis using Cons.prems(2) by simp
  next
    case (Suc s')
    have "\<not> r * ucast x \<le> dv" "xs \<noteq> []" using Cons.prems(1) [of 0] Cons.prems(3) Suc by auto
    moreover have "icdf_loop r dv xs (Suc ret) (r * ucast x) =
        (Suc ret + s', if s' = 0 then r * ucast x else r * ucast (xs ! (s' - 1)), r * ucast (xs ! s'))"
      using Cons.prems(1) [of "Suc _"] Cons.prems(2,3) Suc by (intro Cons.IH) auto
    ultimately show ?thesis using Suc by (cases s') (auto simp: Let_def)
  qed
qed simp

lemma unat_ucast_u8_u32: "unat (ucast (x :: u8) :: u32) = unat x"
proof -
  have "unat x < 2 ^ 32" by (rule less_trans [OF unat_u8_less]) simp
  then show ?thesis by (simp add: unsigned_ucast_eq take_bit_nat_eq_self)
qed

definition icdf_ok :: "nat \<Rightarrow> u8 list \<Rightarrow> u32 \<Rightarrow> bool" where
  "icdf_ok s icdf ftb \<longleftrightarrow> s < length icdf \<and> sorted_wrt (\<ge>) icdf \<and> unat (icdf ! 0) \<le> 2 ^ unat ftb \<and> unat ftb \<le> 23 \<and>
     (if s = 0 then unat (icdf ! 0) < 2 ^ unat ftb else icdf ! s < icdf ! (s - 1))"

lemma codes_ICDF:
  assumes "icdf_ok s icdf ftb"
  shows "codes 3 (\<lambda>e. EncodeICDF e (int s) icdf ftb) (\<lambda>d. DecodeICDF d icdf ftb) s"
proof -
  define c where "c j = unat (icdf ! j)" for j
  define F :: nat where "F = 2 ^ unat ftb"
  define off where "off r = (if s = 0 then 0 else r - r div F * c (s - 1))" for r
  define wid where "wid r = (if s = 0 then r - r div F * c 0 else r div F * (c (s - 1) - c s))" for r
  have s: "s < length icdf" and F: "F \<le> 2 ^ 23" "c 0 \<le> F" and sym: "if s = 0 then c 0 < F else c s < c (s - 1)"
    using assms power_increasing [of "unat ftb" 23 "2 :: nat"] by (simp_all add: icdf_ok_def c_def F_def word_less_nat_alt split: if_splits)
  have mono: "c j \<le> c i" if "i \<le> j" "j < length icdf" for i j
    using assms that sorted_wrt_nth_less [of "(\<ge>)" icdf i j] by (cases "i = j") (auto simp: icdf_ok_def c_def word_le_nat_alt)
  have below: "r div F * c j \<le> r div F * F" "r div F * F \<le> r" if "j < length icdf" for r j
    using mono [of 0 j] that F by (auto intro: order_trans)
  have top: "r - off r - wid r = r div F * c s" "off r + wid r \<le> r \<and> 0 < wid r" if "2 ^ 23 < r" for r
  proof -
    have q: "0 < r div F" using that F by (simp add: div_greater_zero_iff F_def)
    have "off r + wid r + r div F * c s = r \<and> 0 < wid r"
    proof (cases "s = 0")
      case True
      have "r div F * c 0 < r div F * F" using q sym True by simp
      then have "r div F * c 0 < r" using below(2) [OF s, of r] by linarith
      then show ?thesis using True by (simp add: off_def wid_def)
    next
      case False
      have "r div F * (c (s - 1) - c s) + r div F * c s = r div F * c (s - 1)" using sym False by (simp flip: add_mult_distrib2)
      moreover have "0 < r div F * (c (s - 1) - c s)" using q sym False by simp
      moreover have "r div F * c (s - 1) \<le> r" using below [of "s - 1" r] s by linarith
      ultimately show ?thesis using False by (simp add: off_def wid_def)
    qed
    then show "r - off r - wid r = r div F * c s" "off r + wid r \<le> r \<and> 0 < wid r" by linarith+
  qed
  have q: "drop_bit (unat ftb) x = of_nat (unat x div F)" for x :: u32 unfolding F_def unat_drop_bit_div [symmetric] by simp
  have mult: "drop_bit (unat ftb) x * ucast (icdf ! j) = of_nat (unat x div F * c j)" for x :: u32 and j
    unfolding q c_def unat_ucast_u8_u32 [symmetric] by simp
  have nmult: "unat (drop_bit (unat ftb) x * ucast (icdf ! j) :: u32) = unat x div F * c j" if "j < length icdf" for x j
  proof -
    have "unat x div F * c j < 4294967296" using below [OF that, of "unat x"] unat_u32_less [of x] by linarith
    then show ?thesis unfolding mult by (intro unat_of_nat_u32) simp
  qed
  show ?thesis
  proof (rule codes_slice [where off = off and wid = wid])
    show "off r + wid r \<le> r \<and> 0 < wid r" if "2 ^ 23 < r" for r by (rule top [OF that])
    show "EncodeICDF e (int s) icdf ftb = enc_slice (off (unat (re_rng e))) (wid (unat (re_rng e))) e" for e
    proof -
      let ?r = "unat (re_rng e)"
      have "re_rng e - drop_bit (unat ftb) (re_rng e) * ucast (icdf ! j) = of_nat (?r - ?r div F * c j)" if "j < length icdf" for j
      proof -
        have "?r div F * c j \<le> ?r" using below [OF that, of ?r] by linarith
        then show ?thesis by (rule word_diff [of "drop_bit (unat ftb) (re_rng e) * ucast (icdf ! j)" "re_rng e", unfolded nmult [OF that]])
      qed
      moreover have "drop_bit (unat ftb) (re_rng e) * ucast (icdf ! (s - 1) - icdf ! s) = of_nat (?r div F * (c (s - 1) - c s))" if "s \<noteq> 0"
      proof -
        have "unat (icdf ! (s - 1) - icdf ! s) = c (s - 1) - c s" using sym that by (simp add: c_def unat_sub word_le_nat_alt)
        then show ?thesis unfolding q using unat_ucast_u8_u32 [of "icdf ! (s - 1) - icdf ! s"] by (metis of_nat_mult of_nat_unat ucast_id)
      qed
      ultimately show ?thesis using s by (auto simp: EncodeICDF_def enc_slice_def Let_def off_def wid_def)
    qed
    show "\<exists>x. DecodeICDF d icdf ftb = bind_res (dec_slice (off r) (wid r) (d\<lparr>rd_ext := x\<rparr>)) (\<lambda>d. Inr (s, d))"
      if r: "unat (rd_rng d) = r" "2 ^ 23 < r" and val: "r - off r - wid r \<le> unat (rd_val d)" "unat (rd_val d) < r - off r" for d r
    proof -
      let ?q = "drop_bit (unat ftb) (rd_rng d)"
      have lo: "r div F * c s \<le> unat (rd_val d)" using val(1) top(1) [OF r(2)] by simp
      have hi: "unat (rd_val d) < r div F * c j" if "j < s" for j
      proof -
        have "r div F * c (s - 1) \<le> r" using below [of "s - 1" r] s by linarith
        then have "unat (rd_val d) < r div F * c (s - 1)" using val(2) that by (simp add: off_def)
        also have "\<dots> \<le> r div F * c j" using mono [of j "s - 1"] that s by simp
        finally show ?thesis .
      qed
      have "icdf_loop ?q (rd_val d) icdf 0 (rd_rng d) = (0 + s, if s = 0 then rd_rng d else ?q * ucast (icdf ! (s - 1)), ?q * ucast (icdf ! s))"
        using lo hi s nmult r(1) by (intro icdf_loop_found) (auto simp: word_less_nat_alt word_le_nat_alt)
      moreover have "(if s = 0 then rd_rng d else ?q * ucast (icdf ! (s - 1))) - ?q * ucast (icdf ! s) = of_nat (wid r)"
      proof -
        let ?t = "if s = 0 then rd_rng d else ?q * ucast (icdf ! (s - 1))"
        have t: "unat ?t = (if s = 0 then r else r div F * c (s - 1))" using nmult [of "s - 1"] s r(1) by simp
        have "unat (?q * ucast (icdf ! s)) = r div F * c s" using nmult [OF s, of "rd_rng d"] r(1) by simp
        moreover have "r div F * c s \<le> r" using below [OF s, of r] by linarith
        then have "r div F * c s \<le> unat ?t" unfolding t using mono [of "s - 1" s] s by auto
        ultimately have "?t - ?q * ucast (icdf ! s) = of_nat (unat ?t - r div F * c s)" using word_diff [of "?q * ucast (icdf ! s)" ?t] by simp
        then show ?thesis unfolding t by (simp add: wid_def diff_mult_distrib2)
      qed
      ultimately show ?thesis using s r(1) mult [of "rd_rng d" s] top(1) [OF r(2)]
        by (auto simp: DecodeICDF_def dec_slice_def Let_def intro!: exI [of _ "rd_ext d"])
    qed
  qed
qed

section \<open>Uniform symbols\<close>

lemma unat_push_bit_1: "n < 32 \<Longrightarrow> unat (push_bit n 1 :: u32) = 2 ^ n"
proof -
  assume "n < 32"
  then have "(2 :: nat) ^ n < 2 ^ 32" by (intro power_strict_increasing) simp_all
  then have "unat (of_nat (2 ^ n) :: u32) = 2 ^ n" by (rule unat_of_nat_u32)
  then show ?thesis by (simp add: push_bit_eq_mult)
qed

lemma unat_next: "unat (v :: u32) < 2 ^ 24 \<Longrightarrow> unat (v + 1) = unat v + 1"
  by (simp add: unat_plus_if')

lemma in_unit_interval: "unat (v + 1) = unat (v :: u32) + 1 \<Longrightarrow> v \<le> fs \<Longrightarrow> fs < v + 1 \<Longrightarrow> fs = v"
  by (simp add: word_le_nat_alt word_less_nat_alt word_unat_eq_iff)

lemma codes_uniform:
  assumes "unat v < unat ft" "unat ft \<le> 2 ^ 23"
  shows "codes 3 (\<lambda>e. re_Encode e v (v + 1) ft)
    (\<lambda>d. case rd_Decode d ft of (s, d) \<Rightarrow> bind_res (rd_Update d s (s + 1) ft) (\<lambda>d. Inr (s, d))) v"
proof -
  have nxt: "unat (v + 1) = unat v + 1" using assms by (intro unat_next) simp
  show ?thesis
  proof (rule codes_symbol [of v "v + 1" ft])
    fix d d1 fs assume "rd_Decode d ft = (fs, d1)" "v \<le> fs" "fs < v + 1"
    then show "(case rd_Decode d ft of (s, d) \<Rightarrow> bind_res (rd_Update d s (s + 1) ft) (\<lambda>d. Inr (s, d))) =
        bind_res (rd_Update d1 v (v + 1) ft) (\<lambda>d. Inr (v, d))"
      using in_unit_interval [OF nxt, of fs] by simp
  qed (use assms nxt in simp_all)
qed

lemma decodeBin_Decode: "unat n < 32 \<Longrightarrow> decodeBin d n = rd_Decode d (push_bit (unat n) 1)"
proof -
  assume n: "unat n < 32"
  then have "push_bit (unat n) 1 \<noteq> (0 :: u32)" using unat_push_bit_1 [OF n] by auto
  moreover have "drop_bit (unat n) (rd_rng d) = rd_rng d div push_bit (unat n) 1"
    using unat_push_bit_1 [OF n] by (simp add: word_unat_eq_iff unat_div unat_drop_bit_div)
  ultimately show ?thesis by (simp add: decodeBin_def rd_Decode_def Let_def)
qed

lemma codes_RawSymbol:
  assumes "unat n \<le> 23" "unat v < 2 ^ unat n"
  shows "codes 3 (\<lambda>e. EncodeRawSymbol e v n) (\<lambda>d. DecodeRawSymbol d n) v"
proof -
  have ft: "unat (push_bit (unat n) 1 :: u32) = 2 ^ unat n" using assms(1) by (intro unat_push_bit_1) simp
  have "(2 :: nat) ^ unat n \<le> 2 ^ 23" using assms(1) by (intro power_increasing) simp_all
  then show ?thesis using codes_uniform [of v "push_bit (unat n) 1"] assms ft
    by (simp add: EncodeRawSymbol_def [abs_def] DecodeRawSymbol_def [abs_def] decodeBin_Decode)
qed

lemma codes_64Fine:
  assumes "v < 64"
  shows "codes 3 (\<lambda>e. Encode64FineSym e (int v)) Decode64FineSym (int v)"
proof (rule codes_symbol [of "of_nat v" "of_nat v + 1" 64])
  have v: "unat (of_nat v :: u32) = v" using assms by (intro unat_of_nat_u32) simp
  have nxt: "unat (of_nat v + 1 :: u32) = unat (of_nat v :: u32) + 1" using assms v by (intro unat_next) simp
  show "unat (of_nat v :: u32) < unat (of_nat v + 1 :: u32)" "unat (of_nat v + 1 :: u32) \<le> unat (64 :: u32)" "unat (64 :: u32) \<le> 2 ^ 23"
    unfolding nxt using assms v by simp_all
  show "Encode64FineSym e (int v) = re_Encode e (of_nat v) (of_nat v + 1) 64" for e by (simp add: Encode64FineSym_def)
  show "Decode64FineSym d = bind_res (rd_Update d1 (of_nat v) (of_nat v + 1) 64) (\<lambda>d. Inr (int v, d))"
    if d: "rd_Decode d 64 = (fs, d1)" "2 ^ 23 < unat (rd_rng d)" "unat (rd_rng d) \<le> 2 ^ 31" "unat (rd_val d) < unat (rd_rng d)"
      "of_nat v \<le> fs" "fs < of_nat v + 1" for d d1 fs
  proof -
    have fs: "fs = of_nat v" by (rule in_unit_interval [OF nxt d(5,6)])
    let ?s = "rd_val d div (rd_rng d div 64)"
    have ext: "drop_bit 6 (rd_rng d) = rd_rng d div 64" by (simp add: word_unat_eq_iff unat_div unat_drop_bit_div)
    have nz: "rd_rng d div 64 \<noteq> 0" using d(2) by (auto simp: word_unat_eq_iff unat_div)
    have "unat ?s \<le> unat (rd_val d)" by (simp add: unat_div)
    then have s31: "unat ?s < 2 ^ 31" using d(3,4) by linarith
    then have Suc: "unat (?s + 1) = unat ?s + 1" by (simp add: unat_plus_if')
    have dec: "fs = 64 - ecMini (?s + 1) 64" "d1 = d\<lparr>rd_ext := rd_rng d div 64\<rparr>" using d(1) nz by (auto simp: rd_Decode_def Let_def)
    have "unat (64 - ecMini (?s + 1) 64 :: u32) = 63 - unat ?s"
    proof (cases "?s + 1 < 64")
      case True
      then have "unat (64 - (?s + 1)) = unat (64 :: u32) - unat (?s + 1)" by (intro unat_sub) simp
      then show ?thesis using True Suc by (simp add: ecMini_def)
    next
      case False
      then show ?thesis using Suc by (simp add: ecMini_def word_less_nat_alt)
    qed
    define n where "n = unat ?s"
    have u: "uint ?s = int n" by (simp add: n_def)
    have "v = 63 - n" using dec(1) fs v \<open>unat (64 - ecMini (?s + 1) 64 :: u32) = 63 - unat ?s\<close> by (simp add: n_def)
    then have "(if 63 - uint ?s < 0 then 0 else if 63 - uint ?s > 64 then 64 else 63 - uint ?s) = int v"
      unfolding u by auto
    then show ?thesis using nz by (simp add: Decode64FineSym_def Let_def ext dec(2))
  qed
qed

section \<open>Raw bits and integers\<close>

lemma writeByteAtEnd_rng: "re_rng (re_writeByteAtEnd e b) = re_rng e"
  by (simp add: re_writeByteAtEnd_def Let_def)

lemma flush_window_rng: "flush_window w u e = (w', u', e') \<Longrightarrow> re_rng e' = re_rng e"
proof (induction w u e rule: flush_window.induct)
  case (1 w u e)
  then show ?case by (subst (asm) (2) flush_window.simps) (auto simp: Let_def writeByteAtEnd_rng split: if_splits)
qed

lemma re_BitsN_frame: "re_rng (re_BitsN e fl n) = re_rng e" "re_err (re_BitsN e fl n) = 0 \<Longrightarrow> re_err e = 0"
  by (auto simp: re_BitsN_def Let_def split: prod.splits if_splits dest: flush_window_rng flush_window_sticky)

lemma bits_val_less:
  assumes "layout e" "bits_ok e" shows "bits_val e < 2 ^ bits_len e"
proof -
  have len: "length (back_bytes e) = unat (re_endOffs e)" using assms(1) by (simp add: back_bytes_def layout_def)
  have "val256 (map unat (back_bytes e)) < 256 ^ length (map unat (back_bytes e))" by (rule val256_less) auto
  then have "bits_val e < (unat (re_endWindow e) + 1) * 256 ^ unat (re_endOffs e)" using len by (simp add: bits_val_def)
  also have "\<dots> \<le> 2 ^ nat (re_nendBits e) * 256 ^ unat (re_endOffs e)"
    using assms(2) by (intro mult_right_mono) (simp_all add: bits_ok_def)
  also have "\<dots> = 2 ^ bits_len e" by (simp add: bits_len_def pow256 power_add)
  finally show ?thesis .
qed

lemma mod_prefix:
  assumes "x mod 2 ^ (m + n) = a + v * 2 ^ m" "a < 2 ^ m" "v < 2 ^ n"
  shows "x mod 2 ^ m = (a :: nat)" "x div 2 ^ m mod 2 ^ n = v"
proof -
  have "2 ^ m * (x div 2 ^ m mod 2 ^ n) + x mod 2 ^ m = a + v * 2 ^ m" using assms(1) mod_mult2_eq [of x "2 ^ m" "2 ^ n"] by (simp add: power_add)
  moreover have "q = v" "r = a" if "p * q + r = a + v * p" "r < p" "a < p" for p q r :: nat
  proof -
    have "(p * q + r) div p = q" "(p * q + r) mod p = r" using that(2) by simp_all
    moreover have "(a + v * p) div p = v" "(a + v * p) mod p = a" using that(3) by simp_all
    ultimately show "q = v" "r = a" using that(1) by simp_all
  qed
  moreover have "x mod 2 ^ m < 2 ^ m" by simp
  ultimately show "x mod 2 ^ m = a" "x div 2 ^ m mod 2 ^ n = v" using assms(2) by blast+
qed

lemma codes_BitsN:
  assumes "unat n \<le> 25" "unat v < 2 ^ unat n"
  shows "codes 0 (\<lambda>e. Inr (re_BitsN e v n)) (\<lambda>d. Inr (rd_BitsN d n)) v"
proof (rule codesI)
  fix e assume rng: "rng_ok e"
  define e' where "e' = re_BitsN e v n"
  have main: "enc_ok e' \<and> bits_ok e' \<and> count e' \<le> count e + 0 \<and>
      (\<forall>B. holds B e' \<longrightarrow> holds B e \<and> (\<forall>d. follows B e d \<longrightarrow> (\<exists>d'. Inr (rd_BitsN d n) = Inr (v, d') \<and> follows B e' d')))"
    if err: "re_err e' = 0" and ok: "enc_ok e" "bits_ok e"
  proof -
    have lay: "layout e" using ok(1) by (simp add: enc_ok_def)
    note s = re_BitsN_step [OF lay ok(2) assms err [unfolded e'_def], folded e'_def]
    note fr = front_part_eq [OF s(6)]
    have "holds B e \<and> (\<forall>d. follows B e d \<longrightarrow> (\<exists>d'. Inr (rd_BitsN d n) = Inr (v, d') \<and> follows B e' d'))" if h: "holds B e'" for B
    proof -
      have "back_num B mod 2 ^ (bits_len e + unat n) = bits_val e + unat v * 2 ^ bits_len e" using h s(4,5) by (simp add: holds_def)
      note p = mod_prefix [OF this bits_val_less [OF lay ok(2)] assms(2)]
      have "\<exists>d'. Inr (rd_BitsN d n) = Inr (v, d') \<and> follows B e' d'" if f: "follows B e d" for d
      proof -
        obtain d' where d': "rd_BitsN d n = (of_nat (back_num B div 2 ^ bits_len e mod 2 ^ unat n), d')" "dec_bits B (bits_len e + unat n) d'"
            "d' = d\<lparr>rd_endOffs := rd_endOffs d', rd_endWindow := rd_endWindow d', rd_nendBits := rd_nendBits d', rd_nbitsTotal := rd_nbitsTotal d'\<rparr>"
          using rd_BitsN_step [of B "bits_len e" d n] f assms(1) unfolding follows_def by metis
        have same: "rd_rng d' = rd_rng d" "rd_Err d' = rd_Err d" "rd_buf d' = rd_buf d" "rd_storage d' = rd_storage d" "rd_offs d' = rd_offs d"
            "rd_rem d' = rd_rem d" "rd_val d' = rd_val d"
          by (subst d'(3), simp)+
        have "follows B e' d'" using f d'(2) s(4) fr same by (auto simp: follows_def dec_ok_def)
        then show ?thesis using d'(1) by (simp add: p(2))
      qed
      then show ?thesis using h fr p(1) by (simp add: holds_def)
    qed
    then show ?thesis using fr s(2,3) ok(1) by simp
  qed
  show "\<exists>e'. Inr (re_BitsN e v n) = Inr e' \<and> rng_ok e' \<and> (re_err e' = 0 \<longrightarrow> re_err e = 0) \<and>
     (re_err e' = 0 \<longrightarrow> enc_ok e \<longrightarrow> bits_ok e \<longrightarrow> count e + 0 < 2 ^ 32 \<longrightarrow>
        enc_ok e' \<and> bits_ok e' \<and> count e' \<le> count e + 0 \<and>
        (\<forall>B. holds B e' \<longrightarrow> holds B e \<and> (\<forall>d. follows B e d \<longrightarrow> (\<exists>d'. Inr (rd_BitsN d n) = Inr (v, d') \<and> follows B e' d'))))"
    using rng main re_BitsN_frame [of e v n] by (intro exI [of _ e']) (auto simp: e'_def rng_ok_def)
qed

end
