(* ===== verification/Range_Coder_Done.thy ===== *)
theory Range_Coder_Done
  imports Range_Coder_Symbols
begin

text \<open>
  What \<open>Done\<close> leaves in the buffer: the bytes of a number in the encoder's interval that stays in it
  whatever follows, then the zeroed gap, then the raw bits.
\<close>

section \<open>The last number of the interval\<close>

lemma bit_len_bounds: "n < 2 ^ bit_len n" "0 < n \<Longrightarrow> 2 ^ (bit_len n - 1) \<le> n"
proof (induction n rule: bit_len.induct)
  case (1 n)
  { case 1 show ?case
    proof (cases "n = 0")
      case False
      then have "n div 2 < 2 ^ bit_len (n div 2)" using "1.IH" by blast
      then show ?thesis using False by (subst bit_len.simps) simp
    qed (simp add: bit_len.simps) }
  { case 2 then show ?case
    proof (cases "n div 2 = 0")
      case True
      then have "n = 1" using 2 by simp
      then show ?thesis by (simp add: bit_len.simps)
    next
      case False
      then have le: "2 ^ (bit_len (n div 2) - 1) \<le> n div 2" and pos: "0 < bit_len (n div 2)" using "1.IH" 2 by (auto simp: bit_len.simps [of "n div 2"])
      have "bit_len n = Suc (bit_len (n div 2))" using 2 by (subst bit_len.simps) simp
      moreover have "(2 :: nat) ^ bit_len (n div 2) = 2 * 2 ^ (bit_len (n div 2) - 1)" using pos by (simp flip: power_Suc)
      ultimately show ?thesis using le by simp
    qed }
qed

text \<open>The smallest multiple of \<open>2 ^ k\<close> from \<open>v\<close> on.\<close>

definition round_up :: "nat \<Rightarrow> nat \<Rightarrow> nat" where
  "round_up v k = (v + (2 ^ k - 1)) div 2 ^ k * 2 ^ k"

lemma round_up_bounds: "v \<le> round_up v k" "round_up v k < v + 2 ^ k"
proof -
  have "(v + (2 ^ k - 1)) div 2 ^ k * 2 ^ k + (v + (2 ^ k - 1)) mod 2 ^ k = v + (2 ^ k - 1)" by (rule div_mult_mod_eq)
  moreover have "(v + (2 ^ k - 1)) mod 2 ^ k < 2 ^ k" by simp
  moreover have "0 < (2 :: nat) ^ k" by simp
  ultimately show "v \<le> round_up v k" "round_up v k < v + 2 ^ k" unfolding round_up_def by linarith+
qed

lemma unat_mask_k: "k < 32 \<Longrightarrow> unat (mask k :: u32) = 2 ^ k - 1"
  using unat_push_bit_1 [of k] by (simp add: mask_eq_exp_minus_1 push_bit_eq_mult unat_sub_if')

lemma unat_and_not_mask: "k < 32 \<Longrightarrow> unat (w AND NOT (mask k) :: u32) = unat w div 2 ^ k * 2 ^ k"
proof -
  assume k: "k < 32"
  have "w AND NOT (mask k) = push_bit k (drop_bit k w)" by (rule bit_word_eqI) (auto simp: bit_simps)
  then have "unat (w AND NOT (mask k)) = take_bit 32 (unat w div 2 ^ k * 2 ^ k)"
    by (simp only: unsigned_push_bit_eq) (simp add: push_bit_eq_mult unat_drop_bit_div)
  moreover have "unat w div 2 ^ k * 2 ^ k < 2 ^ 32" using unat_u32_less [of w] by (simp add: le_less_trans [OF div_times_less_eq_dividend])
  ultimately show ?thesis by (simp add: take_bit_nat_eq_self)
qed

lemma unat_or_mask: "k < 32 \<Longrightarrow> unat ((w AND NOT (mask k)) OR mask k :: u32) = unat w div 2 ^ k * 2 ^ k + (2 ^ k - 1)"
proof -
  assume k: "k < 32"
  have "unat ((w AND NOT (mask k)) OR mask k) = unat (w AND NOT (mask k)) OR unat (mask k :: u32)" by (simp add: unsigned_or_eq)
  also have "\<dots> = push_bit k (unat w div 2 ^ k) OR (2 ^ k - 1)" by (simp add: unat_and_not_mask [OF k] unat_mask_k [OF k] push_bit_eq_mult)
  also have "\<dots> = unat w div 2 ^ k * 2 ^ k + (2 ^ k - 1)" by (rule or_push_bit_add) simp
  finally show ?thesis .
qed

text \<open>The choice that \<open>Done\<close> makes.\<close>

definition done_choice :: "RangeEncoder \<Rightarrow> int \<times> u32" where
  "done_choice e =
     (let l = int ecCodeBits - int (ilog (re_rng e));
          msk = drop_bit (nat l) (ecCodeTop - 1);
          fin = (re_val e + msk) AND NOT msk
      in if (fin OR msk) \<ge> re_val e + re_rng e
         then (let msk = drop_bit 1 msk in (l + 1, (re_val e + msk) AND NOT msk)) else (l, fin))"

lemma round_up_mod: "round_up v k mod 2 ^ k = 0"
  by (simp add: round_up_def)

lemma unat_round_up:
  assumes "k < 32" "unat v + 2 ^ k \<le> 2 ^ 32"
  shows "unat ((v + mask k) AND NOT (mask k) :: u32) = round_up (unat v) k"
    "unat (((v + mask k) AND NOT (mask k)) OR mask k :: u32) = round_up (unat v) k + (2 ^ k - 1)"
proof -
  have pos: "0 < (2 :: nat) ^ k" by simp
  have "unat (v + mask k) = unat v + (2 ^ k - 1)"
    using assms(2) pos by (simp add: unat_plus_if' unat_mask_k [OF assms(1)])
  then show "unat ((v + mask k) AND NOT (mask k)) = round_up (unat v) k"
    "unat (((v + mask k) AND NOT (mask k)) OR mask k) = round_up (unat v) k + (2 ^ k - 1)"
    by (simp_all add: unat_and_not_mask [OF assms(1)] unat_or_mask [OF assms(1)] round_up_def)
qed

lemma ilog_range:
  assumes "2 ^ 23 < unat r" "unat r \<le> 2 ^ 31"
  obtains k where "ilog r = Suc k" "23 \<le> k" "k \<le> 31" "2 ^ k \<le> unat r" "unat r < 2 ^ Suc k"
proof -
  define k where "k = bit_len (unat r) - 1"
  have pos: "0 < unat r" using assms(1) by simp
  then have k: "bit_len (unat r) = Suc k" by (simp add: k_def bit_len.simps [of "unat r"])
  have b: "2 ^ k \<le> unat r" "unat r < 2 ^ Suc k" using bit_len_bounds [of "unat r"] pos k by simp_all
  have "(2 :: nat) ^ 23 < 2 ^ Suc k" "(2 :: nat) ^ k \<le> 2 ^ 31" using b assms by linarith+
  then have "23 < Suc k" "k \<le> 31" using power_less_imp_less_exp [of "2 :: nat" 23 "Suc k"] power_le_imp_le_exp [of "2 :: nat" k 31] by simp_all
  then show ?thesis using that [of k] b k by (simp add: ilog_def)
qed

lemma drop_mask: "l \<le> 31 \<Longrightarrow> drop_bit l (0x80000000 - 1 :: u32) = mask (31 - l)"
proof -
  assume "l \<le> 31"
  have "(0x80000000 - 1 :: u32) = mask 31" by (simp add: mask_eq_exp_minus_1)
  moreover have "drop_bit l (mask 31 :: u32) = mask (31 - l)"
    using \<open>l \<le> 31\<close> by (intro bit_word_eqI) (auto simp: bit_simps)
  ultimately show ?thesis by simp
qed

lemma done_choice_spec:
  assumes "rng_ok e" "unat (re_val e) + unat (re_rng e) < 2 ^ 32"
  obtains k where "done_choice e = (31 - int k, of_nat (round_up (unat (re_val e)) k))" "22 \<le> k" "k \<le> 31"
    "round_up (unat (re_val e)) k + 2 ^ k \<le> unat (re_val e) + unat (re_rng e)"
proof -
  define v r where "v = re_val e" and "r = re_rng e"
  obtain k where k: "ilog r = Suc k" "23 \<le> k" "k \<le> 31" "2 ^ k \<le> unat r" "unat r < 2 ^ Suc k"
    using ilog_range [of r] assms(1) by (auto simp: rng_ok_def r_def)
  have sum: "unat (v + r) = unat v + unat r" using assms(2) by (simp add: v_def r_def unat_plus_if')
  have l: "int ecCodeBits - int (ilog r) = 31 - int k" "nat (31 - int k) = 31 - k" using k by (simp_all add: ec_defs)
  have msk: "drop_bit (31 - k) (ecCodeTop - 1) = mask k" "drop_bit 1 (mask k :: u32) = mask (k - 1)"
    using k(3) drop_mask [of "31 - k"] by (simp_all add: ec_defs) (auto intro!: bit_word_eqI simp: bit_simps)
  have choice: "done_choice e = (if ((v + mask k) AND NOT (mask k)) OR mask k \<ge> v + r then (32 - int k, (v + mask (k - 1)) AND NOT (mask (k - 1)))
      else (31 - int k, (v + mask k) AND NOT (mask k)))"
    using msk(2) by (simp add: done_choice_def l msk(1) Let_def flip: v_def r_def)
  have room: "unat v + 2 ^ k \<le> 2 ^ 32" "unat v + 2 ^ (k - 1) \<le> 2 ^ 32" "(2 :: nat) ^ k = 2 * 2 ^ (k - 1)"
  proof -
    show two: "(2 :: nat) ^ k = 2 * 2 ^ (k - 1)" using k(2) by (simp flip: power_Suc)
    show "unat v + 2 ^ k \<le> 2 ^ 32" using assms(2) k(4) by (simp add: v_def r_def)
    then show "unat v + 2 ^ (k - 1) \<le> 2 ^ 32" using two by linarith
  qed
  note up = unat_round_up [OF _ room(1)] and up1 = unat_round_up [OF _ room(2)]
  have lt: "k < 32" "k - 1 < 32" using k(3) by simp_all
  show ?thesis
  proof (cases "((v + mask k) AND NOT (mask k)) OR mask k \<ge> v + r")
    case True
    have "round_up (unat v) (k - 1) + 2 ^ (k - 1) \<le> unat v + unat r"
      using round_up_bounds(2) [of "unat v" "k - 1"] room(3) k(4) by linarith
    moreover have "(v + mask (k - 1)) AND NOT (mask (k - 1)) = of_nat (round_up (unat v) (k - 1))"
      unfolding up1(1) [OF lt(2), symmetric] by simp
    ultimately show ?thesis using that [of "k - 1"] True k choice by (simp add: v_def r_def of_nat_diff)
  next
    case False
    then have "round_up (unat v) k + (2 ^ k - 1) < unat v + unat r"
      using up(2) [OF lt(1)] sum by (simp add: word_le_nat_alt)
    then have "round_up (unat v) k + 2 ^ k \<le> unat v + unat r" using zero_less_power [of "2 :: nat" k] by linarith
    moreover have "(v + mask k) AND NOT (mask k) = of_nat (round_up (unat v) k)"
      unfolding up(1) [OF lt(1), symmetric] by simp
    ultimately show ?thesis using that [of k] False k choice by (simp add: v_def r_def)
  qed
qed

section \<open>The front\<close>

lemma writeByte_update: "re_writeByte (e\<lparr>re_val := a, re_rng := b\<rparr>) c = (re_writeByte e c)\<lparr>re_val := a, re_rng := b\<rparr>"
  by (simp add: re_writeByte_def)

lemma write_pending_update: "write_pending n c (e\<lparr>re_val := a, re_rng := b\<rparr>) = (write_pending n c e)\<lparr>re_val := a, re_rng := b\<rparr>"
proof (induction n arbitrary: e)
  case (Suc n)
  have eq: "(re_writeByte e c)\<lparr>re_val := a, re_rng := b, re_ext := x\<rparr> = (re_writeByte e c)\<lparr>re_ext := x\<rparr>\<lparr>re_val := a, re_rng := b\<rparr>" for x by simp
  have "write_pending (Suc n) c (e\<lparr>re_val := a, re_rng := b\<rparr>) = write_pending n c ((re_writeByte e c)\<lparr>re_val := a, re_rng := b, re_ext := re_ext e - 1\<rparr>)"
    by (simp add: Let_def writeByte_update)
  then show ?case unfolding eq Suc by (simp add: Let_def)
qed simp

lemma carryOut_update: "carryOut c (e\<lparr>re_val := a, re_rng := b\<rparr>) = (carryOut c e)\<lparr>re_val := a, re_rng := b\<rparr>"
  by (simp add: carryOut_def Let_def writeByte_update write_pending_update)

text \<open>The encoder with another number and another range: what \<open>Done\<close> writes out.\<close>

definition at_num :: "RangeEncoder \<Rightarrow> u32 \<Rightarrow> nat \<Rightarrow> RangeEncoder" where
  "at_num e v r = e\<lparr>re_val := v, re_rng := of_nat r\<rparr>"

lemma at_num_shift:
  fixes fin :: u32
  defines "c \<equiv> uint (drop_bit 23 fin)" and "fin' \<equiv> push_bit 8 fin AND (0x80000000 - 1)"
  shows "re_shift (at_num e fin r) = (at_num (carryOut c e) fin' (256 * r))\<lparr>re_nbitsTotal := re_nbitsTotal (carryOut c e) + 8\<rparr>"
proof -
  have "push_bit 8 (of_nat r :: u32) = of_nat (256 * r)" by (simp add: push_bit_eq_mult)
  then show ?thesis by (simp add: re_shift_def at_num_def carryOut_update ec_defs Let_def c_def fin'_def)
qed

lemma at_num_parts [simp]:
  "written (at_num e v r) = written e" "pending (at_num e v r) = pending e" "back_part (at_num e v r) = back_part e"
  "count (at_num e v r) = count e" "re_val (at_num e v r) = v" "re_err (at_num e v r) = re_err e" "layout (at_num e v r) = layout e"
  by (simp_all add: at_num_def written_def pending_def back_part_def back_bytes_def count_def layout_def)

lemma nbitsTotal_parts [simp]:
  "written (e\<lparr>re_nbitsTotal := x\<rparr>) = written e" "pending (e\<lparr>re_nbitsTotal := x\<rparr>) = pending e" "back_part (e\<lparr>re_nbitsTotal := x\<rparr>) = back_part e"
  "count (e\<lparr>re_nbitsTotal := x\<rparr>) = count e" "low (e\<lparr>re_nbitsTotal := x\<rparr>) = low e" "enc_ok (e\<lparr>re_nbitsTotal := x\<rparr>) = enc_ok e"
  by (simp_all add: written_def pending_def back_part_def back_bytes_def count_def low_def enc_ok_def layout_def)

lemma done_front_sticky: "re_err (done_front l fin e) = 0 \<Longrightarrow> re_err e = 0"
proof (induction l fin e rule: done_front.induct)
  case (1 l fin e)
  then show ?case by (subst (asm) (2) done_front.simps) (auto split: if_splits dest: carryOut_sticky)
qed

lemma done_front_step:
  assumes "enc_ok (at_num e fin (2 ^ (31 - 8 * j)))" "8 * int j < l + 8" "l \<le> 8 * int j" "j \<le> 3" "count e + j < 2 ^ 32" "re_err (done_front l fin e) = 0"
    "j = 0 \<Longrightarrow> unat fin < 2 ^ 31"
  obtains fin' where "enc_ok (at_num (done_front l fin e) fin' (2 ^ 31))" "count (done_front l fin e) = count e + j" "unat fin' < 2 ^ 31"
    "low (at_num (done_front l fin e) fin' (2 ^ 31)) = 256 ^ j * low (at_num e fin (2 ^ (31 - 8 * j)))"
    "back_part (done_front l fin e) = back_part e"
proof -
  have "\<exists>fin'. enc_ok (at_num (done_front l fin e) fin' (2 ^ 31)) \<and> count (done_front l fin e) = count e + j \<and> unat fin' < 2 ^ 31 \<and>
      low (at_num (done_front l fin e) fin' (2 ^ 31)) = 256 ^ j * low (at_num e fin (2 ^ (31 - 8 * j))) \<and>
      back_part (done_front l fin e) = back_part e"
    using assms
  proof (induction j arbitrary: l fin e)
    case 0
    then have "done_front l fin e = e" by (simp add: done_front.simps)
    then show ?case using 0 by (intro exI [of _ fin]) simp
  next
    case (Suc j)
    define c where "c = uint (drop_bit 23 fin)"
    define fin1 where "fin1 = push_bit 8 fin AND (0x80000000 - 1)"
    define e1 where "e1 = carryOut c e"
    define r :: nat where "r = 2 ^ (31 - 8 * Suc j)"
    have run: "done_front l fin e = done_front (l - 8) fin1 e1"
      using Suc.prems(2) by (subst done_front.simps) (simp add: ec_defs c_def fin1_def e1_def)
    have r: "r \<le> 2 ^ 23" "256 * r = 2 ^ (31 - 8 * j)"
    proof -
      show "r \<le> 2 ^ 23" unfolding r_def by (rule power_increasing) simp_all
      have "31 - 8 * j = 8 + (31 - 8 * Suc j)" using Suc.prems(4) by simp
      then have "(2 :: nat) ^ (31 - 8 * j) = 2 ^ 8 * 2 ^ (31 - 8 * Suc j)" by (simp only: power_add)
      then show "256 * r = 2 ^ (31 - 8 * j)" by (simp only: r_def) simp
    qed
    have rng: "unat (re_rng (at_num e fin r)) = r" using r(1) by (simp add: at_num_def unat_of_nat_u32)
    note sh = at_num_shift [of e fin r, folded c_def fin1_def e1_def, unfolded r(2)]
    have "re_err e1 = 0" using Suc.prems(6) done_front_sticky unfolding run by blast
    then have "re_err (re_shift (at_num e fin r)) = 0" by (simp add: sh)
    moreover have "count (at_num e fin r) < 2 ^ 32 - 1" using Suc.prems(5) by simp
    ultimately have s: "enc_ok (at_num e1 fin1 (2 ^ (31 - 8 * j)))" "count e1 = count e + 1" "back_part e1 = back_part e"
        "low (at_num e1 fin1 (2 ^ (31 - 8 * j))) = 256 * low (at_num e fin r)"
      using re_shift_step [OF Suc.prems(1) [folded r_def]] r(1) unfolding rng sh by simp_all
    have small: "unat fin1 < 2 ^ 31" using unat_shifted_val [of fin] by (simp add: fin1_def)
    have "\<exists>fin'. enc_ok (at_num (done_front (l - 8) fin1 e1) fin' (2 ^ 31)) \<and> count (done_front (l - 8) fin1 e1) = count e1 + j \<and> unat fin' < 2 ^ 31 \<and>
      low (at_num (done_front (l - 8) fin1 e1) fin' (2 ^ 31)) = 256 ^ j * low (at_num e1 fin1 (2 ^ (31 - 8 * j))) \<and>
      back_part (done_front (l - 8) fin1 e1) = back_part e1"
    proof (rule Suc.IH)
      show "enc_ok (at_num e1 fin1 (2 ^ (31 - 8 * j)))" "count e1 + j < 2 ^ 32" using s(1,2) Suc.prems(5) by simp_all
      show "8 * int j < l - 8 + 8" "l - 8 \<le> 8 * int j" "j \<le> 3" using Suc.prems(2-4) by simp_all
      show "re_err (done_front (l - 8) fin1 e1) = 0" using Suc.prems(6) by (simp only: run)
    qed (rule small)
    then show ?case using s(2-4) unfolding run r_def [symmetric] by auto
  qed
  then show ?thesis using that by blast
qed

lemma low_at_num: "low (at_num e v r) = val256 (written e @ pending e) * 2 ^ 31 + unat v"
  by (simp add: low_def)

lemma done_front_final:
  assumes "enc_ok e" "rng_ok e" "count e + 3 < 2 ^ 32" "done_choice e = (l, fin)" "re_err (done_front l fin e) = 0"
  obtains j where "enc_ok (at_num (done_front l fin e) 0 (2 ^ 31))" "count (done_front l fin e) = count e + j" "j \<le> 2"
    "back_part (done_front l fin e) = back_part e"
    "low e * 256 ^ j \<le> low (at_num (done_front l fin e) 0 (2 ^ 31))"
    "low (at_num (done_front l fin e) 0 (2 ^ 31)) + 2 ^ 31 \<le> (low e + unat (re_rng e)) * 256 ^ j"
proof -
  define v r where "v = unat (re_val e)" and "r = unat (re_rng e)"
  define e1 where "e1 = done_front l fin e"
  have vr: "v + r < 2 ^ 32" using assms(1) by (simp add: enc_ok_def v_def r_def)
  obtain k where "done_choice e = (31 - int k, of_nat (round_up v k))" and k: "22 \<le> k" "k \<le> 31" "round_up v k + 2 ^ k \<le> v + r"
    using done_choice_spec [OF assms(2)] vr by (auto simp: v_def r_def)
  then have lf: "l = 31 - int k" "fin = of_nat (round_up v k)" using assms(4) by simp_all
  define F where "F = round_up v k"
  define j where "j = (38 - k) div 8"
  have j: "8 * int j < l + 8" "l \<le> 8 * int j" "j \<le> 2" "31 - 8 * j \<le> k" "j = 0 \<Longrightarrow> k = 31" "8 * j \<le> 31"
    using k(1,2) by (auto simp: j_def lf zdiv_int of_nat_diff; linarith)+
  have pw: "(2 :: nat) ^ (31 - 8 * j) \<le> 2 ^ k" using j(4) by (intro power_increasing) simp_all
  have F: "v \<le> F" "F + 2 ^ k \<le> v + r" "F < 2 ^ 32" "unat fin = F"
    using round_up_bounds(1) [of v k] k(3) vr by (simp_all add: F_def lf unat_of_nat_u32)
  have off: "re_val e + of_nat (F - v) = fin" using F(1) unfolding lf(2) F_def [symmetric] by (simp add: of_nat_diff v_def)
  have fits: "F - v + 2 ^ (31 - 8 * j) \<le> unat (re_rng e)" using F(1,2) pw unfolding r_def by linarith
  have sl: "enc_ok (at_num e fin (2 ^ (31 - 8 * j)))" "low (at_num e fin (2 ^ (31 - 8 * j))) = low e + (F - v)"
    using enc_slice_ok [OF assms(1) fits] by (simp_all add: at_num_def off)
  have "unat fin < 2 ^ 31" if "j = 0" using j(5) [OF that] F vr by simp
  then obtain fin' where f: "enc_ok (at_num e1 fin' (2 ^ 31))" "count e1 = count e + j" "unat fin' < 2 ^ 31"
      "low (at_num e1 fin' (2 ^ 31)) = 256 ^ j * (low e + (F - v))" "back_part e1 = back_part e"
    using done_front_step [OF sl(1) j(1,2)] j(3) assms(3,5) unfolding sl(2) e1_def [symmetric] by auto
  have "unat fin' = 0"
  proof -
    obtain q where "F = 2 ^ k * q" using round_up_mod [of v k] by (auto simp: F_def dvd_def)
    moreover have "(2 :: nat) ^ k = 2 ^ (31 - 8 * j) * 2 ^ (k - (31 - 8 * j))" using j(4) by (simp flip: power_add)
    moreover have "(256 :: nat) ^ j * 2 ^ (31 - 8 * j) = 2 ^ 31" using j(6) by (simp only: pow256 flip: power_add) simp
    ultimately have "256 ^ j * F = 2 ^ 31 * (2 ^ (k - (31 - 8 * j)) * q)" by (simp only: mult.assoc [symmetric])
    moreover have "low e + (F - v) = val256 (written e @ pending e) * 2 ^ 31 + F" using sl(2) F(4) by (simp only: low_at_num)
    ultimately have "256 ^ j * (low e + (F - v)) = 2 ^ 31 * (256 ^ j * val256 (written e @ pending e) + 2 ^ (k - (31 - 8 * j)) * q)"
      by (simp only: add_mult_distrib2 mult_ac)
    then have "(val256 (written e1 @ pending e1) * 2 ^ 31 + unat fin') mod 2 ^ 31 = 0" using f(4) unfolding low_at_num by (simp only: mod_mult_self1_is_0)
    then show ?thesis using f(3) by simp
  qed
  then have "fin' = 0" by (simp add: unat_eq_zero)
  note f = f [unfolded this]
  have "low (at_num e1 0 (2 ^ 31)) + 2 ^ 31 = 256 ^ j * (low e + (F - v) + 2 ^ (31 - 8 * j))"
    using j(6) unfolding f(4) add_mult_distrib2 by (simp only: pow256 flip: power_add) simp
  also have "\<dots> \<le> 256 ^ j * (low e + r)" using fits by (intro mult_le_mono2) (simp add: r_def)
  finally have "low (at_num e1 0 (2 ^ 31)) + 2 ^ 31 \<le> (low e + r) * 256 ^ j" by (simp only: mult.commute)
  moreover have "low e * 256 ^ j \<le> low (at_num e1 0 (2 ^ 31))" unfolding f(4) by (simp add: mult.commute)
  ultimately show ?thesis using that [of j] f(1,2,5) j(3) by (simp add: e1_def r_def)
qed

text \<open>Flushing the pending bytes: the bytes written are then the whole number.\<close>

definition flushed :: "RangeEncoder \<Rightarrow> RangeEncoder" where
  "flushed e = (if re_rem e \<ge> 0 \<or> re_ext e > 0 then carryOut 0 e else e)"

lemma flushed_step:
  assumes "layout e" "count e < 2 ^ 32 - 1" "re_err (flushed e) = 0"
  shows "re_err e = 0" "layout (flushed e)" "back_part (flushed e) = back_part e" "unat (re_offs (flushed e)) = count e"
    "val256 (written (flushed e)) = val256 (written e @ pending e)"
proof -
  have len: "length (written (flushed e)) = unat (re_offs (flushed e))" if "layout (flushed e)" using that by (auto simp: written_def layout_def)
  have "re_err e = 0 \<and> layout (flushed e) \<and> back_part (flushed e) = back_part e \<and> unat (re_offs (flushed e)) = count e \<and>
    val256 (written (flushed e)) = val256 (written e @ pending e)"
  proof (cases "re_rem e \<ge> 0 \<or> re_ext e > 0")
    case True
    then have f: "flushed e = carryOut 0 e" by (simp add: flushed_def)
    have "unat (re_ext e) < 2 ^ 32 - 1" using assms(2) by (simp add: count_def pending_def split: if_splits)
    from carryOut_step [OF assms(1) _ _ this, of 0] assms(3)
    have s: "re_err e = 0" "layout (carryOut 0 e)" "count (carryOut 0 e) = count e + 1" "back_part (carryOut 0 e) = back_part e"
       "val256 (written (carryOut 0 e)) = val256 (written e @ pending e)" "length (pending (carryOut 0 e)) = 1" by (simp_all add: f)
    then have "length (written (carryOut 0 e)) = count e" by (simp add: count_def)
    then show ?thesis using s len unfolding f by simp
  next
    case False
    then have "pending e = []" by (auto simp: pending_def word_gt_0)
    then show ?thesis using False assms len by (simp add: flushed_def count_def)
  qed
  then show "re_err e = 0" "layout (flushed e)" "back_part (flushed e) = back_part e" "unat (re_offs (flushed e)) = count e"
    "val256 (written (flushed e)) = val256 (written e @ pending e)" by blast+
qed

section \<open>The back and the gap\<close>

lemma done_back_step:
  assumes "layout e" "bits_ok e" "done_back (re_endWindow e) (re_nendBits e) e = (w, u, e')" "re_err e' = 0"
  shows "window_step (re_endWindow e, re_nendBits e, e) (w, u, e') \<and> u < 8"
proof -
  have u: "0 \<le> re_nendBits e" "re_nendBits e \<le> 32" "unat (re_endWindow e) < 2 ^ nat (re_nendBits e)" using assms(2) by (simp_all add: bits_ok_def)
  show ?thesis
  proof (cases "re_nendBits e < 8")
    case True
    then show ?thesis using assms u by (auto simp: done_back_flush window_step_def)
  next
    case False
    then show ?thesis using assms flush_window_step [OF assms(1) _ u(2,3)] u by (simp add: done_back_flush)
  qed
qed

text \<open>The end of \<open>Done\<close>: the gap is cleared and the remaining bits go to the byte before the raw bytes.\<close>

definition finish :: "u32 \<Rightarrow> int \<Rightarrow> RangeEncoder \<Rightarrow> RangeEncoder" where
  "finish window used e =
     (if re_err e = 0 then
        (let e = zero_gap e
         in if used > 0 then
              (if re_endOffs e \<ge> re_storage e - re_offs e then e\<lparr>re_err := - 1\<rparr>
               else (let i = unat (re_storage e - re_endOffs e - 1)
                     in e\<lparr>re_buf := (re_buf e)[i := re_buf e ! i OR ucast window]\<rparr>))
            else e)
      else e)"

lemma re_Done_eq:
  "re_Done e = (case done_choice e of (l, fin) \<Rightarrow>
     let e = flushed (done_front l fin e) in case done_back (re_endWindow e) (re_nendBits e) e of (w, u, e) \<Rightarrow> finish w u e)"
  by (simp add: re_Done_def done_choice_def flushed_def finish_def Let_def split: prod.splits)

lemma zero_gap_nth:
  assumes "layout e" "i < unat (re_storage e)"
  shows "re_buf (zero_gap e) ! i = (if unat (re_offs e) \<le> i \<and> i < unat (re_storage e) - unat (re_endOffs e) then 0 else re_buf e ! i)"
proof -
  have "unat (re_storage e - re_endOffs e) = unat (re_storage e) - unat (re_endOffs e)"
    using assms(1) by (intro unat_sub) (simp add: layout_def word_le_nat_alt)
  then show ?thesis using assms by (simp add: zero_gap_def layout_def)
qed

lemma finish_buf:
  assumes "layout e" "0 \<le> u" "u < 8" "unat w < 2 ^ nat u" "re_err (finish w u e) = 0"
  defines "B \<equiv> re_buf (finish w u e)" and "m \<equiv> unat (re_storage e) - unat (re_endOffs e)"
  shows "re_err e = 0" "length B = unat (re_storage e)" "take (unat (re_offs e)) B = take (unat (re_offs e)) (re_buf e)"
    "drop m B = back_bytes e" "0 < u \<Longrightarrow> unat (re_offs e) < m \<and> unat (B ! (m - 1)) = unat w"
proof -
  show err: "re_err e = 0" using assms(5) by (auto simp: finish_def split: if_splits)
  have lay: "length (re_buf e) = unat (re_storage e)" "unat (re_offs e) + unat (re_endOffs e) \<le> unat (re_storage e)" using assms(1) by (simp_all add: layout_def)
  have sub: "unat (re_storage e - re_offs e) = unat (re_storage e) - unat (re_offs e)" "unat (re_storage e - re_endOffs e) = m"
    using lay(2) by (simp_all add: m_def unat_sub word_le_nat_alt)
  have gap: "length (re_buf (zero_gap e)) = length (re_buf e)" by (simp add: zero_gap_def)
  have other: "re_storage (zero_gap e) = re_storage e" "re_offs (zero_gap e) = re_offs e" "re_endOffs (zero_gap e) = re_endOffs e" by (simp_all add: zero_gap_def)
  have room: "unat (re_offs e) < m" if "0 < u"
    using that assms(5) err sub lay(2) by (auto simp: finish_def other Let_def m_def word_le_nat_alt split: if_splits)
  have B: "B = (if 0 < u then (re_buf (zero_gap e))[m - 1 := re_buf (zero_gap e) ! (m - 1) OR ucast w] else re_buf (zero_gap e))"
  proof (cases "0 < u")
    case True
    then have "1 \<le> re_storage e - re_endOffs e" using room sub(2) by (simp add: word_le_nat_alt)
    then have "unat (re_storage e - re_endOffs e - 1) = m - 1" using sub(2) by (simp add: unat_sub)
    moreover have "\<not> re_endOffs e \<ge> re_storage e - re_offs e" using room [OF True] sub(1) lay(2) by (simp add: word_le_nat_alt m_def)
    ultimately show ?thesis using True err by (simp add: B_def finish_def other Let_def)
  qed (simp add: B_def finish_def err)
  show len: "length B = unat (re_storage e)" using lay gap by (simp add: B)
  have nth: "B ! i = re_buf e ! i" if "i < unat (re_offs e) \<or> m \<le> i" "i < unat (re_storage e)" for i
  proof -
    have "0 < u \<Longrightarrow> m - 1 \<noteq> i" using room that(1) by auto
    then show ?thesis using that zero_gap_nth [OF assms(1) that(2)] by (auto simp: B m_def)
  qed
  show "take (unat (re_offs e)) B = take (unat (re_offs e)) (re_buf e)" using len lay by (intro nth_equalityI) (auto simp: nth)
  show "drop m B = back_bytes e" unfolding back_bytes_def m_def [symmetric] using len lay by (intro nth_equalityI) (auto simp: nth)
  show "unat (re_offs e) < m \<and> unat (B ! (m - 1)) = unat w" if "0 < u"
  proof
    show less: "unat (re_offs e) < m" by (rule room [OF that])
    then have idx: "m - 1 < unat (re_storage e)" by (simp add: m_def)
    have "re_buf (zero_gap e) ! (m - 1) = 0" using zero_gap_nth [OF assms(1) idx] less unfolding m_def [symmetric] by auto
    then have "B ! (m - 1) = ucast w" using that gap lay(1) idx by (simp add: B)
    moreover have "unat w < 256" using assms(3) power_increasing [of "nat u" 8 "2 :: nat"] by (intro less_le_trans [OF assms(4)]) simp
    ultimately show "unat (B ! (m - 1)) = unat w" by (simp add: unsigned_ucast_eq take_bit_nat_eq_self)
  qed
qed

lemma back_num_tail:
  assumes "val256 (map unat ys) = y" "y < 2 ^ b" "b \<le> 8 * length ys"
  shows "back_num (xs @ ys) mod 2 ^ b = y"
proof -
  have "back_num (xs @ ys) = val256 (map unat xs) * 2 ^ (8 * length ys) + y" using assms(1) by (simp add: back_num_def val256_append pow256)
  also have "\<dots> = y + 2 ^ b * (2 ^ (8 * length ys - b) * val256 (map unat xs))" using assms(3) by (simp flip: power_add mult.assoc)
  finally show ?thesis using assms(2) by (simp only: mod_mult_self2 mod_less)
qed

lemma seen_prefix:
  assumes "n \<le> length B"
  shows "val256 (map unat (take n B)) * 2 ^ 31 \<le> seen B n" "seen B n < val256 (map unat (take n B)) * 2 ^ 31 + 2 ^ 31"
proof -
  have "map (byte_at B) [0..<n + 4] = map unat (take n B) @ map (byte_at B) [n..<n + 4]"
    using assms by (intro nth_equalityI) (auto simp: nth_append byte_at_def)
  then have split: "val256 (map (byte_at B) [0..<n + 4]) = val256 (map unat (take n B)) * 2 ^ 32 + val256 (map (byte_at B) [n..<n + 4])"
    by (simp only: val256_append) simp
  have "val256 (map (byte_at B) [n..<n + 4]) < 256 ^ length (map (byte_at B) [n..<n + 4])" by (rule val256_less) (auto simp: byte_at_less)
  then have "val256 (map (byte_at B) [n..<n + 4]) < 2 ^ 32" by simp
  then show "val256 (map unat (take n B)) * 2 ^ 31 \<le> seen B n" "seen B n < val256 (map unat (take n B)) * 2 ^ 31 + 2 ^ 31"
    unfolding seen_def seen_at_def split by auto
qed

lemma done_back_sticky: "done_back w u e = (w', u', e') \<Longrightarrow> re_err e' = 0 \<Longrightarrow> re_err e = 0"
proof (induction w u e rule: done_back.induct)
  case (1 w u e)
  then show ?case by (subst (asm) (2) done_back.simps) (auto simp: Let_def split: if_splits dest: writeByteAtEnd_sticky)
qed

lemma flushed_sticky: "re_err (flushed e) = 0 \<Longrightarrow> re_err e = 0"
  by (auto simp: flushed_def split: if_splits dest: carryOut_sticky)

text \<open>The back of the finished buffer.\<close>

lemma finish_back:
  assumes "layout e" "0 \<le> u" "u < 8" "unat w < 2 ^ nat u" "re_err (finish w u e) = 0"
  defines "n \<equiv> unat (re_endOffs e)"
  shows "back_num (re_buf (finish w u e)) mod 2 ^ (8 * n + nat u) = val256 (map unat (back_bytes e)) + unat w * 256 ^ n"
proof -
  define B m where "B = re_buf (finish w u e)" and "m = unat (re_storage e) - n"
  note f = finish_buf [OF assms(1-5), folded B_def n_def, folded m_def]
  have lay: "length (re_buf e) = unat (re_storage e)" "n \<le> unat (re_storage e)" using assms(1) by (simp_all add: layout_def n_def)
  have bn: "length (back_bytes e) = n" using lay by (simp add: back_bytes_def n_def)
  have "val256 (map unat (back_bytes e)) < 256 ^ length (map unat (back_bytes e))" by (rule val256_less) auto
  then have less: "val256 (map unat (back_bytes e)) < 2 ^ (8 * n)" by (simp add: bn pow256)
  show ?thesis
  proof (cases "0 < u")
    case True
    have "m - 1 < length B" "Suc (m - 1) = m" using f(2,5) True by (auto simp: m_def)
    then have "drop (m - 1) B = B ! (m - 1) # back_bytes e" using f(4) Cons_nth_drop_Suc [of "m - 1" B] by simp
    then have B: "B = take (m - 1) B @ B ! (m - 1) # back_bytes e" by (metis append_take_drop_id)
    have "unat w * 256 ^ n + val256 (map unat (back_bytes e)) < (unat w + 1) * 2 ^ (8 * n)" using less by (simp add: pow256)
    also have "\<dots> \<le> 2 ^ nat u * 2 ^ (8 * n)" using assms(4) by (intro mult_le_mono1) simp
    finally have small: "unat w * 256 ^ n + val256 (map unat (back_bytes e)) < 2 ^ (8 * n + nat u)" by (simp add: power_add mult.commute)
    have "back_num (take (m - 1) B @ B ! (m - 1) # back_bytes e) mod 2 ^ (8 * n + nat u) = unat w * 256 ^ n + val256 (map unat (back_bytes e))"
      using f(5) [OF True] assms(3) bn by (intro back_num_tail small) simp_all
    then show ?thesis unfolding B [symmetric] by (simp add: B_def)
  next
    case False
    then have w: "unat w = 0" "nat u = 0" using assms(2,4) by simp_all
    have "back_num (take m B @ back_bytes e) mod 2 ^ (8 * n) = val256 (map unat (back_bytes e))"
      using less bn by (intro back_num_tail) simp_all
    then show ?thesis using w f(4) by (metis B_def append_take_drop_id add.right_neutral mult_zero_left)
  qed
qed

text \<open>The buffer of \<open>Done\<close> agrees with the encoder it was called on.\<close>

lemma done_holds:
  assumes "enc_ok e" "bits_ok e" "rng_ok e" "count e + 3 < 2 ^ 32" "re_err (re_Done e) = 0"
  shows "re_err e = 0 \<and> holds (re_buf (re_Done e)) e \<and> length (re_buf (re_Done e)) < 2 ^ 32"
proof -
  obtain l fin where lf: "done_choice e = (l, fin)" by fastforce
  define e1 e2 where "e1 = done_front l fin e" and "e2 = flushed e1"
  obtain w u e3 where bk: "done_back (re_endWindow e2) (re_nendBits e2) e2 = (w, u, e3)" by (metis prod_cases3)
  define B where "B = re_buf (finish w u e3)"
  have run: "re_Done e = finish w u e3" unfolding re_Done_eq lf using bk by (simp add: e1_def e2_def Let_def)
  have err: "re_err (finish w u e3) = 0" using assms(5) by (simp add: run)
  then have err3: "re_err e3 = 0" by (auto simp: finish_def split: if_splits)
  then have err2: "re_err e2 = 0" using bk done_back_sticky by blast
  then have err1: "re_err e1 = 0" using flushed_sticky by (simp add: e2_def)
  obtain j where j: "enc_ok (at_num e1 0 (2 ^ 31))" "count e1 = count e + j" "j \<le> 2" "back_part e1 = back_part e"
      "low e * 256 ^ j \<le> low (at_num e1 0 (2 ^ 31))" "low (at_num e1 0 (2 ^ 31)) + 2 ^ 31 \<le> (low e + unat (re_rng e)) * 256 ^ j"
    using done_front_final [OF assms(1,3,4) lf] err1 unfolding e1_def by metis
  have "layout e1" using j(1) by (simp add: enc_ok_def)
  with flushed_step [of e1] err2 j(2,3) assms(4)
  have s2: "layout e2" "back_part e2 = back_part e" "unat (re_offs e2) = count e1" "val256 (written e2) = val256 (written e1 @ pending e1)"
    by (simp_all add: e2_def j(4))
  note b2 = back_part_eq [OF s2(2)]
  have ws: "window_step (re_endWindow e2, re_nendBits e2, e2) (w, u, e3)" "u < 8"
    using done_back_step [OF s2(1) _ bk err3] assms(2) b2(3) by simp_all
  then have s3: "layout e3" "0 \<le> u" "unat w < 2 ^ nat u" "front_part e3 = front_part e2" "8 * unat (re_endOffs e3) + nat u = bits_len e"
      "val256 (map unat (back_bytes e3)) + unat w * 256 ^ unat (re_endOffs e3) = bits_val e"
    using b2 by (simp_all add: window_step_def bits_len_def bits_val_def)
  note f = finish_buf [OF s3(1,2) ws(2) s3(3) err, folded B_def]
  have bits: "back_num B mod 2 ^ bits_len e = bits_val e"
    using finish_back [OF s3(1,2) ws(2) s3(3) err] unfolding s3(5,6) B_def .
  have front: "unat (re_offs e3) = count e1" "written e3 = written e2" using s3(4) s2(3) by (simp_all add: front_part_def)
  have wr: "map unat (take (count e1) B) = written e3" using f(3) unfolding front(1) written_def by simp
  have "count e1 \<le> length B" using s3(1) front(1) f(2) by (simp add: layout_def)
  from seen_prefix [OF this] have "low (at_num e1 0 (2 ^ 31)) \<le> seen B (count e1)" "seen B (count e1) < low (at_num e1 0 (2 ^ 31)) + 2 ^ 31"
    unfolding wr front(2) s2(4) low_at_num by simp_all
  then have "low e * 256 ^ j \<le> seen B (count e + j)" "seen B (count e + j) < (low e + unat (re_rng e)) * 256 ^ j" using j(5,6) unfolding j(2) by linarith+
  then have "low e \<le> seen B (count e)" "seen B (count e) < low e + unat (re_rng e)"
    unfolding seen_add [of B "count e" j] by (simp_all add: less_eq_div_iff_mult_less_eq div_less_iff_less_mult)
  moreover have "length B < 2 ^ 32" using f(2) unat_u32_less [of "re_storage e3"] by simp
  ultimately show ?thesis using bits f(1,2) err1 done_front_sticky [of l fin e] by (simp add: holds_def run B_def e1_def)
qed

end
