(* ===== verification/Range_Coder_Messages.thy ===== *)
theory Range_Coder_Messages
  imports Range_Coder_Done
begin

text \<open>
  Whole messages: a sequence of symbols, each under its own table, coded into one buffer and read back.
\<close>

section \<open>Uniform integers\<close>

lemma codes_cong: "codes n f g v \<Longrightarrow> (\<And>e. f' e = f e) \<Longrightarrow> (\<And>d. g' d = g d) \<Longrightarrow> codes n f' g' v"
  by (simp add: codes_def)

lemma bind_res_Inr_right [simp]: "bind_res r Inr = r"
  by (cases r) simp_all

lemma codes_mono:
  assumes "codes m f g v" "m \<le> n" shows "codes n f g v"
proof -
  have "codes (m + (n - m)) (\<lambda>e. bind_res (f e) Inr) (\<lambda>d. bind_res (g d) (\<lambda>(x, d). Inr (x, d))) v"
    by (rule codes_bind [OF assms(1) codes_return])
  then show ?thesis using assms(2) by (simp add: codes_def)
qed

lemma codes_map:
  assumes "codes n f g v" shows "codes n f (\<lambda>d. bind_res (g d) (\<lambda>(x, d). Inr (h x, d))) (h v)"
  using codes_bind [OF assms, of 0 Inr "\<lambda>x d. Inr (h x, d)", OF codes_return [of 0 "h v"]] by (simp add: codes_def)

lemma uint_split:
  assumes "unat v \<le> unat ft" "ilog ft = b + 8"
  shows "b \<le> 24" "unat (drop_bit b v) < unat (drop_bit b ft + 1)" "unat (drop_bit b ft + 1) \<le> 2 ^ 23"
    "push_bit b (drop_bit b v) OR (v AND (push_bit b 1 - 1)) = (v :: u32)"
    "unat (v AND (push_bit b 1 - 1)) < 2 ^ b" "unat (of_nat b :: u32) = b"
proof -
  have len: "bit_len (unat ft) = b + 8" using assms(2) by (simp add: ilog_def)
  have "0 < unat ft" using len by (cases "unat ft = 0") (simp_all add: bit_len.simps)
  then have "2 ^ (b + 7) \<le> unat ft" "unat ft < 2 ^ (b + 8)" using bit_len_bounds [of "unat ft"] len by (simp_all add: add.commute)
  moreover from this have "(2 :: nat) ^ (b + 7) < 2 ^ 32" using unat_u32_less [of ft] by simp
  then have "b + 7 < 32" by (rule power_less_imp_less_exp [rotated]) simp
  then show b: "b \<le> 24" by simp
  ultimately have "unat ft div 2 ^ b < 256" by (simp add: div_less_iff_less_mult power_add mult.commute)
  then have t: "unat (drop_bit b ft + 1) = unat ft div 2 ^ b + 1" "unat ft div 2 ^ b < 256" using unat_next [of "drop_bit b ft"] by (simp_all add: unat_drop_bit_div)
  show "unat (drop_bit b v) < unat (drop_bit b ft + 1)" using div_le_mono [OF assms(1), of "2 ^ b"] by (simp add: t(1) unat_drop_bit_div)
  show "unat (drop_bit b ft + 1) \<le> 2 ^ 23" using t by simp
  show "unat (of_nat b :: u32) = b" using b by (intro unat_of_nat_u32) simp
  show "unat (v AND (push_bit b 1 - 1)) < 2 ^ b" using b by (subst unat_low_bits) simp_all
  have "v AND (push_bit b 1 - 1) = take_bit b v" by (simp add: take_bit_eq_mask mask_eq_exp_minus_1 push_bit_eq_mult)
  then show "push_bit b (drop_bit b v) OR (v AND (push_bit b 1 - 1)) = v" by (simp only:) (rule bit_word_eqI, auto simp: bit_simps)
qed

lemma codes_Uint:
  assumes "unat v < unat ft"
  shows "codes 3 (\<lambda>e. EncodeUint e v ft) (\<lambda>d. DecodeUint d ft) v"
proof -
  define m where "m = ft - 1"
  have m: "unat m = unat ft - 1" "unat v \<le> unat m" using assms by (simp_all add: m_def unat_sub_if')
  have ft: "m + 1 = ft" by (simp add: m_def)
  show ?thesis
  proof (cases "ilog m > 8")
    case True
    define b where "b = ilog m - 8"
    have b: "ilog m = b + 8" using True by (simp add: b_def)
    note s = uint_split [OF m(2) b]
    let ?t = "drop_bit b m + 1" and ?s = "drop_bit b v" and ?l = "v AND (push_bit b 1 - 1)"
    have "codes (0 + 0) (\<lambda>e. bind_res (Inr (re_BitsN e ?l (of_nat b))) Inr)
       (\<lambda>d. bind_res (Inr (rd_BitsN d (of_nat b))) (\<lambda>(x, d). (let w = push_bit b ?s OR x in if w \<le> m then Inr (w, d) else Inr (m, d\<lparr>rd_Err := 1\<rparr>)))) v"
    proof (rule codes_bind)
      show "codes 0 (\<lambda>e. Inr (re_BitsN e ?l (of_nat b))) (\<lambda>d. Inr (rd_BitsN d (of_nat b))) ?l" using s by (intro codes_BitsN) simp_all
      have "v \<le> m" using m(2) by (simp add: word_le_nat_alt)
      then show "codes 0 Inr (\<lambda>d. let w = push_bit b ?s OR ?l in if w \<le> m then Inr (w, d) else Inr (m, d\<lparr>rd_Err := 1\<rparr>)) v"
        by (intro codes_cong [OF codes_return]) (simp_all only: Let_def s(4) if_True)
    qed
    then have "codes (3 + 0) (\<lambda>e. bind_res (re_Encode e ?s (?s + 1) ?t) (\<lambda>e. Inr (re_BitsN e ?l (of_nat b))))
      (\<lambda>d. bind_res (case rd_Decode d ?t of (s, d) \<Rightarrow> bind_res (rd_Update d s (s + 1) ?t) (\<lambda>d. Inr (s, d)))
         (\<lambda>(s, d). case rd_BitsN d (of_nat b) of (x, d) \<Rightarrow> (let w = push_bit b s OR x in if w \<le> m then Inr (w, d) else Inr (m, d\<lparr>rd_Err := 1\<rparr>)))) v"
      by (intro codes_bind [OF codes_uniform [OF s(2,3)]]) (simp add: codes_def)
    then have "codes 3 (\<lambda>e. bind_res (re_Encode e ?s (?s + 1) ?t) (\<lambda>e. Inr (re_BitsN e ?l (of_nat b))))
      (\<lambda>d. bind_res (case rd_Decode d ?t of (s, d) \<Rightarrow> bind_res (rd_Update d s (s + 1) ?t) (\<lambda>d. Inr (s, d)))
         (\<lambda>(s, d). case rd_BitsN d (of_nat b) of (x, d) \<Rightarrow> (let w = push_bit b s OR x in if w \<le> m then Inr (w, d) else Inr (m, d\<lparr>rd_Err := 1\<rparr>)))) v"
      by (simp only: add_0_right)
    then show ?thesis
    proof (rule codes_cong)
      show "EncodeUint e v ft = bind_res (re_Encode e ?s (?s + 1) ?t) (\<lambda>e. Inr (re_BitsN e ?l (of_nat b)))" for e
        using True by (simp only: EncodeUint_def Let_def ec_defs m_def [symmetric] b_def [symmetric] if_True)
      show "DecodeUint d ft = bind_res (case rd_Decode d ?t of (s, d) \<Rightarrow> bind_res (rd_Update d s (s + 1) ?t) (\<lambda>d. Inr (s, d)))
         (\<lambda>(s, d). case rd_BitsN d (of_nat b) of (x, d) \<Rightarrow> (let w = push_bit b s OR x in if w \<le> m then Inr (w, d) else Inr (m, d\<lparr>rd_Err := 1\<rparr>)))" for d
        using True by (simp only: DecodeUint_def Let_def ec_defs m_def [symmetric] b_def [symmetric] if_True) (simp add: bind_res_assoc split: prod.split)
    qed
  next
    case False
    have "unat m < 2 ^ 8"
    proof -
      have "unat m < 2 ^ bit_len (unat m)" by (rule bit_len_bounds)
      also have "(2 :: nat) ^ bit_len (unat m) \<le> 2 ^ 8" using False by (intro power_increasing) (simp_all add: ilog_def)
      finally show ?thesis .
    qed
    then have "unat ft \<le> 2 ^ 23" using m(1) by simp
    from codes_uniform [OF assms this] False show ?thesis by (simp add: EncodeUint_def DecodeUint_def Let_def ec_defs ft flip: m_def)
  qed
qed

section \<open>Messages\<close>

datatype rc_table = TCDF "u16 list" | TICDF "u8 list" u32 | TBit u32 | TUint u32 | TRaw u32 | TFine | TBits u32

primrec encode_as :: "rc_table \<Rightarrow> nat \<Rightarrow> RangeEncoder \<Rightarrow> rc_stop + RangeEncoder" where
  "encode_as (TCDF cdf) v e = EncodeCDF e (int v) cdf"
| "encode_as (TICDF icdf ftb) v e = EncodeICDF e (int v) icdf ftb"
| "encode_as (TBit logp) v e = re_BitLogp e (int v) logp"
| "encode_as (TUint ft) v e = EncodeUint e (of_nat v) ft"
| "encode_as (TRaw n) v e = EncodeRawSymbol e (of_nat v) n"
| "encode_as TFine v e = Encode64FineSym e (int v)"
| "encode_as (TBits n) v e = Inr (re_BitsN e (of_nat v) n)"

definition as_nat :: "('a \<Rightarrow> nat) \<Rightarrow> rc_stop + 'a \<times> RangeDecoder \<Rightarrow> rc_stop + nat \<times> RangeDecoder" where
  "as_nat h r = bind_res r (\<lambda>(x, d). Inr (h x, d))"

primrec decode_as :: "rc_table \<Rightarrow> RangeDecoder \<Rightarrow> rc_stop + nat \<times> RangeDecoder" where
  "decode_as (TCDF cdf) d = DecodeCDF d cdf"
| "decode_as (TICDF icdf ftb) d = DecodeICDF d icdf ftb"
| "decode_as (TBit logp) d = as_nat nat (rd_BitLogp d logp)"
| "decode_as (TUint ft) d = as_nat unat (DecodeUint d ft)"
| "decode_as (TRaw n) d = as_nat unat (DecodeRawSymbol d n)"
| "decode_as TFine d = as_nat nat (Decode64FineSym d)"
| "decode_as (TBits n) d = as_nat unat (Inr (rd_BitsN d n))"

text \<open>The values that a table can code.\<close>

primrec fits :: "rc_table \<Rightarrow> nat \<Rightarrow> bool" where
  "fits (TCDF cdf) v \<longleftrightarrow> sorted cdf \<and> v + 1 < length cdf \<and> cdf ! v < cdf ! (v + 1) \<and> length cdf \<le> 2 ^ 31"
| "fits (TICDF icdf ftb) v \<longleftrightarrow> icdf_ok v icdf ftb"
| "fits (TBit logp) v \<longleftrightarrow> v \<le> 1 \<and> 0 < unat logp \<and> unat logp \<le> 23"
| "fits (TUint ft) v \<longleftrightarrow> v < unat ft"
| "fits (TRaw n) v \<longleftrightarrow> unat n \<le> 23 \<and> v < 2 ^ unat n"
| "fits TFine v \<longleftrightarrow> v < 64"
| "fits (TBits n) v \<longleftrightarrow> unat n \<le> 25 \<and> v < 2 ^ unat n"

primrec encode_all :: "(rc_table \<times> nat) list \<Rightarrow> RangeEncoder \<Rightarrow> rc_stop + RangeEncoder" where
  "encode_all [] e = Inr e"
| "encode_all (m # ms) e = bind_res (encode_as (fst m) (snd m) e) (encode_all ms)"

primrec decode_all :: "rc_table list \<Rightarrow> RangeDecoder \<Rightarrow> rc_stop + nat list \<times> RangeDecoder" where
  "decode_all [] d = Inr ([], d)"
| "decode_all (t # ts) d = bind_res (decode_as t d) (\<lambda>(v, d). bind_res (decode_all ts d) (\<lambda>(vs, d). Inr (v # vs, d)))"

lemma small_power: "v < 2 ^ n \<Longrightarrow> n \<le> 25 \<Longrightarrow> unat (of_nat v :: u32) = v"
proof -
  assume "v < 2 ^ n" "n \<le> 25"
  then have "(2 :: nat) ^ n \<le> 2 ^ 32" by (intro power_increasing) simp_all
  with \<open>v < 2 ^ n\<close> have "v < 2 ^ 32" by (rule less_le_trans)
  then show ?thesis by (rule unat_of_nat_u32)
qed

lemma codes_as: "fits t v \<Longrightarrow> codes 3 (encode_as t v) (decode_as t) v"
proof (cases t)
  case (TBit logp)
  assume "fits t v"
  then have b: "int v = (if v = 1 then 1 else 0)" "0 < unat logp" "unat logp \<le> 23" using TBit by auto
  have "codes 3 (\<lambda>e. re_BitLogp e (int v) logp) (\<lambda>d. bind_res (rd_BitLogp d logp) (\<lambda>(x, d). Inr (nat x, d))) (nat (int v))"
    unfolding b(1) by (rule codes_map [OF codes_BitLogp [OF b(2,3)]])
  then show ?thesis unfolding nat_int by (rule codes_cong) (simp_all add: TBit as_nat_def)
next
  case (TUint ft)
  assume "fits t v"
  moreover from this have "unat (of_nat v :: u32) = v" using TUint unat_u32_less [of ft] by (intro unat_of_nat_u32) simp
  ultimately show ?thesis using codes_map [OF codes_Uint [of "of_nat v" ft], of unat] by (simp add: TUint as_nat_def codes_def)
next
  case (TRaw n)
  assume "fits t v"
  then show ?thesis using codes_map [OF codes_RawSymbol [of n "of_nat v"], of unat] small_power [of v "unat n"] by (simp add: TRaw as_nat_def codes_def)
next
  case TFine
  assume "fits t v"
  then show ?thesis using codes_map [OF codes_64Fine [of v], of nat] by (simp add: TFine as_nat_def codes_def)
next
  case (TBits n)
  assume "fits t v"
  then have "codes 0 (encode_as t v) (decode_as t) v"
    using codes_map [OF codes_BitsN [of n "of_nat v"], of unat] small_power [of v "unat n"] by (simp add: TBits as_nat_def codes_def)
  then show ?thesis by (rule codes_mono) simp
next
  case (TCDF cdf)
  assume "fits t v"
  then show ?thesis using codes_CDF [of cdf v] by (simp add: TCDF codes_def)
next
  case (TICDF icdf ftb)
  assume "fits t v"
  then show ?thesis using codes_ICDF [of v icdf ftb] by (simp add: TICDF codes_def)
qed

lemma codes_all:
  "(\<And>t v. (t, v) \<in> set ms \<Longrightarrow> fits t v) \<Longrightarrow> codes (3 * length ms) (encode_all ms) (decode_all (map fst ms)) (map snd ms)"
proof (induction ms)
  case (Cons m ms)
  have "codes 3 (encode_as (fst m) (snd m)) (decode_as (fst m)) (snd m)" using Cons.prems [of "fst m" "snd m"] by (intro codes_as) simp
  from codes_bind [OF this, of "3 * length ms" "encode_all ms" "\<lambda>v d. bind_res (decode_all (map fst ms) d) (\<lambda>(vs, d). Inr (v # vs, d))" "map snd (m # ms)"]
  show ?case using codes_map [OF Cons.IH, of "\<lambda>vs. snd m # vs"] Cons.prems by simp
next
  case Nil
  show ?case by (rule codes_cong [OF codes_return]) simp_all
qed

lemma encoder_start:
  assumes "sz < 2 ^ 32"
  shows "rng_ok (NewRangeEncoder sz)" "enc_ok (NewRangeEncoder sz)" "bits_ok (NewRangeEncoder sz)" "count (NewRangeEncoder sz) = 0"
    "low (NewRangeEncoder sz) = 0" "bits_len (NewRangeEncoder sz) = 0" "re_rng (NewRangeEncoder sz) = 0x80000000"
  using assms by (simp_all add: NewRangeEncoder_def rng_ok_def enc_ok_def bits_ok_def layout_def count_def low_def bits_len_def written_def pending_def
      ec_defs unat_of_nat_u32)

lemma re_Done_sticky: "re_err (re_Done e) = 0 \<Longrightarrow> re_err e = 0"
  by (auto simp: re_Done_eq finish_def Let_def split: prod.splits if_splits dest!: done_front_sticky flushed_sticky dest: done_back_sticky)

lemma decoder_start:
  assumes "sz < 2 ^ 32" "length B < 2 ^ 32"
  obtains d where "NewRangeDecoder B = Inr d" "follows B (NewRangeEncoder sz) d"
proof -
  obtain d where d: "NewRangeDecoder B = Inr d" "dec_ok B 0 0 d" "rd_rng d = 0x80000000" "rd_endOffs d = 0" "rd_endWindow d = 0" "rd_nendBits d = 0" "rd_Err d = 0"
    using NewRangeDecoder_start [OF assms(2)] by metis
  then have "dec_bits B 0 d" by (simp add: dec_bits_def dec_ok_def)
  then show ?thesis using that [of d] d encoder_start [OF assms(1)] by (simp add: follows_def)
qed

text \<open>
  C5: whatever is coded is decoded. Any sequence of at most \<open>2^30\<close> symbols, each within its table (cumulative and
  inverse cumulative tables, bits of any probability, uniform integers, raw symbols, the 64-way fine symbol and
  raw bits at the back of the buffer, in any order), is encoded without the encoder running away or
  indexing out of a table; and when \<open>Done\<close> reports that everything fitted into the buffer, a decoder
  on that buffer, given the same tables, returns exactly the same values and no error.
\<close>

theorem range_coder_roundtrip:
  assumes "\<And>t v. (t, v) \<in> set ms \<Longrightarrow> fits t v" "length ms \<le> 2 ^ 30" "sz < 2 ^ 32"
  shows "\<exists>e. encode_all ms (NewRangeEncoder sz) = Inr e \<and>
     (re_err (re_Done e) = 0 \<longrightarrow>
        (\<exists>d d'. NewRangeDecoder (re_buf (re_Done e)) = Inr d \<and> decode_all (map fst ms) d = Inr (map snd ms, d') \<and> rd_Err d' = 0))"
proof -
  let ?e0 = "NewRangeEncoder sz"
  note start = encoder_start [OF assms(3)]
  obtain e where e: "encode_all ms ?e0 = Inr e" "rng_ok e" "re_err e = 0 \<Longrightarrow> enc_ok e \<and> bits_ok e \<and> count e \<le> 3 * length ms \<and>
      (\<forall>B. holds B e \<longrightarrow> (\<forall>d. follows B ?e0 d \<longrightarrow> (\<exists>d'. decode_all (map fst ms) d = Inr (map snd ms, d') \<and> follows B e d')))"
    using codes_all [OF assms(1)] assms(2) start unfolding codes_def by fastforce
  have "\<exists>d d'. NewRangeDecoder (re_buf (re_Done e)) = Inr d \<and> decode_all (map fst ms) d = Inr (map snd ms, d') \<and> rd_Err d' = 0"
    if fin: "re_err (re_Done e) = 0"
  proof -
    have "re_err e = 0" using fin re_Done_sticky by blast
    note ok = e(3) [OF this]
    have h: "holds (re_buf (re_Done e)) e" "length (re_buf (re_Done e)) < 2 ^ 32"
      using done_holds [of e] ok e(2) fin assms(2) by auto
    then obtain d where "NewRangeDecoder (re_buf (re_Done e)) = Inr d" "follows (re_buf (re_Done e)) ?e0 d"
      using decoder_start [OF assms(3)] by blast
    then show ?thesis using ok h(1) by (fastforce simp: follows_def)
  qed
  then show ?thesis using e(1) by blast
qed

theorem range_coder_roundtrip_witness:
  "\<exists>e d d'. encode_all [(TBit 1, 1)] (NewRangeEncoder 2) = Inr e \<and> NewRangeDecoder (re_buf (re_Done e)) = Inr d \<and>
     decode_all [TBit 1] d = Inr ([1], d') \<and> rd_Err d' = 0"
proof -
  let ?e = "(NewRangeEncoder 2)\<lparr>re_val := 0x40000000, re_rng := 0x40000000\<rparr>"
  have run: "encode_all [(TBit 1, 1)] (NewRangeEncoder 2) = Inr ?e"
    by (simp add: NewRangeEncoder_def re_BitLogp_def from_loop_def re_normalize.simps ec_defs Let_def)
  have "ilog 0x40000000 = 31" by (simp add: ilog_def bit_len.simps)
  then have "re_err (re_Done ?e) = 0"
    by (simp add: re_Done_def ec_defs Let_def NewRangeEncoder_def)
      (simp add: done_front.simps done_back.simps ec_defs carryOut_def re_writeByte_def zero_gap_def Let_def)
  then show ?thesis using range_coder_roundtrip [of "[(TBit 1, 1)]" 2] run by auto
qed

section \<open>Empty ranges\<close>

lemma re_normalize_some: assumes "re_normalize e = Some e'" shows "re_rng e \<noteq> 0"
proof (rule re_normalize.raw_induct [OF _ assms])
  fix f :: "RangeEncoder \<Rightarrow> RangeEncoder option" and x y
  assume IH: "\<And>x y. f x = Some y \<Longrightarrow> re_rng x \<noteq> 0" and step: "(if re_rng x \<le> ecCodeBot then f (re_shift x) else Some x) = Some y"
  show "re_rng x \<noteq> 0"
  proof
    assume zero: "re_rng x = 0"
    then have "f (re_shift x) = Some y" using step by (simp add: ec_defs)
    then show False using IH [of "re_shift x" y] zero by (simp add: re_shift_rng)
  qed
qed

lemma rd_shift_rng: "rd_rng (rd_shift d) = push_bit 8 (rd_rng d)"
  by (simp add: rd_shift_def rd_readByte_def Let_def ec_defs)

lemma rd_normalize_some: assumes "rd_normalize d = Some d'" shows "rd_rng d \<noteq> 0"
proof (rule rd_normalize.raw_induct [OF _ assms])
  fix f :: "RangeDecoder \<Rightarrow> RangeDecoder option" and x y
  assume IH: "\<And>x y. f x = Some y \<Longrightarrow> rd_rng x \<noteq> 0" and step: "(if rd_rng x \<le> ecCodeBot then f (rd_shift x) else Some x) = Some y"
  show "rd_rng x \<noteq> 0"
  proof
    assume zero: "rd_rng x = 0"
    then have "f (rd_shift x) = Some y" using step by (simp add: ec_defs)
    then show False using IH [of "rd_shift x" y] zero by (simp add: rd_shift_rng)
  qed
qed

lemma rd_normalize_total:
  assumes "rd_rng d \<noteq> 0" shows "\<exists>d'. rd_normalize d = Some d'"
proof -
  have "\<exists>d'. rd_normalize d = Some d'" if "unat (rd_rng d) = r" "0 < r" for r d
    using that
  proof (induction r arbitrary: d rule: norm_steps.induct)
    case (1 r)
    show ?case
    proof (cases "r \<le> 2 ^ 23")
      case True
      have "unat (rd_rng (rd_shift d)) = 256 * r" using True 1 unat_shifted_rng [of "rd_rng d"] by (simp add: rd_shift_rng)
      then show ?thesis using 1 True by (subst rd_normalize.simps) (simp add: ec_defs word_le_nat_alt)
    next
      case False
      then show ?thesis using 1 by (subst rd_normalize.simps) (simp add: ec_defs word_le_nat_alt)
    qed
  qed
  then show ?thesis using assms unat_gt_0 by blast
qed

lemma re_normalize_exists:
  assumes "re_rng e \<noteq> 0" shows "\<exists>e'. re_normalize e = Some e'"
proof (cases "unat (re_rng e) \<le> 2 ^ 31")
  case True
  then show ?thesis using assms re_normalize_total [of e] unat_gt_0 by metis
next
  case False
  then show ?thesis by (subst re_normalize.simps) (simp add: ec_defs word_le_nat_alt)
qed

text \<open>
  when the coder runs away. The normalisation loop of the encoder ends exactly when the range is not empty, and so
  does the decoder's: every other state, reachable or not, is normalised in finitely many steps.
\<close>

theorem normalize_ends_iff:
  "(re_normalize e = None \<longleftrightarrow> re_rng e = 0) \<and> (rd_normalize d = None \<longleftrightarrow> rd_rng d = 0)"
  using re_normalize_some [of e] re_normalize_exists [of e] rd_normalize_some [of d] rd_normalize_total [of d]
  by (metis not_Some_eq)

text \<open>
  a symbol of no width hangs the encoder. \<open>EncodeCDF\<close> on an index of the table whose interval is empty, other
  than at the start of the table, is not rejected: whatever the encoder's state, it never returns.
\<close>

theorem EncodeCDF_spins:
  assumes "s + 1 < length cdf" "length cdf \<le> 2 ^ 31" "cdf ! 0 < cdf ! s" "cdf ! (s + 1) = cdf ! s" "cdf ! s \<le> cdf ! (length cdf - 1)"
  shows "EncodeCDF e (int s) cdf = Inl Loops"
proof -
  let ?u = "\<lambda>i. ucast (cdf ! i) :: u32"
  have less: "?u 0 < ?u s" "?u 0 < ?u (length cdf - 1)"
    using assms(3,5) by (auto simp: word_less_nat_alt word_le_nat_alt unat_ucast_u16)
  have idx: "s32 (int s + 1) = int s + 1" "nat (int s + 1) = s + 1" using assms(1,2) by (auto intro: s32_id)
  have pos: "?u s - ?u 0 > 0" "?u (length cdf - 1) - ?u 0 \<noteq> 0" using less by (auto simp: word_gt_0)
  have empty: "re_normalize (e\<lparr>re_val := v, re_rng := 0\<rparr>) = None" for v
    using re_normalize_some [of "e\<lparr>re_val := v, re_rng := 0\<rparr>"] by (cases "re_normalize (e\<lparr>re_val := v, re_rng := 0\<rparr>)") auto
  have "re_Encode e (?u s - ?u 0) (?u s - ?u 0) (?u (length cdf - 1) - ?u 0) = Inl Loops"
    using pos empty by (simp add: re_Encode_def Let_def from_loop_def)
  then show ?thesis using assms(1,4) less(2) idx by (simp add: EncodeCDF_def Let_def not_le)
qed

theorem EncodeCDF_spins_witness:
  "EncodeCDF (NewRangeEncoder 4) 1 [0, 5, 5, 9] = Inl Loops"
  using EncodeCDF_spins [of 1 "[0, 5, 5, 9]" "NewRangeEncoder 4"] by simp

end
