(* ===== verification/Media_Pipeline.thy ===== *)
theory Media_Pipeline
  imports Srtp Rtcp
begin

text \<open>
  The media pipeline of a call (\<open>lib/call_crypto_session.go\<close>): Opus payloads get an RTP header, are
  encrypted and carry an integrity tag; received packets are authenticated before the rollover counter
  of the receiver moves. It composes the RTP, SRTP and WARP components; HKDF, AES and HMAC-SHA1 are
  parameters. The two mutexes make each operation one step of the state.
\<close>

section \<open>Pipeline\<close>

definition WarpMITagLen :: nat where "WarpMITagLen = 4"

record MediaPipeline =
  sendKeys :: E2eSrtpKeys
  recvKeys :: E2eSrtpKeys
  warpMITagLen :: nat
  mp_stream :: RtpStream
  sendRoc :: RocTracker
  recvRoc :: RecvRocTracker
  packetsSent :: u32
  octetsSent :: u32
  rtpTimestamp :: u32

definition NewMediaPipeline ::
  "hkdf_fun \<Rightarrow> (bytes \<Rightarrow> bytes \<Rightarrow> bytes) \<Rightarrow> bytes \<Rightarrow> string \<Rightarrow> string \<Rightarrow> u32 \<Rightarrow> u32 \<Rightarrow> key_error + MediaPipeline" where
  "NewMediaPipeline hkdf aes callKey selfJID peerJID ssrc samples =
     bind_res (DeriveE2eKeys hkdf aes callKey (FormatE2ESrtpParticipantID selfJID)) (\<lambda>sk.
     bind_res (DeriveE2eKeys hkdf aes callKey (FormatE2ESrtpParticipantID peerJID)) (\<lambda>rk.
       Inr \<lparr>sendKeys = sk, recvKeys = rk, warpMITagLen = WarpMITagLen, mp_stream = NewRtpStream ssrc samples False,
            sendRoc = new_send_roc, recvRoc = new_recv_roc, packetsSent = 0, octetsSent = 0, rtpTimestamp = 0\<rparr>))"

definition installSendKeys :: "E2eSrtpKeys \<Rightarrow> MediaPipeline \<Rightarrow> MediaPipeline" where
  "installSendKeys keys p = p\<lparr>sendKeys := keys\<rparr>"

definition installRecvKeysPreservingROC :: "E2eSrtpKeys \<Rightarrow> MediaPipeline \<Rightarrow> MediaPipeline" where
  "installRecvKeysPreservingROC keys p = p\<lparr>recvKeys := keys\<rparr>"

definition installRecvKeys :: "E2eSrtpKeys \<Rightarrow> MediaPipeline \<Rightarrow> MediaPipeline" where
  "installRecvKeys keys p = p\<lparr>recvKeys := keys, recvRoc := new_recv_roc\<rparr>"

definition RekeyRecv ::
  "hkdf_fun \<Rightarrow> (bytes \<Rightarrow> bytes \<Rightarrow> bytes) \<Rightarrow> bytes \<Rightarrow> string \<Rightarrow> MediaPipeline \<Rightarrow> key_error + MediaPipeline" where
  "RekeyRecv hkdf aes callKey peerJID p =
     bind_res (DeriveE2eKeys hkdf aes callKey (FormatE2ESrtpParticipantID peerJID)) (\<lambda>keys. Inr (installRecvKeys keys p))"

definition RekeyRecvFromRaw ::
  "hkdf_fun \<Rightarrow> (bytes \<Rightarrow> bytes \<Rightarrow> bytes) \<Rightarrow> bytes \<Rightarrow> string \<Rightarrow> MediaPipeline \<Rightarrow> key_error + MediaPipeline" where
  "RekeyRecvFromRaw hkdf aes rawE2E peerJID p =
     bind_res (DeriveE2eKeysFromRaw hkdf aes rawE2E (FormatE2ESrtpParticipantID peerJID)) (\<lambda>keys. Inr (installRecvKeys keys p))"

definition RekeySendFromRaw ::
  "hkdf_fun \<Rightarrow> (bytes \<Rightarrow> bytes \<Rightarrow> bytes) \<Rightarrow> bytes \<Rightarrow> string \<Rightarrow> MediaPipeline \<Rightarrow> key_error + MediaPipeline" where
  "RekeySendFromRaw hkdf aes rawE2E selfJID p =
     bind_res (DeriveE2eKeysFromRaw hkdf aes rawE2E (FormatE2ESrtpParticipantID selfJID)) (\<lambda>keys. Inr (installSendKeys keys p))"

definition RekeyRecvFromRawPreservingROC ::
  "hkdf_fun \<Rightarrow> (bytes \<Rightarrow> bytes \<Rightarrow> bytes) \<Rightarrow> bytes \<Rightarrow> string \<Rightarrow> MediaPipeline \<Rightarrow> key_error + MediaPipeline" where
  "RekeyRecvFromRawPreservingROC hkdf aes rawE2E peerJID p =
     bind_res (DeriveE2eKeysFromRaw hkdf aes rawE2E (FormatE2ESrtpParticipantID peerJID)) (\<lambda>keys. Inr (installRecvKeysPreservingROC keys p))"

definition ProtectRTP ::
  "(bytes \<Rightarrow> bytes \<Rightarrow> bytes) \<Rightarrow> (bytes \<Rightarrow> bytes \<Rightarrow> bytes) \<Rightarrow> MediaPipeline \<Rightarrow> RtpHeader \<Rightarrow> bytes \<Rightarrow> bytes \<times> MediaPipeline" where
  "ProtectRTP aes hmac p header payload =
     (let (roc, t) = Advance (sendRoc p) (SequenceNumber header);
          packet = EncodeRtpHeader header;
          encrypted = CryptPayload aes (sendKeys p) (Ssrc header) (SequenceNumber header) roc payload;
          packet = packet @ encrypted;
          out = AppendWarpMITag hmac (AuthKey (sendKeys p)) packet roc (warpMITagLen p)
      in (out, p\<lparr>sendRoc := t, packetsSent := packetsSent p + 1, octetsSent := octetsSent p + of_nat (length payload),
                 rtpTimestamp := Timestamp header\<rparr>))"

definition ProtectAudio ::
  "(bytes \<Rightarrow> bytes \<Rightarrow> bytes) \<Rightarrow> (bytes \<Rightarrow> bytes \<Rightarrow> bytes) \<Rightarrow> MediaPipeline \<Rightarrow> bytes \<Rightarrow> bytes \<times> MediaPipeline" where
  "ProtectAudio aes hmac p opusPayload =
     (let (header, s) = NextPacket (mp_stream p) opusPayload False;
          p = p\<lparr>mp_stream := s\<rparr>;
          (roc, t) = Advance (sendRoc p) (SequenceNumber header);
          packet = EncodeRtpHeader header;
          encrypted = CryptPayload aes (sendKeys p) (Ssrc header) (SequenceNumber header) roc opusPayload;
          packet = packet @ encrypted;
          out = AppendWarpMITag hmac (AuthKey (sendKeys p)) packet roc (warpMITagLen p)
      in (out, p\<lparr>sendRoc := t, packetsSent := packetsSent p + 1, octetsSent := octetsSent p + of_nat (length opusPayload),
                 rtpTimestamp := Timestamp header\<rparr>))"

definition SenderStats :: "MediaPipeline \<Rightarrow> RtcpSenderStats" where
  "SenderStats p = \<lparr>PacketsSent = packetsSent p, OctetsSent = octetsSent p, RtpTimestamp = rtpTimestamp p\<rparr>"

definition UnprotectAudio ::
  "(bytes \<Rightarrow> bytes \<Rightarrow> bytes) \<Rightarrow> (bytes \<Rightarrow> bytes \<Rightarrow> bytes) \<Rightarrow> MediaPipeline \<Rightarrow> bytes \<Rightarrow> (RtpHeader \<times> bytes) option \<times> MediaPipeline" where
  "UnprotectAudio aes hmac p packet =
     (if length packet < 12 + warpMITagLen p then (None, p)
      else
        let withoutTag = take (length packet - warpMITagLen p) packet
        in case ParseRtpHeader withoutTag of
             None \<Rightarrow> (None, p)
           | Some header \<Rightarrow>
               (case RtpHeaderByteLength withoutTag of
                  None \<Rightarrow> (None, p)
                | Some headerLen \<Rightarrow>
                    if length withoutTag \<le> headerLen then (None, p)
                    else
                      let roc = EstimateRoc (recvRoc p) (SequenceNumber header);
                          tag = drop (length withoutTag) packet
                      in if \<not> VerifyWarpMITag hmac (AuthKey (recvKeys p)) withoutTag roc (int (warpMITagLen p)) tag then (None, p)
                         else
                           let p = p\<lparr>recvRoc := CommitRoc (recvRoc p) roc (SequenceNumber header)\<rparr>;
                               plain = CryptPayload aes (recvKeys p) (Ssrc header) (SequenceNumber header) roc (drop headerLen withoutTag)
                           in (Some (header, plain), p)))"

section \<open>Delivery\<close>

text \<open>A packet on the wire.\<close>

definition wire ::
  "(bytes \<Rightarrow> bytes \<Rightarrow> bytes) \<Rightarrow> (bytes \<Rightarrow> bytes \<Rightarrow> bytes) \<Rightarrow> E2eSrtpKeys \<Rightarrow> RtpHeader \<Rightarrow> u32 \<Rightarrow> bytes \<Rightarrow> bytes" where
  "wire aes hmac keys h roc payload =
     AppendWarpMITag hmac (AuthKey keys) (EncodeRtpHeader h @ CryptPayload aes keys (Ssrc h) (SequenceNumber h) roc payload) roc WarpMITagLen"

lemma unprotect_wire:
  assumes "\<forall>k c. length (aes k c) = 16" "\<forall>k m. length (hmac k m) = 20" "warpMITagLen p = WarpMITagLen"
    and "PayloadType h < 128" "payload \<noteq> []" "EstimateRoc (recvRoc p) (SequenceNumber h) = roc"
  shows "UnprotectAudio aes hmac p (wire aes hmac (recvKeys p) h roc payload) =
    (Some (h\<lparr>ExtensionWord := None\<rparr>, payload), p\<lparr>recvRoc := CommitRoc (recvRoc p) roc (SequenceNumber h)\<rparr>)"
proof -
  let ?c = "CryptPayload aes (recvKeys p) (Ssrc h) (SequenceNumber h) roc payload"
  let ?body = "EncodeRtpHeader h @ ?c"
  define tag where "tag = ComputeWarpMITag hmac (AuthKey (recvKeys p)) ?body roc 4"
  have tag: "length tag = 4" using assms(2) by (simp add: tag_def ComputeWarpMITag_def)
  have hdr: "RtpHeaderByteLength ?body = Some (ByteSize h)" "length (EncodeRtpHeader h) = ByteSize h" "ParseRtpHeader ?body = Some (h\<lparr>ExtensionWord := None\<rparr>)"
    using header_parses [OF assms(4), of ?c] by simp_all
  have wire: "wire aes hmac (recvKeys p) h roc payload = ?body @ tag" by (simp add: wire_def AppendWarpMITag_def tag_def WarpMITagLen_def)
  have len: "length ?c = length payload" "0 < length payload" "16 \<le> ByteSize h"
    using assms(1,5) length_CryptPayload by (simp_all add: ByteSize_ext)
  have verify: "VerifyWarpMITag hmac (AuthKey (recvKeys p)) ?body roc 4 tag" using tag by (simp add: VerifyWarpMITag_def tag_def)
  have cut: "take (length (?body @ tag) - 4) (?body @ tag) = ?body" "drop (length ?body) (?body @ tag) = tag" using tag by simp_all
  show ?thesis unfolding wire UnprotectAudio_def assms(3) WarpMITagLen_def cut Let_def hdr(1,3) option.case
    using len hdr(2) verify tag CryptPayload_twice [OF assms(1)] assms(6) by (simp add: cut(2))
qed

lemma protect_wire:
  assumes "warpMITagLen p = WarpMITagLen" "NextPacket (mp_stream p) payload False = (h, s)" "Advance (sendRoc p) (SequenceNumber h) = (roc, t)"
  shows "ProtectAudio aes hmac p payload = (wire aes hmac (sendKeys p) h roc payload,
    p\<lparr>mp_stream := s, sendRoc := t, packetsSent := packetsSent p + 1, octetsSent := octetsSent p + of_nat (length payload), rtpTimestamp := Timestamp h\<rparr>)"
  using assms by (simp add: ProtectAudio_def wire_def Let_def)

fun protect_all ::
  "(bytes \<Rightarrow> bytes \<Rightarrow> bytes) \<Rightarrow> (bytes \<Rightarrow> bytes \<Rightarrow> bytes) \<Rightarrow> MediaPipeline \<Rightarrow> bytes list \<Rightarrow> bytes list \<times> MediaPipeline" where
  "protect_all aes hmac p [] = ([], p)"
| "protect_all aes hmac p (x # xs) = (case ProtectAudio aes hmac p x of (w, p) \<Rightarrow> (case protect_all aes hmac p xs of (ws, p) \<Rightarrow> (w # ws, p)))"

fun unprotect_all ::
  "(bytes \<Rightarrow> bytes \<Rightarrow> bytes) \<Rightarrow> (bytes \<Rightarrow> bytes \<Rightarrow> bytes) \<Rightarrow> MediaPipeline \<Rightarrow> bytes list \<Rightarrow> (RtpHeader \<times> bytes) option list" where
  "unprotect_all aes hmac p [] = []"
| "unprotect_all aes hmac p (w # ws) = (case UnprotectAudio aes hmac p w of (r, p) \<Rightarrow> r # unprotect_all aes hmac p ws)"

lemma NextPacket_fixed:
  "Ssrc (fst (NextPacket s p m)) = a_ssrc s" "PayloadType (fst (NextPacket s p m)) = 120" "a_ssrc (snd (NextPacket s p m)) = a_ssrc s"
  by (auto simp: NextPacket_def RtpPayloadTypeOpus_def resolveWarpExtension_def Let_def split: prod.splits)

lemma audio_run_nth:
  "i < length ps \<Longrightarrow> SequenceNumber (audio_run s ps ! i) = a_seq s + of_nat i \<and> PayloadType (audio_run s ps ! i) < 128"
proof (induction ps arbitrary: s i)
  case (Cons p ps)
  obtain h s' where nxt: "NextPacket s p False = (h, s')" by fastforce
  have "SequenceNumber h = a_seq s" "a_seq s' = a_seq s + 1" "PayloadType h = 120"
    using NextPacket_header [of s p False] NextPacket_fixed [of s p False] by (simp_all add: nxt)
  moreover have "(120 :: u8) < 128" by (simp add: word_less_nat_alt)
  ultimately show ?case using Cons.IH [of _ s'] Cons.prems by (cases i) (simp_all add: nxt)
qed simp

lemma protect_tracked:
  assumes "warpMITagLen p = WarpMITagLen" "send_tracks (sendRoc p) c0 e" "a_seq (mp_stream p) = of_nat (Suc e)"
  shows "fst (protect_all aes hmac p ps) =
      map (\<lambda>i. wire aes hmac (sendKeys p) (audio_run (mp_stream p) ps ! i) (of_nat ((Suc e + i) div 65536 - c0)) (ps ! i)) [0..<length ps]"
  using assms
proof (induction ps arbitrary: p e)
  case (Cons x ps)
  obtain h s where nxt: "NextPacket (mp_stream p) x False = (h, s)" by fastforce
  have h: "SequenceNumber h = of_nat (Suc e)" "a_seq s = of_nat (Suc (Suc e))"
    using NextPacket_header [of "mp_stream p" x False] Cons.prems(3) by (simp_all add: nxt)
  obtain roc t where a: "Advance (sendRoc p) (of_nat (Suc e)) = (roc, t)" by fastforce
  then have t: "roc = of_nat (Suc e div 65536 - c0)" "send_tracks t c0 (Suc e)" using Advance_tracks [OF Cons.prems(2)] by simp_all
  define p' where "p' = p\<lparr>mp_stream := s, sendRoc := t, packetsSent := packetsSent p + 1, octetsSent := octetsSent p + of_nat (length x), rtpTimestamp := Timestamp h\<rparr>"
  have run: "ProtectAudio aes hmac p x = (wire aes hmac (sendKeys p) h roc x, p')"
    using protect_wire [OF Cons.prems(1) nxt] a h(1) by (simp add: p'_def)
  have "fst (protect_all aes hmac p' ps) =
      map (\<lambda>i. wire aes hmac (sendKeys p) (audio_run s ps ! i) (of_nat ((Suc (Suc e) + i) div 65536 - c0)) (ps ! i)) [0..<length ps]"
    using Cons.IH [of p' "Suc e"] Cons.prems(1) t(2) h(2) by (simp add: p'_def)
  then show ?case using run nxt t(1)
    by (simp add: upt_conv_Cons map_Suc_upt [symmetric] case_prod_beta del: upt_Suc of_nat_Suc)
qed simp

lemma protect_nth:
  assumes "warpMITagLen p = WarpMITagLen" "sendRoc p = new_send_roc" "a_seq (mp_stream p) = of_nat e" "i < length ps"
  shows "fst (protect_all aes hmac p ps) ! i = wire aes hmac (sendKeys p) (audio_run (mp_stream p) ps ! i) (of_nat ((e + i) div 65536 - e div 65536)) (ps ! i)"
proof -
  obtain x xs where ps: "ps = x # xs" using assms(4) by (cases ps) auto
  obtain h s where nxt: "NextPacket (mp_stream p) x False = (h, s)" by fastforce
  have h: "SequenceNumber h = of_nat e" "a_seq s = of_nat (Suc e)"
    using NextPacket_header [of "mp_stream p" x False] assms(3) by (simp_all add: nxt)
  define t where "t = new_send_roc\<lparr>lastSeq := of_nat e, send_initialized := True\<rparr>"
  have a: "Advance (sendRoc p) (of_nat e) = (0, t)" by (simp add: Advance_def assms(2) new_send_roc_def t_def)
  have t: "send_tracks t (e div 65536) e" by (simp add: send_tracks_def t_def new_send_roc_def)
  define p' where "p' = p\<lparr>mp_stream := s, sendRoc := t, packetsSent := packetsSent p + 1, octetsSent := octetsSent p + of_nat (length x), rtpTimestamp := Timestamp h\<rparr>"
  have run: "ProtectAudio aes hmac p x = (wire aes hmac (sendKeys p) h 0 x, p')"
    using protect_wire [OF assms(1) nxt] a h(1) by (simp add: p'_def)
  have "fst (protect_all aes hmac p' xs) =
      map (\<lambda>i. wire aes hmac (sendKeys p) (audio_run s xs ! i) (of_nat ((Suc e + i) div 65536 - e div 65536)) (xs ! i)) [0..<length xs]"
    using protect_tracked [of p' "e div 65536" e aes hmac xs] assms(1) t h(2) by (simp add: p'_def)
  then show ?thesis using run nxt assms(4) by (cases i) (simp_all add: ps case_prod_beta)
qed

lemma stats_exact:
  assumes "warpMITagLen p = WarpMITagLen"
  shows "packetsSent (snd (protect_all aes hmac p ps)) = packetsSent p + of_nat (length ps) \<and>
    octetsSent (snd (protect_all aes hmac p ps)) = octetsSent p + of_nat (sum_list (map length ps)) \<and>
    rtpTimestamp (snd (protect_all aes hmac p ps)) = (if ps = [] then rtpTimestamp p else Timestamp (last (audio_run (mp_stream p) ps)))"
  using assms
proof (induction ps arbitrary: p)
  case (Cons x ps)
  obtain h s where nxt: "NextPacket (mp_stream p) x False = (h, s)" by fastforce
  obtain roc t where a: "Advance (sendRoc p) (SequenceNumber h) = (roc, t)" by fastforce
  define p' where "p' = p\<lparr>mp_stream := s, sendRoc := t, packetsSent := packetsSent p + 1, octetsSent := octetsSent p + of_nat (length x), rtpTimestamp := Timestamp h\<rparr>"
  note run = protect_wire [OF Cons.prems nxt a, of aes hmac, folded p'_def]
  have IH: "warpMITagLen p' = WarpMITagLen" using Cons.prems by (simp add: p'_def)
  have "audio_run s ps = [] \<longleftrightarrow> ps = []" by (cases ps) (simp_all split: prod.split)
  then show ?case
    using Cons.IH [OF IH] by (simp add: run nxt case_prod_beta) (simp add: p'_def)
qed simp

lemma unprotect_tracked:
  assumes "\<forall>k c. length (aes k c) = 16" "\<forall>k m. length (hmac k m) = 20" "warpMITagLen q = WarpMITagLen"
    and hf: "\<And>e. e \<in> set es \<Longrightarrow> SequenceNumber (hf e) = of_nat e \<and> PayloadType (hf e) < 128 \<and> f e \<noteq> [] \<and> c0 \<le> e div 65536"
    and "recv_tracks (recvRoc q) c0 h" "near h es"
  shows "unprotect_all aes hmac q (map (\<lambda>e. wire aes hmac (recvKeys q) (hf e) (of_nat (e div 65536 - c0)) (f e)) es) =
    map (\<lambda>e. Some ((hf e)\<lparr>ExtensionWord := None\<rparr>, f e)) es"
  using assms(3-6)
proof (induction es arbitrary: q h)
  case (Cons e es)
  have e: "e < h + 32768" "h < e + 32768" "c0 \<le> e div 65536" "SequenceNumber (hf e) = of_nat e" "PayloadType (hf e) < 128" "f e \<noteq> []"
    using Cons.prems by auto
  define q' where "q' = q\<lparr>recvRoc := CommitRoc (recvRoc q) (of_nat (e div 65536 - c0)) (of_nat e)\<rparr>"
  have "UnprotectAudio aes hmac q (wire aes hmac (recvKeys q) (hf e) (of_nat (e div 65536 - c0)) (f e)) = (Some ((hf e)\<lparr>ExtensionWord := None\<rparr>, f e), q')"
    unfolding q'_def e(4) [symmetric]
    using EstimateRoc_tracks [OF Cons.prems(3) e(1-3)] by (intro unprotect_wire assms(1,2) Cons.prems(1) e(5,6)) (simp add: e(4))
  moreover have "recv_tracks (recvRoc q') c0 (max h e)" using CommitRoc_tracks [OF Cons.prems(3) e(1-3)] by (simp add: q'_def)
  from Cons.IH [OF _ _ this] have "unprotect_all aes hmac q' (map (\<lambda>e. wire aes hmac (recvKeys q) (hf e) (of_nat (e div 65536 - c0)) (f e)) es) =
    map (\<lambda>e. Some ((hf e)\<lparr>ExtensionWord := None\<rparr>, f e)) es"
    using Cons.prems by (simp add: q'_def)
  ultimately show ?case by simp
qed simp

text \<open>
  C4: a call is heard. Two participants derive their pipelines from the same call key, each with the other as its
  peer. Whatever Opus payloads one protects (none of them empty), whatever the network then loses, duplicates or
  reorders within half the sequence number space, provided the first packet to arrive was sent before the first
  wrap-around, the other authenticates every packet that arrives and recovers its header and payload. The sender's counters report exactly what was sent.
\<close>

theorem media_pipeline_delivers:
  assumes "\<forall>k c. length (aes k c) = 16" "\<forall>k m. length (hmac k m) = 20"
    and "NewMediaPipeline hkdf aes callKey alice bob ssrc samples = Inr a" "NewMediaPipeline hkdf aes callKey bob alice ssrc' samples' = Inr b"
    and "\<forall>p \<in> set ps. p \<noteq> []" "\<forall>i \<in> set (i0 # is). i < length ps" "i0 < 65535" "near i0 is"
  shows "unprotect_all aes hmac b (map (\<lambda>i. fst (protect_all aes hmac a ps) ! i) (i0 # is)) =
    map (\<lambda>i. Some ((audio_run (NewRtpStream ssrc samples False) ps ! i)\<lparr>ExtensionWord := None\<rparr>, ps ! i)) (i0 # is) \<and>
    SenderStats (snd (protect_all aes hmac a ps)) = \<lparr>PacketsSent = of_nat (length ps), OctetsSent = of_nat (sum_list (map length ps)),
      RtpTimestamp = Timestamp (last (audio_run (NewRtpStream ssrc samples False) ps))\<rparr>"
proof -
  let ?s = "NewRtpStream ssrc samples False" and ?hd = "\<lambda>e. audio_run (NewRtpStream ssrc samples False) ps ! (e - 1)" and ?f = "\<lambda>e. ps ! (e - 1)"
  have a: "warpMITagLen a = WarpMITagLen" "sendRoc a = new_send_roc" "mp_stream a = ?s" "a_seq ?s = of_nat 1"
    and b: "warpMITagLen b = WarpMITagLen" "recvRoc b = new_recv_roc" "recvKeys b = sendKeys a"
    using assms(3,4) by (auto simp: NewMediaPipeline_def NewRtpStream_def res_elims)
  have sent: "fst (protect_all aes hmac a ps) ! i = wire aes hmac (recvKeys b) (?hd (1 + i)) (of_nat ((1 + i) div 65536 - 0)) (?f (1 + i))" if "i < length ps" for i
    using protect_nth [OF a(1,2) _ that, of 1] a(3,4) b(3) by simp
  have hd: "SequenceNumber (?hd e) = of_nat e \<and> PayloadType (?hd e) < 128 \<and> ?f e \<noteq> []" if "1 \<le> e" "e \<le> length ps" for e
    using audio_run_nth [of "e - 1" ps ?s] that assms(5) by (auto simp: NewRtpStream_def of_nat_diff)
  define b' where "b' = b\<lparr>recvRoc := CommitRoc (recvRoc b) 0 (of_nat (1 + i0))\<rparr>"
  have i0: "1 + i0 \<le> length ps" "(1 + i0) div 65536 = 0" using assms(6,7) by auto
  have first: "UnprotectAudio aes hmac b (fst (protect_all aes hmac a ps) ! i0) = (Some ((?hd (1 + i0))\<lparr>ExtensionWord := None\<rparr>, ?f (1 + i0)), b')"
    using unprotect_wire [OF assms(1,2) b(1), of "?hd (1 + i0)" "?f (1 + i0)" 0] hd [OF _ i0(1)] sent [of i0] i0
    by (simp add: b'_def b(2) EstimateRoc_def new_recv_roc_def)
  have tracks: "recv_tracks (recvRoc b') 0 (1 + i0)"
    using i0(2) by (simp add: b'_def b(2) CommitRoc_def new_recv_roc_def recv_tracks_def)
  have later: "SequenceNumber (?hd e) = of_nat e \<and> PayloadType (?hd e) < 128 \<and> ?f e \<noteq> [] \<and> 0 \<le> e div 65536" if "e \<in> set (map ((+) 1) is)" for e
    using hd [of e] that assms(6) by auto
  have b': "warpMITagLen b' = WarpMITagLen" "recvKeys b' = recvKeys b" using b(1) by (simp_all add: b'_def)
  have "unprotect_all aes hmac b' (map (\<lambda>e. wire aes hmac (recvKeys b) (?hd e) (of_nat (e div 65536 - 0)) (?f e)) (map ((+) 1) is)) =
      map (\<lambda>e. Some ((?hd e)\<lparr>ExtensionWord := None\<rparr>, ?f e)) (map ((+) 1) is)"
    by (rule unprotect_tracked [OF assms(1,2) b'(1) later tracks near_shift [OF assms(8)], unfolded b'(2)])
  moreover have eq: "map (\<lambda>i. fst (protect_all aes hmac a ps) ! i) is =
      map (\<lambda>e. wire aes hmac (recvKeys b) (?hd e) (of_nat (e div 65536 - 0)) (?f e)) (map ((+) 1) is)"
    using sent assms(6) by simp
  ultimately have "unprotect_all aes hmac b' (map (\<lambda>i. fst (protect_all aes hmac a ps) ! i) is) = map (\<lambda>i. Some ((?hd (1 + i))\<lparr>ExtensionWord := None\<rparr>, ?f (1 + i))) is"
    unfolding eq by (simp only: map_map comp_def)
  then show ?thesis using first stats_exact [OF a(1), of aes hmac ps] i0(1) a(3) assms(3)
    by (auto simp: SenderStats_def NewMediaPipeline_def res_elims)
qed

theorem media_pipeline_delivers_witness:
  "\<exists>a b. NewMediaPipeline (\<lambda>_ _ _ n. replicate n 5) toy_aes (replicate 32 1) ''a@lid'' ''b@lid'' 7 960 = Inr a \<and>
     NewMediaPipeline (\<lambda>_ _ _ n. replicate n 5) toy_aes (replicate 32 1) ''b@lid'' ''a@lid'' 8 960 = Inr b \<and>
     map (map_option snd) (unprotect_all toy_aes toy_hmac b (map (\<lambda>i. fst (protect_all toy_aes toy_hmac a [[1], [2], [3]]) ! i) [1, 0])) = [Some [2], Some [1]]"
proof -
  let ?hkdf = "\<lambda>_ _ _ n. replicate n 5"
  obtain a b where "NewMediaPipeline ?hkdf toy_aes (replicate 32 1) ''a@lid'' ''b@lid'' 7 960 = Inr a"
      "NewMediaPipeline ?hkdf toy_aes (replicate 32 1) ''b@lid'' ''a@lid'' 8 960 = Inr b"
    by (simp add: NewMediaPipeline_def DeriveE2eKeys_def HKDFSHA256_def)
  with media_pipeline_delivers [OF _ _ this, of toy_hmac "[[1], [2], [3]]" 1 "[0]"] show ?thesis by (auto simp: toy_lengths)
qed

text \<open>
  only authenticated packets count. Whatever bytes arrive: if the pipeline accepts them, they end with the
  integrity tag of the rest under the peer's key and the rollover counter estimated for the packet, the header is
  the one in front, and only the receiver's rollover counter moved; if it rejects them, nothing has changed.
\<close>

theorem unprotect_authenticates:
  assumes "warpMITagLen p = WarpMITagLen"
  shows "case UnprotectAudio aes hmac p packet of
      (None, p') \<Rightarrow> p' = p
    | (Some (h, plain), p') \<Rightarrow> p' = p\<lparr>recvRoc := CommitRoc (recvRoc p) (EstimateRoc (recvRoc p) (SequenceNumber h)) (SequenceNumber h)\<rparr> \<and>
        (\<exists>body. packet = body @ ComputeWarpMITag hmac (AuthKey (recvKeys p)) body (EstimateRoc (recvRoc p) (SequenceNumber h)) WarpMITagLen \<and>
           ParseRtpHeader body = Some h)"
proof -
  let ?n = "length packet - WarpMITagLen"
  have "packet = take ?n packet @ drop ?n packet" by simp
  then show ?thesis using assms
    by (auto simp: UnprotectAudio_def VerifyWarpMITag_def Let_def min_def split: option.splits if_splits intro!: exI [of _ "take ?n packet"])
qed

theorem unprotect_authenticates_witness:
  "snd (UnprotectAudio toy_aes toy_hmac \<lparr>sendKeys = \<lparr>CipherKey = [], Salt = [], AuthKey = []\<rparr>, recvKeys = \<lparr>CipherKey = [], Salt = [], AuthKey = []\<rparr>,
      warpMITagLen = WarpMITagLen, mp_stream = NewRtpStream 7 960 False, sendRoc = new_send_roc, recvRoc = new_recv_roc,
      packetsSent = 0, octetsSent = 0, rtpTimestamp = 0\<rparr> [1, 2, 3]) =
    \<lparr>sendKeys = \<lparr>CipherKey = [], Salt = [], AuthKey = []\<rparr>, recvKeys = \<lparr>CipherKey = [], Salt = [], AuthKey = []\<rparr>,
      warpMITagLen = WarpMITagLen, mp_stream = NewRtpStream 7 960 False, sendRoc = new_send_roc, recvRoc = new_recv_roc,
      packetsSent = 0, octetsSent = 0, rtpTimestamp = 0\<rparr>"
  using unprotect_authenticates [where p = "\<lparr>sendKeys = \<lparr>CipherKey = [], Salt = [], AuthKey = []\<rparr>, recvKeys = \<lparr>CipherKey = [], Salt = [], AuthKey = []\<rparr>,
      warpMITagLen = WarpMITagLen, mp_stream = NewRtpStream 7 960 False, sendRoc = new_send_roc, recvRoc = new_recv_roc,
      packetsSent = 0, octetsSent = 0, rtpTimestamp = 0\<rparr>" and aes = toy_aes and hmac = toy_hmac and packet = "[1, 2, 3]"]
  by (simp add: UnprotectAudio_def)

end
