(* ===== verification/Call_Session.thy ===== *)
theory Call_Session
  imports JIDs "HOL-Library.AList"
begin

text \<open>
  Call sessions and the call registry: the phases of a call and their transitions
  (\<open>lib/call_crypto_session.go\<close>), and the table of active calls with the cancel handles of their media
  tasks (\<open>lib/call_registry.go\<close>). A cancel handle is a value of a type \<open>'h\<close>; invoking it adds it to the
  set \<open>cancelled\<close>. The table is an association list whose keys are distinct; the order in which the code
  walks its map does not show, because it only collects handles.
\<close>

section \<open>Phases\<close>

datatype CallDirection = CallDirectionOutgoing | CallDirectionIncoming

datatype CallPhase = CallPhaseIdle | CallPhaseCalling | CallPhaseRinging | CallPhaseConnecting | CallPhaseActive
  | CallPhaseEnded | CallPhaseWaitingRoom

record CallSession =
  CallID :: string
  PeerJID :: JID
  CallCreator :: JID
  Direction :: CallDirection
  IsVideo :: bool
  cs_phase :: CallPhase

definition NewOutgoingSession :: "string \<Rightarrow> JID \<Rightarrow> JID \<Rightarrow> CallSession" where
  "NewOutgoingSession callID peerJID callCreator =
     \<lparr>CallID = callID, PeerJID = peerJID, CallCreator = callCreator, Direction = CallDirectionOutgoing, IsVideo = False, cs_phase = CallPhaseIdle\<rparr>"

definition NewIncomingSession :: "string \<Rightarrow> JID \<Rightarrow> JID \<Rightarrow> CallSession" where
  "NewIncomingSession callID peerJID callCreator =
     \<lparr>CallID = callID, PeerJID = peerJID, CallCreator = callCreator, Direction = CallDirectionIncoming, IsVideo = False, cs_phase = CallPhaseRinging\<rparr>"

definition IsActive :: "CallSession \<Rightarrow> bool" where
  "IsActive s \<longleftrightarrow> cs_phase s = CallPhaseActive"

definition IsEnded :: "CallSession \<Rightarrow> bool" where
  "IsEnded s \<longleftrightarrow> cs_phase s = CallPhaseEnded"

definition TransitionTo :: "CallSession \<Rightarrow> CallPhase \<Rightarrow> bool \<times> CallSession" where
  "TransitionTo s nxt =
     (let ok =
        (if cs_phase s = CallPhaseEnded then False
         else if nxt = CallPhaseEnded then True
         else if cs_phase s = CallPhaseIdle \<and> nxt = CallPhaseCalling then Direction s = CallDirectionOutgoing
         else if cs_phase s = CallPhaseCalling \<and> nxt = CallPhaseRinging then True
         else if cs_phase s = CallPhaseRinging \<and> nxt = CallPhaseConnecting then True
         else if (cs_phase s = CallPhaseCalling \<or> cs_phase s = CallPhaseConnecting) \<and> nxt = CallPhaseWaitingRoom then True
         else if cs_phase s = CallPhaseWaitingRoom \<and> nxt = CallPhaseConnecting then True
         else if cs_phase s = CallPhaseConnecting \<and> nxt = CallPhaseActive then True
         else if cs_phase s = nxt then True
         else False)
      in (ok, if ok then s\<lparr>cs_phase := nxt\<rparr> else s))"

primrec phaseName :: "CallPhase \<Rightarrow> string" where
  "phaseName CallPhaseIdle = ''idle''"
| "phaseName CallPhaseCalling = ''calling''"
| "phaseName CallPhaseRinging = ''ringing''"
| "phaseName CallPhaseConnecting = ''connecting''"
| "phaseName CallPhaseActive = ''active''"
| "phaseName CallPhaseEnded = ''ended''"
| "phaseName CallPhaseWaitingRoom = ''waiting_room''"

text \<open>Requests to move a session, in any order; the phases it goes through.\<close>

fun phases :: "CallSession \<Rightarrow> CallPhase list \<Rightarrow> CallPhase list" where
  "phases s [] = [cs_phase s]"
| "phases s (p # ps) = cs_phase s # phases (snd (TransitionTo s p)) ps"

primrec rank :: "CallPhase \<Rightarrow> nat" where
  "rank CallPhaseIdle = 0"
| "rank CallPhaseCalling = 1"
| "rank CallPhaseRinging = 2"
| "rank CallPhaseConnecting = 3"
| "rank CallPhaseWaitingRoom = 3"
| "rank CallPhaseActive = 4"
| "rank CallPhaseEnded = 5"

text \<open>A call never goes back, and a call that became active was connecting just before.\<close>

fun phase_order :: "CallPhase list \<Rightarrow> bool" where
  "phase_order (p # q # ps) \<longleftrightarrow> rank p \<le> rank q \<and> (q = CallPhaseActive \<longrightarrow> p \<in> {CallPhaseActive, CallPhaseConnecting}) \<and>
     (p = CallPhaseEnded \<longrightarrow> q = CallPhaseEnded) \<and> phase_order (q # ps)"
| "phase_order _ \<longleftrightarrow> True"

definition legal :: "CallDirection \<Rightarrow> CallPhase \<Rightarrow> CallPhase \<Rightarrow> bool" where
  "legal d p q \<longleftrightarrow> p \<noteq> CallPhaseEnded \<and>
     (q = CallPhaseEnded \<or> p = q \<or> p = CallPhaseIdle \<and> q = CallPhaseCalling \<and> d = CallDirectionOutgoing \<or>
      p = CallPhaseCalling \<and> q \<in> {CallPhaseRinging, CallPhaseWaitingRoom} \<or> p = CallPhaseRinging \<and> q = CallPhaseConnecting \<or>
      p = CallPhaseConnecting \<and> q \<in> {CallPhaseWaitingRoom, CallPhaseActive} \<or> p = CallPhaseWaitingRoom \<and> q = CallPhaseConnecting)"

lemma TransitionTo_legal:
  "TransitionTo s p = (legal (Direction s) (cs_phase s) p, if legal (Direction s) (cs_phase s) p then s\<lparr>cs_phase := p\<rparr> else s)"
  by (cases "cs_phase s"; cases p) (simp_all add: TransitionTo_def legal_def)

lemma rank_le: "rank p \<le> 5"
  by (cases p) simp_all

lemma legal_phases:
  assumes "legal d p q"
  shows "rank p \<le> rank q" "q = CallPhaseActive \<Longrightarrow> p \<in> {CallPhaseActive, CallPhaseConnecting}" "p \<noteq> CallPhaseEnded"
  using assms by (auto simp: legal_def rank_le)

lemma TransitionTo_phase:
  assumes "TransitionTo s p = (ok, s')"
  shows "rank (cs_phase s) \<le> rank (cs_phase s')" "cs_phase s' = CallPhaseActive \<Longrightarrow> cs_phase s \<in> {CallPhaseActive, CallPhaseConnecting}"
    "cs_phase s = CallPhaseEnded \<Longrightarrow> s' = s" "Direction s' = Direction s" "CallID s' = CallID s"
  using assms legal_phases [of "Direction s" "cs_phase s" p] by (auto simp: TransitionTo_legal split: if_splits)

lemma phases_Cons: "\<exists>qs. phases s ps = cs_phase s # qs"
  by (cases ps) auto

lemma phases_ordered: "phase_order (phases s ps)"
proof (induction ps arbitrary: s)
  case (Cons p ps)
  obtain ok s' where t: "TransitionTo s p = (ok, s')" by fastforce
  obtain qs where q: "phases s' ps = cs_phase s' # qs" using phases_Cons by blast
  show ?case using Cons [of s'] TransitionTo_phase [OF t] by (auto simp: t q)
qed simp

lemma incoming_phases:
  assumes "Direction s = CallDirectionIncoming" "cs_phase s \<noteq> CallPhaseIdle" "cs_phase s \<noteq> CallPhaseCalling"
  shows "CallPhaseIdle \<notin> set (phases s ps) \<and> CallPhaseCalling \<notin> set (phases s ps)"
  using assms
proof (induction ps arbitrary: s)
  case (Cons p ps)
  obtain ok s' where t: "TransitionTo s p = (ok, s')" by fastforce
  have "2 \<le> rank (cs_phase s)" using Cons.prems(2,3) by (cases "cs_phase s") auto
  then have "2 \<le> rank (cs_phase s')" using TransitionTo_phase(1) [OF t] by simp
  then have "cs_phase s' \<noteq> CallPhaseIdle" "cs_phase s' \<noteq> CallPhaseCalling" by auto
  then show ?case using Cons TransitionTo_phase(4) [OF t] by (simp add: t)
qed simp

text \<open>
  the life of a call. Whatever transitions are requested of a new session, in whatever order, the phases it
  goes through never go back, it becomes active only out of the connecting phase, once ended it stays ended, and an
  incoming call is never in a phase of an outgoing one.
\<close>

theorem call_phases_ordered:
  "phase_order (phases (NewOutgoingSession c peer creator) ps) \<and> phase_order (phases (NewIncomingSession c peer creator) ps) \<and>
   CallPhaseIdle \<notin> set (phases (NewIncomingSession c peer creator) ps) \<and> CallPhaseCalling \<notin> set (phases (NewIncomingSession c peer creator) ps)"
  using incoming_phases [of "NewIncomingSession c peer creator" ps] by (simp add: phases_ordered NewIncomingSession_def)

section \<open>Registry\<close>

record 'h callEntry =
  session :: CallSession
  mediaTask :: "'h option"

record 'h CallRegistry =
  calls :: "(string \<times> 'h callEntry) list"
  cancelled :: "'h set"

definition NewCallRegistry :: "'h CallRegistry" where
  "NewCallRegistry = \<lparr>calls = [], cancelled = {}\<rparr>"

definition cancel :: "'h option \<Rightarrow> 'h CallRegistry \<Rightarrow> 'h CallRegistry" where
  "cancel h r = (case h of None \<Rightarrow> r | Some h \<Rightarrow> r\<lparr>cancelled := insert h (cancelled r)\<rparr>)"

definition Insert :: "CallSession \<Rightarrow> 'h CallRegistry \<Rightarrow> bool \<times> 'h CallRegistry" where
  "Insert s r =
     (if map_of (calls r) (CallID s) \<noteq> None then (False, r)
      else (True, r\<lparr>calls := AList.update (CallID s) \<lparr>session = s, mediaTask = None\<rparr> (calls r)\<rparr>))"

definition SetMediaTask :: "string \<Rightarrow> 'h \<Rightarrow> 'h CallRegistry \<Rightarrow> 'h CallRegistry" where
  "SetMediaTask callID h r =
     (case map_of (calls r) callID of
        None \<Rightarrow> cancel (Some h) r
      | Some entry \<Rightarrow> cancel (mediaTask entry) (r\<lparr>calls := AList.update callID (entry\<lparr>mediaTask := Some h\<rparr>) (calls r)\<rparr>))"

definition Phase :: "string \<Rightarrow> 'h CallRegistry \<Rightarrow> CallPhase \<times> bool" where
  "Phase callID r = (case map_of (calls r) callID of Some entry \<Rightarrow> (cs_phase (session entry), True) | None \<Rightarrow> (CallPhaseIdle, False))"

definition Transition :: "string \<Rightarrow> CallPhase \<Rightarrow> 'h CallRegistry \<Rightarrow> bool \<times> 'h CallRegistry" where
  "Transition callID nxt r =
     (case map_of (calls r) callID of
        None \<Rightarrow> (False, r)
      | Some entry \<Rightarrow> (case TransitionTo (session entry) nxt of (ok, s) \<Rightarrow>
          (ok, r\<lparr>calls := AList.update callID (entry\<lparr>session := s\<rparr>) (calls r)\<rparr>)))"

definition Snapshot :: "string \<Rightarrow> 'h CallRegistry \<Rightarrow> CallSession option" where
  "Snapshot callID r = map_option session (map_of (calls r) callID)"

definition ActiveCount :: "'h CallRegistry \<Rightarrow> nat" where
  "ActiveCount r = length (calls r)"

definition RemoveCall :: "string \<Rightarrow> 'h CallRegistry \<Rightarrow> bool \<times> 'h CallRegistry" where
  "RemoveCall callID r =
     (case map_of (calls r) callID of
        None \<Rightarrow> (False, r)
      | Some entry \<Rightarrow> (True, cancel (mediaTask entry) (r\<lparr>calls := AList.delete callID (calls r)\<rparr>)))"

definition AbortAll :: "'h CallRegistry \<Rightarrow> nat \<times> 'h CallRegistry" where
  "AbortAll r = (length (calls r), fold (\<lambda>(_, entry). cancel (mediaTask entry)) (calls r) (r\<lparr>calls := []\<rparr>))"

text \<open>Any use of a registry.\<close>

datatype 'h call_op = OInsert CallSession | OSetMediaTask string 'h | OTransition string CallPhase | ORemove string | OAbortAll

primrec apply_op :: "'h call_op \<Rightarrow> 'h CallRegistry \<Rightarrow> 'h CallRegistry" where
  "apply_op (OInsert s) r = snd (Insert s r)"
| "apply_op (OSetMediaTask c h) r = SetMediaTask c h r"
| "apply_op (OTransition c p) r = snd (Transition c p r)"
| "apply_op (ORemove c) r = snd (RemoveCall c r)"
| "apply_op OAbortAll r = snd (AbortAll r)"

definition use_registry :: "'h call_op list \<Rightarrow> 'h CallRegistry" where
  "use_registry ops = fold apply_op ops NewCallRegistry"

primrec handle_of :: "'h call_op \<Rightarrow> 'h option" where
  "handle_of (OSetMediaTask c h) = Some h"
| "handle_of (OInsert s) = None"
| "handle_of (OTransition c p) = None"
| "handle_of (ORemove c) = None"
| "handle_of OAbortAll = None"

definition handles :: "'h call_op list \<Rightarrow> 'h list" where
  "handles ops = List.map_filter handle_of ops"

text \<open>The media task that each call holds.\<close>

definition task :: "'h CallRegistry \<Rightarrow> string \<Rightarrow> 'h option" where
  "task r c = Option.bind (map_of (calls r) c) mediaTask"

definition tracked :: "(string \<rightharpoonup> 'h) \<Rightarrow> 'h set \<Rightarrow> 'h set \<Rightarrow> bool" where
  "tracked T C H \<longleftrightarrow> inj_on T (dom T) \<and> ran T \<union> C = H \<and> ran T \<inter> C = {}"

lemma tracked_drop: assumes "tracked T C H" shows "tracked (T(c := None)) (C \<union> set_option (T c)) H"
proof (cases "T c")
  case None
  then have "T(c := None) = T" by auto
  then show ?thesis using assms None by simp
next
  case (Some h)
  have "ran (T(c := None)) = ran T - {h}"
  proof -
    have only: "c' = c" if "T c' = Some h" for c'
    proof (rule inj_onD [of T "dom T"])
      show "inj_on T (dom T)" using assms by (simp add: tracked_def)
      show "T c' = T c" "c' \<in> dom T" "c \<in> dom T" using that Some by auto
    qed
    show ?thesis
    proof (intro equalityI subsetI)
      fix x assume "x \<in> ran (T(c := None))"
      then obtain c' where "c' \<noteq> c" "T c' = Some x" by (auto simp: ran_def split: if_splits)
      then show "x \<in> ran T - {h}" using only by (auto simp: ran_def)
    next
      fix x assume "x \<in> ran T - {h}"
      then obtain c' where "T c' = Some x" "x \<noteq> h" by (auto simp: ran_def)
      then have "(T(c := None)) c' = Some x" using Some by auto
      then show "x \<in> ran (T(c := None))" by (rule ranI)
    qed
  qed
  moreover have "h \<in> ran T" using Some by (auto simp: ran_def)
  moreover have "inj_on (T(c := None)) (dom (T(c := None)))" using assms by (auto simp: tracked_def inj_on_def)
  ultimately show ?thesis using assms Some by (auto simp: tracked_def)
qed

lemma tracked_set:
  assumes "tracked T C H" "h \<notin> H" shows "tracked (T(c \<mapsto> h)) (C \<union> set_option (T c)) (insert h H)"
proof -
  let ?T = "T(c := None)"
  note d = tracked_drop [OF assms(1), of c]
  have "ran (?T(c \<mapsto> h)) = insert h (ran ?T)" by (rule ran_map_upd) simp
  moreover have "h \<notin> ran ?T" "h \<notin> C \<union> set_option (T c)" using d assms(2) by (auto simp: tracked_def)
  moreover have "inj_on (?T(c \<mapsto> h)) (dom (?T(c \<mapsto> h)))"
  proof (rule inj_onI)
    fix x y assume "x \<in> dom (?T(c \<mapsto> h))" "y \<in> dom (?T(c \<mapsto> h))" and eq: "(?T(c \<mapsto> h)) x = (?T(c \<mapsto> h)) y"
    moreover have "?T z \<noteq> Some h" for z using \<open>h \<notin> ran ?T\<close> ranI by metis
    then have "z \<noteq> c \<Longrightarrow> T z \<noteq> Some h" for z by (metis fun_upd_apply)
    ultimately show "x = y" using d by (auto simp: tracked_def inj_on_def split: if_splits)
  qed
  ultimately show ?thesis using d by (auto simp: tracked_def)
qed

lemma tracked_all: "tracked T C H \<Longrightarrow> tracked Map.empty (C \<union> ran T) H"
  by (auto simp: tracked_def)

definition registry_ok :: "'h CallRegistry \<Rightarrow> bool" where
  "registry_ok r \<longleftrightarrow> distinct (map fst (calls r))"

lemma cancel_simps [simp]:
  "calls (cancel h r) = calls r" "cancelled (cancel h r) = cancelled r \<union> set_option h"
  by (cases h; simp add: cancel_def)+

lemma cancel_all:
  "calls (fold (\<lambda>(_, e). cancel (mediaTask e)) es r) = calls r \<and>
   cancelled (fold (\<lambda>(_, e). cancel (mediaTask e)) es r) = cancelled r \<union> {h. \<exists>c e. (c, e) \<in> set es \<and> mediaTask e = Some h}"
proof (induction es arbitrary: r)
  case (Cons x es)
  obtain c e where x: "x = (c, e)" by fastforce
  show ?case using Cons [of "cancel (mediaTask e) r"] by (auto simp: x)
qed simp

lemma apply_op_ok: "registry_ok r \<Longrightarrow> registry_ok (apply_op opn r)"
  by (cases opn) (auto simp: registry_ok_def Insert_def SetMediaTask_def Transition_def RemoveCall_def AbortAll_def distinct_update
      cancel_all distinct_delete split: option.splits prod.splits)

lemma task_simps [simp]:
  "task (cancel h r) = task r" "task (r\<lparr>calls := AList.update c e (calls r)\<rparr>) = (task r)(c := mediaTask e)"
  "task (r\<lparr>calls := AList.delete c (calls r)\<rparr>) = (task r)(c := None)" "task (r\<lparr>calls := []\<rparr>) = Map.empty"
  by (auto simp: task_def fun_eq_iff update_conv' delete_conv' restrict_map_def)

lemma abort_all:
  assumes "registry_ok r"
  shows "task (snd (AbortAll r)) = Map.empty" "cancelled (snd (AbortAll r)) = cancelled r \<union> ran (task r)" "calls (snd (AbortAll r)) = []"
proof -
  note c = cancel_all [of "calls r" "r\<lparr>calls := []\<rparr>"]
  show "calls (snd (AbortAll r)) = []" using c by (simp add: AbortAll_def)
  then show "task (snd (AbortAll r)) = Map.empty" by (simp add: task_def fun_eq_iff)
  have "ran (task r) = {h. \<exists>c e. (c, e) \<in> set (calls r) \<and> mediaTask e = Some h}"
    using assms by (auto simp: ran_def task_def registry_ok_def bind_eq_Some_conv)
  then show "cancelled (snd (AbortAll r)) = cancelled r \<union> ran (task r)" using c by (simp add: AbortAll_def)
qed

text \<open>Every operation keeps each handle either attached to one call or cancelled.\<close>

lemma apply_op_tracked:
  assumes "registry_ok r" "tracked (task r) (cancelled r) H" "\<And>h. handle_of opn = Some h \<Longrightarrow> h \<notin> H"
  shows "tracked (task (apply_op opn r)) (cancelled (apply_op opn r)) (H \<union> set_option (handle_of opn))"
proof (cases opn)
  case (OInsert s)
  have "map_of (calls r) (CallID s) = None \<Longrightarrow> (task r)(CallID s := None) = task r" by (auto simp: task_def fun_eq_iff)
  then show ?thesis using assms(2) by (simp add: OInsert Insert_def)
next
  case (OSetMediaTask c h)
  then have new: "h \<notin> H" using assms(3) by simp
  show ?thesis
  proof (cases "map_of (calls r) c")
    case None
    then show ?thesis using assms(2) new by (auto simp: OSetMediaTask SetMediaTask_def tracked_def)
  next
    case (Some e)
    then have "task r c = mediaTask e" by (simp add: task_def)
    then show ?thesis using tracked_set [OF assms(2) new, of c] Some by (simp add: OSetMediaTask SetMediaTask_def)
  qed
next
  case (OTransition c p)
  have "(task r)(c := mediaTask e) = task r" if "map_of (calls r) c = Some e" for e using that by (auto simp: task_def fun_eq_iff)
  then show ?thesis using assms(2) by (simp add: OTransition Transition_def split: option.split prod.split)
next
  case (ORemove c)
  show ?thesis
  proof (cases "map_of (calls r) c")
    case None
    then show ?thesis using assms(2) by (simp add: ORemove RemoveCall_def)
  next
    case (Some e)
    then have "task r c = mediaTask e" by (simp add: task_def)
    then show ?thesis using tracked_drop [OF assms(2), of c] Some by (simp add: ORemove RemoveCall_def)
  qed
next
  case OAbortAll
  then show ?thesis using tracked_all [OF assms(2)] abort_all [OF assms(1)] by simp
qed

lemma handles_simps [simp]:
  "handles [] = []" "handles (opn # ops) = (case handle_of opn of None \<Rightarrow> handles ops | Some h \<Rightarrow> h # handles ops)"
  by (simp_all add: handles_def map_filter_simps split: option.split)

lemma use_tracked:
  assumes "registry_ok r" "tracked (task r) (cancelled r) H" "distinct (handles ops)" "set (handles ops) \<inter> H = {}"
  shows "registry_ok (fold apply_op ops r) \<and> tracked (task (fold apply_op ops r)) (cancelled (fold apply_op ops r)) (H \<union> set (handles ops))"
  using assms
proof (induction ops arbitrary: r H)
  case (Cons opn ops)
  have "tracked (task (apply_op opn r)) (cancelled (apply_op opn r)) (H \<union> set_option (handle_of opn))"
    using Cons.prems by (intro apply_op_tracked) (auto split: option.splits)
  from Cons.IH [OF apply_op_ok [OF Cons.prems(1)] this] show ?case
    using Cons.prems by (auto split: option.splits simp: insert_commute Un_assoc)
qed simp

text \<open>
  C33: no media task outlives its call. However the registry is used (calls inserted, media tasks attached or
  replaced, calls moved, removed or all aborted, in any order and also on unknown calls), every cancel handle ever
  handed to it is either held by exactly one registered call or has been invoked, and none that is still held has been
  invoked; after \<open>AbortAll\<close> all of them have been invoked and no call is left.
\<close>

theorem media_tasks_never_leak:
  fixes ops :: "'a call_op list"
  assumes "distinct (handles ops)" and "r = use_registry ops"
  shows "ran (task r) \<union> cancelled r = set (handles ops) \<and> ran (task r) \<inter> cancelled r = {} \<and> inj_on (task r) (dom (task r)) \<and>
    cancelled (snd (AbortAll r)) = set (handles ops) \<and> ActiveCount (snd (AbortAll r)) = 0"
proof -
  have "task (NewCallRegistry :: 'a CallRegistry) = Map.empty" by (simp add: task_def NewCallRegistry_def fun_eq_iff)
  then have "registry_ok (NewCallRegistry :: 'a CallRegistry)" "tracked (task NewCallRegistry) (cancelled (NewCallRegistry :: 'a CallRegistry)) {}"
    by (simp_all add: NewCallRegistry_def registry_ok_def tracked_def)
  from use_tracked [OF this assms(1)] have "registry_ok r" "tracked (task r) (cancelled r) (set (handles ops))"
    by (simp_all add: assms(2) use_registry_def)
  then show ?thesis using abort_all [of r] by (auto simp: tracked_def ActiveCount_def)
qed

theorem media_tasks_never_leak_witness:
  "cancelled (snd (AbortAll (use_registry [OInsert (NewIncomingSession ''a'' EmptyJID EmptyJID), OSetMediaTask ''a'' (1 :: nat),
     OSetMediaTask ''a'' 2, OSetMediaTask ''b'' 3]))) = {1, 2, 3}"
  using media_tasks_never_leak [of "[OInsert (NewIncomingSession ''a'' EmptyJID EmptyJID), OSetMediaTask ''a'' (1 :: nat),
     OSetMediaTask ''a'' 2, OSetMediaTask ''b'' 3]", OF _ refl] by auto

end
