(* ===== verification/Lid_Map.thy ===== *)
theory Lid_Map
  imports JIDs Client_Cache
begin

text \<open>
  The cached mapping between phone numbers and hidden identifiers (\<open>lib/store/sqlstore/lidmap.go\<close>). The
  two caches are Go maps, here association lists with distinct keys; which entry an iteration meets first
  is the parameter \<open>victim\<close>. The table is its list of rows \<open>(lid, pn)\<close>. \<open>PutLIDMapping\<close> and
  \<open>PutManyLIDMappings\<close> return the write that they leave to a goroutine; \<open>persist\<close> is that goroutine.
  \<open>dedup\<close> stands for the library's deduplication of a slice, \<open>fails\<close> for a query that fails after that many
  rows. Each operation is one step: the code holds its lock while it changes the caches, and the second
  look at the cache under the write lock finds what the first one found. A query in chunks is one query.
\<close>

section \<open>Caches\<close>

type_synonym str_map = "(string \<times> string) list"

record CachedLIDMap =
  pnToLIDCache :: str_map
  lidToPNCache :: str_map
  cacheFilled :: bool

definition maxLIDCacheEntries :: nat where "maxLIDCacheEntries = 65536"

definition NewCachedLIDMap :: CachedLIDMap where
  "NewCachedLIDMap = \<lparr>pnToLIDCache = [], lidToPNCache = [], cacheFilled = False\<rparr>"

definition evictLIDCacheEntry :: "(str_map \<Rightarrow> string) \<Rightarrow> str_map \<Rightarrow> str_map \<Rightarrow> str_map \<times> str_map" where
  "evictLIDCacheEntry victim cache reverse =
     (if cache = [] then (cache, reverse)
      else
        let source = victim cache; target = the (map_of cache source)
        in (AList.delete source cache,
            if target \<noteq> '''' \<and> map_of reverse target = Some source then AList.delete target reverse else reverse))"

definition cacheMissLocked :: "(str_map \<Rightarrow> string) \<Rightarrow> str_map \<Rightarrow> str_map \<Rightarrow> string \<Rightarrow> str_map \<times> str_map" where
  "cacheMissLocked victim cache reverse source =
     (if map_of cache source \<noteq> None then (cache, reverse)
      else case (if length cache \<ge> maxLIDCacheEntries then evictLIDCacheEntry victim cache reverse else (cache, reverse)) of
        (cache, reverse) \<Rightarrow> (AList.update source '''' cache, reverse))"

definition cache_miss_lid :: "(str_map \<Rightarrow> string) \<Rightarrow> string \<Rightarrow> CachedLIDMap \<Rightarrow> CachedLIDMap" where
  "cache_miss_lid victim lid s =
     (case cacheMissLocked victim (lidToPNCache s) (pnToLIDCache s) lid of (L, P) \<Rightarrow> s\<lparr>pnToLIDCache := P, lidToPNCache := L\<rparr>)"

definition cache_miss_pn :: "(str_map \<Rightarrow> string) \<Rightarrow> string \<Rightarrow> CachedLIDMap \<Rightarrow> CachedLIDMap" where
  "cache_miss_pn victim pn s =
     (case cacheMissLocked victim (pnToLIDCache s) (lidToPNCache s) pn of (P, L) \<Rightarrow> s\<lparr>pnToLIDCache := P, lidToPNCache := L\<rparr>)"

definition stale :: "str_map \<Rightarrow> str_map \<Rightarrow> string \<Rightarrow> string \<Rightarrow> string option" where
  "stale cache reverse source target =
     (case map_of cache source of
        Some old \<Rightarrow> if old \<noteq> '''' \<and> old \<noteq> target \<and> map_of reverse old = Some source then Some old else None
      | None \<Rightarrow> None)"

definition drop_stale :: "string option \<Rightarrow> str_map \<Rightarrow> str_map" where
  "drop_stale k m = (case k of None \<Rightarrow> m | Some k \<Rightarrow> AList.delete k m)"

definition cacheMappingLocked :: "(str_map \<Rightarrow> string) \<Rightarrow> CachedLIDMap \<Rightarrow> string \<Rightarrow> string \<Rightarrow> CachedLIDMap" where
  "cacheMappingLocked victim s lid pn =
     (let P = pnToLIDCache s; L = lidToPNCache s;
          L = drop_stale (stale P L pn lid) L;
          P = drop_stale (stale L P lid pn) P;
          (P, L) = (if map_of P pn = None \<and> length P \<ge> maxLIDCacheEntries then evictLIDCacheEntry victim P L else (P, L));
          (L, P) = (if map_of L lid = None \<and> length L \<ge> maxLIDCacheEntries then evictLIDCacheEntry victim L P else (L, P))
      in s\<lparr>pnToLIDCache := AList.update pn lid P, lidToPNCache := AList.update lid pn L\<rparr>)"

section \<open>Table\<close>

type_synonym lid_rows = "(string \<times> string) list"

definition deleteExistingLIDMapping :: "string \<Rightarrow> string \<Rightarrow> lid_rows \<Rightarrow> lid_rows" where
  "deleteExistingLIDMapping lid pn rows = filter (\<lambda>(l, p). \<not> (l \<noteq> lid \<and> p = pn)) rows"

definition putLIDMappingRow :: "string \<Rightarrow> string \<Rightarrow> lid_rows \<Rightarrow> lid_rows" where
  "putLIDMappingRow lid pn rows = AList.update lid pn rows"

definition getLIDForPNRow :: "lid_rows \<Rightarrow> string \<Rightarrow> string option" where
  "getLIDForPNRow rows pn = map_option fst (find (\<lambda>(l, p). p = pn) rows)"

section \<open>Operations\<close>

datatype lid_error = ErrNotPN | ErrNotLID | ErrInvalidPut | ErrQuery

definition scanManyLids :: "(str_map \<Rightarrow> string) \<Rightarrow> lid_rows \<Rightarrow> CachedLIDMap \<Rightarrow> CachedLIDMap" where
  "scanManyLids victim rows s = fold (\<lambda>(lid, pn) s. cacheMappingLocked victim s lid pn) rows s"

definition delivered :: "nat option \<Rightarrow> 'a list \<Rightarrow> 'a list" where
  "delivered fails rows = (case fails of None \<Rightarrow> rows | Some k \<Rightarrow> take k rows)"

definition FillCache :: "(str_map \<Rightarrow> string) \<Rightarrow> nat option \<Rightarrow> lid_rows \<Rightarrow> CachedLIDMap \<Rightarrow> lid_error option \<times> CachedLIDMap" where
  "FillCache victim fails rows s =
     (let s = scanManyLids victim (delivered fails rows) (s\<lparr>pnToLIDCache := [], lidToPNCache := []\<rparr>);
          err = (if fails = None then None else Some ErrQuery)
      in (err, s\<lparr>cacheFilled := (err = None \<and> length (delivered fails rows) \<le> maxLIDCacheEntries)\<rparr>))"

text \<open>The target server tells the direction, as the caches and the query that the callers pass do.\<close>

definition getLIDMapping ::
  "(str_map \<Rightarrow> string) \<Rightarrow> nat option \<Rightarrow> lid_rows \<Rightarrow> CachedLIDMap \<Rightarrow> JID \<Rightarrow> string \<Rightarrow> (lid_error + JID) \<times> CachedLIDMap" where
  "getLIDMapping victim fails rows s source targetServer =
     (let toLID = (targetServer = HiddenUserServer);
          cache = (if toLID then pnToLIDCache s else lidToPNCache s);
          answer = (\<lambda>user. if user = '''' then EmptyJID else EmptyJID\<lparr>User := user, Device := Device source, Server := targetServer\<rparr>)
      in case map_of cache (User source) of
           Some user \<Rightarrow> (Inr (answer user), s)
         | None \<Rightarrow>
             if cacheFilled s then (Inr EmptyJID, s)
             else if fails \<noteq> None then (Inl ErrQuery, s)
             else
               let row = (if toLID then getLIDForPNRow rows (User source) else map_of rows (User source));
                   user = (case row of None \<Rightarrow> '''' | Some user \<Rightarrow> user)
               in if user = '''' then
                    (Inr EmptyJID,
                     if toLID then cache_miss_pn victim (User source) s else cache_miss_lid victim (User source) s)
                  else
                    (Inr (answer user), if toLID then cacheMappingLocked victim s user (User source) else cacheMappingLocked victim s (User source) user))"

definition GetLIDForPN :: "(str_map \<Rightarrow> string) \<Rightarrow> nat option \<Rightarrow> lid_rows \<Rightarrow> CachedLIDMap \<Rightarrow> JID \<Rightarrow> (lid_error + JID) \<times> CachedLIDMap" where
  "GetLIDForPN victim fails rows s pn =
     (if Server pn \<noteq> DefaultUserServer then (Inl ErrNotPN, s) else getLIDMapping victim fails rows s pn HiddenUserServer)"

definition GetPNForLID :: "(str_map \<Rightarrow> string) \<Rightarrow> nat option \<Rightarrow> lid_rows \<Rightarrow> CachedLIDMap \<Rightarrow> JID \<Rightarrow> (lid_error + JID) \<times> CachedLIDMap" where
  "GetPNForLID victim fails rows s lid =
     (if Server lid \<noteq> HiddenUserServer then (Inl ErrNotLID, s) else getLIDMapping victim fails rows s lid DefaultUserServer)"

definition unlockedPutLIDMapping ::
  "(str_map \<Rightarrow> string) \<Rightarrow> JID \<times> JID \<Rightarrow> lid_rows \<times> CachedLIDMap \<Rightarrow> lid_error + lid_rows \<times> CachedLIDMap" where
  "unlockedPutLIDMapping victim m st =
     (case (m, st) of ((lid, pn), (rows, s)) \<Rightarrow>
        if Server lid \<noteq> HiddenUserServer \<or> Server pn \<noteq> DefaultUserServer then Inl ErrInvalidPut
        else Inr (putLIDMappingRow (User lid) (User pn) (deleteExistingLIDMapping (User lid) (User pn) rows),
                  cacheMappingLocked victim s (User lid) (User pn)))"

definition PutLIDMapping ::
  "(str_map \<Rightarrow> string) \<Rightarrow> CachedLIDMap \<Rightarrow> JID \<Rightarrow> JID \<Rightarrow> (lid_error + (JID \<times> JID) list) \<times> CachedLIDMap" where
  "PutLIDMapping victim s lid pn =
     (if Server lid \<noteq> HiddenUserServer \<or> Server pn \<noteq> DefaultUserServer then (Inl ErrInvalidPut, s)
      else if map_of (pnToLIDCache s) (User pn) = Some (User lid) then (Inr [], s)
      else (Inr [(lid, pn)], cacheMappingLocked victim s (User lid) (User pn)))"

text \<open>The filter of \<open>PutManyLIDMappings\<close>: what is left to be written, and the caches.\<close>

fun keep_new :: "(str_map \<Rightarrow> string) \<Rightarrow> CachedLIDMap \<Rightarrow> (JID \<times> JID) list \<Rightarrow> (JID \<times> JID) list \<times> CachedLIDMap" where
  "keep_new victim s [] = ([], s)"
| "keep_new victim s ((lid, pn) # ms) =
     (if Server lid \<noteq> HiddenUserServer \<or> Server pn \<noteq> DefaultUserServer then keep_new victim s ms
      else if map_of (pnToLIDCache s) (User pn) = Some (User lid) then keep_new victim s ms
      else case keep_new victim (cacheMappingLocked victim s (User lid) (User pn)) ms of (out, s) \<Rightarrow> ((lid, pn) # out, s))"

definition PutManyLIDMappings ::
  "((JID \<times> JID) list \<Rightarrow> (JID \<times> JID) list) \<Rightarrow> (str_map \<Rightarrow> string) \<Rightarrow> CachedLIDMap \<Rightarrow> (JID \<times> JID) list \<Rightarrow> (JID \<times> JID) list \<times> CachedLIDMap" where
  "PutManyLIDMappings dedup victim s mappings = (case keep_new victim s mappings of (out, s) \<Rightarrow> (dedup out, s))"

text \<open>The transaction of the goroutine: when it fails after \<open>k\<close> mappings the table is rolled back, the cache is not.\<close>

fun put_each ::
  "(str_map \<Rightarrow> string) \<Rightarrow> (JID \<times> JID) list \<Rightarrow> lid_rows \<times> CachedLIDMap \<Rightarrow> (lid_error option) \<times> lid_rows \<times> CachedLIDMap" where
  "put_each victim [] st = (None, st)"
| "put_each victim (m # ms) st = (case unlockedPutLIDMapping victim m st of Inl e \<Rightarrow> (Some e, st) | Inr st \<Rightarrow> put_each victim ms st)"

definition persist ::
  "(str_map \<Rightarrow> string) \<Rightarrow> nat option \<Rightarrow> (JID \<times> JID) list \<Rightarrow> lid_rows \<times> CachedLIDMap \<Rightarrow> lid_rows \<times> CachedLIDMap" where
  "persist victim fails ms st =
     (case put_each victim (delivered fails ms) st of (err, rows, s) \<Rightarrow>
        (if err = None \<and> fails = None then rows else fst st, s))"

definition as_lid :: "string \<Rightarrow> JID \<Rightarrow> JID" where
  "as_lid user j = EmptyJID\<lparr>User := user, Device := Device j, Server := HiddenUserServer\<rparr>"

definition as_pn :: "string \<Rightarrow> JID \<Rightarrow> JID" where
  "as_pn user j = EmptyJID\<lparr>User := user, Device := Device j, Server := DefaultUserServer\<rparr>"

text \<open>The answers for the devices that wait for a row.\<close>

definition answer_row :: "(JID \<Rightarrow> bool) \<Rightarrow> (JID \<Rightarrow> JID) \<Rightarrow> JID list \<Rightarrow> (JID \<times> JID) list \<Rightarrow> (JID \<times> JID) list" where
  "answer_row waits target devices result =
     fold (\<lambda>dev. AList.update dev (target dev)) (filter waits devices) result"

definition GetManyLIDsForPNs ::
  "(str_map \<Rightarrow> string) \<Rightarrow> nat option \<Rightarrow> lid_rows \<Rightarrow> CachedLIDMap \<Rightarrow> JID list \<Rightarrow> ((JID \<times> JID) list \<times> lid_error option) \<times> CachedLIDMap" where
  "GetManyLIDsForPNs victim fails rows s pns =
     (let valid = filter (\<lambda>pn. Server pn = DefaultUserServer) pns;
          hit = (\<lambda>pn. case map_of (pnToLIDCache s) (User pn) of None \<Rightarrow> False | Some lid \<Rightarrow> lid \<noteq> '''');
          result = answer_row hit (\<lambda>pn. as_lid (the (map_of (pnToLIDCache s) (User pn))) pn) valid [];
          missing = filter (\<lambda>pn. \<not> hit pn \<and> \<not> cacheFilled s) valid
      in if missing = [] then ((result, None), s)
         else
           let found = delivered fails (filter (\<lambda>(_, pn). pn \<in> User ` set missing) rows)
           in ((fold (\<lambda>(lid, pn). answer_row (\<lambda>dev. User dev = pn) (\<lambda>dev. dev\<lparr>Server := HiddenUserServer, User := lid\<rparr>) missing) found result,
                if fails = None then None else Some ErrQuery),
               scanManyLids victim found s))"

definition GetManyPNsForLIDs ::
  "(str_map \<Rightarrow> string) \<Rightarrow> nat option \<Rightarrow> lid_rows \<Rightarrow> CachedLIDMap \<Rightarrow> JID list \<Rightarrow> ((JID \<times> JID) list \<times> lid_error option) \<times> CachedLIDMap" where
  "GetManyPNsForLIDs victim fails rows s lids =
     (let valid = filter (\<lambda>lid. Server lid = HiddenUserServer) lids;
          hit = (\<lambda>lid. case map_of (lidToPNCache s) (User lid) of None \<Rightarrow> False | Some pn \<Rightarrow> pn \<noteq> '''');
          result = answer_row hit (\<lambda>lid. as_pn (the (map_of (lidToPNCache s) (User lid))) lid) valid [];
          missing = filter (\<lambda>lid. map_of (lidToPNCache s) (User lid) = None \<and> \<not> cacheFilled s) valid
      in if missing = [] then ((result, None), s)
         else
           let found = delivered fails (filter (\<lambda>(lid, _). lid \<in> User ` set missing) rows);
               result = fold (\<lambda>(lid, pn). answer_row (\<lambda>dev. User dev = lid) (\<lambda>dev. dev\<lparr>Server := DefaultUserServer, User := pn\<rparr>) missing) found result;
               s = scanManyLids victim found s
           in if fails \<noteq> None then ((result, Some ErrQuery), s)
              else ((result, None),
                    fold (cache_miss_lid victim) (filter (\<lambda>lid. lid \<notin> fst ` set found) (rev (remdups (rev (map User missing))))) s))"

end
