(* ===== verification/Lid_Map_Coherence.thy ===== *)
theory Lid_Map_Coherence
  imports Lid_Map
begin

text \<open>
  The caches of the mapping between phone numbers and hidden identifiers agree with its table. The
  relation of the table is \<open>R\<close>; one cache goes along it, the other against it, so every lemma about one
  of them holds of the other by symmetry.
\<close>

section \<open>Two caches and a relation\<close>

text \<open>
  Every entry of \<open>A\<close>, except the one of a key that is about to be overwritten, is either a known absence
  or a pair of the relation that the other cache has too.
\<close>

definition half :: "string option \<Rightarrow> (string \<rightharpoonup> string) \<Rightarrow> (string \<rightharpoonup> string) \<Rightarrow> (string \<times> string) set \<Rightarrow> bool" where
  "half k A B R \<longleftrightarrow> (\<forall>a b. Some a \<noteq> k \<longrightarrow> A a = Some b \<longrightarrow> (if b = '''' then \<forall>c. (a, c) \<notin> R else (a, b) \<in> R \<and> B b = Some a))"

definition named :: "(string \<times> string) set \<Rightarrow> bool" where
  "named R \<longleftrightarrow> (\<forall>(a, b) \<in> R. a \<noteq> '''' \<and> b \<noteq> '''')"

definition put_pair :: "string \<times> string \<Rightarrow> (string \<times> string) set \<Rightarrow> (string \<times> string) set" where
  "put_pair m R = insert m {(a, b) \<in> R. a \<noteq> fst m \<and> b \<noteq> snd m}"

lemma halfD: "half k A B R \<Longrightarrow> Some a \<noteq> k \<Longrightarrow> A a = Some b \<Longrightarrow> b \<noteq> '''' \<Longrightarrow> (a, b) \<in> R \<and> B b = Some a"
  "half k A B R \<Longrightarrow> Some a \<noteq> k \<Longrightarrow> A a = Some '''' \<Longrightarrow> (a, c) \<notin> R"
  by (auto simp: half_def)

lemma halfI:
  assumes "\<And>a b. Some a \<noteq> k \<Longrightarrow> A a = Some b \<Longrightarrow> b \<noteq> '''' \<Longrightarrow> (a, b) \<in> R \<and> B b = Some a"
    and "\<And>a c. Some a \<noteq> k \<Longrightarrow> A a = Some '''' \<Longrightarrow> (a, c) \<notin> R"
  shows "half k A B R"
  using assms by (auto simp: half_def)

lemma half_evict:
  assumes AB: "half k A B R" and BA: "half k' B A (R\<inverse>)" and "named R" and keys: "\<And>a b. (a, b) \<in> R \<Longrightarrow> Some a \<noteq> k \<and> Some b \<noteq> k'"
    and "Some src \<noteq> k" "A src = Some tgt"
    and B': "B' = (if tgt \<noteq> '''' \<and> B tgt = Some src then B(tgt := None) else B)"
  shows "half k (A(src := None)) B' R \<and> half k' B' (A(src := None)) (R\<inverse>)"
proof
  show "half k (A(src := None)) B' R"
  proof (rule halfI)
    fix a b assume a: "Some a \<noteq> k" "(A(src := None)) a = Some b" "b \<noteq> ''''"
    then have ab: "(a, b) \<in> R" "B b = Some a" "a \<noteq> src" using halfD(1) [OF AB] by (auto split: if_splits)
    moreover have "b \<noteq> tgt" if "B tgt = Some src" using ab that by auto
    ultimately show "(a, b) \<in> R \<and> B' b = Some a" by (auto simp: B')
  next
    fix a c assume "Some a \<noteq> k" "(A(src := None)) a = Some ''''"
    then show "(a, c) \<notin> R" using halfD(2) [OF AB] by (auto split: if_splits)
  qed
  have sub: "B' b = Some a \<Longrightarrow> B b = Some a" for a b by (auto simp: B' split: if_splits)
  show "half k' B' (A(src := None)) (R\<inverse>)"
  proof (rule halfI)
    fix b a assume b: "Some b \<noteq> k'" "B' b = Some a" "a \<noteq> ''''"
    then have ba: "(b, a) \<in> R\<inverse>" "A a = Some b" using halfD(1) [OF BA] sub by blast+
    have "b \<noteq> ''''" using ba(1) assms(3) by (auto simp: named_def)
    have "a \<noteq> src"
    proof
      assume "a = src"
      then have "tgt = b" using ba(2) assms(6) by simp
      then have "B' b = None" using B' sub [OF b(2)] \<open>b \<noteq> ''''\<close> \<open>a = src\<close> by simp
      then show False using b(2) by simp
    qed
    then show "(b, a) \<in> R\<inverse> \<and> (A(src := None)) a = Some b" using ba by simp
  next
    fix b c assume "Some b \<noteq> k'" "B' b = Some ''''"
    then show "(b, c) \<notin> R\<inverse>" using halfD(2) [OF BA] sub by blast
  qed
qed

text \<open>Removing what a new pair displaces.\<close>

lemma half_displace:
  assumes AB: "half None A B R" and BA: "half None B A (R\<inverse>)" and "named R" "fst m \<noteq> ''''" "snd m \<noteq> ''''"
    and A1: "A1 = (case B (snd m) of Some x \<Rightarrow> if x \<noteq> '''' \<and> x \<noteq> fst m \<and> A x = Some (snd m) then A(x := None) else A | None \<Rightarrow> A)"
    and B1: "B1 = (case A1 (fst m) of Some y \<Rightarrow> if y \<noteq> '''' \<and> y \<noteq> snd m \<and> B y = Some (fst m) then B(y := None) else B | None \<Rightarrow> B)"
    and R1: "R1 = {(a, b) \<in> R. a \<noteq> fst m \<and> b \<noteq> snd m}"
  shows "half (Some (fst m)) A1 B1 R1 \<and> half (Some (snd m)) B1 A1 (R1\<inverse>)"
proof -
  have subA: "A1 a = Some b \<Longrightarrow> A a = Some b" for a b by (auto simp: A1 split: option.splits if_splits)
  have subB: "B1 a = Some b \<Longrightarrow> B a = Some b" for a b by (auto simp: B1 split: option.splits if_splits)
  have A1_other: "A1 a = A a" if "A a \<noteq> Some (snd m)" for a using that by (auto simp: A1 split: option.splits)
  have A1_fst: "A1 (fst m) = A (fst m)" by (auto simp: A1 split: option.splits)
  have B1_other: "B1 b = B b" if "B b \<noteq> Some (fst m)" for b using that by (auto simp: B1 split: option.splits)
  have ne: "a \<noteq> '''' \<and> b \<noteq> ''''" if "(a, b) \<in> R" for a b using that assms(3) by (auto simp: named_def)
  have noA: "b \<noteq> snd m" if "A1 a = Some b" "a \<noteq> fst m" for a b
  proof
    assume "b = snd m"
    then have a: "A a = Some (snd m)" using subA that by blast
    then have "(a, snd m) \<in> R" "B (snd m) = Some a" using halfD(1) [OF AB, of a "snd m"] assms(5) by auto
    then have "A1 a = None" using a that(2) ne by (auto simp: A1)
    then show False using that by simp
  qed
  have noB: "a \<noteq> fst m" if "B1 b = Some a" "b \<noteq> snd m" for a b
  proof
    assume "a = fst m"
    then have b: "B b = Some (fst m)" using subB that by blast
    then have "(fst m, b) \<in> R" "A (fst m) = Some b" using halfD(1) [OF BA, of b "fst m"] assms(4) by auto
    then have "B1 b = None" using b that(2) ne A1_fst by (auto simp: B1)
    then show False using that by simp
  qed
  show ?thesis
  proof (rule conjI; rule halfI)
    fix a b assume a: "Some a \<noteq> Some (fst m)" "A1 a = Some b" "b \<noteq> ''''"
    then have ab: "(a, b) \<in> R" "B b = Some a" using halfD(1) [OF AB] subA by auto
    moreover have "B1 b = Some a" using B1_other ab(2) a(1) by simp
    ultimately show "(a, b) \<in> R1 \<and> B1 b = Some a" using noA [OF a(2)] a(1) by (auto simp: R1)
  next
    fix a c assume "Some a \<noteq> Some (fst m)" "A1 a = Some ''''"
    then show "(a, c) \<notin> R1" using halfD(2) [OF AB] subA by (auto simp: R1)
  next
    fix b a assume b: "Some b \<noteq> Some (snd m)" "B1 b = Some a" "a \<noteq> ''''"
    then have ba: "(b, a) \<in> R\<inverse>" "A a = Some b" using halfD(1) [OF BA] subB by auto
    moreover have "A1 a = Some b" using A1_other ba(2) b(1) by simp
    ultimately show "(b, a) \<in> R1\<inverse> \<and> A1 a = Some b" using noB [OF b(2)] b(1) by (auto simp: R1)
  next
    fix b c assume "Some b \<noteq> Some (snd m)" "B1 b = Some ''''"
    then show "(b, c) \<notin> R1\<inverse>" using halfD(2) [OF BA] subB by (auto simp: R1)
  qed
qed

lemma half_put:
  assumes "half (Some (fst m)) A B R1" "half (Some (snd m)) B A (R1\<inverse>)" "fst m \<noteq> ''''" "snd m \<noteq> ''''"
    and R1: "\<And>a b. (a, b) \<in> R1 \<Longrightarrow> a \<noteq> fst m \<and> b \<noteq> snd m"
  shows "half None (A(fst m \<mapsto> snd m)) (B(snd m \<mapsto> fst m)) (insert m R1) \<and> half None (B(snd m \<mapsto> fst m)) (A(fst m \<mapsto> snd m)) ((insert m R1)\<inverse>)"
proof (rule conjI; rule halfI)
  fix a b assume "(A(fst m \<mapsto> snd m)) a = Some b" "b \<noteq> ''''"
  then show "(a, b) \<in> insert m R1 \<and> (B(snd m \<mapsto> fst m)) b = Some a"
    using halfD(1) [OF assms(1)] R1 by (fastforce split: if_splits)
next
  fix a c assume "(A(fst m \<mapsto> snd m)) a = Some ''''"
  then show "(a, c) \<notin> insert m R1" using halfD(2) [OF assms(1)] assms(4) by (auto split: if_splits)
next
  fix b a assume "(B(snd m \<mapsto> fst m)) b = Some a" "a \<noteq> ''''"
  then show "(b, a) \<in> (insert m R1)\<inverse> \<and> (A(fst m \<mapsto> snd m)) a = Some b"
    using halfD(1) [OF assms(2)] R1 by (fastforce split: if_splits)
next
  fix b c assume "(B(snd m \<mapsto> fst m)) b = Some ''''"
  then show "(b, c) \<notin> (insert m R1)\<inverse>" using halfD(2) [OF assms(2)] assms(3) by (auto split: if_splits)
qed

section \<open>Coherence\<close>

definition ok_victim :: "(str_map \<Rightarrow> string) \<Rightarrow> bool" where
  "ok_victim victim \<longleftrightarrow> (\<forall>m. m \<noteq> [] \<longrightarrow> victim m \<in> fst ` set m)"

definition full :: "CachedLIDMap \<Rightarrow> (string \<times> string) set \<Rightarrow> bool" where
  "full s R \<longleftrightarrow> (\<forall>(l, p) \<in> R. map_of (pnToLIDCache s) p = Some l \<and> map_of (lidToPNCache s) l = Some p) \<and>
     (\<forall>k. map_of (pnToLIDCache s) k \<noteq> Some '''' \<and> map_of (lidToPNCache s) k \<noteq> Some '''')"

definition one_to_one :: "(string \<times> string) set \<Rightarrow> bool" where
  "one_to_one R \<longleftrightarrow> finite R \<and> inj_on fst R \<and> inj_on snd R \<and> named R"

definition coh :: "CachedLIDMap \<Rightarrow> (string \<times> string) set \<Rightarrow> bool" where
  "coh s R \<longleftrightarrow> go_map (pnToLIDCache s) \<and> go_map (lidToPNCache s) \<and>
     length (pnToLIDCache s) \<le> maxLIDCacheEntries \<and> length (lidToPNCache s) \<le> maxLIDCacheEntries \<and>
     half None (map_of (lidToPNCache s)) (map_of (pnToLIDCache s)) R \<and> half None (map_of (pnToLIDCache s)) (map_of (lidToPNCache s)) (R\<inverse>) \<and>
     (cacheFilled s \<longrightarrow> full s R)"

lemma one_to_one_put: "one_to_one R \<Longrightarrow> fst m \<noteq> '''' \<Longrightarrow> snd m \<noteq> '''' \<Longrightarrow> one_to_one (put_pair m R)"
proof -
  assume R: "one_to_one R" "fst m \<noteq> ''''" "snd m \<noteq> ''''"
  have "put_pair m R \<subseteq> insert m R" by (auto simp: put_pair_def)
  then have "finite (put_pair m R)" using R by (auto simp: one_to_one_def intro: finite_subset)
  moreover have "inj_on fst (put_pair m R)" "inj_on snd (put_pair m R)" using R(1) by (force simp: one_to_one_def put_pair_def inj_on_def)+
  ultimately show ?thesis using R by (auto simp: one_to_one_def put_pair_def named_def)
qed

lemma put_pair_id: "one_to_one R \<Longrightarrow> m \<in> R \<Longrightarrow> put_pair m R = R"
  by (force simp: put_pair_def one_to_one_def inj_on_def)

lemma map_of_delete: "map_of (AList.delete k m) = (map_of m)(k := None)"
  by (simp add: delete_conv')

lemma map_of_update: "map_of (AList.update k v m) = (map_of m)(k \<mapsto> v)"
  by (simp add: update_conv')

lemma drop_stale_map:
  "map_of (drop_stale (stale c r src tgt) m) =
    (case map_of c src of Some x \<Rightarrow> if x \<noteq> '''' \<and> x \<noteq> tgt \<and> map_of r x = Some src then (map_of m)(x := None) else map_of m | None \<Rightarrow> map_of m)"
  by (auto simp: drop_stale_def stale_def map_of_delete split: option.split)

lemma drop_stale_frame: "go_map m \<Longrightarrow> go_map (drop_stale k m)" "length (drop_stale k m) \<le> length m"
  by (auto simp: drop_stale_def go_map_delete length_delete_le split: option.split)

lemma evict_spec:
  assumes "ok_victim victim" "cache \<noteq> []" "go_map cache"
  obtains src tgt where "map_of cache src = Some tgt"
    "map_of (fst (evictLIDCacheEntry victim cache reverse)) = (map_of cache)(src := None)"
    "map_of (snd (evictLIDCacheEntry victim cache reverse)) = (if tgt \<noteq> '''' \<and> map_of reverse tgt = Some src then (map_of reverse)(tgt := None) else map_of reverse)"
    "length (fst (evictLIDCacheEntry victim cache reverse)) < length cache" "length (snd (evictLIDCacheEntry victim cache reverse)) \<le> length reverse"
    "map_of (snd (evictLIDCacheEntry victim cache reverse)) \<noteq> map_of reverse \<Longrightarrow> length (snd (evictLIDCacheEntry victim cache reverse)) < length reverse"
    "go_map (fst (evictLIDCacheEntry victim cache reverse))" "go_map reverse \<Longrightarrow> go_map (snd (evictLIDCacheEntry victim cache reverse))"
proof -
  have v: "victim cache \<in> fst ` set cache" using assms(1,2) by (simp add: ok_victim_def)
  then obtain tgt where tgt: "map_of cache (victim cache) = Some tgt" by (metis map_of_eq_None_iff not_Some_eq)
  then have run: "evictLIDCacheEntry victim cache reverse = (AList.delete (victim cache) cache,
      if tgt \<noteq> '''' \<and> map_of reverse tgt = Some (victim cache) then AList.delete tgt reverse else reverse)"
    using assms(2) by (simp add: evictLIDCacheEntry_def)
  have less: "length (AList.delete tgt reverse) < length reverse" if "map_of reverse tgt = Some x" for x
    using that by (intro length_delete_less) (force dest: map_of_SomeD)
  show ?thesis
  proof (rule that [of "victim cache" tgt])
    show "length (fst (evictLIDCacheEntry victim cache reverse)) < length cache" using v by (simp add: run length_delete_less)
    show "length (snd (evictLIDCacheEntry victim cache reverse)) < length reverse"
      if "map_of (snd (evictLIDCacheEntry victim cache reverse)) \<noteq> map_of reverse"
      using that less by (auto simp: run split: if_splits)
  qed (use assms(3) in \<open>simp_all add: run tgt map_of_delete length_delete_le go_map_delete\<close>)
qed

text \<open>An eviction that may happen: only when the key that is overwritten is absent.\<close>

definition may_evict :: "(str_map \<Rightarrow> string) \<Rightarrow> string \<Rightarrow> str_map \<Rightarrow> str_map \<Rightarrow> str_map \<times> str_map" where
  "may_evict victim key cache reverse =
     (if map_of cache key = None \<and> length cache \<ge> maxLIDCacheEntries then evictLIDCacheEntry victim cache reverse else (cache, reverse))"

lemma may_evict_spec:
  assumes "ok_victim victim" "go_map cache" "go_map reverse" "named R" "half k (map_of cache) (map_of reverse) R"
    and "half k' (map_of reverse) (map_of cache) (R\<inverse>)" "\<forall>(a, b) \<in> R. Some a \<noteq> k \<and> Some b \<noteq> k'"
    and "may_evict victim key cache reverse = (c, r)" "length cache \<le> maxLIDCacheEntries" "k = None \<or> k = Some key"
  shows "half k (map_of c) (map_of r) R \<and> half k' (map_of r) (map_of c) (R\<inverse>) \<and> go_map c \<and> go_map r \<and>
    length c \<le> length cache \<and> length r \<le> length reverse \<and> (map_of r \<noteq> map_of reverse \<longrightarrow> length r < length reverse) \<and> (map_of c key = None \<longrightarrow> length c < maxLIDCacheEntries) \<and>
    (map_of cache key = None \<longrightarrow> length cache < maxLIDCacheEntries \<longrightarrow> c = cache \<and> r = reverse) \<and> (map_of cache key \<noteq> None \<longrightarrow> c = cache \<and> r = reverse)"
proof (cases "map_of cache key = None \<and> length cache \<ge> maxLIDCacheEntries")
  case True
  then have ev: "evictLIDCacheEntry victim cache reverse = (c, r)" "cache \<noteq> []" using assms(8) by (auto simp: may_evict_def maxLIDCacheEntries_def)
  obtain src tgt where e: "map_of cache src = Some tgt" "map_of c = (map_of cache)(src := None)"
     "map_of r = (if tgt \<noteq> '''' \<and> map_of reverse tgt = Some src then (map_of reverse)(tgt := None) else map_of reverse)"
     "length c < length cache" "length r \<le> length reverse" "map_of r \<noteq> map_of reverse \<Longrightarrow> length r < length reverse" "go_map c" "go_map r"
    using evict_spec [OF assms(1) ev(2) assms(2), of reverse] ev(1) assms(3) by auto
  have "Some src \<noteq> k" using True e(1) assms(10) by auto
  moreover have "(a, b) \<in> R \<Longrightarrow> Some a \<noteq> k \<and> Some b \<noteq> k'" for a b using assms(7) by auto
  ultimately have "half k (map_of c) (map_of r) R \<and> half k' (map_of r) (map_of c) (R\<inverse>)"
    using half_evict [OF assms(5,6,4) _ _ e(1,3)] by (simp add: e(2))
  then show ?thesis using e True assms(9) by auto
next
  case False
  then show ?thesis using assms by (auto simp: may_evict_def)
qed

lemma cacheMapping_eq:
  "cacheMappingLocked victim s lid pn =
     (let L = drop_stale (stale (pnToLIDCache s) (lidToPNCache s) pn lid) (lidToPNCache s);
          P = drop_stale (stale L (pnToLIDCache s) lid pn) (pnToLIDCache s);
          (P, L) = may_evict victim pn P L;
          (L, P) = may_evict victim lid L P
      in s\<lparr>pnToLIDCache := AList.update pn lid P, lidToPNCache := AList.update lid pn L\<rparr>)"
  by (simp add: cacheMappingLocked_def may_evict_def Let_def)

lemma go_map_length: "go_map m \<Longrightarrow> length m = card (dom (map_of m))"
proof -
  assume "go_map m"
  then have "length m = card (set (map fst m))" unfolding go_map_def by (metis distinct_card length_map)
  then show ?thesis by (simp add: dom_map_of_conv_image_fst)
qed

text \<open>The caches after the pairs that a new one displaces are gone.\<close>

definition displaced :: "CachedLIDMap \<Rightarrow> string \<Rightarrow> string \<Rightarrow> str_map \<times> str_map" where
  "displaced s lid pn =
     (let L = drop_stale (stale (pnToLIDCache s) (lidToPNCache s) pn lid) (lidToPNCache s)
      in (drop_stale (stale L (pnToLIDCache s) lid pn) (pnToLIDCache s), L))"

lemma cacheMapping_displaced:
  "cacheMappingLocked victim s lid pn =
     (case displaced s lid pn of (P, L) \<Rightarrow> case may_evict victim pn P L of (P, L) \<Rightarrow> case may_evict victim lid L P of (L, P) \<Rightarrow>
        s\<lparr>pnToLIDCache := AList.update pn lid P, lidToPNCache := AList.update lid pn L\<rparr>)"
  by (simp add: cacheMapping_eq displaced_def Let_def split: prod.split)

lemma displaced_spec:
  assumes "coh s R" "one_to_one R" "lid \<noteq> ''''" "pn \<noteq> ''''" "displaced s lid pn = (P, L)"
    and R1: "R1 = {(a, b) \<in> R. a \<noteq> lid \<and> b \<noteq> pn}"
  shows "half (Some lid) (map_of L) (map_of P) R1 \<and> half (Some pn) (map_of P) (map_of L) (R1\<inverse>)"
    "go_map P" "go_map L" "length P \<le> maxLIDCacheEntries" "length L \<le> maxLIDCacheEntries"
    "cacheFilled s \<Longrightarrow> \<forall>(l, p) \<in> R1. map_of P p = Some l \<and> map_of L l = Some p"
    "cacheFilled s \<Longrightarrow> map_of P k \<noteq> Some '''' \<and> map_of L k \<noteq> Some ''''"
proof -
  have c: "go_map (pnToLIDCache s)" "go_map (lidToPNCache s)" "half None (map_of (lidToPNCache s)) (map_of (pnToLIDCache s)) R"
      "half None (map_of (pnToLIDCache s)) (map_of (lidToPNCache s)) (R\<inverse>)" "named R"
      "length (pnToLIDCache s) \<le> maxLIDCacheEntries" "length (lidToPNCache s) \<le> maxLIDCacheEntries"
    using assms(1,2) by (simp_all add: coh_def one_to_one_def)
  have L: "L = drop_stale (stale (pnToLIDCache s) (lidToPNCache s) pn lid) (lidToPNCache s)"
    and P: "P = drop_stale (stale L (pnToLIDCache s) lid pn) (pnToLIDCache s)"
    using assms(5) by (auto simp: displaced_def Let_def)
  note Lmap = drop_stale_map [of "pnToLIDCache s" "lidToPNCache s" pn lid "lidToPNCache s", folded L]
  note Pmap = drop_stale_map [of L "pnToLIDCache s" lid pn "pnToLIDCache s", folded P]
  show "half (Some lid) (map_of L) (map_of P) R1 \<and> half (Some pn) (map_of P) (map_of L) (R1\<inverse>)"
    by (rule half_displace [OF c(3-5), of "(lid, pn)" "map_of L" "map_of P" R1, unfolded fst_conv snd_conv, OF assms(3,4) Lmap Pmap R1])
  show "go_map P" "go_map L" "length P \<le> maxLIDCacheEntries" "length L \<le> maxLIDCacheEntries"
    using c drop_stale_frame(1) order_trans [OF drop_stale_frame(2)] unfolding P L by blast+
  have sub: "map_of P k = Some v \<Longrightarrow> map_of (pnToLIDCache s) k = Some v" "map_of L k = Some v \<Longrightarrow> map_of (lidToPNCache s) k = Some v" for k v
    unfolding P L drop_stale_map by (auto split: option.splits if_splits)
  have keep: "map_of (pnToLIDCache s) p = Some l \<Longrightarrow> l \<noteq> lid \<Longrightarrow> map_of P p = Some l"
    "map_of (lidToPNCache s) l = Some p \<Longrightarrow> p \<noteq> pn \<Longrightarrow> map_of L l = Some p" for l p
    unfolding P L drop_stale_map by (auto split: option.splits)
  show "\<forall>(l, p) \<in> R1. map_of P p = Some l \<and> map_of L l = Some p" if "cacheFilled s"
    using assms(1) that keep by (auto simp: coh_def full_def R1)
  show "map_of P k \<noteq> Some '''' \<and> map_of L k \<noteq> Some ''''" if "cacheFilled s" using assms(1) that sub by (fastforce simp: coh_def full_def)
qed

lemma filled_small:
  assumes "half (Some k) (map_of c) (map_of r) R1" "go_map c" "map_of c k = None" "\<And>x. map_of c x \<noteq> Some ''''" "finite R1"
  shows "length c \<le> card R1"
proof -
  have "dom (map_of c) \<subseteq> fst ` R1"
  proof
    fix a assume "a \<in> dom (map_of c)"
    then obtain b where b: "map_of c a = Some b" by auto
    then have "b \<noteq> ''''" "Some a \<noteq> Some k" using assms(3,4) by auto
    then show "a \<in> fst ` R1" using halfD(1) [OF assms(1) _ b] by force
  qed
  then have "card (dom (map_of c)) \<le> card R1" using assms(5) by (meson card_image_le card_mono finite_imageI order_trans)
  then show ?thesis using go_map_length [OF assms(2)] by simp
qed

lemma mapping_coh:
  assumes "coh s R" "one_to_one R" "lid \<noteq> ''''" "pn \<noteq> ''''" "ok_victim victim"
    and "cacheFilled s \<Longrightarrow> card (put_pair (lid, pn) R) \<le> maxLIDCacheEntries"
  shows "coh (cacheMappingLocked victim s lid pn) (put_pair (lid, pn) R)"
proof -
  define R1 where "R1 = {(a, b) \<in> R. a \<noteq> lid \<and> b \<noteq> pn}"
  have R': "put_pair (lid, pn) R = insert (lid, pn) R1" by (simp add: put_pair_def R1_def)
  have R1: "a \<noteq> lid \<and> b \<noteq> pn" if "(a, b) \<in> R1" for a b using that by (simp add: R1_def)
  have "R1 \<subseteq> R" by (auto simp: R1_def)
  then have nm: "named R1" "named (R1\<inverse>)" "finite R1" using assms(2) finite_subset by (auto simp: one_to_one_def named_def)
  obtain P L where d: "displaced s lid pn = (P, L)" by fastforce
  note dd = displaced_spec [OF assms(1-4) d R1_def]
  obtain P2 L2 where e: "may_evict victim pn P L = (P2, L2)" by fastforce
  obtain L3 P3 where f: "may_evict victim lid L2 P2 = (L3, P3)" by fastforce
  have run: "cacheMappingLocked victim s lid pn = s\<lparr>pnToLIDCache := AList.update pn lid P3, lidToPNCache := AList.update lid pn L3\<rparr>"
    using cacheMapping_displaced [of victim s lid pn] unfolding d e f prod.case by simp
  have inv: "half (Some lid) (map_of L) (map_of P) ((R1\<inverse>)\<inverse>)" using dd(1) by simp
  have keys: "\<forall>(a, b) \<in> R1\<inverse>. Some a \<noteq> Some pn \<and> Some b \<noteq> Some lid" "\<forall>(a, b) \<in> R1. Some a \<noteq> Some lid \<and> Some b \<noteq> Some pn"
    using R1 by auto
  note E = may_evict_spec [OF assms(5) dd(2,3) nm(2) conjunct2 [OF dd(1)] inv keys(1) e dd(4) disjI2 [OF refl]]
  have "length L2 \<le> maxLIDCacheEntries" using E dd(5) by linarith
  note F = may_evict_spec [OF assms(5) _ _ nm(1) _ _ keys(2) f this disjI2 [OF refl]]
  have F: "half (Some lid) (map_of L3) (map_of P3) R1 \<and> half (Some pn) (map_of P3) (map_of L3) (R1\<inverse>) \<and> go_map L3 \<and> go_map P3 \<and>
      length L3 \<le> length L2 \<and> length P3 \<le> length P2 \<and> (map_of P3 \<noteq> map_of P2 \<longrightarrow> length P3 < length P2) \<and> (map_of L3 lid = None \<longrightarrow> length L3 < maxLIDCacheEntries) \<and>
      (map_of L2 lid = None \<longrightarrow> length L2 < maxLIDCacheEntries \<longrightarrow> L3 = L2 \<and> P3 = P2) \<and> (map_of L2 lid \<noteq> None \<longrightarrow> L3 = L2 \<and> P3 = P2)"
    using F E by simp
  have h: "half None ((map_of L3)(lid \<mapsto> pn)) ((map_of P3)(pn \<mapsto> lid)) (insert (lid, pn) R1)"
      "half None ((map_of P3)(pn \<mapsto> lid)) ((map_of L3)(lid \<mapsto> pn)) ((insert (lid, pn) R1)\<inverse>)"
    using half_put [of "(lid, pn)" "map_of L3" "map_of P3" R1] F assms(3,4) R1 by auto
  have len: "length (AList.update pn lid P3) \<le> maxLIDCacheEntries" "length (AList.update lid pn L3) \<le> maxLIDCacheEntries"
  proof -
    have "length P3 < maxLIDCacheEntries" if "map_of P3 pn = None"
    proof (cases "map_of P2 pn = None")
      case True
      then show ?thesis using E F by linarith
    next
      case False
      then have "map_of P3 \<noteq> map_of P2" using that by auto
      then show ?thesis using E F dd(4) by linarith
    qed
    then show "length (AList.update pn lid P3) \<le> maxLIDCacheEntries" using E F dd(4) by (auto simp: length_update)
    show "length (AList.update lid pn L3) \<le> maxLIDCacheEntries" using E F dd(5) by (auto simp: length_update)
  qed
  have "full (cacheMappingLocked victim s lid pn) (insert (lid, pn) R1)" if filled: "cacheFilled s"
  proof -
    have "card R1 < maxLIDCacheEntries" using assms(6) [OF filled] R1 nm(3) unfolding R' by (subst (asm) card_insert_disjoint) auto
    moreover have "length P \<le> card R1" if "map_of P pn = None"
      using filled_small [OF conjunct2 [OF dd(1)] dd(2) that] dd(7) [OF filled] nm(3) card_inverse [of R1] by simp
    moreover have "length L \<le> card R1" if "map_of L lid = None"
      using filled_small [OF conjunct1 [OF dd(1)] dd(3) that] dd(7) [OF filled] nm(3) by simp
    ultimately have "P3 = P" "L3 = L" using E F by auto
    then show ?thesis using dd(6,7) [OF filled] R1 assms(3,4) by (fastforce simp: full_def run map_of_update)
  qed
  then show ?thesis using h F len by (simp add: coh_def R' run map_of_update go_map_update)
qed

section \<open>Known absences\<close>

lemma half_absent:
  assumes "half None A B R" "half None B A (R\<inverse>)" "\<And>b. (a, b) \<notin> R"
  shows "half None (A(a \<mapsto> '''')) B R \<and> half None B (A(a \<mapsto> '''')) (R\<inverse>)"
proof (rule conjI; rule halfI)
  fix x b assume "(A(a \<mapsto> '''')) x = Some b" "b \<noteq> ''''"
  then show "(x, b) \<in> R \<and> B b = Some x" using halfD(1) [OF assms(1)] by (auto split: if_splits)
next
  fix x c assume "(A(a \<mapsto> '''')) x = Some ''''"
  then show "(x, c) \<notin> R" using halfD(2) [OF assms(1)] assms(3) by (auto split: if_splits)
next
  fix b x assume "B b = Some x" "x \<noteq> ''''"
  then show "(b, x) \<in> R\<inverse> \<and> (A(a \<mapsto> '''')) x = Some b" using halfD(1) [OF assms(2)] assms(3) by auto
next
  fix b c assume "B b = Some ''''"
  then show "(b, c) \<notin> R\<inverse>" using halfD(2) [OF assms(2)] by auto
qed

lemma miss_half:
  assumes "ok_victim victim" "go_map cache" "go_map reverse" "length cache \<le> maxLIDCacheEntries" "length reverse \<le> maxLIDCacheEntries"
    and "half None (map_of cache) (map_of reverse) R" "half None (map_of reverse) (map_of cache) (R\<inverse>)" "named R" "\<And>b. (source, b) \<notin> R"
    and "cacheMissLocked victim cache reverse source = (c, r)"
  shows "half None (map_of c) (map_of r) R \<and> half None (map_of r) (map_of c) (R\<inverse>) \<and> go_map c \<and> go_map r \<and>
    length c \<le> maxLIDCacheEntries \<and> length r \<le> maxLIDCacheEntries"
proof (cases "map_of cache source = None")
  case True
  obtain c1 r1 where e: "may_evict victim source cache reverse = (c1, r1)" by fastforce
  have run: "c = AList.update source '''' c1" "r = r1" using assms(10) e True by (auto simp: cacheMissLocked_def may_evict_def split: if_splits prod.splits)
  have "\<forall>(a, b) \<in> R. Some a \<noteq> None \<and> Some b \<noteq> None" by simp
  note E = may_evict_spec [OF assms(1-3,8,6,7) this e assms(4) disjI1 [OF refl]]
  then have E: "half None (map_of c1) (map_of r1) R" "half None (map_of r1) (map_of c1) (R\<inverse>)" "go_map c1" "go_map r1"
      "length c1 \<le> length cache" "length r1 \<le> length reverse" "map_of c1 source = None \<Longrightarrow> length c1 < maxLIDCacheEntries" by auto
  show ?thesis using half_absent [OF E(1,2) assms(9)] E assms(4,5) by (auto simp: run map_of_update go_map_update length_update)
next
  case False
  then show ?thesis using assms by (auto simp: cacheMissLocked_def)
qed

lemma miss_coh:
  assumes "ok_victim victim" "coh s R" "one_to_one R" "\<not> cacheFilled s"
  shows "(\<And>p. (lid, p) \<notin> R) \<Longrightarrow> coh (cache_miss_lid victim lid s) R" "(\<And>l. (l, pn) \<notin> R) \<Longrightarrow> coh (cache_miss_pn victim pn s) R"
proof -
  have c: "go_map (lidToPNCache s)" "go_map (pnToLIDCache s)" "length (lidToPNCache s) \<le> maxLIDCacheEntries" "length (pnToLIDCache s) \<le> maxLIDCacheEntries"
      "half None (map_of (lidToPNCache s)) (map_of (pnToLIDCache s)) R" "half None (map_of (pnToLIDCache s)) (map_of (lidToPNCache s)) (R\<inverse>)"
      "half None (map_of (lidToPNCache s)) (map_of (pnToLIDCache s)) ((R\<inverse>)\<inverse>)" "named R" "named (R\<inverse>)"
    using assms(2,3) by (auto simp: coh_def one_to_one_def named_def)
  show "coh (cache_miss_lid victim lid s) R" if no: "\<And>p. (lid, p) \<notin> R"
  proof -
    obtain L P where run: "cacheMissLocked victim (lidToPNCache s) (pnToLIDCache s) lid = (L, P)" by fastforce
    show ?thesis using miss_half [OF assms(1) c(1-6,8) no run] assms(4) by (simp add: cache_miss_lid_def coh_def run)
  qed
  show "coh (cache_miss_pn victim pn s) R" if no: "\<And>l. (l, pn) \<notin> R"
  proof -
    obtain P L where run: "cacheMissLocked victim (pnToLIDCache s) (lidToPNCache s) pn = (P, L)" by fastforce
    have "(pn, b) \<notin> R\<inverse>" for b using no by simp
    from miss_half [OF assms(1) c(2,1,4,3,6,7,9) this run] assms(4) show ?thesis by (simp add: cache_miss_pn_def coh_def run)
  qed
qed

lemma filled_unchanged: "cacheFilled (cacheMappingLocked victim s lid pn) = cacheFilled s"
    "cacheFilled (cache_miss_lid victim lid s) = cacheFilled s" "cacheFilled (cache_miss_pn victim pn s) = cacheFilled s"
  by (auto simp: cacheMapping_displaced cache_miss_lid_def cache_miss_pn_def split: prod.split)

lemma known_coh:
  assumes "ok_victim victim" "one_to_one R" "coh s R" "(lid, pn) \<in> R" "cacheFilled s \<Longrightarrow> card R \<le> maxLIDCacheEntries"
  shows "coh (cacheMappingLocked victim s lid pn) R"
proof -
  have "lid \<noteq> ''''" "pn \<noteq> ''''" using assms(2,4) by (auto simp: one_to_one_def named_def)
  then show ?thesis using mapping_coh [OF assms(3,2) _ _ assms(1), of lid pn] assms(5) put_pair_id [OF assms(2,4)] by simp
qed

lemma scan_coh:
  assumes "ok_victim victim" "one_to_one R" "coh s R" "set rows \<subseteq> R" "cacheFilled s \<Longrightarrow> card R \<le> maxLIDCacheEntries"
  shows "coh (scanManyLids victim rows s) R \<and> cacheFilled (scanManyLids victim rows s) = cacheFilled s"
  using assms(3-) 
proof (induction rows arbitrary: s)
  case (Cons r rows)
  obtain lid pn where r: "r = (lid, pn)" by fastforce
  have "coh (cacheMappingLocked victim s lid pn) R" using Cons.prems by (intro known_coh [OF assms(1,2)]) (auto simp: r)
  from Cons.IH [OF this] Cons.prems show ?case by (simp add: scanManyLids_def r filled_unchanged)
qed (simp add: scanManyLids_def)

lemma load_coh:
  assumes "ok_victim victim" "one_to_one (set (done_rows @ rows))" "distinct (done_rows @ rows)" "coh s (set done_rows)"
    and "length (done_rows @ rows) \<le> maxLIDCacheEntries"
  shows "coh (scanManyLids victim rows s) (set (done_rows @ rows))"
  using assms(2-)
proof (induction rows arbitrary: s done_rows)
  case (Cons r rows)
  obtain lid pn where r: "r = (lid, pn)" by fastforce
  have sub: "one_to_one (set done_rows)" using Cons.prems(1) by (auto simp: one_to_one_def inj_on_def named_def)
  have ne: "lid \<noteq> ''''" "pn \<noteq> ''''" using Cons.prems(1) by (auto simp: one_to_one_def named_def r)
  have "a \<noteq> lid \<and> b \<noteq> pn" if ab: "(a, b) \<in> set done_rows" for a b
  proof -
    have "(a, b) \<noteq> (lid, pn)" using Cons.prems(2) ab by (auto simp: r)
    moreover have "inj_on fst (set (done_rows @ r # rows))" "inj_on snd (set (done_rows @ r # rows))"
      using Cons.prems(1) by (simp_all add: one_to_one_def)
    ultimately show ?thesis
      using inj_onD [of fst "set (done_rows @ r # rows)" "(a, b)" "(lid, pn)"] inj_onD [of snd "set (done_rows @ r # rows)" "(a, b)" "(lid, pn)"] ab
      unfolding r by auto
  qed
  then have put: "put_pair (lid, pn) (set done_rows) = set (done_rows @ [r])" by (auto simp: put_pair_def r)
  have "card (set (done_rows @ [r])) \<le> maxLIDCacheEntries" using card_length [of "done_rows @ [r]"] Cons.prems(4) by simp
  then have "coh (cacheMappingLocked victim s lid pn) (set (done_rows @ [r]))"
    using mapping_coh [OF Cons.prems(3) sub ne assms(1)] by (simp only: put)
  from Cons.IH [OF _ _ this] Cons.prems(1,2,4) show ?case by (simp add: scanManyLids_def r)
qed (simp add: scanManyLids_def)


end
