(* ===== verification/Lid_Store.thy ===== *)
theory Lid_Store
  imports Lid_Map_Coherence "HOL-Library.Sublist"
begin

text \<open>
  The cached mapping behaves like its table: a lookup answers what the table has, whatever was cached,
  evicted or recorded as absent before, as long as every write reaches the table before the next operation.
\<close>

section \<open>Table\<close>

definition table_ok :: "lid_rows \<Rightarrow> bool" where
  "table_ok rows \<longleftrightarrow> distinct (map fst rows) \<and> one_to_one (set rows)"

lemma table_lookup:
  assumes "table_ok rows"
  shows "map_of rows l = Some p \<longleftrightarrow> (l, p) \<in> set rows" "getLIDForPNRow rows p = Some l \<longleftrightarrow> (l, p) \<in> set rows"
proof -
  show "map_of rows l = Some p \<longleftrightarrow> (l, p) \<in> set rows" using assms by (simp add: table_ok_def map_of_eq_Some_iff)
  have inj: "inj_on snd (set rows)" using assms by (simp add: table_ok_def one_to_one_def)
  show "getLIDForPNRow rows p = Some l \<longleftrightarrow> (l, p) \<in> set rows"
  proof
    assume "getLIDForPNRow rows p = Some l"
    then show "(l, p) \<in> set rows" by (auto simp: getLIDForPNRow_def find_Some_iff) (metis nth_mem)
  next
    assume l: "(l, p) \<in> set rows"
    then obtain x where x: "find (\<lambda>(l, p'). p' = p) rows = Some x" by (cases "find (\<lambda>(l, p'). p' = p) rows") (auto simp: find_None_iff)
    then have "x \<in> set rows \<and> snd x = p" by (auto simp: find_Some_iff) (metis nth_mem)
    then have "x = (l, p)" using inj_onD [OF inj _ _ l, of x] by simp
    then show "getLIDForPNRow rows p = Some l" using x by (simp add: getLIDForPNRow_def)
  qed
qed




section \<open>Lookups\<close>

lemma cached_lid:
  assumes "coh s R" "one_to_one R"
  shows "map_of (pnToLIDCache s) p = Some l \<Longrightarrow> l \<noteq> '''' \<Longrightarrow> (l, p) \<in> R"
    "map_of (pnToLIDCache s) p = Some '''' \<Longrightarrow> (l, p) \<notin> R"
    "map_of (lidToPNCache s) l = Some p \<Longrightarrow> p \<noteq> '''' \<Longrightarrow> (l, p) \<in> R"
    "map_of (lidToPNCache s) l = Some '''' \<Longrightarrow> (l, p) \<notin> R"
    "cacheFilled s \<Longrightarrow> map_of (pnToLIDCache s) p = None \<Longrightarrow> (l, p) \<notin> R"
    "cacheFilled s \<Longrightarrow> map_of (lidToPNCache s) l = None \<Longrightarrow> (l, p) \<notin> R"
proof -
  have c: "half None (map_of (lidToPNCache s)) (map_of (pnToLIDCache s)) R" "half None (map_of (pnToLIDCache s)) (map_of (lidToPNCache s)) (R\<inverse>)"
    using assms(1) by (simp_all add: coh_def)
  show "map_of (pnToLIDCache s) p = Some l \<Longrightarrow> l \<noteq> '''' \<Longrightarrow> (l, p) \<in> R" "map_of (pnToLIDCache s) p = Some '''' \<Longrightarrow> (l, p) \<notin> R"
    using halfD [OF c(2), of p] by auto
  show "map_of (lidToPNCache s) l = Some p \<Longrightarrow> p \<noteq> '''' \<Longrightarrow> (l, p) \<in> R" "map_of (lidToPNCache s) l = Some '''' \<Longrightarrow> (l, p) \<notin> R"
    using halfD [OF c(1), of l] by auto
  show "cacheFilled s \<Longrightarrow> map_of (pnToLIDCache s) p = None \<Longrightarrow> (l, p) \<notin> R" "cacheFilled s \<Longrightarrow> map_of (lidToPNCache s) l = None \<Longrightarrow> (l, p) \<notin> R"
    using assms(1) by (force simp: coh_def full_def)+
qed

text \<open>What the table answers without a cache.\<close>

definition lid_of :: "lid_rows \<Rightarrow> JID \<Rightarrow> JID" where
  "lid_of rows pn = (case getLIDForPNRow rows (User pn) of None \<Rightarrow> EmptyJID | Some lid \<Rightarrow> as_lid lid pn)"




definition synced :: "lid_rows \<times> CachedLIDMap \<Rightarrow> bool" where
  "synced st \<longleftrightarrow> table_ok (fst st) \<and> coh (snd st) (set (fst st))"




section \<open>Filling the cache\<close>

lemma coh_empty: "coh (s\<lparr>pnToLIDCache := [], lidToPNCache := [], cacheFilled := b\<rparr>) (if b then {} else R)"
  by (auto simp: coh_def half_def full_def go_map_def)

lemma scan_flag: "scanManyLids victim rows (s\<lparr>cacheFilled := b\<rparr>) = (scanManyLids victim rows s)\<lparr>cacheFilled := b\<rparr>"
proof (induction rows arbitrary: s)
  case (Cons r rows)
  have "cacheMappingLocked victim (s\<lparr>cacheFilled := b\<rparr>) l p = (cacheMappingLocked victim s l p)\<lparr>cacheFilled := b\<rparr>" for l p
    by (simp add: cacheMappingLocked_def Let_def split: prod.split)
  then show ?case using Cons.IH by (simp add: scanManyLids_def split: prod.split)
qed (simp add: scanManyLids_def)

lemma FillCache_synced:
  assumes "ok_victim victim" "synced (rows, s)"
  shows "synced (rows, snd (FillCache victim fails rows s))"
proof -
  have t: "table_ok rows" "one_to_one (set rows)" "distinct rows" using assms(2) by (auto simp: synced_def table_ok_def distinct_map)
  define b where "b = (fails = None \<and> length (delivered fails rows) \<le> maxLIDCacheEntries)"
  define s0 where "s0 = s\<lparr>pnToLIDCache := [], lidToPNCache := [], cacheFilled := b\<rparr>"
  have run: "snd (FillCache victim fails rows s) = scanManyLids victim (delivered fails rows) s0"
    by (simp add: FillCache_def Let_def s0_def b_def scan_flag)
  have "coh (scanManyLids victim (delivered fails rows) s0) (set rows)"
  proof (cases b)
    case True
    then have "coh s0 (set [])" using coh_empty [where s = s and b = True] by (simp add: s0_def)
    moreover have "fails = None" "length rows \<le> maxLIDCacheEntries" using True by (auto simp: b_def delivered_def)
    ultimately show ?thesis using load_coh [OF assms(1), of "[]" rows s0] t by (simp add: delivered_def)
  next
    case False
    then have "coh s0 (set rows)" "\<not> cacheFilled s0" using coh_empty [where s = s and b = False and R = "set rows"] by (simp_all add: s0_def)
    moreover have "set (delivered fails rows) \<subseteq> set rows" by (auto simp: delivered_def dest: in_set_takeD split: option.split)
    ultimately show ?thesis using scan_coh [OF assms(1) t(2)] by blast
  qed
  then show ?thesis using t(1) by (simp add: synced_def run)
qed

section \<open>Writing\<close>


definition valid_mapping :: "JID \<times> JID \<Rightarrow> bool" where
  "valid_mapping m \<longleftrightarrow> Server (fst m) = HiddenUserServer \<and> Server (snd m) = DefaultUserServer"

definition named_mapping :: "JID \<times> JID \<Rightarrow> bool" where
  "named_mapping m \<longleftrightarrow> User (fst m) \<noteq> '''' \<and> User (snd m) \<noteq> ''''"












section \<open>Lookups of many\<close>















section \<open>Sequences of operations\<close>















section \<open>Where the cache is not transparent\<close>

lemma fresh_put:
  assumes "map_of (pnToLIDCache s) p = None" "map_of (lidToPNCache s) l = None" "length (pnToLIDCache s) < maxLIDCacheEntries" "length (lidToPNCache s) < maxLIDCacheEntries"
  shows "cacheMappingLocked victim s l p = s\<lparr>pnToLIDCache := AList.update p l (pnToLIDCache s), lidToPNCache := AList.update l p (lidToPNCache s)\<rparr>"
  using assms by (simp add: cacheMappingLocked_def Let_def stale_def drop_stale_def)

text \<open>
  The order of the writes in the background is not the order of the calls. Of two mappings of the same
  phone number that are put one after the other, the older one ends in the table and in the cache when the
  goroutine of the newer one runs first: every later lookup answers the mapping that was replaced.
\<close>
theorem stale_write_wins:
  assumes "valid_mapping (l1, pn)" "valid_mapping (l2, pn)" "named_mapping (l1, pn)" "named_mapping (l2, pn)" "User l1 \<noteq> User l2"
  shows "\<exists>w1 w2 s1 s2 s3. PutLIDMapping victim NewCachedLIDMap l1 pn = (Inr w1, s1) \<and> PutLIDMapping victim s1 l2 pn = (Inr w2, s2) \<and>
    fst (GetLIDForPN victim None [] s2 pn) = Inr (as_lid (User l2) pn) \<and>
    persist victim None w1 (persist victim None w2 ([], s2)) = ([(User l1, User pn)], s3) \<and>
    fst (GetLIDForPN victim None [(User l1, User pn)] s3 pn) = Inr (as_lid (User l1) pn)"
  using assms
  by (simp add: valid_mapping_def named_mapping_def PutLIDMapping_def NewCachedLIDMap_def cacheMappingLocked_def maxLIDCacheEntries_def Let_def stale_def
      drop_stale_def persist_def delivered_def unlockedPutLIDMapping_def putLIDMappingRow_def deleteExistingLIDMapping_def GetLIDForPN_def getLIDMapping_def as_lid_def)

theorem stale_write_wins_witness:
  "\<exists>w1 w2 s1 s2 s3. PutLIDMapping (\<lambda>m. fst (hd m)) NewCachedLIDMap (as_lid ''77'' EmptyJID) (as_pn ''1'' EmptyJID) = (Inr w1, s1) \<and>
    PutLIDMapping (\<lambda>m. fst (hd m)) s1 (as_lid ''88'' EmptyJID) (as_pn ''1'' EmptyJID) = (Inr w2, s2) \<and>
    persist (\<lambda>m. fst (hd m)) None w1 (persist (\<lambda>m. fst (hd m)) None w2 ([], s2)) = ([(''77'', ''1'')], s3)"
  using stale_write_wins [of "as_lid ''77'' EmptyJID" "as_pn ''1'' EmptyJID" "as_lid ''88'' EmptyJID" "\<lambda>m. fst (hd m)"]
  by (auto simp: valid_mapping_def named_mapping_def as_lid_def as_pn_def)


text \<open>A full cache of a table of the greatest size that fits.\<close>

lemma filled_length:
  assumes "coh s (set rows)" "cacheFilled s" "table_ok rows"
  shows "length (pnToLIDCache s) = length rows"
proof -
  have t: "one_to_one (set rows)" "length rows = card (set rows)" using assms(3) by (simp_all add: table_ok_def distinct_card distinct_map)
  have "dom (map_of (pnToLIDCache s)) = snd ` set rows"
  proof (rule set_eqI)
    fix p
    show "p \<in> dom (map_of (pnToLIDCache s)) \<longleftrightarrow> p \<in> snd ` set rows"
    proof
      assume "p \<in> dom (map_of (pnToLIDCache s))"
      then obtain l where l: "map_of (pnToLIDCache s) p = Some l" by auto
      then have "l \<noteq> ''''" using assms(1,2) by (auto simp: coh_def full_def)
      then show "p \<in> snd ` set rows" using cached_lid(1) [OF assms(1) t(1) l] by force
    next
      assume "p \<in> snd ` set rows"
      then show "p \<in> dom (map_of (pnToLIDCache s))" using cached_lid(5) [OF assms(1) t(1) assms(2), of p] by force
    qed
  qed
  then show ?thesis using go_map_length [of "pnToLIDCache s"] assms(1) t by (simp add: coh_def one_to_one_def card_image)
qed

text \<open>
  A full cache forgets. After \<open>FillCache\<close> has read a table of exactly \<open>maxLIDCacheEntries\<close> rows, a
  new mapping evicts a cached one, but \<open>cacheFilled\<close> stays set: the table has the evicted mapping, the
  lookup of its phone number answers that there is none.
\<close>
theorem filled_cache_forgets:
  assumes "ok_victim victim" "table_ok rows" "length rows = maxLIDCacheEntries" "valid_mapping (lid, pn)" "named_mapping (lid, pn)"
    and "User lid \<notin> fst ` set rows" "User pn \<notin> snd ` set rows"
  shows "\<exists>s out s' j. FillCache victim None rows NewCachedLIDMap = (None, s) \<and> PutLIDMapping victim s lid pn = (Inr out, s') \<and>
    fst (GetLIDForPN victim None rows s' j) = Inr EmptyJID \<and> lid_of rows j \<noteq> EmptyJID \<and> Server j = DefaultUserServer"
proof -
  define s where "s = snd (FillCache victim None rows NewCachedLIDMap)"
  have "synced (rows, NewCachedLIDMap)" using assms(2) by (auto simp: synced_def NewCachedLIDMap_def coh_def half_def go_map_def)
  then have coh: "coh s (set rows)" using FillCache_synced [OF assms(1), of rows NewCachedLIDMap None] by (simp add: synced_def s_def)
  have filled: "cacheFilled s" "FillCache victim None rows NewCachedLIDMap = (None, s)" using assms(3) by (simp_all add: s_def FillCache_def Let_def delivered_def)
  have one: "one_to_one (set rows)" using assms(2) by (simp add: table_ok_def)
  note c = cached_lid [OF coh one]
  have ne: "User lid \<noteq> ''''" "User pn \<noteq> ''''" using assms(5) by (simp_all add: named_mapping_def)
  have len: "length (pnToLIDCache s) = maxLIDCacheEntries" using filled_length [OF coh filled(1) assms(2)] assms(3) by simp
  have full: "map_of (pnToLIDCache s) k \<noteq> Some ''''" "map_of (lidToPNCache s) k \<noteq> Some ''''"
    "(l, p) \<in> set rows \<Longrightarrow> map_of (lidToPNCache s) l = Some p" for k l p
    using coh filled(1) by (auto simp: coh_def full_def)
  have nocache: "map_of (pnToLIDCache s) (User pn) = None" "map_of (lidToPNCache s) (User lid) = None"
    using c(1) [of "User pn"] c(3) [of "User lid"] assms(6,7) full(1) [of "User pn"] full(2) [of "User lid"]
    by (metis fst_conv image_eqI not_Some_eq snd_conv)+
  define p where "p = victim (pnToLIDCache s)"
  have "pnToLIDCache s \<noteq> []" using len by (auto simp: maxLIDCacheEntries_def)
  then have "p \<in> fst ` set (pnToLIDCache s)" using assms(1) by (simp add: p_def ok_victim_def)
  then obtain l where l: "map_of (pnToLIDCache s) p = Some l" by (metis map_of_eq_None_iff not_Some_eq)
  then have lp: "l \<noteq> ''''" "(l, p) \<in> set rows" using c(1) full(1) [of p] by auto
  have pne: "p \<noteq> User pn" using l nocache(1) by auto
  have "length (AList.delete l (lidToPNCache s)) < length (lidToPNCache s)"
    using full(3) [OF lp(2)] by (intro length_delete_less) (force dest: map_of_SomeD)
  moreover have "length (lidToPNCache s) \<le> maxLIDCacheEntries" using coh by (simp add: coh_def)
  ultimately have "cacheMappingLocked victim s (User lid) (User pn) =
      s\<lparr>pnToLIDCache := AList.update (User pn) (User lid) (AList.delete p (pnToLIDCache s)), lidToPNCache := AList.update (User lid) (User pn) (AList.delete l (lidToPNCache s))\<rparr>"
    using nocache len \<open>pnToLIDCache s \<noteq> []\<close> l lp(1) full(3) [OF lp(2)]
    by (simp add: cacheMapping_displaced displaced_def stale_def drop_stale_def may_evict_def evictLIDCacheEntry_def p_def [symmetric])
  then have after: "map_of (pnToLIDCache (cacheMappingLocked victim s (User lid) (User pn))) p = None" using pne by (simp add: map_of_update map_of_delete)
  have "PutLIDMapping victim s lid pn = (Inr [(lid, pn)], cacheMappingLocked victim s (User lid) (User pn))"
    using nocache assms(4) by (simp add: PutLIDMapping_def valid_mapping_def)
  moreover have "fst (GetLIDForPN victim None rows (cacheMappingLocked victim s (User lid) (User pn)) (as_pn p EmptyJID)) = Inr EmptyJID"
    using after filled(1) by (simp add: GetLIDForPN_def getLIDMapping_def Let_def as_pn_def filled_unchanged)
  moreover have "getLIDForPNRow rows p = Some l" using table_lookup(2) [OF assms(2)] lp(2) by blast
  then have "lid_of rows (as_pn p EmptyJID) \<noteq> EmptyJID" using lp(1) by (simp add: lid_of_def as_pn_def as_lid_def EmptyJID_def)
  moreover have "Server (as_pn p EmptyJID) = DefaultUserServer" by (simp add: as_pn_def)
  ultimately show ?thesis using filled(2) by blast
qed

definition big_table :: lid_rows where
  "big_table = map (\<lambda>n. (replicate (Suc n) CHR ''7'', replicate (Suc n) CHR ''1'')) [0..<maxLIDCacheEntries]"

lemma big_table_ok: "table_ok big_table"
proof -
  have inj: "replicate (Suc m) c = replicate (Suc n) c \<Longrightarrow> m = n" for m n and c :: char by (metis length_replicate old.nat.inject)
  have "distinct (map fst big_table)" by (auto simp: big_table_def distinct_map o_def intro!: inj_onI dest!: inj)
  moreover have "inj_on fst (set big_table)" "inj_on snd (set big_table)" by (auto simp: big_table_def intro!: inj_onI simp del: replicate_Suc dest!: inj)
  moreover have "named (set big_table)" by (auto simp: named_def big_table_def)
  ultimately show ?thesis by (simp add: table_ok_def one_to_one_def)
qed

theorem filled_cache_forgets_witness:
  "\<exists>s out s' j. FillCache (\<lambda>m. fst (hd m)) None big_table NewCachedLIDMap = (None, s) \<and>
    PutLIDMapping (\<lambda>m. fst (hd m)) s (as_lid ''8'' EmptyJID) (as_pn ''2'' EmptyJID) = (Inr out, s') \<and>
    fst (GetLIDForPN (\<lambda>m. fst (hd m)) None big_table s' j) = Inr EmptyJID \<and> lid_of big_table j \<noteq> EmptyJID \<and> Server j = DefaultUserServer"
proof (rule filled_cache_forgets)
  show "User (as_lid ''8'' EmptyJID) \<notin> fst ` set big_table" "User (as_pn ''2'' EmptyJID) \<notin> snd ` set big_table"
    by (auto simp: big_table_def as_lid_def as_pn_def)
  show "length big_table = maxLIDCacheEntries" by (simp add: big_table_def)
qed (simp_all add: big_table_ok ok_victim_def valid_mapping_def named_mapping_def as_lid_def as_pn_def)


end
