(* ===== verification/Mlow_Frames.thy ===== *)
theory Mlow_Frames
  imports Prelude
begin

text \<open>
  The framing of the MLow audio payloads: redundancy blocks (\<open>lib/mlow/red.go\<close>), containers of several
  frames (\<open>splitContainer\<close> of \<open>lib/mlow/decoder.go\<close>) and the first byte of a frame (\<open>lib/mlow/toc.go\<close>).
  An index or a slice outside the payload is the error \<open>RedPanic\<close>.
\<close>

section \<open>Redundancy\<close>

record MlowFrame =
  mf_Data :: bytes
  TimeCode :: u8
  IsMain :: bool

datatype red_error = ErrPktSizeZero | ErrHeaderTooShort | ErrRedundantTooShort | ErrMainTooShort | RedPanic

type_synonym redBlock = "u8 \<times> u8"

function red_headers :: "bytes \<Rightarrow> nat \<Rightarrow> nat \<Rightarrow> redBlock list \<Rightarrow> red_error + nat \<times> nat \<times> redBlock list" where
  "red_headers p cur rem red =
     (if rem = 0 then Inl ErrHeaderTooShort
      else if cur \<ge> length p then Inl RedPanic
      else let b0 = p ! cur
        in if b0 < 0x80 then (if rem \<le> 1 then Inl ErrMainTooShort else Inr (cur, rem, red))
           else if rem \<le> 2 then Inl ErrRedundantTooShort
           else if cur + 1 \<ge> length p then Inl RedPanic
           else let sz = p ! (cur + 1)
             in if unat sz + 2 \<ge> rem then Inl ErrRedundantTooShort
                else red_headers p (cur + 2) (rem - (unat sz + 2)) (red @ [(b0 AND 0x7F, sz)]))"
  by pat_completeness auto
termination by (relation "measure (\<lambda>(p, cur, rem, red). rem)") auto

declare red_headers.simps [simp del]

definition red_slice :: "bytes \<Rightarrow> nat \<Rightarrow> nat \<Rightarrow> red_error + bytes" where
  "red_slice p cur n = (if cur + n \<le> length p then Inr (take n (drop cur p)) else Inl RedPanic)"

fun red_frames :: "bytes \<Rightarrow> nat \<Rightarrow> redBlock list \<Rightarrow> red_error + MlowFrame list \<times> nat" where
  "red_frames p cur [] = Inr ([], cur)"
| "red_frames p cur ((code, sz) # red) =
     bind_res (red_slice p cur (unat sz)) (\<lambda>d.
     bind_res (red_frames p (cur + unat sz) red) (\<lambda>(fs, cur).
       Inr (\<lparr>mf_Data = d, TimeCode = code, IsMain = False\<rparr> # fs, cur)))"

definition DepackSplitRed :: "bytes \<Rightarrow> red_error + MlowFrame list" where
  "DepackSplitRed p =
     (if p = [] then Inl ErrPktSizeZero
      else
        bind_res (red_headers p 0 (length p) []) (\<lambda>(cur, rem, red).
        let mainCode = p ! cur AND 0x7F
        in bind_res (red_frames p (cur + 1) red) (\<lambda>(fs, cur).
           bind_res (red_slice p cur (rem - 1)) (\<lambda>d.
             Inr (fs @ [\<lparr>mf_Data = d, TimeCode = mainCode, IsMain = True\<rparr>])))))"

section \<open>Containers\<close>

fun container_loop :: "nat \<Rightarrow> bytes \<Rightarrow> nat \<Rightarrow> bytes list \<Rightarrow> (bytes list \<times> nat) option" where
  "container_loop 0 p off frames = Some (frames, off)"
| "container_loop (Suc n) p off frames =
     (if off \<ge> length p then None
      else let flen = unat (p ! off); off = off + 1
        in if off + flen > length p then None
           else container_loop n p (off + flen) (frames @ [take flen (drop off p)]))"

definition splitContainer :: "bytes \<Rightarrow> bytes list option" where
  "splitContainer p =
     (if length p < 3 \<or> p ! 0 \<noteq> 0x92 then None
      else let count = unat (p ! 1)
        in if count < 2 \<or> count > 8 then None
           else case container_loop (count - 1) p 2 [] of
             None \<Rightarrow> None
           | Some (frames, off) \<Rightarrow> if off \<ge> length p then None else Some (frames @ [drop off p]))"

section \<open>First byte\<close>




section \<open>The grammar of redundancy packets\<close>

definition red_hdr :: "redBlock \<Rightarrow> bytes" where
  "red_hdr b = [fst b OR 0x80, snd b]"

lemma red_hdr_pair: "red_hdr (c, s) = [c OR 0x80, s]"
  by (simp add: red_hdr_def)

definition red_len :: "redBlock list \<Rightarrow> nat" where
  "red_len bs = (\<Sum>b \<leftarrow> bs. unat (snd b) + 2)"

text \<open>A packet of redundant frames \<open>red\<close>, each a time code and its bytes, and the main frame.\<close>

definition red_packet :: "(u8 \<times> bytes) list \<Rightarrow> u8 \<Rightarrow> bytes \<Rightarrow> bytes" where
  "red_packet red code main =
     concat (map (\<lambda>(c, d). red_hdr (c, of_nat (length d))) red) @ code # concat (map snd red) @ main"

definition red_ok :: "(u8 \<times> bytes) list \<Rightarrow> u8 \<Rightarrow> bytes \<Rightarrow> bool" where
  "red_ok red code main \<longleftrightarrow> list_all (\<lambda>(c, d). c < 0x80 \<and> length d < 256) red \<and> code < 0x80 \<and> main \<noteq> []"

definition red_parts :: "(u8 \<times> bytes) list \<Rightarrow> u8 \<Rightarrow> bytes \<Rightarrow> MlowFrame list" where
  "red_parts red code main =
     map (\<lambda>(c, d). \<lparr>mf_Data = d, TimeCode = c, IsMain = False\<rparr>) red @ [\<lparr>mf_Data = main, TimeCode = code, IsMain = True\<rparr>]"

lemma byte_high: "(b :: u8) < 0x80 \<longleftrightarrow> \<not> bit b 7"
proof -
  have "odd (unat b div 128) \<longleftrightarrow> \<not> unat b < 128" using unat_u8_less [of b] div_nat_eqI [of 128 1 "unat b"] by (cases "unat b < 128") auto
  moreover have "bit b 7 \<longleftrightarrow> bit (unat b) 7" by (simp add: bit_unsigned_iff)
  ultimately show ?thesis by (simp add: word_less_nat_alt bit_iff_odd [of "unat b"])
qed

lemma bit_marks: "bit (0x80 :: u8) n \<longleftrightarrow> n = 7" "bit (0x7F :: u8) n \<longleftrightarrow> n < 7"
proof -
  have 1: "(0x80 :: u8) = push_bit 7 1" and 2: "(0x7F :: u8) = mask 7" by (simp_all add: mask_eq_exp_minus_1)
  show "bit (0x80 :: u8) n \<longleftrightarrow> n = 7" unfolding 1 bit_push_bit_iff bit_1_iff by (auto simp: possible_bit_word)
  show "bit (0x7F :: u8) n \<longleftrightarrow> n < 7" unfolding 2 bit_mask_iff by (auto simp: possible_bit_word)
qed

lemma byte_marks:
  "\<not> b < 0x80 \<Longrightarrow> (b AND 0x7F) OR 0x80 = (b :: u8)" "(b AND 0x7F :: u8) < 0x80" "b < 0x80 \<Longrightarrow> b AND 0x7F = (b :: u8)"
  "b < 0x80 \<Longrightarrow> (b OR 0x80) AND 0x7F = (b :: u8)" "\<not> b OR 0x80 < (0x80 :: u8)"
proof -
  have n: "n \<noteq> 7 \<Longrightarrow> n < 8 \<longleftrightarrow> n < 7" for n :: nat by linarith
  have eq: "x = y" if "\<And>n. n < 7 \<Longrightarrow> bit x n = bit y n" "bit x 7 = bit y 7" for x y :: u8
  proof (rule bit_word_eqI)
    fix k assume "k < LENGTH(8)"
    then show "bit x k = bit y k" using that n [of k] by (cases "k = 7") simp_all
  qed
  show "\<not> b < 0x80 \<Longrightarrow> (b AND 0x7F) OR 0x80 = (b :: u8)" "b < 0x80 \<Longrightarrow> b AND 0x7F = (b :: u8)" "b < 0x80 \<Longrightarrow> (b OR 0x80) AND 0x7F = (b :: u8)"
    by (rule eq; simp only: byte_high bit_marks bit_and_iff bit_or_iff; simp)+
qed (simp_all add: byte_high bit_marks bit_and_iff bit_or_iff)

lemma red_headers_sound:
  assumes "red_headers p cur rem red = Inr (cur', rem', red')"
  shows "\<exists>bs. red' = red @ bs \<and> drop cur p = concat (map red_hdr bs) @ drop cur' p \<and> cur' = cur + 2 * length bs \<and>
    rem = red_len bs + rem' \<and> cur' < length p \<and> p ! cur' < 0x80 \<and> 1 < rem' \<and> list_all (\<lambda>b. fst b < 0x80) bs"
  using assms
proof (induction p cur rem red rule: red_headers.induct)
  case (1 p cur rem red)
  show ?case
  proof (cases "rem = 0 \<or> cur \<ge> length p \<or> p ! cur < 0x80 \<or> rem \<le> 2 \<or> cur + 1 \<ge> length p \<or> unat (p ! (cur + 1)) + 2 \<ge> rem")
    case True
    then show ?thesis using 1(2) by (subst (asm) red_headers.simps) (auto simp: Let_def red_len_def split: if_splits)
  next
    case False
    define b where "b = (p ! cur AND 0x7F, p ! (cur + 1))"
    have rec: "red_headers p (cur + 2) (rem - (unat (p ! (cur + 1)) + 2)) (red @ [b]) = Inr (cur', rem', red')"
      using 1(2) False by (subst (asm) red_headers.simps) (auto simp: Let_def b_def)
    from 1(1) [OF _ _ refl _ _ _ refl] False rec obtain bs where bs: "red' = (red @ [b]) @ bs" "drop (cur + 2) p = concat (map red_hdr bs) @ drop cur' p"
        "cur' = cur + 2 + 2 * length bs" "rem - (unat (p ! (cur + 1)) + 2) = red_len bs + rem'" "cur' < length p" "p ! cur' < 0x80" "1 < rem'" "list_all (\<lambda>b. fst b < 0x80) bs"
      unfolding b_def by auto
    have "drop cur p = p ! cur # p ! (cur + 1) # drop (cur + 2) p" using False by (simp add: Cons_nth_drop_Suc)
    moreover have "(p ! cur AND 0x7F) OR 0x80 = p ! cur" using False byte_marks(1) by blast
    ultimately show ?thesis using bs False byte_marks(2) by (intro exI [of _ "b # bs"]) (auto simp: b_def red_hdr_pair red_len_def)
  qed
qed

lemma drop_two:
  assumes "drop n p = a # b # r"
  shows "p ! n = a" "p ! (n + 1) = b" "n + 1 < length p" "drop (n + 2) p = r"
proof -
  have "length p - n = length (a # b # r)" using assms by (metis length_drop)
  then show l: "n + 1 < length p" by simp
  show "p ! n = a" using nth_via_drop [OF assms] .
  have s: "drop (n + 1) p = b # r" using arg_cong [OF assms, of "drop 1"] by (simp add: add.commute)
  then show "p ! (n + 1) = b" by (rule nth_via_drop)
  show "drop (n + 2) p = r" using arg_cong [OF s, of "drop 1"] by (simp add: add.commute)
qed

lemma red_headers_complete:
  assumes "drop cur p = concat (map red_hdr bs) @ code # rest" "code < 0x80" "list_all (\<lambda>b. fst b < 0x80) bs" "1 < rem'"
  shows "red_headers p cur (red_len bs + rem') red = Inr (cur + 2 * length bs, rem', red @ bs)"
  using assms(1,3)
proof (induction bs arbitrary: cur red)
  case Nil
  then have "cur < length p" "p ! cur = code" by (auto simp: nth_via_drop intro: ccontr)
  then show ?case using assms(2,4) by (subst red_headers.simps) (simp add: red_len_def)
next
  case (Cons b bs)
  obtain c sz where b: "b = (c, sz)" by fastforce
  have d: "drop cur p = (c OR 0x80) # sz # concat (map red_hdr bs) @ code # rest" using Cons.prems(1) by (simp add: b red_hdr_pair)
  note p = drop_two [OF d]
  have c: "c < 0x80" "list_all (\<lambda>b. fst b < 0x80) bs" using Cons.prems(2) by (simp_all add: b)
  have "red_headers p cur (red_len (b # bs) + rem') red = red_headers p (cur + 2) (red_len bs + rem') (red @ [b])"
    using p assms(4) byte_marks(4) [OF c(1)] byte_marks(5) [of c] by (subst red_headers.simps) (simp add: red_len_def b Let_def)
  then show ?case using Cons.IH [OF p(4) c(2)] by simp
qed


lemma red_headers_no_panic: "rem \<le> length p - cur \<Longrightarrow> red_headers p cur rem red \<noteq> Inl RedPanic"
proof (induction p cur rem red rule: red_headers.induct)
  case (1 p cur rem red)
  have inside: "rem \<noteq> 0 \<Longrightarrow> cur < length p" "2 < rem \<Longrightarrow> cur + 1 < length p" using 1(2) by linarith+
  show ?case
  proof (cases "rem = 0 \<or> p ! cur < 0x80 \<or> rem \<le> 2 \<or> unat (p ! (cur + 1)) + 2 \<ge> rem")
    case True
    then show ?thesis using inside
      by (cases "rem = 0"; cases "rem \<le> 2"; subst red_headers.simps) (auto simp: Let_def)
  next
    case False
    let ?sz = "p ! (cur + 1)"
    have "red_headers p cur rem red = red_headers p (cur + 2) (rem - (unat ?sz + 2)) (red @ [(p ! cur AND 0x7F, ?sz)])"
      using False inside by (subst red_headers.simps) (simp add: Let_def)
    moreover have "red_headers p (cur + 2) (rem - (unat ?sz + 2)) (red @ [(p ! cur AND 0x7F, ?sz)]) \<noteq> Inl RedPanic"
      using False 1(2) inside by (intro 1(1) [OF _ _ refl _ _ _ refl]) auto
    ultimately show ?thesis by simp
  qed
qed

abbreviation block_of :: "u8 \<times> bytes \<Rightarrow> redBlock" where
  "block_of x \<equiv> (fst x, of_nat (length (snd x)))"

lemma red_frames_run:
  assumes "list_all (\<lambda>x. length (snd x) < 256) red" "drop cur p = concat (map snd red) @ rest" "cur \<le> length p"
  shows "red_frames p cur (map block_of red) =
    Inr (map (\<lambda>x. \<lparr>mf_Data = snd x, TimeCode = fst x, IsMain = False\<rparr>) red, cur + length (concat (map snd red)))"
  using assms
proof (induction red arbitrary: cur)
  case (Cons x red)
  obtain c d where x: "x = (c, d)" by fastforce
  have u: "unat (of_nat (length d) :: u8) = length d" using Cons.prems(1) by (simp add: x unat_of_nat)
  have "length p - cur = length (concat (map snd (x # red)) @ rest)" using Cons.prems(2) by (metis length_drop)
  then have l: "cur + length d \<le> length p" using Cons.prems(3) by (simp add: x)
  have "drop (length d) (drop cur p) = concat (map snd red) @ rest" by (simp add: Cons.prems(2) x)
  then have "drop (cur + length d) p = concat (map snd red) @ rest" by (simp add: add.commute)
  from Cons.IH [OF _ this l] Cons.prems(1) have "red_frames p (cur + length d) (map block_of red) =
      Inr (map (\<lambda>x. \<lparr>mf_Data = snd x, TimeCode = fst x, IsMain = False\<rparr>) red, cur + length d + length (concat (map snd red)))" by simp
  moreover have "take (length d) (drop cur p) = d" by (simp add: Cons.prems(2) x)
  ultimately show ?case using l by (simp add: x u red_slice_def)
qed simp

lemma red_split:
  assumes "(\<Sum>b \<leftarrow> bs. unat (snd b)) \<le> length xs" "list_all (\<lambda>b. fst b < 0x80) bs"
  shows "\<exists>red rest. bs = map block_of red \<and> xs = concat (map snd red) @ rest \<and> list_all (\<lambda>x. fst x < 0x80 \<and> length (snd x) < 256) red"
  using assms
proof (induction bs arbitrary: xs)
  case Nil
  then show ?case by (intro exI [of _ "[]"] exI [of _ xs]) simp
next
  case (Cons b bs)
  have "(\<Sum>b \<leftarrow> bs. unat (snd b)) \<le> length (drop (unat (snd b)) xs)" "list_all (\<lambda>b. fst b < 0x80) bs" using Cons.prems by auto
  from Cons.IH [OF this] obtain red rest where
    IH: "bs = map block_of red" "drop (unat (snd b)) xs = concat (map snd red) @ rest" "list_all (\<lambda>x. fst x < 0x80 \<and> length (snd x) < 256) red"
    by blast
  have "unat (snd b) \<le> length xs" using Cons.prems(1) by simp
  moreover have "xs = take (unat (snd b)) xs @ concat (map snd red) @ rest" using IH(2) by (metis append_take_drop_id)
  ultimately show ?case using IH(1,3) Cons.prems(2) unat_u8_less [of "snd b"] by (intro exI [of _ "(fst b, take (unat (snd b)) xs) # red"] exI [of _ rest]) (auto simp: min_absorb2)
qed

lemma red_len_blocks: "list_all (\<lambda>x. length (snd x) < 256) red \<Longrightarrow> red_len (map block_of red) = 2 * length red + length (concat (map snd red))"
  by (induction red) (auto simp: red_len_def unat_of_nat)

lemma red_hdr_length: "length (concat (map red_hdr bs)) = 2 * length bs"
  by (induction bs) (auto simp: red_hdr_def)

lemma Depack_packet:
  assumes "red_ok red code main"
  shows "DepackSplitRed (red_packet red code main) = Inr (red_parts red code main)"
proof -
  let ?p = "red_packet red code main" and ?bs = "map block_of red"
  have ok: "list_all (\<lambda>x. length (snd x) < 256) red" "list_all (\<lambda>b. fst b < 0x80) ?bs" "code < 0x80" "main \<noteq> []"
    using assms by (auto simp: red_ok_def list_all_iff)
  have p: "?p = concat (map red_hdr ?bs) @ code # concat (map snd red) @ main" by (simp add: red_packet_def o_def case_prod_beta')
  have len: "length ?p = red_len ?bs + (length main + 1)" unfolding p length_append red_hdr_length red_len_blocks [OF ok(1)] by simp
  have h: "red_headers ?p 0 (length ?p) [] = Inr (2 * length red, length main + 1, ?bs)"
    using red_headers_complete [of 0 ?p ?bs code "concat (map snd red) @ main" "length main + 1" "[]"] ok p unfolding len by simp
  have "drop (2 * length red) ?p = code # concat (map snd red) @ main" using red_hdr_length [of ?bs] by (simp add: p)
  from nth_via_drop [OF this] arg_cong [OF this, of "drop 1"]
  have d: "?p ! (2 * length red) = code" "drop (2 * length red + 1) ?p = concat (map snd red) @ main" by (simp_all add: add.commute)
  have "drop (2 * length red + 1 + length (concat (map snd red))) ?p = main" using arg_cong [OF d(2), of "drop (length (concat (map snd red)))"] by (simp add: add.commute)
  moreover have "2 * length red + 1 \<le> length ?p" "2 * length red + 1 + length (concat (map snd red)) + length main \<le> length ?p"
    using len red_len_blocks [OF ok(1)] by simp_all
  ultimately show ?thesis using h red_frames_run [OF ok(1) d(2)] d(1) byte_marks(3) [OF ok(3)] ok(4)
    by (simp add: DepackSplitRed_def red_slice_def red_parts_def case_prod_beta' p)
qed


text \<open>
  C34: The grammar of a redundancy packet. \<open>DepackSplitRed\<close> never reads outside its payload, and it accepts
  exactly the packets of redundant blocks of at most 255 bytes with seven-bit time codes followed by a
  main frame of at least one byte; the frames it returns are those blocks, in order, the main frame last.
\<close>
theorem red_packets_exact:
  "DepackSplitRed p \<noteq> Inl RedPanic \<and>
   (DepackSplitRed p = Inr fs \<longleftrightarrow> (\<exists>red code main. red_ok red code main \<and> p = red_packet red code main \<and> fs = red_parts red code main))"
proof -
  have grammar: "\<exists>red code main. red_ok red code main \<and> p = red_packet red code main" if h: "red_headers p 0 (length p) [] = Inr (cur, rem, bs)" for cur rem bs
  proof -
    have s: "p = concat (map red_hdr bs) @ drop cur p" "cur = 2 * length bs" "length p = red_len bs + rem" "cur < length p" "p ! cur < 0x80" "1 < rem"
        "list_all (\<lambda>b. fst b < 0x80) bs" using red_headers_sound [OF h] by auto
    have "red_len bs = 2 * length bs + (\<Sum>b \<leftarrow> bs. unat (snd b))" by (induction bs) (auto simp: red_len_def)
    then have "(\<Sum>b \<leftarrow> bs. unat (snd b)) < length (drop (cur + 1) p)" using s by simp
    then obtain red rest where r: "bs = map block_of red" "drop (cur + 1) p = concat (map snd red) @ rest" "list_all (\<lambda>x. fst x < 0x80 \<and> length (snd x) < 256) red"
      using red_split [OF less_imp_le s(7)] by blast
    have "list_all (\<lambda>x. length (snd x) < 256) red" using r(3) by (auto simp: list_all_iff)
    from red_len_blocks [OF this] have "length rest = rem - 1" using r(1) s arg_cong [OF r(2), of length] by simp
    then have "rest \<noteq> []" using s(6) by auto
    moreover have "drop cur p = p ! cur # concat (map snd red) @ rest" using s(4) r(2) by (simp add: Cons_nth_drop_Suc [symmetric])
    then have "p = red_packet red (p ! cur) rest" using s(1) r(1) by (simp add: red_packet_def o_def case_prod_beta')
    ultimately show ?thesis using s(5) r(3) by (intro exI [of _ red] exI [of _ "p ! cur"] exI [of _ rest]) (auto simp: red_ok_def list_all_iff)
  qed
  show ?thesis
  proof (cases "red_headers p 0 (length p) []")
    case (Inl e)
    then have "DepackSplitRed p = Inl (if p = [] then ErrPktSizeZero else e)" by (simp add: DepackSplitRed_def)
    moreover have "e \<noteq> RedPanic" using red_headers_no_panic [of "length p" p 0 "[]"] Inl by auto
    ultimately show ?thesis using Depack_packet by force
  next
    case (Inr r)
    then obtain red code main where "red_ok red code main" "p = red_packet red code main" using grammar by (cases r) blast
    then show ?thesis using Depack_packet by (metis Inl_Inr_False sum.inject(2))
  qed
qed

theorem red_packets_exact_witness:
  "DepackSplitRed (red_packet [(3, [1, 2])] 5 [7]) = Inr (red_parts [(3, [1, 2])] 5 [7])"
proof -
  have "red_ok [(3, [1, 2])] 5 [7]" by (simp add: red_ok_def)
  then show ?thesis using red_packets_exact [of "red_packet [(3, [1, 2])] 5 [7]" "red_parts [(3, [1, 2])] 5 [7]"] by blast
qed

section \<open>The grammar of containers\<close>

definition container :: "bytes list \<Rightarrow> bytes" where
  "container fs = 0x92 # of_nat (length fs) # concat (map (\<lambda>f. of_nat (length f) # f) (butlast fs)) @ last fs"

definition container_ok :: "bytes list \<Rightarrow> bool" where
  "container_ok fs \<longleftrightarrow> 2 \<le> length fs \<and> length fs \<le> 8 \<and> list_all (\<lambda>f. length f < 256) (butlast fs) \<and> last fs \<noteq> []"

lemma container_loop_sound:
  assumes "container_loop n p off fs = Some (fs', off')"
  shows "\<exists>gs. fs' = fs @ gs \<and> length gs = n \<and> list_all (\<lambda>f. length f < 256) gs \<and> drop off p = concat (map (\<lambda>f. of_nat (length f) # f) gs) @ drop off' p"
  using assms
proof (induction n p off fs rule: container_loop.induct)
  case (2 n p off fs)
  let ?l = "unat (p ! off)" and ?f = "take (unat (p ! off)) (drop (off + 1) p)"
  have in_range: "off < length p" "off + 1 + ?l \<le> length p" and rec: "container_loop n p (off + 1 + ?l) (fs @ [?f]) = Some (fs', off')"
    using 2(2) by (auto simp: Let_def split: if_splits)
  then obtain gs where gs: "fs' = (fs @ [?f]) @ gs" "length gs = n" "list_all (\<lambda>f. length f < 256) gs"
      "drop (off + 1 + ?l) p = concat (map (\<lambda>f. of_nat (length f) # f) gs) @ drop off' p"
    using 2(1) [OF _ refl refl] by auto
  have "drop (off + 1) p = ?f @ drop (off + 1 + ?l) p" using append_take_drop_id [of ?l "drop (off + 1) p"] by (simp add: add.commute)
  then have "drop off p = p ! off # ?f @ drop (off + 1 + ?l) p" using in_range(1) by (simp add: Cons_nth_drop_Suc [symmetric])
  moreover have "length ?f = ?l" using in_range by simp
  ultimately show ?case using gs by (intro exI [of _ "?f # gs"]) simp
qed simp

lemma container_loop_complete:
  assumes "list_all (\<lambda>f. length f < 256) gs" "drop off p = concat (map (\<lambda>f. of_nat (length f) # f) gs) @ rest" "rest \<noteq> []"
  shows "container_loop (length gs) p off fs = Some (fs @ gs, length p - length rest)"
  using assms(1,2)
proof (induction gs arbitrary: off fs)
  case Nil
  then have "length p - off = length rest" "off < length p" using assms(3) by (metis append_Nil concat.simps(1) length_drop list.simps(8), metis append_Nil assms(3) concat.simps(1) drop_eq_Nil list.simps(8) not_le)
  then show ?case by simp
next
  case (Cons f gs)
  have u: "unat (of_nat (length f) :: u8) = length f" using Cons.prems(1) by (simp add: unat_of_nat)
  have d: "drop off p = of_nat (length f) # f @ concat (map (\<lambda>f. of_nat (length f) # f) gs) @ rest" using Cons.prems(2) by simp
  have l: "length p - off = Suc (length f + length (concat (map (\<lambda>f. of_nat (length f) # f :: bytes) gs) @ rest))" using arg_cong [OF d, of length] by simp
  have h: "p ! off = of_nat (length f)" using nth_via_drop [OF d] .
  have t: "drop (off + 1) p = f @ concat (map (\<lambda>f. of_nat (length f) # f) gs) @ rest" using arg_cong [OF d, of "drop 1"] by (simp add: add.commute)
  have "drop (off + 1 + length f) p = concat (map (\<lambda>f. of_nat (length f) # f) gs) @ rest" using arg_cong [OF t, of "drop (length f)"] by (simp add: add.commute)
  from Cons.IH [OF _ this, of "fs @ [f]"] Cons.prems(1) show ?case using l h u t by (simp add: Let_def)
qed

text \<open>
  The grammar of a container. \<open>splitContainer\<close> accepts exactly the encodings of two to eight frames,
  all but the last of at most 255 bytes and the last not empty, and returns those frames.
\<close>
theorem containers_exact:
  "splitContainer p = Some fs \<longleftrightarrow> container_ok fs \<and> p = container fs"
proof
  assume s: "splitContainer p = Some fs"
  then obtain gs off where p: "3 \<le> length p" "p ! 0 = 0x92" "2 \<le> unat (p ! 1)" "unat (p ! 1) \<le> 8" and
      l: "container_loop (unat (p ! 1) - 1) p 2 [] = Some (gs, off)" "off < length p" "fs = gs @ [drop off p]"
    by (auto simp: splitContainer_def Let_def split: if_splits option.splits)
  from container_loop_sound [OF l(1)] have g: "length gs = unat (p ! 1) - 1" "list_all (\<lambda>f. length f < 256) gs"
      "drop 2 p = concat (map (\<lambda>f. of_nat (length f) # f) gs) @ drop off p" by auto
  have n: "length fs = unat (p ! 1)" using l(3) g(1) p(3) by simp
  then have "of_nat (length fs) = p ! 1" by simp
  moreover have "p = p ! 0 # p ! 1 # drop 2 p" using p(1) by (cases p; cases "tl p") auto
  ultimately have "p = container fs" using p(2) g(3) l(3) by (simp add: container_def)
  then show "container_ok fs \<and> p = container fs" using n p(3,4) g(2) l(2,3) by (simp add: container_ok_def)
next
  assume a: "container_ok fs \<and> p = container fs"
  define gs where "gs = butlast fs"
  have fs: "fs = gs @ [last fs]" "last fs \<noteq> []" "length gs = length fs - 1" using a by (auto simp: gs_def container_ok_def intro: append_butlast_last_id [symmetric])
  have n: "unat (of_nat (length fs) :: u8) = length fs" "2 \<le> length fs" "length fs \<le> 8" using a by (auto simp: container_ok_def unat_of_nat)
  have d: "drop 2 p = concat (map (\<lambda>f. of_nat (length f) # f) gs) @ last fs" and hd: "p ! 0 = 0x92" "p ! 1 = of_nat (length fs)" using a by (simp_all add: container_def gs_def)
  have "container_loop (length fs - 1) p 2 [] = Some (gs, length p - length (last fs))"
    using container_loop_complete [OF _ d fs(2), of "[]"] a fs(3) by (simp add: container_ok_def gs_def)
  moreover have len: "length p = Suc (Suc (length (concat (map (\<lambda>f. of_nat (length f) # f :: bytes) gs)) + length (last fs)))" using a by (simp add: container_def gs_def)
  moreover have "drop (length p - length (last fs)) p = last fs" using a len by (simp add: container_def gs_def)
  ultimately show "splitContainer p = Some fs" using hd n fs by (simp add: splitContainer_def Let_def)
qed


section \<open>What the first byte determines\<close>









end
