(* ===== verification/Call_Audio.thy ===== *)
theory Call_Audio
  imports Client_Cache "HOL-Library.List_Lexorder" "HOL-Library.Char_ord" "HOL-Library.Sublist"
begin

text \<open>
  The audio of a call between the decoder and the speaker: the playout buffer of one stream
  (\<open>lib/call_audio_playout.go\<close>) and the mixer of a group call (\<open>lib/call_group_audio_mixer.go\<close>). A sample is
  any type; its zero, the addition and the clipping of \<open>float32\<close> values are parameters. A sink is the
  function \<open>WriteFrame\<close> of the application, from the state of the sink and a frame to an error and the new
  state; \<open>None\<close> is a sink that is not set.
\<close>

section \<open>Playout buffer\<close>

definition SampleRate :: nat where "SampleRate = 16000"
definition FrameSamples :: nat where "FrameSamples = 960"
definition audioPlayoutPrefillSamples :: nat where "audioPlayoutPrefillSamples = 2 * FrameSamples"
definition audioPlayoutMaxGapSamples :: nat where "audioPlayoutMaxGapSamples = 2 * SampleRate"

lemmas audio_sizes = SampleRate_def FrameSamples_def audioPlayoutPrefillSamples_def audioPlayoutMaxGapSamples_def

record 'a audioPlayoutFrame =
  pf_timestamp :: u32
  pf_pcm :: "'a list"

record 'a audioPlayoutBuffer =
  pb_pending :: "'a audioPlayoutFrame option"
  prefill :: "'a list list"
  prefillSamples :: int
  pb_started :: bool

definition newAudioPlayoutBuffer :: "'a audioPlayoutBuffer" where
  "newAudioPlayoutBuffer = \<lparr>pb_pending = None, prefill = [], prefillSamples = 0, pb_started = False\<rparr>"

definition alignAudioFrame :: "'a \<Rightarrow> 'a list \<Rightarrow> nat \<Rightarrow> 'a list" where
  "alignAudioFrame zero frame samples =
     (let maxSamples = max (length frame) FrameSamples;
          samples = (if samples > maxSamples then maxSamples else samples)
      in if samples = length frame then frame
         else take samples frame @ replicate (samples - length frame) zero)"

definition playout_reset :: "u32 \<Rightarrow> 'a list \<Rightarrow> 'a audioPlayoutBuffer \<Rightarrow> 'a audioPlayoutBuffer" where
  "playout_reset timestamp frame p =
     p\<lparr>pb_pending := Some \<lparr>pf_timestamp = timestamp, pf_pcm = frame\<rparr>, prefill := [], prefillSamples := 0, pb_started := False\<rparr>"

fun trim_prefill :: "'a list list \<Rightarrow> int \<Rightarrow> 'a list list \<times> int" where
  "trim_prefill (f # g # fs) n =
     (if n > int audioPlayoutMaxGapSamples then trim_prefill (g # fs) (n - int (length f)) else (f # g # fs, n))"
| "trim_prefill fs n = (fs, n)"

type_synonym ('s, 'a) WriteFrame = "'s \<Rightarrow> 'a list \<Rightarrow> bool \<times> 's"

text \<open>The loop that writes the buffered frames: an error leaves the rest, with the frame that failed, in the buffer.\<close>

fun write_prefill :: "('s, 'a) WriteFrame \<Rightarrow> 's \<Rightarrow> 'a list list \<Rightarrow> int \<Rightarrow> (bool \<times> 's) \<times> 'a list list \<times> int" where
  "write_prefill w sink [] n = ((False, sink), [], n)"
| "write_prefill w sink (f # fs) n =
     (case w sink f of (err, sink) \<Rightarrow>
        if err then ((True, sink), f # fs, n) else write_prefill w sink fs (n - int (length f)))"

definition playout_Push ::
  "'a \<Rightarrow> ('s, 'a) WriteFrame \<Rightarrow> u32 \<Rightarrow> 'a list \<Rightarrow> 's option \<Rightarrow> 'a audioPlayoutBuffer \<Rightarrow> (bool \<times> bool) \<times> 'a audioPlayoutBuffer \<times> 's option" where
  "playout_Push zero w timestamp frame sink p =
     (let arrived = \<lparr>pf_timestamp = timestamp, pf_pcm = frame\<rparr>
      in case pb_pending p of
           None \<Rightarrow> ((False, False), p\<lparr>pb_pending := Some arrived\<rparr>, sink)
         | Some held \<Rightarrow>
             let delta = timestamp - pf_timestamp held
             in if delta = 0 \<or> unat delta > audioPlayoutMaxGapSamples then ((False, False), playout_reset timestamp frame p, sink)
                else
                  let ready = alignAudioFrame zero (pf_pcm held) (unat delta);
                      p = p\<lparr>pb_pending := Some arrived\<rparr>
                  in case (if pb_started p then sink else None) of
                       Some snk \<Rightarrow> (case w snk ready of (err, snk) \<Rightarrow> ((False, err), p, Some snk))
                     | None \<Rightarrow>
                         let p = (if pb_started p then p\<lparr>pb_started := False, prefill := [], prefillSamples := 0\<rparr> else p);
                             (fs, n) = trim_prefill (prefill p @ [ready]) (prefillSamples p + int (length ready));
                             p = p\<lparr>prefill := fs, prefillSamples := n\<rparr>
                         in case sink of
                              None \<Rightarrow> ((False, False), p, sink)
                            | Some snk \<Rightarrow>
                                if n < int audioPlayoutPrefillSamples then ((False, False), p, sink)
                                else
                                  case write_prefill w snk fs n of ((err, snk), fs, n) \<Rightarrow>
                                    let p = p\<lparr>prefill := fs, prefillSamples := n\<rparr>
                                    in if err then ((False, True), p, Some snk)
                                       else ((True, False), p\<lparr>pb_started := True, prefill := []\<rparr>, Some snk))"

definition playout_Flush :: "('s, 'a) WriteFrame \<Rightarrow> 's option \<Rightarrow> 'a audioPlayoutBuffer \<Rightarrow> bool \<times> 'a audioPlayoutBuffer \<times> 's option" where
  "playout_Flush w sink p =
     (case (pb_pending p, sink) of
        (Some held, Some snk) \<Rightarrow>
          if \<not> pb_started p then (False, p, sink)
          else (case w snk (pf_pcm held) of (err, snk) \<Rightarrow> (err, p\<lparr>pb_pending := None\<rparr>, Some snk))
      | _ \<Rightarrow> (False, p, sink))"

fun write_frames :: "('s, 'a) WriteFrame \<Rightarrow> 's \<Rightarrow> 'a list list \<Rightarrow> bool \<times> 's" where
  "write_frames w sink [] = (False, sink)"
| "write_frames w sink (f # fs) = (case w sink f of (err, sink) \<Rightarrow> if err then (True, sink) else write_frames w sink fs)"

definition playout_Drain :: "('s, 'a) WriteFrame \<Rightarrow> 's option \<Rightarrow> 'a audioPlayoutBuffer \<Rightarrow> bool \<times> 'a audioPlayoutBuffer \<times> 's option" where
  "playout_Drain w sink p =
     (let frames = prefill p @ (case pb_pending p of None \<Rightarrow> [] | Some held \<Rightarrow> [pf_pcm held]);
          p = p\<lparr>pb_pending := None, prefill := [], prefillSamples := 0, pb_started := False\<rparr>
      in case sink of
           None \<Rightarrow> (False, p, sink)
         | Some snk \<Rightarrow> (case write_frames w snk frames of (err, snk) \<Rightarrow> (err, p, Some snk)))"

section \<open>Group mixer\<close>

definition participantAudioMixChunkSamples :: nat where "participantAudioMixChunkSamples = SampleRate div 100"
definition participantAudioMixerPrefillSamples :: nat where "participantAudioMixerPrefillSamples = 2 * FrameSamples"
definition participantAudioMixerMaxSamples :: nat where "participantAudioMixerMaxSamples = 4 * FrameSamples"

lemmas mixer_sizes = audio_sizes participantAudioMixChunkSamples_def participantAudioMixerPrefillSamples_def participantAudioMixerMaxSamples_def

record 'a participantAudioMixQueue =
  mq_pending :: "'a list"
  mq_started :: bool

record 'a participantAudioMixer =
  streams :: "(string \<times> 'a participantAudioMixQueue) list"
  mix_allowed :: "string set"
  rosterApplied :: bool

definition newParticipantAudioMixer :: "'a participantAudioMixer" where
  "newParticipantAudioMixer = \<lparr>streams = [], mix_allowed = {}, rosterApplied = False\<rparr>"

definition shouldStartParticipantMixing :: "string list \<Rightarrow> bool" where
  "shouldStartParticipantMixing activeParticipantIDs \<longleftrightarrow> length activeParticipantIDs > 1"

definition mixer_Add :: "string \<Rightarrow> 'a list \<Rightarrow> 'a participantAudioMixer \<Rightarrow> bool \<times> 'a participantAudioMixer" where
  "mixer_Add participantID pcm m =
     (if participantID = '''' \<or> pcm = [] then (False, m)
      else if rosterApplied m \<and> participantID \<notin> mix_allowed m then (False, m)
      else
        let queue = (case map_of (streams m) participantID of None \<Rightarrow> \<lparr>mq_pending = [], mq_started = False\<rparr> | Some q \<Rightarrow> q);
            pending =
              (if length pcm \<ge> participantAudioMixerMaxSamples then drop (length pcm - participantAudioMixerMaxSamples) pcm
               else
                 let kept = drop (length (mq_pending queue) + length pcm - participantAudioMixerMaxSamples) (mq_pending queue)
                 in kept @ pcm)
        in (True, m\<lparr>streams := AList.update participantID (queue\<lparr>mq_pending := pending\<rparr>) (streams m)\<rparr>))"

definition mixer_Retain :: "string list \<Rightarrow> 'a participantAudioMixer \<Rightarrow> 'a participantAudioMixer" where
  "mixer_Retain participantIDs m =
     (let allowed = set participantIDs - {''''}
      in m\<lparr>mix_allowed := allowed, rosterApplied := True, streams := filter (\<lambda>(i, _). i \<in> allowed) (streams m)\<rparr>)"

text \<open>The turn of one participant: the chunk it contributes, if any, and its queue.\<close>

definition mix_turn :: "'a participantAudioMixQueue \<Rightarrow> 'a list option \<times> 'a participantAudioMixQueue" where
  "mix_turn queue =
     (if \<not> mq_started queue \<and> length (mq_pending queue) < participantAudioMixerPrefillSamples then (None, queue)
      else
        let queue = queue\<lparr>mq_started := True\<rparr>
        in if length (mq_pending queue) < participantAudioMixChunkSamples then (None, queue\<lparr>mq_started := False\<rparr>)
           else (Some (take participantAudioMixChunkSamples (mq_pending queue)),
                 queue\<lparr>mq_pending := drop participantAudioMixChunkSamples (mq_pending queue)\<rparr>))"

fun mix_loop ::
  "('a \<Rightarrow> 'a \<Rightarrow> 'a) \<Rightarrow> string list \<Rightarrow> 'a list \<times> bool \<times> (string \<times> 'a participantAudioMixQueue) list \<Rightarrow>
     'a list \<times> bool \<times> (string \<times> 'a participantAudioMixQueue) list" where
  "mix_loop add [] st = st"
| "mix_loop add (i # is) (mixed, contributed, qs) =
     (case mix_turn (the (map_of qs i)) of
        (None, q) \<Rightarrow> mix_loop add is (mixed, contributed, AList.update i q qs)
      | (Some chunk, q) \<Rightarrow> mix_loop add is (map2 add mixed chunk, True, AList.update i q qs))"

definition MixChunk :: "'a \<Rightarrow> ('a \<Rightarrow> 'a \<Rightarrow> 'a) \<Rightarrow> ('a \<Rightarrow> 'a) \<Rightarrow> 'a participantAudioMixer \<Rightarrow> 'a list option \<times> 'a participantAudioMixer" where
  "MixChunk zero add clip m =
     (case mix_loop add (sort (map fst (streams m))) (replicate participantAudioMixChunkSamples zero, False, streams m) of
        (mixed, contributed, qs) \<Rightarrow> (if contributed then Some (map clip mixed) else None, m\<lparr>streams := qs\<rparr>))"

definition framer_Push :: "'a list \<Rightarrow> 'a list \<Rightarrow> 'a list option \<times> 'a list" where
  "framer_Push chunk pending =
     (let pending = pending @ chunk
      in if length pending < FrameSamples then (None, pending) else (Some (take FrameSamples pending), drop FrameSamples pending))"

section \<open>A stream through the playout buffer\<close>

definition recorder :: "('a list list, 'a) WriteFrame" where
  "recorder written frame = (False, written @ [frame])"

definition playout_feed :: "'a \<Rightarrow> (u32 \<times> 'a list) list \<Rightarrow> 'a audioPlayoutBuffer \<times> 'a list list option \<Rightarrow> 'a audioPlayoutBuffer \<times> 'a list list option" where
  "playout_feed zero = fold (\<lambda>(t, f) (p, s). snd (playout_Push zero recorder t f s p))"

text \<open>The frames as they are played: each one cut or padded to the time until the next.\<close>

fun played_frames :: "'a \<Rightarrow> (u32 \<times> 'a list) list \<Rightarrow> 'a list list" where
  "played_frames zero ((t, f) # (t', f') # xs) = alignAudioFrame zero f (unat (t' - t)) # played_frames zero ((t', f') # xs)"
| "played_frames zero _ = []"

fun steady :: "(u32 \<times> 'a list) list \<Rightarrow> bool" where
  "steady ((t, f) # (t', f') # xs) \<longleftrightarrow> t' \<noteq> t \<and> unat (t' - t) \<le> audioPlayoutMaxGapSamples \<and> length f \<le> 30000 \<and> steady ((t', f') # xs)"
| "steady _ \<longleftrightarrow> True"

abbreviation samples :: "'a list list \<Rightarrow> nat" where
  "samples fs \<equiv> sum_list (map length fs)"

definition playout_inv :: "'a list list \<Rightarrow> u32 \<times> 'a list \<Rightarrow> 'a audioPlayoutBuffer \<times> 'a list list option \<Rightarrow> bool" where
  "playout_inv fs x st \<longleftrightarrow> pb_pending (fst st) = Some \<lparr>pf_timestamp = fst x, pf_pcm = snd x\<rparr> \<and>
     (if samples fs \<ge> audioPlayoutPrefillSamples then pb_started (fst st) \<and> prefill (fst st) = [] \<and> snd st = Some fs
      else \<not> pb_started (fst st) \<and> prefill (fst st) = fs \<and> prefillSamples (fst st) = int (samples fs) \<and> snd st = Some [])"

lemma trim_idle: "n \<le> int audioPlayoutMaxGapSamples \<Longrightarrow> trim_prefill fs n = (fs, n)"
  by (cases "(fs, n)" rule: trim_prefill.cases) auto

lemma write_recorder: "write_prefill recorder s fs n = ((False, s @ fs), [], n - int (samples fs))"
  by (induction fs arbitrary: s n) (auto simp: recorder_def)

lemma align_length: "length (alignAudioFrame zero f n) \<le> max (length f) FrameSamples"
  by (auto simp: alignAudioFrame_def Let_def)

lemma playout_push_inv:
  assumes "playout_inv fs (t, f) (p, s)" "t' \<noteq> t" "unat (t' - t) \<le> audioPlayoutMaxGapSamples" "length f \<le> 30000"
  shows "playout_inv (fs @ [alignAudioFrame zero f (unat (t' - t))]) (t', f') (snd (playout_Push zero recorder t' f' s p))"
proof -
  let ?r = "alignAudioFrame zero f (unat (t' - t))"
  have p: "pb_pending p = Some \<lparr>pf_timestamp = t, pf_pcm = f\<rparr>" "t' - t \<noteq> 0" using assms(1,2) by (auto simp: playout_inv_def)
  show ?thesis
  proof (cases "samples fs \<ge> audioPlayoutPrefillSamples")
    case True
    then have "pb_started p" "prefill p = []" "s = Some fs" using assms(1) by (auto simp: playout_inv_def)
    then show ?thesis using p assms(3) True by (auto simp: playout_Push_def Let_def recorder_def playout_inv_def)
  next
    case False
    then have q: "\<not> pb_started p" "prefill p = fs" "prefillSamples p = int (samples fs)" "s = Some []" using assms(1) by (auto simp: playout_inv_def)
    have "int (samples fs) + int (length ?r) \<le> int audioPlayoutMaxGapSamples"
      using False assms(4) align_length [of zero f "unat (t' - t)"] by (simp add: audio_sizes max_def split: if_splits)
    then have "trim_prefill (fs @ [?r]) (int (samples fs) + int (length ?r)) = (fs @ [?r], int (samples fs) + int (length ?r))" by (rule trim_idle)
    then show ?thesis using p q assms(3) by (auto simp: playout_Push_def Let_def write_recorder playout_inv_def)
  qed
qed

lemma playout_feed_inv:
  assumes "playout_inv fs x st" "steady (x # xs)"
  shows "playout_inv (fs @ played_frames zero (x # xs)) (last (x # xs)) (playout_feed zero xs st)"
  using assms
proof (induction xs arbitrary: fs x st)
  case (Cons y xs)
  obtain t f t' f' p s where v: "x = (t, f)" "y = (t', f')" "st = (p, s)" by (metis surj_pair)
  have "playout_inv (fs @ [alignAudioFrame zero f (unat (t' - t))]) (t', f') (snd (playout_Push zero recorder t' f' s p))"
    using Cons.prems by (intro playout_push_inv) (auto simp: v)
  from Cons.IH [OF this] Cons.prems(2) show ?case by (simp add: v playout_feed_def)
qed (simp add: playout_feed_def)

text \<open>
  C36: A stream leaves the playout buffer complete and in order. When the timestamps of the packets advance
  by at most two seconds each, wrap-around included, the sink gets nothing until two packet intervals are
  buffered, then every frame but the newest, each cut or padded to the time until the next one; draining
  the buffer gives the rest, so that every frame was written exactly once.
\<close>
theorem playout_delivers:
  fixes zero :: 'a
  assumes "steady xs" "xs \<noteq> []"
  shows "case playout_feed zero xs (newAudioPlayoutBuffer, Some []) of (p, s) \<Rightarrow>
    s = Some (if samples (played_frames zero xs) \<ge> audioPlayoutPrefillSamples then played_frames zero xs else []) \<and>
    (case playout_Drain recorder s p of (err, p', s') \<Rightarrow> \<not> err \<and> p' = newAudioPlayoutBuffer \<and> s' = Some (played_frames zero xs @ [snd (last xs)]))"
proof -
  obtain x ys where xs: "xs = x # ys" using assms(2) by (cases xs) auto
  have first: "snd (playout_Push zero recorder (fst x) (snd x) (Some []) newAudioPlayoutBuffer) =
      (newAudioPlayoutBuffer\<lparr>pb_pending := Some \<lparr>pf_timestamp = fst x, pf_pcm = snd x\<rparr>\<rparr>, Some [])"
    by (simp add: playout_Push_def newAudioPlayoutBuffer_def Let_def)
  have "playout_inv [] x (snd (playout_Push zero recorder (fst x) (snd x) (Some []) newAudioPlayoutBuffer))"
    unfolding first by (simp add: playout_inv_def newAudioPlayoutBuffer_def audio_sizes)
  from playout_feed_inv [OF this, of ys zero] assms(1)
  have inv: "playout_inv (played_frames zero xs) (last xs) (playout_feed zero xs (newAudioPlayoutBuffer, Some []))"
    by (simp add: xs playout_feed_def case_prod_beta')
  have wr: "write_frames recorder s fs = (False, s @ fs)" for s and fs :: "'a list list" by (induction fs arbitrary: s) (auto simp: recorder_def)
  obtain p s where ps: "playout_feed zero xs (newAudioPlayoutBuffer, Some []) = (p, s)" by fastforce
  have "p\<lparr>pb_pending := None, prefill := [], prefillSamples := 0, pb_started := False\<rparr> = newAudioPlayoutBuffer" by (cases p) (simp add: newAudioPlayoutBuffer_def)
  then show ?thesis using inv unfolding ps by (auto simp: playout_inv_def playout_Drain_def Let_def wr recorder_def split: if_splits)
qed

theorem playout_delivers_witness:
  "case playout_feed (0 :: nat) [(4294966816, replicate 960 1), (480, replicate 960 2), (1440, replicate 960 3)] (newAudioPlayoutBuffer, Some []) of (p, s) \<Rightarrow>
    s = Some [replicate 960 1, replicate 960 2]"
  using playout_delivers [of "[(4294966816, replicate 960 1), (480, replicate 960 2), (1440, replicate 960 3)]" "0 :: nat"]
  by (simp add: alignAudioFrame_def audio_sizes case_prod_beta')

section \<open>What the mixer plays\<close>

lemma update_map_of: "map_of (AList.update k v m) = (map_of m)(k \<mapsto> v)"
  by (simp add: update_conv')

lemma mix_loop_queues:
  assumes "distinct is" "\<forall>i \<in> set is. map_of qs i \<noteq> None" "go_map qs"
  shows "case mix_loop add is (mixed, c, qs) of (mixed', c', qs') \<Rightarrow>
    mixed' = fold (\<lambda>chunk acc. map2 add acc chunk) (List.map_filter (\<lambda>i. fst (mix_turn (the (map_of qs i)))) is) mixed \<and>
    c' = (c \<or> List.map_filter (\<lambda>i. fst (mix_turn (the (map_of qs i)))) is \<noteq> []) \<and> go_map qs' \<and>
    map_of qs' = (\<lambda>i. if i \<in> set is then Some (snd (mix_turn (the (map_of qs i)))) else map_of qs i)"
  using assms
proof (induction "is" arbitrary: mixed c qs)
  case (Cons i "is")
  obtain ch q where t: "mix_turn (the (map_of qs i)) = (ch, q)" by fastforce
  have same: "List.map_filter (\<lambda>j. fst (mix_turn (the (map_of (AList.update i q qs) j)))) is = List.map_filter (\<lambda>j. fst (mix_turn (the (map_of qs j)))) is"
    using Cons.prems(1) by (auto simp: List.map_filter_def update_map_of intro!: map_cong filter_cong)
  have g: "go_map (AList.update i q qs)" "\<forall>j \<in> set is. map_of (AList.update i q qs) j \<noteq> None" "distinct is"
    using Cons.prems by (auto simp: go_map_update update_map_of)
  have queues: "(\<lambda>j. if j \<in> set is then Some (snd (mix_turn (the (map_of (AList.update i q qs) j)))) else map_of (AList.update i q qs) j) =
      (\<lambda>j. if j \<in> set (i # is) then Some (snd (mix_turn (the (map_of qs j)))) else map_of qs j)"
    using Cons.prems(1) by (auto simp: update_map_of t)
  define mixed' c' where "mixed' = (case ch of None \<Rightarrow> mixed | Some chunk \<Rightarrow> map2 add mixed chunk)" and "c' = (c \<or> ch \<noteq> None)"
  have run: "mix_loop add (i # is) (mixed, c, qs) = mix_loop add is (mixed', c', AList.update i q qs)" by (cases ch) (simp_all add: t mixed'_def c'_def)
  have chunks: "List.map_filter (\<lambda>j. fst (mix_turn (the (map_of qs j)))) (i # is) =
      (case ch of None \<Rightarrow> [] | Some chunk \<Rightarrow> [chunk]) @ List.map_filter (\<lambda>j. fst (mix_turn (the (map_of qs j)))) is"
    by (cases ch) (simp_all add: t List.map_filter_simps)
  show ?case using Cons.IH [OF g(3,2,1), of mixed' c'] unfolding run chunks same queues by (cases ch) (simp_all add: mixed'_def c'_def split: prod.split)
qed (simp add: List.map_filter_simps)

lemma framer_keeps: "framer_Push chunk pending = (out, rest) \<Longrightarrow> (case out of None \<Rightarrow> [] | Some frame \<Rightarrow> frame) @ rest = pending @ chunk"
  by (auto simp: framer_Push_def Let_def simp del: take_append drop_append split: if_splits)

text \<open>A history of the mixer: what was added for every participant and what was played of it.\<close>

inductive mixer_run ::
  "'a \<Rightarrow> ('a \<Rightarrow> 'a \<Rightarrow> 'a) \<Rightarrow> ('a \<Rightarrow> 'a) \<Rightarrow> 'a participantAudioMixer \<Rightarrow> (string \<Rightarrow> 'a list) \<Rightarrow> (string \<Rightarrow> 'a list) \<Rightarrow> bool" for zero add clip where
  new: "mixer_run zero add clip newParticipantAudioMixer (\<lambda>_. []) (\<lambda>_. [])"
| add: "mixer_run zero add clip m added played \<Longrightarrow> mixer_Add i pcm m = (ok, m') \<Longrightarrow>
    mixer_run zero add clip m' (if ok then added(i := added i @ pcm) else added) played"
| retain: "mixer_run zero add clip m added played \<Longrightarrow>
    mixer_run zero add clip (mixer_Retain ids m) (\<lambda>i. if i \<in> set ids then added i else []) (\<lambda>i. if i \<in> set ids then played i else [])"
| mix: "mixer_run zero add clip m added played \<Longrightarrow> MixChunk zero add clip m = (out, m') \<Longrightarrow>
    mixer_run zero add clip m' added
      (\<lambda>i. played i @ (case map_of (streams m) i of None \<Rightarrow> [] | Some q \<Rightarrow> (case fst (mix_turn q) of None \<Rightarrow> [] | Some chunk \<Rightarrow> chunk)))"

definition waiting :: "'a participantAudioMixer \<Rightarrow> string \<Rightarrow> 'a list" where
  "waiting m i = (case map_of (streams m) i of None \<Rightarrow> [] | Some q \<Rightarrow> mq_pending q)"

definition mixer_inv :: "'a participantAudioMixer \<Rightarrow> (string \<Rightarrow> 'a list) \<Rightarrow> (string \<Rightarrow> 'a list) \<Rightarrow> bool" where
  "mixer_inv m added played \<longleftrightarrow> go_map (streams m) \<and> (\<forall>i. length (waiting m i) \<le> participantAudioMixerMaxSamples) \<and>
     (\<forall>i. subseq (played i @ waiting m i) (added i)) \<and> map_of (streams m) '''' = None \<and>
     (rosterApplied m \<longrightarrow> (\<forall>i. map_of (streams m) i \<noteq> None \<longrightarrow> i \<in> mix_allowed m)) \<and> (\<forall>i. map_of (streams m) i = None \<longrightarrow> added i = [])"

lemma mix_turn_split: "(case fst (mix_turn q) of None \<Rightarrow> [] | Some chunk \<Rightarrow> chunk) @ mq_pending (snd (mix_turn q)) = mq_pending q"
  by (auto simp: mix_turn_def Let_def)

lemma MixChunk_spec:
  assumes "go_map (streams m)"
  shows "MixChunk zero add clip m = (out, m') \<Longrightarrow>
    out = (let chunks = List.map_filter (\<lambda>i. fst (mix_turn (the (map_of (streams m) i)))) (sort (map fst (streams m)))
           in if chunks = [] then None else Some (map clip (fold (\<lambda>chunk acc. map2 add acc chunk) chunks (replicate participantAudioMixChunkSamples zero)))) \<and>
    go_map (streams m') \<and> map_of (streams m') = (\<lambda>i. map_option (\<lambda>q. snd (mix_turn q)) (map_of (streams m) i)) \<and>
    mix_allowed m' = mix_allowed m \<and> rosterApplied m' = rosterApplied m"
proof -
  assume run: "MixChunk zero add clip m = (out, m')"
  have keys: "distinct (sort (map fst (streams m)))" "\<forall>i \<in> set (sort (map fst (streams m))). map_of (streams m) i \<noteq> None"
    using assms by (auto simp: go_map_def map_of_eq_None_iff)
  have dom: "i \<in> fst ` set (streams m) \<longleftrightarrow> map_of (streams m) i \<noteq> None" for i by (simp add: map_of_eq_None_iff)
  obtain mixed c qs where l: "mix_loop add (sort (map fst (streams m))) (replicate participantAudioMixChunkSamples zero, False, streams m) = (mixed, c, qs)" by (metis surj_pair)
  note spec = mix_loop_queues [OF keys assms, of add "replicate participantAudioMixChunkSamples zero" False, unfolded l prod.case]
  have "map_of qs i = map_option (\<lambda>q. snd (mix_turn q)) (map_of (streams m) i)" for i
    using spec dom [of i] by (cases "map_of (streams m) i") auto
  then show ?thesis using spec run unfolding MixChunk_def l by (auto simp: Let_def split: if_splits)
qed


lemma subseq_drop: "subseq (drop k xs) xs"
  using suffix_drop suffix_imp_subseq by blast

lemma mixer_Add_inv:
  assumes "mixer_inv m added played" "mixer_Add i pcm m = (ok, m')"
  shows "mixer_inv m' (if ok then added(i := added i @ pcm) else added) played"
proof (cases ok)
  case False
  then have "m' = m" using assms(2) by (auto simp: mixer_Add_def Let_def split: if_splits)
  then show ?thesis using assms(1) False by simp
next
  case True
  define w where "w = waiting m i"
  define pending where "pending = (if length pcm \<ge> participantAudioMixerMaxSamples then drop (length pcm - participantAudioMixerMaxSamples) pcm
      else drop (length w + length pcm - participantAudioMixerMaxSamples) w @ pcm)"
  define q where "q = (case map_of (streams m) i of None \<Rightarrow> \<lparr>mq_pending = [], mq_started = False\<rparr> | Some q \<Rightarrow> q)"
  have "w = mq_pending q" by (simp add: w_def q_def waiting_def split: option.split)
  then have run: "m' = m\<lparr>streams := AList.update i (q\<lparr>mq_pending := pending\<rparr>) (streams m)\<rparr>" "i \<noteq> ''''" "rosterApplied m \<Longrightarrow> i \<in> mix_allowed m"
    using assms(2) True unfolding mixer_Add_def Let_def q_def [symmetric] pending_def by (auto split: if_splits)
  then have wt: "waiting m' = (waiting m)(i := pending)" by (auto simp: waiting_def update_map_of fun_eq_iff)
  have "subseq (played i @ w) (added i)" "length w \<le> participantAudioMixerMaxSamples" using assms(1) by (auto simp: mixer_inv_def w_def)
  moreover have "subseq (played i @ pending) ((played i @ w) @ pcm)"
    using subseq_drop [of "length pcm - participantAudioMixerMaxSamples" pcm] subseq_drop [of "length w + length pcm - participantAudioMixerMaxSamples" w]
    by (auto simp: pending_def list_emb_append_mono list_emb_append2)
  moreover have "length pending \<le> participantAudioMixerMaxSamples" by (cases "participantAudioMixerMaxSamples \<le> length pcm") (auto simp: pending_def)
  ultimately have "subseq (played i @ pending) (added i @ pcm)" "length pending \<le> participantAudioMixerMaxSamples"
    using subseq_order.trans list_emb_append_mono [of "(=)" "played i @ w" "added i" pcm pcm] by (blast intro: subseq_order.order_refl)+
  then show ?thesis using assms(1) run wt True by (auto simp: mixer_inv_def update_map_of go_map_update)
qed

lemma mixer_Retain_inv:
  assumes "mixer_inv m added played"
  shows "mixer_inv (mixer_Retain ids m) (\<lambda>i. if i \<in> set ids then added i else []) (\<lambda>i. if i \<in> set ids then played i else [])"
proof -
  define A where "A = set ids - {''''}"
  have m': "streams (mixer_Retain ids m) = filter (\<lambda>(i, _). i \<in> A) (streams m)" "mix_allowed (mixer_Retain ids m) = A"
    by (simp_all add: mixer_Retain_def Let_def A_def)
  have "map_of (filter (\<lambda>(i, _). i \<in> A) qs) i = (if i \<in> A then map_of qs i else None)" for i and qs :: "(string \<times> 'a participantAudioMixQueue) list"
    by (induction qs) auto
  then have l: "map_of (streams (mixer_Retain ids m)) i = (if i \<in> A then map_of (streams m) i else None)" for i by (simp add: m')
  have "go_map (streams (mixer_Retain ids m))" using assms by (simp add: mixer_inv_def go_map_def m' distinct_map_filter)
  moreover have "waiting (mixer_Retain ids m) i = (if i \<in> set ids then waiting m i else [])" for i
    using assms by (auto simp: waiting_def l mixer_inv_def A_def)
  ultimately show ?thesis using assms by (auto simp: mixer_inv_def l m'(2) A_def)
qed

lemma mixer_run_inv: "mixer_run zero add clip m added played \<Longrightarrow> mixer_inv m added played"
proof (induction rule: mixer_run.induct)
  case new
  then show ?case by (simp add: mixer_inv_def newParticipantAudioMixer_def go_map_def waiting_def)
next
  case (mix m added played out m')
  note s = MixChunk_spec [OF _ mix(2)]
  have g: "go_map (streams m)" using mix(3) by (simp add: mixer_inv_def)
  have w: "(case map_of (streams m) i of None \<Rightarrow> [] | Some q \<Rightarrow> (case fst (mix_turn q) of None \<Rightarrow> [] | Some chunk \<Rightarrow> chunk)) @ waiting m' i = waiting m i" for i
    using s [OF g] mix_turn_split by (cases "map_of (streams m) i") (simp_all add: waiting_def)
  have "length (waiting m' i) \<le> length (waiting m i)" for i using arg_cong [OF w [of i], of length] by simp
  then show ?case using mix(3) s [OF g] w by (auto simp: mixer_inv_def intro: order_trans)
next
  case (add m added played i pcm ok m')
  show ?case by (rule mixer_Add_inv [OF add(3,2)])
qed (rule mixer_Retain_inv)

text \<open>
  C37: The mixer plays the audio it was given. Whatever the participants add and however the roster changes,
  what was played of a participant and what still waits is a subsequence of what was added for it: samples
  keep their order, none is played twice and none is invented; at most 240 milliseconds wait, and after a
  roster was applied only its members are heard. A chunk is the sum of the first ten milliseconds of the
  queues whose turn it is, in ascending order of the participants, clipped.
\<close>
theorem mixer_plays_in_order:
  assumes "mixer_run zero add clip m added played" "MixChunk zero add clip m = (out, m')"
  shows "subseq (played i @ waiting m i) (added i) \<and> length (waiting m i) \<le> participantAudioMixerMaxSamples \<and>
    (rosterApplied m \<longrightarrow> waiting m i \<noteq> [] \<longrightarrow> i \<in> mix_allowed m) \<and>
    out = (let chunks = List.map_filter (\<lambda>i. fst (mix_turn (the (map_of (streams m) i)))) (sort (map fst (streams m)))
           in if chunks = [] then None else Some (map clip (fold (\<lambda>chunk acc. map2 add acc chunk) chunks (replicate participantAudioMixChunkSamples zero))))"
proof -
  have inv: "mixer_inv m added played" using assms(1) by (rule mixer_run_inv)
  then have "go_map (streams m)" by (simp add: mixer_inv_def)
  from MixChunk_spec [OF this assms(2)] inv show ?thesis by (auto simp: mixer_inv_def waiting_def split: option.splits)
qed


definition speaking :: "nat participantAudioMixer" where
  "speaking = \<lparr>streams = [(''a'', \<lparr>mq_pending = replicate 1920 1, mq_started = False\<rparr>)], mix_allowed = {}, rosterApplied = False\<rparr>"

theorem mixer_plays_in_order_witness:
  "subseq (waiting speaking ''a'') (replicate 1920 1) \<and> fst (MixChunk (0 :: nat) (+) id speaking) = Some (replicate 160 1)"
proof -
  have "mixer_Add ''a'' (replicate 1920 1) newParticipantAudioMixer = (True, speaking)"
    by (simp add: mixer_Add_def newParticipantAudioMixer_def speaking_def mixer_sizes)
  from mixer_run.add [OF mixer_run.new this, of 0 "(+)" id]
  have run: "mixer_run (0 :: nat) (+) id speaking ((\<lambda>_. [])(''a'' := replicate 1920 1)) (\<lambda>_. [])" by simp
  obtain out m' where mix: "MixChunk (0 :: nat) (+) id speaking = (out, m')" by fastforce
  have "fst (mix_turn \<lparr>mq_pending = replicate 1920 (1 :: nat), mq_started = False\<rparr>) = Some (replicate 160 1)" by (simp add: mix_turn_def mixer_sizes)
  then have "out = Some (map id (map2 (+) (replicate 160 0) (replicate 160 1)))"
    using mixer_plays_in_order [OF run mix, of "''a''"] by (simp add: speaking_def List.map_filter_simps mixer_sizes)
  then show ?thesis using mixer_plays_in_order [OF run mix, of "''a''"] mix by (simp add: zip_replicate)
qed

end
