(* ===== verification/Requests.thy ===== *)
theory Requests
  imports Node_Access Client_Cache
begin

text \<open>
  Info queries (\<open>lib/request.go\<close>): the identifiers of requests, the nodes that are sent, the meaning of
  the answers, and the table of the goroutines that wait for one. A waiter is a channel of capacity one; the
  channels are numbered in the order of their creation. \<open>receiveResponse\<close> is two steps, since it sends on
  the channel after it released the lock. A send on a closed channel and a second \<open>close\<close> are the error
  \<open>ReqPanic\<close>.
\<close>

section \<open>Identifiers and nodes\<close>

definition generateRequestID :: "string \<Rightarrow> u64 \<Rightarrow> string \<times> u64" where
  "generateRequestID uniqueID idCounter = (uniqueID @ FormatNat (unat (idCounter + 1)), idCounter + 1)"

record infoQuery =
  Namespace :: string
  iq_Type :: string
  iq_To :: JID
  iq_Target :: JID
  iq_ID :: string
  SMaxID :: string
  iq_Content :: any
  Timeout :: int
  NoRetry :: bool

definition iq_node :: "infoQuery \<Rightarrow> node" where
  "iq_node query =
     (let attrs = [(''id'', StrV (iq_ID query)), (''xmlns'', StrV (Namespace query)), (''type'', StrV (iq_Type query))];
          attrs = (if SMaxID query \<noteq> '''' then attrs @ [(''smax_id'', StrV (SMaxID query))] else attrs);
          attrs = (if \<not> IsEmpty (iq_To query) then attrs @ [(''to'', JIDV (iq_To query))] else attrs);
          attrs = (if \<not> IsEmpty (iq_Target query) then attrs @ [(''target'', JIDV (iq_Target query))] else attrs)
      in Node ''iq'' attrs (iq_Content query))"

section \<open>Answers\<close>

text \<open>The node \<open>xmlStreamEndNode\<close> is recognised by its address; \<open>Arrived\<close> is any other node.\<close>

datatype message = StreamEnd | Arrived node

definition message_node :: "message \<Rightarrow> node" where
  "message_node m = (case m of StreamEnd \<Rightarrow> Node ''xmlstreamend'' [] NilV | Arrived n \<Rightarrow> n)"

definition str_attr :: "node \<Rightarrow> string \<Rightarrow> string option" where
  "str_attr n key = (case map_of (Attrs n) key of Some (StrV s) \<Rightarrow> Some s | _ \<Rightarrow> None)"

definition isDisconnectNode :: "message \<Rightarrow> bool" where
  "isDisconnectNode m \<longleftrightarrow> m = StreamEnd \<or> Tag (message_node m) = ''stream:error''"

definition isAuthErrorDisconnect :: "message \<Rightarrow> bool" where
  "isAuthErrorDisconnect m =
     (let n = message_node m
      in if Tag n \<noteq> ''stream:error'' then False
         else
           let code = (case str_attr n ''code'' of None \<Rightarrow> '''' | Some c \<Rightarrow> c);
               conflict = fst (GetOptionalChildByTag n [''conflict'']);
               conflictType = fst (OptionalString ''type'' (AttrGetter conflict))
           in code = ''401'' \<or> conflictType = ''replaced'' \<or> conflictType = ''device_removed'')"

record IQError =
  Code :: int
  err_Text :: string
  ErrorNode :: "node option"
  RawNode :: node

definition parseIQError :: "node \<Rightarrow> IQError" where
  "parseIQError n =
     (case GetOptionalChildByTag n [''error''] of
        (val, True) \<Rightarrow>
          let ag = AttrGetter val; (code, ag) = OptionalInt ''code'' ag; (txt, ag) = OptionalString ''text'' ag
          in \<lparr>Code = code, err_Text = txt, ErrorNode = Some val, RawNode = n\<rparr>
      | (_, False) \<Rightarrow> \<lparr>Code = 0, err_Text = '''', ErrorNode = None, RawNode = n\<rparr>)"

datatype iq_error = Disconnected string message | IQFailed IQError | ErrIQTimedOut | ErrNotConnected | ErrContext | SendFailed

text \<open>How an answer that is not a disconnection is read.\<close>

definition iq_answer :: "node \<Rightarrow> node \<times> iq_error option" where
  "iq_answer res =
     (let resType = (case str_attr res ''type'' of None \<Rightarrow> '''' | Some t \<Rightarrow> t)
      in if Tag res \<noteq> ''iq'' \<or> (resType \<noteq> ''result'' \<and> resType \<noteq> ''error'')
         then (res, Some (IQFailed \<lparr>Code = 0, err_Text = '''', ErrorNode = None, RawNode = res\<rparr>))
         else if resType = ''error'' then (res, Some (IQFailed (parseIQError res)))
         else (res, None))"

text \<open>What a \<open>select\<close> on a waiter, the context and a timer ends with.\<close>

datatype wait_end = Got message | CtxDone | TimedOut

definition retryFrame :: "string \<Rightarrow> message \<Rightarrow> bool \<Rightarrow> bool \<Rightarrow> bool \<Rightarrow> wait_end \<Rightarrow> iq_error + node" where
  "retryFrame reqType origResp reconnected has_socket sent ended =
     (if isAuthErrorDisconnect origResp then Inl (Disconnected reqType origResp)
      else if \<not> reconnected then Inl (Disconnected reqType origResp)
      else if \<not> has_socket then Inl ErrNotConnected
      else if \<not> sent then Inl SendFailed
      else case ended of
        CtxDone \<Rightarrow> Inl ErrContext
      | TimedOut \<Rightarrow> Inl ErrIQTimedOut
      | Got resp \<Rightarrow>
          if isDisconnectNode resp then Inl (Disconnected (reqType @ '' (retry)'') resp) else Inr (message_node resp))"

text \<open>\<open>sendIQ\<close> from the moment the query was sent: the first wait, and the retry after a disconnection.\<close>

definition sendIQ_result :: "bool \<Rightarrow> wait_end \<Rightarrow> (message \<Rightarrow> iq_error + node) \<Rightarrow> node option \<times> iq_error option" where
  "sendIQ_result noRetry ended retry =
     (case ended of
        CtxDone \<Rightarrow> (None, Some ErrContext)
      | TimedOut \<Rightarrow> (None, Some ErrIQTimedOut)
      | Got res \<Rightarrow>
          let answer = (if isDisconnectNode res then (if noRetry then Inl (Disconnected ''info query'' res) else retry res)
                        else Inr (message_node res))
          in case answer of
               Inl e \<Rightarrow> (None, Some e)
             | Inr n \<Rightarrow> (case iq_answer n of (n, err) \<Rightarrow> (Some n, err)))"

section \<open>Waiters\<close>

text \<open>\<open>chan_id\<close> and \<open>received\<close> record the request of a channel and everything that was sent on it.\<close>

record chan =
  buffer :: "message option"
  closed :: bool
  chan_id :: string
  received :: "message list"

record waiters =
  responseWaiters :: "(string \<times> nat) list"
  chans :: "chan list"
  in_flight :: "(nat \<times> node) list"

datatype req_panic = ReqPanic

definition no_waiters :: waiters where
  "no_waiters = \<lparr>responseWaiters = [], chans = [], in_flight = []\<rparr>"

definition waitResponse :: "string \<Rightarrow> waiters \<Rightarrow> nat \<times> waiters" where
  "waitResponse reqID s =
     (length (chans s),
      s\<lparr>chans := chans s @ [\<lparr>buffer = None, closed = False, chan_id = reqID, received = []\<rparr>],
        responseWaiters := AList.update reqID (length (chans s)) (responseWaiters s)\<rparr>)"

definition close_chan :: "nat \<Rightarrow> waiters \<Rightarrow> req_panic + waiters" where
  "close_chan ch s =
     (if closed (chans s ! ch) then Inl ReqPanic else Inr (s\<lparr>chans := (chans s)[ch := (chans s ! ch)\<lparr>closed := True\<rparr>]\<rparr>))"

definition put_chan :: "nat \<Rightarrow> message \<Rightarrow> waiters \<Rightarrow> waiters" where
  "put_chan ch m s =
     s\<lparr>chans := (chans s)[ch := (chans s ! ch)\<lparr>buffer := Some m, received := received (chans s ! ch) @ [m]\<rparr>]\<rparr>"

definition cancelResponse :: "string \<Rightarrow> nat \<Rightarrow> waiters \<Rightarrow> req_panic + waiters" where
  "cancelResponse reqID ch s =
     bind_res (close_chan ch s) (\<lambda>s. Inr (s\<lparr>responseWaiters := AList.delete reqID (responseWaiters s)\<rparr>))"

definition receiveResponse :: "node \<Rightarrow> waiters \<Rightarrow> bool \<times> waiters" where
  "receiveResponse n s =
     (case str_attr n ''id'' of
        None \<Rightarrow> (False, s)
      | Some i \<Rightarrow>
          if Tag n \<noteq> ''iq'' \<and> Tag n \<noteq> ''ack'' then (False, s)
          else case map_of (responseWaiters s) i of
            None \<Rightarrow> (False, s)
          | Some ch \<Rightarrow> (True, s\<lparr>responseWaiters := AList.delete i (responseWaiters s), in_flight := in_flight s @ [(ch, n)]\<rparr>))"

text \<open>The send of \<open>receiveResponse\<close>; it blocks while the channel is full, here the value \<open>None\<close>.\<close>

definition deliver :: "nat \<times> node \<Rightarrow> waiters \<Rightarrow> (req_panic + waiters) option" where
  "deliver x s =
     (let c = chans s ! fst x
      in if closed c then Some (Inl ReqPanic)
         else if buffer c \<noteq> None then None
         else Some (Inr ((put_chan (fst x) (Arrived (snd x)) s)\<lparr>in_flight := remove1 x (in_flight s)\<rparr>)))"




section \<open>Interleavings\<close>




















text \<open>
  A request that fails to be sent while its answer arrives crashes the client: when the answer was
  taken out of the table and the sender cancels before it is delivered, the delivery is a send on a closed
  channel, which panics.
\<close>
theorem late_response_panics:
  assumes "str_attr n ''id'' = Some i" "Tag n = ''iq''" "waitResponse i no_waiters = (ch, s1)" "receiveResponse n s1 = (ok, s2)"
  shows "\<exists>s3. ok \<and> in_flight s2 = [(ch, n)] \<and> cancelResponse i ch s2 = Inr s3 \<and> deliver (ch, n) s3 = Some (Inl ReqPanic)"
  using assms by (auto simp: waitResponse_def no_waiters_def receiveResponse_def cancelResponse_def close_chan_def deliver_def)

theorem late_response_panics_witness:
  "\<exists>s1 s2 s3. waitResponse ''1'' no_waiters = (0, s1) \<and> receiveResponse (Node ''iq'' [(''id'', StrV ''1'')] NilV) s1 = (True, s2) \<and>
    cancelResponse ''1'' 0 s2 = Inr s3 \<and> deliver (0, Node ''iq'' [(''id'', StrV ''1'')] NilV) s3 = Some (Inl ReqPanic)"
proof -
  obtain s1 where 1: "waitResponse ''1'' no_waiters = (0, s1)" by (simp add: waitResponse_def no_waiters_def)
  obtain ok s2 where 2: "receiveResponse (Node ''iq'' [(''id'', StrV ''1'')] NilV) s1 = (ok, s2)" by fastforce
  from late_response_panics [OF _ _ 1 2] show ?thesis using 1 2 by (auto simp: str_attr_def)
qed

section \<open>Identifiers\<close>

lemma request_ids_distinct:
  assumes "a \<noteq> b"
  shows "fst (generateRequestID u a) \<noteq> fst (generateRequestID u b)"
proof -
  have "unat (a + 1) \<noteq> unat (b + 1)" using assms by (metis add_right_cancel word_unat_eq_iff)
  then show ?thesis using FormatNat_inject by (simp add: generateRequestID_def)
qed


end
