(* ===== verification/Event_Buffer.thy ===== *)
theory Event_Buffer
  imports JIDs Client_Cache
begin

text \<open>
  The event buffer in memory (\<open>lib/store/memory_eventbuffer.go\<close>). Times are integers, the clock is the
  argument \<open>now\<close> of every operation, read once; the entry that an iteration over a map meets first is the
  parameter \<open>victim\<close>. Nil slices are \<open>None\<close>. Each operation is one step under the mutex; the goroutine of
  the reaper is the operation \<open>pruneExpired\<close> at any time.
\<close>

record BufferedEvent =
  Plaintext :: "bytes option"
  ServerTime :: int
  InsertTime :: int

record memoryBufferedEvent =
  be_event :: BufferedEvent
  be_expiresAt :: int

record memoryOutgoingEvent =
  oe_format :: string
  oe_plaintext :: "bytes option"
  oe_expiresAt :: int

record MemoryEventBuffer =
  events :: "(bytes \<times> memoryBufferedEvent) list"
  outgoingEvents :: "(string \<times> memoryOutgoingEvent) list"
  eventTTL :: int
  outgoingTTL :: int
  maxEvents :: int
  eb_closed :: bool

record MemoryEventBufferOptions =
  opt_EventTTL :: int
  opt_OutgoingTTL :: int
  opt_MaxEvents :: int

definition nanos_per_minute :: int where "nanos_per_minute = 60 * 10 ^ 9"

definition NewMemoryEventBuffer :: "MemoryEventBufferOptions list \<Rightarrow> MemoryEventBuffer" where
  "NewMemoryEventBuffer opts =
     (let pick = (\<lambda>f default. case opts of [] \<Rightarrow> default | opt # _ \<Rightarrow> if f opt > 0 then f opt else default)
      in \<lparr>events = [], outgoingEvents = [], eventTTL = pick opt_EventTTL (60 * nanos_per_minute),
          outgoingTTL = pick opt_OutgoingTTL (30 * nanos_per_minute), maxEvents = pick opt_MaxEvents 10000, eb_closed = False\<rparr>)"

definition pruneExpired :: "int \<Rightarrow> MemoryEventBuffer \<Rightarrow> MemoryEventBuffer" where
  "pruneExpired now b =
     b\<lparr>events := filter (\<lambda>(_, v). \<not> be_expiresAt v < now) (events b),
       outgoingEvents := filter (\<lambda>(_, v). \<not> oe_expiresAt v < now) (outgoingEvents b)\<rparr>"




definition DeleteOldBufferedHashes :: "int \<Rightarrow> MemoryEventBuffer \<Rightarrow> MemoryEventBuffer" where
  "DeleteOldBufferedHashes now b = pruneExpired now b"

definition outgoingKey :: "JID \<Rightarrow> string \<Rightarrow> string" where
  "outgoingKey chatJID i = JID_String (ToNonAD chatJID) @ '':'' @ i"


definition GetOutgoingEvent :: "int \<Rightarrow> JID \<Rightarrow> JID \<Rightarrow> string \<Rightarrow> MemoryEventBuffer \<Rightarrow> string \<times> bytes option" where
  "GetOutgoingEvent now chatJID altChatJID i b =
     (let entry = map_of (outgoingEvents b) (outgoingKey chatJID i);
          entry = (if entry = None \<and> \<not> IsEmpty altChatJID then map_of (outgoingEvents b) (outgoingKey altChatJID i) else entry)
      in case entry of
           None \<Rightarrow> ('''', None)
         | Some entry \<Rightarrow>
             if oe_expiresAt entry < now then ('''', None)
             else (oe_format entry, Some (case oe_plaintext entry of None \<Rightarrow> [] | Some p \<Rightarrow> p)))"

definition DeleteOldOutgoingEvents :: "int \<Rightarrow> MemoryEventBuffer \<Rightarrow> MemoryEventBuffer" where
  "DeleteOldOutgoingEvents now b = pruneExpired now b"


section \<open>Sequences of operations\<close>













lemma filter_lookup: "go_map m \<Longrightarrow> map_of (filter (\<lambda>(_, v). P v) m) k = (case map_of m k of None \<Rightarrow> None | Some v \<Rightarrow> if P v then Some v else None)"
proof (induction m)
  case (Cons x m)
  have "map_of (filter (\<lambda>(_, v). P v) m) (fst x) = None" using Cons.prems by (auto simp: go_map_def map_of_eq_None_iff)
  then show ?case using Cons by (auto simp: go_map_def split: option.splits)
qed simp







text \<open>
  An expired message hides a fresh one: a retry finds nothing when the message is stored under the
  alternate address of the chat and an expired entry is still stored under the address that is asked,
  until a sweep removes the expired entry.
\<close>
theorem expired_entry_hides_alternate:
  assumes "map_of (outgoingEvents b) (outgoingKey j i) = Some old" "oe_expiresAt old < now" "\<not> IsEmpty alt" "go_map (outgoingEvents b)"
    and "map_of (outgoingEvents b) (outgoingKey alt i) = Some fresh" "\<not> oe_expiresAt fresh < now" "oe_plaintext fresh = Some p"
  shows "GetOutgoingEvent now j alt i b = ('''', None) \<and> GetOutgoingEvent now j alt i (pruneExpired now b) = (oe_format fresh, Some p)"
  using assms by (auto simp: GetOutgoingEvent_def Let_def pruneExpired_def filter_lookup)


theorem expired_entry_hides_alternate_witness:
  "\<exists>b :: MemoryEventBuffer. GetOutgoingEvent 9 (NewJID ''1'' DefaultUserServer) (NewJID ''2'' HiddenUserServer) ''x'' b = ('''', None) \<and>
    GetOutgoingEvent 9 (NewJID ''1'' DefaultUserServer) (NewJID ''2'' HiddenUserServer) ''x'' (pruneExpired 9 b) = (''wa'', Some [1])"
proof -
  let ?j = "outgoingKey (NewJID ''1'' DefaultUserServer) ''x''" and ?k = "outgoingKey (NewJID ''2'' HiddenUserServer) ''x''"
  let ?b = "(NewMemoryEventBuffer [])\<lparr>outgoingEvents := [(?j, \<lparr>oe_format = ''wa'', oe_plaintext = Some [2], oe_expiresAt = 3\<rparr>), (?k, \<lparr>oe_format = ''wa'', oe_plaintext = Some [1], oe_expiresAt = 20\<rparr>)]\<rparr>"
  have "?j \<noteq> ?k" by (simp add: outgoingKey_def JID_String_def ToNonAD_def NewJID_def EmptyJID_def DefaultUserServer_def HiddenUserServer_def)
  then show ?thesis
    using expired_entry_hides_alternate [of ?b "NewJID ''1'' DefaultUserServer" "''x''" "\<lparr>oe_format = ''wa'', oe_plaintext = Some [2], oe_expiresAt = 3\<rparr>" 9
        "NewJID ''2'' HiddenUserServer" "\<lparr>oe_format = ''wa'', oe_plaintext = Some [1], oe_expiresAt = 20\<rparr>" "[1]"]
    by (intro exI [of _ ?b]) (simp add: go_map_def IsEmpty_def NewJID_def HiddenUserServer_def)
qed


end
