(* ===== verification/Retry.thy ===== *)
theory Retry
  imports JIDs Client_Cache
begin

text \<open>
  The messages that a client keeps for retry receipts (\<open>lib/retry.go\<close>): a ring of the recent keys beside a
  map of the marshalled messages, the search for a message that a device asks for again, and the decision
  to build a new session. The protobuf library, the store of hidden identifiers, the event buffer and the
  callback of the application are parameters.
\<close>

section \<open>Ring\<close>







section \<open>Messages\<close>








section \<open>Sessions\<close>

definition recreateSessionTimeout :: int where "recreateSessionTimeout = 3600 * 10 ^ 9"

text \<open>\<open>contains\<close> is the answer of the session store, \<open>None\<close> when it fails.\<close>

definition shouldRecreateSession ::
  "((JID \<times> int) list \<Rightarrow> JID) \<Rightarrow> int \<Rightarrow> bool option \<Rightarrow> int \<Rightarrow> JID \<Rightarrow> (JID \<times> int) list \<Rightarrow> bool \<times> (JID \<times> int) list" where
  "shouldRecreateSession victim now contains retryCount jid hist =
     (let hist = (if length hist \<ge> maxSessionRecreateHistoryItems then pruneExpiredCache hist (now - recreateSessionTimeout) else hist)
      in case contains of
           None \<Rightarrow> (False, hist)
         | Some False \<Rightarrow> (True, putBoundedCache victim hist jid now maxSessionRecreateHistoryItems)
         | Some True \<Rightarrow>
             if retryCount < 2 then (False, hist)
             else if (case map_of hist jid of None \<Rightarrow> True | Some prev \<Rightarrow> prev + recreateSessionTimeout < now)
             then (True, putBoundedCache victim hist jid now maxSessionRecreateHistoryItems)
             else (False, hist))"

section \<open>The ring is a queue\<close>















end
