(* ===== verification/Sessions.thy ===== *)
theory Sessions
  imports Prelude
begin

text \<open>
  The Signal sessions of a device and their caches (\<open>lib/store/sessioncache.go\<close> and the session operations of
  \<open>lib/store/signal.go\<close>): the sessions that one send holds in its context, the serialised sessions in
  memory, an external cache that need not exist, the buffer of sessions that wait to be written, and the
  table. Serialising and parsing a session record are the parameters \<open>ser\<close> and \<open>parse\<close>, \<open>fresh\<close> is the
  empty record. The table fails when \<open>db_up\<close> is false; the external cache is a map that keeps what is put.
\<close>

section \<open>State\<close>

record 'r sessionCacheEntry =
  Dirty :: bool
  Found :: bool
  Record :: 'r

type_synonym 'r sessionCache = "string \<rightharpoonup> 'r sessionCacheEntry"

record device =
  dev_user :: "string option"
  l1SessionCache :: "string \<rightharpoonup> bytes"
  ExternalCache :: "(string \<rightharpoonup> bytes) option"
  co_dirty :: "string \<rightharpoonup> bytes"
  co_closed :: bool
  db :: "string \<rightharpoonup> bytes"

definition sessionCacheKey :: "device \<Rightarrow> string \<Rightarrow> string" where
  "sessionCacheKey d addr =
     ''signal:session:'' @ (case dev_user d of Some u \<Rightarrow> if u \<noteq> '''' then u else ''default'' | None \<Rightarrow> ''default'') @ '':'' @ addr"

definition set_l1 :: "string \<Rightarrow> bytes \<Rightarrow> device \<Rightarrow> device" where
  "set_l1 addr raw d = d\<lparr>l1SessionCache := (l1SessionCache d)(addr \<mapsto> raw)\<rparr>"

definition set_external :: "string \<Rightarrow> bytes \<Rightarrow> device \<Rightarrow> device" where
  "set_external addr raw d = d\<lparr>ExternalCache := map_option (\<lambda>c. c(sessionCacheKey d addr \<mapsto> raw)) (ExternalCache d)\<rparr>"

definition get_external :: "device \<Rightarrow> string \<Rightarrow> bytes option" where
  "get_external d addr = (case ExternalCache d of None \<Rightarrow> None | Some c \<Rightarrow> c (sessionCacheKey d addr))"

definition InvalidateL1Session :: "string \<Rightarrow> device \<Rightarrow> device" where
  "InvalidateL1Session addr d =
     d\<lparr>l1SessionCache := (l1SessionCache d)(addr := None),
       ExternalCache := map_option (\<lambda>c. c(sessionCacheKey d addr := None)) (ExternalCache d)\<rparr>"

section \<open>Sessions of a context\<close>

definition getCachedSession :: "'r sessionCache option \<Rightarrow> string \<Rightarrow> 'r option" where
  "getCachedSession ctx addr = (case ctx of None \<Rightarrow> None | Some cache \<Rightarrow> map_option Record (cache addr))"

definition hasCachedSession :: "'r sessionCache option \<Rightarrow> string \<Rightarrow> bool \<times> bool" where
  "hasCachedSession ctx addr =
     (case ctx of None \<Rightarrow> (False, False) | Some cache \<Rightarrow> (case cache addr of None \<Rightarrow> (False, False) | Some e \<Rightarrow> (Found e, True)))"

definition putCachedSession :: "'r sessionCache option \<Rightarrow> string \<Rightarrow> 'r \<Rightarrow> 'r sessionCache option \<times> bool" where
  "putCachedSession ctx addr rec =
     (case ctx of None \<Rightarrow> (None, False) | Some cache \<Rightarrow> (Some (cache(addr \<mapsto> \<lparr>Dirty = True, Found = True, Record = rec\<rparr>)), True))"

text \<open>The closure of \<open>WithCachedSessions\<close> that adds a serialised session to what is prepared.\<close>

type_synonym 'r prepared = "'r sessionCache \<times> (string \<rightharpoonup> bool)"

definition loadSession :: "(bytes \<Rightarrow> 'r option) \<Rightarrow> string \<Rightarrow> bytes \<Rightarrow> 'r prepared \<Rightarrow> 'r prepared" where
  "loadSession parse addr raw p =
     (case parse raw of
        None \<Rightarrow> ((fst p)(addr := None), (snd p)(addr := None))
      | Some rec \<Rightarrow> ((fst p)(addr \<mapsto> \<lparr>Dirty = False, Found = True, Record = rec\<rparr>), (snd p)(addr \<mapsto> True)))"

definition exists_in :: "'r prepared \<Rightarrow> string \<Rightarrow> bool" where
  "exists_in p addr = (snd p addr = Some True)"

fun l1_pass :: "(bytes \<Rightarrow> 'r option) \<Rightarrow> device \<Rightarrow> string list \<Rightarrow> 'r prepared \<Rightarrow> 'r prepared \<times> string list" where
  "l1_pass parse d [] p = (p, [])"
| "l1_pass parse d (addr # addrs) p =
     (case l1SessionCache d addr of
        Some raw \<Rightarrow>
          if raw \<noteq> [] then
            let p = loadSession parse addr raw p
            in if exists_in p addr then l1_pass parse d addrs p
               else (case l1_pass parse d addrs p of (p, misses) \<Rightarrow> (p, addr # misses))
          else (case l1_pass parse d addrs p of (p, misses) \<Rightarrow> (p, addr # misses))
      | None \<Rightarrow> (case l1_pass parse d addrs p of (p, misses) \<Rightarrow> (p, addr # misses)))"

fun external_pass :: "(bytes \<Rightarrow> 'r option) \<Rightarrow> string list \<Rightarrow> 'r prepared \<times> device \<Rightarrow> 'r prepared \<times> device" where
  "external_pass parse [] st = st"
| "external_pass parse (addr # addrs) (p, d) =
     (case get_external d addr of
        Some raw \<Rightarrow>
          if raw \<noteq> [] then
            let p = loadSession parse addr raw p
            in external_pass parse addrs (p, if exists_in p addr then set_l1 addr raw d else d)
          else external_pass parse addrs (p, d)
      | None \<Rightarrow> external_pass parse addrs (p, d))"

fun table_pass :: "(bytes \<Rightarrow> 'r option) \<Rightarrow> device \<Rightarrow> string list \<Rightarrow> 'r prepared \<Rightarrow> 'r prepared" where
  "table_pass parse d [] p = p"
| "table_pass parse d (addr # addrs) p =
     table_pass parse d addrs (case db d addr of None \<Rightarrow> p | Some raw \<Rightarrow> loadSession parse addr raw p)"

fun fill_pass :: "('r \<Rightarrow> bytes) \<Rightarrow> 'r prepared \<Rightarrow> string list \<Rightarrow> device \<Rightarrow> device" where
  "fill_pass ser p [] d = d"
| "fill_pass ser p (addr # addrs) d =
     fill_pass ser p addrs
       (case fst p addr of
          Some e \<Rightarrow> if Found e then set_external addr (ser (Record e)) (set_l1 addr (ser (Record e)) d) else d
        | None \<Rightarrow> d)"

definition WithCachedSessions ::
  "('r \<Rightarrow> bytes) \<Rightarrow> (bytes \<Rightarrow> 'r option) \<Rightarrow> 'r \<Rightarrow> bool \<Rightarrow> string list \<Rightarrow> 'r sessionCache option \<Rightarrow> device \<Rightarrow>
     (((string \<rightharpoonup> bool) \<times> 'r sessionCache option) option) \<times> device" where
  "WithCachedSessions ser parse fresh db_up addresses ctx d =
     (if addresses = [] then (Some (Map.empty, ctx), d)
      else
        let p = ((\<lambda>a. if a \<in> set addresses then Some \<lparr>Dirty = False, Found = False, Record = fresh\<rparr> else None),
                 (\<lambda>a. if a \<in> set addresses then Some False else None));
            (p, l1Misses) = l1_pass parse d addresses p;
            (p, d) = external_pass parse l1Misses (p, d);
            missing = filter (\<lambda>a. \<not> exists_in p a) l1Misses
        in if missing = [] then (Some (snd p, Some (fst p)), d)
           else if \<not> db_up then (None, d)
           else
             let p = table_pass parse d missing p;
                 d = fill_pass ser p missing d
             in (Some (snd p, Some (fst p)), d))"

section \<open>Writing\<close>

definition enqueue :: "(string \<rightharpoonup> bytes) \<Rightarrow> device \<Rightarrow> device" where
  "enqueue entries d = (if co_closed d then d else d\<lparr>co_dirty := co_dirty d ++ entries\<rparr>)"

definition dirty_sessions :: "('r \<Rightarrow> bytes) \<Rightarrow> 'r sessionCache \<Rightarrow> string \<rightharpoonup> bytes" where
  "dirty_sessions ser cache = (\<lambda>a. case cache a of Some e \<Rightarrow> if Dirty e then Some (ser (Record e)) else None | None \<Rightarrow> None)"

text \<open>The caches get the dirty sessions at once, the table when the buffer is flushed. \<open>addrs\<close> lists the keys of the context.\<close>

definition PutCachedSessions :: "('r \<Rightarrow> bytes) \<Rightarrow> string list \<Rightarrow> 'r sessionCache option \<Rightarrow> device \<Rightarrow> 'r sessionCache option \<times> device" where
  "PutCachedSessions ser addrs ctx d =
     (case ctx of
        None \<Rightarrow> (None, d)
      | Some cache \<Rightarrow>
          let put = (\<lambda>addr d. case dirty_sessions ser cache addr of None \<Rightarrow> d | Some raw \<Rightarrow> set_external addr raw (set_l1 addr raw d))
          in (Some Map.empty, enqueue (dirty_sessions ser cache) (fold put addrs d)))"

text \<open>A flush without another one beside it; when the table fails, what was taken out of the buffer is put back.\<close>

definition session_flush :: "bool \<Rightarrow> device \<Rightarrow> device" where
  "session_flush db_up d = (if db_up then d\<lparr>db := db d ++ co_dirty d, co_dirty := Map.empty\<rparr> else d)"

definition session_close :: "bool \<Rightarrow> device \<Rightarrow> device" where
  "session_close db_up d = (if co_closed d then d else session_flush db_up (d\<lparr>co_closed := True\<rparr>))"

text \<open>After \<open>closeSessionCoalescer\<close> the device has no buffer; the next write makes a new one.\<close>

definition closeSessionCoalescer :: "bool \<Rightarrow> device \<Rightarrow> device" where
  "closeSessionCoalescer db_up d = (session_close db_up d)\<lparr>co_dirty := Map.empty, co_closed := False\<rparr>"

definition LoadSession :: "(bytes \<Rightarrow> 'r option) \<Rightarrow> 'r \<Rightarrow> bool \<Rightarrow> 'r sessionCache option \<Rightarrow> string \<Rightarrow> device \<Rightarrow> 'r option" where
  "LoadSession parse fresh db_up ctx addr d =
     (case getCachedSession ctx addr of
        Some rec \<Rightarrow> Some rec
      | None \<Rightarrow> if \<not> db_up then None else (case db d addr of None \<Rightarrow> Some fresh | Some raw \<Rightarrow> parse raw))"

definition StoreSession :: "('r \<Rightarrow> bytes) \<Rightarrow> bool \<Rightarrow> string \<Rightarrow> 'r \<Rightarrow> 'r sessionCache option \<Rightarrow> device \<Rightarrow> bool \<times> 'r sessionCache option \<times> device" where
  "StoreSession ser db_up addr rec ctx d =
     (case putCachedSession ctx addr rec of
        (ctx, True) \<Rightarrow> (True, ctx, d)
      | (ctx, False) \<Rightarrow> if db_up then (True, ctx, d\<lparr>db := (db d)(addr \<mapsto> ser rec)\<rparr>) else (False, ctx, d))"

definition ContainsSession :: "bool \<Rightarrow> 'r sessionCache option \<Rightarrow> string \<Rightarrow> device \<Rightarrow> bool option" where
  "ContainsSession db_up ctx addr d =
     (case hasCachedSession ctx addr of
        (found, True) \<Rightarrow> Some found
      | (_, False) \<Rightarrow> if db_up then Some (db d addr \<noteq> None) else None)"

definition DeleteSession :: "bool \<Rightarrow> string \<Rightarrow> device \<Rightarrow> bool \<times> device" where
  "DeleteSession db_up addr d = (if db_up then (True, d\<lparr>db := (db d)(addr := None)\<rparr>) else (False, d))"

section \<open>The caches hold the newest session\<close>

text \<open>The contract of the serialiser: parsing inverts it, and nothing is serialised to the empty string.\<close>

definition codec :: "('r \<Rightarrow> bytes) \<Rightarrow> (bytes \<Rightarrow> 'r option) \<Rightarrow> bool" where
  "codec ser parse \<longleftrightarrow> (\<forall>r. parse (ser r) = Some r \<and> ser r \<noteq> [])"

definition current :: "('r \<Rightarrow> bytes) \<Rightarrow> (string \<rightharpoonup> 'r) \<Rightarrow> device \<Rightarrow> bool" where
  "current ser latest d \<longleftrightarrow> \<not> co_closed d \<and> (\<forall>a. let want = map_option ser (latest a) in
     (l1SessionCache d a = None \<or> l1SessionCache d a = want) \<and> (get_external d a = None \<or> get_external d a = want) \<and>
     (co_dirty d a = None \<or> co_dirty d a = want) \<and> (co_dirty d a = None \<longrightarrow> db d a = want) \<and> (l1SessionCache d a = None \<longrightarrow> co_dirty d a = None))"

lemma currentD:
  assumes "current ser latest d"
  shows "\<not> co_closed d" "l1SessionCache d a = Some raw \<Longrightarrow> map_option ser (latest a) = Some raw"
    "get_external d a = Some raw \<Longrightarrow> map_option ser (latest a) = Some raw" "l1SessionCache d a = None \<Longrightarrow> db d a = map_option ser (latest a)"
  using assms unfolding current_def Let_def by (metis option.distinct(1))+

definition load_all :: "(string \<rightharpoonup> 'r) \<Rightarrow> string set \<Rightarrow> 'r prepared \<Rightarrow> 'r prepared" where
  "load_all latest S p =
     ((\<lambda>a. if a \<in> S then Some \<lparr>Dirty = False, Found = True, Record = the (latest a)\<rparr> else fst p a), (\<lambda>a. if a \<in> S then Some True else snd p a))"

lemma load_all_union: "load_all latest S (load_all latest T p) = load_all latest (S \<union> T) p" "load_all latest {} p = p"
  by (auto simp: load_all_def fun_eq_iff)

lemma load_all_exists: "exists_in (load_all latest S p) a \<longleftrightarrow> a \<in> S \<or> exists_in p a"
  by (auto simp: load_all_def exists_in_def)

lemma load_one:
  assumes "codec ser parse" "map_option ser (latest a) = Some raw"
  shows "loadSession parse a raw p = load_all latest {a} p" "raw \<noteq> []"
  using assms by (auto simp: loadSession_def load_all_def codec_def fun_eq_iff)

lemma l1_pass_eq:
  assumes "codec ser parse" "current ser latest d"
  shows "l1_pass parse d addrs p = (load_all latest {a \<in> set addrs. l1SessionCache d a \<noteq> None} p, filter (\<lambda>a. l1SessionCache d a = None) addrs)"
proof (induction addrs arbitrary: p)
  case (Cons a addrs)
  show ?case
  proof (cases "l1SessionCache d a")
    case None
    then have "{x \<in> set (a # addrs). l1SessionCache d x \<noteq> None} = {x \<in> set addrs. l1SessionCache d x \<noteq> None}" by auto
    then show ?thesis using None Cons by simp
  next
    case (Some raw)
    note l = load_one [where latest = latest and a = a, OF assms(1) currentD(2) [OF assms(2) Some]]
    have "{x \<in> set (a # addrs). l1SessionCache d x \<noteq> None} = {x \<in> set addrs. l1SessionCache d x \<noteq> None} \<union> {a}" using Some by auto
    then show ?thesis using Some Cons l by (simp add: Let_def load_all_exists load_all_union)
  qed
qed (simp add: load_all_union)

lemma get_external_set:
  "get_external (set_l1 b raw d) a = get_external d a"
  "get_external (set_external b raw d) a = (if a = b \<and> ExternalCache d \<noteq> None then Some raw else get_external d a)"
  by (auto simp: get_external_def set_l1_def set_external_def sessionCacheKey_def split: option.split)

lemma get_external_frame: "get_external (d\<lparr>co_dirty := x\<rparr>) a = get_external d a" "get_external (d\<lparr>db := y\<rparr>) a = get_external d a"
  "get_external (d\<lparr>l1SessionCache := z\<rparr>) a = get_external d a"
  by (simp_all add: get_external_def sessionCacheKey_def cong: option.case_cong)

lemma set_fields:
  "co_closed (set_l1 b raw d) = co_closed d" "co_dirty (set_l1 b raw d) = co_dirty d" "db (set_l1 b raw d) = db d"
  "l1SessionCache (set_l1 b raw d) = (l1SessionCache d)(b \<mapsto> raw)"
  "co_closed (set_external b raw d) = co_closed d" "co_dirty (set_external b raw d) = co_dirty d" "db (set_external b raw d) = db d"
  "l1SessionCache (set_external b raw d) = l1SessionCache d"
  by (simp_all add: set_l1_def set_external_def)

lemma current_set:
  assumes "current ser latest d" "map_option ser (latest b) = Some raw"
  shows "current ser latest (set_l1 b raw d)" "current ser latest (set_external b raw d)"
  using assms unfolding current_def by (auto simp: set_fields get_external_set Let_def)

lemma external_pass_eq:
  assumes "codec ser parse" "current ser latest d"
  shows "\<exists>d'. external_pass parse addrs (p, d) = (load_all latest {a \<in> set addrs. get_external d a \<noteq> None} p, d') \<and> current ser latest d' \<and>
    (\<forall>a. get_external d' a = get_external d a) \<and> (\<forall>a. l1SessionCache d a = None \<longrightarrow> get_external d a = None \<longrightarrow> l1SessionCache d' a = None)"
  using assms(2)
proof (induction addrs arbitrary: p d)
  case (Cons a addrs)
  show ?case
  proof (cases "get_external d a")
    case None
    then have "{x \<in> set (a # addrs). get_external d x \<noteq> None} = {x \<in> set addrs. get_external d x \<noteq> None}" by auto
    then show ?thesis using None Cons by simp
  next
    case (Some raw)
    note want = currentD(3) [OF Cons.prems Some]
    note l = load_one [where latest = latest and a = a, OF assms(1) want]
    have S: "{x \<in> set (a # addrs). get_external d x \<noteq> None} = {x \<in> set addrs. get_external d x \<noteq> None} \<union> {a}" using Some by auto
    from Cons.IH [OF current_set(1) [OF Cons.prems want], of "load_all latest {a} p"] show ?thesis
      using Some l unfolding S by (auto simp: Let_def load_all_exists load_all_union get_external_set set_fields split: if_splits) (metis option.distinct(1))
  qed
qed (simp add: load_all_union)

lemma table_pass_eq:
  assumes "codec ser parse" "\<forall>a \<in> set addrs. db d a = map_option ser (latest a)"
  shows "table_pass parse d addrs p = load_all latest {a \<in> set addrs. latest a \<noteq> None} p"
  using assms(2)
proof (induction addrs arbitrary: p)
  case (Cons a addrs)
  have IH: "table_pass parse d addrs p' = load_all latest {x \<in> set addrs. latest x \<noteq> None} p'" for p' using Cons by simp
  show ?case
  proof (cases "latest a")
    case None
    then have "{x \<in> set (a # addrs). latest x \<noteq> None} = {x \<in> set addrs. latest x \<noteq> None}" by auto
    then show ?thesis using None Cons.prems IH by simp
  next
    case (Some r)
    then have "{x \<in> set (a # addrs). latest x \<noteq> None} = {x \<in> set addrs. latest x \<noteq> None} \<union> {a}" by auto
    then show ?thesis using Some Cons.prems IH load_one(1) [OF assms(1), of latest a "ser r"] by (simp add: load_all_union)
  qed
qed (simp add: load_all_union)

lemma fill_pass_current:
  assumes "current ser latest d" "\<forall>a \<in> set addrs. \<forall>e. fst p a = Some e \<longrightarrow> Found e \<longrightarrow> latest a = Some (Record e)"
  shows "current ser latest (fill_pass ser p addrs d)"
  using assms
proof (induction addrs arbitrary: d)
  case (Cons a addrs)
  have "current ser latest (case fst p a of Some e \<Rightarrow> if Found e then set_external a (ser (Record e)) (set_l1 a (ser (Record e)) d) else d | None \<Rightarrow> d)"
  proof (cases "\<exists>e. fst p a = Some e \<and> Found e")
    case True
    then obtain e where e: "fst p a = Some e" "Found e" by blast
    then have "map_option ser (latest a) = Some (ser (Record e))" using Cons.prems(2) by simp
    then show ?thesis using e current_set [OF current_set(1) [OF Cons.prems(1)], of a "ser (Record e)" a] current_set by (simp add: current_set)
  next
    case False
    then show ?thesis using Cons.prems(1) by (auto split: option.split)
  qed
  then show ?case using Cons by simp
qed simp


lemma With_current:
  assumes "codec ser parse" "current ser latest d" "WithCachedSessions ser parse fresh True addrs ctx d = (res, d')"
  shows "current ser latest d' \<and> (addrs \<noteq> [] \<longrightarrow> res = Some ((\<lambda>a. if a \<in> set addrs then Some (latest a \<noteq> None) else None),
    Some (\<lambda>a. if a \<in> set addrs then Some \<lparr>Dirty = False, Found = latest a \<noteq> None, Record = (case latest a of None \<Rightarrow> fresh | Some r \<Rightarrow> r)\<rparr> else None)))"
proof (cases "addrs = []")
  case True
  then show ?thesis using assms(2,3) by (simp add: WithCachedSessions_def)
next
  case False
  define p0 where "p0 = ((\<lambda>a. if a \<in> set addrs then Some \<lparr>Dirty = False, Found = False, Record = fresh\<rparr> else None), (\<lambda>a. if a \<in> set addrs then Some False else None))"
  define misses where "misses = filter (\<lambda>a. l1SessionCache d a = None) addrs"
  define S1 where "S1 = {a \<in> set addrs. l1SessionCache d a \<noteq> None}"
  define S2 where "S2 = {a \<in> set misses. get_external d a \<noteq> None} \<union> S1"
  obtain d1 where ext: "external_pass parse misses (load_all latest S1 p0, d) = (load_all latest S2 p0, d1)" "current ser latest d1"
      "\<forall>a. l1SessionCache d a = None \<longrightarrow> get_external d a = None \<longrightarrow> l1SessionCache d1 a = None"
    using external_pass_eq [OF assms(1,2), of misses "load_all latest S1 p0"] by (auto simp: S2_def load_all_union)
  define missing where "missing = filter (\<lambda>a. \<not> exists_in (load_all latest S2 p0) a) misses"
  have none: "a \<in> set missing \<longleftrightarrow> a \<in> set addrs \<and> l1SessionCache d a = None \<and> get_external d a = None" for a
    by (auto simp: missing_def misses_def load_all_exists S2_def S1_def) (auto simp: exists_in_def p0_def)
  have want: "db d1 a = map_option ser (latest a)" if "a \<in> set missing" for a using that none ext(3) currentD(4) [OF ext(2)] by blast
  have known: "latest a \<noteq> None" if "a \<in> S2" for a
    using that currentD(2,3) [OF assms(2), of a] by (fastforce simp: S2_def S1_def)
  define p where "p = load_all latest ({a \<in> set missing. latest a \<noteq> None} \<union> S2) p0"
  have all: "a \<in> {a \<in> set missing. latest a \<noteq> None} \<union> S2 \<longleftrightarrow> a \<in> set addrs \<and> latest a \<noteq> None" for a
    using known none by (auto simp: S2_def S1_def misses_def)
  then have p: "p = ((\<lambda>a. if a \<in> set addrs then Some \<lparr>Dirty = False, Found = latest a \<noteq> None, Record = (case latest a of None \<Rightarrow> fresh | Some r \<Rightarrow> r)\<rparr> else None),
      (\<lambda>a. if a \<in> set addrs then Some (latest a \<noteq> None) else None))"
    unfolding p_def load_all_def by (auto simp: fun_eq_iff p0_def split: option.split)
  have run: "WithCachedSessions ser parse fresh True addrs ctx d =
      (if missing = [] then (Some (snd (load_all latest S2 p0), Some (fst (load_all latest S2 p0))), d1) else (Some (snd p, Some (fst p)), fill_pass ser p missing d1))"
    using False table_pass_eq [OF assms(1), of missing d1 latest "load_all latest S2 p0"] want
    unfolding WithCachedSessions_def Let_def l1_pass_eq [OF assms(1,2)] p0_def [symmetric] S1_def [symmetric] misses_def [symmetric] prod.case ext(1) missing_def [symmetric]
    by (simp add: load_all_union p_def)
  show ?thesis
  proof (cases "missing = []")
    case True
    then have "load_all latest S2 p0 = p" by (simp add: p_def)
    then show ?thesis using run assms(3) ext(2) True by (simp add: p)
  next
    case missed: False
    have "current ser latest (fill_pass ser p missing d1)" using none by (intro fill_pass_current [OF ext(2)]) (auto simp: p split: option.splits)
    then show ?thesis using run assms(3) missed by (simp add: p)
  qed
qed


definition store_all :: "(string \<times> 'r) list \<Rightarrow> 'r sessionCache option \<Rightarrow> 'r sessionCache option" where
  "store_all ups ctx = fold (\<lambda>(a, r) ctx. fst (putCachedSession ctx a r)) ups ctx"

lemma store_all_some:
  "store_all ups (Some cache) = Some (\<lambda>a. case map_of (rev ups) a of None \<Rightarrow> cache a | Some r \<Rightarrow> Some \<lparr>Dirty = True, Found = True, Record = r\<rparr>)"
proof (induction ups arbitrary: cache)
  case (Cons u ups)
  then show ?case by (cases u) (auto simp: store_all_def putCachedSession_def map_add_def fun_eq_iff split: option.split)
qed (simp add: store_all_def)

lemma put_loop:
  assumes "\<And>a. raws a = None \<or> raws a = map_option ser (latest' a)"
  defines "put \<equiv> \<lambda>addr d. case raws addr of None \<Rightarrow> d | Some raw \<Rightarrow> set_external addr raw (set_l1 addr raw d)"
  shows "co_closed (fold put addrs d) = co_closed d" "co_dirty (fold put addrs d) = co_dirty d" "db (fold put addrs d) = db d"
    "l1SessionCache (fold put addrs d) a = (if a \<in> set addrs \<and> raws a \<noteq> None then raws a else l1SessionCache d a)"
    "get_external (fold put addrs d) a = (if a \<in> set addrs \<and> raws a \<noteq> None \<and> ExternalCache d \<noteq> None then raws a else get_external d a)"
proof -
  have "co_closed (fold put addrs d) = co_closed d \<and> co_dirty (fold put addrs d) = co_dirty d \<and> db (fold put addrs d) = db d \<and>
    (\<forall>a. l1SessionCache (fold put addrs d) a = (if a \<in> set addrs \<and> raws a \<noteq> None then raws a else l1SessionCache d a)) \<and>
    (\<forall>a. get_external (fold put addrs d) a = (if a \<in> set addrs \<and> raws a \<noteq> None \<and> ExternalCache d \<noteq> None then raws a else get_external d a))"
  proof (induction addrs arbitrary: d)
    case (Cons x addrs)
    have E: "ExternalCache (put x d) = None \<longleftrightarrow> ExternalCache d = None" by (auto simp: put_def set_external_def set_l1_def split: option.split)
    have F: "co_closed (put x d) = co_closed d" "co_dirty (put x d) = co_dirty d" "db (put x d) = db d"
        "l1SessionCache (put x d) a = (if a = x \<and> raws x \<noteq> None then raws x else l1SessionCache d a)"
        "get_external (put x d) a = (if a = x \<and> raws x \<noteq> None \<and> ExternalCache d \<noteq> None then raws x else get_external d a)" for a
      by (auto simp: put_def set_fields get_external_set get_external_frame set_l1_def split: option.split)
    have IH: "l1SessionCache (fold put addrs (put x d)) a = (if a \<in> set addrs \<and> raws a \<noteq> None then raws a else l1SessionCache (put x d) a)"
        "get_external (fold put addrs (put x d)) a = (if a \<in> set addrs \<and> raws a \<noteq> None \<and> ExternalCache (put x d) \<noteq> None then raws a else get_external (put x d) a)" for a
      using Cons by blast+
    have "l1SessionCache (fold put (x # addrs) d) a = (if a \<in> set (x # addrs) \<and> raws a \<noteq> None then raws a else l1SessionCache d a)"
        "get_external (fold put (x # addrs) d) a = (if a \<in> set (x # addrs) \<and> raws a \<noteq> None \<and> ExternalCache d \<noteq> None then raws a else get_external d a)" for a
      unfolding fold_simps IH F E by auto
    then show ?case using Cons [of "put x d"] F(1-3) by simp
  qed simp
  then show "co_closed (fold put addrs d) = co_closed d" "co_dirty (fold put addrs d) = co_dirty d" "db (fold put addrs d) = db d"
    "l1SessionCache (fold put addrs d) a = (if a \<in> set addrs \<and> raws a \<noteq> None then raws a else l1SessionCache d a)"
    "get_external (fold put addrs d) a = (if a \<in> set addrs \<and> raws a \<noteq> None \<and> ExternalCache d \<noteq> None then raws a else get_external d a)" by auto
qed

lemma Put_current:
  assumes "current ser latest d" "fst ` set ups \<subseteq> set addrs" "\<forall>a e. cache a = Some e \<longrightarrow> \<not> Dirty e"
    and "PutCachedSessions ser addrs (store_all ups (Some cache)) d = (ctx', d')"
  shows "current ser (latest ++ map_of (rev ups)) d'"
proof -
  define raws where "raws = (\<lambda>a. map_option ser (map_of (rev ups) a))"
  have dirty: "dirty_sessions ser (the (store_all ups (Some cache))) = raws"
    using assms(3) by (auto simp: dirty_sessions_def store_all_some raws_def fun_eq_iff split: option.split)
  have keys: "a \<in> set addrs" if "raws a \<noteq> None" for a
    using that assms(2) by (auto simp: raws_def dest!: map_of_SomeD) force
  define put where "put = (\<lambda>addr d. case raws addr of None \<Rightarrow> d | Some raw \<Rightarrow> set_external addr raw (set_l1 addr raw d))"
  have d': "d' = enqueue raws (fold put addrs d)" using assms(4) dirty by (simp add: PutCachedSessions_def store_all_some put_def Let_def)
  have new: "map_option ser ((latest ++ map_of (rev ups)) a) = (case raws a of None \<Rightarrow> map_option ser (latest a) | Some raw \<Rightarrow> Some raw)" for a
    by (auto simp: raws_def map_add_def split: option.split)
  have "raws a = None \<or> raws a = map_option ser (map_of (rev ups) a)" for a by (simp add: raws_def)
  note L = put_loop [where raws = raws and ser = ser and latest' = "map_of (rev ups)", OF this, folded put_def]
  have ext: "get_external d a = None" if "ExternalCache d = None" for a using that by (simp add: get_external_def)
  show ?thesis
    unfolding current_def
  proof (intro conjI allI)
    show "\<not> co_closed d'" using assms(1) by (simp add: d' enqueue_def L current_def)
    fix a
    have c: "(l1SessionCache d a = None \<or> l1SessionCache d a = map_option ser (latest a)) \<and> (get_external d a = None \<or> get_external d a = map_option ser (latest a)) \<and>
      (co_dirty d a = None \<or> co_dirty d a = map_option ser (latest a)) \<and> (co_dirty d a = None \<longrightarrow> db d a = map_option ser (latest a)) \<and> (l1SessionCache d a = None \<longrightarrow> co_dirty d a = None)"
      "\<not> co_closed d" using assms(1) by (simp_all add: current_def Let_def)
    then show "let want = map_option ser ((latest ++ map_of (rev ups)) a) in (l1SessionCache d' a = None \<or> l1SessionCache d' a = want) \<and> (get_external d' a = None \<or> get_external d' a = want) \<and>
        (co_dirty d' a = None \<or> co_dirty d' a = want) \<and> (co_dirty d' a = None \<longrightarrow> db d' a = want) \<and> (l1SessionCache d' a = None \<longrightarrow> co_dirty d' a = None)"
      unfolding new Let_def using keys [of a] ext [of a]
      by (cases "raws a"; cases "ExternalCache d = None") (simp_all add: d' enqueue_def L map_add_def get_external_frame)
  qed
qed

lemma flush_current:
  assumes "current ser latest d"
  shows "current ser latest (session_flush up d)" "db (session_flush True d) a = map_option ser (latest a)"
proof -
  have db: "(db d ++ co_dirty d) a = map_option ser (latest a)" for a
  proof -
    have "co_dirty d a = None \<or> co_dirty d a = map_option ser (latest a)" "co_dirty d a = None \<Longrightarrow> db d a = map_option ser (latest a)"
      using assms by (simp_all add: current_def Let_def)
    then show ?thesis unfolding map_add_def by (metis option.case(1) option.case(2) option.exhaust)
  qed
  then show "db (session_flush True d) a = map_option ser (latest a)" by (simp add: session_flush_def)
  show "current ser latest (session_flush up d)"
    using assms db by (cases up) (simp_all add: current_def Let_def session_flush_def get_external_frame)
qed

text \<open>
  A device whose sessions are read and written through the cache of a send only: every send prepares its
  addresses, changes some of the sessions and puts them back; the buffer is flushed at any time, and the
  flush may fail. \<open>latest\<close> records what was written.
\<close>

inductive sends :: "('r \<Rightarrow> bytes) \<Rightarrow> (bytes \<Rightarrow> 'r option) \<Rightarrow> 'r \<Rightarrow> (string \<rightharpoonup> 'r) \<Rightarrow> device \<Rightarrow> bool" for ser parse fresh where
  start: "l1SessionCache d = Map.empty \<Longrightarrow> ExternalCache d = None \<or> ExternalCache d = Some Map.empty \<Longrightarrow> co_dirty d = Map.empty \<Longrightarrow> \<not> co_closed d \<Longrightarrow>
    db d = (\<lambda>a. map_option ser (latest a)) \<Longrightarrow> sends ser parse fresh latest d"
| send: "sends ser parse fresh latest d \<Longrightarrow> WithCachedSessions ser parse fresh True addrs None d = (Some (ex, ctx), d1) \<Longrightarrow> addrs \<noteq> [] \<Longrightarrow>
    fst ` set ups \<subseteq> set addrs \<Longrightarrow> PutCachedSessions ser addrs (store_all ups ctx) d1 = (ctx', d2) \<Longrightarrow> sends ser parse fresh (latest ++ map_of (rev ups)) d2"
| flush: "sends ser parse fresh latest d \<Longrightarrow> sends ser parse fresh latest (session_flush up d)"

lemma sends_current:
  assumes "codec ser parse" "sends ser parse fresh latest d"
  shows "current ser latest d"
  using assms(2)
proof induction
  case (start d latest)
  then show ?case by (auto simp: current_def get_external_def)
next
  case (send latest d addrs ex ctx d1 ups ctx' d2)
  note w = With_current [OF assms(1) send.IH send.hyps(2)]
  then obtain cache where "ctx = Some cache" "\<forall>a e. cache a = Some e \<longrightarrow> \<not> Dirty e" using send.hyps(3) by (auto split: if_splits)
  then show ?case using Put_current [OF _ send.hyps(4), of ser latest d1 cache ctx' d2] w send.hyps(5) by simp
qed (rule flush_current(1))

text \<open>
  C7: A send sees the sessions of the sends before it. However the sends and the flushes are ordered, and
  also when flushes fail, a send is given for every address the session that was stored last, or a fresh one
  when there is none, and after a flush that succeeds the table has it. Parsing inverts serialising.
\<close>
theorem cached_sessions_current:
  assumes "codec ser parse" "sends ser parse fresh latest d" "WithCachedSessions ser parse fresh True addrs ctx d = (res, d')" "a \<in> set addrs"
  shows "\<exists>ex cache. res = Some (ex, Some cache) \<and> ex a = Some (latest a \<noteq> None) \<and>
    LoadSession parse fresh up (Some cache) a d' = Some (case latest a of None \<Rightarrow> fresh | Some r \<Rightarrow> r) \<and>
    ContainsSession up (Some cache) a d' = Some (latest a \<noteq> None) \<and> db (session_flush True d') a = map_option ser (latest a)"
proof -
  note w = With_current [OF assms(1) sends_current [OF assms(1,2)] assms(3)]
  have "addrs \<noteq> []" using assms(4) by auto
  moreover have "db (session_flush True d') a = map_option ser (latest a)"
    using w flush_current(2) by blast
  ultimately show ?thesis using w assms(4) by (auto simp: LoadSession_def getCachedSession_def ContainsSession_def hasCachedSession_def)
qed

text \<open>
  A message that is received between two sends is forgotten by the second. Decrypting stores the session
  of its sender in the table alone; the next send to that sender is given the session of the send before,
  and what it writes replaces the received one.
\<close>
theorem received_session_overwritten:
  assumes "codec ser parse" "l1SessionCache d a = Some (ser r1)" "StoreSession ser True a r2 None d = (ok, ctx, d2)"
    and "WithCachedSessions ser parse fresh True [a] None d2 = (res, d3)"
  shows "ok \<and> db d2 a = Some (ser r2) \<and> (\<exists>ex cache. res = Some (ex, Some cache) \<and> LoadSession parse fresh True (Some cache) a d3 = Some r1)"
proof -
  have d2: "ok" "d2 = d\<lparr>db := (db d)(a \<mapsto> ser r2)\<rparr>" using assms(3) by (auto simp: StoreSession_def putCachedSession_def)
  have "parse (ser r1) = Some r1" "ser r1 \<noteq> []" using assms(1) by (simp_all add: codec_def)
  then show ?thesis using assms(2,4) d2
    by (auto simp: WithCachedSessions_def loadSession_def exists_in_def LoadSession_def getCachedSession_def)
qed

text \<open>
  A deleted session comes back. When a session that waits to be written is deleted and its caches are
  invalidated, as after a message that cannot be decrypted, the next flush writes it to the table again.
\<close>
theorem deleted_session_returns:
  assumes "co_dirty d a = Some raw" "DeleteSession True a d = (ok, d1)"
  shows "ok \<and> db (InvalidateL1Session a d1) a = None \<and> db (session_flush True (InvalidateL1Session a d1)) a = Some raw"
  using assms by (auto simp: DeleteSession_def InvalidateL1Session_def session_flush_def)


definition one_session :: device where
  "one_session = \<lparr>dev_user = None, l1SessionCache = Map.empty, ExternalCache = None, co_dirty = Map.empty, co_closed = False, db = [''1'' \<mapsto> [7]]\<rparr>"

lemma bytes_codec: "codec (\<lambda>r. 7 # r) (\<lambda>b. case b of [] \<Rightarrow> None | x # r \<Rightarrow> Some r)"
  by (simp add: codec_def)

theorem cached_sessions_current_witness:
  "\<exists>ex cache d'. WithCachedSessions (\<lambda>r. 7 # r) (\<lambda>b. case b of [] \<Rightarrow> None | x # r \<Rightarrow> Some r) [] True [''1''] None one_session = (Some (ex, Some cache), d') \<and> ex ''1'' = Some True"
proof -
  have run: "sends (\<lambda>r. 7 # r) (\<lambda>b. case b of [] \<Rightarrow> None | x # r \<Rightarrow> Some r) [] [''1'' \<mapsto> []] one_session"
    by (rule sends.start) (auto simp: one_session_def fun_eq_iff)
  obtain res d' where w: "WithCachedSessions (\<lambda>r. 7 # r) (\<lambda>b. case b of [] \<Rightarrow> None | x # r \<Rightarrow> Some r) [] True [''1''] None one_session = (res, d')" by fastforce
  from cached_sessions_current [OF bytes_codec run w, of "''1''" True] show ?thesis using w by auto
qed

theorem received_session_overwritten_witness:
  "\<exists>res d3 ex cache. WithCachedSessions (\<lambda>r. 7 # r) (\<lambda>b. case b of [] \<Rightarrow> None | x # r \<Rightarrow> Some r) [] True [''1''] None
      (snd (snd (StoreSession (\<lambda>r. 7 # r) True ''1'' [2] None (set_l1 ''1'' [7, 1] one_session)))) = (res, d3) \<and>
    res = Some (ex, Some cache) \<and> LoadSession (\<lambda>b. case b of [] \<Rightarrow> None | x # r \<Rightarrow> Some r) [] True (Some cache) ''1'' d3 = Some [1]"
proof -
  let ?d = "set_l1 ''1'' [7, 1] one_session"
  obtain ok ctx d2 where s: "StoreSession (\<lambda>r. 7 # r) True ''1'' [2] None ?d = (ok, ctx, d2)" by (rule prod_cases3)
  obtain res d3 where w: "WithCachedSessions (\<lambda>r. 7 # r) (\<lambda>b. case b of [] \<Rightarrow> None | x # r \<Rightarrow> Some r) [] True [''1''] None d2 = (res, d3)" by fastforce
  have "l1SessionCache ?d ''1'' = Some (7 # [1])" by (simp add: set_l1_def)
  from received_session_overwritten [OF bytes_codec this s w] show ?thesis using s w by auto
qed

theorem deleted_session_returns_witness:
  "db (session_flush True (InvalidateL1Session ''1'' (snd (DeleteSession True ''1'' (one_session\<lparr>co_dirty := [''1'' \<mapsto> [7]]\<rparr>))))) ''1'' = Some [7]"
  using deleted_session_returns [of "one_session\<lparr>co_dirty := [''1'' \<mapsto> [7]]\<rparr>" "''1''" "[7]"] by (auto simp: DeleteSession_def)


end
