(* ===== verification/Call_Stanzas.thy ===== *)
theory Call_Stanzas
  imports Node_Access
begin

text \<open>
  The nodes that a client sends during a call: \<open>lib/signaling/stanza.go\<close> and \<open>lib/signaling/video.go\<close>. An
  attribute map is an association list, as in \<open>Encoder\<close>; the order in which a literal lists its entries
  is one order in which the map may be walked, and the relation \<open>walks\<close> of \<open>Call_Delivery\<close> leads to the others. A byte slice or a pointer that may be nil is an option. The loggers are left out.
\<close>

section \<open>Helpers\<close>

type_synonym attrs = "(string \<times> any) list"

text \<open>The assignment \<open>attrs[key] = value\<close>, and the same assignment on the attributes of a node.\<close>

abbreviation set_attr :: "string \<Rightarrow> any \<Rightarrow> attrs \<Rightarrow> attrs" where
  "set_attr \<equiv> AList.update"

definition set_node_attr :: "string \<Rightarrow> any \<Rightarrow> node \<Rightarrow> node" where
  "set_node_attr key val n = Node (Tag n) (set_attr key val (Attrs n)) (Content n)"

definition set_optional :: "string \<Rightarrow> string option \<Rightarrow> attrs \<Rightarrow> attrs" where
  "set_optional key val attrs = (case val of None \<Rightarrow> attrs | Some v \<Rightarrow> set_attr key (StrV v) attrs)"

definition CapabilityOffer :: bytes where
  "CapabilityOffer = [0x01, 0x05, 0xf7, 0x09, 0xe0, 0xbb, 0x13]"

definition CapabilityVideoOffer :: bytes where
  "CapabilityVideoOffer = [0x01, 0x05, 0xf7, 0x09, 0xe0, 0xfa, 0x13]"

definition CapabilityPreaccept :: bytes where
  "CapabilityPreaccept = [0x01, 0x05, 0xf7, 0x09, 0xe0, 0xbb, 0x07]"

text \<open>The sum is computed in 32 bits before it is widened.\<close>

definition EncodeLatency :: "u32 \<Rightarrow> string" where
  "EncodeLatency rttMs = FormatNat (unat (0x02000000 + rttMs))"

definition callWrap :: "JID \<Rightarrow> string option \<Rightarrow> node \<Rightarrow> node" where
  "callWrap to ident action = Node ''call'' (set_optional ''id'' ident [(''to'', JIDV to)]) (NodesV [action])"

definition offerAction :: "string \<Rightarrow> string \<Rightarrow> JID \<Rightarrow> node list \<Rightarrow> node" where
  "offerAction tag callID callCreator children =
     Node tag [(''call-id'', StrV callID), (''call-creator'', JIDV callCreator)] (NodesV children)"

definition destinationTo :: "JID list \<Rightarrow> node" where
  "destinationTo devices =
     Node ''destination'' [] (NodesV (map (\<lambda>jid. Node ''to'' [(''jid'', JIDV jid)] NilV) devices))"

definition audioOpus :: "string \<Rightarrow> node" where
  "audioOpus rate = Node ''audio'' [(''enc'', StrV ''opus''), (''rate'', StrV rate)] NilV"

definition net_node :: "string \<Rightarrow> node" where
  "net_node medium = Node ''net'' [(''medium'', StrV medium)] NilV"

definition encopt_node :: node where
  "encopt_node = Node ''encopt'' [(''keygen'', StrV ''2'')] NilV"

definition capability_node :: "bytes \<Rightarrow> node" where
  "capability_node capability = Node ''capability'' [(''ver'', StrV ''1'')] (BytesV capability)"

definition optional_node :: "('a \<Rightarrow> node) \<Rightarrow> 'a option \<Rightarrow> node list" where
  "optional_node mk v = (case v of None \<Rightarrow> [] | Some x \<Rightarrow> [mk x])"

section \<open>Video\<close>

definition VideoStateDecH264 :: string where "VideoStateDecH264 = ''H264''"
definition videoOfferEncH264 :: string where "videoOfferEncH264 = ''h.264''"
definition videoOfferDecH264 :: string where "videoOfferDecH264 = VideoStateDecH264"
definition VideoStateUpgradeRequestV2 :: int where "VideoStateUpgradeRequestV2 = 11"

definition videoOfferNode :: node where
  "videoOfferNode = Node ''video''
     [(''enc'', StrV videoOfferEncH264), (''dec'', StrV videoOfferDecH264), (''screen_width'', StrV ''1920''),
      (''screen_height'', StrV ''1080''), (''device_orientation'', StrV ''0'')] NilV"

definition videoAcceptNode :: node where
  "videoAcceptNode = Node ''video'' [(''dec'', StrV VideoStateDecH264), (''device_orientation'', StrV ''0'')] NilV"

definition videoPreacceptNode :: node where
  "videoPreacceptNode = Node ''video''
     [(''dec'', StrV VideoStateDecH264), (''device_orientation'', StrV ''0''), (''screen_width'', StrV ''0''),
      (''screen_height'', StrV ''0'')] NilV"

definition OfferHasVideo :: "node option \<Rightarrow> bool" where
  "OfferHasVideo offer =
     (case offer of None \<Rightarrow> False | Some offer \<Rightarrow> list_ex (\<lambda>c. Tag c = ''video'') (GetChildren offer))"

record VideoStateParams =
  vs_CallID :: string
  vs_To :: JID
  vs_CallCreator :: JID
  vs_WrapperID :: string
  vs_State :: int
  vs_Dec :: string
  vs_DeviceOrientation :: "int option"

definition BuildVideoStateWithParams :: "VideoStateParams \<Rightarrow> node" where
  "BuildVideoStateWithParams params =
     (let attrs = [(''call-id'', StrV (vs_CallID params)), (''call-creator'', JIDV (vs_CallCreator params)),
            (''state'', StrV (FormatInt (vs_State params)))];
          attrs = (if vs_Dec params \<noteq> [] then set_attr ''dec'' (StrV (vs_Dec params)) attrs else attrs);
          attrs = (if vs_State params = VideoStateUpgradeRequestV2 then set_attr ''voip_settings'' (StrV ''video'') attrs
                   else attrs);
          attrs = set_optional ''device_orientation'' (map_option FormatInt (vs_DeviceOrientation params)) attrs
      in Node ''call'' [(''to'', JIDV (vs_To params)), (''id'', StrV (vs_WrapperID params))]
           (NodesV [Node ''video'' attrs NilV]))"

definition BuildVideoState ::
  "string \<Rightarrow> JID \<Rightarrow> JID \<Rightarrow> string \<Rightarrow> int \<Rightarrow> int \<Rightarrow> string \<Rightarrow> node" where
  "BuildVideoState callID to callCreator wrapperID state deviceOrientation dec =
     BuildVideoStateWithParams
       \<lparr>vs_CallID = callID, vs_To = to, vs_CallCreator = callCreator, vs_WrapperID = wrapperID,
        vs_State = state, vs_Dec = dec, vs_DeviceOrientation = Some deviceOrientation\<rparr>"

definition BuildVideoAck :: "node option \<Rightarrow> node option" where
  "BuildVideoAck original =
     (case original of None \<Rightarrow> None
      | Some original \<Rightarrow>
          let ag = AttrGetter original;
              (ident, ag) = AttrString ''id'' ag;
              (from, ag) = AttrJID ''from'' ag
          in if ident = [] \<or> IsEmpty from then None
             else
               let attrs = [(''class'', StrV ''call''), (''id'', StrV ident), (''to'', JIDV from), (''type'', StrV ''video'')];
                   (participant, ag) = AttrJID ''participant'' ag;
                   attrs = (if \<not> IsEmpty participant \<and> participant \<noteq> from
                            then set_attr ''participant'' (JIDV participant) attrs else attrs);
                   (recipient, ag) = AttrJID ''recipient'' ag;
                   attrs = (if \<not> IsEmpty recipient then set_attr ''recipient'' (JIDV recipient) attrs else attrs)
               in Some (Node ''ack'' attrs NilV))"

section \<open>Stanzas\<close>

record OfferDeviceKey =
  DeviceJid :: JID
  Ciphertext :: bytes
  EncType :: string

definition encNode :: "OfferDeviceKey \<Rightarrow> node" where
  "encNode dk = Node ''enc'' [(''v'', StrV ''2''), (''type'', StrV (EncType dk)), (''count'', StrV ''0'')]
     (BytesV (Ciphertext dk))"

record OfferParams =
  of_CallID :: string
  of_To :: JID
  of_CallCreator :: JID
  of_DeviceKeys :: "OfferDeviceKey list"
  of_PrivacyToken :: "bytes option"
  of_Capability :: "bytes option"
  of_DeviceIdentity :: "bytes option"
  of_Video :: bool

definition offerCapability :: "bool \<Rightarrow> bytes option \<Rightarrow> bytes option" where
  "offerCapability video capability =
     (if video \<and> capability = Some CapabilityOffer then Some CapabilityVideoOffer else capability)"

text \<open>The child that carries the keys: a list of devices, the key of the only device, or nothing.\<close>

definition offer_keys :: "OfferDeviceKey list \<Rightarrow> node list" where
  "offer_keys keys =
     (if length keys > 1
      then [Node ''destination'' []
              (NodesV (map (\<lambda>dk. Node ''to'' [(''jid'', JIDV (DeviceJid dk))] (NodesV [encNode dk])) keys))]
      else if length keys = 1 then [encNode (keys ! 0)]
      else [])"

definition BuildOffer :: "OfferParams \<Rightarrow> node" where
  "BuildOffer p =
     (let children = optional_node (\<lambda>t. Node ''privacy'' [] (BytesV t)) (of_PrivacyToken p);
          children = children @ [audioOpus ''8000'', audioOpus ''16000''];
          children = (if of_Video p then children @ [videoOfferNode] else children);
          children = children @ [net_node ''3''];
          children = children @ optional_node capability_node (offerCapability (of_Video p) (of_Capability p));
          children = children @ offer_keys (of_DeviceKeys p);
          children = children @ [encopt_node];
          children = children @ optional_node (\<lambda>d. Node ''device-identity'' [] (BytesV d)) (of_DeviceIdentity p)
      in callWrap (of_To p) None (offerAction ''offer'' (of_CallID p) (of_CallCreator p) children))"

record AcceptParams =
  ac_CallID :: string
  ac_To :: JID
  ac_CallCreator :: JID
  ac_AudioRates :: "string list"
  ac_RelayTe :: "bytes option"
  ac_Rte :: "bytes option"
  ac_VoipSettings :: "bytes option"
  ac_Capability :: "bytes option"
  ac_Metadata :: "attrs option"
  ac_Video :: bool

definition BuildAccept :: "AcceptParams \<Rightarrow> node" where
  "BuildAccept p =
     (let children = map audioOpus (ac_AudioRates p);
          children = (if ac_Video p then children @ [videoAcceptNode] else children);
          children = children @ optional_node (\<lambda>te. Node ''te'' [(''priority'', StrV ''2'')] (BytesV te)) (ac_RelayTe p);
          children = children @ [net_node ''2''];
          children = children @ [encopt_node];
          children = children @ optional_node capability_node (ac_Capability p);
          children = children @ optional_node (\<lambda>m. Node ''metadata'' m NilV) (ac_Metadata p);
          children = children @ optional_node (\<lambda>r. Node ''rte'' [] (BytesV r)) (ac_Rte p);
          children = children @
            optional_node (\<lambda>v. Node ''voip_settings'' [(''uncompressed'', StrV ''1'')] (BytesV v)) (ac_VoipSettings p)
      in callWrap (ac_To p) None (offerAction ''accept'' (ac_CallID p) (ac_CallCreator p) children))"

definition BuildPreaccept :: "string \<Rightarrow> JID \<Rightarrow> JID \<Rightarrow> string \<Rightarrow> string list \<Rightarrow> bool \<Rightarrow> node" where
  "BuildPreaccept callID to callCreator wrapperID audioRates video =
     (let children = map audioOpus audioRates;
          children = (if video then children @ [videoPreacceptNode] else children);
          children = children @ [encopt_node];
          capability = (if video then CapabilityOffer else CapabilityPreaccept);
          children = children @ [capability_node capability]
      in callWrap to (Some wrapperID) (offerAction ''preaccept'' callID callCreator children))"

record TransportParams =
  tr_CallID :: string
  tr_To :: JID
  tr_CallCreator :: JID
  tr_P2PCandRound :: "string option"
  tr_TransportMessageType :: "string option"
  tr_RelayTe :: "bytes option"

definition BuildTransport :: "TransportParams \<Rightarrow> node" where
  "BuildTransport p =
     (let attrs = [(''call-id'', StrV (tr_CallID p)), (''call-creator'', JIDV (tr_CallCreator p))];
          attrs = set_optional ''p2p-cand-round'' (tr_P2PCandRound p) attrs;
          attrs = set_optional ''transport-message-type'' (tr_TransportMessageType p) attrs;
          children = optional_node (\<lambda>te. Node ''te'' [(''priority'', StrV ''1'')] (BytesV te)) (tr_RelayTe p);
          netAttrs = [(''medium'', StrV ''2'')];
          netAttrs = (if tr_TransportMessageType p \<noteq> Some ''9'' then set_attr ''protocol'' (StrV ''0'') netAttrs
                      else netAttrs);
          children = children @ [Node ''net'' netAttrs NilV]
      in callWrap (tr_To p) None (Node ''transport'' attrs (NodesV children)))"

record RelayLatencyParams =
  rl_CallID :: string
  rl_To :: JID
  rl_CallCreator :: JID
  rl_LatencyMs :: u32
  rl_RelayName :: string
  rl_AddressBytes :: bytes
  rl_Devices :: "JID list"

definition BuildRelayLatency :: "RelayLatencyParams \<Rightarrow> node" where
  "BuildRelayLatency p =
     (let children = [Node ''te'' [(''latency'', StrV (EncodeLatency (rl_LatencyMs p))),
              (''relay_name'', StrV (rl_RelayName p))] (BytesV (rl_AddressBytes p))];
          children = (if length (rl_Devices p) > 0 then children @ [destinationTo (rl_Devices p)] else children)
      in callWrap (rl_To p) None (offerAction ''relaylatency'' (rl_CallID p) (rl_CallCreator p) children))"

definition BuildHeartbeat :: "string \<Rightarrow> JID \<Rightarrow> string \<Rightarrow> node" where
  "BuildHeartbeat callID callCreator wrapperID =
     Node ''call'' [(''to'', StrV (callID @ ''@call'')), (''id'', StrV wrapperID)]
       (NodesV [Node ''heartbeat'' [(''call-id'', StrV callID), (''call-creator'', JIDV callCreator)] NilV])"

record TerminateParams =
  te_CallID :: string
  te_To :: JID
  te_CallCreator :: JID
  te_Reason :: "string option"
  te_TargetDevices :: "JID list"

text \<open>Without target devices the content is a nil slice of nodes, not nil.\<close>

definition BuildTerminate :: "TerminateParams \<Rightarrow> node" where
  "BuildTerminate p =
     (let attrs = set_optional ''reason'' (te_Reason p)
            [(''call-id'', StrV (te_CallID p)), (''call-creator'', JIDV (te_CallCreator p))];
          content = (if length (te_TargetDevices p) > 0 then [destinationTo (te_TargetDevices p)] else [])
      in callWrap (te_To p) None (Node ''terminate'' attrs (NodesV content)))"

definition BuildMuteV2 :: "string \<Rightarrow> JID \<Rightarrow> JID \<Rightarrow> string \<Rightarrow> node" where
  "BuildMuteV2 callID to callCreator muteState =
     callWrap to None (Node ''mute_v2''
       [(''call-id'', StrV callID), (''call-creator'', JIDV callCreator), (''mute-state'', StrV muteState)] NilV)"

definition BuildReject :: "string \<Rightarrow> JID \<Rightarrow> JID \<Rightarrow> node" where
  "BuildReject callID to callCreator =
     callWrap to None (Node ''reject'' [(''call-id'', StrV callID), (''call-creator'', JIDV callCreator)] NilV)"

end
