(* ===== verification/Call_Control.thy ===== *)
theory Call_Control
  imports Call_Stanzas
begin

text \<open>
  Control of calls by nodes: raised hands and screen shares (\<open>lib/signaling/participant_state.go\<close>), rosters,
  relays and keys of group calls (\<open>lib/signaling/group.go\<close>). A pointer to a node is an option. An error is the text of its message, with what it wraps.
\<close>

datatype sig_error =
    SigErr string
  | SigAttrs string "attr_error list"
  | SigNum string num_error
  | SigAt string "nat list"
  | SigJSON

type_synonym 'a sig_read = "AttrUtility \<Rightarrow> (sig_error + 'a) \<times> AttrUtility"

text \<open>\<open>if err := attrs.Error(); err != nil\<close>\<close>

definition check_attrs :: "string \<Rightarrow> AttrUtility \<Rightarrow> sig_error + unit" where
  "check_attrs msg au = (case AuError au of None \<Rightarrow> Inr () | Some es \<Rightarrow> Inl (SigAttrs msg es))"

text \<open>\<open>attrs.OptionalString(key) == "1"\<close>\<close>

definition flag_attr :: "string \<Rightarrow> bool attr_read" where
  "flag_attr key au = (case OptionalString key au of (s, au) \<Rightarrow> (s = ''1'', au))"

definition parse_u32 :: "string \<Rightarrow> string \<Rightarrow> sig_error + u32" where
  "parse_u32 msg raw =
     (case ParseUint raw 32 of (_, Some e) \<Rightarrow> Inl (SigNum msg e) | (v, None) \<Rightarrow> Inr (of_nat v))"

definition optionalUint32Attr :: "string \<Rightarrow> (u32 \<times> bool) sig_read" where
  "optionalUint32Attr key au =
     (case GetString key False au of
        ((raw, ok), au) \<Rightarrow>
          (if \<not> ok then Inr (0, False) else bind_res (parse_u32 key raw) (\<lambda>v. Inr (v, True)), au))"

definition requiredUint32Attr :: "string \<Rightarrow> u32 sig_read" where
  "requiredUint32Attr key au =
     (case optionalUint32Attr key au of
        (r, au) \<Rightarrow> (bind_res r (\<lambda>(value, ok). if \<not> ok then Inl (SigErr (''missing '' @ key)) else Inr value), au))"

text \<open>The result of the function is nil when the content is neither bytes nor a string.\<close>

definition nodeBytes :: "node \<Rightarrow> bytes option" where
  "nodeBytes n = (case Content n of BytesV content \<Rightarrow> Some content | StrV content \<Rightarrow> Some (str_bytes content) | _ \<Rightarrow> None)"

section \<open>Hands and screens\<close>

text \<open>The constants of \<open>ScreenShareState\<close>, an \<open>int\<close>.\<close>

definition ScreenShareStarted :: int where "ScreenShareStarted = 1"
definition ScreenShareStopped :: int where "ScreenShareStopped = 2"

record ScreenShare =
  ss_State :: int
  ss_Version :: u32
  ss_ScreenShareID :: u32
  ss_HasScreenShareID :: bool

definition BuildRaiseHand :: "string \<Rightarrow> JID \<Rightarrow> JID \<Rightarrow> string \<Rightarrow> bool \<Rightarrow> node" where
  "BuildRaiseHand callID to creator requestID raised =
     (let state = (if raised then ''1'' else ''0'')
      in callWrap to (Some requestID) (Node ''user_action''
           [(''call-id'', StrV callID), (''call-creator'', JIDV creator), (''action'', StrV ''raise_hand'')]
           (NodesV [Node ''raise_hand'' [(''raise-hand-state'', StrV state)] NilV])))"

text \<open>
  The source reads the attributes inside a short-circuit condition. The errors that the reads record are not
  looked at, so reading all three first makes no difference.
\<close>

definition ParseRaiseHand :: "node option \<Rightarrow> sig_error + bool" where
  "ParseRaiseHand node =
     (case node of None \<Rightarrow> Inl (SigErr ''unexpected node'')
      | Some node \<Rightarrow>
          if Tag node \<noteq> ''user_action'' then Inl (SigErr ''unexpected node'')
          else
            let attrs = AttrGetter node;
                (action, attrs) = AttrString ''action'' attrs;
                (callID, attrs) = AttrString ''call-id'' attrs;
                (creator, attrs) = AttrJID ''call-creator'' attrs
            in if action \<noteq> ''raise_hand'' \<or> callID = [] \<or> IsEmpty creator
               then Inl (SigErr ''invalid identity or action'')
               else case GetOptionalChildByTag node [''raise_hand''] of
                   (_, False) \<Rightarrow> Inl (SigErr ''missing state'')
                 | (child, True) \<Rightarrow>
                     let state = fst (AttrString ''raise-hand-state'' (AttrGetter child))
                     in if state = ''1'' then Inr True
                        else if state = ''0'' then Inr False
                        else Inl (SigErr ''invalid state''))"

definition BuildScreenShare :: "string \<Rightarrow> JID \<Rightarrow> JID \<Rightarrow> string \<Rightarrow> int \<Rightarrow> u32 option \<Rightarrow> node" where
  "BuildScreenShare callID to creator requestID state screenShareID =
     (let attrs = [(''call-id'', StrV callID), (''call-creator'', JIDV creator),
            (''screenshare_state'', StrV (FormatInt state)), (''version'', StrV ''2'')];
          attrs = set_optional ''screen_share_id'' (map_option (\<lambda>i. FormatNat (unat i)) screenShareID) attrs
      in callWrap to (Some requestID) (Node ''screen_share'' attrs NilV))"

definition ParseScreenShare :: "node option \<Rightarrow> sig_error + ScreenShare" where
  "ParseScreenShare node =
     (case node of None \<Rightarrow> Inl (SigErr ''unexpected node'')
      | Some node \<Rightarrow>
          if Tag node \<noteq> ''screen_share'' then Inl (SigErr ''unexpected node'')
          else
            let attrs = AttrGetter node;
                (rawState, attrs) = AttrString ''screenshare_state'' attrs
            in case ParseInt rawState 64 of
                (_, Some e) \<Rightarrow> Inl (SigNum ''parse screen share state'' e)
              | (state, None) \<Rightarrow>
                  if state \<noteq> ScreenShareStarted \<and> state \<noteq> ScreenShareStopped
                  then Inl (SigErr ''unsupported state'')
                  else
                    let (rawVersion, attrs) = AttrString ''version'' attrs
                    in bind_res (parse_u32 ''parse screen share version'' rawVersion) (\<lambda>version.
                       let result = \<lparr>ss_State = state, ss_Version = version, ss_ScreenShareID = 0,
                             ss_HasScreenShareID = False\<rparr>;
                           (rawID, attrs) = OptionalString ''screen_share_id'' attrs
                       in bind_res
                            (if rawID \<noteq> []
                             then bind_res (parse_u32 ''parse screen share ID'' rawID) (\<lambda>ident.
                               Inr (result\<lparr>ss_ScreenShareID := ident, ss_HasScreenShareID := True\<rparr>))
                             else Inr result)
                            (\<lambda>result. bind_res (check_attrs ''parse screen share'' attrs) (\<lambda>_. Inr result))))"

definition BuildCallControlAck :: "node option \<Rightarrow> string \<Rightarrow> node option" where
  "BuildCallControlAck original childTag =
     (case original of None \<Rightarrow> None
      | Some original \<Rightarrow>
          if childTag = [] then None
          else
            let attrs = AttrGetter original;
                (ident, attrs) = AttrString ''id'' attrs;
                (from, attrs) = AttrJID ''from'' attrs
            in if ident = [] \<or> IsEmpty from then None
               else
                 let ackAttrs = [(''class'', StrV ''call''), (''id'', StrV ident), (''to'', JIDV from), (''type'', StrV childTag)];
                     (participant, attrs) = OptionalJIDOrEmpty ''participant'' attrs;
                     ackAttrs = (if \<not> IsEmpty participant \<and> participant \<noteq> from
                                 then set_attr ''participant'' (JIDV participant) ackAttrs else ackAttrs);
                     (recipient, attrs) = OptionalJIDOrEmpty ''recipient'' attrs;
                     ackAttrs = (if \<not> IsEmpty recipient then set_attr ''recipient'' (JIDV recipient) ackAttrs
                                 else ackAttrs)
                 in Some (Node ''ack'' ackAttrs NilV))"

section \<open>Envelopes\<close>

record CallControlEnvelope =
  en_From :: JID
  en_Participant :: JID
  en_Recipient :: JID
  en_Timestamp :: go_time
  en_CallID :: string
  en_CallCreator :: JID
  en_Action :: node

definition ParseCallControlEnvelope :: "node option \<Rightarrow> sig_error + CallControlEnvelope" where
  "ParseCallControlEnvelope node =
     (case node of None \<Rightarrow> Inl (SigErr ''unexpected node'')
      | Some node \<Rightarrow>
          if Tag node \<noteq> ''call'' then Inl (SigErr ''unexpected node'')
          else
            let children = GetChildren node
            in if length children \<noteq> 1 then Inl (SigAt ''parse call control envelope'' [length children])
               else
                 let attrs = AttrGetter node;
                     childAttrs = AttrGetter (children ! 0);
                     (from, attrs) = AttrJID ''from'' attrs;
                     (participant, attrs) = OptionalJIDOrEmpty ''participant'' attrs;
                     (recipient, attrs) = OptionalJIDOrEmpty ''recipient'' attrs;
                     (timestamp, attrs) = OptionalUnixTime ''t'' attrs;
                     (callID, childAttrs) = AttrString ''call-id'' childAttrs;
                     (callCreator, childAttrs) = AttrJID ''call-creator'' childAttrs
                 in bind_res (check_attrs ''parse call control routing'' attrs) (\<lambda>_.
                    bind_res (check_attrs ''parse call control identity'' childAttrs) (\<lambda>_.
                    Inr \<lparr>en_From = from, en_Participant = participant, en_Recipient = recipient,
                         en_Timestamp = timestamp, en_CallID = callID, en_CallCreator = callCreator,
                         en_Action = children ! 0\<rparr>)))"

section \<open>Rosters and relays\<close>

record GroupCallDevice =
  gd_JID :: JID
  gd_Platform :: string
  gd_PID :: u32
  gd_HasPID :: bool
  gd_CapabilityVersion :: u32
  gd_Capability :: "bytes option"

record GroupCallParticipant =
  gp_JID :: JID
  gp_PN :: JID
  gp_State :: string
  gp_Type :: string
  gp_Devices :: "GroupCallDevice list"

record GroupCallRelayEndpoint =
  re_RelayID :: u32
  re_TokenID :: u32
  re_AuthTokenID :: u32
  re_RelayName :: string
  re_DomainName :: string
  re_RTT :: u32
  re_IsFNA :: bool
  re_Address :: "bytes option"
  re_IPv4 :: string
  re_Port :: u16

record GroupCallRelay =
  gr_TransactionID :: u32
  gr_SelfPID :: u32
  gr_HasSelfPID :: bool
  gr_UUID :: string
  gr_ParticipantUUID :: string
  gr_AttributePadding :: bool
  gr_WarpMITagLength :: u32
  gr_HasWarpMITagLength :: bool
  gr_Key :: "bytes option"
  gr_HBHKey :: "bytes option"
  gr_Tokens :: "bytes option list"
  gr_AuthTokens :: "bytes option list"
  gr_Endpoints :: "GroupCallRelayEndpoint list"

record GroupCallUpdate =
  gu_CallID :: string
  gu_CallCreator :: JID
  gu_GroupJID :: JID
  gu_TransactionID :: u32
  gu_Media :: string
  gu_ConnectedLimit :: u32
  gu_Joinable :: bool
  gu_AVUpgradable :: bool
  gu_RekeyRequested :: bool
  gu_Participants :: "GroupCallParticipant list"
  gu_Relay :: "GroupCallRelay option"

definition new_update :: "string \<Rightarrow> JID \<Rightarrow> GroupCallUpdate" where
  "new_update callID callCreator =
     \<lparr>gu_CallID = callID, gu_CallCreator = callCreator, gu_GroupJID = EmptyJID, gu_TransactionID = 0, gu_Media = [],
      gu_ConnectedLimit = 0, gu_Joinable = False, gu_AVUpgradable = False, gu_RekeyRequested = False,
      gu_Participants = [], gu_Relay = None\<rparr>"

definition parseGroupDevice :: "node \<Rightarrow> sig_error + GroupCallDevice" where
  "parseGroupDevice node =
     (let attrs = AttrGetter node;
          (jid, attrs) = AttrJID ''jid'' attrs;
          (platform, attrs) = OptionalString ''platform'' attrs;
          (pid, attrs) = optionalUint32Attr ''pid'' attrs
      in bind_res pid (\<lambda>(PID, HasPID).
         bind_res (check_attrs ''parse group device'' attrs) (\<lambda>_.
         let device = \<lparr>gd_JID = jid, gd_Platform = platform, gd_PID = PID, gd_HasPID = HasPID,
               gd_CapabilityVersion = 0, gd_Capability = None\<rparr>
         in case GetOptionalChildByTag node [''capability''] of
              (_, False) \<Rightarrow> Inr device
            | (capability, True) \<Rightarrow>
                bind_res (fst (optionalUint32Attr ''ver'' (AttrGetter capability))) (\<lambda>(version, _).
                Inr (device\<lparr>gd_CapabilityVersion := version, gd_Capability := nodeBytes capability\<rparr>)))))"

text \<open>
  The loops over the children that have a certain tag: the first error ends the loop, other children are
  skipped.
\<close>

fun parse_children :: "string \<Rightarrow> (node \<Rightarrow> sig_error + 'a) \<Rightarrow> node list \<Rightarrow> sig_error + 'a list" where
  "parse_children tag parse [] = Inr []"
| "parse_children tag parse (child # children) =
     (if Tag child \<noteq> tag then parse_children tag parse children
      else bind_res (parse child) (\<lambda>x. bind_res (parse_children tag parse children) (\<lambda>xs. Inr (x # xs))))"

definition parseGroupParticipant :: "node \<Rightarrow> sig_error + GroupCallParticipant" where
  "parseGroupParticipant node =
     (let attrs = AttrGetter node;
          (jid, attrs) = AttrJID ''jid'' attrs;
          (pn, attrs) = OptionalJIDOrEmpty ''user_pn'' attrs;
          (state, attrs) = AttrString ''state'' attrs;
          (ty, attrs) = OptionalString ''type'' attrs
      in bind_res (check_attrs ''parse group participant'' attrs) (\<lambda>_.
         bind_res (parse_children ''device'' parseGroupDevice (GetChildren node)) (\<lambda>devices.
         Inr \<lparr>gp_JID = jid, gp_PN = pn, gp_State = state, gp_Type = ty, gp_Devices = devices\<rparr>)))"

definition parseGroupInfo :: "node \<Rightarrow> GroupCallUpdate \<Rightarrow> sig_error + GroupCallUpdate" where
  "parseGroupInfo node update =
     (let attrs = AttrGetter node;
          (groupJID, attrs) = OptionalJIDOrEmpty ''group-jid'' attrs;
          (media, attrs) = AttrString ''media'' attrs;
          (joinable, attrs) = flag_attr ''joinable'' attrs;
          (rekey, attrs) = flag_attr ''rekey'' attrs;
          (transactionID, attrs) = requiredUint32Attr ''transaction-id'' attrs
      in bind_res transactionID (\<lambda>transactionID.
         let (connectedLimit, attrs) = requiredUint32Attr ''connected-limit'' attrs
         in bind_res connectedLimit (\<lambda>connectedLimit.
            bind_res (check_attrs ''parse group_info attributes'' attrs) (\<lambda>_.
            bind_res (parse_children ''user'' parseGroupParticipant (GetChildren node)) (\<lambda>participants.
            Inr (update\<lparr>gu_GroupJID := groupJID, gu_Media := media, gu_Joinable := joinable,
              gu_RekeyRequested := rekey, gu_TransactionID := transactionID, gu_ConnectedLimit := connectedLimit,
              gu_Participants := gu_Participants update @ participants\<rparr>))))))"

text \<open>
  The slot of a token: its identifier when it has one between 0 and 63, the end of the list when it has
  none. A token with another identifier is skipped. The list is filled with nil up to the slot.
\<close>

definition token_slot :: "nat \<Rightarrow> node \<Rightarrow> nat option" where
  "token_slot len child =
     (let raw = fst (OptionalString ''id'' (AttrGetter child))
      in if raw = [] then Some len
         else case ParseInt raw 64 of
             (_, Some _) \<Rightarrow> None
           | (parsed, None) \<Rightarrow> if parsed < 0 \<or> parsed \<ge> 64 then None else Some (nat parsed))"

definition token_step :: "string \<Rightarrow> bytes option list \<Rightarrow> node \<Rightarrow> bytes option list" where
  "token_step tag tokens child =
     (if Tag child \<noteq> tag then tokens
      else case nodeBytes child of
          None \<Rightarrow> tokens
        | Some value \<Rightarrow>
            (case token_slot (length tokens) child of
               None \<Rightarrow> tokens
             | Some slot \<Rightarrow> (tokens @ replicate (Suc slot - length tokens) None)[slot := Some value]))"

definition parseIndexedTokens :: "node \<Rightarrow> string \<Rightarrow> bytes option list" where
  "parseIndexedTokens node tag = foldl (token_step tag) [] (GetChildren node)"

text \<open>\<open>net.IP.String\<close> of four bytes.\<close>

fun ipv4_string :: "bytes \<Rightarrow> string" where
  "ipv4_string [a, b, c, d] =
     FormatNat (unat a) @ ''.'' @ FormatNat (unat b) @ ''.'' @ FormatNat (unat c) @ ''.'' @ FormatNat (unat d)"
| "ipv4_string _ = []"

definition parseGroupRelayEndpoint :: "node \<Rightarrow> sig_error + GroupCallRelayEndpoint" where
  "parseGroupRelayEndpoint node =
     (let attrs = AttrGetter node;
          (relayName, attrs) = AttrString ''relay_name'' attrs;
          (domainName, attrs) = OptionalString ''domain_name'' attrs;
          (isFNA, attrs) = flag_attr ''is_fna'' attrs;
          address = nodeBytes node;
          (ipv4, port) = (case address of
              Some [a, b, c, d, p, q] \<Rightarrow> (ipv4_string [a, b, c, d], be16 p q)
            | _ \<Rightarrow> ([], 0));
          (relayID, attrs) = optionalUint32Attr ''relay_id'' attrs
      in bind_res relayID (\<lambda>(relayID, _).
         let (tokenID, attrs) = optionalUint32Attr ''token_id'' attrs
         in bind_res tokenID (\<lambda>(tokenID, _).
            let (authTokenID, attrs) = optionalUint32Attr ''auth_token_id'' attrs
            in bind_res authTokenID (\<lambda>(authTokenID, _).
               let (rtt, attrs) = optionalUint32Attr ''c2r_rtt'' attrs
               in bind_res rtt (\<lambda>(rtt, _).
                  bind_res (check_attrs ''parse group relay endpoint'' attrs) (\<lambda>_.
                  Inr \<lparr>re_RelayID = relayID, re_TokenID = tokenID, re_AuthTokenID = authTokenID,
                       re_RelayName = relayName, re_DomainName = domainName, re_RTT = rtt, re_IsFNA = isFNA,
                       re_Address = address, re_IPv4 = ipv4, re_Port = port\<rparr>))))))"

fun relay_children :: "GroupCallRelay \<Rightarrow> node list \<Rightarrow> sig_error + GroupCallRelay" where
  "relay_children relay [] = Inr relay"
| "relay_children relay (child # children) =
     (if Tag child = ''key'' then relay_children (relay\<lparr>gr_Key := nodeBytes child\<rparr>) children
      else if Tag child = ''hbh_key'' then relay_children (relay\<lparr>gr_HBHKey := nodeBytes child\<rparr>) children
      else if Tag child = ''te2''
      then bind_res (parseGroupRelayEndpoint child) (\<lambda>endpoint.
        relay_children (relay\<lparr>gr_Endpoints := gr_Endpoints relay @ [endpoint]\<rparr>) children)
      else relay_children relay children)"

definition parseGroupRelay :: "node \<Rightarrow> sig_error + GroupCallRelay" where
  "parseGroupRelay node =
     (let attrs = AttrGetter node;
          (uuid, attrs) = AttrString ''uuid'' attrs;
          (participantUUID, attrs) = AttrString ''participant_uuid'' attrs;
          (padding, attrs) = flag_attr ''attribute_padding'' attrs;
          tokens = parseIndexedTokens node ''token'';
          authTokens = parseIndexedTokens node ''auth_token'';
          (transactionID, attrs) = optionalUint32Attr ''transaction-id'' attrs
      in bind_res transactionID (\<lambda>(transactionID, _).
         let (selfPID, attrs) = optionalUint32Attr ''self_pid'' attrs
         in bind_res selfPID (\<lambda>(selfPID, hasSelfPID).
            let (tagLength, attrs) = optionalUint32Attr ''warp_mi_tag_len'' attrs
            in bind_res tagLength (\<lambda>(tagLength, hasTagLength).
               bind_res (check_attrs ''parse group relay'' attrs) (\<lambda>_.
               relay_children
                 \<lparr>gr_TransactionID = transactionID, gr_SelfPID = selfPID, gr_HasSelfPID = hasSelfPID,
                  gr_UUID = uuid, gr_ParticipantUUID = participantUUID, gr_AttributePadding = padding,
                  gr_WarpMITagLength = tagLength, gr_HasWarpMITagLength = hasTagLength, gr_Key = None,
                  gr_HBHKey = None, gr_Tokens = tokens, gr_AuthTokens = authTokens, gr_Endpoints = []\<rparr>
                 (GetChildren node))))))"

text \<open>The optional relay of an acknowledgement or an update.\<close>

definition add_relay :: "node \<Rightarrow> GroupCallUpdate \<Rightarrow> sig_error + GroupCallUpdate" where
  "add_relay node update =
     (case GetOptionalChildByTag node [''relay''] of
        (_, False) \<Rightarrow> Inr update
      | (relay, True) \<Rightarrow> bind_res (parseGroupRelay relay) (\<lambda>parsed. Inr (update\<lparr>gu_Relay := Some parsed\<rparr>)))"

text \<open>The result None is an offer without a roster.\<close>

definition ParseGroupInviteSnapshot :: "node option \<Rightarrow> sig_error + GroupCallUpdate option" where
  "ParseGroupInviteSnapshot offer =
     (case offer of None \<Rightarrow> Inl (SigErr ''unexpected offer'')
      | Some offer \<Rightarrow>
          if Tag offer \<noteq> ''offer'' then Inl (SigErr ''unexpected offer'')
          else case GetOptionalChildByTag offer [''group_info''] of
              (_, False) \<Rightarrow> Inr None
            | (groupInfo, True) \<Rightarrow>
                let attrs = AttrGetter offer;
                    (callID, attrs) = AttrString ''call-id'' attrs;
                    (callCreator, attrs) = AttrJID ''call-creator'' attrs;
                    update = new_update callID callCreator
                in bind_res (check_attrs ''parse group invite identity'' attrs) (\<lambda>_.
                   let groupAttrs = AttrGetter groupInfo;
                       (groupCallID, groupAttrs) = OptionalString ''call-id'' groupAttrs
                   in if groupCallID \<noteq> [] \<and> groupCallID \<noteq> callID
                      then Inl (SigErr ''group invite call ID mismatch'')
                      else
                        let (creator, groupAttrs) = OptionalJIDOrEmpty ''call-creator'' groupAttrs
                        in if \<not> IsEmpty creator \<and> creator \<noteq> callCreator
                           then Inl (SigErr ''group invite creator mismatch'')
                           else bind_res (parseGroupInfo groupInfo update) (\<lambda>update.
                             Inr (Some (update\<lparr>gu_Joinable := fst (flag_attr ''joinable'' attrs)\<rparr>)))))"

definition ParseInitialGroupCallAck :: "node option \<Rightarrow> sig_error + GroupCallUpdate option" where
  "ParseInitialGroupCallAck node =
     (case node of None \<Rightarrow> Inl (SigErr ''unexpected envelope'')
      | Some node \<Rightarrow>
          if Tag node \<noteq> ''ack'' then Inl (SigErr ''unexpected envelope'')
          else case GetOptionalChildByTag node [''group_info''] of
              (_, False) \<Rightarrow> Inr None
            | (groupInfo, True) \<Rightarrow>
                let attrs = AttrGetter groupInfo;
                    (callID, attrs) = AttrString ''call-id'' attrs;
                    (callCreator, attrs) = AttrJID ''call-creator'' attrs
                in bind_res (check_attrs ''parse initial group identity'' attrs) (\<lambda>_.
                   bind_res (parseGroupInfo groupInfo (new_update callID callCreator)) (\<lambda>update.
                   bind_res (add_relay node update) (\<lambda>update. Inr (Some update)))))"

definition ParseGroupUpdate :: "node option \<Rightarrow> sig_error + GroupCallUpdate" where
  "ParseGroupUpdate node =
     (case node of None \<Rightarrow> Inl (SigErr ''unexpected node'')
      | Some node \<Rightarrow>
          if Tag node \<noteq> ''group_update'' then Inl (SigErr ''unexpected node'')
          else
            let attrs = AttrGetter node;
                (callID, attrs) = AttrString ''call-id'' attrs;
                (callCreator, attrs) = AttrJID ''call-creator'' attrs
            in bind_res (check_attrs ''parse group update identity'' attrs) (\<lambda>_.
               case GetOptionalChildByTag node [''group_info''] of
                 (_, False) \<Rightarrow> Inl (SigErr ''missing group_info'')
               | (groupInfo, True) \<Rightarrow>
                   bind_res (parseGroupInfo groupInfo (new_update callID callCreator)) (\<lambda>update.
                   let update = (case GetOptionalChildByTag node [''av_upgrade''] of
                         (_, False) \<Rightarrow> update
                       | (avUpgrade, True) \<Rightarrow>
                           update\<lparr>gu_AVUpgradable := fst (flag_attr ''av-upgradable'' (AttrGetter avUpgrade))\<rparr>)
                   in add_relay node update)))"

section \<open>Building group calls\<close>

definition BuildActiveGroupPreaccept :: "string \<Rightarrow> JID \<Rightarrow> string \<Rightarrow> bool \<Rightarrow> sig_error + node" where
  "BuildActiveGroupPreaccept callID callCreator requestID video =
     (if callID = [] \<or> IsEmpty callCreator \<or> requestID = [] then Inl (SigErr ''incomplete identity'')
      else Inr (BuildPreaccept callID (NewJID callID ''call'') callCreator requestID [''16000''] video))"

definition BuildActiveGroupAccept :: "string \<Rightarrow> JID \<Rightarrow> string \<Rightarrow> sig_error + node" where
  "BuildActiveGroupAccept callID callCreator requestID =
     (if callID = [] \<or> IsEmpty callCreator \<or> requestID = [] then Inl (SigErr ''incomplete identity'')
      else
        let accept = BuildAccept
              \<lparr>ac_CallID = callID, ac_To = NewJID callID ''call'', ac_CallCreator = callCreator,
               ac_AudioRates = [''16000''], ac_RelayTe = None, ac_Rte = None, ac_VoipSettings = None,
               ac_Capability = None, ac_Metadata = None, ac_Video = False\<rparr>
        in Inr (set_node_attr ''id'' (StrV requestID) accept))"

definition group_device :: "JID \<Rightarrow> bool \<Rightarrow> GroupCallDevice \<Rightarrow> node" where
  "group_device creator video device =
     (let content = (case gd_Capability device of
            None \<Rightarrow> []
          | Some value \<Rightarrow>
              let value = (if video \<and> gd_JID device = creator \<and> value = CapabilityOffer then CapabilityVideoOffer else value);
                  attrs = (if gd_CapabilityVersion device \<noteq> 0
                           then [(''ver'', StrV (FormatNat (unat (gd_CapabilityVersion device))))] else [])
              in [Node ''capability'' attrs (BytesV value)])
      in Node ''device'' [(''jid'', JIDV (gd_JID device))] (NodesV content))"

fun group_devices ::
  "JID \<Rightarrow> bool \<Rightarrow> nat \<Rightarrow> nat \<Rightarrow> GroupCallDevice list \<Rightarrow> sig_error + node list" where
  "group_devices creator video i j [] = Inr []"
| "group_devices creator video i j (device # devices) =
     (if IsEmpty (gd_JID device) then Inl (SigAt ''device JID is required'' [i, j])
      else bind_res (group_devices creator video i (Suc j) devices) (\<lambda>ns. Inr (group_device creator video device # ns)))"

fun group_users :: "JID \<Rightarrow> bool \<Rightarrow> nat \<Rightarrow> GroupCallParticipant list \<Rightarrow> sig_error + node list" where
  "group_users creator video i [] = Inr []"
| "group_users creator video i (participant # participants) =
     (if IsEmpty (gp_JID participant) \<or> length (gp_Devices participant) = 0
      then Inl (SigAt ''participant is incomplete'' [i])
      else
        let userAttrs = [(''jid'', JIDV (gp_JID participant))];
            userAttrs = (if gp_State participant \<noteq> [] then set_attr ''state'' (StrV (gp_State participant)) userAttrs
                         else userAttrs)
        in bind_res (group_devices creator video i 0 (gp_Devices participant)) (\<lambda>devices.
           bind_res (group_users creator video (Suc i) participants) (\<lambda>users.
           Inr (Node ''user'' userAttrs (NodesV devices) # users))))"

definition buildGroupUsers :: "GroupCallParticipant list \<Rightarrow> JID \<Rightarrow> bool \<Rightarrow> sig_error + node list" where
  "buildGroupUsers participants creator video = group_users creator video 0 participants"

record InitialGroupOfferParams =
  ig_CallID :: string
  ig_CallCreator :: JID
  ig_GroupJID :: JID
  ig_Participants :: "GroupCallParticipant list"
  ig_Video :: bool

definition BuildInitialGroupOffer :: "InitialGroupOfferParams \<Rightarrow> sig_error + node" where
  "BuildInitialGroupOffer params =
     (if ig_CallID params = [] then Inl (SigErr ''call ID is required'')
      else if IsEmpty (ig_CallCreator params) then Inl (SigErr ''call creator is required'')
      else if length (ig_Participants params) < 3
      then Inl (SigErr ''self and at least two remote participants are required'')
      else bind_res (buildGroupUsers (ig_Participants params) (ig_CallCreator params) (ig_Video params)) (\<lambda>users.
        let children = [audioOpus ''8000'', audioOpus ''16000''];
            children = (if ig_Video params then children @ [videoOfferNode] else children);
            children = children @ [net_node ''3'', Node ''group_info'' [] (NodesV users)];
            offer = offerAction ''offer'' (ig_CallID params) (ig_CallCreator params) children;
            offer = (if \<not> IsEmpty (ig_GroupJID params) then set_node_attr ''group-jid'' (JIDV (ig_GroupJID params)) offer
                     else offer)
        in Inr (callWrap (NewJID (ig_CallID params) ''call'') None offer)))"

record GroupInviteOfferParams =
  gi_CallID :: string
  gi_To :: JID
  gi_CallCreator :: JID
  gi_TargetDevices :: "JID list"
  gi_Participants :: "GroupCallParticipant list"
  gi_Video :: bool

definition BuildGroupInviteOffer :: "GroupInviteOfferParams \<Rightarrow> sig_error + node" where
  "BuildGroupInviteOffer params =
     (if gi_CallID params = [] \<or> IsEmpty (gi_To params) \<or> IsEmpty (gi_CallCreator params)
      then Inl (SigErr ''call identity and target are required'')
      else if length (gi_TargetDevices params) = 0 \<or> length (gi_Participants params) = 0
      then Inl (SigErr ''target devices and roster are required'')
      else bind_res (buildGroupUsers (gi_Participants params) EmptyJID False) (\<lambda>users.
        let children = [audioOpus ''16000''];
            children = (if gi_Video params then children @ [videoOfferNode] else children);
            children = children @
              [net_node ''2'', destinationTo (gi_TargetDevices params), Node ''group_info'' [] (NodesV users)]
        in Inr (callWrap (gi_To params) None
             (offerAction ''offer'' (gi_CallID params) (gi_CallCreator params) children))))"

section \<open>Keys of group calls\<close>

record GroupCallEncRekey =
  rk_CallID :: string
  rk_CallCreator :: JID
  rk_TransactionID :: u32
  rk_KeyGeneration :: u32
  rk_EncryptionType :: string
  rk_EncryptionVersion :: u32
  rk_Ciphertext :: bytes

record GroupEncRekeyParams =
  rp_CallID :: string
  rp_To :: JID
  rp_CallCreator :: JID
  rp_TransactionID :: u32
  rp_RequestID :: string
  rp_DeviceKey :: OfferDeviceKey

definition BuildGroupEncRekey :: "GroupEncRekeyParams \<Rightarrow> sig_error + node" where
  "BuildGroupEncRekey params =
     (let key = rp_DeviceKey params
      in if rp_CallID params = [] \<or> IsEmpty (rp_To params) \<or> IsEmpty (rp_CallCreator params) \<or>
           rp_TransactionID params = 0 \<or> rp_RequestID params = []
         then Inl (SigErr ''incomplete identity'')
         else if DeviceJid key \<noteq> rp_To params \<or> length (Ciphertext key) = 0
         then Inl (SigErr ''encrypted device mismatch or empty ciphertext'')
         else if EncType key \<noteq> ''msg'' \<and> EncType key \<noteq> ''pkmsg''
         then Inl (SigErr ''unsupported encryption type'')
         else Inr (callWrap (rp_To params) (Some (rp_RequestID params)) (Node ''enc_rekey''
           [(''call-id'', StrV (rp_CallID params)), (''call-creator'', JIDV (rp_CallCreator params)),
            (''transaction-id'', StrV (FormatNat (unat (rp_TransactionID params))))]
           (NodesV [encopt_node, encNode key]))))"

definition ParseGroupCallEncRekey :: "node option \<Rightarrow> sig_error + GroupCallEncRekey" where
  "ParseGroupCallEncRekey node =
     (case node of None \<Rightarrow> Inl (SigErr ''unexpected node'')
      | Some node \<Rightarrow>
          if Tag node \<noteq> ''enc_rekey'' then Inl (SigErr ''unexpected node'')
          else
            let attrs = AttrGetter node;
                (callID, attrs) = AttrString ''call-id'' attrs;
                (callCreator, attrs) = AttrJID ''call-creator'' attrs;
                (transactionID, attrs) = requiredUint32Attr ''transaction-id'' attrs
            in bind_res transactionID (\<lambda>transactionID.
               let (encopt, hasEncopt) = GetOptionalChildByTag node [''encopt''];
                   (enc, hasEnc) = GetOptionalChildByTag node [''enc'']
               in if \<not> hasEncopt \<or> \<not> hasEnc then Inl (SigErr ''missing encopt or enc'')
                  else
                    let (keyGeneration, _) = requiredUint32Attr ''keygen'' (AttrGetter encopt)
                    in if keyGeneration \<noteq> Inr 2 then Inl (SigErr ''unsupported key generation'')
                       else
                         let encAttrs = AttrGetter enc;
                             (encryptionType, encAttrs) = AttrString ''type'' encAttrs;
                             (encryptionVersion, encAttrs) = requiredUint32Attr ''v'' encAttrs
                         in bind_res encryptionVersion (\<lambda>encryptionVersion.
                            if (encryptionType \<noteq> ''msg'' \<and> encryptionType \<noteq> ''pkmsg'') \<or> encryptionVersion \<noteq> 2
                            then Inl (SigErr ''unsupported encryption'')
                            else case Content enc of
                                BytesV ciphertext \<Rightarrow>
                                  Inr \<lparr>rk_CallID = callID, rk_CallCreator = callCreator, rk_TransactionID = transactionID,
                                       rk_KeyGeneration = 2, rk_EncryptionType = encryptionType,
                                       rk_EncryptionVersion = encryptionVersion, rk_Ciphertext = ciphertext\<rparr>
                              | _ \<Rightarrow> Inl (SigErr ''ciphertext''))))"

end
