(* ===== verification/Call_Links.thy ===== *)
theory Call_Links
  imports Call_Control
begin

text \<open>
  Call links and their waiting rooms (\<open>lib/signaling/call_link.go\<close>), and the codec settings that the server sends
  with a call (\<open>lib/signaling/voipsettings.go\<close>).
\<close>

section \<open>Requests\<close>

type_synonym CallLinkMedia = string

definition CallLinkMediaAudio :: CallLinkMedia where "CallLinkMediaAudio = ''audio''"
definition CallLinkMediaVideo :: CallLinkMedia where "CallLinkMediaVideo = ''video''"

record CallLink =
  cl_Token :: string
  cl_Media :: CallLinkMedia

record CallLinkPreview =
  pv_Token :: string
  pv_Media :: CallLinkMedia
  pv_Creator :: JID
  pv_CreatorPN :: JID
  pv_WaitingRoomEnabled :: bool
  pv_IsAdmin :: bool

record CallLinkJoin =
  cj_Token :: string
  cj_Media :: CallLinkMedia
  cj_CallID :: string
  cj_CallCreator :: JID
  cj_WaitingRoomEnabled :: bool
  cj_InWaitingRoom :: bool
  cj_IsAdmin :: bool
  cj_Group :: "GroupCallUpdate option"

record WaitingRoomUser =
  wu_JID :: JID
  wu_PN :: JID
  wu_State :: string

record WaitingRoom =
  wr_CallID :: string
  wr_CallCreator :: JID
  wr_LinkToken :: string
  wr_Media :: CallLinkMedia
  wr_Enabled :: bool
  wr_IsAdmin :: bool
  wr_TransactionID :: u32
  wr_Users :: "WaitingRoomUser list"

definition validateCallLinkMedia :: "CallLinkMedia \<Rightarrow> sig_error + unit" where
  "validateCallLinkMedia media =
     (if media \<noteq> CallLinkMediaAudio \<and> media \<noteq> CallLinkMediaVideo then Inl (SigErr ''invalid call-link media'')
      else Inr ())"

definition parseCallLinkMedia :: "string \<Rightarrow> sig_error + CallLinkMedia" where
  "parseCallLinkMedia val = bind_res (validateCallLinkMedia val) (\<lambda>_. Inr val)"

definition buildCallServiceRequest :: "string \<Rightarrow> node \<Rightarrow> sig_error + node" where
  "buildCallServiceRequest requestID action =
     (if requestID = [] then Inl (SigErr ''call-link request ID is required'')
      else Inr (Node ''call'' [(''to'', JIDV (NewJID [] ''call'')), (''id'', StrV requestID)] (NodesV [action])))"

definition BuildCallLinkCreate :: "CallLinkMedia \<Rightarrow> string \<Rightarrow> sig_error + node" where
  "BuildCallLinkCreate media requestID =
     bind_res (validateCallLinkMedia media) (\<lambda>_.
     buildCallServiceRequest requestID (Node ''link_create'' [(''media'', StrV media)] NilV))"

definition BuildCallLinkQuery :: "string \<Rightarrow> CallLinkMedia \<Rightarrow> string \<Rightarrow> sig_error + node" where
  "BuildCallLinkQuery token media requestID =
     (if TrimSpace token = [] then Inl (SigErr ''call-link token is required'')
      else bind_res (validateCallLinkMedia media) (\<lambda>_.
        buildCallServiceRequest requestID
          (Node ''link_query'' [(''token'', StrV token), (''media'', StrV media)] NilV)))"

definition BuildCallLinkJoin :: "string \<Rightarrow> CallLinkMedia \<Rightarrow> string \<Rightarrow> sig_error + node" where
  "BuildCallLinkJoin token media requestID =
     (if TrimSpace token = [] then Inl (SigErr ''call-link token is required'')
      else bind_res (validateCallLinkMedia media) (\<lambda>_.
        let children = [audioOpus ''16000''];
            children = (if media = CallLinkMediaVideo
              then children @ [Node ''video'' [(''dec'', StrV ''H264''), (''device_orientation'', StrV ''0'')] NilV]
              else children);
            children = children @ [net_node ''2'', capability_node CapabilityOffer]
        in buildCallServiceRequest requestID
             (Node ''link_join'' [(''token'', StrV token), (''media'', StrV media)] (NodesV children))))"

text \<open>\<open>maps.Copy\<close> assigns the extra attributes one by one; a nil map has none.\<close>

definition buildWaitingRoomRequest :: "string \<Rightarrow> string \<Rightarrow> JID \<Rightarrow> string \<Rightarrow> attrs \<Rightarrow> node list \<Rightarrow> node" where
  "buildWaitingRoomRequest tag callID creator requestID extraAttrs children =
     (let attrs = foldl (\<lambda>attrs (k, v). set_attr k v attrs)
            [(''call-id'', StrV callID), (''call-creator'', JIDV creator)] extraAttrs
      in Node ''call'' [(''to'', JIDV (NewJID callID ''call'')), (''id'', StrV requestID)]
           (NodesV [Node tag attrs (NodesV children)]))"

definition BuildWaitingRoomToggle :: "string \<Rightarrow> JID \<Rightarrow> bool \<Rightarrow> string \<Rightarrow> node" where
  "BuildWaitingRoomToggle callID creator enabled requestID =
     buildWaitingRoomRequest ''waiting_room_toggle'' callID creator requestID
       [(''enabled'', StrV (if enabled then ''1'' else ''0''))] []"

definition BuildWaitingRoomHeartbeat :: "string \<Rightarrow> JID \<Rightarrow> string \<Rightarrow> node" where
  "BuildWaitingRoomHeartbeat callID creator requestID =
     buildWaitingRoomRequest ''heartbeat'' callID creator requestID [(''type'', StrV ''waiting_room'')] []"

definition BuildWaitingRoomAdmit :: "string \<Rightarrow> JID \<Rightarrow> JID \<Rightarrow> string \<Rightarrow> node" where
  "BuildWaitingRoomAdmit callID creator user requestID =
     buildWaitingRoomRequest ''waiting_room_admit'' callID creator requestID []
       [Node ''user'' [(''jid'', JIDV user)] NilV]"

definition BuildWaitingRoomDeny :: "string \<Rightarrow> JID \<Rightarrow> JID \<Rightarrow> string \<Rightarrow> node" where
  "BuildWaitingRoomDeny callID creator user requestID =
     buildWaitingRoomRequest ''waiting_room_deny'' callID creator requestID []
       [Node ''user'' [(''jid'', JIDV user)] NilV]"

section \<open>Answers\<close>

text \<open>The condition reads \<open>class\<close> and \<open>type\<close> only as far as it has to; the getter is not used afterwards.\<close>

definition validateCallLinkAckEnvelope :: "node option \<Rightarrow> string \<Rightarrow> sig_error + unit" where
  "validateCallLinkAckEnvelope node expectedType =
     (case node of None \<Rightarrow> Inl (SigErr ''nil node'')
      | Some node \<Rightarrow>
          let attrs = AttrGetter node;
              (cls, attrs) = AttrString ''class'' attrs;
              (ty, attrs) = AttrString ''type'' attrs
          in if Tag node \<noteq> ''ack'' \<or> cls \<noteq> ''call'' \<or> ty \<noteq> expectedType then Inl (SigErr ''unexpected envelope'')
             else Inr ())"

definition validateCallLinkAck :: "node option \<Rightarrow> string \<Rightarrow> sig_error + node" where
  "validateCallLinkAck node expectedType =
     bind_res (validateCallLinkAckEnvelope node expectedType) (\<lambda>_.
     case GetOptionalChildByTag (the node) [expectedType] of
       (_, False) \<Rightarrow> Inl (SigErr ''missing payload'')
     | (child, True) \<Rightarrow> Inr child)"

definition ParseCallLinkCreateAck :: "node option \<Rightarrow> sig_error + CallLink" where
  "ParseCallLinkCreateAck node =
     bind_res (validateCallLinkAck node ''link_create'') (\<lambda>child.
     let attrs = AttrGetter child;
         (media, attrs) = AttrString ''media'' attrs
     in bind_res (parseCallLinkMedia media) (\<lambda>media.
        let (token, attrs) = AttrString ''token'' attrs
        in bind_res (check_attrs ''parse link_create ACK'' attrs) (\<lambda>_.
           if token = [] then Inl (SigErr ''missing token'') else Inr \<lparr>cl_Token = token, cl_Media = media\<rparr>)))"

definition ParseCallLinkQueryAck :: "node option \<Rightarrow> sig_error + CallLinkPreview" where
  "ParseCallLinkQueryAck node =
     bind_res (validateCallLinkAck node ''link_query'') (\<lambda>child.
     let attrs = AttrGetter child;
         (media, attrs) = AttrString ''media'' attrs
     in bind_res (parseCallLinkMedia media) (\<lambda>media.
        let (token, attrs) = AttrString ''token'' attrs;
            (creator, attrs) = AttrJID ''link_creator'' attrs;
            (creatorPN, attrs) = OptionalJIDOrEmpty ''link_creator_pn'' attrs
        in bind_res (check_attrs ''parse link_query ACK'' attrs) (\<lambda>_.
           case GetOptionalChildByTag child [''waiting_room''] of
             (_, False) \<Rightarrow> Inl (SigErr ''missing waiting_room'')
           | (waitingRoom, True) \<Rightarrow>
               let wrAttrs = AttrGetter waitingRoom;
                   (enabled, wrAttrs) = flag_attr ''enabled'' wrAttrs;
                   (isAdmin, wrAttrs) = flag_attr ''is_admin'' wrAttrs
               in Inr \<lparr>pv_Token = token, pv_Media = media, pv_Creator = creator, pv_CreatorPN = creatorPN,
                       pv_WaitingRoomEnabled = enabled, pv_IsAdmin = isAdmin\<rparr>)))"

definition parse_room_user :: "node \<Rightarrow> sig_error + WaitingRoomUser" where
  "parse_room_user child =
     (let userAttrs = AttrGetter child;
          (jid, userAttrs) = AttrJID ''jid'' userAttrs;
          (pn, userAttrs) = OptionalJIDOrEmpty ''user_pn'' userAttrs;
          (state, userAttrs) = AttrString ''state'' userAttrs
      in bind_res (check_attrs ''parse waiting room user'' userAttrs) (\<lambda>_.
         Inr \<lparr>wu_JID = jid, wu_PN = pn, wu_State = state\<rparr>))"

definition parseWaitingRoomNode :: "node option \<Rightarrow> sig_error + WaitingRoom" where
  "parseWaitingRoomNode node =
     (case node of None \<Rightarrow> Inl (SigErr ''unexpected node'')
      | Some node \<Rightarrow>
          if Tag node \<noteq> ''waiting_room'' then Inl (SigErr ''unexpected node'')
          else
            let attrs = AttrGetter node;
                (media, attrs) = AttrString ''media'' attrs
            in bind_res (parseCallLinkMedia media) (\<lambda>media.
               let (callID, attrs) = AttrString ''call-id'' attrs;
                   (callCreator, attrs) = AttrJID ''call-creator'' attrs;
                   (linkToken, attrs) = AttrString ''link-token'' attrs;
                   (enabled, attrs) = flag_attr ''enabled'' attrs;
                   (isAdmin, attrs) = flag_attr ''is_admin'' attrs;
                   (raw, attrs) = OptionalString ''transaction-id'' attrs
               in bind_res
                    (if raw \<noteq> [] then parse_u32 ''parse waiting room transaction ID'' raw else Inr 0) (\<lambda>transactionID.
                  bind_res (check_attrs ''parse waiting room'' attrs) (\<lambda>_.
                  bind_res (parse_children ''user'' parse_room_user (GetChildren node)) (\<lambda>users.
                  Inr \<lparr>wr_CallID = callID, wr_CallCreator = callCreator, wr_LinkToken = linkToken,
                       wr_Media = media, wr_Enabled = enabled, wr_IsAdmin = isAdmin,
                       wr_TransactionID = transactionID, wr_Users = users\<rparr>)))))"

definition empty_join :: CallLinkJoin where
  "empty_join =
     \<lparr>cj_Token = [], cj_Media = [], cj_CallID = [], cj_CallCreator = EmptyJID, cj_WaitingRoomEnabled = False,
      cj_InWaitingRoom = False, cj_IsAdmin = False, cj_Group = None\<rparr>"

definition join_room :: "WaitingRoom \<Rightarrow> CallLinkJoin" where
  "join_room waiting =
     empty_join\<lparr>cj_Token := wr_LinkToken waiting, cj_Media := wr_Media waiting, cj_CallID := wr_CallID waiting,
       cj_CallCreator := wr_CallCreator waiting, cj_WaitingRoomEnabled := wr_Enabled waiting,
       cj_IsAdmin := wr_IsAdmin waiting\<rparr>"

definition join_group :: "CallLinkJoin \<Rightarrow> GroupCallUpdate \<Rightarrow> sig_error + CallLinkJoin" where
  "join_group result grp =
     (let result = result\<lparr>cj_Group := Some grp\<rparr>
      in if cj_CallID result = []
         then Inr (result\<lparr>cj_CallID := gu_CallID grp, cj_CallCreator := gu_CallCreator grp, cj_Media := gu_Media grp\<rparr>)
         else if cj_CallID result \<noteq> gu_CallID grp \<or> cj_CallCreator result \<noteq> gu_CallCreator grp
         then Inl (SigErr ''identity mismatch'')
         else Inr result)"

definition ParseCallLinkJoinAck :: "node option \<Rightarrow> sig_error + CallLinkJoin" where
  "ParseCallLinkJoinAck node =
     bind_res (validateCallLinkAckEnvelope node ''link_join'') (\<lambda>_.
     let (waitingNode, hasWaiting) = GetOptionalChildByTag (the node) [''waiting_room'']
     in bind_res
          (if hasWaiting then bind_res (parseWaitingRoomNode (Some waitingNode)) (\<lambda>waiting. Inr (join_room waiting))
           else Inr empty_join) (\<lambda>result.
        bind_res (ParseInitialGroupCallAck node) (\<lambda>grp.
        bind_res (case grp of None \<Rightarrow> Inr result | Some grp \<Rightarrow> join_group result grp) (\<lambda>result.
        if \<not> hasWaiting \<and> grp = None then Inl (SigErr ''missing group_info and waiting_room'')
        else Inr (result\<lparr>cj_InWaitingRoom := hasWaiting \<and> cj_WaitingRoomEnabled result \<and> grp = None\<rparr>)))))"

definition ParseWaitingRoomUpdate :: "node option \<Rightarrow> sig_error + WaitingRoom" where
  "ParseWaitingRoomUpdate node =
     (case node of None \<Rightarrow> Inl (SigErr ''unexpected node'')
      | Some node \<Rightarrow>
          if Tag node \<noteq> ''waiting_room_update'' then Inl (SigErr ''unexpected node'')
          else
            let attrs = AttrGetter node;
                (callID, attrs) = AttrString ''call-id'' attrs;
                (creator, attrs) = AttrJID ''call-creator'' attrs
            in bind_res (check_attrs ''parse waiting room update identity'' attrs) (\<lambda>_.
               case GetOptionalChildByTag node [''waiting_room''] of
                 (_, False) \<Rightarrow> Inl (SigErr ''missing waiting_room'')
               | (child, True) \<Rightarrow>
                   bind_res (parseWaitingRoomNode (Some child)) (\<lambda>room.
                   if wr_CallID room \<noteq> callID \<or> wr_CallCreator room \<noteq> creator then Inl (SigErr ''identity mismatch'')
                   else Inr room)))"

definition BuildWaitingRoomUpdateAck :: "node option \<Rightarrow> sig_error + node" where
  "BuildWaitingRoomUpdateAck node =
     (case node of None \<Rightarrow> Inl (SigErr ''unexpected node'')
      | Some node \<Rightarrow>
          if Tag node \<noteq> ''call'' then Inl (SigErr ''unexpected node'')
          else
            let children = GetChildren node
            in if length children \<noteq> 1 \<or> Tag (children ! 0) \<noteq> ''waiting_room_update''
               then Inl (SigErr ''missing update'')
               else
                 let attrs = AttrGetter node;
                     (to, attrs) = AttrJID ''from'' attrs;
                     (ident, attrs) = AttrString ''id'' attrs
                 in bind_res (check_attrs ''build waiting room ACK'' attrs) (\<lambda>_.
                    Inr (Node ''ack'' [(''to'', JIDV to), (''id'', StrV ident), (''class'', StrV ''call''),
                      (''type'', StrV ''waiting_room_update'')] NilV)))"

section \<open>Codec settings\<close>

record VoipSettings =
  UseMlowCodecV1 :: bool
  FrameMs :: int
  TargetBitrate :: int
  Present :: bool

definition atoiOrZero :: "string \<Rightarrow> int" where
  "atoiOrZero s = (case ParseInt s 64 of (_, Some _) \<Rightarrow> 0 | (n, None) \<Rightarrow> n)"

text \<open>
  \<open>unmarshal\<close> is \<open>json.Unmarshal\<close> into the anonymous struct of the function: the strings \<open>use_mlow_codec_v1\<close>,
  \<open>frame_ms\<close> and \<open>target_bitrate\<close>, empty when they are absent.
\<close>

definition ParseVoipSettings ::
  "(bytes \<Rightarrow> (string \<times> string \<times> string) option) \<Rightarrow> bytes \<Rightarrow> sig_error + VoipSettings" where
  "ParseVoipSettings unmarshal raw =
     (if length (TrimSpace (bytes_str raw)) = 0
      then Inr \<lparr>UseMlowCodecV1 = True, FrameMs = 0, TargetBitrate = 0, Present = False\<rparr>
      else case unmarshal raw of
          None \<Rightarrow> Inl SigJSON
        | Some (useMlow, frameMs, bitrate) \<Rightarrow>
            Inr \<lparr>UseMlowCodecV1 = useMlow \<noteq> ''false'', FrameMs = atoiOrZero frameMs,
                 TargetBitrate = atoiOrZero bitrate, Present = True\<rparr>)"

end
