(* ===== verification/Call_Delivery.thy ===== *)
theory Call_Delivery
  imports Call_Links "HOL-Library.Sublist"
begin

text \<open>
  What is built for a call is read back at the other end of the wire. The order in which the encoder walks an
  attribute map is not determined, so every statement is about all orders: \<open>walks\<close> relates a node to the same
  node with its maps walked in another order, and \<open>received\<close> to the node that the peer decodes.
\<close>

section \<open>Nodes across the wire\<close>

inductive walks :: "node \<Rightarrow> node \<Rightarrow> bool" where
  leaf: "distinct (map fst as) \<Longrightarrow> distinct (map fst as') \<Longrightarrow> map_of as = map_of as' \<Longrightarrow> \<forall>ns. c \<noteq> NodesV ns \<Longrightarrow>
    walks (Node t as c) (Node t as' c)"
| inner: "distinct (map fst as) \<Longrightarrow> distinct (map fst as') \<Longrightarrow> map_of as = map_of as' \<Longrightarrow> list_all2 walks ns ns' \<Longrightarrow>
    walks (Node t as (NodesV ns)) (Node t as' (NodesV ns'))"

inductive_cases walks_NodeE: "walks (Node t as c) n"

definition received :: "node \<Rightarrow> node \<Rightarrow> bool" where
  "received n m \<longleftrightarrow> (\<exists>n'. walks n n' \<and> m = canon_node n')"

text \<open>What the peer finds under a key.\<close>

definition wire_attr :: "attrs \<Rightarrow> string \<Rightarrow> any option" where
  "wire_attr as k =
     (case map_of as k of None \<Rightarrow> None | Some v \<Rightarrow> if skipped v then None else Some (canon_any True v))"

lemma wire_attr_simps [simp]:
  "wire_attr [] k = None"
  "wire_attr ((k', v) # as) k =
     (if k = k' then if skipped v then None else Some (canon_any True v) else wire_attr as k)"
  by (simp_all add: wire_attr_def)

lemma canon_lookup:
  "distinct (map fst as) \<Longrightarrow>
    map_of (map (\<lambda>p. (fst p, canon_any True (snd p))) (filter (\<lambda>p. \<not> skipped (snd p)) as)) k = wire_attr as k"
proof (induction as)
  case (Cons p as)
  then show ?case
    by (cases p) (auto simp: wire_attr_def map_of_key split: option.split)
qed simp

lemma countAttributes_card:
  "distinct (map fst as) \<Longrightarrow> countAttributes as = card {p \<in> set as. \<not> skipped (snd p)}"
  by (simp add: countAttributes_filter distinct_map distinct_card [symmetric])

lemma same_entries:
  assumes "distinct (map fst as)" "distinct (map fst as')" "map_of as = map_of as'"
  shows "set as = set as'" "countAttributes as = countAttributes as'"
    "wire_attr as = wire_attr as'" "list_all P as \<longleftrightarrow> list_all P as'"
  using assms map_of_inject_set [of as as'] countAttributes_card [of as] countAttributes_card [of as']
  by (auto simp: wire_attr_def list_all_iff)

lemma walks_wf: "walks n n' \<Longrightarrow> wf_node n \<Longrightarrow> wf_node n'"
proof (induction rule: walks.induct)
  case (leaf as as' c t)
  then show ?case using same_entries(2,4) [OF leaf(1-3)] by simp
next
  case (inner as as' ns ns' t)
  have "list_all wf_node ns'"
    using inner(4,5) by (auto simp: list_all_length list_all2_conv_all_nth)
  with inner show ?case
    using same_entries(2,4) [OF inner(1-3)] by (auto simp: list_all2_lengthD)
qed

lemma walks_refl: "wf_node n \<Longrightarrow> walks n n"
proof (induction n rule: measure_induct_rule [of size])
  case (less n)
  obtain t as c where n: "n = Node t as c" by (cases n)
  show ?case
  proof (cases "\<exists>ns. c = NodesV ns")
    case True
    then obtain ns where ns: "c = NodesV ns" by blast
    have "walks a a" if "a \<in> set ns" for a
      using less that n ns size_list_estimation' [OF that, of "size a" size] by (auto simp: list_all_iff)
    then show ?thesis
      using less.prems n ns by (auto intro!: walks.inner simp: list_all2_same)
  next
    case False
    then show ?thesis using less.prems n by (auto intro: walks.leaf)
  qed
qed

lemma received_Node:
  assumes "received (Node t as c) m"
  shows "Tag m = t" "map_of (Attrs m) = wire_attr as"
    and "c = NilV \<Longrightarrow> Content m = NilV" and "c = BytesV b \<Longrightarrow> Content m = BytesV b"
    and "c = NodesV ns \<Longrightarrow> list_all2 received ns (GetChildren m)"
proof -
  obtain n' where n': "walks (Node t as c) n'" "m = canon_node n'"
    using assms by (auto simp: received_def)
  from n'(1) obtain as' c' where as: "n' = Node t as' c'" "distinct (map fst as)" "distinct (map fst as')" "map_of as = map_of as'"
    and c: "c = c' \<and> (\<forall>ns. c \<noteq> NodesV ns) \<or> (\<exists>ns ns'. c = NodesV ns \<and> c' = NodesV ns' \<and> list_all2 walks ns ns')"
    by (rule walks_NodeE) auto
  show "Tag m = t" "map_of (Attrs m) = wire_attr as"
    using as n'(2) canon_lookup [OF as(3)] same_entries(3) [OF as(2-4)] by auto
  show "c = NilV \<Longrightarrow> Content m = NilV" "c = BytesV b \<Longrightarrow> Content m = BytesV b"
    using as n'(2) c by auto
  show "list_all2 received ns (GetChildren m)" if "c = NodesV ns"
  proof -
    from c that obtain ns' where ns': "c' = NodesV ns'" "list_all2 walks ns ns'" by auto
    have "GetChildren m = map canon_node ns'"
      using as n'(2) ns'(1) by (simp add: GetChildren_def)
    with ns'(2) show ?thesis
      by (auto simp: list_all2_conv_all_nth received_def)
  qed
qed

text \<open>
  A node with one child is delivered as \<open>P\<close> when the peer decodes it, whatever order the maps were walked in,
  and the child that it finds satisfies \<open>P\<close>.
\<close>

definition delivers :: "node \<Rightarrow> (node \<Rightarrow> bool) \<Rightarrow> bool" where
  "delivers n P \<longleftrightarrow>
     (\<forall>n'. walks n n' \<longrightarrow>
       (\<exists>bs m a. Marshal n' = Inr bs \<and> Unmarshal (tl bs) = (Some m, None) \<and> GetChildren m = [a] \<and> P a))"

lemma deliversI:
  assumes "wf_node n" and "Content n = NodesV [a]" and "\<And>a'. received a a' \<Longrightarrow> P a'"
  shows "delivers n P"
  unfolding delivers_def
proof (intro allI impI)
  fix n' assume w: "walks n n'"
  obtain e where e: "Marshal n' = Inr (0 # e)" "Unmarshal e = (Some (canon_node n'), None)"
    using Marshal_coded [OF walks_wf [OF w assms(1)]] by blast
  have "received n (canon_node n')"
    using w by (auto simp: received_def)
  moreover have "n = Node (Tag n) (Attrs n) (NodesV [a])"
    using assms(2) by (cases n) simp
  ultimately obtain a' where "GetChildren (canon_node n') = [a']" "received a a'"
    using received_Node(5) [of "Tag n" "Attrs n" "NodesV [a]" "canon_node n'" "[a]"] by (auto simp: list_all2_Cons1)
  then show "\<exists>bs m a. Marshal n' = Inr bs \<and> Unmarshal (tl bs) = (Some m, None) \<and> GetChildren m = [a] \<and> P a"
    using e assms(3) by (intro exI [of _ "0 # e"] exI [of _ "canon_node n'"] exI [of _ a']) simp
qed

lemma delivered_to_peer:
  assumes "delivers n P" and "wf_node n"
  shows "\<exists>bs m a. Marshal n = Inr bs \<and> Unmarshal (tl bs) = (Some m, None) \<and> GetChildren m = [a] \<and> P a"
  using assms walks_refl by (auto simp: delivers_def)

section \<open>Reads that succeed\<close>

lemma AuAttrs_AttrGetter [simp]: "AuAttrs (AttrGetter n) = Attrs n" "Errors (AttrGetter n) = []"
  by (simp_all add: AttrGetter_def)

lemma check_attrs_getter [simp]: "check_attrs msg (AttrGetter n) = Inr ()"
  by (simp add: check_attrs_def AuError_def OK_def)

lemmas sig_reads = AttrString_def OptionalString_def flag_attr_def fst_read_def GetString_def AttrJID_def
  OptionalJIDOrEmpty_def GetJID_def optionalUint32Attr_def requiredUint32Attr_def

lemma parse_u32_format [simp]: "parse_u32 msg (FormatNat (unat (x :: u32))) = Inr x"
proof -
  have "unat x < 2 ^ 32" using unsigned_less [of x, where ?'a = nat] by simp
  then show ?thesis by (simp add: parse_u32_def)
qed

lemma parse_u32_two [simp]: "parse_u32 msg ''2'' = Inr 2"
  by (simp add: parse_u32_def ParseUint_def is_digit_def)

lemma canon_str_True [simp]: "canon_str True s = StrV s"
  by (simp add: canon_str_def)

lemma skipped_simps [simp]:
  "skipped (StrV s) \<longleftrightarrow> s = []" "\<not> skipped (JIDV j)"
  by (simp_all add: skipped_def)

lemmas stanza_defs = callWrap_def set_optional_def encopt_node_def encNode_def offerAction_def audioOpus_def
  net_node_def capability_node_def optional_node_def destinationTo_def set_node_attr_def

section \<open>Hands, screens and keys\<close>

lemma raise_hand_read:
  assumes "received (Node ''user_action''
      [(''call-id'', StrV callID), (''call-creator'', JIDV creator), (''action'', StrV ''raise_hand'')]
      (NodesV [Node ''raise_hand'' [(''raise-hand-state'', StrV (if raised then ''1'' else ''0''))] NilV])) a"
    and "callID \<noteq> []" and "\<not> IsEmpty (canon_JID creator)"
  shows "ParseRaiseHand (Some a) = Inr raised"
proof -
  note a = received_Node [OF assms(1)]
  obtain h where h: "GetChildren a = [h]"
    "received (Node ''raise_hand'' [(''raise-hand-state'', StrV (if raised then ''1'' else ''0''))] NilV) h"
    using a(5) by (auto simp: list_all2_Cons1)
  note hh = received_Node [OF h(2)]
  show ?thesis
    using assms(2,3) by (simp add: ParseRaiseHand_def a(1,2) h(1) hh(1,2) sig_reads Let_def)
qed

lemma screen_share_read:
  assumes "received (Node ''screen_share'' (set_optional ''screen_share_id'' (map_option (\<lambda>i. FormatNat (unat i)) ident)
      [(''call-id'', StrV callID), (''call-creator'', JIDV creator),
       (''screenshare_state'', StrV (FormatInt state)), (''version'', StrV ''2'')]) NilV) a"
    and "state = ScreenShareStarted \<or> state = ScreenShareStopped"
  shows "ParseScreenShare (Some a) =
    Inr \<lparr>ss_State = state, ss_Version = 2, ss_ScreenShareID = (case ident of None \<Rightarrow> 0 | Some i \<Rightarrow> i),
         ss_HasScreenShareID = (ident \<noteq> None)\<rparr>"
proof -
  note a = received_Node [OF assms(1)]
  have "FormatInt state \<noteq> []" "ParseInt (FormatInt state) 64 = (state, None)"
    using assms(2) ParseInt_FormatInt [of 64 state]
    by (auto simp: ScreenShareStarted_def ScreenShareStopped_def FormatInt_def)
  then show ?thesis
    using assms(2) by (cases ident) (simp_all add: ParseScreenShare_def a(1,2) set_optional_def sig_reads Let_def)
qed

lemma rekey_read:
  assumes "received (Node ''enc_rekey''
      [(''call-id'', StrV callID), (''call-creator'', JIDV creator), (''transaction-id'', StrV (FormatNat (unat x)))]
      (NodesV [encopt_node, encNode key])) a"
    and "callID \<noteq> []" and "EncType key = ''msg'' \<or> EncType key = ''pkmsg''"
  shows "ParseGroupCallEncRekey (Some a) =
    Inr \<lparr>rk_CallID = callID, rk_CallCreator = canon_JID creator, rk_TransactionID = x, rk_KeyGeneration = 2,
         rk_EncryptionType = EncType key, rk_EncryptionVersion = 2, rk_Ciphertext = Ciphertext key\<rparr>"
proof -
  note a = received_Node [OF assms(1)]
  obtain p e where pe: "GetChildren a = [p, e]" "received encopt_node p" "received (encNode key) e"
    using a(5) by (auto simp: list_all2_Cons1)
  note p = received_Node [OF pe(2) [unfolded encopt_node_def]]
  note e = received_Node [OF pe(3) [unfolded encNode_def]]
  have "EncType key \<noteq> []" using assms(3) by auto
  with assms(2,3) show ?thesis
    by (auto simp: ParseGroupCallEncRekey_def a(1,2) pe(1) p(1,2) e(1,2,4) sig_reads Let_def)
qed

lemma IsEmpty_canon [simp]: "IsEmpty (canon_JID j) = IsEmpty j"
  by (simp add: IsEmpty_def canon_JID_def)

lemma length_u32_text: "length (FormatNat (unat (x :: u32))) < 2147483647"
proof -
  have "unat x < 10 ^ Suc 9" using unsigned_less [of x, where ?'a = nat] by simp
  from length_FormatNat [OF this] show ?thesis by simp
qed

lemma length_state_text:
  "state = ScreenShareStarted \<or> state = ScreenShareStopped \<Longrightarrow> length (FormatInt state) < 2147483647"
  using length_FormatNat [of "nat state" 0]
  by (auto simp: FormatInt_def ScreenShareStarted_def ScreenShareStopped_def)

lemmas wf_built = stanza_defs countAttributes_def max_len_def length_u32_text length_state_text

text \<open>
  C10: The controls of a call are delivered. Whatever order the attribute maps are walked in, a raised or
  lowered hand, a screen share and a key of a group call that one client builds are marshalled, and the
  peer that unmarshals them reads back the state of the hand, the state and identifier of the share, and
  the identity, transaction, type and ciphertext of the key.
\<close>

theorem call_controls_delivered:
  assumes "callID \<noteq> []" "length callID < max_len" "length requestID < max_len"
    and "wf_JID to" "wf_JID creator" "\<not> IsEmpty creator"
    and "state = ScreenShareStarted \<or> state = ScreenShareStopped"
    and "BuildGroupEncRekey \<lparr>rp_CallID = callID, rp_To = to, rp_CallCreator = creator, rp_TransactionID = x,
      rp_RequestID = requestID, rp_DeviceKey = key\<rparr> = Inr rekey" and "length (Ciphertext key) < max_len"
  shows "delivers (BuildRaiseHand callID to creator requestID raised) (\<lambda>a. ParseRaiseHand (Some a) = Inr raised) \<and>
    delivers (BuildScreenShare callID to creator requestID state ident) (\<lambda>a. ParseScreenShare (Some a) =
      Inr \<lparr>ss_State = state, ss_Version = 2, ss_ScreenShareID = (case ident of None \<Rightarrow> 0 | Some i \<Rightarrow> i),
           ss_HasScreenShareID = (ident \<noteq> None)\<rparr>) \<and>
    delivers rekey (\<lambda>a. ParseGroupCallEncRekey (Some a) =
      Inr \<lparr>rk_CallID = callID, rk_CallCreator = canon_JID creator, rk_TransactionID = x, rk_KeyGeneration = 2,
           rk_EncryptionType = EncType key, rk_EncryptionVersion = 2, rk_Ciphertext = Ciphertext key\<rparr>)"
proof (intro conjI)
  show "delivers (BuildRaiseHand callID to creator requestID raised) (\<lambda>a. ParseRaiseHand (Some a) = Inr raised)"
    using assms(1-6)
    by (intro deliversI raise_hand_read [where callID = callID and creator = creator])
       (auto simp: BuildRaiseHand_def wf_built)
  show "delivers (BuildScreenShare callID to creator requestID state ident) (\<lambda>a. ParseScreenShare (Some a) =
      Inr \<lparr>ss_State = state, ss_Version = 2, ss_ScreenShareID = (case ident of None \<Rightarrow> 0 | Some i \<Rightarrow> i),
           ss_HasScreenShareID = (ident \<noteq> None)\<rparr>)"
  proof (rule deliversI)
    show "wf_node (BuildScreenShare callID to creator requestID state ident)"
      using assms by (cases ident) (auto simp: BuildScreenShare_def wf_built)
  qed (use assms(7) screen_share_read in \<open>auto simp: BuildScreenShare_def callWrap_def Let_def\<close>)
  have rekey: "rekey = callWrap to (Some requestID) (Node ''enc_rekey''
      [(''call-id'', StrV callID), (''call-creator'', JIDV creator), (''transaction-id'', StrV (FormatNat (unat x)))]
      (NodesV [encopt_node, encNode key]))" and ty: "EncType key = ''msg'' \<or> EncType key = ''pkmsg''"
    using assms(8) by (auto simp: BuildGroupEncRekey_def Let_def split: if_splits)
  show "delivers rekey (\<lambda>a. ParseGroupCallEncRekey (Some a) =
      Inr \<lparr>rk_CallID = callID, rk_CallCreator = canon_JID creator, rk_TransactionID = x, rk_KeyGeneration = 2,
           rk_EncryptionType = EncType key, rk_EncryptionVersion = 2, rk_Ciphertext = Ciphertext key\<rparr>)"
  proof (rule deliversI)
    show "wf_node rekey"
      using assms ty by (auto simp: rekey wf_built)
  qed (use assms(1) ty rekey_read in \<open>auto simp: rekey callWrap_def\<close>)
qed

definition peer :: JID where
  "peer = NewJID ''15551234567'' DefaultUserServer"

lemma wf_peer [simp]: "wf_JID peer" "\<not> IsEmpty peer"
  by (simp_all add: peer_def wf_JID_def IsEmpty_def DefaultUserServer_def max_len_def)

lemma wf_NewJID [simp]: "wf_JID (NewJID u s) \<longleftrightarrow> length u < max_len \<and> length s < max_len"
  by (simp add: wf_JID_def)

definition sample_rekey :: GroupEncRekeyParams where
  "sample_rekey = \<lparr>rp_CallID = ''C'', rp_To = peer, rp_CallCreator = peer, rp_TransactionID = 7, rp_RequestID = ''r'',
     rp_DeviceKey = \<lparr>DeviceJid = peer, Ciphertext = [1, 2], EncType = ''msg''\<rparr>\<rparr>"

theorem call_controls_delivered_witness:
  "\<exists>rekey bs m a. BuildGroupEncRekey sample_rekey = Inr rekey \<and> Marshal rekey = Inr bs \<and>
    Unmarshal (tl bs) = (Some m, None) \<and> GetChildren m = [a] \<and>
    map_sum id rk_Ciphertext (ParseGroupCallEncRekey (Some a)) = Inr [1, 2]"
proof -
  obtain rekey where r: "BuildGroupEncRekey sample_rekey = Inr rekey" "wf_node rekey"
    by (simp add: sample_rekey_def BuildGroupEncRekey_def wf_built FormatNat.simps [of 7])
  from call_controls_delivered [of "''C''" "''r''" peer peer ScreenShareStarted 7
      "\<lparr>DeviceJid = peer, Ciphertext = [1, 2], EncType = ''msg''\<rparr>" rekey True None]
  have "delivers rekey (\<lambda>a. map_sum id rk_Ciphertext (ParseGroupCallEncRekey (Some a)) = Inr [1, 2])"
    using r by (auto simp: sample_rekey_def max_len_def delivers_def)
  from delivered_to_peer [OF this r(2)] r(1) show ?thesis by blast
qed

section \<open>Rosters\<close>







lemma received_list:
  assumes "list_all2 received (map g xs) ms" and "\<And>x m. x \<in> set xs \<Longrightarrow> received (g x) m \<Longrightarrow> P x m"
  shows "list_all2 P xs ms"
  using assms by (auto simp: list_all2_conv_all_nth)


lemma received_tag: "received n m \<Longrightarrow> Tag m = Tag n"
  by (cases n) (simp add: received_Node(1))

lemma received_tags: "list_all2 received ns ms \<Longrightarrow> map Tag ms = map Tag ns"
  by (induction rule: list_all2_induct) (simp_all add: received_tag)

text \<open>A child whose tag no earlier child has is the one that is found.\<close>

lemma received_child:
  assumes "received (Node t as (NodesV (before @ c # after))) a" and "\<forall>b \<in> set before. Tag b \<noteq> Tag c"
  obtains c' where "GetOptionalChildByTag a [Tag c] = (c', True)" "received c c'"
proof -
  from received_Node(5) [OF assms(1) refl] obtain before' c' after' where
    ch: "GetChildren a = before' @ c' # after'" "list_all2 received before before'" "received c c'"
    by (auto simp: list_all2_append1 list_all2_Cons1)
  have "Tag ` set before' = Tag ` set before"
    using received_tags [OF ch(2)] by (metis set_map)
  with assms(2) have "\<forall>b \<in> set before'. Tag b \<noteq> Tag c" by force
  with ch have "List.find (\<lambda>x. Tag x = Tag c) (GetChildren a) = Some c'"
    unfolding find_leftmost using received_tag by blast
  with ch(3) that show thesis by simp
qed







section \<open>Offers\<close>

text \<open>The tags of the children of an offer, in the order that the server insists on.\<close>

definition offer_tags :: "OfferParams \<Rightarrow> string list" where
  "offer_tags p =
     (if of_PrivacyToken p = None then [] else [''privacy'']) @ [''audio'', ''audio''] @
     (if of_Video p then [''video''] else []) @ [''net''] @
     (if of_Capability p = None then [] else [''capability'']) @
     (if length (of_DeviceKeys p) > 1 then [''destination''] else if length (of_DeviceKeys p) = 1 then [''enc''] else []) @
     [''encopt''] @ (if of_DeviceIdentity p = None then [] else [''device-identity''])"

text \<open>The children of an offer before the one with the keys.\<close>

definition offer_start :: "OfferParams \<Rightarrow> node list" where
  "offer_start p =
     optional_node (\<lambda>t. Node ''privacy'' [] (BytesV t)) (of_PrivacyToken p) @ [audioOpus ''8000'', audioOpus ''16000''] @
     (if of_Video p then [videoOfferNode] else []) @ [net_node ''3''] @
     optional_node capability_node (offerCapability (of_Video p) (of_Capability p))"

lemma offer_start_tags: "b \<in> set (offer_start p) \<Longrightarrow> Tag b \<noteq> ''destination'' \<and> Tag b \<noteq> ''enc''"
  by (auto simp: offer_start_def optional_node_def audioOpus_def net_node_def capability_node_def videoOfferNode_def
      split: option.splits if_splits)

lemma BuildOffer_shape:
  "\<exists>after. Content (BuildOffer p) = NodesV [offerAction ''offer'' (of_CallID p) (of_CallCreator p)
      (offer_start p @ offer_keys (of_DeviceKeys p) @ after)] \<and>
    map Tag (offer_start p @ offer_keys (of_DeviceKeys p) @ after) = offer_tags p"
proof -
  have "Content (BuildOffer p) = NodesV [offerAction ''offer'' (of_CallID p) (of_CallCreator p)
      (offer_start p @ offer_keys (of_DeviceKeys p) @
       [encopt_node] @ optional_node (\<lambda>d. Node ''device-identity'' [] (BytesV d)) (of_DeviceIdentity p))]"
    by (simp add: BuildOffer_def offer_start_def callWrap_def Let_def)
  moreover have "map Tag (offer_start p @ offer_keys (of_DeviceKeys p) @
       [encopt_node] @ optional_node (\<lambda>d. Node ''device-identity'' [] (BytesV d)) (of_DeviceIdentity p)) = offer_tags p"
    by (auto simp: offer_tags_def offer_start_def offer_keys_def optional_node_def offerCapability_def audioOpus_def net_node_def
        capability_node_def videoOfferNode_def encopt_node_def encNode_def split: option.splits if_splits)
  ultimately show ?thesis by blast
qed

lemma enc_child_read: "received (encNode k) e \<Longrightarrow> nodeBytes e = Some (Ciphertext k) \<and> Tag e = ''enc''"
  unfolding encNode_def using received_Node(1,4) by (fastforce simp: nodeBytes_def)

lemma to_child_read:
  assumes "received (Node ''to'' [(''jid'', JIDV (DeviceJid k))] (NodesV [encNode k])) t"
  shows "AttrJID ''jid'' (AttrGetter t) = (canon_JID (DeviceJid k), AttrGetter t)"
    "nodeBytes (GetChildByTag t [''enc'']) = Some (Ciphertext k)"
proof -
  note t = received_Node [OF assms]
  show "AttrJID ''jid'' (AttrGetter t) = (canon_JID (DeviceJid k), AttrGetter t)"
    by (simp add: t(2) sig_reads)
  obtain e where "GetChildren t = [e]" "received (encNode k) e"
    using t(5) by (auto simp: list_all2_Cons1)
  then show "nodeBytes (GetChildByTag t [''enc'']) = Some (Ciphertext k)"
    by (simp add: GetChildByTag_def enc_child_read)
qed

text \<open>
  C40: An offer of a call is delivered: its children arrive in the order on which the server insists, an
  offer for one device carries the encrypted key of that device, and an offer for several devices carries
  for each of them, in order, its address and its key.
\<close>

theorem offer_delivered:
  assumes "wf_node (BuildOffer p)"
  shows "delivers (BuildOffer p) (\<lambda>a. map Tag (GetChildren a) = offer_tags p \<and>
    (\<forall>k. of_DeviceKeys p = [k] \<longrightarrow> nodeBytes (GetChildByTag a [''enc'']) = Some (Ciphertext k)) \<and>
    (length (of_DeviceKeys p) > 1 \<longrightarrow>
      map (\<lambda>t. (fst (AttrJID ''jid'' (AttrGetter t)), nodeBytes (GetChildByTag t [''enc''])))
        (GetChildren (GetChildByTag a [''destination''])) =
      map (\<lambda>k. (canon_JID (DeviceJid k), Some (Ciphertext k))) (of_DeviceKeys p)))"
proof -
  obtain after where shape: "Content (BuildOffer p) = NodesV [offerAction ''offer'' (of_CallID p) (of_CallCreator p)
      (offer_start p @ offer_keys (of_DeviceKeys p) @ after)]"
    "map Tag (offer_start p @ offer_keys (of_DeviceKeys p) @ after) = offer_tags p"
    using BuildOffer_shape by blast
  show ?thesis
  proof (rule deliversI [OF assms shape(1)], intro conjI allI impI)
    fix a assume a: "received (offerAction ''offer'' (of_CallID p) (of_CallCreator p)
      (offer_start p @ offer_keys (of_DeviceKeys p) @ after)) a"
    note a = a [unfolded offerAction_def]
    show "map Tag (GetChildren a) = offer_tags p"
      using received_tags [OF received_Node(5) [OF a refl]] shape(2) by simp
    fix k assume k: "of_DeviceKeys p = [k]"
    then have "received (Node ''offer'' [(''call-id'', StrV (of_CallID p)), (''call-creator'', JIDV (of_CallCreator p))]
        (NodesV (offer_start p @ encNode k # after))) a"
      using a by (simp add: offer_keys_def)
    then obtain e where "GetOptionalChildByTag a [''enc''] = (e, True)" "received (encNode k) e"
      by (rule received_child) (use offer_start_tags in \<open>auto simp: encNode_def\<close>)
    then show "nodeBytes (GetChildByTag a [''enc'']) = Some (Ciphertext k)"
      by (simp add: GetChildByTag_def enc_child_read del: GetOptionalChildByTag.simps)
  next
    fix a assume a: "received (offerAction ''offer'' (of_CallID p) (of_CallCreator p)
      (offer_start p @ offer_keys (of_DeviceKeys p) @ after)) a" and len: "length (of_DeviceKeys p) > 1"
    let ?to = "\<lambda>k. Node ''to'' [(''jid'', JIDV (DeviceJid k))] (NodesV [encNode k])"
    have "received (Node ''offer'' [(''call-id'', StrV (of_CallID p)), (''call-creator'', JIDV (of_CallCreator p))]
        (NodesV (offer_start p @ Node ''destination'' [] (NodesV (map ?to (of_DeviceKeys p))) # after))) a"
      using a len by (simp add: offerAction_def offer_keys_def)
    then obtain d where d: "GetOptionalChildByTag a [''destination''] = (d, True)"
      "received (Node ''destination'' [] (NodesV (map ?to (of_DeviceKeys p)))) d"
      by (rule received_child) (use offer_start_tags in auto)
    have "list_all2 (\<lambda>k t. (fst (AttrJID ''jid'' (AttrGetter t)), nodeBytes (GetChildByTag t [''enc''])) =
        (canon_JID (DeviceJid k), Some (Ciphertext k))) (of_DeviceKeys p) (GetChildren d)"
      by (rule received_list [OF received_Node(5) [OF d(2) refl]]) (simp add: to_child_read)
    then show "map (\<lambda>t. (fst (AttrJID ''jid'' (AttrGetter t)), nodeBytes (GetChildByTag t [''enc''])))
        (GetChildren (GetChildByTag a [''destination''])) =
      map (\<lambda>k. (canon_JID (DeviceJid k), Some (Ciphertext k))) (of_DeviceKeys p)"
      using d(1) by (auto simp: GetChildByTag_def list_all2_conv_all_nth list_eq_iff_nth_eq
          simp del: GetOptionalChildByTag.simps)
  qed
qed

definition sample_call :: OfferParams where
  "sample_call = \<lparr>of_CallID = ''C'', of_To = peer, of_CallCreator = peer,
     of_DeviceKeys = [\<lparr>DeviceJid = peer, Ciphertext = [1], EncType = ''msg''\<rparr>,
       \<lparr>DeviceJid = peer, Ciphertext = [2], EncType = ''pkmsg''\<rparr>],
     of_PrivacyToken = None, of_Capability = Some CapabilityOffer, of_DeviceIdentity = Some [3], of_Video = True\<rparr>"

theorem offer_delivered_witness:
  "\<exists>bs m a. Marshal (BuildOffer sample_call) = Inr bs \<and> Unmarshal (tl bs) = (Some m, None) \<and> GetChildren m = [a] \<and>
    map Tag (GetChildren a) =
      [''audio'', ''audio'', ''video'', ''net'', ''capability'', ''destination'', ''encopt'', ''device-identity''] \<and>
    map (\<lambda>t. nodeBytes (GetChildByTag t [''enc''])) (GetChildren (GetChildByTag a [''destination''])) = [Some [1], Some [2]]"
proof -
  have wf: "wf_node (BuildOffer sample_call)"
    by (simp add: sample_call_def BuildOffer_def offer_keys_def offerCapability_def videoOfferNode_def
        videoOfferEncH264_def videoOfferDecH264_def VideoStateDecH264_def CapabilityVideoOffer_def wf_built Let_def)
  have "delivers (BuildOffer sample_call) (\<lambda>a. map Tag (GetChildren a) =
      [''audio'', ''audio'', ''video'', ''net'', ''capability'', ''destination'', ''encopt'', ''device-identity''] \<and>
    map (\<lambda>t. nodeBytes (GetChildByTag t [''enc''])) (GetChildren (GetChildByTag a [''destination''])) = [Some [1], Some [2]])"
    using offer_delivered [OF wf] unfolding delivers_def
    by (simp add: sample_call_def offer_tags_def map_eq_Cons_conv) (elim all_forward imp_forward ex_forward; auto)
  from delivered_to_peer [OF this wf] show ?thesis .
qed

section \<open>Links\<close>

lemma waiting_room_media:
  "parseWaitingRoomNode n = Inr room \<Longrightarrow> wr_Media room = CallLinkMediaAudio \<or> wr_Media room = CallLinkMediaVideo"
  by (auto simp: parseWaitingRoomNode_def parseCallLinkMedia_def validateCallLinkMedia_def bind_res_Inr_iff Let_def
      split: option.splits prod.splits if_splits)

text \<open>
  The result of joining a call by its link is consistent: the call that it names is the call of its
  roster, the client waits exactly when there is a waiting room in force and no roster, and without a roster
  the media is audio or video.
\<close>

theorem join_consistent:
  assumes "ParseCallLinkJoinAck node = Inr r"
  shows "(\<forall>g. cj_Group r = Some g \<longrightarrow> cj_CallID r = gu_CallID g \<and> cj_CallCreator r = gu_CallCreator g) \<and>
    (cj_InWaitingRoom r \<longrightarrow> cj_Group r = None \<and> cj_WaitingRoomEnabled r) \<and>
    (cj_Group r = None \<longrightarrow> cj_InWaitingRoom r = cj_WaitingRoomEnabled r \<and>
      (cj_Media r = CallLinkMediaAudio \<or> cj_Media r = CallLinkMediaVideo))"
proof -
  obtain w has where w: "GetOptionalChildByTag (the node) [''waiting_room''] = (w, has)" by (metis surj_pair)
  from assms obtain base grp r' where
    base: "(if has then bind_res (parseWaitingRoomNode (Some w)) (\<lambda>waiting. Inr (join_room waiting)) else Inr empty_join) =
      Inr base"
    and grp: "(case grp of None \<Rightarrow> Inr base | Some g \<Rightarrow> join_group base g) = Inr r'"
    and r: "has \<or> grp \<noteq> None" "r = r'\<lparr>cj_InWaitingRoom := has \<and> cj_WaitingRoomEnabled r' \<and> grp = None\<rparr>"
    unfolding ParseCallLinkJoinAck_def w by (auto simp: bind_res_Inr_iff simp del: GetOptionalChildByTag.simps split: if_splits)
  have start: "cj_Group base = None"
    "has \<Longrightarrow> cj_Media base = CallLinkMediaAudio \<or> cj_Media base = CallLinkMediaVideo"
    using base waiting_room_media [of "Some w"]
    by (auto simp: bind_res_Inr_iff join_room_def empty_join_def split: if_splits)
  show ?thesis
    using grp r start by (cases grp) (auto simp: join_group_def Let_def split: if_splits)
qed

definition sample_ack :: node where
  "sample_ack = Node ''ack'' [(''class'', StrV ''call''), (''type'', StrV ''link_join'')]
     (NodesV [Node ''waiting_room'' [(''media'', StrV ''audio''), (''call-id'', StrV ''C''), (''call-creator'', JIDV peer),
       (''link-token'', StrV ''T''), (''enabled'', StrV ''1'')] NilV])"

theorem join_consistent_witness:
  "\<exists>r. ParseCallLinkJoinAck (Some sample_ack) = Inr r \<and> cj_CallID r = ''C'' \<and> cj_InWaitingRoom r"
proof -
  obtain r where r: "ParseCallLinkJoinAck (Some sample_ack) = Inr r" "cj_CallID r = ''C''" "cj_Group r = None"
      "cj_WaitingRoomEnabled r"
    by (simp add: sample_ack_def ParseCallLinkJoinAck_def validateCallLinkAckEnvelope_def ParseInitialGroupCallAck_def
        parseWaitingRoomNode_def parseCallLinkMedia_def validateCallLinkMedia_def CallLinkMediaAudio_def
        CallLinkMediaVideo_def sig_reads Let_def GetChildren_def join_room_def empty_join_def check_attrs_def
        AuError_def OK_def)
  with join_consistent [OF r(1)] show ?thesis by auto
qed

end
