(* ===== verification/Spec2Isabelle.thy ===== *)
theory Spec2Isabelle
  imports Node_Access Noise H264 Rtcp Stun Cache Write_Behind Srtp Sframe App_State_Roundtrip App_State_Client
    Range_Coder_Messages Media_Pipeline Call_Session Lid_Store
    Mlow_Frames Call_Audio Requests Event_Buffer Retry Sessions Call_Delivery
begin

text \<open>
  \<^bold>\<open>A verification of the WhatsApp client library and its bot\<close>

  The program is a client of the WhatsApp multi-device protocol written in Go (\<open>lib/\<close>) with a bot on top of
  it (\<open>cmd/\<close>, \<open>util/\<close>). This development models the layers in which an error is silent: the wire formats,
  the encrypted channel, the synchronisation of the app state, the caches in front of the database, and
  the media path of calls. Every definition follows one function or type of the source and keeps its name.

  \<^bold>\<open>How the parts interact\<close>

  A connection is a websocket whose messages carry frames (\<^verbatim>\<open>socket/framesocket.go\<close>); each frame is
  encrypted with the keys of a noise handshake (\<^verbatim>\<open>noisehandshake.go\<close>, \<^verbatim>\<open>noisesocket.go\<close>) and holds one XML
  element in a binary format (\<^verbatim>\<open>binary/\<close>) whose strings are tokens and whose addresses are JIDs
  (\<^verbatim>\<open>types/jid.go\<close>). Queries are matched with their answers by identifier (\<^verbatim>\<open>request.go\<close>). Settings shared
  by the devices of an account travel as patches of app state collections (\<^verbatim>\<open>appstate/\<close>, \<^verbatim>\<open>appstate.go\<close>),
  authenticated by a summation hash and stored in SQL tables (\<^verbatim>\<open>store/sqlstore\<close>). Messages are sent
  through Signal sessions that are cached in memory (\<^verbatim>\<open>store/sessioncache.go\<close>), addressed through a cached
  mapping of identifiers (\<^verbatim>\<open>lidmap.go\<close>), and kept for retries (\<^verbatim>\<open>retry.go\<close>, \<^verbatim>\<open>memory_eventbuffer.go\<close>). A call
  is a session in a registry (\<^verbatim>\<open>call_registry.go\<close>); its audio is coded by a range coder (\<^verbatim>\<open>mlow/\<close>), packed in
  RTP (\<^verbatim>\<open>rtp/\<close>), encrypted (\<^verbatim>\<open>srtp/\<close>), sent through relays that speak STUN (\<^verbatim>\<open>stun/\<close>), and at the other end
  buffered, mixed and played (\<^verbatim>\<open>call_audio_playout.go\<close>, \<^verbatim>\<open>call_group_audio_mixer.go\<close>).

  \<^bold>\<open>Theories and sources\<close>

  \<^item> \<open>Prelude\<close>, \<open>Strconv\<close>, \<open>Varint\<close>: fixed-width integers as words, results as sums with errors and panics
    on the left, byte strings and big-endian codecs, and the functions of the standard packages \<open>strconv\<close>,
    \<open>strings\<close> and \<open>encoding/binary\<close> that the code calls.
  \<^item> \<open>JIDs\<close>: \<^verbatim>\<open>lib/types/jid.go\<close>. Text, SQL and Signal forms of addresses and their round trips.
  \<^item> \<open>Tokens\<close>, \<open>Encoder\<close>, \<open>Decoder\<close>: \<^verbatim>\<open>lib/binary/token\<close>, \<^verbatim>\<open>encoder.go\<close>, \<^verbatim>\<open>decoder.go\<close>, \<^verbatim>\<open>unpack.go\<close>,
    \<^verbatim>\<open>node.go\<close>. \<open>Decoder_Safety\<close> shows on arbitrary input that readers stay inside it and return; \<open>Codec\<close> and
    \<open>Node_Roundtrip\<close> show that unmarshalling inverts marshalling; \<open>Node_Access\<close> models the accessors of
    \<^verbatim>\<open>node.go\<close> and the attribute reader of \<^verbatim>\<open>attrs.go\<close>.
  \<^item> \<open>Frame_Socket\<close>, \<open>Noise\<close>: \<^verbatim>\<open>lib/socket\<close> and \<^verbatim>\<open>lib/util/gcmutil\<close>. Delivery of frames, the two states
    of a handshake in step, nonces without repetition, and an end-to-end channel.
  \<^item> \<open>Requests\<close>: \<^verbatim>\<open>lib/request.go\<close>. Query nodes, the meaning of answers, and the table of waiters as a step
    relation over the interleavings of senders, receiver and disconnection.
  \<^item> \<open>Lthash\<close>, \<open>App_State_Store\<close>, \<open>App_State\<close>, \<open>App_State_Sync\<close>, \<open>App_State_Roundtrip\<close>, \<open>App_State_Events\<close>,
    \<open>App_State_Client\<close>: \<^verbatim>\<open>lib/appstate\<close>, \<^verbatim>\<open>lib/appstate.go\<close>, \<^verbatim>\<open>lib/cstoken.go\<close> and the app state tables of
    \<^verbatim>\<open>lib/store/sqlstore/store.go\<close>. The locale \<open>app_state_store\<close> is the contract of the tables; decoding refines a
    collection of mutations, what one device encodes another decodes, and fetching keeps the database in
    step with its hashes.
  \<^item> \<open>Cbc\<close>: \<^verbatim>\<open>lib/util/cbcutil\<close>. The streaming operations compute what the one-shot operations compute.
  \<^item> \<open>Client_Cache\<close>, \<open>Event_Buffer\<close>, \<open>Retry\<close>, \<open>Sessions\<close>: \<^verbatim>\<open>lib/cache.go\<close>, \<^verbatim>\<open>lib/store/memory_eventbuffer.go\<close>,
    \<^verbatim>\<open>lib/retry.go\<close>, \<^verbatim>\<open>lib/store/sessioncache.go\<close>, \<^verbatim>\<open>lib/store/signal.go\<close>. What the bounded memories of a client
    still answer, and when they answer something old.
  \<^item> \<open>Lid_Map\<close>, \<open>Lid_Map_Coherence\<close>, \<open>Lid_Store\<close>: \<^verbatim>\<open>lib/store/sqlstore/lidmap.go\<close>. The cached mapping is the
    table behind it while writes are ordered, and is not when they overtake each other.
  \<^item> \<open>Memory_Store\<close>, \<open>Cache\<close>, \<open>Write_Behind\<close>: \<^verbatim>\<open>util/cache\<close>. The linked list with a map refines a list in
    order of use; the write-behind buffer keeps the newest value of every key.
  \<^item> \<open>Rtp\<close>, \<open>H264\<close>, \<open>Rtcp\<close>, \<open>Participant\<close>, \<open>Srtp\<close>, \<open>Sframe\<close>, \<open>Stun\<close>: \<^verbatim>\<open>lib/rtp\<close>, \<^verbatim>\<open>lib/callutil\<close>,
    \<^verbatim>\<open>lib/srtp\<close>, \<^verbatim>\<open>lib/stun\<close>. Packet formats and their round trips, loss reports, rollover counters, sessions.
  \<^item> \<open>Call_Session\<close>, \<open>Media_Pipeline\<close>: \<^verbatim>\<open>lib/call_crypto_session.go\<close>, \<^verbatim>\<open>lib/call_registry.go\<close>. Phases and media
    tasks of calls; protected audio is recovered by the peer across loss and reordering.
  \<^item> \<open>Call_Stanzas\<close>, \<open>Call_Control\<close>, \<open>Call_Links\<close>, \<open>Call_Delivery\<close>: \<^verbatim>\<open>lib/signaling\<close>. The nodes with which a call is
    offered, controlled and joined, their readers, and that what one client builds the peer reads back,
    through the encoder and decoder and in whatever order attribute maps are walked.
  \<^item> \<open>Range_Coder\<close>, \<open>Range_Coder_Encoder\<close>, \<open>Range_Coder_Decoder\<close>, \<open>Range_Coder_Bits\<close>, \<open>Range_Coder_Roundtrip\<close>,
    \<open>Range_Coder_Symbols\<close>, \<open>Range_Coder_Done\<close>, \<open>Range_Coder_Messages\<close>: \<^verbatim>\<open>lib/mlow/rangecoder.go\<close>. The encoder
    narrows an interval, the decoder tracks the offset in it; any sequence of symbols and raw bits that
    fits the buffer is decoded to the same values.
  \<^item> \<open>Mlow_Frames\<close>, \<open>Call_Audio\<close>: \<^verbatim>\<open>lib/mlow/red.go\<close>, \<^verbatim>\<open>toc.go\<close>, the container of \<^verbatim>\<open>decoder.go\<close>,
    \<^verbatim>\<open>lib/call_audio_playout.go\<close>, \<^verbatim>\<open>lib/call_group_audio_mixer.go\<close>. Framing of audio, and what is played.

  \<^bold>\<open>Conventions\<close>

  A struct is a record and its methods are functions on it that return the changed record. An error or a
  panic is a value of a sum type. A mutex-protected method is one step; where the code releases the lock
  in the middle (\<open>Flush\<close>, \<open>receiveResponse\<close>, the background writes of the identifier map) the step is split at
  that point and the properties speak of interleavings. Clocks, random bytes, the order in which a Go map
  is walked and the outcome of input and output are arguments. Code outside the repository (AES, HMAC,
  HKDF, SHA, X25519, zlib, protobuf, JSON, the Signal record format) is an argument as well; where a
  property relies on it, the law (decryption inverts encryption, a decoder inverts its encoder) is a
  hypothesis of the property, and a witness instantiates it with a concrete function.

  \<^bold>\<open>Bounds and fuel\<close>

  Words have the width of the source, so wrap-around is that of Go: sequence numbers, rollover counters,
  nonces, lengths of lists and frames. The properties state the bound under which nothing wraps, or what
  happens when it does. Fuel occurs in the mutual recursion of the binary decoder only: \<open>Unmarshal\<close>
  supplies one unit more than the input has bytes, every level of the recursion consumes a byte, and
  \<open>Unmarshal_terminates\<close> shows that the fuel never runs out. The loops of the code that may not end (the
  normalisation of the range coder when a symbol has no width) return an error value that stands for not
  returning; it is characterised exactly and excluded in the round trip. All other functions are total
  by structural recursion or by a measure.

  \<^bold>\<open>Not modelled\<close>

  Goroutines that only wait (keep-alive, reconnection, the call engine) and transports (websocket, UDP,
  WebRTC, HTTP) are input and output. Sending and receiving messages, pairing and pre-keys are calls to the
  Signal library and to generated protobuf code. The signal processing of the MLow codec works on
  floating-point samples and has no specification other than how it sounds. The queries for groups,
  channels, users and business profiles translate answers into structs field by field. The bot commands
  under \<^verbatim>\<open>cmd\<close> are texts, SQL statements and network requests. Loggers, string forms for debugging and
  schema upgrades do not influence what is proved.
\<close>

end
